(* ===== verification/Arb_Prelude.thy ===== *)
theory Arb_Prelude
  imports Main "HOL-Library.AList" "HOL-Library.Multiset"
begin

text \<open>
  Shared vocabulary of the development: Python values as the bridge sees them, the string
  methods the sources call, insertion-ordered dictionaries, results of fallible code, and the
  transition systems whose invariants the components prove.

  Conventions. A Python \<open>str\<close> is a list of code points; Isabelle's \<open>char\<close> covers the points
  below 256, so \<open>string\<close> is the Latin-1 fragment of Python's type and the white-space and case
  tables below are exact on it. A Python \<open>dict\<close> is an association list with distinct keys in
  insertion order: \<open>AList.update\<close> overwrites in place or appends, as item assignment does, and
  \<open>AList.delete\<close> is \<open>pop\<close>. A raised exception is the left summand of a sum.
\<close>

named_theorems arb_simps \<open>unfolding facts the component proofs share\<close>
named_theorems arb_invs \<open>one-step preservation facts of the components' invariants\<close>

section \<open>Results\<close>

type_synonym ('e, 'a) res = "'e + 'a"

definition bind_r :: "('e, 'a) res \<Rightarrow> ('a \<Rightarrow> ('e, 'b) res) \<Rightarrow> ('e, 'b) res" where
  "bind_r r f = (case r of Inl e \<Rightarrow> Inl e | Inr a \<Rightarrow> f a)"

definition guard_r :: "bool \<Rightarrow> 'e \<Rightarrow> ('e, unit) res" where
  "guard_r b e = (if b then Inr () else Inl e)"

lemma bind_r_Inl [simp]: "bind_r (Inl e) f = Inl e"
  by (simp add: bind_r_def)

lemma bind_r_Inr [simp]: "bind_r (Inr a) f = f a"
  by (simp add: bind_r_def)

lemma bind_r_eq_Inr [simp]: "(bind_r r f = Inr b) \<longleftrightarrow> (\<exists>a. r = Inr a \<and> f a = Inr b)"
  by (cases r) auto

lemma bind_r_eq_Inl: "(bind_r r f = Inl e) \<longleftrightarrow> (r = Inl e \<or> (\<exists>a. r = Inr a \<and> f a = Inl e))"
  by (cases r) auto

lemma guard_r_eq_Inr [simp]: "(guard_r b e = Inr u) \<longleftrightarrow> b"
  by (simp add: guard_r_def)

lemma guard_r_eq_Inl [simp]: "(guard_r b e = Inl e') \<longleftrightarrow> \<not> b \<and> e' = e"
  by (auto simp: guard_r_def)

lemma guard_r_True [simp]: "guard_r True e = Inr ()"
  by (simp add: guard_r_def)

lemma guard_r_False [simp]: "guard_r False e = Inl e"
  by (simp add: guard_r_def)

section \<open>Computations on a state that may raise\<close>

type_synonym ('w, 'e, 'a) st_m = "'w \<Rightarrow> ('e, 'a) res \<times> 'w"

definition ret_m :: "'a \<Rightarrow> ('w, 'e, 'a) st_m" where
  "ret_m x = (\<lambda>w. (Inr x, w))"

definition raise_m :: "'e \<Rightarrow> ('w, 'e, 'a) st_m" where
  "raise_m e = (\<lambda>w. (Inl e, w))"

definition bind_m :: "('w, 'e, 'a) st_m \<Rightarrow> ('a \<Rightarrow> ('w, 'e, 'b) st_m) \<Rightarrow> ('w, 'e, 'b) st_m" where
  "bind_m m f = (\<lambda>w. case m w of (Inl e, w') \<Rightarrow> (Inl e, w') | (Inr x, w') \<Rightarrow> f x w')"

definition when_m :: "bool \<Rightarrow> 'e \<Rightarrow> ('w, 'e, unit) st_m" where
  "when_m bad e = (if bad then raise_m e else ret_m ())"

definition lift_m :: "('e, 'a) res \<Rightarrow> ('w, 'e, 'a) st_m" where
  "lift_m r = (\<lambda>w. (r, w))"

fun for_m :: "'a list \<Rightarrow> ('a \<Rightarrow> ('w, 'e, 'b) st_m) \<Rightarrow> ('w, 'e, 'b list) st_m" where
  "for_m [] f = ret_m []"
| "for_m (x # xs) f = bind_m (f x) (\<lambda>y. bind_m (for_m xs f) (\<lambda>ys. ret_m (y # ys)))"

lemma for_m_Inr:
  assumes "for_m xs f w = (Inr ys, w')" and "x \<in> set xs"
  shows "\<exists>v y v'. f x v = (Inr y, v')"
  using assms
proof (induction xs arbitrary: w ys)
  case (Cons z zs)
  then show ?case by (auto simp: bind_m_def ret_m_def split: prod.splits sum.splits)
qed simp

lemma bind_m_Inr:
  "bind_m m f w = (Inr y, w') \<longleftrightarrow> (\<exists>x w1. m w = (Inr x, w1) \<and> f x w1 = (Inr y, w'))"
  by (auto simp: bind_m_def split: prod.splits sum.splits)

section \<open>Python strings\<close>

definition py_isspace :: "char \<Rightarrow> bool" where
  "py_isspace c = (let n = (of_char c :: nat) in
     (9 \<le> n \<and> n \<le> 13) \<or> (28 \<le> n \<and> n \<le> 32) \<or> n = 133 \<or> n = 160)"

definition py_lstrip :: "string \<Rightarrow> string" where
  "py_lstrip s = dropWhile py_isspace s"

definition py_strip :: "string \<Rightarrow> string" where
  "py_strip s = rev (dropWhile py_isspace (rev (dropWhile py_isspace s)))"

definition py_lower_char :: "char \<Rightarrow> char" where
  "py_lower_char c = (let n = (of_char c :: nat) in
     if (65 \<le> n \<and> n \<le> 90) \<or> (192 \<le> n \<and> n \<le> 222 \<and> n \<noteq> 215) then char_of (n + 32) else c)"

definition py_lower :: "string \<Rightarrow> string" where
  "py_lower s = map py_lower_char s"

definition py_startswith :: "string \<Rightarrow> string \<Rightarrow> bool" where
  "py_startswith s p = (take (length p) s = p)"

definition py_endswith :: "string \<Rightarrow> string \<Rightarrow> bool" where
  "py_endswith s p = (length p \<le> length s \<and> drop (length s - length p) s = p)"

definition line_break :: "char \<Rightarrow> bool" where
  "line_break c \<longleftrightarrow> (of_char c :: nat) \<in> {10, 11, 12, 13, 28, 29, 30, 133}"

text \<open>\<open>str.splitlines()\<close>; \<open>\r\n\<close> is one break and a final break adds no empty line.\<close>

fun py_splitlines :: "string \<Rightarrow> string list" where
  "py_splitlines [] = []"
| "py_splitlines (c # cs) =
    (if line_break c
     then [] # (case cs of d # ds \<Rightarrow> (if c = CHR 0x0D \<and> d = CHR 0x0A then py_splitlines ds else py_splitlines cs)
                        | [] \<Rightarrow> [])
     else (case py_splitlines cs of [] \<Rightarrow> [[c]]
           | l # ls \<Rightarrow> (c # l) # ls))"

text \<open>UTF-8 on the characters modelled; decoding refuses malformed bytes and characters above 255.\<close>

definition utf8 :: "string \<Rightarrow> string" where
  "utf8 s = concat (map (\<lambda>c. let n = (of_char c :: nat) in
     if n < 128 then [c] else [char_of (192 + n div 64), char_of (128 + n mod 64)]) s)"

fun utf8_decode :: "string \<Rightarrow> string option" where
  "utf8_decode [] = Some []"
| "utf8_decode (b # bs) =
    (let n = (of_char b :: nat) in
     if n < 128 then map_option ((#) b) (utf8_decode bs)
     else if n \<in> {194, 195}
     then (case bs of
             [] \<Rightarrow> None
           | d # ds \<Rightarrow> (let m = (of_char d :: nat) in
               if 128 \<le> m \<and> m < 192 then map_option ((#) (char_of ((n - 192) * 64 + (m - 128)))) (utf8_decode ds) else None))
     else None)"

text \<open>\<open>nonblank s\<close> is the sources' test \<open>isinstance(s, str) and s.strip()\<close> on a string.\<close>

definition nonblank :: "string \<Rightarrow> bool" where
  "nonblank s = (py_strip s \<noteq> [])"

lemma utf8_roundtrip [simp]: "utf8_decode (utf8 s) = Some s"
proof (induction s)
  case (Cons c s)
  have n: "(of_char c :: nat) < 256" by simp
  show ?case
  proof (cases "(of_char c :: nat) < 128")
    case True
    with Cons show ?thesis by (simp add: utf8_def)
  next
    case False
    define n where "n = (of_char c :: nat)"
    have "n div 64 = 2 \<or> n div 64 = 3" using False n unfolding n_def by linarith
    moreover have "(of_char (char_of (192 + n div 64) :: char) :: nat) = 192 + n div 64" "(of_char (char_of (128 + n mod 64) :: char) :: nat) = 128 + n mod 64"
      using calculation by (auto simp: of_char_of)
    moreover have "char_of (n div 64 * 64 + n mod 64) = c" unfolding n_def by simp
    ultimately show ?thesis using Cons False by (auto simp: utf8_def n_def [symmetric] Let_def)
  qed
qed (simp add: utf8_def)

lemma py_strip_Nil [simp]: "py_strip [] = []"
  by (simp add: py_strip_def)

lemma nonblank_iff [arb_simps]: "nonblank s \<longleftrightarrow> (\<exists>c \<in> set s. \<not> py_isspace c)"
  by (auto simp: nonblank_def py_strip_def dropWhile_eq_Nil_conv dest: set_dropWhileD)
     (metis dropWhile_eq_Nil_conv hd_dropWhile hd_in_set)

lemma nonblank_not_Nil: "nonblank s \<Longrightarrow> s \<noteq> []"
  by (auto simp: nonblank_def)

lemma py_startswith_append [simp]: "py_startswith (p @ s) p"
  by (simp add: py_startswith_def)

lemma py_startswith_iff: "py_startswith s p \<longleftrightarrow> (\<exists>x. s = p @ x)"
  unfolding py_startswith_def by (metis append_eq_conv_conj append_take_drop_id)

lemma py_endswith_append [simp]: "py_endswith (s @ p) p"
  by (simp add: py_endswith_def)

lemma dropWhile_idem: "dropWhile P (dropWhile P xs) = dropWhile P xs"
  by (induction xs) auto

lemma py_strip_ends:
  assumes "py_strip s \<noteq> []"
  shows "\<not> py_isspace (hd (py_strip s))" and "\<not> py_isspace (last (py_strip s))"
proof -
  let ?a = "dropWhile py_isspace s" and ?b = "dropWhile py_isspace (rev (dropWhile py_isspace s))"
  from assms have b: "?b \<noteq> []" by (simp add: py_strip_def)
  then show "\<not> py_isspace (last (py_strip s))"
    using hd_dropWhile [of py_isspace "rev ?a"] by (simp add: py_strip_def last_rev)
  obtain ws where ws: "rev ?a = ws @ ?b"
    by (metis takeWhile_dropWhile_id)
  then have a: "?a = rev ?b @ rev ws"
    by (metis rev_append rev_rev_ident)
  with b have "hd (rev ?b) = hd ?a" by (metis hd_append rev_is_Nil_conv)
  moreover from a b have "?a \<noteq> []" by (metis append_is_Nil_conv rev_is_Nil_conv)
  then have "\<not> py_isspace (hd ?a)" by (rule hd_dropWhile)
  ultimately show "\<not> py_isspace (hd (py_strip s))" by (simp add: py_strip_def)
qed

lemma py_strip_idem [simp]: "py_strip (py_strip s) = py_strip s"
proof (cases "py_strip s = []")
  case False
  have keep: "dropWhile P xs = xs" if "xs \<noteq> []" and "\<not> P (hd xs)" for P and xs :: string
    using that by (cases xs) auto
  from py_strip_ends [OF False] False have "dropWhile py_isspace (py_strip s) = py_strip s"
    by (simp add: keep)
  moreover from py_strip_ends [OF False] False
  have "dropWhile py_isspace (rev (py_strip s)) = rev (py_strip s)"
    by (simp add: keep hd_rev)
  ultimately show ?thesis by (simp add: py_strip_def [of "py_strip s"])
qed simp

lemma nonblank_strip [simp]: "nonblank (py_strip s) = nonblank s"
  by (simp add: nonblank_def)

section \<open>JSON values and dictionaries\<close>

text \<open>
  The values \<open>json.loads\<close> returns. A float is kept as its \<open>repr\<close>: the modelled code only ever
  asks whether a value is a float, never computes with it.
\<close>

datatype json =
    JNull
  | JBool bool
  | JInt int
  | JFloat string
  | JStr string
  | JArr "json list"
  | JObj "(string \<times> json) list"

type_synonym dict = "(string \<times> json) list"

definition dget :: "dict \<Rightarrow> string \<Rightarrow> json" where
  "dget d k = (case map_of d k of None \<Rightarrow> JNull | Some v \<Rightarrow> v)"

definition dhas :: "dict \<Rightarrow> string \<Rightarrow> bool" where
  "dhas d k = (map_of d k \<noteq> None)"

fun is_str :: "json \<Rightarrow> bool" where
  "is_str (JStr _) = True"
| "is_str _ = False"

fun is_dict :: "json \<Rightarrow> bool" where
  "is_dict (JObj _) = True"
| "is_dict _ = False"

fun str_of :: "json \<Rightarrow> string" where
  "str_of (JStr s) = s"
| "str_of _ = []"

text \<open>The test \<open>isinstance(v, str) and v.strip()\<close>, and the weaker \<open>isinstance(v, str) and v\<close>.\<close>

fun nonblank_str :: "json \<Rightarrow> bool" where
  "nonblank_str (JStr s) = nonblank s"
| "nonblank_str _ = False"

fun nonempty_str :: "json \<Rightarrow> bool" where
  "nonempty_str (JStr s) = (s \<noteq> [])"
| "nonempty_str _ = False"

text \<open>A value that cannot be hashed: a membership test in a set raises \<open>TypeError\<close> for it.\<close>

definition unhashable :: "json \<Rightarrow> bool" where
  "unhashable v \<longleftrightarrow> (case v of JArr _ \<Rightarrow> True | JObj _ \<Rightarrow> True | _ \<Rightarrow> False)"

lemma dget_None [simp]: "\<not> dhas d k \<Longrightarrow> dget d k = JNull"
  by (simp add: dget_def dhas_def)

lemma dget_Some [simp]: "map_of d k = Some v \<Longrightarrow> dget d k = v"
  by (simp add: dget_def)

lemma dhas_Cons [simp]: "dhas ((k, v) # d) k' \<longleftrightarrow> k = k' \<or> dhas d k'"
  by (simp add: dhas_def)

lemma dhas_Nil [simp]: "\<not> dhas [] k"
  by (simp add: dhas_def)

lemma dget_Cons [simp]: "dget ((k, v) # d) k' = (if k = k' then v else dget d k')"
  by (simp add: dget_def)

lemma dhas_append [simp]: "dhas (d @ d') k \<longleftrightarrow> dhas d k \<or> dhas d' k"
  by (auto simp: dhas_def map_add_Some_iff split: option.splits)

lemma dget_append: "dget (d @ d') k = (if dhas d k then dget d k else dget d' k)"
  by (auto simp: dget_def dhas_def map_add_def split: option.splits)

lemma nonblank_str_iff: "nonblank_str v \<longleftrightarrow> (\<exists>s. v = JStr s \<and> nonblank s)"
  by (cases v) auto

lemma nonempty_str_iff: "nonempty_str v \<longleftrightarrow> (\<exists>s. v = JStr s \<and> s \<noteq> [])"
  by (cases v) auto

lemma nonblank_str_nonempty: "nonblank_str v \<Longrightarrow> nonempty_str v"
  by (auto simp: nonblank_str_iff dest: nonblank_not_Nil)

section \<open>Insertion-ordered dictionaries as association lists\<close>

lemma set_alist_update:
  "distinct (map fst xs) \<Longrightarrow>
   set (AList.update k v xs) = insert (k, v) {p \<in> set xs. fst p \<noteq> k}"
  by (induction xs) (auto simp: image_iff)

lemma length_alist_update:
  "length (AList.update k v xs) = (if k \<in> fst ` set xs then length xs else Suc (length xs))"
  by (induction xs) auto

lemma alist_update_fresh: "k \<notin> fst ` set xs \<Longrightarrow> AList.update k v xs = xs @ [(k, v)]"
  by (induction xs) auto

lemma alist_delete_fresh: "k \<notin> fst ` set xs \<Longrightarrow> AList.delete k xs = xs"
  by (induction xs) auto

lemma alist_delete_snoc: "k \<notin> fst ` set xs \<Longrightarrow> AList.delete k (xs @ [(k, v)]) = xs"
  by (induction xs) auto

lemma length_alist_delete:
  "distinct (map fst xs) \<Longrightarrow> k \<in> fst ` set xs \<Longrightarrow> Suc (length (AList.delete k xs)) = length xs"
  by (induction xs) (auto simp: alist_delete_fresh)

lemma set_alist_delete: "set (AList.delete k xs) = {p \<in> set xs. fst p \<noteq> k}"
  by (induction xs) auto

lemma keys_alist_delete: "fst ` set (AList.delete k xs) = fst ` set xs - {k}"
  by (auto simp: set_alist_delete)

section \<open>Transition systems and their invariants\<close>

inductive reachable :: "('s \<Rightarrow> bool) \<Rightarrow> ('s \<Rightarrow> 's \<Rightarrow> bool) \<Rightarrow> 's \<Rightarrow> bool" for init step where
  reach_init: "init s \<Longrightarrow> reachable init step s"
| reach_step: "reachable init step s \<Longrightarrow> step s t \<Longrightarrow> reachable init step t"

text \<open>
  The contract of a component that keeps an invariant: it holds initially and every step keeps
  it. Each stateful component interprets the locale on its own step relation.
\<close>

locale inv_system =
  fixes init :: "'s \<Rightarrow> bool" and step :: "'s \<Rightarrow> 's \<Rightarrow> bool" and inv :: "'s \<Rightarrow> bool"
  assumes inv_init: "init s \<Longrightarrow> inv s"
    and inv_step: "inv s \<Longrightarrow> step s t \<Longrightarrow> inv t"
begin

lemma inv_reachable: "reachable init step s \<Longrightarrow> inv s"
  by (induction rule: reachable.induct) (auto intro: inv_init inv_step)

lemma inv_steps: "step\<^sup>*\<^sup>* s t \<Longrightarrow> inv s \<Longrightarrow> inv t"
  by (induction rule: rtranclp.induct) (auto intro: inv_step)

end

end
