(* ===== verification/Stall_Watch.thy ===== *)
theory Stall_Watch
  imports Complex_Main Arb_Prelude
begin

text \<open>
  The stall detector of running turns (\<open>src/src/agent_redis_bridge/stall_watch.py\<close>). The clock
  readings (\<open>time.monotonic()\<close>) are rationals, so the subtraction of two readings is exact here
  where Python rounds. The optional \<open>before_mark\<close> callback of \<open>check\<close> runs while the re-entrant
  lock is held and may call the watch again: it is a function on the state.
\<close>

section \<open>State\<close>

record stall_state =
  ss_last_progress_ts :: rat
  ss_stalled :: bool
  ss_blind :: bool
  ss_blind_reason :: "string option"
  ss_blind_reported :: bool

record stall_watch =
  sw_after_secs :: int
  sw_tasks :: "string \<rightharpoonup> stall_state"

datatype stall_report =
    StallEpisode string int
  | BlindEpisode string string int

definition PROGRESS_EVENTS :: "string list" where
  "PROGRESS_EVENTS = [''command_started'', ''tool_call'', ''command_output'', ''command_finished'',
     ''tool_output'', ''model_text'', ''model_thinking'', ''turn_continued'']"

definition new_stall_state :: "rat \<Rightarrow> stall_state" where
  "new_stall_state now = \<lparr>ss_last_progress_ts = now, ss_stalled = False, ss_blind = False,
     ss_blind_reason = None, ss_blind_reported = False\<rparr>"

section \<open>Operations\<close>

definition sw_init :: "int \<Rightarrow> stall_watch" where
  "sw_init after_secs = \<lparr>sw_after_secs = max 0 after_secs, sw_tasks = Map.empty\<rparr>"

definition sw_enabled :: "stall_watch \<Rightarrow> bool" where
  "sw_enabled w \<longleftrightarrow> 0 < sw_after_secs w"

definition sw_start :: "stall_watch \<Rightarrow> string \<Rightarrow> rat \<Rightarrow> bool \<Rightarrow> string option \<Rightarrow> stall_watch" where
  "sw_start w t now blind reason =
    (if \<not> sw_enabled w then w
     else w\<lparr>sw_tasks := (sw_tasks w)(t \<mapsto> \<lparr>ss_last_progress_ts = now, ss_stalled = False, ss_blind = blind,
              ss_blind_reason = (if blind then reason else None), ss_blind_reported = False\<rparr>)\<rparr>)"

text \<open>\<open>progress\<close> returns \<open>Some t\<close> for \<open>StallResume(task_id=t)\<close>.\<close>

definition sw_progress :: "stall_watch \<Rightarrow> string \<Rightarrow> string \<Rightarrow> rat \<Rightarrow> string option \<times> stall_watch" where
  "sw_progress w t event now =
    (if \<not> sw_enabled w \<or> event \<notin> set PROGRESS_EVENTS then (None, w)
     else case sw_tasks w t of
       None \<Rightarrow> (None, w\<lparr>sw_tasks := (sw_tasks w)(t \<mapsto> new_stall_state now)\<rparr>)
     | Some s \<Rightarrow>
         (if ss_stalled s \<or> ss_blind s then Some t else None,
          w\<lparr>sw_tasks := (sw_tasks w)(t \<mapsto> s\<lparr>ss_last_progress_ts := now, ss_stalled := False,
               ss_blind := False, ss_blind_reason := None, ss_blind_reported := False\<rparr>)\<rparr>))"

definition sw_mark_blind :: "stall_watch \<Rightarrow> string \<Rightarrow> string \<Rightarrow> rat \<Rightarrow> bool \<times> stall_watch" where
  "sw_mark_blind w t reason now =
    (if \<not> sw_enabled w then (False, w)
     else
       (let s = (case sw_tasks w t of None \<Rightarrow> new_stall_state now | Some s \<Rightarrow> s);
            s' = s\<lparr>ss_blind := True, ss_blind_reason := Some reason,
                   ss_blind_reported := (if \<not> ss_blind s \<and> \<not> ss_stalled s then False else ss_blind_reported s)\<rparr>
        in (\<not> ss_stalled s, w\<lparr>sw_tasks := (sw_tasks w)(t \<mapsto> s')\<rparr>)))"

definition sw_is_blind :: "stall_watch \<Rightarrow> string \<Rightarrow> bool" where
  "sw_is_blind w t \<longleftrightarrow> sw_enabled w \<and> (\<exists>s. sw_tasks w t = Some s \<and> ss_blind s)"

text \<open>The test of \<open>check\<close>, made before and again after the callback: the state when an episode is due.\<close>

definition sw_due :: "stall_watch \<Rightarrow> string \<Rightarrow> rat \<Rightarrow> stall_state option" where
  "sw_due w t now =
    (case sw_tasks w t of
       None \<Rightarrow> None
     | Some s \<Rightarrow>
         if ss_stalled s then None
         else if ss_blind s \<and> ss_blind_reported s then None
         else if now - ss_last_progress_ts s \<le> of_int (sw_after_secs w) then None
         else Some s)"

definition sw_fire :: "stall_watch \<Rightarrow> string \<Rightarrow> rat \<Rightarrow> stall_state \<Rightarrow> stall_report option \<times> stall_watch" where
  "sw_fire w t now s =
    (let secs = \<lfloor>now - ss_last_progress_ts s\<rfloor> in
     if ss_blind s
     then (Some (BlindEpisode t (case ss_blind_reason s of Some (c # cs) \<Rightarrow> c # cs | _ \<Rightarrow> ''unproven'') secs),
           w\<lparr>sw_tasks := (sw_tasks w)(t \<mapsto> s\<lparr>ss_blind_reported := True\<rparr>)\<rparr>)
     else (Some (StallEpisode t secs), w\<lparr>sw_tasks := (sw_tasks w)(t \<mapsto> s\<lparr>ss_stalled := True\<rparr>)\<rparr>))"

definition sw_check ::
  "stall_watch \<Rightarrow> string \<Rightarrow> rat \<Rightarrow> (stall_watch \<Rightarrow> stall_watch) option \<Rightarrow> stall_report option \<times> stall_watch" where
  "sw_check w t now before_mark =
    (if \<not> sw_enabled w then (None, w)
     else case sw_due w t now of
       None \<Rightarrow> (None, w)
     | Some s \<Rightarrow>
         (case before_mark of
            None \<Rightarrow> sw_fire w t now s
          | Some f \<Rightarrow>
              (let w' = f w in
               case sw_due w' t now of None \<Rightarrow> (None, w') | Some s' \<Rightarrow> sw_fire w' t now s')))"

definition sw_unmark_blind_report :: "stall_watch \<Rightarrow> string \<Rightarrow> stall_watch" where
  "sw_unmark_blind_report w t = (case sw_tasks w t of None \<Rightarrow> w
     | Some s \<Rightarrow> w\<lparr>sw_tasks := (sw_tasks w)(t \<mapsto> s\<lparr>ss_blind_reported := False\<rparr>)\<rparr>)"

definition sw_is_blind_reported :: "stall_watch \<Rightarrow> string \<Rightarrow> bool" where
  "sw_is_blind_reported w t \<longleftrightarrow>
     sw_enabled w \<and> (\<exists>s. sw_tasks w t = Some s \<and> ss_blind s \<and> ss_blind_reported s)"

definition sw_unmark :: "stall_watch \<Rightarrow> string \<Rightarrow> stall_watch" where
  "sw_unmark w t = (case sw_tasks w t of None \<Rightarrow> w
     | Some s \<Rightarrow> w\<lparr>sw_tasks := (sw_tasks w)(t \<mapsto> s\<lparr>ss_stalled := False\<rparr>)\<rparr>)"

definition sw_is_stalled :: "stall_watch \<Rightarrow> string \<Rightarrow> bool" where
  "sw_is_stalled w t \<longleftrightarrow> sw_enabled w \<and> (\<exists>s. sw_tasks w t = Some s \<and> ss_stalled s)"

definition sw_end :: "stall_watch \<Rightarrow> string \<Rightarrow> stall_watch" where
  "sw_end w t = w\<lparr>sw_tasks := (sw_tasks w)(t := None)\<rparr>"

section \<open>Runs of the watch\<close>

datatype sw_op =
    SStart string rat bool "string option"
  | SProgress string string rat
  | SMarkBlind string string rat
  | SCheck string rat
  | SUnmarkBlindReport string
  | SUnmark string
  | SEnd string

fun sw_apply :: "stall_watch \<Rightarrow> sw_op \<Rightarrow> stall_report option \<times> stall_watch" where
  "sw_apply w (SStart t now b r) = (None, sw_start w t now b r)"
| "sw_apply w (SProgress t ev now) = (None, snd (sw_progress w t ev now))"
| "sw_apply w (SMarkBlind t r now) = (None, snd (sw_mark_blind w t r now))"
| "sw_apply w (SCheck t now) = sw_check w t now None"
| "sw_apply w (SUnmarkBlindReport t) = (None, sw_unmark_blind_report w t)"
| "sw_apply w (SUnmark t) = (None, sw_unmark w t)"
| "sw_apply w (SEnd t) = (None, sw_end w t)"

fun sw_run :: "stall_watch \<Rightarrow> sw_op list \<Rightarrow> stall_report list" where
  "sw_run w [] = []"
| "sw_run w (x # xs) = (case sw_apply w x of (r, w') \<Rightarrow>
     (case r of None \<Rightarrow> [] | Some e \<Rightarrow> [e]) @ sw_run w' xs)"

text \<open>The operations that open a new stall episode for a task: they clear its stalled mark.\<close>

fun reopens_stall :: "string \<Rightarrow> sw_op \<Rightarrow> bool" where
  "reopens_stall t (SStart t' _ _ _) = (t = t')"
| "reopens_stall t (SProgress t' ev _) = (t = t' \<and> ev \<in> set PROGRESS_EVENTS)"
| "reopens_stall t (SUnmark t') = (t = t')"
| "reopens_stall t (SEnd t') = (t = t')"
| "reopens_stall t _ = False"

fun reopens_blind :: "string \<Rightarrow> sw_op \<Rightarrow> bool" where
  "reopens_blind t (SStart t' _ _ _) = (t = t')"
| "reopens_blind t (SProgress t' ev _) = (t = t' \<and> ev \<in> set PROGRESS_EVENTS)"
| "reopens_blind t (SUnmarkBlindReport t') = (t = t')"
| "reopens_blind t (SEnd t') = (t = t')"
| "reopens_blind t _ = False"

fun stall_alarm_for :: "string \<Rightarrow> stall_report \<Rightarrow> bool" where
  "stall_alarm_for t (StallEpisode t' _) = (t = t')"
| "stall_alarm_for t (BlindEpisode _ _ _) = False"

fun blind_report_for :: "string \<Rightarrow> stall_report \<Rightarrow> bool" where
  "blind_report_for t (BlindEpisode t' _ _) = (t = t')"
| "blind_report_for t (StallEpisode _ _) = False"

lemmas sw_defs = sw_start_def sw_progress_def sw_mark_blind_def sw_check_def sw_due_def sw_fire_def
  sw_unmark_blind_report_def sw_unmark_def sw_end_def sw_enabled_def Let_def

section \<open>Lemmas\<close>

definition stalled_at :: "stall_watch \<Rightarrow> string \<Rightarrow> bool" where
  "stalled_at w t \<longleftrightarrow> (\<exists>s. sw_tasks w t = Some s \<and> ss_stalled s)"

definition blind_reported_at :: "stall_watch \<Rightarrow> string \<Rightarrow> bool" where
  "blind_reported_at w t \<longleftrightarrow> (\<exists>s. sw_tasks w t = Some s \<and> ss_blind s \<and> ss_blind_reported s)"

lemma sw_apply_keeps_stalled:
  "stalled_at w t \<Longrightarrow> \<not> reopens_stall t x \<Longrightarrow> stalled_at (snd (sw_apply w x)) t"
  by (cases x) (auto simp: sw_defs stalled_at_def split: option.splits if_splits)

lemma sw_apply_keeps_blind_reported:
  "blind_reported_at w t \<Longrightarrow> \<not> reopens_blind t x \<Longrightarrow> blind_reported_at (snd (sw_apply w x)) t"
  by (cases x) (auto simp: sw_defs blind_reported_at_def split: option.splits if_splits)

lemma sw_apply_alarm:
  "fst (sw_apply w x) = Some e \<Longrightarrow> stall_alarm_for t e \<Longrightarrow>
     \<not> stalled_at w t \<and> stalled_at (snd (sw_apply w x)) t"
  by (cases x) (auto simp: sw_defs stalled_at_def split: option.splits if_splits)

lemma sw_apply_blind_report:
  "fst (sw_apply w x) = Some e \<Longrightarrow> blind_report_for t e \<Longrightarrow>
     \<not> blind_reported_at w t \<and> blind_reported_at (snd (sw_apply w x)) t"
  by (cases x) (auto simp: sw_defs blind_reported_at_def split: option.splits if_splits)


text \<open>
  A latched report: it is made only while its latch is open and closes it, and nothing but the
  named operations opens the latch again. Both kinds of episode report follow this contract.
\<close>

locale episode_latch =
  fixes app :: "'w \<Rightarrow> 'op \<Rightarrow> 'r option \<times> 'w" and run :: "'w \<Rightarrow> 'op list \<Rightarrow> 'r list"
    and latched :: "'w \<Rightarrow> bool" and reopens :: "'op \<Rightarrow> bool" and reports :: "'r \<Rightarrow> bool"
  assumes run_Nil: "run w [] = []"
    and run_Cons: "run w (x # xs) = (case fst (app w x) of None \<Rightarrow> [] | Some e \<Rightarrow> [e]) @ run (snd (app w x)) xs"
    and keeps: "latched w \<Longrightarrow> \<not> reopens x \<Longrightarrow> latched (snd (app w x))"
    and fires: "fst (app w x) = Some e \<Longrightarrow> reports e \<Longrightarrow> \<not> latched w \<and> latched (snd (app w x))"
begin

lemma latched_silent:
  "latched w \<Longrightarrow> \<forall>x \<in> set xs. \<not> reopens x \<Longrightarrow> filter reports (run w xs) = []"
proof (induction xs arbitrary: w)
  case (Cons x xs)
  from Cons.prems have "latched (snd (app w x))" by (simp add: keeps)
  with Cons have "filter reports (run (snd (app w x)) xs) = []" by simp
  moreover have "\<not> reports e" if "fst (app w x) = Some e" for e
    using that fires Cons.prems(1) by blast
  ultimately show ?case by (auto simp: run_Cons split: option.splits)
qed (simp add: run_Nil)

lemma one_report: "\<forall>x \<in> set xs. \<not> reopens x \<Longrightarrow> length (filter reports (run w xs)) \<le> 1"
proof (induction xs arbitrary: w)
  case (Cons x xs)
  show ?case
  proof (cases "\<exists>e. fst (app w x) = Some e \<and> reports e")
    case True
    then obtain e where e: "fst (app w x) = Some e" "reports e" by blast
    with fires have "latched (snd (app w x))" by blast
    with latched_silent Cons.prems have "filter reports (run (snd (app w x)) xs) = []" by simp
    with e show ?thesis by (simp add: run_Cons)
  next
    case False
    with Cons show ?thesis by (auto simp: run_Cons split: option.splits)
  qed
qed (simp add: run_Nil)

end

interpretation stall_latch:
  episode_latch sw_apply sw_run "\<lambda>w. stalled_at w t" "reopens_stall t" "stall_alarm_for t" for t
proof
  show "sw_run w (x # xs) =
      (case fst (sw_apply w x) of None \<Rightarrow> [] | Some e \<Rightarrow> [e]) @ sw_run (snd (sw_apply w x)) xs" for w x xs
    by (simp split: prod.splits)
qed (auto dest: sw_apply_keeps_stalled sw_apply_alarm)

interpretation blind_latch:
  episode_latch sw_apply sw_run "\<lambda>w. blind_reported_at w t" "reopens_blind t" "blind_report_for t" for t
proof
  show "sw_run w (x # xs) =
      (case fst (sw_apply w x) of None \<Rightarrow> [] | Some e \<Rightarrow> [e]) @ sw_run (snd (sw_apply w x)) xs" for w x xs
    by (simp split: prod.splits)
qed (auto dest: sw_apply_keeps_blind_reported sw_apply_blind_report)

section \<open>Properties\<close>

text \<open>C37: One report per episode. In any run of watch operations that contains no start, progress event,
  unmark or end for a task, the task is alarmed at most once; and in any run with no start, progress
  event, blind-report unmark or end for it, its blindness is reported at most once.\<close>

theorem one_report_per_episode:
  "((\<forall>x \<in> set xs. \<not> reopens_stall t x) \<longrightarrow> length (filter (stall_alarm_for t) (sw_run w xs)) \<le> 1) \<and>
   ((\<forall>x \<in> set xs. \<not> reopens_blind t x) \<longrightarrow> length (filter (blind_report_for t) (sw_run w xs)) \<le> 1)"
  using stall_latch.one_report blind_latch.one_report by blast

definition demo_watch :: stall_watch where
  "demo_watch = sw_start (sw_init 10) ''t'' 0 False None"

theorem one_report_per_episode_witness:
  "length (filter (stall_alarm_for ''t'')
     (sw_run demo_watch [SCheck ''t'' 5, SCheck ''t'' 11, SMarkBlind ''t'' ''dark'' 12, SCheck ''t'' 40])) \<le> 1"
  using one_report_per_episode
    [of "[SCheck ''t'' 5, SCheck ''t'' 11, SMarkBlind ''t'' ''dark'' 12, SCheck ''t'' 40]" "''t''" demo_watch]
  by simp

text \<open>\<open>check\<close> alarms exactly when the task is watched, not already stalled, not blind, and has been
  silent for longer than the threshold, and then reports the whole seconds of silence (at least the
  threshold); a blind task is never alarmed, only reported blind, once.\<close>

theorem check_exact:
  assumes "sw_enabled w"
  shows "(fst (sw_check w t now None) = Some (StallEpisode t' k) \<longleftrightarrow>
      t' = t \<and> (\<exists>s. sw_tasks w t = Some s \<and> \<not> ss_stalled s \<and> \<not> ss_blind s \<and>
         of_int (sw_after_secs w) < now - ss_last_progress_ts s \<and> k = \<lfloor>now - ss_last_progress_ts s\<rfloor>)) \<and>
    (fst (sw_check w t now None) = Some (StallEpisode t' k) \<longrightarrow> sw_after_secs w \<le> k) \<and>
    (sw_is_blind w t \<longrightarrow> fst (sw_check w t now None) \<noteq> Some (StallEpisode t' k)) \<and>
    (fst (sw_check w t now None) = Some (BlindEpisode t' r k) \<longrightarrow>
      t' = t \<and> sw_is_blind w t \<and> \<not> sw_is_blind_reported w t \<and>
      sw_is_blind_reported (snd (sw_check w t now None)) t)"
  using assms
  by (auto simp: sw_defs sw_is_blind_def sw_is_blind_reported_def le_floor_iff split: option.splits)

theorem check_exact_witness:
  "fst (sw_check demo_watch ''t'' 25 None) = Some (StallEpisode ''t'' 25)"
  using check_exact [of demo_watch "''t''" 25 "''t''" 25 "''r''"]
  by (simp add: demo_watch_def sw_init_def sw_start_def sw_enabled_def)

text \<open>Going dark never retracts an alarm and never resets the clock: marking a task blind keeps its
  stalled mark and its last progress time, and tells the caller that a stale marker may be cleared
  exactly when no alarm is active.\<close>

theorem mark_blind_keeps_alarm:
  assumes "sw_enabled w" and "sw_tasks w t = Some s"
  shows "case sw_mark_blind w t reason now of (clear, w') \<Rightarrow>
    (clear \<longleftrightarrow> \<not> ss_stalled s) \<and> sw_is_blind w' t \<and> sw_is_stalled w' t = sw_is_stalled w t \<and>
    map_option ss_last_progress_ts (sw_tasks w' t) = Some (ss_last_progress_ts s) \<and>
    (\<forall>t'. t' \<noteq> t \<longrightarrow> sw_tasks w' t' = sw_tasks w t')"
  using assms by (simp add: sw_mark_blind_def sw_is_blind_def sw_is_stalled_def sw_enabled_def Let_def)

theorem mark_blind_keeps_alarm_witness:
  "let w = snd (sw_check demo_watch ''t'' 25 None) in
   \<not> fst (sw_mark_blind w ''t'' ''dark'' 30) \<and> sw_is_stalled (snd (sw_mark_blind w ''t'' ''dark'' 30)) ''t''"
proof -
  let ?s = "(new_stall_state 0)\<lparr>ss_stalled := True\<rparr>"
  let ?w = "snd (sw_check demo_watch ''t'' 25 None)"
  have w: "?w = \<lparr>sw_after_secs = 10, sw_tasks = [''t'' \<mapsto> ?s]\<rparr>"
    by (simp add: demo_watch_def sw_init_def sw_defs new_stall_state_def)
  have "sw_enabled ?w" and "sw_tasks ?w ''t'' = Some ?s"
    unfolding w by (simp_all add: sw_enabled_def)
  from mark_blind_keeps_alarm [OF this, of "''dark''" 30] show ?thesis
    unfolding w by (auto simp: sw_is_stalled_def sw_enabled_def split: prod.splits)
qed

text \<open>A progress event ends every episode: it is announced as a resume exactly when the task was
  stalled or blind, the task is then neither, and no check within the threshold of it reports
  anything.\<close>

theorem progress_ends_episode:
  assumes "sw_enabled w" and "ev \<in> set PROGRESS_EVENTS"
  shows "case sw_progress w t ev now of (res, w') \<Rightarrow>
    (res = Some t \<longleftrightarrow> sw_is_stalled w t \<or> sw_is_blind w t) \<and>
    \<not> sw_is_stalled w' t \<and> \<not> sw_is_blind w' t \<and>
    (\<forall>later. later - now \<le> of_int (sw_after_secs w) \<longrightarrow> sw_check w' t later None = (None, w'))"
  using assms
  by (auto simp: sw_defs sw_is_stalled_def sw_is_blind_def new_stall_state_def split: option.splits)

theorem progress_ends_episode_witness:
  "fst (sw_progress (snd (sw_check demo_watch ''t'' 25 None)) ''t'' ''tool_call'' 26) = Some ''t''"
proof -
  let ?s = "(new_stall_state 0)\<lparr>ss_stalled := True\<rparr>"
  let ?w = "snd (sw_check demo_watch ''t'' 25 None)"
  have w: "?w = \<lparr>sw_after_secs = 10, sw_tasks = [''t'' \<mapsto> ?s]\<rparr>"
    by (simp add: demo_watch_def sw_init_def sw_defs new_stall_state_def)
  have "sw_enabled ?w" and ev: "''tool_call'' \<in> set PROGRESS_EVENTS"
    unfolding w by (simp_all add: sw_enabled_def PROGRESS_EVENTS_def)
  from progress_ends_episode [OF this, of "''t''" 26] show ?thesis
    unfolding w by (auto simp: sw_is_stalled_def sw_enabled_def split: prod.splits)
qed

end
