(* ===== verification/Py_Base64.thy ===== *)
theory Py_Base64
  imports Arb_Prelude
begin

text \<open>
  Python's \<open>base64.b64encode\<close> and \<open>base64.b64decode\<close> (non-strict) as the planes use them on keys and
  sealed bodies. A byte string is a list of \<open>char\<close>. The decoder is the standard library's automaton:
  it skips characters outside the alphabet, stops at a completed padding, and fails on an
  incomplete quadruple or on a non-ASCII character.
\<close>

definition b64_alphabet :: string where
  "b64_alphabet = ''ABCDEFGHIJKLMNOPQRSTUVWXYZabcdefghijklmnopqrstuvwxyz0123456789+/''"

definition b64_char :: "nat \<Rightarrow> char" where
  "b64_char n = b64_alphabet ! n"

fun index_of :: "'a list \<Rightarrow> 'a \<Rightarrow> nat option" where
  "index_of [] y = None"
| "index_of (x # xs) y = (if x = y then Some 0 else map_option Suc (index_of xs y))"

definition b64_val :: "char \<Rightarrow> nat option" where
  "b64_val c = index_of b64_alphabet c"

definition byte :: "char \<Rightarrow> nat" where
  "byte c = of_char c"

fun b64_encode :: "string \<Rightarrow> string" where
  "b64_encode [] = []"
| "b64_encode [a] = [b64_char (byte a div 4), b64_char ((byte a mod 4) * 16), CHR ''='', CHR ''='']"
| "b64_encode [a, b] =
     [b64_char (byte a div 4), b64_char ((byte a mod 4) * 16 + byte b div 16),
      b64_char ((byte b mod 16) * 4), CHR ''='']"
| "b64_encode (a # b # c # xs) =
     b64_char (byte a div 4) # b64_char ((byte a mod 4) * 16 + byte b div 16) #
     b64_char ((byte b mod 16) * 4 + byte c div 64) # b64_char (byte c mod 64) # b64_encode xs"

text \<open>The decoder: \<open>q\<close> is the position in the quadruple, \<open>l\<close> the bits left over, \<open>p\<close> the pads seen.\<close>

fun b64_scan :: "string \<Rightarrow> nat \<Rightarrow> nat \<Rightarrow> nat \<Rightarrow> string option" where
  "b64_scan [] q l p = (if q = 0 then Some [] else None)"
| "b64_scan (c # cs) q l p =
     (if c = CHR ''=''
      then (if 2 \<le> q \<and> 4 \<le> q + Suc p then Some []
            else b64_scan cs q l (if 2 \<le> q then Suc p else p))
      else case b64_val c of
        None \<Rightarrow> b64_scan cs q l p
      | Some v \<Rightarrow>
          (if q = 0 then b64_scan cs 1 v 0
           else if q = 1 then map_option ((#) (char_of (l * 4 + v div 16))) (b64_scan cs 2 (v mod 16) 0)
           else if q = 2 then map_option ((#) (char_of (l * 16 + v div 4))) (b64_scan cs 3 (v mod 4) 0)
           else map_option ((#) (char_of (l * 64 + v))) (b64_scan cs 0 0 0)))"

definition b64_decode :: "string \<Rightarrow> string option" where
  "b64_decode s = (if \<exists>c \<in> set s. 128 \<le> byte c then None else b64_scan s 0 0 0)"

section \<open>Lemmas\<close>

lemma index_of_nth: "distinct xs \<Longrightarrow> n < length xs \<Longrightarrow> index_of xs (xs ! n) = Some n"
proof (induction xs arbitrary: n)
  case (Cons x xs)
  then show ?case by (cases n) auto
qed simp

lemma b64_alphabet_facts:
  "length b64_alphabet = 64" "distinct b64_alphabet" "CHR ''='' \<notin> set b64_alphabet"
  "\<forall>c \<in> set b64_alphabet. byte c < 128"
  by (simp_all add: b64_alphabet_def byte_def)

lemma b64_val_char [simp]: "n < 64 \<Longrightarrow> b64_val (b64_char n) = Some n"
  by (simp add: b64_val_def b64_char_def index_of_nth b64_alphabet_facts)

lemma b64_char_in: "n < 64 \<Longrightarrow> b64_char n \<in> set b64_alphabet"
  by (simp add: b64_char_def b64_alphabet_facts)

lemma b64_char_not_pad [simp]: "n < 64 \<Longrightarrow> b64_char n \<noteq> CHR ''=''"
  using b64_char_in b64_alphabet_facts(3) by metis

lemma byte_less [simp]: "byte c < 256"
  by (simp add: byte_def)

lemma char_of_byte [simp]: "char_of (byte c) = c"
  by (simp add: byte_def)

lemma byte_parts [simp]:
  "byte a div 4 < 64" "(byte a mod 4) * 16 < 64" "(byte a mod 4) * 16 + byte b div 16 < 64"
  "(byte b mod 16) * 4 < 64" "(byte b mod 16) * 4 + byte c div 64 < 64" "byte c mod 64 < 64"
  using byte_less [of a] byte_less [of b] byte_less [of c] by linarith+

lemma byte_joins [simp]:
  "byte c div 16 div 16 = 0" "byte c div 16 mod 16 = byte c div 16"
  "byte c div 64 div 4 = 0" "byte c div 64 mod 4 = byte c div 64"
proof -
  have "byte c div 16 < 16" "byte c div 64 < 4" using byte_less [of c] by linarith+
  then show "byte c div 16 div 16 = 0" "byte c div 16 mod 16 = byte c div 16"
    "byte c div 64 div 4 = 0" "byte c div 64 mod 4 = byte c div 64" by simp_all
qed

lemma b64_scan_encode: "b64_scan (b64_encode xs) 0 l p = Some xs"
  by (induction xs arbitrary: l p rule: b64_encode.induct) simp_all

lemma b64_char_ascii [simp]: "n < 64 \<Longrightarrow> byte (b64_char n) < 128"
  using b64_alphabet_facts(4) b64_char_in by blast

lemma byte_pad [simp]: "byte CHR ''='' < 128"
  by (simp add: byte_def)

lemma b64_encode_ascii: "\<forall>c \<in> set (b64_encode xs). byte c < 128"
  by (induction xs rule: b64_encode.induct) simp_all

lemma b64_roundtrip [simp]: "b64_decode (b64_encode xs) = Some xs"
  using b64_encode_ascii by (force simp: b64_decode_def b64_scan_encode not_le)

end
