(* ===== verification/Arb_Crypto.thy ===== *)
theory Arb_Crypto
  imports Py_Base64
begin

text \<open>
  The crypto wrappers (\<open>src/src/arb_crypto/__init__.py\<close>). PyNaCl and SHA-256 are not code of this
  repository: they are the fields of a record the definitions take as an argument, and what the
  planes rely on is the predicate \<open>nacl_contract\<close>, the documented behaviour of \<open>SealedBox\<close> and
  \<open>Box\<close>. The randomness an encryption draws is an explicit argument.
\<close>

record nacl =
  nacl_pk_ok :: "string \<Rightarrow> bool"                              \<comment> \<open>\<open>PublicKey(b)\<close> succeeds\<close>
  nacl_sk_ok :: "string \<Rightarrow> bool"                              \<comment> \<open>\<open>PrivateKey(b)\<close> succeeds\<close>
  nacl_pk_of :: "string \<Rightarrow> string"                            \<comment> \<open>\<open>bytes(PrivateKey(b).public_key)\<close>\<close>
  nacl_sealed_encrypt :: "string \<Rightarrow> string \<Rightarrow> string \<Rightarrow> string"  \<comment> \<open>randomness, public key, plain text\<close>
  nacl_sealed_decrypt :: "string \<Rightarrow> string \<Rightarrow> string option"    \<comment> \<open>private key, cipher text\<close>
  nacl_box_encrypt :: "string \<Rightarrow> string \<Rightarrow> string \<Rightarrow> string \<Rightarrow> string"  \<comment> \<open>own private, peer public, nonce, text\<close>
  nacl_box_decrypt :: "string \<Rightarrow> string \<Rightarrow> string \<Rightarrow> string \<Rightarrow> string option"
  nacl_sha256_hex :: "string \<Rightarrow> string"

datatype crypto_error = MalformedPublicKey | BadPrivateKey | CryptoError

definition NONCE_SIZE :: nat where
  "NONCE_SIZE = 24"

definition validate_public_key :: "nacl \<Rightarrow> string \<Rightarrow> (crypto_error, string) res" where
  "validate_public_key nc pk = (if nacl_pk_ok nc pk then Inr pk else Inl MalformedPublicKey)"

definition private_key :: "nacl \<Rightarrow> string \<Rightarrow> (crypto_error, string) res" where
  "private_key nc sk = (if nacl_sk_ok nc sk then Inr sk else Inl BadPrivateKey)"

definition decrypted :: "string option \<Rightarrow> (crypto_error, string) res" where
  "decrypted x = (case x of None \<Rightarrow> Inl CryptoError | Some m \<Rightarrow> Inr m)"

definition seal :: "nacl \<Rightarrow> string \<Rightarrow> string \<Rightarrow> string \<Rightarrow> (crypto_error, string) res" where
  "seal nc rnd plaintext pk =
     bind_r (validate_public_key nc pk) (\<lambda>k. Inr (nacl_sealed_encrypt nc rnd k plaintext))"

definition unseal :: "nacl \<Rightarrow> string \<Rightarrow> string \<Rightarrow> (crypto_error, string) res" where
  "unseal nc sealed sk = bind_r (private_key nc sk) (\<lambda>k. decrypted (nacl_sealed_decrypt nc k sealed))"

definition box_seal :: "nacl \<Rightarrow> string \<Rightarrow> string \<Rightarrow> string \<Rightarrow> string \<Rightarrow> (crypto_error, string) res" where
  "box_seal nc nonce plaintext sk pk =
     bind_r (private_key nc sk) (\<lambda>s. bind_r (validate_public_key nc pk) (\<lambda>p.
       Inr (nonce @ nacl_box_encrypt nc s p nonce plaintext)))"

definition box_open :: "nacl \<Rightarrow> string \<Rightarrow> string \<Rightarrow> string \<Rightarrow> (crypto_error, string) res" where
  "box_open nc ciphertext sk pk =
     bind_r (private_key nc sk) (\<lambda>s. bind_r (validate_public_key nc pk) (\<lambda>p.
       decrypted (nacl_box_decrypt nc s p (take NONCE_SIZE ciphertext) (drop NONCE_SIZE ciphertext))))"

definition fingerprint :: "nacl \<Rightarrow> string \<Rightarrow> string" where
  "fingerprint nc pk = nacl_sha256_hex nc pk"

definition generate_keypair :: "nacl \<Rightarrow> string \<Rightarrow> string \<times> string" where
  "generate_keypair nc rnd = (rnd, nacl_pk_of nc rnd)"

definition load_privkey :: "string \<Rightarrow> string option" where
  "load_privkey file_text = b64_decode (py_strip file_text)"

definition nacl_contract :: "nacl \<Rightarrow> bool" where
  "nacl_contract nc \<longleftrightarrow>
     (\<forall>sk. nacl_sk_ok nc sk \<longrightarrow> nacl_pk_ok nc (nacl_pk_of nc sk)) \<and>
     (\<forall>sk r m. nacl_sk_ok nc sk \<longrightarrow>
        nacl_sealed_decrypt nc sk (nacl_sealed_encrypt nc r (nacl_pk_of nc sk) m) = Some m) \<and>
     (\<forall>a b n m. nacl_sk_ok nc a \<and> nacl_sk_ok nc b \<and> length n = NONCE_SIZE \<longrightarrow>
        nacl_box_decrypt nc b (nacl_pk_of nc a) n (nacl_box_encrypt nc a (nacl_pk_of nc b) n m) = Some m)"

section \<open>Lemmas\<close>

lemma seal_unseal:
  assumes "nacl_contract nc" and "nacl_sk_ok nc sk"
  shows "seal nc rnd m (nacl_pk_of nc sk) = Inr (nacl_sealed_encrypt nc rnd (nacl_pk_of nc sk) m)"
    and "unseal nc (nacl_sealed_encrypt nc rnd (nacl_pk_of nc sk) m) sk = Inr m"
  using assms
  by (auto simp: nacl_contract_def seal_def unseal_def validate_public_key_def private_key_def decrypted_def)

lemma box_seal_open:
  assumes "nacl_contract nc" and "nacl_sk_ok nc a" and "nacl_sk_ok nc b" and "length nonce = NONCE_SIZE"
    and "box_seal nc nonce m a (nacl_pk_of nc b) = Inr ct"
  shows "box_open nc ct b (nacl_pk_of nc a) = Inr m"
  using assms
  by (auto simp: nacl_contract_def box_seal_def box_open_def validate_public_key_def private_key_def
      decrypted_def split: if_splits)

lemma box_seal_total:
  assumes "nacl_contract nc" and "nacl_sk_ok nc a" and "nacl_sk_ok nc b"
  shows "\<exists>ct. box_seal nc nonce m a (nacl_pk_of nc b) = Inr ct"
  using assms by (auto simp: nacl_contract_def box_seal_def validate_public_key_def private_key_def)

text \<open>
  An instance of the contract, for the witnesses: keys are any strings, a public key is its private
  key with a tag, and a cipher text carries the keys it was made for.
\<close>

definition demo_nacl :: nacl where
  "demo_nacl = \<lparr>nacl_pk_ok = (\<lambda>pk. pk \<noteq> []), nacl_sk_ok = (\<lambda>sk. True), nacl_pk_of = (\<lambda>sk. CHR ''P'' # sk),
     nacl_sealed_encrypt = (\<lambda>r pk m. replicate (length pk) CHR ''k'' @ CHR ''|'' # pk @ m),
     nacl_sealed_decrypt = (\<lambda>sk ct.
        let n = length (takeWhile (\<lambda>c. c = CHR ''k'') ct); rest = drop (Suc n) ct
        in if take n rest = CHR ''P'' # sk then Some (drop n rest) else None),
     nacl_box_encrypt = (\<lambda>sk pk n m. m),
     nacl_box_decrypt = (\<lambda>sk pk n ct. Some ct),
     nacl_sha256_hex = (\<lambda>b. ''fp'' @ b)\<rparr>"

lemma demo_nacl_contract: "nacl_contract demo_nacl"
proof -
  have tw: "takeWhile (\<lambda>c. c = CHR ''k'') (replicate n CHR ''k'' @ CHR ''|'' # xs) = replicate n CHR ''k''" for n xs
    by (simp add: takeWhile_tail)
  show ?thesis
    by (simp add: nacl_contract_def demo_nacl_def Let_def tw del: replicate.simps)
qed

end
