(* ===== verification/Messages_Store.thy ===== *)
theory Messages_Store
  imports Arb_Crypto
begin

text \<open>
  The queue of privileged requests of ARB Messages: the schema (\<open>src/src/arb_messages/run.py\<close>), the
  SQL of the store (\<open>store.py\<close>) and of the recipient keys (\<open>keys.py\<close>). A table is the list of its
  rows in insertion order and an SQL statement the function on rows its clauses say. The connection
  is in autocommit mode, so each statement, and each \<open>conn.transaction()\<close> block, is one atomic step
  at the transaction's \<open>now()\<close>; a \<open>timestamptz\<close> is an integer count of microseconds. \<open>locked\<close> are the
  rows that other transactions hold locked, which \<open>SKIP LOCKED\<close> passes over.
\<close>

section \<open>Schema\<close>

record msg_row =
  m_id :: int
  m_agent_id :: string
  m_request_id :: string
  m_request_type :: string
  m_provider :: string
  m_capability :: string
  m_status :: string
  m_policy_decision :: "string option"
  m_policy_reason :: "string option"
  m_reason :: "string option"
  m_provider_token_id :: "string option"
  m_body :: "string option"
  m_attempts :: int
  m_claimed_at :: "int option"
  m_completed_at :: "int option"
  m_delivered_at :: "int option"
  m_token_revoked_at :: "int option"
  m_created_at :: int

record key_row =
  k_agent_id :: string
  k_pubkey :: string
  k_fingerprint :: string
  k_created_at :: int
  k_revoked_at :: "int option"

record msg_db =
  md_messages :: "msg_row list"
  md_keys :: "key_row list"
  md_next_id :: int

definition setup_schema :: msg_db where
  "setup_schema = \<lparr>md_messages = [], md_keys = [], md_next_id = 1\<rparr>"

section \<open>The store\<close>

definition update_rows :: "(msg_row \<Rightarrow> bool) \<Rightarrow> (msg_row \<Rightarrow> msg_row) \<Rightarrow> msg_db \<Rightarrow> msg_db" where
  "update_rows sel f db = db\<lparr>md_messages := map (\<lambda>r. if sel r then f r else r) (md_messages db)\<rparr>"

definition new_row ::
  "int \<Rightarrow> int \<Rightarrow> string \<Rightarrow> string \<Rightarrow> string \<Rightarrow> string \<Rightarrow> string \<Rightarrow> string option \<Rightarrow> string option \<Rightarrow> msg_row" where
  "new_row i now agent req rtype prov cap pdec preason =
     \<lparr>m_id = i, m_agent_id = agent, m_request_id = req, m_request_type = rtype, m_provider = prov,
      m_capability = cap, m_status = ''pending'', m_policy_decision = pdec, m_policy_reason = preason,
      m_reason = None, m_provider_token_id = None, m_body = None, m_attempts = 0, m_claimed_at = None,
      m_completed_at = None, m_delivered_at = None, m_token_revoked_at = None, m_created_at = now\<rparr>"

definition find_request :: "msg_db \<Rightarrow> string \<Rightarrow> string \<Rightarrow> msg_row option" where
  "find_request db agent req =
     List.find (\<lambda>r. m_agent_id r = agent \<and> m_request_id r = req) (md_messages db)"

text \<open>\<open>bigserial\<close> takes its next value even when the insert conflicts and does nothing.\<close>

definition enqueue ::
  "msg_db \<Rightarrow> int \<Rightarrow> string \<Rightarrow> string \<Rightarrow> string \<Rightarrow> string \<Rightarrow> string \<Rightarrow> string option \<Rightarrow> string option
    \<Rightarrow> int \<times> msg_db" where
  "enqueue db now agent req rtype prov cap pdec preason =
    (case find_request db agent req of
       Some r \<Rightarrow> (m_id r, db\<lparr>md_next_id := md_next_id db + 1\<rparr>)
     | None \<Rightarrow>
         (md_next_id db,
          db\<lparr>md_messages := md_messages db @
               [new_row (md_next_id db) now agent req rtype prov cap pdec preason],
             md_next_id := md_next_id db + 1\<rparr>))"

definition claimable :: "int \<Rightarrow> int \<Rightarrow> msg_row \<Rightarrow> bool" where
  "claimable now lease r \<longleftrightarrow>
     m_status r = ''pending'' \<or>
     (m_status r = ''claimed'' \<and> (case m_claimed_at r of None \<Rightarrow> False | Some c \<Rightarrow> c < now - lease * 1000000))"

definition older :: "msg_row \<Rightarrow> msg_row \<Rightarrow> bool" where
  "older q r \<longleftrightarrow> m_created_at q < m_created_at r \<or> (m_created_at q = m_created_at r \<and> m_id q < m_id r)"

fun oldest :: "msg_row list \<Rightarrow> msg_row option" where
  "oldest [] = None"
| "oldest (r # rs) = (case oldest rs of None \<Rightarrow> Some r | Some q \<Rightarrow> Some (if older q r then q else r))"

definition claim :: "msg_db \<Rightarrow> int \<Rightarrow> int set \<Rightarrow> int \<Rightarrow> msg_row option \<times> msg_db" where
  "claim db now locked lease =
    (case oldest (filter (\<lambda>r. claimable now lease r \<and> m_id r \<notin> locked) (md_messages db)) of
       None \<Rightarrow> (None, db)
     | Some c \<Rightarrow>
         (let f = (\<lambda>r. r\<lparr>m_status := ''claimed'', m_claimed_at := Some now,
                          m_attempts := m_attempts r + 1, m_token_revoked_at := None\<rparr>)
          in (Some (f c), update_rows (\<lambda>r. m_id r = m_id c) f db)))"

text \<open>The keyword arguments of \<open>fenced_write\<close> that its callers pass; \<open>FCompletedNow\<close> is \<open>_SqlNow()\<close>.\<close>

datatype msg_field =
    FStatus string
  | FBody string
  | FProviderTokenId "string option"
  | FCompletedNow
  | FPolicyReason string
  | FReason string

fun assign_field :: "int \<Rightarrow> msg_field \<Rightarrow> msg_row \<Rightarrow> msg_row" where
  "assign_field now (FStatus s) r = r\<lparr>m_status := s\<rparr>"
| "assign_field now (FBody b) r = r\<lparr>m_body := Some b\<rparr>"
| "assign_field now (FProviderTokenId p) r = r\<lparr>m_provider_token_id := p\<rparr>"
| "assign_field now FCompletedNow r = r\<lparr>m_completed_at := Some now\<rparr>"
| "assign_field now (FPolicyReason x) r = r\<lparr>m_policy_reason := Some x\<rparr>"
| "assign_field now (FReason x) r = r\<lparr>m_reason := Some x\<rparr>"

definition fence :: "int \<Rightarrow> int \<Rightarrow> msg_row \<Rightarrow> bool" where
  "fence i c r \<longleftrightarrow>
     m_id r = i \<and> m_status r = ''claimed'' \<and> m_claimed_at r = Some c \<and> m_token_revoked_at r = None"

definition fenced_write :: "msg_db \<Rightarrow> int \<Rightarrow> int \<Rightarrow> int \<Rightarrow> msg_field list \<Rightarrow> bool \<times> msg_db" where
  "fenced_write db now i c fs =
    (if fs = [] then (True, db)
     else (length (filter (fence i c) (md_messages db)) = 1,
           update_rows (fence i c) (fold (assign_field now) fs) db))"

definition is_still_owner :: "msg_db \<Rightarrow> int \<Rightarrow> int \<Rightarrow> bool" where
  "is_still_owner db i c \<longleftrightarrow> (\<exists>r \<in> set (md_messages db). fence i c r)"

datatype delivery =
    DStatus string
  | DBody string string
  | DBodyIsNone

definition read_and_mark_delivered :: "msg_db \<Rightarrow> int \<Rightarrow> string \<Rightarrow> string \<Rightarrow> delivery \<times> msg_db" where
  "read_and_mark_delivered db now agent req =
    (case find_request db agent req of
       None \<Rightarrow> (DStatus ''not_found'', db)
     | Some r \<Rightarrow>
         (if m_status r \<in> {''pending'', ''claimed'', ''failed'', ''denied''} then (DStatus (m_status r), db)
          else if m_status r = ''done'' \<and> m_delivered_at r = None
          then (case m_body r of
                  None \<Rightarrow> (DBodyIsNone, db)
                | Some b \<Rightarrow> (DBody ''delivered'' b,
                             update_rows (\<lambda>q. m_id q = m_id r) (\<lambda>q. q\<lparr>m_delivered_at := Some now\<rparr>) db))
          else if m_status r = ''done''
          then (case m_body r of None \<Rightarrow> (DBodyIsNone, db) | Some b \<Rightarrow> (DBody ''already_delivered'' b, db))
          else (DStatus (m_status r), db)))"

definition write_sealed_result :: "msg_db \<Rightarrow> int \<Rightarrow> int \<Rightarrow> int \<Rightarrow> string \<Rightarrow> string option \<Rightarrow> bool \<times> msg_db" where
  "write_sealed_result db now i c sealed ptid =
     fenced_write db now i c [FStatus ''done'', FBody sealed, FProviderTokenId ptid, FCompletedNow]"

definition write_provider_token_id :: "msg_db \<Rightarrow> int \<Rightarrow> int \<Rightarrow> int \<Rightarrow> string \<Rightarrow> bool \<times> msg_db" where
  "write_provider_token_id db now i c ptid = fenced_write db now i c [FProviderTokenId (Some ptid)]"

definition mark_failed :: "msg_db \<Rightarrow> int \<Rightarrow> int \<Rightarrow> int \<Rightarrow> string \<Rightarrow> bool \<times> msg_db" where
  "mark_failed db now i c reason =
     fenced_write db now i c [FStatus ''failed'', FPolicyReason reason, FReason reason]"

definition mark_denied :: "msg_db \<Rightarrow> int \<Rightarrow> int \<Rightarrow> int \<Rightarrow> string \<Rightarrow> bool \<times> msg_db" where
  "mark_denied db now i c reason =
     fenced_write db now i c [FStatus ''denied'', FPolicyReason reason, FReason reason]"

section \<open>Recipient keys\<close>

definition register_key ::
  "nacl \<Rightarrow> msg_db \<Rightarrow> int \<Rightarrow> string \<Rightarrow> string \<Rightarrow> (crypto_error, msg_db) res" where
  "register_key nc db now agent pk =
    bind_r (validate_public_key nc pk) (\<lambda>_. Inr (db\<lparr>md_keys :=
        map (\<lambda>k. if k_agent_id k = agent \<and> k_revoked_at k = None then k\<lparr>k_revoked_at := Some now\<rparr> else k)
            (md_keys db) @
        [\<lparr>k_agent_id = agent, k_pubkey = b64_encode pk, k_fingerprint = fingerprint nc pk, k_created_at = now,
          k_revoked_at = None\<rparr>]\<rparr>))"

definition live_key :: "msg_db \<Rightarrow> string \<Rightarrow> (string, string option) res" where
  "live_key db agent =
    (case List.find (\<lambda>k. k_agent_id k = agent \<and> k_revoked_at k = None) (md_keys db) of
       None \<Rightarrow> Inr None
     | Some k \<Rightarrow> (case b64_decode (k_pubkey k) of None \<Rightarrow> Inl ''binascii.Error'' | Some pk \<Rightarrow> Inr (Some pk)))"


section \<open>The queue as a transition system\<close>


inductive msg_step :: "int \<Rightarrow> msg_db \<Rightarrow> msg_db \<Rightarrow> bool" for lease where
  st_enqueue: "msg_step lease db (snd (enqueue db now agent req rtype prov cap pdec preason))"
| st_claim: "msg_step lease db (snd (claim db now locked lease))"
| st_sealed: "msg_step lease db (snd (write_sealed_result db now i c sealed ptid))"
| st_token: "msg_step lease db (snd (write_provider_token_id db now i c tid))"
| st_failed: "msg_step lease db (snd (mark_failed db now i c reason))"
| st_denied: "msg_step lease db (snd (mark_denied db now i c reason))"
| st_deliver: "msg_step lease db (snd (read_and_mark_delivered db now agent req))"
| st_key: "register_key nc db now agent pk = Inr db' \<Longrightarrow> msg_step lease db db'"

definition row_ok :: "msg_row \<Rightarrow> bool" where
  "row_ok r \<longleftrightarrow>
     m_status r \<in> {''pending'', ''claimed'', ''done'', ''failed'', ''denied''} \<and>
     (m_status r = ''pending'' \<longleftrightarrow> m_claimed_at r = None) \<and>
     (m_status r = ''done'' \<longrightarrow> m_body r \<noteq> None) \<and>
     (m_delivered_at r \<noteq> None \<longrightarrow> m_status r = ''done'') \<and>
     m_token_revoked_at r = None"

definition key_ok :: "key_row \<Rightarrow> bool" where
  "key_ok k \<longleftrightarrow> (\<exists>pk. k_pubkey k = b64_encode pk)"

definition msg_inv :: "msg_db \<Rightarrow> bool" where
  "msg_inv db \<longleftrightarrow>
     distinct (map m_id (md_messages db)) \<and>
     (\<forall>r \<in> set (md_messages db). m_id r < md_next_id db \<and> row_ok r) \<and>
     distinct (map (\<lambda>r. (m_agent_id r, m_request_id r)) (md_messages db)) \<and>
     distinct (map k_agent_id (filter (\<lambda>k. k_revoked_at k = None) (md_keys db))) \<and>
     (\<forall>k \<in> set (md_keys db). key_ok k)"

lemmas msg_writes = write_sealed_result_def write_provider_token_id_def mark_failed_def mark_denied_def

text \<open>A write to the rows that changes no identifying column.\<close>

lemma update_rows_simps [simp]:
  "md_keys (update_rows sel f db) = md_keys db"
  "md_next_id (update_rows sel f db) = md_next_id db"
  "set (md_messages (update_rows sel f db)) = (\<lambda>r. if sel r then f r else r) ` set (md_messages db)"
  by (simp_all add: update_rows_def)

lemma msg_inv_update_rows:
  assumes "msg_inv db"
    and "\<And>r. r \<in> set (md_messages db) \<Longrightarrow> sel r \<Longrightarrow>
      m_id (f r) = m_id r \<and> m_agent_id (f r) = m_agent_id r \<and> m_request_id (f r) = m_request_id r \<and> row_ok (f r)"
  shows "msg_inv (update_rows sel f db)"
proof -
  have "map m_id (md_messages (update_rows sel f db)) = map m_id (md_messages db)"
    using assms(2) by (auto simp: update_rows_def)
  moreover have "map (\<lambda>r. (m_agent_id r, m_request_id r)) (md_messages (update_rows sel f db))
      = map (\<lambda>r. (m_agent_id r, m_request_id r)) (md_messages db)"
    using assms(2) by (auto simp: update_rows_def)
  moreover have "m_id r < md_next_id db \<and> row_ok r" if "r \<in> set (md_messages (update_rows sel f db))" for r
    using that assms by (auto simp: msg_inv_def split: if_splits)
  ultimately show ?thesis
    using assms(1) by (simp only: msg_inv_def update_rows_simps(1,2)) blast
qed

lemma update_rows_none: "(\<And>r. r \<in> set (md_messages db) \<Longrightarrow> \<not> sel r) \<Longrightarrow> update_rows sel f db = db"
  by (simp add: update_rows_def map_idI)

lemma find_request_None:
  "find_request db agent req = None \<longleftrightarrow>
     (agent, req) \<notin> (\<lambda>r. (m_agent_id r, m_request_id r)) ` set (md_messages db)"
  by (auto simp: find_request_def find_None_iff)

lemma find_request_Some:
  "find_request db agent req = Some r \<Longrightarrow>
     r \<in> set (md_messages db) \<and> m_agent_id r = agent \<and> m_request_id r = req"
  by (auto simp: find_request_def find_Some_iff)

lemma find_request_unique:
  assumes "msg_inv db" and "r \<in> set (md_messages db)" and "m_agent_id r = agent" and "m_request_id r = req"
  shows "find_request db agent req = Some r"
proof (cases "find_request db agent req")
  case None
  with assms show ?thesis by (force simp: find_request_None)
next
  case (Some q)
  from find_request_Some [OF this] assms have "q = r"
    by (auto simp: msg_inv_def distinct_map dest: inj_onD)
  with Some show ?thesis by simp
qed

lemma oldest_in: "oldest rs = Some r \<Longrightarrow> r \<in> set rs"
  by (induction rs arbitrary: r) (auto split: option.splits if_splits)

lemma oldest_None [simp]: "oldest rs = None \<longleftrightarrow> rs = []"
  by (cases rs) (auto split: option.splits)

lemma older_order:
  "\<not> older r r" "older q r \<Longrightarrow> \<not> older r q" "\<not> older q y \<Longrightarrow> \<not> older y r \<Longrightarrow> \<not> older q r"
  by (auto simp: older_def)

lemma oldest_least: "oldest rs = Some r \<Longrightarrow> q \<in> set rs \<Longrightarrow> \<not> older q r"
proof (induction rs arbitrary: r q)
  case (Cons x rs)
  show ?case
  proof (cases "oldest rs")
    case None
    with Cons.prems show ?thesis by (auto simp: older_order)
  next
    case (Some y)
    have least: "\<not> older z y" if "z \<in> set rs" for z
      using Cons.IH [OF Some that] .
    from Some Cons.prems(1) have r: "r = (if older y x then y else x)" by simp
    show ?thesis
    proof (cases "q = x")
      case True
      with r older_order(1,2) show ?thesis by metis
    next
      case False
      with Cons.prems(2) least have "\<not> older q y" by simp
      with r older_order(3) show ?thesis by metis
    qed
  qed
qed simp

lemma claim_cases:
  assumes "claim db now locked lease = (ro, db')"
  obtains (empty) "ro = None" "db' = db"
      "filter (\<lambda>r. claimable now lease r \<and> m_id r \<notin> locked) (md_messages db) = []"
  | (claimed) c where "c \<in> set (md_messages db)" "claimable now lease c" "m_id c \<notin> locked"
      "ro = Some (c\<lparr>m_status := ''claimed'', m_claimed_at := Some now, m_attempts := m_attempts c + 1,
                    m_token_revoked_at := None\<rparr>)"
      "db' = update_rows (\<lambda>r. m_id r = m_id c)
         (\<lambda>r. r\<lparr>m_status := ''claimed'', m_claimed_at := Some now, m_attempts := m_attempts r + 1,
                m_token_revoked_at := None\<rparr>) db"
      "\<forall>q \<in> set (md_messages db). claimable now lease q \<and> m_id q \<notin> locked \<longrightarrow> \<not> older q c"
proof (cases "oldest (filter (\<lambda>r. claimable now lease r \<and> m_id r \<notin> locked) (md_messages db))")
  case None
  with assms show ?thesis by (intro empty) (simp_all add: claim_def)
next
  case (Some c)
  from assms Some have
    "ro = Some (c\<lparr>m_status := ''claimed'', m_claimed_at := Some now, m_attempts := m_attempts c + 1,
                    m_token_revoked_at := None\<rparr>)"
    "db' = update_rows (\<lambda>r. m_id r = m_id c)
         (\<lambda>r. r\<lparr>m_status := ''claimed'', m_claimed_at := Some now, m_attempts := m_attempts r + 1,
                m_token_revoked_at := None\<rparr>) db"
    by (simp_all add: claim_def)
  moreover from oldest_in [OF Some] have "c \<in> set (md_messages db)" "claimable now lease c" "m_id c \<notin> locked"
    by simp_all
  moreover from oldest_least [OF Some]
  have "\<forall>q \<in> set (md_messages db). claimable now lease q \<and> m_id q \<notin> locked \<longrightarrow> \<not> older q c"
    by simp
  ultimately show ?thesis by (intro claimed)
qed

lemma delivered_cases:
  assumes "read_and_mark_delivered db now agent req = (d, db')"
  obtains (same) "db' = db"
  | (marked) r b where "find_request db agent req = Some r" "m_status r = ''done''" "m_delivered_at r = None"
      "m_body r = Some b" "d = DBody ''delivered'' b"
      "db' = update_rows (\<lambda>q. m_id q = m_id r) (\<lambda>q. q\<lparr>m_delivered_at := Some now\<rparr>) db"
  using assms
  by (auto simp: read_and_mark_delivered_def split: option.splits if_splits)

lemma msg_inv_register_key:
  assumes "msg_inv db" and "register_key nc db now agent pk = Inr db'"
  shows "msg_inv db'"
proof -
  let ?rev = "\<lambda>k. if k_agent_id k = agent \<and> k_revoked_at k = None then k\<lparr>k_revoked_at := Some now\<rparr> else k"
  have live: "map k_agent_id (filter (\<lambda>k. k_revoked_at k = None) (map ?rev ks))
      = filter (\<lambda>a. a \<noteq> agent) (map k_agent_id (filter (\<lambda>k. k_revoked_at k = None) ks))" for ks
    by (induction ks) auto
  have rev_ok: "key_ok (k\<lparr>k_revoked_at := x\<rparr>) = key_ok k" for k x
    by (simp add: key_ok_def)
  have new_ok: "key_ok \<lparr>k_agent_id = agent, k_pubkey = b64_encode pk, k_fingerprint = fingerprint nc pk,
      k_created_at = now, k_revoked_at = None\<rparr>"
    by (auto simp: key_ok_def)
  from assms show ?thesis
    by (auto simp: msg_inv_def register_key_def live rev_ok new_ok split: if_splits
        simp del: filter_map map_map)
qed

lemma msg_inv_enqueue: "msg_inv db \<Longrightarrow> msg_inv (snd (enqueue db now agent req rtype prov cap pdec preason))"
  by (auto simp: enqueue_def msg_inv_def new_row_def row_ok_def find_request_None image_iff
      split: option.splits)

lemma msg_inv_claim:
  assumes "msg_inv db"
  shows "msg_inv (snd (claim db now locked lease))"
proof -
  obtain ro db' where eq: "claim db now locked lease = (ro, db')" by fastforce
  then show ?thesis
  proof (cases rule: claim_cases)
    case empty
    with eq assms show ?thesis by simp
  next
    case (claimed c)
    have ok: "row_ok (r\<lparr>m_status := ''claimed'', m_claimed_at := Some now, m_attempts := m_attempts r + 1,
         m_token_revoked_at := None\<rparr>)" if "r \<in> set (md_messages db)" "m_id r = m_id c" for r
    proof -
      from that assms claimed have "r = c" by (auto simp: msg_inv_def distinct_map dest: inj_onD)
      with assms claimed show ?thesis by (auto simp: msg_inv_def row_ok_def claimable_def)
    qed
    show ?thesis unfolding eq claimed snd_conv
      by (rule msg_inv_update_rows [OF assms]) (simp add: ok)
  qed
qed

lemma msg_inv_deliver:
  assumes "msg_inv db"
  shows "msg_inv (snd (read_and_mark_delivered db now agent req))"
proof -
  obtain d db' where eq: "read_and_mark_delivered db now agent req = (d, db')" by fastforce
  then show ?thesis
  proof (cases rule: delivered_cases)
    case same
    with eq assms show ?thesis by simp
  next
    case (marked r b)
    have ok: "row_ok (q\<lparr>m_delivered_at := Some now\<rparr>)" if "q \<in> set (md_messages db)" "m_id q = m_id r" for q
    proof -
      from that find_request_Some [OF marked(1)] assms have "q = r"
        by (auto simp: msg_inv_def distinct_map dest: inj_onD)
      with marked that assms show ?thesis by (auto simp: msg_inv_def row_ok_def)
    qed
    show ?thesis unfolding eq marked snd_conv
      by (rule msg_inv_update_rows [OF assms]) (simp add: ok)
  qed
qed

lemma assign_field_frame [simp]:
  "m_id (assign_field now x r) = m_id r" "m_agent_id (assign_field now x r) = m_agent_id r"
  "m_request_id (assign_field now x r) = m_request_id r" "m_created_at (assign_field now x r) = m_created_at r"
  "m_claimed_at (assign_field now x r) = m_claimed_at r" "m_delivered_at (assign_field now x r) = m_delivered_at r"
  by (cases x; simp)+

lemma assign_fields_frame [simp]:
  "m_id (fold (assign_field now) fs r) = m_id r" "m_agent_id (fold (assign_field now) fs r) = m_agent_id r"
  "m_request_id (fold (assign_field now) fs r) = m_request_id r"
  "m_created_at (fold (assign_field now) fs r) = m_created_at r"
  "m_claimed_at (fold (assign_field now) fs r) = m_claimed_at r"
  "m_delivered_at (fold (assign_field now) fs r) = m_delivered_at r"
  by (induction fs arbitrary: r) simp_all

lemma msg_inv_fenced_write:
  assumes "msg_inv db"
    and "\<And>r. row_ok r \<Longrightarrow> fence i c r \<Longrightarrow> row_ok (fold (assign_field now) fs r)"
  shows "msg_inv (snd (fenced_write db now i c fs))"
proof -
  have "msg_inv (update_rows (fence i c) (fold (assign_field now) fs) db)"
    using assms by (intro msg_inv_update_rows) (auto simp: msg_inv_def)
  with assms(1) show ?thesis by (simp add: fenced_write_def)
qed

lemma msg_inv_write:
  assumes "msg_inv db"
  shows "msg_inv (snd (write_sealed_result db now i c sealed ptid))"
    and "msg_inv (snd (write_provider_token_id db now i c tid))"
    and "msg_inv (snd (mark_failed db now i c reason))"
    and "msg_inv (snd (mark_denied db now i c reason))"
  unfolding msg_writes
  by (rule msg_inv_fenced_write [OF assms]; auto simp: row_ok_def fence_def)+

interpretation msg_queue: inv_system "\<lambda>db. db = setup_schema" "msg_step lease" msg_inv for lease
proof
  show "msg_inv db" if "db = setup_schema" for db
    using that by (simp add: msg_inv_def setup_schema_def)
  show "msg_inv db'" if "msg_inv db" and "msg_step lease db db'" for db db'
    using that(2,1)
    by cases (auto intro: msg_inv_enqueue msg_inv_claim msg_inv_write msg_inv_deliver msg_inv_register_key)
qed


section \<open>The mailbox a requester sees, and refinement\<close>

text \<open>
  The abstract specification: one request per (agent, request id), with a life cycle. A claim may be
  taken over only by a later one; a finished request is never finished again.
\<close>

datatype mstate =
    MPending
  | MClaimed int
  | MDone string bool
  | MFailed "string option"
  | MDenied "string option"

type_synonym mbox = "string \<times> string \<rightharpoonup> mstate"

inductive mbox_step :: "mbox \<Rightarrow> mbox \<Rightarrow> bool" where
  mb_skip: "mbox_step m m"
| mb_submit: "m k = None \<Longrightarrow> mbox_step m (m(k \<mapsto> MPending))"
| mb_take: "m k = Some MPending \<Longrightarrow> mbox_step m (m(k \<mapsto> MClaimed c))"
| mb_retake: "m k = Some (MClaimed c) \<Longrightarrow> c < c' \<Longrightarrow> mbox_step m (m(k \<mapsto> MClaimed c'))"
| mb_finish: "m k = Some (MClaimed c) \<Longrightarrow> mbox_step m (m(k \<mapsto> MDone b False))"
| mb_fail: "m k = Some (MClaimed c) \<Longrightarrow> mbox_step m (m(k \<mapsto> MFailed x))"
| mb_deny: "m k = Some (MClaimed c) \<Longrightarrow> mbox_step m (m(k \<mapsto> MDenied x))"
| mb_deliver: "m k = Some (MDone b False) \<Longrightarrow> mbox_step m (m(k \<mapsto> MDone b True))"

definition abs_row :: "msg_row \<Rightarrow> mstate" where
  "abs_row r =
    (if m_status r = ''pending'' then MPending
     else if m_status r = ''claimed'' then MClaimed (case m_claimed_at r of None \<Rightarrow> 0 | Some c \<Rightarrow> c)
     else if m_status r = ''done'' then
       MDone (case m_body r of None \<Rightarrow> [] | Some b \<Rightarrow> b) (m_delivered_at r \<noteq> None)
     else if m_status r = ''failed'' then MFailed (m_reason r)
     else MDenied (m_reason r))"

definition abs_db :: "msg_db \<Rightarrow> mbox" where
  "abs_db db k = map_option abs_row (find_request db (fst k) (snd k))"

definition row_key :: "msg_row \<Rightarrow> string \<times> string" where
  "row_key r = (m_agent_id r, m_request_id r)"

lemma find_map_row:
  assumes "\<And>r. r \<in> set rs \<Longrightarrow> row_key (g r) = row_key r"
  shows "List.find (\<lambda>r. row_key r = k) (map g rs) = map_option g (List.find (\<lambda>r. row_key r = k) rs)"
  using assms by (induction rs) auto

lemma find_request_row_key:
  "find_request db (fst k) (snd k) = List.find (\<lambda>r. row_key r = k) (md_messages db)"
proof -
  have "(\<lambda>r. m_agent_id r = fst k \<and> m_request_id r = snd k) = (\<lambda>r. row_key r = k)"
    by (auto simp: row_key_def)
  then show ?thesis by (simp add: find_request_def)
qed

lemma abs_db_row:
  "msg_inv db \<Longrightarrow> r \<in> set (md_messages db) \<Longrightarrow> abs_db db (row_key r) = Some (abs_row r)"
  by (simp add: abs_db_def row_key_def find_request_unique)

lemma row_id_unique:
  "msg_inv db \<Longrightarrow> q \<in> set (md_messages db) \<Longrightarrow> r \<in> set (md_messages db) \<Longrightarrow> m_id q = m_id r \<Longrightarrow> q = r"
  by (auto simp: msg_inv_def distinct_map dest: inj_onD)

lemma abs_db_update:
  assumes inv: "msg_inv db" and r: "r \<in> set (md_messages db)"
    and sel: "\<And>q. q \<in> set (md_messages db) \<Longrightarrow> sel q \<longleftrightarrow> q = r"
    and key: "row_key (f r) = row_key r"
  shows "abs_db (update_rows sel f db) = (abs_db db)(row_key r \<mapsto> abs_row (f r))"
proof
  fix k
  let ?g = "\<lambda>q. if sel q then f q else q"
  have "abs_db (update_rows sel f db) k
      = map_option (abs_row \<circ> ?g) (List.find (\<lambda>q. row_key q = k) (md_messages db))"
    using sel key
    by (simp add: abs_db_def find_request_row_key update_rows_def find_map_row option.map_comp)
  also have "\<dots> = ((abs_db db)(row_key r \<mapsto> abs_row (f r))) k"
  proof (cases "k = row_key r")
    case True
    have "find_request db (m_agent_id r) (m_request_id r) = Some r"
      by (rule find_request_unique [OF inv r]) simp_all
    then have "List.find (\<lambda>q. row_key q = k) (md_messages db) = Some r"
      using find_request_row_key [of db "row_key r"] True by (simp add: row_key_def)
    with True sel r show ?thesis by simp
  next
    case False
    show ?thesis
    proof (cases "List.find (\<lambda>q. row_key q = k) (md_messages db)")
      case None
      with False show ?thesis by (simp add: abs_db_def find_request_row_key)
    next
      case (Some q)
      then have "q \<in> set (md_messages db)" and "row_key q = k" by (auto simp: find_Some_iff)
      with False sel have "\<not> sel q" by auto
      with Some False show ?thesis by (simp add: abs_db_def find_request_row_key)
    qed
  qed
  finally show "abs_db (update_rows sel f db) k = ((abs_db db)(row_key r \<mapsto> abs_row (f r))) k" .
qed

lemma abs_db_frame [simp]:
  "abs_db (db\<lparr>md_next_id := n\<rparr>) = abs_db db" "abs_db (db\<lparr>md_keys := ks\<rparr>) = abs_db db"
  by (simp_all add: abs_db_def find_request_def fun_eq_iff)

text \<open>A fenced write either matches no row and changes nothing, or exactly the caller's claimed row.\<close>

lemma fenced_write_cases:
  assumes inv: "msg_inv db" and ne: "fs \<noteq> []" and w: "fenced_write db now i c fs = (ok, db')"
  obtains (refused) "\<not> ok" "db' = db" "\<not> is_still_owner db i c"
  | (written) r where "ok" "r \<in> set (md_messages db)" "fence i c r" "m_status r = ''claimed''"
      "\<And>q. q \<in> set (md_messages db) \<Longrightarrow> fence i c q \<longleftrightarrow> q = r"
      "db' = update_rows (fence i c) (fold (assign_field now) fs) db"
proof (cases "is_still_owner db i c")
  case True
  then obtain r where r: "r \<in> set (md_messages db)" "fence i c r" by (auto simp: is_still_owner_def)
  have one: "fence i c q \<longleftrightarrow> q = r" if "q \<in> set (md_messages db)" for q
    using that r row_id_unique [OF inv] by (auto simp: fence_def)
  then have "filter (fence i c) (md_messages db) = filter ((=) r) (md_messages db)"
    by (auto intro: filter_cong)
  moreover from inv have "distinct (md_messages db)" by (simp add: msg_inv_def distinct_map)
  ultimately have "length (filter (fence i c) (md_messages db)) = 1"
    using r(1) by (simp add: distinct_length_filter)
  with w ne have "ok" "db' = update_rows (fence i c) (fold (assign_field now) fs) db"
    by (simp_all add: fenced_write_def)
  with r one show ?thesis by (intro written) (auto simp: fence_def)
next
  case False
  then have none: "\<And>r. r \<in> set (md_messages db) \<Longrightarrow> \<not> fence i c r" by (auto simp: is_still_owner_def)
  then have "filter (fence i c) (md_messages db) = []" by (simp add: filter_empty_conv)
  with w ne none have "\<not> ok" "db' = db"
    by (auto simp: fenced_write_def update_rows_none)
  with False show ?thesis by (intro refused)
qed


lemma mbox_fenced:
  assumes inv: "msg_inv db" and ne: "fs \<noteq> []"
    and next_state: "\<And>r. r \<in> set (md_messages db) \<Longrightarrow> fence i c r \<Longrightarrow> row_ok r \<Longrightarrow>
       mbox_step (abs_db db) ((abs_db db)(row_key r \<mapsto> abs_row (fold (assign_field now) fs r)))"
  shows "mbox_step (abs_db db) (abs_db (snd (fenced_write db now i c fs)))"
proof -
  obtain ok db' where w: "fenced_write db now i c fs = (ok, db')" by fastforce
  from inv ne w show ?thesis
  proof (cases rule: fenced_write_cases)
    case refused
    with w show ?thesis by (simp add: mb_skip)
  next
    case (written r)
    have "abs_db db' = (abs_db db)(row_key r \<mapsto> abs_row (fold (assign_field now) fs r))"
      unfolding written(6)
      by (rule abs_db_update [OF inv written(2)]) (use written(5) in \<open>simp_all add: row_key_def\<close>)
    moreover from inv written(2) have "row_ok r" by (simp add: msg_inv_def)
    ultimately show ?thesis using next_state [OF written(2,3)] w by simp
  qed
qed

lemma fence_abs: "msg_inv db \<Longrightarrow> r \<in> set (md_messages db) \<Longrightarrow> fence i c r \<Longrightarrow>
    abs_db db (row_key r) = Some (MClaimed c)"
  by (simp add: abs_db_row fence_def abs_row_def)

lemma mbox_from_claim:
  assumes "msg_inv db" and "r \<in> set (md_messages db)" and "fence i c r"
    and "x = MDone b False \<or> x = MFailed y \<or> x = MDenied y"
  shows "mbox_step (abs_db db) ((abs_db db)(row_key r \<mapsto> x))"
  using assms(4) fence_abs [OF assms(1-3)] by (auto intro: mb_finish mb_fail mb_deny)

lemma refine_enqueue:
  "mbox_step (abs_db db) (abs_db (snd (enqueue db now agent req rtype prov cap pdec preason)))"
proof (cases "find_request db agent req")
  case None
  let ?r = "new_row (md_next_id db) now agent req rtype prov cap pdec preason"
  have k: "row_key ?r = (agent, req)" by (simp add: row_key_def new_row_def)
  from None have none: "abs_db db (agent, req) = None" by (simp add: abs_db_def)
  have fresh: "List.find (\<lambda>r. row_key r = (agent, req)) (md_messages db) = None"
    using None find_request_row_key [of db "(agent, req)"] by simp
  have find_snoc: "List.find P (xs @ [x]) = (case List.find P xs of None \<Rightarrow> if P x then Some x else None | Some y \<Rightarrow> Some y)"
    for P and xs :: "msg_row list" and x by (induction xs) auto
  have "abs_db (snd (enqueue db now agent req rtype prov cap pdec preason)) = (abs_db db)((agent, req) \<mapsto> MPending)"
  proof
    fix k'
    show "abs_db (snd (enqueue db now agent req rtype prov cap pdec preason)) k'
        = ((abs_db db)((agent, req) \<mapsto> MPending)) k'"
      using None k fresh
      by (auto simp: enqueue_def abs_db_def find_request_row_key find_snoc abs_row_def new_row_def
          split: option.splits)
  qed
  with none show ?thesis by (auto intro: mb_submit)
next
  case (Some r)
  then show ?thesis by (simp add: enqueue_def mb_skip)
qed

lemma refine_claim:
  assumes inv: "msg_inv db" and lease: "0 \<le> lease"
  shows "mbox_step (abs_db db) (abs_db (snd (claim db now locked lease)))"
proof -
  obtain ro db' where eq: "claim db now locked lease = (ro, db')" by fastforce
  then show ?thesis
  proof (cases rule: claim_cases)
    case empty
    with eq show ?thesis by (simp add: mb_skip)
  next
    case (claimed r)
    have upd: "abs_db db' = (abs_db db)(row_key r \<mapsto> MClaimed now)"
      unfolding claimed(5)
      by (subst abs_db_update [OF inv claimed(1)])
         (use row_id_unique [OF inv _ claimed(1)] in \<open>auto simp: row_key_def abs_row_def\<close>)
    have old: "abs_db db (row_key r) = Some (abs_row r)" by (rule abs_db_row [OF inv claimed(1)])
    show ?thesis
    proof (cases "m_status r = ''pending''")
      case True
      with old have "abs_db db (row_key r) = Some MPending" by (simp add: abs_row_def)
      with eq upd show ?thesis by (simp add: mb_take)
    next
      case False
      with claimed(2) obtain c where "m_status r = ''claimed''" "m_claimed_at r = Some c" "c < now - lease * 1000000"
        by (auto simp: claimable_def split: option.splits)
      with old lease have "abs_db db (row_key r) = Some (MClaimed c)" "c < now" by (simp_all add: abs_row_def)
      with eq upd show ?thesis by (simp add: mb_retake)
    qed
  qed
qed

lemma refine_deliver:
  assumes inv: "msg_inv db"
  shows "mbox_step (abs_db db) (abs_db (snd (read_and_mark_delivered db now agent req)))"
proof -
  obtain d db' where eq: "read_and_mark_delivered db now agent req = (d, db')" by fastforce
  then show ?thesis
  proof (cases rule: delivered_cases)
    case same
    with eq show ?thesis by (simp add: mb_skip)
  next
    case (marked r b)
    from find_request_Some [OF marked(1)] have r: "r \<in> set (md_messages db)" by simp
    have "abs_db db' = (abs_db db)(row_key r \<mapsto> MDone b True)"
      unfolding marked(6)
      by (subst abs_db_update [OF inv r])
         (use row_id_unique [OF inv _ r] marked in \<open>auto simp: row_key_def abs_row_def\<close>)
    moreover have "abs_db db (row_key r) = Some (MDone b False)"
      using abs_db_row [OF inv r] marked by (simp add: abs_row_def)
    ultimately show ?thesis using eq by (simp add: mb_deliver)
  qed
qed

lemma refine_token:
  assumes inv: "msg_inv db"
  shows "abs_db (snd (write_provider_token_id db now i c tid)) = abs_db db"
proof -
  let ?fs = "[FProviderTokenId (Some tid)]"
  obtain ok db' where eq: "fenced_write db now i c ?fs = (ok, db')" by fastforce
  have ne: "?fs \<noteq> []" by simp
  from inv ne eq show ?thesis
  proof (cases rule: fenced_write_cases)
    case (written r)
    have "abs_db db' = (abs_db db)(row_key r \<mapsto> abs_row r)"
      unfolding written(6)
      by (subst abs_db_update [OF inv written(2)])
         (use written(5) in \<open>auto simp: row_key_def abs_row_def\<close>)
    with abs_db_row [OF inv written(2)] have "abs_db db' = abs_db db" by (auto simp: fun_eq_iff)
    with eq show ?thesis by (simp add: write_provider_token_id_def)
  qed (simp add: write_provider_token_id_def eq)
qed

lemma refine_step:
  assumes inv: "msg_inv db" and lease: "0 \<le> lease" and step: "msg_step lease db db'"
  shows "mbox_step (abs_db db) (abs_db db')"
  using step
proof cases
  case (st_sealed now i c sealed ptid)
  show ?thesis unfolding st_sealed msg_writes
    by (rule mbox_fenced [OF inv])
       (simp, rule mbox_from_claim [OF inv], assumption, assumption, auto simp: abs_row_def fence_def row_ok_def)
next
  case (st_failed now i c reason)
  show ?thesis unfolding st_failed msg_writes
    by (rule mbox_fenced [OF inv])
       (simp, rule mbox_from_claim [OF inv], assumption, assumption, auto simp: abs_row_def fence_def row_ok_def)
next
  case (st_denied now i c reason)
  show ?thesis unfolding st_denied msg_writes
    by (rule mbox_fenced [OF inv])
       (simp, rule mbox_from_claim [OF inv], assumption, assumption, auto simp: abs_row_def fence_def row_ok_def)
next
  case (st_key nc now agent pk)
  then show ?thesis by (auto simp: register_key_def mb_skip)
qed (auto simp: refine_enqueue refine_claim [OF inv lease] refine_deliver [OF inv] refine_token [OF inv] mb_skip)


lemma fenced_write_no_owner:
  "fs \<noteq> [] \<Longrightarrow> \<not> is_still_owner db i c \<Longrightarrow> fenced_write db now i c fs = (False, db)"
  by (auto simp: fenced_write_def is_still_owner_def filter_empty_conv intro: update_rows_none)

lemma set_update_one:
  assumes "msg_inv db" and "c \<in> set (md_messages db)"
  shows "set (md_messages (update_rows (\<lambda>r. m_id r = m_id c) f db)) = insert (f c) (set (md_messages db) - {c})"
proof -
  have "(\<lambda>r. if m_id r = m_id c then f r else r) ` set (md_messages db)
      = (\<lambda>r. if r = c then f r else r) ` set (md_messages db)"
    using row_id_unique [OF assms(1) _ assms(2)] by (intro image_cong) auto
  also have "\<dots> = insert (f c) (set (md_messages db) - {c})" using assms(2) by auto
  finally show ?thesis by simp
qed

section \<open>How a row evolves\<close>

definition terminal :: "msg_row \<Rightarrow> bool" where
  "terminal r \<longleftrightarrow> m_status r \<in> {''done'', ''failed'', ''denied''}"

text \<open>What every step keeps of a row: its identity, the order of its claims, and its outcome.\<close>

definition row_evolves :: "msg_row \<Rightarrow> msg_row \<Rightarrow> bool" where
  "row_evolves r r' \<longleftrightarrow>
     m_id r' = m_id r \<and> row_key r' = row_key r \<and> m_created_at r' = m_created_at r \<and>
     (\<forall>c. m_claimed_at r = Some c \<longrightarrow> (\<exists>c'. m_claimed_at r' = Some c' \<and> c \<le> c')) \<and>
     (terminal r \<longrightarrow> m_status r' = m_status r \<and> m_body r' = m_body r \<and> m_reason r' = m_reason r \<and>
        m_claimed_at r' = m_claimed_at r \<and> m_completed_at r' = m_completed_at r \<and>
        m_provider_token_id r' = m_provider_token_id r) \<and>
     (m_delivered_at r \<noteq> None \<longrightarrow> m_delivered_at r' = m_delivered_at r)"

lemma row_evolves_refl [simp]: "row_evolves r r"
  by (auto simp: row_evolves_def)

lemma evolves_self: "r \<in> A \<Longrightarrow> \<exists>r' \<in> A. row_evolves r r'"
  by (rule bexI [of _ r]) simp_all

lemma row_evolves_trans:
  assumes "row_evolves q r" and "row_evolves r s"
  shows "row_evolves q s"
proof -
  have "\<exists>c'. m_claimed_at s = Some c' \<and> c \<le> c'" if "m_claimed_at q = Some c" for c
  proof -
    from assms(1) that obtain d where d: "m_claimed_at r = Some d" "c \<le> d" by (auto simp: row_evolves_def)
    with assms(2) obtain e where "m_claimed_at s = Some e" "d \<le> e" by (auto simp: row_evolves_def)
    with d show ?thesis by auto
  qed
  moreover have "terminal q \<Longrightarrow> terminal r" using assms(1) by (simp add: row_evolves_def terminal_def)
  moreover have "m_delivered_at q \<noteq> None \<Longrightarrow> m_delivered_at s = m_delivered_at q"
    using assms by (metis row_evolves_def)
  ultimately show ?thesis using assms by (simp add: row_evolves_def)
qed

lemma evolves_update_rows:
  assumes "r \<in> set (md_messages db)" and "sel r \<Longrightarrow> row_evolves r (f r)"
  shows "\<exists>r' \<in> set (md_messages (update_rows sel f db)). row_evolves r r'"
  using assms by (intro bexI [of _ "if sel r then f r else r"]) auto

lemma evolves_fenced:
  assumes r: "r \<in> set (md_messages db)"
  shows "\<exists>r' \<in> set (md_messages (snd (fenced_write db now i c fs))). row_evolves r r'"
proof -
  have "row_evolves r (fold (assign_field now) fs r)" if "fence i c r"
    using that by (auto simp: row_evolves_def row_key_def fence_def terminal_def)
  then show ?thesis
    using evolves_update_rows [OF r, of "fence i c" "fold (assign_field now) fs"] r
    by (simp add: fenced_write_def evolves_self)
qed

lemma evolves_claim:
  assumes inv: "msg_inv db" and lease: "0 \<le> lease" and r: "r \<in> set (md_messages db)"
  shows "\<exists>r' \<in> set (md_messages (snd (claim db now locked lease))). row_evolves r r'"
proof -
  obtain ro db' where eq: "claim db now locked lease = (ro, db')" by fastforce
  then show ?thesis
  proof (cases rule: claim_cases)
    case empty
    with eq r show ?thesis by (simp add: evolves_self)
  next
    case (claimed c)
    have "row_evolves r (r\<lparr>m_status := ''claimed'', m_claimed_at := Some now, m_attempts := m_attempts r + 1,
        m_token_revoked_at := None\<rparr>)" if "m_id r = m_id c"
    proof -
      from that r claimed inv have "r = c" by (auto intro: row_id_unique)
      with claimed(2) lease have "claimable now lease r" by simp
      moreover from inv r have "row_ok r" by (simp add: msg_inv_def)
      ultimately show ?thesis using lease
        by (auto simp: row_evolves_def claimable_def row_ok_def terminal_def row_key_def split: option.splits)
    qed
    then show ?thesis unfolding eq claimed snd_conv by (intro evolves_update_rows [OF r])
  qed
qed

lemma evolves_deliver:
  assumes inv: "msg_inv db" and r: "r \<in> set (md_messages db)"
  shows "\<exists>r' \<in> set (md_messages (snd (read_and_mark_delivered db now agent req))). row_evolves r r'"
proof -
  obtain d db' where eq: "read_and_mark_delivered db now agent req = (d, db')" by fastforce
  then show ?thesis
  proof (cases rule: delivered_cases)
    case same
    with eq r show ?thesis by (simp add: evolves_self)
  next
    case (marked q b)
    have "row_evolves r (r\<lparr>m_delivered_at := Some now\<rparr>)" if "m_id r = m_id q"
    proof -
      from find_request_Some [OF marked(1)] that r inv have "r = q" by (auto intro: row_id_unique)
      with marked show ?thesis by (auto simp: row_evolves_def row_key_def)
    qed
    then show ?thesis unfolding eq marked snd_conv by (intro evolves_update_rows [OF r])
  qed
qed

lemma evolves_step:
  assumes inv: "msg_inv db" and lease: "0 \<le> lease" and step: "msg_step lease db db'"
    and r: "r \<in> set (md_messages db)"
  shows "\<exists>r' \<in> set (md_messages db'). row_evolves r r'"
  using step
proof cases
  case (st_enqueue now agent req rtype prov cap pdec preason)
  with r show ?thesis by (auto simp: enqueue_def split: option.splits intro!: bexI [of _ r])
next
  case (st_key nc now agent pk)
  with r show ?thesis by (auto simp: register_key_def evolves_self split: if_splits)
qed (simp_all add: msg_writes evolves_claim [OF inv lease r] evolves_deliver [OF inv r] evolves_fenced [OF r])

lemma evolves_steps:
  assumes "(msg_step lease)\<^sup>*\<^sup>* db db'" and "msg_inv db" and "0 \<le> lease" and "r \<in> set (md_messages db)"
  shows "msg_inv db' \<and> (\<exists>r' \<in> set (md_messages db'). row_evolves r r')"
  using assms
proof (induction rule: rtranclp.induct)
  case (rtrancl_into_rtrancl a b c)
  then obtain q where "msg_inv b" "q \<in> set (md_messages b)" "row_evolves r q" by auto
  with evolves_step rtrancl_into_rtrancl.hyps(2) rtrancl_into_rtrancl.prems(2)
  obtain s where "s \<in> set (md_messages c)" "row_evolves q s" by blast
  with \<open>row_evolves r q\<close> \<open>msg_inv b\<close> rtrancl_into_rtrancl.hyps(2) show ?case
    by (auto intro: row_evolves_trans msg_queue.inv_step)
qed (simp add: evolves_self)


section \<open>Properties\<close>

text \<open>C16: The database refines the mailbox specification. Whatever operation of the store, the keys or the
  workers runs, at whatever time and with whatever rows locked, the requester's view makes one legal
  step of the request life cycle or none.\<close>

theorem store_refines_mailbox:
  assumes "reachable (\<lambda>db. db = setup_schema) (msg_step lease) db" and "0 \<le> lease" and "msg_step lease db db'"
  shows "mbox_step (abs_db db) (abs_db db')"
  using refine_step [OF msg_queue.inv_reachable [OF assms(1)] assms(2,3)] .

definition demo_db :: msg_db where
  "demo_db = snd (enqueue setup_schema 5 ''ag'' ''r1'' ''generic'' ''cloudflare'' ''mint'' (Some ''approved'') None)"

lemma demo_db_reachable: "reachable (\<lambda>db. db = setup_schema) (msg_step 300) demo_db"
proof -
  have "reachable (\<lambda>db. db = setup_schema) (msg_step 300) setup_schema" by (rule reach_init) simp
  then show ?thesis unfolding demo_db_def by (rule reach_step) (rule st_enqueue)
qed

theorem store_refines_mailbox_witness:
  "mbox_step (abs_db demo_db) (abs_db (snd (claim demo_db 7 {} 300))) \<and>
   abs_db (snd (claim demo_db 7 {} 300)) (''ag'', ''r1'') = Some (MClaimed 7)"
  using store_refines_mailbox [OF demo_db_reachable _ st_claim, of 7 "{}"]
  by (simp add: demo_db_def enqueue_def setup_schema_def find_request_def new_row_def claim_def claimable_def
      update_rows_def abs_db_def abs_row_def)

text \<open>C18: A worker whose claim was taken over is fenced off for good. If a row is claimed, then, after any
  activity, claimed again, then no later write under the first claim's time stamp succeeds or changes
  anything, and the ownership check says no.\<close>

theorem stale_worker_fenced:
  assumes inv: "msg_inv db" and lease: "0 \<le> lease"
    and c1: "claim db now1 locked1 lease = (Some r1, db1)" and s1: "(msg_step lease)\<^sup>*\<^sup>* db1 db2"
    and c2: "claim db2 now2 locked2 lease = (Some r2, db3)" and same: "m_id r2 = m_id r1"
    and s2: "(msg_step lease)\<^sup>*\<^sup>* db3 db4" and ne: "fs \<noteq> []"
  shows "fenced_write db4 now (m_id r1) now1 fs = (False, db4) \<and> \<not> is_still_owner db4 (m_id r1) now1"
proof -
  have claimed_row: "\<exists>q \<in> set (md_messages dbb). m_id q = m_id r \<and> m_claimed_at q = Some t \<and> msg_inv dbb"
    if "msg_inv dba" "claim dba t locks lease = (Some r, dbb)" for dba dbb t locks r
    using that(2)
  proof (cases rule: claim_cases)
    case (claimed c)
    with msg_inv_claim [OF that(1), of t locks lease] that(2) show ?thesis
      by (auto intro!: bexI [of _ r])
  qed simp
  from claimed_row [OF inv c1] obtain q1 where q1: "q1 \<in> set (md_messages db1)" "m_id q1 = m_id r1"
    "m_claimed_at q1 = Some now1" "msg_inv db1" by blast
  from evolves_steps [OF s1 q1(4) lease q1(1)] obtain q2 where q2: "q2 \<in> set (md_messages db2)"
    "row_evolves q1 q2" "msg_inv db2" by blast
  with q1 obtain t2 where t2: "m_claimed_at q2 = Some t2" "now1 \<le> t2" "m_id q2 = m_id r1"
    by (auto simp: row_evolves_def)
  have later: "now1 < now2"
    using c2
  proof (cases rule: claim_cases)
    case (claimed c)
    with same t2 q2 have "c = q2" by (auto intro: row_id_unique)
    with claimed(2) t2 q2 lease show ?thesis
      by (auto simp: claimable_def msg_inv_def row_ok_def split: option.splits)
  qed simp
  from claimed_row [OF q2(3) c2] obtain q3 where q3: "q3 \<in> set (md_messages db3)" "m_id q3 = m_id r2"
    "m_claimed_at q3 = Some now2" "msg_inv db3" by blast
  from evolves_steps [OF s2 q3(4) lease q3(1)] obtain q4 where q4: "q4 \<in> set (md_messages db4)"
    "row_evolves q3 q4" "msg_inv db4" by blast
  with q3 obtain t4 where t4: "m_claimed_at q4 = Some t4" "now2 \<le> t4" "m_id q4 = m_id r1"
    by (auto simp: row_evolves_def same)
  have "\<not> fence (m_id r1) now1 q" if "q \<in> set (md_messages db4)" for q
    using that t4 later row_id_unique [OF q4(3) that q4(1)] by (auto simp: fence_def)
  then have own: "\<not> is_still_owner db4 (m_id r1) now1" by (simp add: is_still_owner_def)
  with fenced_write_no_owner ne show ?thesis by blast
qed

theorem stale_worker_fenced_witness:
  "fenced_write (snd (claim (snd (claim demo_db 7 {} 300)) 400000000 {} 300)) 400000001 1 7 [FStatus ''done'']
   = (False, snd (claim (snd (claim demo_db 7 {} 300)) 400000000 {} 300))"
proof -
  let ?r1 = "the (fst (claim demo_db 7 {} 300))" and ?db1 = "snd (claim demo_db 7 {} 300)"
  let ?r2 = "the (fst (claim ?db1 400000000 {} 300))" and ?db3 = "snd (claim ?db1 400000000 {} 300)"
  note ev = demo_db_def enqueue_def setup_schema_def find_request_def new_row_def claim_def claimable_def
      update_rows_def
  have inv: "msg_inv demo_db" by (rule msg_queue.inv_reachable [OF demo_db_reachable])
  have c1: "claim demo_db 7 {} 300 = (Some ?r1, ?db1)" and c2: "claim ?db1 400000000 {} 300 = (Some ?r2, ?db3)"
    and id: "m_id ?r2 = m_id ?r1" "m_id ?r1 = 1"
    by (simp_all add: ev)
  from stale_worker_fenced [OF inv _ c1 rtranclp.rtrancl_refl c2 id(1) rtranclp.rtrancl_refl,
      of "[FStatus ''done'']" 400000001] id(2)
  show ?thesis by simp
qed


text \<open>An outcome is final. Once a request is done, failed or denied, no run of the queue changes its
  status, body, reason, claim, completion time or provider token again; and once delivered, its
  delivery time stays.\<close>

theorem outcome_is_final:
  assumes "msg_inv db" and "0 \<le> lease" and "(msg_step lease)\<^sup>*\<^sup>* db db'"
    and "r \<in> set (md_messages db)" and "terminal r"
  shows "\<exists>r'. find_request db' (m_agent_id r) (m_request_id r) = Some r' \<and> m_id r' = m_id r \<and>
    m_status r' = m_status r \<and> m_body r' = m_body r \<and> m_reason r' = m_reason r \<and>
    m_claimed_at r' = m_claimed_at r \<and> m_completed_at r' = m_completed_at r \<and>
    m_provider_token_id r' = m_provider_token_id r \<and>
    (m_delivered_at r \<noteq> None \<longrightarrow> m_delivered_at r' = m_delivered_at r)"
proof -
  from evolves_steps [OF assms(3,1,2,4)] obtain r' where r': "r' \<in> set (md_messages db')" "row_evolves r r'"
    and inv: "msg_inv db'" by blast
  then have "m_agent_id r' = m_agent_id r" "m_request_id r' = m_request_id r"
    by (auto simp: row_evolves_def row_key_def)
  then have "find_request db' (m_agent_id r) (m_request_id r) = Some r'"
    by (rule find_request_unique [OF inv r'(1)])
  with r'(2) assms(5) show ?thesis by (auto simp: row_evolves_def)
qed

definition demo_done :: msg_db where
  "demo_done = snd (write_sealed_result (snd (claim demo_db 7 {} 300)) 9 1 7 ''SEALED'' None)"

lemma demo_done_eval:
  "demo_done = \<lparr>md_messages = [\<lparr>m_id = 1, m_agent_id = ''ag'', m_request_id = ''r1'', m_request_type = ''generic'',
     m_provider = ''cloudflare'', m_capability = ''mint'', m_status = ''done'', m_policy_decision = Some ''approved'',
     m_policy_reason = None, m_reason = None, m_provider_token_id = None, m_body = Some ''SEALED'', m_attempts = 1,
     m_claimed_at = Some 7, m_completed_at = Some 9, m_delivered_at = None, m_token_revoked_at = None,
     m_created_at = 5\<rparr>], md_keys = [], md_next_id = 2\<rparr>"
  by (simp add: demo_done_def demo_db_def enqueue_def setup_schema_def find_request_def new_row_def claim_def
      claimable_def update_rows_def write_sealed_result_def fenced_write_def fence_def)

lemma demo_done_inv: "msg_inv demo_done"
  unfolding demo_done_def
  by (intro msg_inv_write msg_inv_claim msg_queue.inv_reachable [OF demo_db_reachable])

theorem outcome_is_final_witness:
  "\<exists>r'. find_request (snd (mark_failed demo_done 10 1 7 ''late'')) ''ag'' ''r1'' = Some r' \<and>
     m_status r' = ''done'' \<and> m_body r' = Some ''SEALED''"
proof -
  have steps: "(msg_step 300)\<^sup>*\<^sup>* demo_done (snd (mark_failed demo_done 10 1 7 ''late''))"
    by (rule r_into_rtranclp) (rule st_failed)
  have "hd (md_messages demo_done) \<in> set (md_messages demo_done)" "terminal (hd (md_messages demo_done))"
    by (simp_all add: demo_done_eval terminal_def)
  from outcome_is_final [OF demo_done_inv _ steps this] show ?thesis
    by (auto simp: demo_done_eval)
qed

text \<open>\<open>claim\<close> is fair and exact: it returns nothing only when no unlocked row is pending or past its
  lease; otherwise it takes the oldest such row (by creation time, then id), stamps it with the
  current time, counts the attempt, and leaves every other row as it was.\<close>

theorem claim_takes_oldest:
  assumes "msg_inv db"
  shows "case claim db now locked lease of
    (None, db') \<Rightarrow> db' = db \<and> (\<forall>r \<in> set (md_messages db). claimable now lease r \<longrightarrow> m_id r \<in> locked)
  | (Some r', db') \<Rightarrow> \<exists>r \<in> set (md_messages db).
       claimable now lease r \<and> m_id r \<notin> locked \<and>
       (\<forall>q \<in> set (md_messages db). claimable now lease q \<and> m_id q \<notin> locked \<longrightarrow> \<not> older q r) \<and>
       m_id r' = m_id r \<and> m_status r' = ''claimed'' \<and> m_claimed_at r' = Some now \<and>
       m_attempts r' = m_attempts r + 1 \<and> is_still_owner db' (m_id r') now \<and>
       set (md_messages db') = insert r' (set (md_messages db) - {r})"
proof -
  obtain ro db' where eq: "claim db now locked lease = (ro, db')" by fastforce
  then show ?thesis
  proof (cases rule: claim_cases)
    case empty
    with eq show ?thesis by (auto simp: filter_empty_conv)
  next
    case (claimed c)
    let ?f = "\<lambda>r. r\<lparr>m_status := ''claimed'', m_claimed_at := Some now, m_attempts := m_attempts r + 1,
                m_token_revoked_at := None\<rparr>"
    have "set (md_messages db') = insert (?f c) (set (md_messages db) - {c})"
      unfolding claimed(5) by (rule set_update_one [OF assms claimed(1)])
    with claimed(1-4,6) show ?thesis unfolding eq
      by (auto simp: is_still_owner_def fence_def intro!: bexI [of _ c])
  qed
qed

theorem claim_takes_oldest_witness:
  "\<exists>r \<in> set (md_messages demo_db). claimable 7 300 r \<and> m_id r = 1"
  using claim_takes_oldest [OF msg_queue.inv_reachable [OF demo_db_reachable],
      where now = 7 and locked = "{}" and lease = 300]
  by (simp add: demo_db_def enqueue_def setup_schema_def find_request_def new_row_def claim_def claimable_def
      update_rows_def)

text \<open>Delivery is idempotent and private. A fulfilled request gives its body to its own agent: the
  first poll marks it delivered, and every later poll, after any activity, returns the same body as
  already delivered; a poll never changes the view of any other request.\<close>

theorem delivery_idempotent:
  assumes inv: "msg_inv db" and lease: "0 \<le> lease" and r: "find_request db agent req = Some r"
    and fin: "m_status r = ''done''" and body: "m_body r = Some b"
    and poll: "read_and_mark_delivered db now agent req = (d, db1)"
    and steps: "(msg_step lease)\<^sup>*\<^sup>* db1 db2"
  shows "d = DBody (if m_delivered_at r = None then ''delivered'' else ''already_delivered'') b \<and>
    fst (read_and_mark_delivered db2 now' agent req) = DBody ''already_delivered'' b \<and>
    (\<forall>k. k \<noteq> (agent, req) \<longrightarrow> abs_db db1 k = abs_db db k)"
proof -
  from find_request_Some [OF r] have in_db: "r \<in> set (md_messages db)" "m_agent_id r = agent" "m_request_id r = req"
    by simp_all
  let ?r1 = "if m_delivered_at r = None then r\<lparr>m_delivered_at := Some now\<rparr> else r"
  have d: "d = DBody (if m_delivered_at r = None then ''delivered'' else ''already_delivered'') b"
    using poll r fin body by (auto simp: read_and_mark_delivered_def split: if_splits)
  have inv1: "msg_inv db1" using msg_inv_deliver [OF inv, of now agent req] poll by simp
  have both: "?r1 \<in> set (md_messages db1) \<and> (\<forall>k. k \<noteq> (agent, req) \<longrightarrow> abs_db db1 k = abs_db db k)"
  proof (cases "m_delivered_at r")
    case None
    have db1: "db1 = update_rows (\<lambda>q. m_id q = m_id r) (\<lambda>q. q\<lparr>m_delivered_at := Some now\<rparr>) db"
      using poll r fin body None by (simp add: read_and_mark_delivered_def)
    have "abs_db db1 = (abs_db db)(row_key r \<mapsto> abs_row (r\<lparr>m_delivered_at := Some now\<rparr>))"
      unfolding db1
      by (rule abs_db_update [OF inv in_db(1)])
         (use row_id_unique [OF inv _ in_db(1)] in \<open>auto simp: row_key_def\<close>)
    moreover have "row_key r = (agent, req)" using in_db by (simp add: row_key_def)
    moreover have "?r1 \<in> set (md_messages db1)"
      unfolding db1 set_update_one [OF inv in_db(1)] using None by simp
    ultimately show ?thesis by simp
  next
    case (Some t)
    with poll r fin body in_db show ?thesis by (simp add: read_and_mark_delivered_def)
  qed
  then have r1: "?r1 \<in> set (md_messages db1)" and view: "\<forall>k. k \<noteq> (agent, req) \<longrightarrow> abs_db db1 k = abs_db db k"
    by blast+
  from evolves_steps [OF steps inv1 lease r1] obtain r2 where r2: "r2 \<in> set (md_messages db2)"
    "row_evolves ?r1 r2" and inv2: "msg_inv db2" by blast
  then have "find_request db2 agent req = Some r2"
    using in_db by (intro find_request_unique) (auto simp: row_evolves_def row_key_def split: if_splits)
  moreover have "m_status r2 = ''done''" "m_body r2 = Some b" "m_delivered_at r2 \<noteq> None"
    using r2(2) fin body by (auto simp: row_evolves_def terminal_def split: if_splits)
  ultimately have "fst (read_and_mark_delivered db2 now' agent req) = DBody ''already_delivered'' b"
    by (simp add: read_and_mark_delivered_def)
  with d view show ?thesis by simp
qed

theorem delivery_idempotent_witness:
  "fst (read_and_mark_delivered demo_done 20 ''ag'' ''r1'') = DBody ''delivered'' ''SEALED'' \<and>
   fst (read_and_mark_delivered (snd (read_and_mark_delivered demo_done 20 ''ag'' ''r1'')) 30 ''ag'' ''r1'')
     = DBody ''already_delivered'' ''SEALED''"
proof -
  have "find_request demo_done ''ag'' ''r1'' = Some (hd (md_messages demo_done))"
    "m_status (hd (md_messages demo_done)) = ''done''" "m_body (hd (md_messages demo_done)) = Some ''SEALED''"
    "m_delivered_at (hd (md_messages demo_done)) = None"
    by (simp_all add: demo_done_eval find_request_def)
  with delivery_idempotent [OF demo_done_inv, of 300 "''ag''" "''r1''" "hd (md_messages demo_done)" "''SEALED''" 20
      "fst (read_and_mark_delivered demo_done 20 ''ag'' ''r1'')"
      "snd (read_and_mark_delivered demo_done 20 ''ag'' ''r1'')"
      "snd (read_and_mark_delivered demo_done 20 ''ag'' ''r1'')" 30]
  show ?thesis by simp
qed

text \<open>Key registration rotates. After an agent registers a valid public key, that key is the agent's one
  live key, exactly as registered (the stored base64 decodes to it), and no other agent's live key
  changes.\<close>

theorem register_key_rotates:
  assumes "msg_inv db" and "register_key nc db now agent pk = Inr db'"
  shows "live_key db' agent = Inr (Some pk) \<and> (\<forall>a. a \<noteq> agent \<longrightarrow> live_key db' a = live_key db a) \<and>
    length (filter (\<lambda>k. k_agent_id k = agent \<and> k_revoked_at k = None) (md_keys db')) = 1"
proof -
  let ?rev = "\<lambda>k. if k_agent_id k = agent \<and> k_revoked_at k = None then k\<lparr>k_revoked_at := Some now\<rparr> else k"
  let ?new = "\<lparr>k_agent_id = agent, k_pubkey = b64_encode pk, k_fingerprint = fingerprint nc pk, k_created_at = now,
          k_revoked_at = None\<rparr>"
  from assms(2) have keys: "md_keys db' = map ?rev (md_keys db) @ [?new]"
    by (auto simp: register_key_def validate_public_key_def split: if_splits)
  have none: "filter (\<lambda>k. k_agent_id k = agent \<and> k_revoked_at k = None) (map ?rev ks) = []" for ks
    by (induction ks) auto
  have own: "List.find (\<lambda>k. k_agent_id k = agent \<and> k_revoked_at k = None) (map ?rev ks @ [?new]) = Some ?new" for ks
    by (induction ks) auto
  have other: "List.find (\<lambda>k. k_agent_id k = a \<and> k_revoked_at k = None) (map ?rev ks @ [?new])
      = List.find (\<lambda>k. k_agent_id k = a \<and> k_revoked_at k = None) ks" if "a \<noteq> agent" for a ks
    using that by (induction ks) auto
  show ?thesis
    by (simp add: live_key_def keys own other none del: filter_map)
qed

theorem register_key_rotates_witness:
  "\<exists>db'. register_key demo_nacl demo_done 11 ''ag'' ''key'' = Inr db' \<and>
     live_key db' ''ag'' = Inr (Some ''key'')"
proof -
  obtain db' where "register_key demo_nacl demo_done 11 ''ag'' ''key'' = Inr db'"
    by (simp add: register_key_def validate_public_key_def demo_nacl_def)
  with register_key_rotates [OF demo_done_inv this] show ?thesis by blast
qed

end
