(* ===== verification/Messages_Doors.thy ===== *)
theory Messages_Doors
  imports Messages_Store
begin

text \<open>
  The two doors of ARB Messages: the requesting agent's tools (\<open>src/src/arb_messages/mcp/door_tools.py\<close>)
  and the fulfiller's (\<open>mcp/fulfillment_tools.py\<close> over \<open>fulfillment.py\<close>). The access token of the call
  is what the MCP middleware returns; the audit sink's events are returned as a list. Each database
  call of a tool takes its own time stamp.
\<close>

section \<open>Callers, settings, results\<close>

record access_token =
  tk_scopes :: "string list"
  tk_client_id :: "string option"
  tk_connector_host :: "string option"

record msg_settings =
  st_allowed_agents :: "string set"
  st_allowed_providers :: "string set"
  st_lease_seconds :: int

datatype door_error =
    PermissionError string
  | DoorValueError string
  | DoorTypeError
  | DoorBinasciiError
  | DoorCryptoError crypto_error

datatype door_reply =
    RStatus string
  | RBody string string
  | RPending string string
  | RClaimed msg_row

type_synonym audit_event = "string \<times> string"

definition require_scope :: "access_token option \<Rightarrow> string \<Rightarrow> (door_error, unit) res" where
  "require_scope tok scope =
     guard_r (case tok of None \<Rightarrow> False | Some t \<Rightarrow> scope \<in> set (tk_scopes t))
       (PermissionError (scope @ '' scope required''))"

definition actor :: "access_token option \<Rightarrow> (door_error, string) res" where
  "actor tok = (case tok of
       Some t \<Rightarrow> (case tk_client_id t of
           Some a \<Rightarrow> Inr (py_lower a)
         | None \<Rightarrow> Inl (PermissionError ''authenticated client_id required''))
     | None \<Rightarrow> Inl (PermissionError ''authenticated client_id required''))"

definition connector_host :: "access_token option \<Rightarrow> (door_error, string) res" where
  "connector_host tok = (case tok of
       Some t \<Rightarrow> (case tk_connector_host t of
           Some h \<Rightarrow> Inr h
         | None \<Rightarrow> Inl (PermissionError ''recognized connector required''))
     | None \<Rightarrow> Inl (PermissionError ''recognized connector required''))"

fun encode_delivery :: "delivery \<Rightarrow> (door_error, door_reply) res" where
  "encode_delivery (DStatus s) = Inr (RStatus s)"
| "encode_delivery (DBody s b) = Inr (RBody s (b64_encode b))"
| "encode_delivery DBodyIsNone = Inl DoorTypeError"

section \<open>The requesting agent's tools\<close>

text \<open>\<open>live_key\<close> as a tool sees it: a stored key that does not decode raises.\<close>

definition door_live_key :: "msg_db \<Rightarrow> string \<Rightarrow> (door_error, string option) res" where
  "door_live_key db a = (case live_key db a of Inl _ \<Rightarrow> Inl DoorBinasciiError | Inr k \<Rightarrow> Inr k)"

definition request_checks ::
  "msg_settings \<Rightarrow> access_token option \<Rightarrow> msg_db \<Rightarrow> string \<Rightarrow> (door_error \<times> audit_event list, string) res" where
  "request_checks st tok db provider =
    (case require_scope tok ''messages.request'' of
       Inl e \<Rightarrow> Inl (e, [(''denied'', ''missing scope'')])
     | Inr _ \<Rightarrow>
    (case actor tok of
       Inl e \<Rightarrow> Inl (e, [])
     | Inr agent \<Rightarrow>
    (case connector_host tok of
       Inl e \<Rightarrow> Inl (DoorValueError ''connector not allowlisted'', [(''denied'', ''connector not allowlisted'')])
     | Inr host \<Rightarrow>
       (if host \<notin> st_allowed_agents st
        then Inl (DoorValueError ''connector not allowlisted'', [(''denied'', ''connector not allowlisted'')])
        else if provider \<notin> st_allowed_providers st
        then Inl (DoorValueError ''provider not allowlisted'', [(''denied'', ''provider not allowlisted'')])
        else (case door_live_key db agent of
                Inl e \<Rightarrow> Inl (e, [])
              | Inr None \<Rightarrow> Inl (DoorValueError ''no live key'', [(''denied'', ''no live key'')])
              | Inr (Some _) \<Rightarrow> Inr agent)))))"

definition messages_request ::
  "msg_settings \<Rightarrow> access_token option \<Rightarrow> msg_db \<Rightarrow> int \<Rightarrow> int \<Rightarrow> string \<Rightarrow> string \<Rightarrow> string
    \<Rightarrow> (door_error, door_reply) res \<times> msg_db \<times> audit_event list" where
  "messages_request st tok db t1 t2 request_id capability provider =
    (case request_checks st tok db provider of
       Inl (e, evs) \<Rightarrow> (Inl e, db, evs)
     | Inr agent \<Rightarrow>
         (let db1 = snd (enqueue db t1 agent request_id ''generic'' provider capability (Some ''approved'') None);
              (d, db2) = read_and_mark_delivered db1 t2 agent request_id
          in (case d of
                DBody s b \<Rightarrow> encode_delivery d
              | DBodyIsNone \<Rightarrow> encode_delivery d
              | DStatus s \<Rightarrow> (if s \<in> {''failed'', ''denied''} then encode_delivery d
                             else Inr (RPending s request_id)),
              db2, [])))"

definition messages_register_key ::
  "nacl \<Rightarrow> access_token option \<Rightarrow> msg_db \<Rightarrow> int \<Rightarrow> string
    \<Rightarrow> (door_error, door_reply) res \<times> msg_db \<times> audit_event list" where
  "messages_register_key nc tok db now pubkey =
    (case require_scope tok ''messages.request'' of
       Inl e \<Rightarrow> (Inl e, db, [(''denied'', ''missing scope'')])
     | Inr _ \<Rightarrow>
    (case actor tok of
       Inl e \<Rightarrow> (Inl e, db, [])
     | Inr agent \<Rightarrow>
    (case b64_decode pubkey of
       None \<Rightarrow> (Inl DoorBinasciiError, db, [])
     | Some raw \<Rightarrow>
    (case register_key nc db now agent raw of
       Inl e \<Rightarrow> (Inl (DoorCryptoError e), db, [])
     | Inr db' \<Rightarrow> (Inr (RStatus ''registered''), db', [])))))"

definition messages_poll ::
  "access_token option \<Rightarrow> msg_db \<Rightarrow> int \<Rightarrow> string \<Rightarrow> (door_error, door_reply) res \<times> msg_db \<times> audit_event list" where
  "messages_poll tok db now request_id =
    (case require_scope tok ''messages.request'' of
       Inl e \<Rightarrow> (Inl e, db, [(''denied'', ''missing scope'')])
     | Inr _ \<Rightarrow>
    (case actor tok of
       Inl e \<Rightarrow> (Inl e, db, [])
     | Inr agent \<Rightarrow>
         (let (d, db') = read_and_mark_delivered db now agent request_id in (encode_delivery d, db', []))))"

section \<open>The fulfiller's tools\<close>

text \<open>\<open>claim_next\<close> forwards eight columns of the claimed row; the row itself is kept here.\<close>

definition claim_next :: "msg_db \<Rightarrow> int \<Rightarrow> int set \<Rightarrow> int \<Rightarrow> msg_row option \<times> msg_db" where
  "claim_next db now locked lease = claim db now locked lease"

text \<open>The plaintext is a str, which is encoded, or bytes.\<close>

datatype plaintext = StrText string | BytesText string

fun plaintext_bytes :: "plaintext \<Rightarrow> string" where
  "plaintext_bytes (StrText s) = utf8 s"
| "plaintext_bytes (BytesText b) = b"

definition deliver_result ::
  "nacl \<Rightarrow> string \<Rightarrow> msg_db \<Rightarrow> int \<Rightarrow> int \<Rightarrow> int \<Rightarrow> plaintext \<Rightarrow> string option \<Rightarrow> (door_error, bool) res \<times> msg_db" where
  "deliver_result nc rnd db now i c plaintext ptid =
    (case List.find (\<lambda>r. m_id r = i \<and> m_status r = ''claimed'' \<and> m_claimed_at r = Some c) (md_messages db) of
       None \<Rightarrow> (Inr False, db)
     | Some r \<Rightarrow>
    (case door_live_key db (m_agent_id r) of
       Inl e \<Rightarrow> (Inl e, db)
     | Inr None \<Rightarrow> (Inr False, db)
     | Inr (Some pk) \<Rightarrow>
    (case seal nc rnd (plaintext_bytes plaintext) pk of
       Inl e \<Rightarrow> (Inl (DoorCryptoError e), db)
     | Inr sealed \<Rightarrow> (let (ok, db') = write_sealed_result db now i c sealed ptid in (Inr ok, db')))))"

definition fulfil_deny :: "msg_db \<Rightarrow> int \<Rightarrow> int \<Rightarrow> int \<Rightarrow> string \<Rightarrow> bool \<times> msg_db" where
  "fulfil_deny db now i c reason = mark_denied db now i c reason"

definition fulfil_fail :: "msg_db \<Rightarrow> int \<Rightarrow> int \<Rightarrow> int \<Rightarrow> string \<Rightarrow> bool \<times> msg_db" where
  "fulfil_fail db now i c reason = mark_failed db now i c reason"

definition messages_claim_next ::
  "msg_settings \<Rightarrow> access_token option \<Rightarrow> msg_db \<Rightarrow> int \<Rightarrow> int set
    \<Rightarrow> (door_error, door_reply) res \<times> msg_db \<times> audit_event list" where
  "messages_claim_next st tok db now locked =
    (case require_scope tok ''messages.fulfill'' of
       Inl e \<Rightarrow> (Inl e, db, [])
     | Inr _ \<Rightarrow>
    (case claim_next db now locked (st_lease_seconds st) of
       (None, db') \<Rightarrow> (Inr (RStatus ''empty''), db', [])
     | (Some r, db') \<Rightarrow> (Inr (RClaimed r), db', [(''claimed'', m_capability r)])))"

definition messages_deliver_result ::
  "nacl \<Rightarrow> string \<Rightarrow> access_token option \<Rightarrow> msg_db \<Rightarrow> int \<Rightarrow> int \<Rightarrow> int \<Rightarrow> string \<Rightarrow> string option
    \<Rightarrow> (door_error, door_reply) res \<times> msg_db \<times> audit_event list" where
  "messages_deliver_result nc rnd tok db now i c result_text ptid =
    (case require_scope tok ''messages.fulfill'' of
       Inl e \<Rightarrow> (Inl e, db, [])
     | Inr _ \<Rightarrow>
    (case deliver_result nc rnd db now i c (StrText result_text) ptid of
       (Inl e, db') \<Rightarrow> (Inl e, db', [])
     | (Inr ok, db') \<Rightarrow>
         (Inr (RStatus (if ok then ''delivered'' else ''failed'')), db',
          [(if ok then ''delivered'' else ''deliver_failed'', [])])))"

definition messages_deny ::
  "access_token option \<Rightarrow> msg_db \<Rightarrow> int \<Rightarrow> int \<Rightarrow> int \<Rightarrow> string
    \<Rightarrow> (door_error, door_reply) res \<times> msg_db \<times> audit_event list" where
  "messages_deny tok db now i c reason =
    (case require_scope tok ''messages.fulfill'' of
       Inl e \<Rightarrow> (Inl e, db, [])
     | Inr _ \<Rightarrow>
         (let (ok, db') = fulfil_deny db now i c reason
          in (Inr (RStatus (if ok then ''denied'' else ''failed'')), db',
              [(if ok then ''denied'' else ''deny_failed'', reason)])))"

definition messages_fail ::
  "access_token option \<Rightarrow> msg_db \<Rightarrow> int \<Rightarrow> int \<Rightarrow> int \<Rightarrow> string
    \<Rightarrow> (door_error, door_reply) res \<times> msg_db \<times> audit_event list" where
  "messages_fail tok db now i c reason =
    (case require_scope tok ''messages.fulfill'' of
       Inl e \<Rightarrow> (Inl e, db, [])
     | Inr _ \<Rightarrow>
         (let (ok, db') = fulfil_fail db now i c reason
          in (Inr (RStatus (if ok then ''failed'' else ''failed_to_fail'')), db',
              [(if ok then ''failed'' else ''fail_failed'', reason)])))"

section \<open>Lemmas\<close>

lemma require_scope_ok [simp]:
  "require_scope tok scope = Inr u \<longleftrightarrow> (\<exists>t. tok = Some t \<and> scope \<in> set (tk_scopes t))"
  by (auto simp: require_scope_def split: option.splits)

lemma actor_ok: "actor tok = Inr a \<longleftrightarrow> (\<exists>t c. tok = Some t \<and> tk_client_id t = Some c \<and> a = py_lower c)"
  by (auto simp: actor_def split: option.splits)

lemma request_checks_ok:
  "request_checks st tok db provider = Inr agent \<longleftrightarrow>
     (\<exists>t c h pk. tok = Some t \<and> ''messages.request'' \<in> set (tk_scopes t) \<and>
        tk_client_id t = Some c \<and> agent = py_lower c \<and>
        tk_connector_host t = Some h \<and> h \<in> st_allowed_agents st \<and> provider \<in> st_allowed_providers st \<and>
        live_key db agent = Inr (Some pk))"
  by (auto simp: request_checks_def require_scope_def actor_def connector_host_def door_live_key_def guard_r_def
      split: option.splits sum.splits if_splits)

lemma find_claimed_row:
  assumes "msg_inv db" and "r \<in> set (md_messages db)" and "fence i c r"
  shows "List.find (\<lambda>r. m_id r = i \<and> m_status r = ''claimed'' \<and> m_claimed_at r = Some c) (md_messages db) = Some r"
proof (cases "List.find (\<lambda>r. m_id r = i \<and> m_status r = ''claimed'' \<and> m_claimed_at r = Some c) (md_messages db)")
  case None
  with assms show ?thesis by (auto simp: find_None_iff fence_def)
next
  case (Some q)
  then have "q \<in> set (md_messages db)" "m_id q = i" by (auto simp: find_Some_iff)
  with assms have "q = r" by (auto simp: fence_def intro: row_id_unique)
  with Some show ?thesis by simp
qed

lemma claimed_row_undelivered:
  assumes "msg_inv db" and "r \<in> set (md_messages db)" and "fence i c r"
  shows "m_delivered_at r = None"
  using assms by (auto simp: msg_inv_def row_ok_def fence_def)

lemma sealed_row:
  assumes "msg_inv db" and "r \<in> set (md_messages db)" and "fence i c r"
    and "write_sealed_result db now i c sealed ptid = (ok, db')"
  shows "ok \<and> (\<exists>r'. find_request db' (m_agent_id r) (m_request_id r) = Some r' \<and> m_status r' = ''done'' \<and>
    m_body r' = Some sealed \<and> m_delivered_at r' = None)"
proof -
  let ?fs = "[FStatus ''done'', FBody sealed, FProviderTokenId ptid, FCompletedNow]"
  from assms(4) have w: "fenced_write db now i c ?fs = (ok, db')" by (simp add: write_sealed_result_def)
  have "?fs \<noteq> []" by simp
  from assms(1) this w show ?thesis
  proof (cases rule: fenced_write_cases)
    case refused
    with assms(2,3) show ?thesis by (auto simp: is_still_owner_def)
  next
    case (written q)
    have inv': "msg_inv db'" using msg_inv_write(1) [OF assms(1), of now i c sealed ptid] assms(4) by simp
    have "fold (assign_field now) ?fs r \<in> set (md_messages db')"
      using assms(2,3) written(6) by (auto simp: image_iff intro!: bexI [of _ r])
    from find_request_unique [OF inv' this]
    have "find_request db' (m_agent_id r) (m_request_id r) = Some (fold (assign_field now) ?fs r)" by simp
    with written(1) claimed_row_undelivered [OF assms(1-3)] show ?thesis by simp
  qed
qed

lemma poll_scoped:
  assumes "''messages.request'' \<in> set (tk_scopes t)" and "tk_client_id t = Some cid"
  shows "messages_poll (Some t) db now req =
    (encode_delivery (fst (read_and_mark_delivered db now (py_lower cid) req)),
     snd (read_and_mark_delivered db now (py_lower cid) req), [])"
  using assms by (simp add: messages_poll_def require_scope_def actor_def guard_r_def case_prod_unfold Let_def)

lemma deliver_scoped:
  assumes "''messages.fulfill'' \<in> set (tk_scopes f)"
    and "List.find (\<lambda>r. m_id r = i \<and> m_status r = ''claimed'' \<and> m_claimed_at r = Some c) (md_messages db) = Some r"
    and "live_key db (m_agent_id r) = Inr (Some pk)" and "seal nc rnd (utf8 text) pk = Inr sealed"
    and "write_sealed_result db now i c sealed ptid = (True, db')"
  shows "messages_deliver_result nc rnd (Some f) db now i c text ptid
    = (Inr (RStatus ''delivered''), db', [(''delivered'', [])])"
  using assms
  by (simp add: messages_deliver_result_def deliver_result_def require_scope_def guard_r_def door_live_key_def)

lemma read_total:
  assumes "msg_inv db"
  shows "fst (read_and_mark_delivered db now agent req) \<noteq> DBodyIsNone"
  using assms find_request_Some [of db agent req]
  by (auto simp: read_and_mark_delivered_def msg_inv_def row_ok_def split: option.splits)

lemma find_request_update_rows:
  assumes "\<And>r. m_agent_id (f r) = m_agent_id r \<and> m_request_id (f r) = m_request_id r"
  shows "find_request (update_rows sel f db) agent req = None \<longleftrightarrow> find_request db agent req = None"
proof -
  have "(\<lambda>r. (m_agent_id r, m_request_id r)) ` (\<lambda>r. if sel r then f r else r) ` set (md_messages db)
      = (\<lambda>r. (m_agent_id r, m_request_id r)) ` set (md_messages db)"
    unfolding image_image by (rule image_cong) (simp_all add: assms)
  then show ?thesis by (simp only: find_request_None update_rows_simps)
qed

lemma find_request_read:
  assumes "find_request db agent req \<noteq> None"
  shows "find_request (snd (read_and_mark_delivered db now agent req)) agent req \<noteq> None"
proof -
  obtain d db' where eq: "read_and_mark_delivered db now agent req = (d, db')" by fastforce
  then show ?thesis
  proof (cases rule: delivered_cases)
    case same
    with eq assms show ?thesis by simp
  next
    case (marked r b)
    have "find_request db' agent req = None \<longleftrightarrow> find_request db agent req = None"
      unfolding marked(6) by (rule find_request_update_rows) simp
    with eq assms show ?thesis by simp
  qed
qed

lemma find_request_enqueue:
  "find_request (snd (enqueue db now agent req rtype prov cap pdec preason)) agent req \<noteq> None"
proof (cases "find_request db agent req")
  case None
  then have "enqueue db now agent req rtype prov cap pdec preason
      = (md_next_id db, db\<lparr>md_messages := md_messages db @
          [new_row (md_next_id db) now agent req rtype prov cap pdec preason], md_next_id := md_next_id db + 1\<rparr>)"
    by (simp add: enqueue_def)
  then show ?thesis unfolding find_request_None by (simp add: new_row_def)
next
  case (Some r)
  then show ?thesis unfolding enqueue_def by (simp add: find_request_def)
qed

text \<open>Callers and a database for the witnesses: one request, claimed at time 7, whose agent has a key.\<close>

definition demo_requester :: access_token where
  "demo_requester = \<lparr>tk_scopes = [''messages.request''], tk_client_id = Some ''AG'', tk_connector_host = Some ''claude.ai''\<rparr>"

definition demo_fulfiller :: access_token where
  "demo_fulfiller = \<lparr>tk_scopes = [''messages.fulfill''], tk_client_id = None, tk_connector_host = None\<rparr>"

definition demo_settings :: msg_settings where
  "demo_settings = \<lparr>st_allowed_agents = {''claude.ai''}, st_allowed_providers = {''cloudflare''}, st_lease_seconds = 300\<rparr>"

definition demo_row :: msg_row where
  "demo_row = (new_row 1 5 ''ag'' ''r1'' ''generic'' ''cloudflare'' ''mint'' (Some ''approved'') None)
     \<lparr>m_status := ''claimed'', m_claimed_at := Some 7, m_attempts := 1\<rparr>"

definition demo_claimed :: msg_db where
  "demo_claimed = \<lparr>md_messages = [demo_row],
     md_keys = [\<lparr>k_agent_id = ''ag'', k_pubkey = b64_encode ''Psk'', k_fingerprint = ''fpPsk'', k_created_at = 6,
                 k_revoked_at = None\<rparr>], md_next_id = 2\<rparr>"

lemma demo_claimed_facts:
  "msg_inv demo_claimed" "demo_row \<in> set (md_messages demo_claimed)" "fence 1 7 demo_row"
  "live_key demo_claimed ''ag'' = Inr (Some ''Psk'')" "py_lower ''AG'' = ''ag''"
  "m_agent_id demo_row = ''ag''" "m_request_id demo_row = ''r1''"
proof -
  show "msg_inv demo_claimed"
    by (auto simp: demo_claimed_def demo_row_def new_row_def msg_inv_def row_ok_def key_ok_def simp del: b64_encode.simps)
  show "live_key demo_claimed ''ag'' = Inr (Some ''Psk'')"
    by (simp add: demo_claimed_def live_key_def del: b64_encode.simps)
  show "py_lower ''AG'' = ''ag''" by code_simp
qed (simp_all add: demo_claimed_def demo_row_def new_row_def fence_def)

section \<open>Properties\<close>

text \<open>C20: End-to-end delivery. If a fulfiller holds the claim on a request and the requester's live key is the public
  half of a private key, then the delivery door accepts the result text, and the requester's next poll
  returns a base64 body which decodes to a box that this private key opens to the UTF-8 encoding of the delivered
  text, which decodes to exactly that text. PyNaCl is trusted for its documented sealed-box round trip only.\<close>

theorem deliver_poll_roundtrip:
  assumes "nacl_contract nc" and "nacl_sk_ok nc sk"
    and "msg_inv db" and "r \<in> set (md_messages db)" and "fence i c r"
    and "live_key db (m_agent_id r) = Inr (Some (nacl_pk_of nc sk))"
    and "''messages.fulfill'' \<in> set (tk_scopes f)"
    and "''messages.request'' \<in> set (tk_scopes t)" and "tk_client_id t = Some cid" and "py_lower cid = m_agent_id r"
    and "messages_deliver_result nc rnd (Some f) db now i c text ptid = (res, db1, evs)"
  shows "res = Inr (RStatus ''delivered'') \<and>
    (\<exists>body sealed. fst (messages_poll (Some t) db1 now2 (m_request_id r)) = Inr (RBody ''delivered'' body) \<and>
       b64_decode body = Some sealed \<and> unseal nc sealed sk = Inr (utf8 text) \<and> utf8_decode (utf8 text) = Some text)"
proof -
  let ?sealed = "nacl_sealed_encrypt nc rnd (nacl_pk_of nc sk) (utf8 text)"
  obtain ok db' where w: "write_sealed_result db now i c ?sealed ptid = (ok, db')" by fastforce
  from sealed_row [OF assms(3-5) w] obtain r' where ok: "ok"
    and r': "find_request db' (m_agent_id r) (m_request_id r) = Some r'" "m_status r' = ''done''"
      "m_body r' = Some ?sealed" "m_delivered_at r' = None" by blast
  from deliver_scoped [OF assms(7) find_claimed_row [OF assms(3-5)] assms(6) seal_unseal(1) [OF assms(1,2)]] w ok assms(11)
  have eqs: "res = Inr (RStatus ''delivered'')" "db1 = db'" by auto
  have "fst (messages_poll (Some t) db1 now2 (m_request_id r)) = Inr (RBody ''delivered'' (b64_encode ?sealed))"
    using r' by (simp add: poll_scoped [OF assms(8,9)] assms(10) eqs read_and_mark_delivered_def)
  with eqs seal_unseal(2) [OF assms(1,2)] show ?thesis by simp
qed

theorem deliver_poll_roundtrip_witness:
  "\<exists>db1 body sealed. fst (snd (messages_deliver_result demo_nacl [] (Some demo_fulfiller) demo_claimed 9 1 7 [CHR 0x73, CHR 0xE9] None)) = db1 \<and>
     fst (messages_poll (Some demo_requester) db1 12 ''r1'') = Inr (RBody ''delivered'' body) \<and>
     b64_decode body = Some sealed \<and> unseal demo_nacl sealed ''sk'' = Inr [CHR 0x73, CHR 0xC3, CHR 0xA9]"
proof -
  obtain res db1 evs where d: "messages_deliver_result demo_nacl [] (Some demo_fulfiller) demo_claimed 9 1 7 [CHR 0x73, CHR 0xE9] None
      = (res, db1, evs)" by (metis prod_cases3)
  have "nacl_sk_ok demo_nacl ''sk''" "nacl_pk_of demo_nacl ''sk'' = ''Psk''"
    "''messages.fulfill'' \<in> set (tk_scopes demo_fulfiller)" "''messages.request'' \<in> set (tk_scopes demo_requester)"
    "tk_client_id demo_requester = Some ''AG''"
    by (simp_all add: demo_nacl_def demo_fulfiller_def demo_requester_def)
  moreover have "utf8 [CHR 0x73, CHR 0xE9] = [CHR 0x73, CHR 0xC3, CHR 0xA9]" by code_simp
  ultimately show ?thesis
    using deliver_poll_roundtrip [OF demo_nacl_contract _ demo_claimed_facts(1-3) _ _ _ _ _ d,
        of "''sk''" demo_requester "''AG''" 12] d demo_claimed_facts by auto
qed

text \<open>What the request door lets through. A request is accepted exactly when the token has the request
  scope and a client id, its connector and the provider are allow-listed and the agent has a live
  key; the agent then has a row under that request id. In every other case the tool raises and the
  database is untouched.\<close>

theorem request_door_exact:
  assumes "msg_inv db" and "messages_request st tok db t1 t2 req cap prov = (res, db', evs)"
  shows "(case tok of None \<Rightarrow> False | Some t \<Rightarrow> ''messages.request'' \<in> set (tk_scopes t) \<and>
        (case tk_connector_host t of None \<Rightarrow> False | Some h \<Rightarrow> h \<in> st_allowed_agents st) \<and>
        prov \<in> st_allowed_providers st \<and>
        (\<exists>cid pk. tk_client_id t = Some cid \<and> live_key db (py_lower cid) = Inr (Some pk)))
     = (\<exists>rep. res = Inr rep) \<and>
    ((\<exists>rep. res = Inr rep) \<longrightarrow> (\<exists>t cid. tok = Some t \<and> tk_client_id t = Some cid \<and>
        find_request db' (py_lower cid) req \<noteq> None)) \<and>
    ((\<exists>e. res = Inl e) \<longrightarrow> db' = db)"
proof (cases "request_checks st tok db prov")
  case (Inl x)
  obtain e v where x: "x = (e, v)" by fastforce
  with Inl assms(2) have "res = Inl e" "db' = db" by (simp_all add: messages_request_def)
  with Inl x request_checks_ok [of st tok db prov] show ?thesis by (auto split: option.splits)
next
  case (Inr agent)
  let ?db1 = "snd (enqueue db t1 agent req ''generic'' prov cap (Some ''approved'') None)"
  obtain d db2 where rd: "read_and_mark_delivered ?db1 t2 agent req = (d, db2)" by fastforce
  have inv1: "msg_inv ?db1" by (rule msg_inv_enqueue [OF assms(1)])
  from read_total [OF inv1, of t2 agent req] rd have "d \<noteq> DBodyIsNone" by simp
  with Inr assms(2) rd have ok: "\<exists>rep. res = Inr rep" and db': "db' = db2"
    by (auto simp: messages_request_def split: delivery.splits if_splits)
  from find_request_read
      [OF find_request_enqueue [of db t1 agent req "''generic''" prov cap "Some ''approved''" None], where now = t2] rd have "find_request db' agent req \<noteq> None"
    by (simp add: db')
  with ok Inr request_checks_ok [of st tok db prov agent] show ?thesis by (auto split: option.splits)
qed

theorem request_door_exact_witness:
  "\<exists>rep. fst (messages_request demo_settings (Some demo_requester) demo_claimed 8 9 ''r2'' ''add dns'' ''cloudflare'') = Inr rep"
proof -
  obtain res db' evs where m: "messages_request demo_settings (Some demo_requester) demo_claimed 8 9 ''r2'' ''add dns'' ''cloudflare''
      = (res, db', evs)" by (metis prod_cases3)
  from request_door_exact [OF demo_claimed_facts(1) m] m demo_claimed_facts(4,5) show ?thesis
    by (simp add: demo_settings_def demo_requester_def)
qed

text \<open>Delivery is isolated. A body that a poll returns is the sealed body of a finished request of the calling
  client under the polled request id, and the poll changes at most that row, and in it only the
  delivery time stamp.\<close>

theorem poll_isolated:
  assumes "messages_poll tok db now req = (res, db', evs)"
  shows "(\<forall>s b. res = Inr (RBody s b) \<longrightarrow>
      (\<exists>t cid r sealed. tok = Some t \<and> tk_client_id t = Some cid \<and> r \<in> set (md_messages db) \<and>
         m_agent_id r = py_lower cid \<and> m_request_id r = req \<and> m_status r = ''done'' \<and>
         m_body r = Some sealed \<and> b = b64_encode sealed)) \<and>
    md_keys db' = md_keys db \<and>
    (db' = db \<or> (\<exists>r \<in> set (md_messages db). m_request_id r = req \<and>
       db' = update_rows (\<lambda>q. m_id q = m_id r) (\<lambda>q. q\<lparr>m_delivered_at := Some now\<rparr>) db))"
proof (cases "\<exists>t cid. tok = Some t \<and> ''messages.request'' \<in> set (tk_scopes t) \<and> tk_client_id t = Some cid")
  case False
  with assms have "\<exists>e. res = Inl e" "db' = db"
    by (auto simp: messages_poll_def require_scope_def actor_def guard_r_def split: option.splits if_splits)
  then show ?thesis by auto
next
  case True
  then obtain t cid where tok: "tok = Some t" "''messages.request'' \<in> set (tk_scopes t)" "tk_client_id t = Some cid"
    by blast
  obtain d db1 where rd: "read_and_mark_delivered db now (py_lower cid) req = (d, db1)" by fastforce
  with assms tok have eqs: "res = encode_delivery d" "db' = db1" by (simp_all add: poll_scoped)
  have body: "\<exists>r sealed. find_request db (py_lower cid) req = Some r \<and> m_status r = ''done'' \<and>
      m_body r = Some sealed \<and> b = b64_encode sealed" if "encode_delivery d = Inr (RBody s b)" for s b
    using that rd by (auto simp: read_and_mark_delivered_def split: option.splits if_splits)
  from rd have "db1 = db \<or> (\<exists>r. find_request db (py_lower cid) req = Some r \<and>
     db1 = update_rows (\<lambda>q. m_id q = m_id r) (\<lambda>q. q\<lparr>m_delivered_at := Some now\<rparr>) db)"
    by (cases rule: delivered_cases) auto
  with body tok find_request_Some [of db "py_lower cid" req] show ?thesis
    unfolding eqs by (metis update_rows_simps(1))
qed

theorem poll_isolated_witness:
  "\<exists>b. fst (messages_poll (Some demo_requester) demo_done 20 ''r1'') = Inr (RBody ''delivered'' b) \<and>
     (\<exists>r \<in> set (md_messages demo_done). m_agent_id r = ''ag'' \<and> m_request_id r = ''r1'' \<and>
        (\<exists>sealed. m_body r = Some sealed \<and> b = b64_encode sealed))"
proof -
  obtain res db' evs where m: "messages_poll (Some demo_requester) demo_done 20 ''r1'' = (res, db', evs)"
    by (metis prod_cases3)
  have "fst (messages_poll (Some demo_requester) demo_done 20 ''r1'') = Inr (RBody ''delivered'' (b64_encode ''SEALED''))"
    by (subst poll_scoped [where cid = "''AG''"])
      (simp_all add: demo_requester_def demo_claimed_facts(5) demo_done_eval read_and_mark_delivered_def find_request_def)
  with poll_isolated [OF m] m demo_claimed_facts(5) show ?thesis by (auto simp: demo_requester_def)
qed

lemma fulfil_write_frame:
  assumes "msg_inv db" and "fs \<noteq> []" and "fenced_write db now i c fs = (ok, db')"
  shows "db' \<noteq> db \<Longrightarrow> is_still_owner db i c"
    and "\<forall>r \<in> set (md_messages db). m_id r \<noteq> i \<longrightarrow> r \<in> set (md_messages db')"
    and "md_keys db' = md_keys db"
proof -
  have frame: "r \<in> set (md_messages (update_rows (fence i c) f db))" if "r \<in> set (md_messages db)" "m_id r \<noteq> i" for f r
    using that by (auto simp: fence_def image_iff intro!: bexI [of _ r])
  show "db' \<noteq> db \<Longrightarrow> is_still_owner db i c"
    using assms fenced_write_no_owner [OF assms(2), of db i c now] by (cases "is_still_owner db i c") auto
  show "\<forall>r \<in> set (md_messages db). m_id r \<noteq> i \<longrightarrow> r \<in> set (md_messages db')"
    using assms frame by (auto simp: fenced_write_def)
  show "md_keys db' = md_keys db" using assms by (auto simp: fenced_write_def)
qed

lemma fulfil_frame:
  assumes "msg_inv db"
  shows "mark_denied db now i c reason = (ok, db') \<Longrightarrow> (db' \<noteq> db \<longrightarrow> is_still_owner db i c) \<and>
      (\<forall>r \<in> set (md_messages db). m_id r \<noteq> i \<longrightarrow> r \<in> set (md_messages db')) \<and> md_keys db' = md_keys db"
    and "mark_failed db now i c reason = (ok, db') \<Longrightarrow> (db' \<noteq> db \<longrightarrow> is_still_owner db i c) \<and>
      (\<forall>r \<in> set (md_messages db). m_id r \<noteq> i \<longrightarrow> r \<in> set (md_messages db')) \<and> md_keys db' = md_keys db"
    and "write_sealed_result db now i c sealed ptid = (ok, db') \<Longrightarrow> (db' \<noteq> db \<longrightarrow> is_still_owner db i c) \<and>
      (\<forall>r \<in> set (md_messages db). m_id r \<noteq> i \<longrightarrow> r \<in> set (md_messages db')) \<and> md_keys db' = md_keys db"
  unfolding msg_writes using fulfil_write_frame [OF assms, of _ now i c ok db'] by blast+

text \<open>The fulfiller's tools write only under the fulfil scope and a live claim. Whenever a deliver, deny or fail
  call changes the database, the token has the scope, the call's row id and claim time stamp are those
  of a row currently claimed, and every row with another id and every key is as before.\<close>

theorem fulfiller_writes_own_claim:
  assumes "msg_inv db"
    and "messages_deliver_result nc rnd tok db now i c text ptid = (res, db', evs) \<or>
         messages_deny tok db now i c reason = (res, db', evs) \<or>
         messages_fail tok db now i c reason = (res, db', evs)"
  shows "(db' \<noteq> db \<longrightarrow> is_still_owner db i c \<and> (\<exists>t. tok = Some t \<and> ''messages.fulfill'' \<in> set (tk_scopes t))) \<and>
    (\<forall>r \<in> set (md_messages db). m_id r \<noteq> i \<longrightarrow> r \<in> set (md_messages db')) \<and> md_keys db' = md_keys db"
proof (cases "\<exists>t. tok = Some t \<and> ''messages.fulfill'' \<in> set (tk_scopes t)")
  case False
  with assms(2) have "db' = db"
    by (auto simp: messages_deliver_result_def messages_deny_def messages_fail_def require_scope_def guard_r_def
        split: option.splits if_splits)
  then show ?thesis by simp
next
  case True
  then obtain u where u: "require_scope tok ''messages.fulfill'' = Inr u"
    by (auto simp: require_scope_def guard_r_def split: option.splits)
  with assms(2) consider
      "db' = db"
    | ok sealed where "write_sealed_result db now i c sealed ptid = (ok, db')"
    | ok where "mark_denied db now i c reason = (ok, db')"
    | ok where "mark_failed db now i c reason = (ok, db')"
    by (auto simp: messages_deliver_result_def deliver_result_def messages_deny_def messages_fail_def
        fulfil_deny_def fulfil_fail_def split: option.splits sum.splits prod.splits)
  then have "(db' \<noteq> db \<longrightarrow> is_still_owner db i c) \<and>
      (\<forall>r \<in> set (md_messages db). m_id r \<noteq> i \<longrightarrow> r \<in> set (md_messages db')) \<and> md_keys db' = md_keys db"
    by cases (simp, (erule fulfil_frame [OF assms(1)])+)
  with True show ?thesis by blast
qed

theorem fulfiller_writes_own_claim_witness:
  "fst (snd (messages_deny (Some demo_fulfiller) demo_claimed 9 1 7 ''no'')) \<noteq> demo_claimed \<and> is_still_owner demo_claimed 1 7"
proof -
  obtain res db' evs where m: "messages_deny (Some demo_fulfiller) demo_claimed 9 1 7 ''no'' = (res, db', evs)"
    by (metis prod_cases3)
  have "fst (snd (messages_deny (Some demo_fulfiller) demo_claimed 9 1 7 ''no'')) \<noteq> demo_claimed"
    by (simp add: messages_deny_def require_scope_def guard_r_def demo_fulfiller_def fulfil_deny_def mark_denied_def
        fenced_write_def demo_claimed_def update_rows_def demo_row_def new_row_def fence_def)
  moreover from fulfiller_writes_own_claim [OF demo_claimed_facts(1), of demo_nacl "[]" "Some demo_fulfiller" 9 1 7 "[]" None
      res db' evs "''no''"] m
  have "db' \<noteq> demo_claimed \<longrightarrow> is_still_owner demo_claimed 1 7" by blast
  ultimately show ?thesis using m by simp
qed

end
