(* ===== verification/Registration_Store.thy ===== *)
theory Registration_Store
  imports Arb_Prelude
begin

text \<open>
  The registrar's SQLite store (\<open>src/src/arb_registration/store.py\<close>): one-time seat tokens, registration
  requests, the host sealing-key pins and the operator audit. A table is the list of its rows in
  insertion order. Every method runs in one transaction that rolls back when it raises, so each is a
  function from the database to a result and a database. A time is a count of microseconds; the store
  compares the ISO texts of times, and \<open>iso_rank\<close> is that order. A column of JSON text holds the value
  the text denotes (such a text is never empty). SHA-256 is an argument, and so are
  the random identifiers a call draws.
\<close>

section \<open>Times as the store compares them\<close>

text \<open>
  \<open>isoformat()\<close> prints no fraction when the microseconds are 0, so within one second the text
  \<open>...:05Z\<close> sorts after every \<open>...:05.ffffffZ\<close> (\<open>.\<close> precedes \<open>Z\<close>).
\<close>

definition iso_rank :: "int \<Rightarrow> int" where
  "iso_rank t = (t div 1000000) * 1000001 + (if t mod 1000000 = 0 then 1000000 else t mod 1000000)"

section \<open>Tables\<close>

record token_row =
  t_id :: string
  t_name :: string
  t_host :: string
  t_hash :: string
  t_status :: string
  t_created :: int
  t_expires :: int
  t_request :: "string option"
  t_updated :: int

record req_row =
  r_id :: string
  r_token :: string
  r_pubkey :: string
  r_signing_pubkey :: string
  r_name :: string
  r_host :: string
  r_channels_json :: json
  r_reply_agent :: string
  r_client_nonce :: string
  r_status :: string
  r_approval_event :: "string option"
  r_created :: int
  r_updated :: int
  r_decision :: "string option"
  r_decision_source :: "string option"
  r_attempts :: int
  r_next_attempt :: "int option"
  r_last_error :: "string option"
  r_contradiction_noted :: bool
  r_sealing_pubkey :: "string option"
  r_sealing_fp :: "string option"
  r_self_report_json :: "json option"
  r_roles_json :: "json option"

record pin_row =
  p_host :: string
  p_fp :: string
  p_request :: string
  p_pinned_at :: int

record op_audit =
  a_action :: string
  a_host :: string
  a_source :: string
  a_created :: int

record reg_db =
  rg_tokens :: "token_row list"
  rg_requests :: "req_row list"
  rg_pins :: "pin_row list"
  rg_audit :: "op_audit list"

datatype reg_error = TokenError string | IntegrityError

definition reg_init :: reg_db where
  "reg_init = \<lparr>rg_tokens = [], rg_requests = [], rg_pins = [], rg_audit = []\<rparr>"

section \<open>Tokens\<close>

definition map_tokens :: "(token_row \<Rightarrow> bool) \<Rightarrow> (token_row \<Rightarrow> token_row) \<Rightarrow> reg_db \<Rightarrow> reg_db" where
  "map_tokens p f db = db\<lparr>rg_tokens := map (\<lambda>t. if p t then f t else t) (rg_tokens db)\<rparr>"

definition map_requests :: "(req_row \<Rightarrow> bool) \<Rightarrow> (req_row \<Rightarrow> req_row) \<Rightarrow> reg_db \<Rightarrow> reg_db" where
  "map_requests p f db = db\<lparr>rg_requests := map (\<lambda>r. if p r then f r else r) (rg_requests db)\<rparr>"

definition token_text :: "string \<Rightarrow> string \<Rightarrow> string" where
  "token_text token_id secret = ''arbseat_'' @ token_id @ ''_'' @ secret"

text \<open>\<open>now1\<close> and \<open>now2\<close> are the two readings of the clock; \<open>ttl\<close> is in microseconds.\<close>

definition mint ::
  "(string \<Rightarrow> string) \<Rightarrow> reg_db \<Rightarrow> int \<Rightarrow> int \<Rightarrow> string \<Rightarrow> string \<Rightarrow> string \<Rightarrow> string option \<Rightarrow> int
    \<Rightarrow> (reg_error, string \<times> token_row) res \<times> reg_db" where
  "mint sha db now1 now2 token_id secret name host ttl =
    (case host of
       None \<Rightarrow> (Inl (TokenError ''name and host must be nonblank and ttl must be positive''), db)
     | Some h \<Rightarrow>
        (if \<not> nonblank name \<or> \<not> nonblank h \<or> ttl \<le> 0
         then (Inl (TokenError ''name and host must be nonblank and ttl must be positive''), db)
         else
           (let tok = token_text token_id secret;
                row = \<lparr>t_id = token_id, t_name = py_strip name, t_host = py_strip h, t_hash = sha tok,
                       t_status = ''active'', t_created = now1, t_expires = now2 + ttl, t_request = None,
                       t_updated = now1\<rparr>
            in if \<exists>t \<in> set (rg_tokens db). t_id t = token_id \<or> t_hash t = sha tok then (Inl IntegrityError, db)
               else (Inr (tok, row), db\<lparr>rg_tokens := rg_tokens db @ [row]\<rparr>))))"

definition list_tokens :: "reg_db \<Rightarrow> int \<Rightarrow> token_row list \<times> reg_db" where
  "list_tokens db now =
    (let db' = map_tokens (\<lambda>t. t_status t = ''active'' \<and> iso_rank (t_expires t) \<le> iso_rank now)
                 (\<lambda>t. t\<lparr>t_status := ''expired'', t_updated := now\<rparr>) db
     in (sort_key (\<lambda>t. - iso_rank (t_created t)) (rg_tokens db'), db'))"

definition revoke :: "reg_db \<Rightarrow> int \<Rightarrow> string \<Rightarrow> (reg_error, unit) res \<times> reg_db" where
  "revoke db now token_id =
    (let p = (\<lambda>t. t_id t = token_id \<and> t_status t \<noteq> ''revoked'')
     in if \<exists>t \<in> set (rg_tokens db). p t
        then (Inr (), map_tokens p (\<lambda>t. t\<lparr>t_status := ''revoked'', t_updated := now\<rparr>) db)
        else (Inl (TokenError ''unknown or already-revoked token id''), db))"

text \<open>The dictionary \<open>request\<close> that \<open>reserve\<close> takes; the last four keys are read with \<open>get\<close>.\<close>

record reg_request =
  q_pubkey :: string
  q_signing_pubkey :: string
  q_channels_json :: json
  q_reply_agent :: string
  q_client_nonce :: string
  q_sealing_pubkey :: "string option"
  q_sealing_fp :: "string option"
  q_self_report_json :: "json option"
  q_roles_json :: "json option"

definition new_request :: "string \<Rightarrow> string \<Rightarrow> string \<Rightarrow> string \<Rightarrow> int \<Rightarrow> reg_request \<Rightarrow> req_row" where
  "new_request rid tid name host now q =
     \<lparr>r_id = rid, r_token = tid, r_pubkey = q_pubkey q, r_signing_pubkey = q_signing_pubkey q, r_name = name,
      r_host = host, r_channels_json = q_channels_json q, r_reply_agent = q_reply_agent q,
      r_client_nonce = q_client_nonce q, r_status = ''pending'', r_approval_event = None, r_created = now,
      r_updated = now, r_decision = None, r_decision_source = None, r_attempts = 0, r_next_attempt = None,
      r_last_error = None, r_contradiction_noted = False, r_sealing_pubkey = q_sealing_pubkey q,
      r_sealing_fp = q_sealing_fp q, r_self_report_json = q_self_report_json q, r_roles_json = q_roles_json q\<rparr>"

definition find_token :: "(string \<Rightarrow> string) \<Rightarrow> reg_db \<Rightarrow> string \<Rightarrow> token_row option" where
  "find_token sha db token = List.find (\<lambda>t. t_hash t = sha token) (rg_tokens db)"

definition reserve ::
  "(string \<Rightarrow> string) \<Rightarrow> reg_db \<Rightarrow> int \<Rightarrow> string \<Rightarrow> string \<Rightarrow> string \<Rightarrow> string \<Rightarrow> reg_request
    \<Rightarrow> (reg_error, string) res \<times> reg_db" where
  "reserve sha db now rid token name host q =
    (case find_token sha db token of
       None \<Rightarrow> (Inl (TokenError ''invalid registration credential''), db)
     | Some t \<Rightarrow>
        (if t_status t \<noteq> ''active'' \<or> iso_rank (t_expires t) \<le> iso_rank now
         then (Inl (TokenError ''invalid registration credential''), db)
         else if t_name t \<noteq> name \<or> t_host t \<noteq> host
         then (Inl (TokenError ''invalid registration credential''), db)
         else if (\<exists>u \<in> set (rg_tokens db). t_id u \<noteq> t_id t \<and> t_request u = Some rid) \<or>
                 (\<exists>r \<in> set (rg_requests db). r_id r = rid \<or> r_token r = t_id t)
         then (Inl IntegrityError, db)
         else (Inr rid,
               (map_tokens (\<lambda>u. t_id u = t_id t)
                  (\<lambda>u. u\<lparr>t_status := ''pending'', t_request := Some rid, t_updated := now\<rparr>) db)
               \<lparr>rg_requests := rg_requests db @ [new_request rid (t_id t) name host now q]\<rparr>)))"

definition given :: "string option \<Rightarrow> bool" where
  "given x \<longleftrightarrow> (case x of None \<Rightarrow> False | Some s \<Rightarrow> s \<noteq> [])"

definition reserve_bus ::
  "(string \<Rightarrow> string) \<Rightarrow> reg_db \<Rightarrow> int \<Rightarrow> string \<Rightarrow> string \<Rightarrow> string \<Rightarrow> string \<Rightarrow> reg_request
    \<Rightarrow> (reg_error, string) res \<times> reg_db" where
  "reserve_bus sha db now rid token name host q =
    (if given (q_sealing_pubkey q) \<and> given (q_sealing_fp q) \<and> q_self_report_json q \<noteq> None \<and> q_roles_json q \<noteq> None
     then reserve sha db now rid token name host q
     else (Inl (TokenError ''bus registration request is incomplete''), db))"

section \<open>Requests\<close>

definition set_request ::
  "reg_db \<Rightarrow> int \<Rightarrow> int \<Rightarrow> string \<Rightarrow> string \<Rightarrow> string option \<Rightarrow> (reg_error, unit) res \<times> reg_db" where
  "set_request db now1 now2 rid status ev =
    (if \<not> (\<exists>r \<in> set (rg_requests db). r_id r = rid) then (Inl (TokenError ''unknown request id''), db)
     else
       (let token_status = (if status = ''approved'' then Some ''approved''
                            else if status = ''denied'' \<or> status = ''timed_out'' then Some ''denied'' else None);
            db1 = map_requests (\<lambda>r. r_id r = rid)
                    (\<lambda>r. r\<lparr>r_status := status,
                           r_approval_event := (case ev of Some e \<Rightarrow> Some e | None \<Rightarrow> r_approval_event r),
                           r_updated := now1\<rparr>) db;
            db2 = (case token_status of
                     None \<Rightarrow> db1
                   | Some ts \<Rightarrow> map_tokens (\<lambda>t. t_request t = Some rid) (\<lambda>t. t\<lparr>t_status := ts, t_updated := now2\<rparr>) db1);
            db3 = (if status = ''provisioned''
                   then map_requests (\<lambda>r. r_id r = rid)
                          (\<lambda>r. r\<lparr>r_attempts := 0, r_next_attempt := None, r_last_error := None\<rparr>) db2
                   else db2)
        in (Inr (), db3)))"

definition decidable :: "string \<Rightarrow> req_row \<Rightarrow> bool" where
  "decidable rid r \<longleftrightarrow> r_id r = rid \<and> r_decision r = None \<and> r_status r = ''pending''"

definition set_decision ::
  "reg_db \<Rightarrow> int \<Rightarrow> string \<Rightarrow> string \<Rightarrow> string \<Rightarrow> (reg_error, bool) res \<times> reg_db" where
  "set_decision db now rid action source =
    (if action \<notin> {''approve'', ''deny''} then (Inl (TokenError ''invalid decision''), db)
     else (Inr (\<exists>r \<in> set (rg_requests db). decidable rid r),
           map_requests (decidable rid)
             (\<lambda>r. r\<lparr>r_decision := Some action, r_decision_source := Some source, r_updated := now\<rparr>) db))"

definition set_bus_decision ::
  "reg_db \<Rightarrow> int \<Rightarrow> string \<Rightarrow> string \<Rightarrow> string \<Rightarrow> (reg_error, bool) res \<times> reg_db" where
  "set_bus_decision db now rid action source =
    (if action \<notin> {''approve'', ''deny''} then (Inl (TokenError ''invalid decision''), db)
     else (Inr (\<exists>r \<in> set (rg_requests db). decidable rid r \<and> r_self_report_json r \<noteq> None),
           map_requests (\<lambda>r. decidable rid r \<and> r_self_report_json r \<noteq> None)
             (\<lambda>r. r\<lparr>r_decision := Some action, r_decision_source := Some source, r_updated := now\<rparr>) db))"

definition set_bus_status ::
  "reg_db \<Rightarrow> int \<Rightarrow> int \<Rightarrow> string \<Rightarrow> string \<Rightarrow> (reg_error, unit) res \<times> reg_db" where
  "set_bus_status db now1 now2 rid status =
    (if status \<notin> {''approved'', ''provisioned'', ''denied'', ''provision_failed''}
     then (Inl (TokenError ''invalid bus registration status''), db)
     else if \<not> (\<exists>r \<in> set (rg_requests db). r_id r = rid \<and> r_self_report_json r \<noteq> None)
     then (Inl (TokenError ''unknown bus registration request id''), db)
     else
       (let db1 = map_requests (\<lambda>r. r_id r = rid \<and> r_self_report_json r \<noteq> None)
                    (\<lambda>r. r\<lparr>r_status := status, r_updated := now1\<rparr>) db
        in (Inr (),
            map_tokens (\<lambda>t. t_request t = Some rid \<and>
                            (status = ''approved'' \<longrightarrow> t_status t \<notin> {''revoked'', ''expired''}))
              (\<lambda>t. t\<lparr>t_status := status, t_updated := now2\<rparr>) db1)))"

definition request_token :: "reg_db \<Rightarrow> string \<Rightarrow> token_row option" where
  "request_token db rid =
    (case List.find (\<lambda>r. r_id r = rid) (rg_requests db) of
       None \<Rightarrow> None
     | Some r \<Rightarrow> List.find (\<lambda>t. t_id t = r_token r) (rg_tokens db))"

definition assert_request_token_fresh :: "reg_db \<Rightarrow> int \<Rightarrow> string \<Rightarrow> (reg_error, unit) res" where
  "assert_request_token_fresh db now rid =
    (case request_token db rid of
       None \<Rightarrow> Inl (TokenError ''registration credential is no longer valid'')
     | Some t \<Rightarrow> guard_r (t_status t \<in> {''pending'', ''approved''} \<and> \<not> iso_rank (t_expires t) \<le> iso_rank now)
                  (TokenError ''registration credential is no longer valid''))"

section \<open>Sealing-key pins and the operator audit\<close>

definition host_sealing_pin :: "reg_db \<Rightarrow> string \<Rightarrow> string option" where
  "host_sealing_pin db host = map_option p_fp (List.find (\<lambda>p. p_host p = host) (rg_pins db))"

definition pin_host_sealing_key ::
  "reg_db \<Rightarrow> int \<Rightarrow> string \<Rightarrow> string \<Rightarrow> string \<Rightarrow> (reg_error, unit) res \<times> reg_db" where
  "pin_host_sealing_key db now host fp rid =
    (case List.find (\<lambda>p. p_host p = host) (rg_pins db) of
       Some p \<Rightarrow> (if p_fp p \<noteq> fp then (Inl (TokenError ''sealing key pin mismatch''), db) else (Inr (), db))
     | None \<Rightarrow> (Inr (), db\<lparr>rg_pins := rg_pins db @
                  [\<lparr>p_host = host, p_fp = fp, p_request = rid, p_pinned_at = now\<rparr>]\<rparr>))"

definition unpin_host_sealing_key ::
  "reg_db \<Rightarrow> int \<Rightarrow> string \<Rightarrow> string \<Rightarrow> (reg_error, op_audit) res \<times> reg_db" where
  "unpin_host_sealing_key db now host source =
    (if \<not> nonblank host \<or> \<not> nonblank source
     then (Inl (TokenError ''host and operator source must be nonblank''), db)
     else if \<not> (\<exists>p \<in> set (rg_pins db). p_host p = host) then (Inl (TokenError ''host has no sealing key pin''), db)
     else
       (let a = \<lparr>a_action = ''host_sealing_key_unpinned'', a_host = host, a_source = source, a_created = now\<rparr>
        in (Inr a, db\<lparr>rg_pins := filter (\<lambda>p. p_host p \<noteq> host) (rg_pins db), rg_audit := rg_audit db @ [a]\<rparr>)))"

definition bus_operator_audit :: "reg_db \<Rightarrow> op_audit list" where
  "bus_operator_audit db = rg_audit db"

section \<open>Queries and retries\<close>

text \<open>\<open>ORDER BY created_at\<close>; rows with equal texts keep their insertion order.\<close>

definition by_created :: "req_row list \<Rightarrow> req_row list" where
  "by_created rs = sort_key (\<lambda>r. iso_rank (r_created r)) rs"

definition bus_decided :: "reg_db \<Rightarrow> req_row list" where
  "bus_decided db = by_created (filter (\<lambda>r. r_status r = ''pending'' \<and> r_decision r \<noteq> None \<and>
     r_self_report_json r \<noteq> None) (rg_requests db))"

definition bus_pending :: "reg_db \<Rightarrow> req_row list" where
  "bus_pending db = by_created (filter (\<lambda>r. r_status r = ''pending'' \<and> r_self_report_json r \<noteq> None) (rg_requests db))"

definition bus_approved :: "reg_db \<Rightarrow> req_row list" where
  "bus_approved db = by_created (filter (\<lambda>r. r_status r = ''approved'' \<and> r_self_report_json r \<noteq> None) (rg_requests db))"

definition bus_requests :: "reg_db \<Rightarrow> req_row list" where
  "bus_requests db = by_created (filter (\<lambda>r. r_self_report_json r \<noteq> None) (rg_requests db))"

definition reg_pending :: "reg_db \<Rightarrow> req_row list" where
  "reg_pending db = by_created (filter (\<lambda>r. r_status r \<in> {''pending'', ''provisioned'', ''profile_ready''}) (rg_requests db))"

definition reg_request_row :: "reg_db \<Rightarrow> string \<Rightarrow> req_row option" where
  "reg_request_row db rid = List.find (\<lambda>r. r_id r = rid) (rg_requests db)"

definition record_attempt_failure ::
  "reg_db \<Rightarrow> int \<Rightarrow> int \<Rightarrow> string \<Rightarrow> string \<Rightarrow> int \<Rightarrow> int \<Rightarrow> (reg_error, int \<times> bool) res \<times> reg_db" where
  "record_attempt_failure db now1 now2 rid err next_at max_attempts =
    (case reg_request_row db rid of
       None \<Rightarrow> (Inl (TokenError ''unknown request id''), db)
     | Some r0 \<Rightarrow>
        (let attempts = r_attempts r0 + 1;
             exhausted = (max_attempts \<le> attempts);
             db1 = map_requests (\<lambda>r. r_id r = rid)
                     (\<lambda>r. r\<lparr>r_attempts := attempts, r_next_attempt := Some next_at, r_last_error := Some (take 1000 err),
                            r_status := (if exhausted then ''provision_failed'' else r_status r), r_updated := now1\<rparr>) db;
             db2 = (if exhausted
                    then map_tokens (\<lambda>t. t_request t = Some rid) (\<lambda>t. t\<lparr>t_status := ''denied'', t_updated := now2\<rparr>) db1
                    else db1)
         in (Inr (attempts, exhausted), db2)))"

definition mark_contradiction_noted :: "reg_db \<Rightarrow> int \<Rightarrow> string \<Rightarrow> reg_db" where
  "mark_contradiction_noted db now rid =
     map_requests (\<lambda>r. r_id r = rid) (\<lambda>r. r\<lparr>r_contradiction_noted := True, r_updated := now\<rparr>) db"

definition decided_for_contradiction_check :: "reg_db \<Rightarrow> int \<Rightarrow> req_row list" where
  "decided_for_contradiction_check db now =
     filter (\<lambda>r. r_decision r \<noteq> None \<and> \<not> r_contradiction_noted r \<and>
        r_status r \<in> {''approved'', ''denied'', ''provision_failed''} \<and>
        iso_rank (now - 24 * 3600 * 1000000) \<le> iso_rank (r_created r)) (rg_requests db)"

section \<open>The store as a transition system\<close>

inductive reg_step :: "(string \<Rightarrow> string) \<Rightarrow> reg_db \<Rightarrow> reg_db \<Rightarrow> bool" for sha where
  rs_mint: "reg_step sha db (snd (mint sha db now1 now2 token_id secret name host ttl))"
| rs_list: "reg_step sha db (snd (list_tokens db now))"
| rs_revoke: "reg_step sha db (snd (revoke db now token_id))"
| rs_reserve: "reg_step sha db (snd (reserve sha db now rid token name host q))"
| rs_reserve_bus: "reg_step sha db (snd (reserve_bus sha db now rid token name host q))"
| rs_set_request: "reg_step sha db (snd (set_request db now1 now2 rid status ev))"
| rs_decision: "reg_step sha db (snd (set_decision db now rid action source))"
| rs_bus_decision: "reg_step sha db (snd (set_bus_decision db now rid action source))"
| rs_bus_status: "reg_step sha db (snd (set_bus_status db now1 now2 rid status))"
| rs_pin: "reg_step sha db (snd (pin_host_sealing_key db now host fp rid))"
| rs_unpin: "reg_step sha db (snd (unpin_host_sealing_key db now host source))"
| rs_failure: "reg_step sha db (snd (record_attempt_failure db now1 now2 rid err next_at max_attempts))"
| rs_contradiction: "reg_step sha db (mark_contradiction_noted db now rid)"

definition reg_inv :: "reg_db \<Rightarrow> bool" where
  "reg_inv db \<longleftrightarrow>
     distinct (map t_id (rg_tokens db)) \<and> distinct (map t_hash (rg_tokens db)) \<and>
     distinct (map r_id (rg_requests db)) \<and> distinct (map p_host (rg_pins db)) \<and>
     (\<forall>t \<in> set (rg_tokens db). t_status t = ''active'' \<longrightarrow> t_request t = None) \<and>
     (\<forall>t \<in> set (rg_tokens db). \<forall>q. t_request t = Some q \<longleftrightarrow>
        (\<exists>r \<in> set (rg_requests db). r_id r = q \<and> r_token r = t_id t)) \<and>
     (\<forall>r \<in> set (rg_requests db). \<exists>t \<in> set (rg_tokens db). t_id t = r_token r)"

text \<open>What a step may do to a token and to a request.\<close>

definition token_evolves :: "token_row \<Rightarrow> token_row \<Rightarrow> bool" where
  "token_evolves t t' \<longleftrightarrow>
     t_id t' = t_id t \<and> t_hash t' = t_hash t \<and> t_name t' = t_name t \<and> t_host t' = t_host t \<and>
     t_expires t' = t_expires t \<and> (t_status t' = ''active'' \<longrightarrow> t_status t = ''active'' \<and> t_request t' = t_request t) \<and>
     (t_request t \<noteq> None \<longrightarrow> t_request t' = t_request t)"

definition req_evolves :: "req_row \<Rightarrow> req_row \<Rightarrow> bool" where
  "req_evolves r r' \<longleftrightarrow>
     r_id r' = r_id r \<and> r_token r' = r_token r \<and> r_pubkey r' = r_pubkey r \<and>
     r_signing_pubkey r' = r_signing_pubkey r \<and> r_name r' = r_name r \<and> r_host r' = r_host r \<and>
     r_channels_json r' = r_channels_json r \<and> r_reply_agent r' = r_reply_agent r \<and>
     r_client_nonce r' = r_client_nonce r \<and> r_created r' = r_created r \<and>
     r_sealing_pubkey r' = r_sealing_pubkey r \<and> r_sealing_fp r' = r_sealing_fp r \<and>
     r_self_report_json r' = r_self_report_json r \<and> r_roles_json r' = r_roles_json r \<and>
     (r_decision r \<noteq> None \<longrightarrow> r_decision r' = r_decision r \<and> r_decision_source r' = r_decision_source r)"

lemma evolves_refl [simp]: "token_evolves t t" "req_evolves r r"
  by (simp_all add: token_evolves_def req_evolves_def)

lemma token_evolves_trans: "token_evolves a b \<Longrightarrow> token_evolves b c \<Longrightarrow> token_evolves a c"
  by (auto simp: token_evolves_def)

lemma req_evolves_trans: "req_evolves a b \<Longrightarrow> req_evolves b c \<Longrightarrow> req_evolves a c"
  by (auto simp: req_evolves_def)

lemma map_simps [simp]:
  "rg_tokens (map_requests p f db) = rg_tokens db" "rg_requests (map_tokens s g db) = rg_requests db"
  "rg_tokens (map_tokens s g db) = map (\<lambda>t. if s t then g t else t) (rg_tokens db)"
  "rg_requests (map_requests p f db) = map (\<lambda>r. if p r then f r else r) (rg_requests db)"
  "rg_pins (map_requests p f db) = rg_pins db" "rg_pins (map_tokens s g db) = rg_pins db"
  "rg_audit (map_requests p f db) = rg_audit db" "rg_audit (map_tokens s g db) = rg_audit db"
  by (simp_all add: map_tokens_def map_requests_def)

text \<open>A rewriting of rows in place: each row evolves, and no token changes its request.\<close>

definition in_place :: "reg_db \<Rightarrow> reg_db \<Rightarrow> bool" where
  "in_place db db' \<longleftrightarrow>
     (\<exists>g. rg_tokens db' = map g (rg_tokens db) \<and>
        (\<forall>t \<in> set (rg_tokens db). token_evolves t (g t) \<and> t_request (g t) = t_request t)) \<and>
     (\<exists>f. rg_requests db' = map f (rg_requests db) \<and> (\<forall>r \<in> set (rg_requests db). req_evolves r (f r))) \<and>
     rg_pins db' = rg_pins db \<and> rg_audit db' = rg_audit db"

lemma in_place_refl [simp]: "in_place db db"
  unfolding in_place_def by (intro conjI exI [of _ id]) simp_all

lemma in_place_trans [trans]:
  assumes "in_place a b" and "in_place b c"
  shows "in_place a c"
proof -
  from assms(1) obtain g f where ab: "rg_tokens b = map g (rg_tokens a)" "rg_requests b = map f (rg_requests a)"
    "\<forall>t \<in> set (rg_tokens a). token_evolves t (g t) \<and> t_request (g t) = t_request t"
    "\<forall>r \<in> set (rg_requests a). req_evolves r (f r)" "rg_pins b = rg_pins a" "rg_audit b = rg_audit a"
    by (auto simp: in_place_def)
  from assms(2) obtain g' f' where bc: "rg_tokens c = map g' (rg_tokens b)" "rg_requests c = map f' (rg_requests b)"
    "\<forall>t \<in> set (rg_tokens b). token_evolves t (g' t) \<and> t_request (g' t) = t_request t"
    "\<forall>r \<in> set (rg_requests b). req_evolves r (f' r)" "rg_pins c = rg_pins b" "rg_audit c = rg_audit b"
    by (auto simp: in_place_def)
  have "\<forall>t \<in> set (rg_tokens a). token_evolves t ((g' \<circ> g) t) \<and> t_request ((g' \<circ> g) t) = t_request t"
    using ab bc by (auto intro: token_evolves_trans)
  moreover have "\<forall>r \<in> set (rg_requests a). req_evolves r ((f' \<circ> f) r)"
    using ab bc by (auto intro: req_evolves_trans)
  moreover have "rg_tokens c = map (g' \<circ> g) (rg_tokens a)" "rg_requests c = map (f' \<circ> f) (rg_requests a)"
    using ab bc by simp_all
  ultimately show ?thesis using ab(5,6) bc(5,6) unfolding in_place_def by metis
qed

lemma in_place_tokens:
  assumes "\<And>t. p t \<Longrightarrow> token_evolves t (g t) \<and> t_request (g t) = t_request t"
  shows "in_place db (map_tokens p g db)"
  unfolding in_place_def using assms
  by (intro conjI exI [of _ "\<lambda>t. if p t then g t else t"] exI [of _ id]) auto

lemma in_place_requests:
  assumes "\<And>r. p r \<Longrightarrow> req_evolves r (f r)"
  shows "in_place db (map_requests p f db)"
  unfolding in_place_def using assms
  by (intro conjI exI [of _ "\<lambda>r. if p r then f r else r"] exI [of _ id]) auto

lemma set_request_in_place: "in_place db (snd (set_request db now1 now2 rid status ev))"
proof -
  let ?f = "\<lambda>r. r\<lparr>r_status := status,
      r_approval_event := (case ev of Some e \<Rightarrow> Some e | None \<Rightarrow> r_approval_event r), r_updated := now1\<rparr>"
  let ?z = "\<lambda>r. r\<lparr>r_attempts := 0, r_next_attempt := None, r_last_error := None\<rparr>"
  let ?db1 = "map_requests (\<lambda>r. r_id r = rid) ?f db"
  have 1: "in_place db ?db1" by (rule in_place_requests) (simp add: req_evolves_def)
  have 2: "in_place d (map_tokens (\<lambda>t. t_request t = Some rid) (\<lambda>t. t\<lparr>t_status := s, t_updated := now2\<rparr>) d)"
    if "s \<noteq> ''active''" for s d
    by (rule in_place_tokens) (simp add: token_evolves_def that)
  have 3: "in_place d (map_requests (\<lambda>r. r_id r = rid) ?z d)" for d
    by (rule in_place_requests) (simp add: req_evolves_def)
  show ?thesis
  proof (cases "\<exists>r \<in> set (rg_requests db). r_id r = rid")
    case True
    have 12: "in_place db (map_tokens (\<lambda>t. t_request t = Some rid) (\<lambda>t. t\<lparr>t_status := s, t_updated := now2\<rparr>) ?db1)"
      if "s \<noteq> ''active''" for s by (rule in_place_trans [OF 1 2 [OF that]])
    have 13: "in_place db (map_requests (\<lambda>r. r_id r = rid) ?z ?db1)" by (rule in_place_trans [OF 1 3])
    from True have eq: "snd (set_request db now1 now2 rid status ev) =
        (if status = ''approved'' then map_tokens (\<lambda>t. t_request t = Some rid) (\<lambda>t. t\<lparr>t_status := ''approved'', t_updated := now2\<rparr>) ?db1
         else if status = ''denied'' \<or> status = ''timed_out''
         then map_tokens (\<lambda>t. t_request t = Some rid) (\<lambda>t. t\<lparr>t_status := ''denied'', t_updated := now2\<rparr>) ?db1
         else if status = ''provisioned'' then map_requests (\<lambda>r. r_id r = rid) ?z ?db1 else ?db1)"
      by (simp add: set_request_def Let_def)
    have a: "''approved'' \<noteq> ''active''" and d: "''denied'' \<noteq> ''active''" by simp_all
    show ?thesis unfolding eq using 1 12 [OF a] 12 [OF d] 13 by (auto simp only: split: if_split)
  next
    case False
    then show ?thesis by (simp add: set_request_def)
  qed
qed

lemma decision_in_place:
  assumes "\<And>r. p r \<Longrightarrow> r_decision r = None"
  shows "in_place db (map_requests p (\<lambda>r. r\<lparr>r_decision := Some a, r_decision_source := Some s, r_updated := now\<rparr>) db)"
  by (rule in_place_requests) (simp add: req_evolves_def assms)

lemma bus_status_in_place: "in_place db (snd (set_bus_status db now1 now2 rid status))"
proof -
  let ?db1 = "map_requests (\<lambda>r. r_id r = rid \<and> r_self_report_json r \<noteq> None) (\<lambda>r. r\<lparr>r_status := status, r_updated := now1\<rparr>) db"
  let ?db2 = "map_tokens (\<lambda>t. t_request t = Some rid \<and> (status = ''approved'' \<longrightarrow> t_status t \<notin> {''revoked'', ''expired''}))
              (\<lambda>t. t\<lparr>t_status := status, t_updated := now2\<rparr>) ?db1"
  have "in_place db ?db2" if "status \<noteq> ''active''"
  proof (rule in_place_trans)
    show "in_place db ?db1" by (rule in_place_requests) (simp add: req_evolves_def)
    show "in_place ?db1 ?db2" by (rule in_place_tokens) (simp add: token_evolves_def that)
  qed
  then show ?thesis unfolding set_bus_status_def Let_def by (simp split: if_split) auto
qed

lemma failure_in_place: "in_place db (snd (record_attempt_failure db now1 now2 rid err next_at m))"
proof -
  let ?d1 = "\<lambda>a x. map_requests (\<lambda>r. r_id r = rid)
      (\<lambda>r. r\<lparr>r_attempts := a, r_next_attempt := Some next_at, r_last_error := Some (take 1000 err),
             r_status := (if x then ''provision_failed'' else r_status r), r_updated := now1\<rparr>) db"
  have 1: "in_place db (?d1 a x)" for a x by (rule in_place_requests) (simp add: req_evolves_def)
  have 2: "in_place d (map_tokens (\<lambda>t. t_request t = Some rid) (\<lambda>t. t\<lparr>t_status := ''denied'', t_updated := now2\<rparr>) d)" for d
    by (rule in_place_tokens) (simp add: token_evolves_def)
  show ?thesis
  proof (cases "reg_request_row db rid")
    case None
    then show ?thesis by (simp add: record_attempt_failure_def)
  next
    case (Some r0)
    then show ?thesis
      using 1 in_place_trans [OF 1 2] unfolding record_attempt_failure_def Let_def by (simp only: option.case snd_conv split: if_split) blast
  qed
qed

lemma mint_shape:
  assumes "mint sha db now1 now2 token_id secret name host ttl = (res, db')"
  shows "(db' = db \<and> (\<exists>e. res = Inl e)) \<or> (\<exists>row. res = Inr (token_text token_id secret, row) \<and>
    db' = db\<lparr>rg_tokens := rg_tokens db @ [row]\<rparr> \<and>
    t_id row = token_id \<and> t_hash row = sha (token_text token_id secret) \<and> t_status row = ''active'' \<and>
    t_request row = None \<and> t_name row = py_strip name \<and> (\<exists>h. host = Some h \<and> t_host row = py_strip h) \<and>
    t_expires row = now2 + ttl \<and> token_id \<notin> t_id ` set (rg_tokens db) \<and>
    sha (token_text token_id secret) \<notin> t_hash ` set (rg_tokens db))"
proof (cases "\<exists>e. res = Inl e")
  case True
  with assms show ?thesis by (auto simp: mint_def Let_def split: option.splits if_splits)
next
  case False
  with assms obtain h where h: "host = Some h" by (auto simp: mint_def split: option.splits)
  let ?row = "\<lparr>t_id = token_id, t_name = py_strip name, t_host = py_strip h, t_hash = sha (token_text token_id secret),
    t_status = ''active'', t_created = now1, t_expires = now2 + ttl, t_request = None, t_updated = now1\<rparr>"
  from assms False h have "res = Inr (token_text token_id secret, ?row)" "db' = db\<lparr>rg_tokens := rg_tokens db @ [?row]\<rparr>"
    "token_id \<notin> t_id ` set (rg_tokens db)" "sha (token_text token_id secret) \<notin> t_hash ` set (rg_tokens db)"
    by (auto simp: mint_def Let_def split: if_splits)
  with h show ?thesis by (intro disjI2 exI [of _ ?row]) simp
qed

text \<open>Every step rewrites rows in place, mints a token, reserves one, or changes the pins.\<close>

lemma reg_step_cases:
  assumes "reg_step sha db db'"
  obtains (rewritten) "in_place db db'"
  | (minted) row where "db' = db\<lparr>rg_tokens := rg_tokens db @ [row]\<rparr>" "t_status row = ''active''" "t_request row = None"
      "t_id row \<notin> t_id ` set (rg_tokens db)" "t_hash row \<notin> t_hash ` set (rg_tokens db)"
  | (reserved) now rid token name host q where "reserve sha db now rid token name host q = (Inr rid, db')"
  | (pinned) now host fp rid where "pin_host_sealing_key db now host fp rid = (Inr (), db')"
  | (unpinned) now host source a where "unpin_host_sealing_key db now host source = (Inr a, db')"
proof -
  have resv: "reserve sha db now rid token name host q = (Inr rid, snd (reserve sha db now rid token name host q)) \<or>
      snd (reserve sha db now rid token name host q) = db" for now rid token name host q
    unfolding reserve_def by (simp split: option.split if_split)
  show thesis
    using assms
  proof cases
    case (rs_mint now1 now2 token_id secret name host ttl)
    obtain res where "mint sha db now1 now2 token_id secret name host ttl = (res, db')"
      unfolding rs_mint by (metis prod.collapse)
    from mint_shape [OF this] rewritten minted show thesis by auto
  next
    case (rs_list now)
    have "in_place db db'" unfolding rs_list list_tokens_def Let_def snd_conv
      by (rule in_place_tokens) (simp add: token_evolves_def)
    then show thesis by (rule rewritten)
  next
    case (rs_revoke now token_id)
    have "in_place db (map_tokens (\<lambda>t. t_id t = token_id \<and> t_status t \<noteq> ''revoked'')
        (\<lambda>t. t\<lparr>t_status := ''revoked'', t_updated := now\<rparr>) db)"
      by (rule in_place_tokens) (simp add: token_evolves_def)
    with rs_revoke show thesis by (intro rewritten) (simp add: revoke_def Let_def)
  next
    case (rs_reserve now rid token name host q)
    with resv [of now rid token name host q] reserved rewritten show thesis by auto
  next
    case (rs_reserve_bus now rid token name host q)
    with resv [of now rid token name host q] reserved rewritten show thesis
      by (auto simp: reserve_bus_def split: if_splits)
  next
    case (rs_set_request now1 now2 rid status ev)
    with set_request_in_place rewritten show thesis by auto
  next
    case (rs_decision now rid action source)
    with decision_in_place [of "decidable rid"] show thesis
      by (intro rewritten) (auto simp: set_decision_def decidable_def)
  next
    case (rs_bus_decision now rid action source)
    with decision_in_place [of "\<lambda>r. decidable rid r \<and> r_self_report_json r \<noteq> None"] show thesis
      by (intro rewritten) (auto simp: set_bus_decision_def decidable_def)
  next
    case (rs_bus_status now1 now2 rid status)
    with bus_status_in_place rewritten show thesis by auto
  next
    case (rs_pin now host fp rid)
    then have "db' = db \<or> pin_host_sealing_key db now host fp rid = (Inr (), db')"
      by (auto simp: pin_host_sealing_key_def split: option.splits if_splits)
    with pinned rewritten show thesis by auto
  next
    case (rs_unpin now host source)
    then have "db' = db \<or> (\<exists>a. unpin_host_sealing_key db now host source = (Inr a, db'))"
      by (auto simp: unpin_host_sealing_key_def Let_def)
    with unpinned rewritten show thesis by auto
  next
    case (rs_failure now1 now2 rid err next_at max_attempts)
    with failure_in_place rewritten show thesis by auto
  next
    case (rs_contradiction now rid)
    have "in_place db db'" unfolding rs_contradiction mark_contradiction_noted_def
      by (rule in_place_requests) (simp add: req_evolves_def)
    then show thesis by (rule rewritten)
  qed
qed

lemma in_place_inv:
  assumes "reg_inv db" and "in_place db db'"
  shows "reg_inv db'"
proof -
  from assms(2) obtain g f where g: "rg_tokens db' = map g (rg_tokens db)"
      "\<And>t. t \<in> set (rg_tokens db) \<Longrightarrow> token_evolves t (g t) \<and> t_request (g t) = t_request t"
    and f: "rg_requests db' = map f (rg_requests db)" "\<And>r. r \<in> set (rg_requests db) \<Longrightarrow> req_evolves r (f r)"
    and pins: "rg_pins db' = rg_pins db"
    by (auto simp: in_place_def)
  have keys: "map t_id (rg_tokens db') = map t_id (rg_tokens db)" "map t_hash (rg_tokens db') = map t_hash (rg_tokens db)"
    "map r_id (rg_requests db') = map r_id (rg_requests db)"
    using g f by (auto simp: token_evolves_def req_evolves_def)
  have link: "(\<exists>r \<in> set (rg_requests db'). r_id r = q \<and> r_token r = i) \<longleftrightarrow>
      (\<exists>r \<in> set (rg_requests db). r_id r = q \<and> r_token r = i)" for q i
    using f by (auto simp: req_evolves_def)
  show ?thesis unfolding reg_inv_def keys pins
  proof (intro conjI)
    show "\<forall>t \<in> set (rg_tokens db'). t_status t = ''active'' \<longrightarrow> t_request t = None"
      using assms(1) g by (auto simp: reg_inv_def token_evolves_def)
    show "\<forall>t \<in> set (rg_tokens db'). \<forall>q. t_request t = Some q \<longleftrightarrow>
        (\<exists>r \<in> set (rg_requests db'). r_id r = q \<and> r_token r = t_id t)"
      unfolding link using assms(1) g by (auto simp: reg_inv_def token_evolves_def)
    show "\<forall>r \<in> set (rg_requests db'). \<exists>t \<in> set (rg_tokens db'). t_id t = r_token r"
      using assms(1) g f by (auto simp: reg_inv_def token_evolves_def req_evolves_def)
  qed (use assms(1) in \<open>simp_all add: reg_inv_def\<close>)
qed

lemma reserve_Inr:
  assumes "reserve sha db now rid token name host q = (Inr x, db')"
  obtains t where "find_token sha db token = Some t" "t \<in> set (rg_tokens db)" "t_hash t = sha token"
    "t_status t = ''active''" "\<not> iso_rank (t_expires t) \<le> iso_rank now" "t_name t = name" "t_host t = host"
    "x = rid" "\<forall>u \<in> set (rg_tokens db). t_id u \<noteq> t_id t \<longrightarrow> t_request u \<noteq> Some rid"
    "\<forall>r \<in> set (rg_requests db). r_id r \<noteq> rid \<and> r_token r \<noteq> t_id t"
    "rg_tokens db' = map (\<lambda>u. if t_id u = t_id t
        then u\<lparr>t_status := ''pending'', t_request := Some rid, t_updated := now\<rparr> else u) (rg_tokens db)"
    "rg_requests db' = rg_requests db @ [new_request rid (t_id t) name host now q]"
    "rg_pins db' = rg_pins db" "rg_audit db' = rg_audit db"
proof (cases "find_token sha db token")
  case None
  with assms show ?thesis by (simp add: reserve_def)
next
  case (Some t)
  then have "t \<in> set (rg_tokens db)" "t_hash t = sha token" by (auto simp: find_token_def find_Some_iff)
  with Some assms show ?thesis by (intro that [of t]) (auto simp: reserve_def split: if_splits)
qed

lemma reserve_inv:
  assumes "reg_inv db" and "reserve sha db now rid token name host q = (Inr x, db')"
  shows "reg_inv db'"
  using assms(2)
proof (cases rule: reserve_Inr)
  case (1 t)
  let ?g = "\<lambda>u. if t_id u = t_id t then u\<lparr>t_status := ''pending'', t_request := Some rid, t_updated := now\<rparr> else u"
  have keys: "map t_id (rg_tokens db') = map t_id (rg_tokens db)" "map t_hash (rg_tokens db') = map t_hash (rg_tokens db)"
    "map r_id (rg_requests db') = map r_id (rg_requests db) @ [rid]"
    by (auto simp: 1 new_request_def)
  have none: "t_request t = None" using assms(1) 1 by (simp add: reg_inv_def)
  show ?thesis unfolding reg_inv_def keys
  proof (intro conjI)
    show "distinct (map r_id (rg_requests db) @ [rid])" using assms(1) 1 by (auto simp: reg_inv_def)
    show "\<forall>u \<in> set (rg_tokens db'). t_status u = ''active'' \<longrightarrow> t_request u = None"
      using assms(1) by (auto simp: reg_inv_def 1)
    show "\<forall>u \<in> set (rg_tokens db'). \<forall>p. t_request u = Some p \<longleftrightarrow>
        (\<exists>r \<in> set (rg_requests db'). r_id r = p \<and> r_token r = t_id u)"
    proof (intro ballI allI)
      fix u p assume "u \<in> set (rg_tokens db')"
      then obtain v where v: "v \<in> set (rg_tokens db)" "u = ?g v" by (auto simp: 1)
      have "t_request v = Some p \<longleftrightarrow> (\<exists>r \<in> set (rg_requests db). r_id r = p \<and> r_token r = t_id v)"
        using assms(1) v(1) by (auto simp: reg_inv_def)
      with v 1 show "t_request u = Some p \<longleftrightarrow> (\<exists>r \<in> set (rg_requests db'). r_id r = p \<and> r_token r = t_id u)"
        by (auto simp: new_request_def)
    qed
    have ids: "t_id ` set (rg_tokens db') = t_id ` set (rg_tokens db)"
      using arg_cong [OF keys(1), of set] by simp
    have "r_token r \<in> t_id ` set (rg_tokens db')" if "r \<in> set (rg_requests db')" for r
    proof -
      have "\<forall>r \<in> set (rg_requests db). r_token r \<in> t_id ` set (rg_tokens db)"
        using assms(1) unfolding reg_inv_def by (metis imageI)
      with that 1(2) show ?thesis unfolding ids 1(12) by (auto simp: new_request_def)
    qed
    then show "\<forall>r \<in> set (rg_requests db'). \<exists>u \<in> set (rg_tokens db'). t_id u = r_token r" by (metis imageE)
  qed (use assms(1) in \<open>simp_all add: reg_inv_def 1\<close>)
qed

lemma mint_inv:
  assumes "reg_inv db" and "t_status row = ''active''" and "t_request row = None"
    and "t_id row \<notin> t_id ` set (rg_tokens db)" and "t_hash row \<notin> t_hash ` set (rg_tokens db)"
  shows "reg_inv (db\<lparr>rg_tokens := rg_tokens db @ [row]\<rparr>)"
proof -
  have "\<forall>r \<in> set (rg_requests db). r_token r \<noteq> t_id row"
    using assms(1,4) unfolding reg_inv_def by (metis imageI)
  with assms show ?thesis by (auto simp: reg_inv_def)
qed

lemma pin_inv:
  "reg_inv db \<Longrightarrow> pin_host_sealing_key db now host fp rid = (Inr x, db') \<Longrightarrow> reg_inv db'"
  by (auto simp: reg_inv_def pin_host_sealing_key_def find_None_iff split: option.splits if_splits)

lemma unpin_inv:
  "reg_inv db \<Longrightarrow> unpin_host_sealing_key db now host source = (Inr a, db') \<Longrightarrow> reg_inv db'"
  by (auto simp: reg_inv_def unpin_host_sealing_key_def Let_def distinct_map_filter split: if_splits)

interpretation registration: inv_system "\<lambda>db. db = reg_init" "reg_step sha" reg_inv for sha
proof
  show "reg_inv db" if "db = reg_init" for db
    using that by (simp add: reg_inv_def reg_init_def)
  show "reg_inv db'" if inv: "reg_inv db" and step: "reg_step sha db db'" for db db'
    using step
    by (cases rule: reg_step_cases)
      (auto intro: in_place_inv [OF inv] mint_inv [OF inv] reserve_inv [OF inv] pin_inv [OF inv] unpin_inv [OF inv])
qed

section \<open>How rows evolve along a run\<close>

lemma reg_step_evolves:
  assumes "reg_inv db" and "reg_step sha db db'"
  shows "t \<in> set (rg_tokens db) \<Longrightarrow> \<exists>t' \<in> set (rg_tokens db'). token_evolves t t'"
    and "r \<in> set (rg_requests db) \<Longrightarrow> \<exists>r' \<in> set (rg_requests db'). req_evolves r r'"
proof -
  have "(\<forall>t \<in> set (rg_tokens db). \<exists>t' \<in> set (rg_tokens db'). token_evolves t t') \<and>
      (\<forall>r \<in> set (rg_requests db). \<exists>r' \<in> set (rg_requests db'). req_evolves r r')"
    using assms(2)
  proof (cases rule: reg_step_cases)
    case rewritten
    then show ?thesis by (auto simp: in_place_def)
  next
    case (minted row)
    then have "set (rg_tokens db) \<subseteq> set (rg_tokens db')" "rg_requests db' = rg_requests db" by auto
    then show ?thesis by (metis evolves_refl subsetD)
  next
    case (reserved now rid token name host q)
    then show ?thesis
    proof (cases rule: reserve_Inr)
      case (1 t)
      have "\<exists>u' \<in> set (rg_tokens db'). token_evolves u u'" if u: "u \<in> set (rg_tokens db)" for u
      proof (cases "t_id u = t_id t")
        case True
        with u 1(2) assms(1) have "u = t" by (auto simp: reg_inv_def distinct_map dest: inj_onD)
        with 1(4) assms(1) u have "token_evolves u (u\<lparr>t_status := ''pending'', t_request := Some rid, t_updated := now\<rparr>)"
          by (simp add: token_evolves_def reg_inv_def)
        with u True show ?thesis by (auto simp: 1(11))
      next
        case False
        with u show ?thesis by (auto simp: 1(11) intro!: bexI [of _ u])
      qed
      moreover have "\<exists>r' \<in> set (rg_requests db'). req_evolves r r'" if "r \<in> set (rg_requests db)" for r
        using that by (auto simp: 1(12) intro!: bexI [of _ r])
      ultimately show ?thesis by blast
    qed
  next
    case (pinned now host fp rid)
    then have "rg_tokens db' = rg_tokens db" "rg_requests db' = rg_requests db"
      by (auto simp: pin_host_sealing_key_def split: option.splits if_splits)
    then show ?thesis by (metis evolves_refl)
  next
    case (unpinned now host source a)
    then have "rg_tokens db' = rg_tokens db" "rg_requests db' = rg_requests db"
      by (auto simp: unpin_host_sealing_key_def Let_def split: if_splits)
    then show ?thesis by (metis evolves_refl)
  qed
  then show "t \<in> set (rg_tokens db) \<Longrightarrow> \<exists>t' \<in> set (rg_tokens db'). token_evolves t t'"
    and "r \<in> set (rg_requests db) \<Longrightarrow> \<exists>r' \<in> set (rg_requests db'). req_evolves r r'" by blast+
qed

lemma reg_steps_evolve:
  assumes "(reg_step sha)\<^sup>*\<^sup>* db db'" and "reg_inv db"
  shows "t \<in> set (rg_tokens db) \<Longrightarrow> \<exists>t' \<in> set (rg_tokens db'). token_evolves t t'"
    and "r \<in> set (rg_requests db) \<Longrightarrow> \<exists>r' \<in> set (rg_requests db'). req_evolves r r'"
proof -
  have "reg_inv db' \<and> (\<forall>t \<in> set (rg_tokens db). \<exists>t' \<in> set (rg_tokens db'). token_evolves t t') \<and>
      (\<forall>r \<in> set (rg_requests db). \<exists>r' \<in> set (rg_requests db'). req_evolves r r')"
    using assms
  proof (induction rule: rtranclp_induct)
    case base
    then show ?case using evolves_refl by blast
  next
    case (step y z)
    then have inv: "reg_inv y" by blast
    with step.hyps(2) have "reg_inv z" by (rule registration.inv_step [rotated])
    moreover have "\<forall>t \<in> set (rg_tokens db). \<exists>t' \<in> set (rg_tokens z). token_evolves t t'"
      using step reg_step_evolves(1) [OF inv step.hyps(2)] by (meson token_evolves_trans)
    moreover have "\<forall>r \<in> set (rg_requests db). \<exists>r' \<in> set (rg_requests z). req_evolves r r'"
      using step reg_step_evolves(2) [OF inv step.hyps(2)] by (meson req_evolves_trans)
    ultimately show ?case by blast
  qed
  then show "t \<in> set (rg_tokens db) \<Longrightarrow> \<exists>t' \<in> set (rg_tokens db'). token_evolves t t'"
    and "r \<in> set (rg_requests db) \<Longrightarrow> \<exists>r' \<in> set (rg_requests db'). req_evolves r r'" by blast+
qed

lemma find_token_unique:
  assumes "reg_inv db" and "t \<in> set (rg_tokens db)" and "t_hash t = sha token"
  shows "find_token sha db token = Some t"
proof (cases "find_token sha db token")
  case None
  with assms show ?thesis by (auto simp: find_token_def find_None_iff)
next
  case (Some u)
  then have "u \<in> set (rg_tokens db)" "t_hash u = sha token" by (auto simp: find_token_def find_Some_iff)
  with assms have "u = t" by (intro inj_onD [of t_hash "set (rg_tokens db)"]) (simp_all add: reg_inv_def distinct_map)
  with Some show ?thesis by simp
qed

lemma request_row_unique:
  assumes "reg_inv db" and "r \<in> set (rg_requests db)"
  shows "reg_request_row db (r_id r) = Some r"
proof (cases "reg_request_row db (r_id r)")
  case None
  with assms show ?thesis by (auto simp: reg_request_row_def find_None_iff)
next
  case (Some u)
  then have "u \<in> set (rg_requests db)" "r_id u = r_id r" by (auto simp: reg_request_row_def find_Some_iff)
  with assms have "u = r" by (auto simp: reg_inv_def distinct_map dest: inj_onD)
  with Some show ?thesis by simp
qed

section \<open>The order of ISO texts\<close>

lemma iso_rank_later:
  assumes "a + 1000000 \<le> b"
  shows "iso_rank a < iso_rank b"
proof -
  define p i where "p = a div 1000000" and "i = (if a mod 1000000 = 0 then 1000000 else a mod 1000000)"
  define s j where "s = b div 1000000" and "j = (if b mod 1000000 = 0 then 1000000 else b mod 1000000)"
  have "p + 1 \<le> s" using zdiv_mono1 [OF assms, of 1000000] by (simp add: p_def s_def)
  moreover have "0 \<le> b mod 1000000" by simp
  then have "0 < j" by (simp add: j_def order_less_le)
  moreover have "i \<le> 1000000" by (simp add: i_def order_less_imp_le)
  ultimately have "p * 1000001 + i < s * 1000001 + j" by linarith
  then show ?thesis by (simp only: iso_rank_def p_def i_def s_def j_def)
qed

text \<open>A time on a whole second sorts after the rest of its second, so an expiry there comes late.\<close>

lemma iso_rank_whole_second:
  assumes "e mod 1000000 = 0" and "e < now" and "now < e + 1000000"
  shows "iso_rank now < iso_rank e"
proof -
  define k where "k = e div 1000000"
  define d where "d = now - e"
  from assms(1) have e: "e = k * 1000000" unfolding k_def by (simp add: mod_eq_0_iff_dvd)
  have d: "0 < d" "d < 1000000" "now = d + k * 1000000" using assms(2,3) e by (simp_all add: d_def)
  then have "now div 1000000 = k" "now mod 1000000 = d" by simp_all
  with d(1,2) e show ?thesis by (simp add: iso_rank_def)
qed

text \<open>A small history for the witnesses: mint a token, then reserve it; the identity stands for SHA-256.\<close>

definition demo_request :: reg_request where
  "demo_request = \<lparr>q_pubkey = ''pk'', q_signing_pubkey = ''spk'', q_channels_json = JArr [], q_reply_agent = ''cli'',
     q_client_nonce = ''n1'', q_sealing_pubkey = Some ''seal'', q_sealing_fp = Some ''fp'',
     q_self_report_json = Some (JObj []), q_roles_json = Some (JArr [])\<rparr>"

definition demo_minted :: reg_db where
  "demo_minted = snd (mint id reg_init 1000000 1000000 ''t1'' ''s'' ''seat'' (Some ''host-b'') 9000000)"

definition demo_reserved :: reg_db where
  "demo_reserved = snd (reserve id demo_minted 2000000 ''r1'' ''arbseat_t1_s'' ''seat'' ''host-b'' demo_request)"

lemma demo_minted_eval:
  "demo_minted = \<lparr>rg_tokens = [\<lparr>t_id = ''t1'', t_name = ''seat'', t_host = ''host-b'', t_hash = ''arbseat_t1_s'',
      t_status = ''active'', t_created = 1000000, t_expires = 10000000, t_request = None, t_updated = 1000000\<rparr>],
    rg_requests = [], rg_pins = [], rg_audit = []\<rparr>"
  unfolding demo_minted_def by code_simp

lemma demo_minted_inv: "reg_inv demo_minted"
  by (simp add: demo_minted_eval reg_inv_def)

lemma demo_reserve:
  "reserve id demo_minted 2000000 ''r1'' ''arbseat_t1_s'' ''seat'' ''host-b'' demo_request = (Inr ''r1'', demo_reserved)"
  by (simp add: demo_reserved_def reserve_def demo_minted_eval find_token_def iso_rank_def)

lemma demo_reserved_inv: "reg_inv demo_reserved"
  by (rule reserve_inv [OF demo_minted_inv demo_reserve])

lemma demo_reserved_requests:
  "rg_requests demo_reserved = [new_request ''r1'' ''t1'' ''seat'' ''host-b'' 2000000 demo_request]"
  by (simp add: demo_reserved_def reserve_def demo_minted_eval find_token_def iso_rank_def)

section \<open>Properties\<close>

text \<open>C22: A seat token is single-use. Once a reservation with a token has succeeded, every later reservation with the
  same token fails and changes nothing, whatever happened to the store in between: no operation ever
  makes a used token active again.\<close>

theorem token_single_use:
  assumes "reg_inv db" and "reserve sha db now rid token name host q = (Inr x, db1)"
    and "(reg_step sha)\<^sup>*\<^sup>* db1 db2"
  shows "reserve sha db2 now' rid' token name' host' q' = (Inl (TokenError ''invalid registration credential''), db2)"
  using assms(2)
proof (cases rule: reserve_Inr)
  case (1 t)
  let ?t = "t\<lparr>t_status := ''pending'', t_request := Some rid, t_updated := now\<rparr>"
  have inv1: "reg_inv db1" by (rule reserve_inv [OF assms(1,2)])
  have "?t \<in> set (rg_tokens db1)" using 1(2) by (auto simp: 1(11))
  then obtain t' where t': "t' \<in> set (rg_tokens db2)" "token_evolves ?t t'"
    using reg_steps_evolve(1) [OF assms(3) inv1] by blast
  from t'(2) 1(3) have "t_hash t' = sha token" "t_status t' \<noteq> ''active''" by (auto simp: token_evolves_def)
  with find_token_unique [OF registration.inv_steps [OF assms(3) inv1] t'(1)] show ?thesis
    by (simp add: reserve_def)
qed

theorem token_single_use_witness:
  "fst (reserve id (snd (revoke demo_reserved 3000000 ''t1'')) 4000000 ''r2'' ''arbseat_t1_s'' ''seat'' ''host-b'' demo_request)
     = Inl (TokenError ''invalid registration credential'')"
  using token_single_use [OF demo_minted_inv demo_reserve r_into_rtranclp, OF rs_revoke] by simp

text \<open>C24: A decision on a request is final, and a request is bound to what it was filed with. Along every run the
  recorded decision and its source never change, and neither does anything the request was filed with: its token, both keys, name, host, channels, reply
  agent, nonce, sealing key and fingerprint, inventory and roles, and the time of its creation.\<close>

theorem decision_is_final:
  assumes "reg_inv db" and "r \<in> set (rg_requests db)" and "(reg_step sha)\<^sup>*\<^sup>* db db'"
  shows "\<exists>r'. reg_request_row db' (r_id r) = Some r' \<and>
     (r_decision r \<noteq> None \<longrightarrow> r_decision r' = r_decision r \<and> r_decision_source r' = r_decision_source r) \<and>
     r_token r' = r_token r \<and> r_pubkey r' = r_pubkey r \<and> r_signing_pubkey r' = r_signing_pubkey r \<and>
     r_name r' = r_name r \<and> r_host r' = r_host r \<and> r_channels_json r' = r_channels_json r \<and>
     r_reply_agent r' = r_reply_agent r \<and> r_client_nonce r' = r_client_nonce r \<and> r_created r' = r_created r \<and>
     r_sealing_pubkey r' = r_sealing_pubkey r \<and> r_sealing_fp r' = r_sealing_fp r \<and>
     r_self_report_json r' = r_self_report_json r \<and> r_roles_json r' = r_roles_json r"
proof -
  obtain r' where r': "r' \<in> set (rg_requests db')" "req_evolves r r'"
    using reg_steps_evolve(2) [OF assms(3,1,2)] by blast
  with request_row_unique [OF registration.inv_steps [OF assms(3,1)] r'(1)] show ?thesis
    by (auto simp: req_evolves_def)
qed

theorem decision_is_final_witness:
  "\<exists>r'. reg_request_row (snd (set_decision (snd (set_decision demo_reserved 5 ''r1'' ''deny'' ''op'')) 6 ''r1'' ''approve'' ''op'')) ''r1'' = Some r' \<and>
     r_decision r' = Some ''deny''"
proof -
  let ?db = "snd (set_decision demo_reserved 5 ''r1'' ''deny'' ''op'')"
  let ?r = "hd (rg_requests ?db)"
  have inv: "reg_inv ?db" by (rule registration.inv_step [OF demo_reserved_inv rs_decision])
  have mem: "?r \<in> set (rg_requests ?db)" and id: "r_id ?r = ''r1''" and d: "r_decision ?r = Some ''deny''"
    by (simp_all add: set_decision_def map_requests_def demo_reserved_requests decidable_def new_request_def)
  show ?thesis
    using decision_is_final [OF inv mem r_into_rtranclp, OF rs_decision [of id ?db 6 "''r1''" "''approve''" "''op''"]]
    unfolding id d by auto
qed

lemma pin_step:
  assumes "reg_inv db" and "reg_step sha db db'"
  shows "\<exists>k. rg_audit db' = rg_audit db @ k \<and> (host_sealing_pin db host = Some fp \<longrightarrow>
     host_sealing_pin db' host = Some fp \<or> (\<exists>a \<in> set k. a_host a = host \<and> a_action a = ''host_sealing_key_unpinned''))"
  using assms(2)
proof (cases rule: reg_step_cases)
  case rewritten
  then show ?thesis by (auto simp: in_place_def host_sealing_pin_def)
next
  case (minted row)
  then show ?thesis by (auto simp: host_sealing_pin_def)
next
  case (reserved now rid token name h q)
  then show ?thesis by (cases rule: reserve_Inr) (auto simp: host_sealing_pin_def)
next
  case (pinned now h f rid)
  have "List.find P (xs @ [y]) = Some z" if "List.find P xs = Some z" for P xs and y z :: pin_row
    using that by (induction xs) (auto split: if_splits)
  with pinned show ?thesis
    by (auto simp: pin_host_sealing_key_def host_sealing_pin_def split: option.splits if_splits)
next
  case (unpinned now h source a)
  have keep: "List.find (\<lambda>p. p_host p = host) (filter (\<lambda>p. p_host p \<noteq> h) ps) = List.find (\<lambda>p. p_host p = host) ps"
    if "host \<noteq> h" for ps
    using that by (induction ps) auto
  from unpinned have db': "rg_pins db' = filter (\<lambda>p. p_host p \<noteq> h) (rg_pins db)" "rg_audit db' = rg_audit db @ [a]"
    "a_host a = h" "a_action a = ''host_sealing_key_unpinned''"
    by (auto simp: unpin_host_sealing_key_def Let_def split: if_splits)
  show ?thesis
  proof (cases "host = h")
    case True
    with db' show ?thesis by auto
  next
    case False
    have "host_sealing_pin db' host = host_sealing_pin db host"
      unfolding host_sealing_pin_def db'(1) keep [OF False] ..
    with db'(2) show ?thesis by auto
  qed
qed

text \<open>A host's sealing-key pin cannot be swapped silently. Along every run a pinned fingerprint either stays, or
  the operator audit has gained an entry that unpins this host; the audit itself only grows.\<close>

theorem pin_changes_are_audited:
  assumes "reg_inv db" and "(reg_step sha)\<^sup>*\<^sup>* db db'" and "host_sealing_pin db host = Some fp"
  shows "\<exists>k. bus_operator_audit db' = bus_operator_audit db @ k \<and>
     (host_sealing_pin db' host = Some fp \<or> (\<exists>a \<in> set k. a_host a = host \<and> a_action a = ''host_sealing_key_unpinned''))"
  using assms(2,1,3)
proof (induction rule: rtranclp_induct)
  case base
  then show ?case by simp
next
  case (step y z)
  then obtain k where k: "bus_operator_audit y = bus_operator_audit db @ k"
    "host_sealing_pin y host = Some fp \<or> (\<exists>a \<in> set k. a_host a = host \<and> a_action a = ''host_sealing_key_unpinned'')"
    by blast
  have inv: "reg_inv y" using registration.inv_steps step by blast
  from pin_step [OF inv step.hyps(2), of host fp] obtain k' where "rg_audit z = rg_audit y @ k'"
    "host_sealing_pin y host = Some fp \<longrightarrow>
     host_sealing_pin z host = Some fp \<or> (\<exists>a \<in> set k'. a_host a = host \<and> a_action a = ''host_sealing_key_unpinned'')"
    by blast
  with k show ?case unfolding bus_operator_audit_def by (intro exI [of _ "k @ k'"]) auto
qed

theorem pin_changes_are_audited_witness:
  "\<exists>k. bus_operator_audit (snd (unpin_host_sealing_key (snd (pin_host_sealing_key reg_init 5 ''h'' ''fp'' ''r'')) 6 ''h'' ''op'')) = [] @ k \<and>
     (\<exists>a \<in> set k. a_host a = ''h'')"
proof -
  let ?db = "snd (pin_host_sealing_key reg_init 5 ''h'' ''fp'' ''r'')"
  have inv0: "reg_inv reg_init" by (rule registration.inv_init) simp
  have inv: "reg_inv ?db" by (rule registration.inv_step [OF inv0 rs_pin [of id]])
  have pin: "host_sealing_pin ?db ''h'' = Some ''fp''" "bus_operator_audit ?db = []"
    "host_sealing_pin (snd (unpin_host_sealing_key ?db 6 ''h'' ''op'')) ''h'' = None"
    by (simp_all add: pin_host_sealing_key_def reg_init_def host_sealing_pin_def bus_operator_audit_def
        unpin_host_sealing_key_def nonblank_def py_strip_def py_lstrip_def py_isspace_def Let_def)
  from pin_changes_are_audited [OF inv r_into_rtranclp pin(1), OF rs_unpin [of id ?db 6 "''h''" "''op''"]] pin(2,3)
  show ?thesis by auto
qed

text \<open>When a reservation succeeds. It succeeds exactly when the token is known and active, its expiry text is
  later than the current time's, the name and the host are those it was minted for, and the new
  request id is unused; a failed reservation changes nothing. A reservation never succeeds a full second
  after the expiry.\<close>

theorem reserve_exact:
  assumes "reg_inv db" and "reserve sha db now rid token name host q = (res, db')"
  shows "((\<exists>x. res = Inr x) \<longleftrightarrow>
      (\<exists>t \<in> set (rg_tokens db). t_hash t = sha token \<and> t_status t = ''active'' \<and> iso_rank now < iso_rank (t_expires t) \<and>
         t_name t = name \<and> t_host t = host) \<and> rid \<notin> r_id ` set (rg_requests db)) \<and>
    (\<forall>e. res = Inl e \<longrightarrow> db' = db) \<and>
    (\<forall>t \<in> set (rg_tokens db). t_hash t = sha token \<and> t_expires t + 1000000 \<le> now \<longrightarrow> (\<exists>e. res = Inl e))"
proof -
  have fresh: "\<forall>r \<in> set (rg_requests db). r_token r \<noteq> t_id t" if "t \<in> set (rg_tokens db)" "t_status t = ''active''" for t
  proof (rule ballI, rule notI)
    fix r assume "r \<in> set (rg_requests db)" "r_token r = t_id t"
    then have "t_request t = Some (r_id r)" using assms(1) that(1) unfolding reg_inv_def by blast
    with assms(1) that show False by (simp add: reg_inv_def)
  qed
  have unused: "\<forall>u \<in> set (rg_tokens db). t_request u \<noteq> Some rid" if "rid \<notin> r_id ` set (rg_requests db)"
    using that assms(1) unfolding reg_inv_def by (metis imageI)
  have "\<exists>x. res = Inr x" if t: "t \<in> set (rg_tokens db)" "t_hash t = sha token" "t_status t = ''active''"
      "iso_rank now < iso_rank (t_expires t)" "t_name t = name" "t_host t = host" "rid \<notin> r_id ` set (rg_requests db)" for t
    using assms(2) t fresh [OF t(1,3)] unused [OF t(7)] find_token_unique [OF assms(1) t(1), of sha token, OF t(2)]
    by (auto simp: reserve_def split: if_splits)
  moreover have "(\<exists>t \<in> set (rg_tokens db). t_hash t = sha token \<and> t_status t = ''active'' \<and>
      iso_rank now < iso_rank (t_expires t) \<and> t_name t = name \<and> t_host t = host) \<and> rid \<notin> r_id ` set (rg_requests db) \<and>
      (\<forall>t \<in> set (rg_tokens db). t_hash t = sha token \<longrightarrow> now < t_expires t + 1000000)" if r: "res = Inr x" for x
  proof -
    from assms(2) r have "reserve sha db now rid token name host q = (Inr x, db')" by simp
    then show ?thesis
    proof (cases rule: reserve_Inr)
      case (1 t)
      have "now < t_expires u + 1000000" if "u \<in> set (rg_tokens db)" "t_hash u = sha token" for u
        using find_token_unique [where sha = sha and token = token, OF assms(1) that] 1(1,5) iso_rank_later [of "t_expires u" now] by (force simp: not_le)
      with 1 show ?thesis by (auto simp: not_le)
    qed
  qed
  moreover have "db' = db" if "res = Inl e" for e
    using assms(2) that by (auto simp: reserve_def split: option.splits if_splits)
  ultimately show ?thesis by (cases res) (auto simp: not_le [symmetric])
qed

theorem reserve_exact_witness:
  "fst (reserve id demo_minted 2000000 ''r1'' ''arbseat_t1_s'' ''seat'' ''host-b'' demo_request) = Inr ''r1'' \<and>
   (\<exists>e. fst (reserve id demo_minted 11000000 ''r1'' ''arbseat_t1_s'' ''seat'' ''host-b'' demo_request) = Inl e)"
proof -
  obtain res db' where late: "reserve id demo_minted 11000000 ''r1'' ''arbseat_t1_s'' ''seat'' ''host-b'' demo_request = (res, db')"
    by fastforce
  from reserve_exact [OF demo_minted_inv late] late show ?thesis
    by (simp add: demo_reserve) (simp add: demo_minted_eval)
qed

text \<open>Mint and reserve fit together. A freshly minted token is accepted, before its expiry, for exactly the
  stripped name and host it was minted for, and for no other.\<close>

theorem mint_reserve_roundtrip:
  assumes "reg_inv db" and "mint sha db now1 now2 token_id secret name host ttl = (Inr (token, row), db1)"
    and "rid \<notin> r_id ` set (rg_requests db)" and "iso_rank now < iso_rank (now2 + ttl)"
  shows "(\<exists>db2. reserve sha db1 now rid token n h q = (Inr rid, db2)) \<longleftrightarrow>
     n = py_strip name \<and> host \<noteq> None \<and> h = py_strip (the host)"
proof -
  from mint_shape [OF assms(2)] obtain h0 where row: "token = token_text token_id secret" "db1 = db\<lparr>rg_tokens := rg_tokens db @ [row]\<rparr>"
    "t_hash row = sha token" "t_status row = ''active''" "t_request row = None" "t_name row = py_strip name" "host = Some h0"
    "t_host row = py_strip h0" "t_expires row = now2 + ttl" "t_id row \<notin> t_id ` set (rg_tokens db)"
    "t_hash row \<notin> t_hash ` set (rg_tokens db)"
    by auto
  have inv1: "reg_inv db1" unfolding row(2) by (rule mint_inv [OF assms(1) row(4,5,10,11)])
  have found: "find_token sha db1 token = Some row"
    by (rule find_token_unique [OF inv1]) (simp_all add: row(2,3))
  have "\<forall>r \<in> set (rg_requests db1). r_token r \<noteq> t_id row"
  proof (rule ballI, rule notI)
    fix r assume "r \<in> set (rg_requests db1)" "r_token r = t_id row"
    with inv1 have "t_request row = Some (r_id r)" by (auto simp: reg_inv_def row(2))
    with row(5) show False by simp
  qed
  moreover have "\<forall>u \<in> set (rg_tokens db1). t_request u \<noteq> Some rid"
    using inv1 assms(3) unfolding reg_inv_def row(2) by (metis imageI reg_db.select_convs(2) reg_db.surjective reg_db.update_convs(1))
  moreover have "rid \<notin> r_id ` set (rg_requests db1)" using assms(3) by (simp add: row(2))
  ultimately show ?thesis
    using assms(4) row(7) by (auto simp: reserve_def found row(4,6,8,9))
qed

theorem mint_reserve_roundtrip_witness:
  "\<exists>db2. reserve id (snd (mint id reg_init 1000000 1000000 ''t1'' ''s'' ''seat'' (Some ''host-b'') 9000000)) 2000000 ''r1''
     ''arbseat_t1_s'' ''seat'' ''host-b'' demo_request = (Inr ''r1'', db2)"
proof -
  have inv0: "reg_inv reg_init" by (rule registration.inv_init) simp
  obtain row where "mint id reg_init 1000000 1000000 ''t1'' ''s'' ''seat'' (Some ''host-b'') 9000000 = (Inr (''arbseat_t1_s'', row),
      snd (mint id reg_init 1000000 1000000 ''t1'' ''s'' ''seat'' (Some ''host-b'') 9000000))"
    and strip: "py_strip ''seat'' = ''seat''" "py_strip ''host-b'' = ''host-b''"
    by (simp add: mint_def reg_init_def nonblank_def py_strip_def py_lstrip_def py_isspace_def token_text_def Let_def)
  from mint_reserve_roundtrip [OF inv0 this(1), of "''r1''" 2000000 "''seat''" "''host-b''" demo_request] strip
  show ?thesis by (simp add: reg_init_def iso_rank_def)
qed

text \<open>Approval overrides revocation in the seat flow. When an operator revokes the token of a pending request and
  the request is approved afterwards, the token is stored as approved: \<open>set_request\<close> writes the token's
  status without looking at it, unlike \<open>set_bus_status\<close>, which leaves a revoked token revoked.\<close>

theorem seat_approval_overwrites_revocation:
  assumes "reg_inv db" and "r \<in> set (rg_requests db)" and "r_self_report_json r \<noteq> None" and "revoke db now (r_token r) = (Inr (), db1)"
  shows "\<exists>t \<in> set (rg_tokens db1). t_request t = Some (r_id r) \<and> t_status t = ''revoked'' \<and>
     (\<exists>t' \<in> set (rg_tokens (snd (set_request db1 n1 n2 (r_id r) ''approved'' ev))). t_id t' = t_id t \<and> t_status t' = ''approved'') \<and>
     t \<in> set (rg_tokens (snd (set_bus_status db1 n1 n2 (r_id r) ''approved'')))"
proof -
  obtain u where u: "u \<in> set (rg_tokens db)" "t_id u = r_token r" using assms(1,2) by (auto simp: reg_inv_def)
  with assms(1,2) have req: "t_request u = Some (r_id r)" by (auto simp: reg_inv_def)
  from assms(4) have db1: "db1 = map_tokens (\<lambda>t. t_id t = r_token r \<and> t_status t \<noteq> ''revoked'')
      (\<lambda>t. t\<lparr>t_status := ''revoked'', t_updated := now\<rparr>) db" by (auto simp: revoke_def Let_def split: if_splits)
  define t where "t = (if t_status u \<noteq> ''revoked'' then u\<lparr>t_status := ''revoked'', t_updated := now\<rparr> else u)"
  have t: "t \<in> set (rg_tokens db1)" "t_request t = Some (r_id r)" "t_status t = ''revoked''"
    using u req by (auto simp: db1 t_def)
  have row: "\<exists>x \<in> set (rg_requests db1). r_id x = r_id r" "\<exists>x \<in> set (rg_requests db1). r_id x = r_id r \<and> (\<exists>y. r_self_report_json x = Some y)"
    using assms(2,3) by (auto simp: db1)
  have "t\<lparr>t_status := ''approved'', t_updated := n2\<rparr> \<in> set (rg_tokens (snd (set_request db1 n1 n2 (r_id r) ''approved'' ev)))"
    using t row by (auto simp: set_request_def Let_def)
  moreover have "t \<in> set (rg_tokens (snd (set_bus_status db1 n1 n2 (r_id r) ''approved'')))"
    using t row by (auto simp: set_bus_status_def Let_def image_iff intro!: bexI [of _ t])
  ultimately show ?thesis using t by (intro bexI [of _ t] conjI bexI [of _ "t\<lparr>t_status := ''approved'', t_updated := n2\<rparr>"]) auto
qed

theorem seat_approval_overwrites_revocation_witness:
  "\<exists>t' \<in> set (rg_tokens (snd (set_request (snd (revoke demo_reserved 3000000 ''t1'')) 4 5 ''r1'' ''approved'' None))). t_status t' = ''approved''"
proof -
  let ?r = "new_request ''r1'' ''t1'' ''seat'' ''host-b'' 2000000 demo_request"
  have mem: "?r \<in> set (rg_requests demo_reserved)" by (simp add: demo_reserved_requests)
  obtain t where "t \<in> set (rg_tokens demo_reserved)" "t_id t = ''t1''" "t_status t \<noteq> ''revoked''"
    by (simp add: demo_reserved_def reserve_def demo_minted_eval find_token_def iso_rank_def)
  then have "revoke demo_reserved 3000000 (r_token ?r) = (Inr (), snd (revoke demo_reserved 3000000 ''t1''))"
    by (auto simp: revoke_def new_request_def Let_def)
  from seat_approval_overwrites_revocation [OF demo_reserved_inv mem _ this, of 4 5 None]
  show ?thesis by (auto simp: new_request_def demo_request_def)
qed

end
