(* ===== verification/Py_Json.thy ===== *)
theory Py_Json
  imports Arb_Prelude "HOL-Library.Char_ord" "HOL-Library.List_Lexorder"
begin

text \<open>
  What the program uses of Python's \<open>json\<close> module: \<open>dumps\<close> with its separators, \<open>sort_keys\<close> and
  \<open>ensure_ascii\<close>, and \<open>loads\<close>. A float is kept as its text. An escape \<open>\u\<close> above \<open>00ff\<close> lies outside
  the characters modelled here and is refused by \<open>json_loads\<close>. The parser's fuel is a bound on the
  length of the text; \<open>json_loads_dumps\<close> shows that it always suffices for what \<open>dumps\<close> writes.
\<close>

section \<open>Numbers\<close>

definition digit_char :: "nat \<Rightarrow> char" where
  "digit_char n = char_of (48 + n)"

definition is_digit :: "char \<Rightarrow> bool" where
  "is_digit c \<longleftrightarrow> 48 \<le> (of_char c :: nat) \<and> (of_char c :: nat) \<le> 57"

definition digit_val :: "char \<Rightarrow> nat" where
  "digit_val c = of_char c - 48"

fun nat_str :: "nat \<Rightarrow> string" where
  "nat_str n = (if n < 10 then [digit_char n] else nat_str (n div 10) @ [digit_char (n mod 10)])"

declare nat_str.simps [simp del]

definition int_str :: "int \<Rightarrow> string" where
  "int_str i = (if i < 0 then CHR ''-'' # nat_str (nat (- i)) else nat_str (nat i))"

definition nat_of_str :: "string \<Rightarrow> nat" where
  "nat_of_str s = foldl (\<lambda>n c. 10 * n + digit_val c) 0 s"

definition num_char :: "char \<Rightarrow> bool" where
  "num_char c \<longleftrightarrow> is_digit c \<or> c \<in> {CHR ''-'', CHR ''+'', CHR ''.'', CHR ''e'', CHR ''E''}"

definition exp_ok :: "string \<Rightarrow> bool" where
  "exp_ok s \<longleftrightarrow> s = [] \<or>
     (hd s \<in> {CHR ''e'', CHR ''E''} \<and>
      (let t = tl s; u = (if t \<noteq> [] \<and> hd t \<in> {CHR ''+'', CHR ''-''} then tl t else t)
       in u \<noteq> [] \<and> list_all is_digit u))"

text \<open>\<open>Some True\<close> for the text of an integer, \<open>Some False\<close> for that of a float.\<close>

definition num_kind :: "string \<Rightarrow> bool option" where
  "num_kind s =
    (let s1 = (if s \<noteq> [] \<and> hd s = CHR ''-'' then tl s else s);
         ip = takeWhile is_digit s1; s2 = dropWhile is_digit s1
     in if ip = [] \<or> (hd ip = CHR ''0'' \<and> length ip \<noteq> 1) then None
        else if s2 = [] then Some True
        else if hd s2 = CHR ''.''
        then (let fr = takeWhile is_digit (tl s2); s3 = dropWhile is_digit (tl s2)
              in if fr \<noteq> [] \<and> exp_ok s3 then Some False else None)
        else if exp_ok s2 then Some False else None)"

definition int_of_str :: "string \<Rightarrow> int" where
  "int_of_str s = (if s \<noteq> [] \<and> hd s = CHR ''-'' then - int (nat_of_str (tl s)) else int (nat_of_str s))"

section \<open>Strings\<close>

definition hex_char :: "nat \<Rightarrow> char" where
  "hex_char n = (if n < 10 then char_of (48 + n) else char_of (87 + n))"

definition hex_val :: "char \<Rightarrow> nat option" where
  "hex_val c = (let n = of_char c in
     if 48 \<le> n \<and> n \<le> 57 then Some (n - 48) else if 97 \<le> n \<and> n \<le> 102 then Some (n - 87)
     else if 65 \<le> n \<and> n \<le> 70 then Some (n - 55) else None)"

definition u_escape :: "char \<Rightarrow> string" where
  "u_escape c = [CHR 0x5C, CHR ''u'', CHR ''0'', CHR ''0'', hex_char (of_char c div 16), hex_char (of_char c mod 16)]"

definition esc_char :: "bool \<Rightarrow> char \<Rightarrow> string" where
  "esc_char ascii c =
    (if c = CHR 0x22 then [CHR 0x5C, CHR 0x22]
     else if c = CHR 0x5C then [CHR 0x5C, CHR 0x5C]
     else if c = CHR 0x0A then [CHR 0x5C, CHR ''n'']
     else if c = CHR 0x0D then [CHR 0x5C, CHR ''r'']
     else if c = CHR 0x09 then [CHR 0x5C, CHR ''t'']
     else if c = CHR 0x08 then [CHR 0x5C, CHR ''b'']
     else if c = CHR 0x0C then [CHR 0x5C, CHR ''f'']
     else if (of_char c :: nat) < 32 \<or> (ascii \<and> 126 < (of_char c :: nat)) then u_escape c
     else [c])"

definition str_lit :: "bool \<Rightarrow> string \<Rightarrow> string" where
  "str_lit ascii s = CHR 0x22 # concat (map (esc_char ascii) s) @ [CHR 0x22]"

text \<open>The character after a backslash, other than \<open>u\<close>.\<close>

definition simple_escape :: "char \<Rightarrow> char option" where
  "simple_escape e =
    (if e \<in> {CHR 0x22, CHR 0x5C, CHR ''/''} then Some e
     else if e = CHR ''n'' then Some (CHR 0x0A)
     else if e = CHR ''r'' then Some (CHR 0x0D)
     else if e = CHR ''t'' then Some (CHR 0x09)
     else if e = CHR ''b'' then Some (CHR 0x08)
     else if e = CHR ''f'' then Some (CHR 0x0C)
     else None)"

definition u_value :: "char \<Rightarrow> char \<Rightarrow> char \<Rightarrow> char \<Rightarrow> char option" where
  "u_value a b c d = (case (hex_val a, hex_val b, hex_val c, hex_val d) of
     (Some 0, Some 0, Some x, Some y) \<Rightarrow> Some (char_of (16 * x + y)) | _ \<Rightarrow> None)"

text \<open>Reads up to the closing quote.\<close>

fun scan_str :: "string \<Rightarrow> (string \<times> string) option" where
  "scan_str [] = None"
| "scan_str (c # cs) =
    (if c = CHR 0x22 then Some ([], cs)
     else if c = CHR 0x5C
     then (case cs of
             [] \<Rightarrow> None
           | e # es \<Rightarrow>
              (if e = CHR ''u''
               then (case es of
                       a # b # x # y # rest \<Rightarrow>
                         (case u_value a b x y of
                            None \<Rightarrow> None
                          | Some u \<Rightarrow> map_option (\<lambda>(s, r). (u # s, r)) (scan_str rest))
                     | _ \<Rightarrow> None)
               else (case simple_escape e of
                       None \<Rightarrow> None
                     | Some u \<Rightarrow> map_option (\<lambda>(s, r). (u # s, r)) (scan_str es))))
     else if (of_char c :: nat) < 32 then None
     else map_option (\<lambda>(s, r). (c # s, r)) (scan_str cs))"

section \<open>Values\<close>

record json_style =
  js_item :: string
  js_key :: string
  js_sort :: bool
  js_ascii :: bool

definition json_default :: json_style where
  "json_default = \<lparr>js_item = '', '', js_key = '': '', js_sort = False, js_ascii = True\<rparr>"

definition json_compact :: json_style where
  "json_compact = \<lparr>js_item = '','', js_key = '':'', js_sort = False, js_ascii = True\<rparr>"

fun join :: "string \<Rightarrow> string list \<Rightarrow> string" where
  "join sep [] = []"
| "join sep [x] = x"
| "join sep (x # y # ys) = x @ sep @ join sep (y # ys)"

fun jprint :: "json_style \<Rightarrow> json \<Rightarrow> string" where
  "jprint st JNull = ''null''"
| "jprint st (JBool b) = (if b then ''true'' else ''false'')"
| "jprint st (JInt i) = int_str i"
| "jprint st (JFloat s) = s"
| "jprint st (JStr s) = str_lit (js_ascii st) s"
| "jprint st (JArr xs) = CHR ''['' # join (js_item st) (map (jprint st) xs) @ [CHR '']'']"
| "jprint st (JObj d) =
     CHR ''{'' # join (js_item st) (map (\<lambda>(k, v). str_lit (js_ascii st) k @ js_key st @ jprint st v) d) @ [CHR ''}'']"

fun jsort :: "json \<Rightarrow> json" where
  "jsort (JArr xs) = JArr (map jsort xs)"
| "jsort (JObj d) = JObj (sort_key fst (map (\<lambda>(k, v). (k, jsort v)) d))"
| "jsort JNull = JNull"
| "jsort (JBool b) = JBool b"
| "jsort (JInt i) = JInt i"
| "jsort (JFloat s) = JFloat s"
| "jsort (JStr s) = JStr s"

definition json_norm :: "json_style \<Rightarrow> json \<Rightarrow> json" where
  "json_norm st v = (if js_sort st then jsort v else v)"

definition json_dumps :: "json_style \<Rightarrow> json \<Rightarrow> string" where
  "json_dumps st v = jprint st (json_norm st v)"

definition skip_ws :: "string \<Rightarrow> string" where
  "skip_ws s = dropWhile (\<lambda>c. c \<in> {CHR '' '', CHR 0x09, CHR 0x0A, CHR 0x0D}) s"

definition scan_num :: "string \<Rightarrow> (json \<times> string) option" where
  "scan_num s = (let t = takeWhile num_char s in
     case num_kind t of
       None \<Rightarrow> None
     | Some True \<Rightarrow> Some (JInt (int_of_str t), dropWhile num_char s)
     | Some False \<Rightarrow> Some (JFloat t, dropWhile num_char s))"

definition scan_const :: "string \<Rightarrow> json \<Rightarrow> string \<Rightarrow> (json \<times> string) option" where
  "scan_const w v s = (if py_startswith s w then Some (v, drop (length w) s) else None)"

definition build_dict :: "(string \<times> json) list \<Rightarrow> (string \<times> json) list" where
  "build_dict ps = foldl (\<lambda>d (k, v). AList.update k v d) [] ps"

fun scan_val :: "nat \<Rightarrow> string \<Rightarrow> (json \<times> string) option"
  and scan_elems :: "nat \<Rightarrow> string \<Rightarrow> (json list \<times> string) option"
  and scan_members :: "nat \<Rightarrow> string \<Rightarrow> ((string \<times> json) list \<times> string) option" where
  "scan_val 0 s = None"
| "scan_val (Suc n) s =
    (case s of
       [] \<Rightarrow> None
     | c # cs \<Rightarrow>
        (if c = CHR 0x22 then map_option (\<lambda>(x, r). (JStr x, r)) (scan_str cs)
         else if c = CHR ''{''
         then (let t = skip_ws cs in
               if t \<noteq> [] \<and> hd t = CHR ''}'' then Some (JObj [], tl t)
               else map_option (\<lambda>(ps, r). (JObj (build_dict ps), r)) (scan_members n t))
         else if c = CHR ''[''
         then (let t = skip_ws cs in
               if t \<noteq> [] \<and> hd t = CHR '']'' then Some (JArr [], tl t)
               else map_option (\<lambda>(xs, r). (JArr xs, r)) (scan_elems n t))
         else if c = CHR ''n'' then scan_const ''null'' JNull s
         else if c = CHR ''t'' then scan_const ''true'' (JBool True) s
         else if c = CHR ''f'' then scan_const ''false'' (JBool False) s
         else if c = CHR ''N'' then scan_const ''NaN'' (JFloat ''NaN'') s
         else if c = CHR ''I'' then scan_const ''Infinity'' (JFloat ''Infinity'') s
         else if py_startswith s ''-Infinity'' then scan_const ''-Infinity'' (JFloat ''-Infinity'') s
         else scan_num s))"
| "scan_elems 0 s = None"
| "scan_elems (Suc n) s =
    (case scan_val n s of
       None \<Rightarrow> None
     | Some (v, r) \<Rightarrow>
        (case skip_ws r of
           [] \<Rightarrow> None
         | c # cs \<Rightarrow>
            (if c = CHR '']'' then Some ([v], cs)
             else if c = CHR '','' then map_option (\<lambda>(vs, q). (v # vs, q)) (scan_elems n (skip_ws cs))
             else None)))"
| "scan_members 0 s = None"
| "scan_members (Suc n) s =
    (case s of
       [] \<Rightarrow> None
     | c # cs \<Rightarrow>
        (if c \<noteq> CHR 0x22 then None
         else (case scan_str cs of
                 None \<Rightarrow> None
               | Some (k, r) \<Rightarrow>
                  (case skip_ws r of
                     [] \<Rightarrow> None
                   | c1 # cs1 \<Rightarrow>
                      (if c1 \<noteq> CHR '':'' then None
                       else (case scan_val n (skip_ws cs1) of
                               None \<Rightarrow> None
                             | Some (v, r2) \<Rightarrow>
                                (case skip_ws r2 of
                                   [] \<Rightarrow> None
                                 | c2 # cs2 \<Rightarrow>
                                    (if c2 = CHR ''}'' then Some ([(k, v)], cs2)
                                     else if c2 = CHR '',''
                                     then map_option (\<lambda>(ps, q). ((k, v) # ps, q)) (scan_members n (skip_ws cs2))
                                     else None))))))))"

definition json_loads :: "string \<Rightarrow> json option" where
  "json_loads s =
    (case scan_val (2 * length s + 1) (skip_ws s) of
       None \<Rightarrow> None
     | Some (v, r) \<Rightarrow> (if skip_ws r = [] then Some v else None))"

subsection \<open>Python's repr on JSON values\<close>

definition repr_char :: "char \<Rightarrow> char \<Rightarrow> string" where
  "repr_char q c =
    (let n = (of_char c :: nat) in
     if c = q \<or> c = CHR 0x5C then [CHR 0x5C, c]
     else if c = CHR 0x0A then [CHR 0x5C, CHR ''n'']
     else if c = CHR 0x0D then [CHR 0x5C, CHR ''r'']
     else if c = CHR 0x09 then [CHR 0x5C, CHR ''t'']
     else if n < 32 \<or> (127 \<le> n \<and> n \<le> 160) \<or> n = 173 then [CHR 0x5C, CHR ''x'', hex_char (n div 16), hex_char (n mod 16)]
     else [c])"

definition repr_str :: "string \<Rightarrow> string" where
  "repr_str s =
    (let q = (if CHR 0x27 \<in> set s \<and> CHR 0x22 \<notin> set s then CHR 0x22 else CHR 0x27)
     in q # concat (map (repr_char q) s) @ [q])"

fun py_repr :: "json \<Rightarrow> string" where
  "py_repr JNull = ''None''"
| "py_repr (JBool b) = (if b then ''True'' else ''False'')"
| "py_repr (JInt i) = int_str i"
| "py_repr (JFloat s) = (if s = ''NaN'' then ''nan'' else if s = ''Infinity'' then ''inf'' else if s = ''-Infinity'' then ''-inf'' else s)"
| "py_repr (JStr s) = repr_str s"
| "py_repr (JArr xs) = CHR ''['' # join '', '' (map py_repr xs) @ [CHR '']'']"
| "py_repr (JObj d) = CHR ''{'' # join '', '' (map (\<lambda>(k, v). repr_str k @ '': '' @ py_repr v) d) @ [CHR ''}'']"

definition py_str :: "json \<Rightarrow> string" where
  "py_str v = (case v of JStr s \<Rightarrow> s | _ \<Rightarrow> py_repr v)"

text \<open>\<open>bool(v)\<close>.\<close>

definition py_truth :: "json \<Rightarrow> bool" where
  "py_truth v = (case v of
      JNull \<Rightarrow> False | JBool b \<Rightarrow> b | JInt i \<Rightarrow> i \<noteq> 0
    | JFloat s \<Rightarrow> (\<exists>c \<in> set (takeWhile (\<lambda>c. c \<noteq> CHR ''e'' \<and> c \<noteq> CHR ''E'') s). c \<notin> {CHR ''-'', CHR ''0'', CHR ''.''})
    | JStr s \<Rightarrow> s \<noteq> [] | JArr xs \<Rightarrow> xs \<noteq> [] | JObj d \<Rightarrow> d \<noteq> [])"

text \<open>The values \<open>dumps\<close> writes without loss: distinct keys, and floats that are texts of floats.\<close>

fun json_wf :: "json \<Rightarrow> bool" where
  "json_wf (JFloat s) \<longleftrightarrow> s \<in> {''NaN'', ''Infinity'', ''-Infinity''} \<or> (list_all num_char s \<and> num_kind s = Some False)"
| "json_wf (JArr xs) \<longleftrightarrow> list_all json_wf xs"
| "json_wf (JObj d) \<longleftrightarrow> distinct (map fst d) \<and> list_all (\<lambda>(k, v). json_wf v) d"
| "json_wf JNull \<longleftrightarrow> True"
| "json_wf (JBool b) \<longleftrightarrow> True"
| "json_wf (JInt i) \<longleftrightarrow> True"
| "json_wf (JStr s) \<longleftrightarrow> True"

section \<open>Numbers round trip\<close>

lemma digit_char_simps:
  assumes "n < 10"
  shows "is_digit (digit_char n)" "digit_val (digit_char n) = n" "digit_char n = CHR ''0'' \<longleftrightarrow> n = 0"
proof -
  have "of_char (digit_char n) = 48 + n" using assms by (simp add: digit_char_def)
  moreover have "digit_char n = CHR ''0'' \<longleftrightarrow> of_char (digit_char n) = (of_char (CHR ''0'') :: nat)"
    by (metis char_of_char)
  ultimately show "is_digit (digit_char n)" "digit_val (digit_char n) = n" "digit_char n = CHR ''0'' \<longleftrightarrow> n = 0"
    using assms by (simp_all add: is_digit_def digit_val_def)
qed

lemma nat_str_digits: "nat_str n \<noteq> []" "list_all is_digit (nat_str n)"
proof (induction n rule: nat_str.induct)
  case (1 n)
  { case 1 show ?case by (subst nat_str.simps) simp }
  { case 2 show ?case using 1 by (subst nat_str.simps) (simp add: digit_char_simps) }
qed

lemma nat_of_nat_str [simp]: "nat_of_str (nat_str n) = n"
proof (induction n rule: nat_str.induct)
  case (1 n)
  have snoc: "nat_of_str (xs @ [c]) = 10 * nat_of_str xs + digit_val c" for xs c
    by (simp add: nat_of_str_def)
  show ?case
  proof (cases "n < 10")
    case True
    then show ?thesis by (subst nat_str.simps) (simp add: nat_of_str_def digit_char_simps)
  next
    case False
    with 1 show ?thesis by (subst nat_str.simps) (simp add: snoc digit_char_simps)
  qed
qed

lemma nat_str_leading: "hd (nat_str n) = CHR ''0'' \<Longrightarrow> length (nat_str n) = 1"
proof (induction n rule: nat_str.induct)
  case (1 n)
  show ?case
  proof (cases "n < 10")
    case True
    then show ?thesis by (subst nat_str.simps) simp
  next
    case False
    with "1.prems" have hd: "hd (nat_str (n div 10)) = CHR ''0''"
      by (subst (asm) nat_str.simps) (simp add: nat_str_digits(1))
    with 1 False obtain c where c: "nat_str (n div 10) = [c]" "c = CHR ''0''"
      by (metis length_0_conv length_Suc_conv list.sel(1) One_nat_def)
    then have "nat_of_str (nat_str (n div 10)) = 0" by (simp add: nat_of_str_def digit_val_def)
    with False show ?thesis by simp
  qed
qed

lemma takeWhile_all: "list_all P xs \<Longrightarrow> takeWhile P xs = xs" "list_all P xs \<Longrightarrow> dropWhile P xs = []"
  by (induction xs) auto

lemma not_digit [simp]: "\<not> is_digit CHR ''-''"
  by (simp add: is_digit_def)

lemma nat_str_no_sign [simp]: "hd (nat_str n) \<noteq> CHR ''-''"
  using nat_str_digits [of n] by (cases "nat_str n") auto

lemma int_str_kind: "num_kind (int_str i) = Some True"
  using nat_str_leading [of "nat (- i)"] nat_str_leading [of "nat i"] nat_str_digits
  by (auto simp: num_kind_def int_str_def Let_def takeWhile_all)

lemma int_of_int_str [simp]: "int_of_str (int_str i) = i"
  by (auto simp: int_of_str_def int_str_def nat_str_digits(1))

lemma int_str_chars: "list_all num_char (int_str i)" "int_str i \<noteq> []"
  using nat_str_digits by (auto simp: int_str_def num_char_def list_all_iff)

definition ends :: "string \<Rightarrow> bool" where
  "ends r \<longleftrightarrow> r = [] \<or> \<not> num_char (hd r)"

lemma scan_num_append:
  assumes "list_all num_char t" and "ends r"
  shows "takeWhile num_char (t @ r) = t" and "dropWhile num_char (t @ r) = r"
  using assms by (induction t) (auto simp: ends_def takeWhile_eq_Nil_iff dropWhile_eq_self_iff)

section \<open>Strings round trip\<close>

lemma hex_val_hex_char: "n < 16 \<Longrightarrow> hex_val (hex_char n) = Some n"
  by (auto simp: hex_val_def hex_char_def Let_def)

lemma scan_u_escape: "scan_str (u_escape c @ r) = map_option (\<lambda>(s, q). (c # s, q)) (scan_str r)"
proof -
  let ?n = "of_char c :: nat"
  have "?n < 256" by (rule nat_of_char_less_256)
  then have "?n div 16 < 16" by (simp add: less_mult_imp_div_less)
  moreover have "char_of (16 * (?n div 16) + ?n mod 16) = c" by simp
  moreover have "hex_val CHR ''0'' = Some 0" by (simp add: hex_val_def)
  ultimately have "u_value CHR ''0'' CHR ''0'' (hex_char (?n div 16)) (hex_char (?n mod 16)) = Some c"
    by (simp add: u_value_def hex_val_hex_char)
  then show ?thesis by (simp add: u_escape_def)
qed

lemma scan_esc_char: "scan_str (esc_char a c @ r) = map_option (\<lambda>(s, q). (c # s, q)) (scan_str r)"
  unfolding esc_char_def by (simp add: scan_u_escape simple_escape_def)

lemma scan_str_lit [simp]: "scan_str (concat (map (esc_char a) s) @ CHR 0x22 # r) = Some (s, r)"
  by (induction s) (simp_all add: scan_esc_char)

section \<open>Values round trip\<close>

definition style_ok :: "json_style \<Rightarrow> bool" where
  "style_ok st \<longleftrightarrow> js_item st \<in> {'','', '', ''} \<and> js_key st \<in> {'':'', '': ''}"

definition starts :: "string \<Rightarrow> bool" where
  "starts s \<longleftrightarrow> s \<noteq> [] \<and> hd s \<notin> {CHR '' '', CHR 0x09, CHR 0x0A, CHR 0x0D, CHR '']'', CHR ''}''}"

lemma num_char_starts: "num_char c \<Longrightarrow> c \<notin> {CHR '' '', CHR 0x09, CHR 0x0A, CHR 0x0D, CHR '']'', CHR ''}'', CHR 0x22, CHR ''{'', CHR ''['', CHR ''n'', CHR ''t'', CHR ''f'', CHR ''N'', CHR ''I''}"
  by (auto simp: num_char_def is_digit_def)

lemma num_kind_Nil [simp]: "num_kind [] = None"
  by (simp add: num_kind_def)

lemma jprint_starts: "json_wf v \<Longrightarrow> starts (jprint st v)"
proof (cases v)
  case (JInt i)
  then show ?thesis using int_str_chars [of i] num_char_starts
    by (cases "int_str i") (auto simp: starts_def)
next
  case (JFloat s)
  assume "json_wf v"
  with JFloat show ?thesis using num_char_starts by (cases s) (auto simp: starts_def)
qed (auto simp: starts_def str_lit_def)

lemma starts_append: "starts s \<Longrightarrow> skip_ws (s @ r) = s @ r" "starts s \<Longrightarrow> hd (s @ r) = hd s" "starts s \<Longrightarrow> s @ r \<noteq> []"
  by (cases s; simp add: starts_def skip_ws_def)+

lemma scan_val_num:
  assumes "list_all num_char t" and "t \<noteq> []" and "ends r" and "num_kind t = Some k" and "0 < n"
  shows "scan_val n (t @ r) = Some (if k then JInt (int_of_str t) else JFloat t, r)"
proof -
  obtain c cs where t: "t = c # cs" using assms(2) by (cases t) auto
  obtain m where n: "n = Suc m" using assms(5) by (cases n) auto
  have c: "num_char c" using assms(1) t by simp
  have ni: "\<not> py_startswith (c # cs @ r) ''-Infinity''"
  proof
    assume "py_startswith (c # cs @ r) ''-Infinity''"
    then have p: "c = CHR ''-''" "\<exists>x. cs @ r = CHR ''I'' # x" by (auto simp: py_startswith_iff)
    then show False
    proof (cases cs)
      case Nil
      with t p assms(4) show ?thesis by (simp add: num_kind_def)
    next
      case (Cons d ds)
      with p assms(1) t have "num_char CHR ''I''" by auto
      then show ?thesis by (simp add: num_char_def is_digit_def)
    qed
  qed
  have "scan_val n (t @ r) = scan_num (t @ r)"
    using num_char_starts [OF c] ni by (simp add: n t)
  also have "\<dots> = Some (if k then JInt (int_of_str t) else JFloat t, r)"
    using assms(4) by (simp add: scan_num_def scan_num_append [OF assms(1,3)] split: bool.split)
  finally show ?thesis .
qed

definition parses :: "json_style \<Rightarrow> json \<Rightarrow> bool" where
  "parses st v \<longleftrightarrow> (\<forall>n r. ends r \<and> 2 * length (jprint st v @ r) < n \<longrightarrow> scan_val n (jprint st v @ r) = Some (v, r))"

lemma ends_simps [simp]: "ends (CHR '']'' # r)" "ends (CHR ''}'' # r)" "ends (CHR '','' # r)"
  by (simp_all add: ends_def num_char_def is_digit_def)

lemma skip_ws_simps [simp]:
  "skip_ws (CHR '']'' # r) = CHR '']'' # r" "skip_ws (CHR ''}'' # r) = CHR ''}'' # r" "skip_ws (CHR '','' # r) = CHR '','' # r"
  "skip_ws (CHR '':'' # r) = CHR '':'' # r" "skip_ws (CHR '' '' # r) = skip_ws r" "skip_ws [] = []" "skip_ws (CHR 0x22 # r) = CHR 0x22 # r"
  by (simp_all add: skip_ws_def)

lemma scan_elems_print:
  assumes "style_ok st" and "xs \<noteq> []" and "\<And>x. x \<in> set xs \<Longrightarrow> parses st x \<and> starts (jprint st x)"
    and "2 * length (join (js_item st) (map (jprint st) xs) @ CHR '']'' # r) + 1 < n"
  shows "scan_elems n (join (js_item st) (map (jprint st) xs) @ CHR '']'' # r) = Some (xs, r)"
  using assms(2-)
proof (induction xs arbitrary: n)
  case Nil
  then show ?case by simp
next
  case (Cons x xs)
  from Cons.prems(3) obtain m where n: "n = Suc m" by (cases n) auto
  from Cons.prems(2) have x: "parses st x" "starts (jprint st x)" by auto
  show ?case
  proof (cases xs)
    case Nil
    with Cons.prems(3) x(1) n show ?thesis by (simp add: parses_def)
  next
    case (Cons y ys)
    let ?rest = "join (js_item st) (map (jprint st) xs) @ CHR '']'' # r"
    have ys: "starts (jprint st y)" using Cons Cons.prems(2) by simp
    have sep: "js_item st = '','' \<or> js_item st = '', ''" using assms(1) by (auto simp: style_ok_def)
    have whole: "join (js_item st) (map (jprint st) (x # xs)) @ CHR '']'' # r = jprint st x @ js_item st @ ?rest"
      using Cons by simp
    have len: "2 * length (jprint st x @ js_item st @ ?rest) + 1 < n" using Cons.prems(3) unfolding whole .
    have ends: "ends (js_item st @ ?rest)" using sep by auto
    have sws: "skip_ws ?rest = ?rest" using Cons ys
      by (cases ys) (simp_all add: starts_append)
    have "scan_val m (jprint st x @ js_item st @ ?rest) = Some (x, js_item st @ ?rest)"
      using x(1) ends len n unfolding parses_def by simp
    moreover have "skip_ws (js_item st @ ?rest) = CHR '','' # tl (js_item st) @ ?rest" "skip_ws (tl (js_item st) @ ?rest) = ?rest"
      using sep sws by auto
    moreover have "scan_elems m ?rest = Some (xs, r)"
    proof (rule Cons.IH)
      show "xs \<noteq> []" using Cons by simp
      show "\<And>x. x \<in> set xs \<Longrightarrow> parses st x \<and> starts (jprint st x)" using Cons.prems(2) by simp
      show "2 * length ?rest + 1 < m" using len n sep by auto
    qed
    ultimately show ?thesis unfolding whole n by simp
  qed
qed

definition member_text :: "json_style \<Rightarrow> string \<times> json \<Rightarrow> string" where
  "member_text st kv = str_lit (js_ascii st) (fst kv) @ js_key st @ jprint st (snd kv)"

lemma jprint_JObj: "jprint st (JObj d) = CHR ''{'' # join (js_item st) (map (member_text st) d) @ [CHR ''}'']"
proof -
  have "(\<lambda>(k, v). str_lit (js_ascii st) k @ js_key st @ jprint st v) = member_text st"
    by (auto simp: member_text_def)
  then show ?thesis by simp
qed

lemma scan_member:
  assumes "style_ok st" and "parses st v" and "starts (jprint st v)" and "ends r"
    and "2 * length (member_text st (k, v) @ r) + 1 < n"
  shows "scan_members n (member_text st (k, v) @ r) =
    (case skip_ws r of
       [] \<Rightarrow> None
     | c # cs \<Rightarrow> (if c = CHR ''}'' then Some ([(k, v)], cs)
                else if c = CHR '','' then map_option (\<lambda>(ps, q). ((k, v) # ps, q)) (scan_members (n - 1) (skip_ws cs))
                else None))"
proof -
  from assms(5) obtain m where n: "n = Suc m" by (cases n) auto
  have sep: "js_key st = '':'' \<or> js_key st = '': ''" using assms(1) by (auto simp: style_ok_def)
  have len: "2 * length (jprint st v @ r) < m" using assms(5) n sep by (auto simp: member_text_def str_lit_def)
  have "scan_val m (jprint st v @ r) = Some (v, r)" using assms(2,4) len by (simp add: parses_def)
  moreover have "skip_ws (js_key st @ jprint st v @ r) = CHR '':'' # tl (js_key st) @ jprint st v @ r"
    "skip_ws (tl (js_key st) @ jprint st v @ r) = jprint st v @ r"
    using sep starts_append(1) [OF assms(3), of r] by auto
  ultimately show ?thesis unfolding n member_text_def str_lit_def
    by (simp split: list.split)
qed

lemma scan_members_print:
  assumes "style_ok st" and "d \<noteq> []" and "\<And>k v. (k, v) \<in> set d \<Longrightarrow> parses st v \<and> starts (jprint st v)"
    and "2 * length (join (js_item st) (map (member_text st) d) @ CHR ''}'' # r) + 1 < n"
  shows "scan_members n (join (js_item st) (map (member_text st) d) @ CHR ''}'' # r) = Some (d, r)"
  using assms(2-)
proof (induction d arbitrary: n)
  case Nil
  then show ?case by simp
next
  case (Cons kv d)
  obtain k v where kv: "kv = (k, v)" by fastforce
  from Cons.prems(2) kv have x: "parses st v" "starts (jprint st v)" by auto
  show ?case
  proof (cases d)
    case Nil
    with Cons.prems(3) scan_member [OF assms(1) x, of "CHR ''}'' # r" k n] kv show ?thesis by simp
  next
    case (Cons kv' d')
    let ?rest = "join (js_item st) (map (member_text st) d) @ CHR ''}'' # r"
    have sep: "js_item st = '','' \<or> js_item st = '', ''" using assms(1) by (auto simp: style_ok_def)
    have whole: "join (js_item st) (map (member_text st) (kv # d)) @ CHR ''}'' # r = member_text st (k, v) @ js_item st @ ?rest"
      using Cons kv by simp
    have len: "2 * length (member_text st (k, v) @ js_item st @ ?rest) + 1 < n" using Cons.prems(3) unfolding whole .
    have ends: "ends (js_item st @ ?rest)" using sep by auto
    have sws: "skip_ws ?rest = ?rest" using Cons by (cases d') (simp_all add: member_text_def str_lit_def)
    have "skip_ws (js_item st @ ?rest) = CHR '','' # tl (js_item st) @ ?rest" "skip_ws (tl (js_item st) @ ?rest) = ?rest"
      using sep sws by auto
    moreover have "scan_members (n - 1) ?rest = Some (d, r)"
    proof (rule Cons.IH)
      show "d \<noteq> []" using Cons by simp
      show "\<And>k v. (k, v) \<in> set d \<Longrightarrow> parses st v \<and> starts (jprint st v)"
        by (rule Cons.prems(2), rule list.set_intros(2))
      show "2 * length ?rest + 1 < n - 1" using len sep by auto
    qed
    ultimately show ?thesis
      unfolding whole using scan_member [OF assms(1) x ends len] kv by simp
  qed
qed

lemma build_dict_distinct:
  assumes "distinct (map fst d)"
  shows "build_dict d = d"
proof -
  have "foldl (\<lambda>d (k, v). AList.update k v d) acc d = acc @ d" if "distinct (map fst (acc @ d))" for acc
    using that
  proof (induction d arbitrary: acc)
    case (Cons kv d)
    then have "fst kv \<notin> fst ` set acc" "distinct (map fst ((acc @ [kv]) @ d))" by auto
    with Cons.IH [of "acc @ [kv]"] show ?case
      by (cases kv) (simp add: alist_update_fresh)
  qed simp
  from this [of "[]"] assms show ?thesis by (simp add: build_dict_def)
qed

lemma join_starts: "xs \<noteq> [] \<Longrightarrow> starts (hd xs) \<Longrightarrow> starts (join sep xs)"
  by (induction sep xs rule: join.induct) (auto simp: starts_def)

lemma starts_hd: "starts s \<Longrightarrow> hd s \<noteq> CHR '']'' \<and> hd s \<noteq> CHR ''}''"
  by (simp add: starts_def)

lemma const_parses:
  assumes "ends r" and "0 < n"
  shows "scan_val n (''null'' @ r) = Some (JNull, r)" "scan_val n (''true'' @ r) = Some (JBool True, r)"
    "scan_val n (''false'' @ r) = Some (JBool False, r)" "scan_val n (''NaN'' @ r) = Some (JFloat ''NaN'', r)"
    "scan_val n (''Infinity'' @ r) = Some (JFloat ''Infinity'', r)"
    "scan_val n (''-Infinity'' @ r) = Some (JFloat ''-Infinity'', r)"
  using assms(2) by (cases n; simp add: scan_const_def py_startswith_def)+

lemma parses_all: "style_ok st \<Longrightarrow> json_wf v \<Longrightarrow> parses st v"
proof (induction v)
  case JNull
  then show ?case using const_parses by (simp add: parses_def)
next
  case (JBool b)
  then show ?case using const_parses by (simp add: parses_def)
next
  case (JInt i)
  show ?case unfolding parses_def
    using scan_val_num [OF int_str_chars, of _ i True] int_str_kind by simp
next
  case (JFloat s)
  then have "s \<in> {''NaN'', ''Infinity'', ''-Infinity''} \<or> (list_all num_char s \<and> num_kind s = Some False)" by simp
  then show ?case unfolding parses_def
    using const_parses scan_val_num [of s _ False] by (cases "s = []") auto
next
  case (JStr s)
  have "scan_val n (str_lit a s @ r) = Some (JStr s, r)" if "0 < n" for n a r
    using that by (cases n) (simp_all add: str_lit_def)
  then show ?case by (simp add: parses_def)
next
  case (JArr xs)
  then have xs: "\<And>x. x \<in> set xs \<Longrightarrow> parses st x \<and> starts (jprint st x)"
    by (auto simp: list_all_iff jprint_starts)
  show ?case unfolding parses_def
  proof (intro allI impI)
    fix n r assume n: "ends r \<and> 2 * length (jprint st (JArr xs) @ r) < n"
    then obtain m where m: "n = Suc m" by (cases n) auto
    show "scan_val n (jprint st (JArr xs) @ r) = Some (JArr xs, r)"
    proof (cases "xs = []")
      case True
      then show ?thesis by (simp add: m)
    next
      case False
      let ?body = "join (js_item st) (map (jprint st) xs)"
      have st: "starts ?body" using False xs by (intro join_starts) (simp_all add: hd_map)
      have "scan_elems m (?body @ CHR '']'' # r) = Some (xs, r)"
        by (rule scan_elems_print [OF JArr.prems(1) False xs]) (use n m in auto)
      with starts_append [OF st] starts_hd [OF st] show ?thesis by (simp add: m)
    qed
  qed
next
  case (JObj d)
  then have d: "\<And>k v. (k, v) \<in> set d \<Longrightarrow> parses st v \<and> starts (jprint st v)"
    by (fastforce simp: list_all_iff jprint_starts)
  show ?case unfolding parses_def
  proof (intro allI impI)
    fix n r assume n: "ends r \<and> 2 * length (jprint st (JObj d) @ r) < n"
    then obtain m where m: "n = Suc m" by (cases n) auto
    show "scan_val n (jprint st (JObj d) @ r) = Some (JObj d, r)"
    proof (cases "d = []")
      case True
      then show ?thesis by (simp add: m)
    next
      case False
      let ?body = "join (js_item st) (map (member_text st) d)"
      have st: "starts ?body" using False by (intro join_starts) (simp_all add: hd_map member_text_def str_lit_def starts_def)
      have "scan_members m (?body @ CHR ''}'' # r) = Some (d, r)"
        by (rule scan_members_print [OF JObj.prems(1) False d]) (use n m in \<open>auto simp: jprint_JObj simp del: jprint.simps\<close>)
      with starts_append [OF st] starts_hd [OF st] JObj.prems(2) show ?thesis
        unfolding jprint_JObj by (simp add: m build_dict_distinct)
    qed
  qed
qed

lemma json_wf_jsort: "json_wf v \<Longrightarrow> json_wf (jsort v)"
proof (induction v rule: jsort.induct)
  case (2 d)
  let ?e = "map (\<lambda>(k, v). (k, jsort v)) d"
  have "map fst ?e = map fst d" by auto
  with 2 have "distinct (map fst ?e)" by (simp only: json_wf.simps)
  moreover have "distinct (map fst (sort_key fst e))" if "distinct (map fst e)" for e :: "(string \<times> json) list"
    using that by (metis distinct_map set_sort distinct_sort)
  ultimately have "distinct (map fst (sort_key fst ?e))" by blast
  then show ?case using 2 by (auto simp: list_all_iff simp del: map_map)
qed (auto simp: list_all_iff)

theorem json_loads_dumps:
  assumes "style_ok st" and "json_wf v"
  shows "json_loads (json_dumps st v) = Some (json_norm st v)"
proof -
  let ?v = "json_norm st v"
  have wf: "json_wf ?v" using assms(2) json_wf_jsort by (simp add: json_norm_def)
  have s: "skip_ws (jprint st ?v) = jprint st ?v" using starts_append(1) [OF jprint_starts [OF wf], where r = "[]"] by simp
  have "scan_val (2 * length (jprint st ?v) + 1) (jprint st ?v @ []) = Some (?v, [])"
    using parses_all [OF assms(1) wf] unfolding parses_def by (rule allE [of _ "2 * length (jprint st ?v) + 1"]) (auto simp: ends_def)
  with s show ?thesis by (simp add: json_loads_def json_dumps_def)
qed

text \<open>What the parser returns is well formed, and so can be written without loss.\<close>

lemma wf_empty: "json_wf (JObj [])"
  by simp

lemma wf_update: "json_wf (JObj d) \<Longrightarrow> json_wf v \<Longrightarrow> json_wf (JObj (AList.update k v d))"
  by (auto simp: list_all_iff distinct_update set_alist_update)

lemma wf_build_dict:
  assumes "list_all (\<lambda>(k, v). json_wf v) ps"
  shows "json_wf (JObj (build_dict ps))"
proof -
  have "json_wf (JObj (foldl (\<lambda>d (k, v). AList.update k v d) acc ps))" if "json_wf (JObj acc)" for acc
    using assms that
  proof (induction ps arbitrary: acc)
    case (Cons p ps)
    obtain k v where p: "p = (k, v)" by (cases p)
    with Cons.prems have "json_wf (JObj (AList.update k v acc))" "list_all (\<lambda>(k, v). json_wf v) ps"
      by (simp_all add: wf_update del: json_wf.simps)
    with Cons.IH p show ?case by simp
  qed simp
  then show ?thesis by (simp add: build_dict_def del: json_wf.simps(3)) simp
qed

lemma scan_num_wf: "scan_num s = Some (v, r) \<Longrightarrow> json_wf v"
  by (auto simp: scan_num_def Let_def list_all_iff dest: set_takeWhileD split: option.splits bool.splits)

lemma scan_const_wf: "scan_const w v s = Some (x, r) \<Longrightarrow> x = v"
  by (auto simp: scan_const_def split: if_splits)

lemma scan_wf:
  "scan_val n s = Some (v, r) \<Longrightarrow> json_wf v"
  "scan_elems n s = Some (vs, r) \<Longrightarrow> list_all json_wf vs"
  "scan_members n s = Some (ps, r) \<Longrightarrow> list_all (\<lambda>(k, v). json_wf v) ps"
proof (induction n s and n s and n s arbitrary: v r and vs r and ps r rule: scan_val_scan_elems_scan_members.induct)
  case (2 n s)
  then show ?case 
    by (auto simp: Let_def wf_build_dict wf_empty simp del: json_wf.simps(3) dest!: scan_const_wf dest: scan_num_wf split: list.splits if_splits)
next
  case (4 n s)
  then show ?case by (auto split: option.splits list.splits if_splits)
next
  case (6 n s)
  then show ?case by (auto split: option.splits list.splits if_splits)
qed simp_all

lemma json_loads_wf:
  assumes "json_loads s = Some v"
  shows "json_wf v"
proof -
  obtain n where n: "n = 2 * length s + 1" by blast
  have "json_loads s = (case scan_val n (skip_ws s) of None \<Rightarrow> None | Some (v, r) \<Rightarrow> if skip_ws r = [] then Some v else None)"
    by (simp only: json_loads_def n)
  with assms obtain r where "scan_val n (skip_ws s) = Some (v, r)" by (auto split: option.splits if_splits)
  then show ?thesis by (rule scan_wf(1))
qed

lemma json_wf_member: "json_wf (JObj d) \<Longrightarrow> (k, v) \<in> set d \<Longrightarrow> json_wf v"
  by (force simp: list_all_iff)

lemma json_wf_Cons: "json_wf (JObj ((k, v) # d)) \<longleftrightarrow> k \<notin> fst ` set d \<and> json_wf v \<and> json_wf (JObj d)"
  by auto

end
