(* ===== verification/Registration_Protocol.thy ===== *)
theory Registration_Protocol
  imports Py_Json Py_Base64
begin

text \<open>
  The registration wire protocol (\<open>src/src/arb_registration/protocol.py\<close>, \<open>bus.py\<close> and the verifying half
  of \<open>crypto.py\<close>): signed bodies, operator replies, notify envelopes and the Redis lists they travel
  on. Elliptic-curve arithmetic (the \<open>cryptography\<close> package) is a record of functions; a Redis list key
  is a list of texts.
\<close>

section \<open>Signed bodies\<close>

record ec_lib =
  ec_point_x :: "string \<Rightarrow> string option"                      \<comment> \<open>\<open>from_encoded_point\<close>, then \<open>x\<close> as 64 hex digits\<close>
  ec_verify :: "string \<Rightarrow> string \<Rightarrow> string \<Rightarrow> bool"           \<comment> \<open>point, signature, message\<close>

definition canonical_style :: json_style where
  "canonical_style = \<lparr>js_item = '','', js_key = '':'', js_sort = True, js_ascii = False\<rparr>"

definition canonical_bytes :: "dict \<Rightarrow> string" where
  "canonical_bytes d = utf8 (json_dumps canonical_style (JObj d))"

fun py_fromhex :: "string \<Rightarrow> string option" where
  "py_fromhex [] = Some []"
| "py_fromhex [c] = (if c \<in> {CHR '' '', CHR 0x09, CHR 0x0A, CHR 0x0B, CHR 0x0C, CHR 0x0D} then Some [] else None)"
| "py_fromhex (a # b # s) =
    (if a \<in> {CHR '' '', CHR 0x09, CHR 0x0A, CHR 0x0B, CHR 0x0C, CHR 0x0D} then py_fromhex (b # s)
     else (case (hex_val a, hex_val b) of
             (Some x, Some y) \<Rightarrow> map_option (\<lambda>r. char_of (16 * x + y) # r) (py_fromhex s)
           | _ \<Rightarrow> None))"

text \<open>\<open>b64decode(..., validate=True)\<close>: alphabet characters, then at most two pads.\<close>

definition b64_decode_strict :: "string \<Rightarrow> string option" where
  "b64_decode_strict s =
    (let t = dropWhile (\<lambda>c. b64_val c \<noteq> None) s
     in if length t \<le> 2 \<and> list_all (\<lambda>c. c = CHR ''='') t then b64_decode s else None)"

definition verify_fields :: "ec_lib \<Rightarrow> dict \<Rightarrow> string \<Rightarrow> string \<Rightarrow> string \<Rightarrow> bool" where
  "verify_fields ec d signature compressed xonly =
    (case py_fromhex compressed of
       None \<Rightarrow> False
     | Some raw \<Rightarrow>
        (case ec_point_x ec raw of
           None \<Rightarrow> False
         | Some x \<Rightarrow>
            (if x \<noteq> py_lower xonly then False
             else (case b64_decode_strict signature of
                     None \<Rightarrow> False
                   | Some sig \<Rightarrow> ec_verify ec raw sig (canonical_bytes d)))))"

definition REQUEST_EVENT :: string where "REQUEST_EVENT = ''seat_registration_request''"
definition PROFILE_READY_EVENT :: string where "PROFILE_READY_EVENT = ''seat_registration_profile_ready''"
definition PROVISION_EVENT :: string where "PROVISION_EVENT = ''seat_registration_provision''"
definition GRANT_EVENT :: string where "GRANT_EVENT = ''seat_registration_grant''"
definition DENY_EVENT :: string where "DENY_EVENT = ''seat_registration_deny''"
definition BUS_REQUEST_EVENT :: string where "BUS_REQUEST_EVENT = ''bus_registration_request''"
definition BUS_GRANT_EVENT :: string where "BUS_GRANT_EVENT = ''bus_registration_grant''"
definition BUS_DENY_EVENT :: string where "BUS_DENY_EVENT = ''bus_registration_deny''"

definition SIGNED_EVENTS :: "string list" where
  "SIGNED_EVENTS = [REQUEST_EVENT, PROFILE_READY_EVENT, BUS_REQUEST_EVENT]"

definition verify_signed_data :: "ec_lib \<Rightarrow> dict \<Rightarrow> bool" where
  "verify_signed_data ec data =
    (case (dget data ''signature'', dget data ''signing_pubkey'', dget data ''pubkey'', dget data ''event'') of
       (JStr signature, JStr compressed, JStr xonly, JStr event) \<Rightarrow>
         (if event \<notin> set SIGNED_EVENTS then False
          else verify_fields ec (filter (\<lambda>(k, v). k \<noteq> ''signature'') data) signature compressed xonly)
     | _ \<Rightarrow> False)"

section \<open>Operator replies\<close>

record approval_reply =
  ap_action :: string
  ap_request_id :: string

definition hex_dash :: "char \<Rightarrow> bool" where
  "hex_dash c \<longleftrightarrow> hex_val c \<noteq> None \<or> c = CHR ''-''"

text \<open>The expression \<open>\s*(approve|deny)\s+([0-9a-fA-F-]{8,64})\s*\<close>, ignoring case, on the whole text.\<close>

definition parse_approval_reply :: "string \<Rightarrow> approval_reply option" where
  "parse_approval_reply content =
    (let t = py_strip content;
         word = takeWhile (\<lambda>c. \<not> py_isspace c) t;
         rid = dropWhile py_isspace (dropWhile (\<lambda>c. \<not> py_isspace c) t)
     in if py_lower word \<in> {''approve'', ''deny''} \<and> 8 \<le> length rid \<and> length rid \<le> 64 \<and> list_all hex_dash rid
        then Some \<lparr>ap_action = py_lower word, ap_request_id = py_lower rid\<rparr> else None)"

section \<open>Envelopes on the bus\<close>

text \<open>\<open>uid\<close> and \<open>now\<close> are the drawn identifier and the text of the current time.\<close>

definition notify_envelope :: "string \<Rightarrow> string \<Rightarrow> string \<Rightarrow> string \<Rightarrow> string \<Rightarrow> dict \<Rightarrow> dict" where
  "notify_envelope uid now sender recipient event data =
     [(''id'', JStr uid), (''from'', JStr sender), (''branch'', JStr ''seat-registration''), (''to'', JStr recipient),
      (''kind'', JStr ''notify''), (''sent_at'', JStr now),
      (''payload'', JObj [(''event'', JStr event), (''data'', JObj data)])]"

type_synonym bus_lists = "string \<Rightarrow> string list"

definition inbox_key :: "string \<Rightarrow> string \<Rightarrow> string" where
  "inbox_key prefix agent = prefix @ ''agent:'' @ agent @ '':inbox''"

definition bus_send :: "bus_lists \<Rightarrow> string \<Rightarrow> string \<Rightarrow> dict \<Rightarrow> bus_lists" where
  "bus_send ls prefix recipient env =
     ls(inbox_key prefix recipient := json_dumps json_compact (JObj env) # ls (inbox_key prefix recipient))"

text \<open>\<open>BRPOP\<close> takes the oldest element; a text that is not a JSON object is dropped.\<close>

definition bus_receive :: "bus_lists \<Rightarrow> string \<Rightarrow> string \<Rightarrow> dict option \<times> bus_lists" where
  "bus_receive ls prefix agent =
    (let k = inbox_key prefix agent in
     if ls k = [] then (None, ls)
     else (case json_loads (last (ls k)) of Some (JObj d) \<Rightarrow> Some d | _ \<Rightarrow> None, ls(k := butlast (ls k))))"

section \<open>Lemmas\<close>

lemma b64_pad_val: "b64_val CHR ''='' = None"
  by code_simp

lemma b64_strict_tail:
  "dropWhile (\<lambda>c. b64_val c \<noteq> None) (b64_encode xs) \<in> {[], ''='', ''==''}"
  by (induction xs rule: b64_encode.induct) (simp_all add: b64_pad_val)

lemma b64_strict_roundtrip [simp]: "b64_decode_strict (b64_encode xs) = Some xs"
proof -
  have "length t \<le> 2 \<and> list_all (\<lambda>c. c = CHR ''='') t" if "t \<in> {[], ''='', ''==''}" for t
    using that by auto
  from this [OF b64_strict_tail] show ?thesis
    unfolding b64_decode_strict_def Let_def by (metis (no_types, lifting) b64_roundtrip)
qed

lemma compact_style_ok: "style_ok json_compact"
  by (simp add: style_ok_def json_compact_def)

lemma send_receive:
  assumes "ls (inbox_key prefix agent) = []" and "json_wf (JObj env)"
  shows "bus_receive (bus_send ls prefix agent env) prefix agent = (Some env, ls)"
  using json_loads_dumps [OF compact_style_ok assms(2)] assms(1)
  by (auto simp: bus_receive_def bus_send_def Let_def json_norm_def json_compact_def)

lemma parse_approval_reply_Some:
  assumes "parse_approval_reply content = Some a"
  shows "ap_action a \<in> {''approve'', ''deny''}"
  using assms by (auto simp: parse_approval_reply_def Let_def split: if_splits)

end
