(* ===== verification/Bus_Acl.thy ===== *)
theory Bus_Acl
  imports Py_Json
begin

text \<open>
  The bus credentials of a host (\<open>src/src/arb_registration/bus_acl.py\<close>): host and role validation, the
  Redis ACL rules generated for orchestrators and workers, the live proof of a credential
  (\<open>AclVerifier\<close>) and the transactional provisioning of the ACL and credential files
  (\<open>AclProvisioner\<close>). The Redis server is an argument: a function from its state, a user and a command
  to a reply or an error and its next state.
\<close>

section \<open>Hosts and roles\<close>

definition ENGINES :: "string list" where
  "ENGINES = [''claude'', ''codex'', ''pi'']"

definition ROLE_NAMES :: "string list" where
  "ROLE_NAMES = ENGINES @ [''worker'']"

datatype redis_exc = NoPermission string | ResponseError string | OtherRedisError string

datatype acl_exc =
    AclProvisionError string
  | AclResidueError string
  | RawRedis redis_exc
  | OtherExc string

definition lower_alnum :: "char \<Rightarrow> bool" where
  "lower_alnum c \<longleftrightarrow> is_digit c \<or> (97 \<le> (of_char c :: nat) \<and> (of_char c :: nat) \<le> 122)"

definition HOST_RE :: "string \<Rightarrow> bool" where
  "HOST_RE s \<longleftrightarrow> s \<noteq> [] \<and> length s \<le> 63 \<and> list_all (\<lambda>c. lower_alnum c \<or> c = CHR ''-'') s \<and>
     lower_alnum (hd s) \<and> lower_alnum (last s)"

definition validate_host :: "string \<Rightarrow> (acl_exc, string) res" where
  "validate_host host =
    (let normalized = py_lower (py_strip host)
     in if HOST_RE normalized then Inr normalized
        else Inl (AclProvisionError ''host must be a lower-case DNS label''))"

definition json_role :: "json \<Rightarrow> bool" where
  "json_role v \<longleftrightarrow> (case v of JStr s \<Rightarrow> s \<in> set ROLE_NAMES | _ \<Rightarrow> False)"

definition validate_declared_roles :: "json \<Rightarrow> (acl_exc, string list) res" where
  "validate_declared_roles value =
    (case value of
       JArr xs \<Rightarrow>
        (if xs = [] then Inl (AclProvisionError ''roles must be a non-empty list'')
         else if \<not> list_all json_role xs then Inl (AclProvisionError ''roles must be a subset of claude,codex,pi,worker'')
         else if \<not> distinct xs then Inl (AclProvisionError ''roles must not contain duplicates'')
         else Inr (filter (\<lambda>r. JStr r \<in> set xs) ROLE_NAMES))
     | _ \<Rightarrow> Inl (AclProvisionError ''roles must be a non-empty list''))"

definition roles_json :: "string list \<Rightarrow> json" where
  "roles_json rs = JArr (map JStr rs)"

text \<open>For a host that passed \<open>validate_host\<close>; the name is the one the code builds from the normalised host.\<close>

definition role_username :: "string \<Rightarrow> string \<Rightarrow> (acl_exc, string) res" where
  "role_username role host =
    bind_r (validate_host host) (\<lambda>h.
      if role \<notin> set ROLE_NAMES then Inl (AclProvisionError (''unsupported role: '' @ role))
      else Inr (if role = ''worker'' then ''arb-worker-'' @ h else role @ ''-orch-'' @ h))"

section \<open>The generated rules\<close>

type_synonym acl_selector = "string list \<times> string list"

definition selector :: "acl_selector \<Rightarrow> string" where
  "selector s = ''('' @ join '' '' (fst s @ snd s) @ '')''"

definition acl_base :: "nat \<Rightarrow> string list \<Rightarrow> string list" where
  "acl_base db commands =
     [''resetchannels'', ''resetkeys'', ''clearselectors'', ''-@all'', ''+ping'', ''+select|'' @ nat_str db] @ commands"

definition audit_selectors :: "acl_selector list" where
  "audit_selectors =
    [([''+incr'', ''+incrby'', ''+expire''], [''~arbmem:audit:run:*:seq'']),
     ([''+xadd''], [''~arbmem:audit''])]"

definition task_selectors :: "bool \<Rightarrow> acl_selector list" where
  "task_selectors seat =
    (let status_cmds = (if seat then [''+hset'', ''+hget'', ''+hgetall'', ''+hdel'', ''+expire'', ''+del'']
                        else [''+hset'', ''+hget'', ''+hgetall'', ''+expire'', ''+del'']);
         events_cmds = (if seat then [''+xadd'', ''+xrange'', ''+xlen'', ''+xinfo'', ''+expire'']
                        else [''+xadd'', ''+xrange'', ''+xlen'', ''+xinfo''])
     in [(status_cmds, [''~agent_scratch:task:*:status'']),
         ([''+set'', ''+get'', ''+expire''], [''~agent_scratch:task:*:result'']),
         (events_cmds, [''~agent_scratch:task:*:events'']),
         ([''+incrby'', ''+expire''], [''~agent_scratch:task:*:epoch''])])"

definition orch_monitoring_selectors :: "acl_selector list" where
  "orch_monitoring_selectors =
    [([''+hset'', ''+hgetall'', ''+expire''], [''~agent_scratch:task:*:status'']),
     ([''+get''], [''~agent_scratch:task:*:result'']),
     ([''+xread''], [''~agent_scratch:task:*:events'']),
     ([''+xread'', ''+xrevrange''], [''~agent_scratch:events:live''])]"

definition orchestrator_selectors :: "string \<Rightarrow> acl_selector list" where
  "orchestrator_selectors identity =
    [([''+blpop'', ''+brpop'', ''+lpop'', ''+llen'', ''+lrange'', ''+lrem'', ''+rpush'', ''+del'', ''+type'', ''+get'',
       ''+set'', ''+expire'', ''+ttl''], [''~agent_scratch:agent:'' @ identity @ '':*'']),
     ([''+lpush''], [''~agent_scratch:agent:*:inbox'']),
     ([''+get'', ''+ttl'', ''+pttl'', ''+exists''], [''~agent_scratch:agent:*:status'']),
     ([''+get'', ''+set'', ''+setnx'', ''+getdel'', ''+del'', ''+exists'', ''+expire'', ''+ttl'', ''+pttl'', ''+type''],
      [''~agent_scratch:secrets:*:'' @ identity @ '':*'']),
     ([''+get'', ''+set'', ''+exists''], [''~agent_scratch:secrets:pubkey:'' @ identity])]
    @ orch_monitoring_selectors @ audit_selectors"

definition orchestrator_rule_args :: "string \<Rightarrow> string \<Rightarrow> (acl_exc, string list) res" where
  "orchestrator_rule_args engine host =
    (if engine \<notin> set ENGINES then Inl (AclProvisionError (''unsupported engine: '' @ engine))
     else bind_r (validate_host host) (\<lambda>h. bind_r (role_username engine h) (\<lambda>u.
       Inr (acl_base 12 [] @ map selector (orchestrator_selectors (u @ ''*''))))))"

definition worker_selectors :: "string \<Rightarrow> acl_selector list" where
  "worker_selectors host =
    (let own = ''worker-'' @ host @ ''-*'';
         ag = (\<lambda>suffix. ''~agent_scratch:agent:'' @ own @ suffix)
     in [([''+eval''], [ag '':status'', ag '':consumer'', ''~agent_scratch:registry:'' @ own]),
         ([''+get'', ''+set'', ''+expire'', ''+ttl'', ''+del''], [ag '':status'', ag '':consumer'']),
         ([''+hset'', ''+hget'', ''+del''], [''~agent_scratch:registry:'' @ own]),
         ([''+eval''], [ag '':inbox'', ag '':processing'', ag '':processing_claim:*'']),
         ([''+blpop'', ''+brpop'', ''+blmove'', ''+lmove'', ''+lpop'', ''+lindex'', ''+llen'', ''+lrange'', ''+lrem'',
           ''+rpush'', ''+del'', ''+type''], [ag '':inbox'', ag '':processing'']),
         ([''+set'', ''+get'', ''+del''], [ag '':processing_claim:*'']),
         ([''+lpop''], [ag '':control'']),
         ([''+lpush''], [''~agent_scratch:agent:*:inbox'']),
         ([''+lpush'', ''+ltrim''], [''~agent_scratch:agent:*:notify_inbox'']),
         ([''+xadd'', ''+expire''], [''~agent_scratch:events:live'']),
         ([''+get'', ''+incrby'', ''+expire''], [''~agent_scratch:usage:worker-'' @ host @ ''-*:*''])]
        @ task_selectors True)"

definition worker_rule_args :: "string \<Rightarrow> (acl_exc, string list) res" where
  "worker_rule_args host =
    bind_r (validate_host host) (\<lambda>h. Inr (acl_base 12 [] @ map selector (worker_selectors h)))"

definition role_args :: "string \<Rightarrow> string \<Rightarrow> (acl_exc, string list) res" where
  "role_args role host = (if role = ''worker'' then worker_rule_args host else orchestrator_rule_args role host)"

fun mapM_r :: "('a \<Rightarrow> ('e, 'b) res) \<Rightarrow> 'a list \<Rightarrow> ('e, 'b list) res" where
  "mapM_r f [] = Inr []"
| "mapM_r f (x # xs) = bind_r (f x) (\<lambda>y. bind_r (mapM_r f xs) (\<lambda>ys. Inr (y # ys)))"

definition role_rule_args :: "string \<Rightarrow> string list \<Rightarrow> (acl_exc, (string \<times> string list) list) res" where
  "role_rule_args host roles =
    bind_r (validate_host host) (\<lambda>h. bind_r (validate_declared_roles (roles_json roles)) (\<lambda>declared.
      mapM_r (\<lambda>role. bind_r (role_username role h) (\<lambda>u. bind_r (role_args role h) (\<lambda>a. Inr (u, a)))) declared))"

definition role_rules :: "string \<Rightarrow> string list \<Rightarrow> (acl_exc, (string \<times> string) list) res" where
  "role_rules host roles =
    bind_r (role_rule_args host roles) (\<lambda>ra. Inr (map (\<lambda>(u, a). (u, join '' '' a)) ra))"

definition proof_keys :: "string \<Rightarrow> string \<Rightarrow> string \<times> string" where
  "proof_keys username host =
    (if py_startswith username ''arb-worker-''
     then ''agent_scratch:agent:worker-'' @ host @ ''-acl-proof:inbox''
     else ''agent_scratch:agent:'' @ username @ ''-acl-proof:inbox'',
     ''agent_scratch:secrets:pubkey:'' @ username @ ''-acl-proof'')"

definition acl_line :: "(string \<Rightarrow> string) \<Rightarrow> string \<Rightarrow> string \<Rightarrow> string \<Rightarrow> string" where
  "acl_line sha username password rules = ''user '' @ username @ '' on #'' @ sha password @ '' '' @ rules"

section \<open>The live proof\<close>

datatype redis_reply = RTrue | RNil | RStr string | RInt int | RList "string list"

text \<open>State, user name, password, database, command.\<close>

type_synonym 'w connector = "'w \<Rightarrow> string \<Rightarrow> string \<Rightarrow> nat \<Rightarrow> string list \<Rightarrow> (redis_exc, redis_reply) res \<times> 'w"

text \<open>Computations on the server that may raise.\<close>

type_synonym ('w, 'a) acl_m = "('w, acl_exc, 'a) st_m"

definition raw_command :: "'w connector \<Rightarrow> string \<Rightarrow> string \<Rightarrow> nat \<Rightarrow> string list \<Rightarrow> ('w, redis_reply) acl_m" where
  "raw_command conn u pw db c = (\<lambda>w. case conn w u pw db c of (Inl e, w') \<Rightarrow> (Inl (RawRedis e), w') | (Inr r, w') \<Rightarrow> (Inr r, w'))"

definition allowed :: "'w connector \<Rightarrow> string \<Rightarrow> string \<Rightarrow> nat \<Rightarrow> string list \<Rightarrow> ('w, redis_reply) acl_m" where
  "allowed conn u pw db c = (\<lambda>w. case conn w u pw db c of
       (Inl (OtherRedisError e), w') \<Rightarrow> (Inl (RawRedis (OtherRedisError e)), w')
     | (Inl _, w') \<Rightarrow> (Inl (AclProvisionError (''expected allow for '' @ u)), w')
     | (Inr r, w') \<Rightarrow> (Inr r, w'))"

fun has_sub :: "string \<Rightarrow> string \<Rightarrow> bool" where
  "has_sub p [] \<longleftrightarrow> p = []"
| "has_sub p (c # cs) \<longleftrightarrow> py_startswith (c # cs) p \<or> has_sub p cs"

definition denied :: "'w connector \<Rightarrow> string \<Rightarrow> string \<Rightarrow> nat \<Rightarrow> string list \<Rightarrow> ('w, unit) acl_m" where
  "denied conn u pw db c = (\<lambda>w. case conn w u pw db c of
       (Inl (NoPermission e), w') \<Rightarrow> (Inr (), w')
     | (Inl (ResponseError e), w') \<Rightarrow>
         (if has_sub ''NOPERM'' e then (Inr (), w') else (Inl (AclProvisionError (''expected exact NOPERM for '' @ u)), w'))
     | (Inl (OtherRedisError e), w') \<Rightarrow> (Inl (RawRedis (OtherRedisError e)), w')
     | (Inr r, w') \<Rightarrow> (Inl (AclProvisionError (''unexpected allow for '' @ u)), w'))"

definition popped_probe :: "redis_reply \<Rightarrow> bool" where
  "popped_probe r \<longleftrightarrow> (case r of RList (a # b # _) \<Rightarrow> b = ''probe'' | _ \<Rightarrow> False)"

definition reply_text :: "redis_reply \<Rightarrow> string" where
  "reply_text r = (case r of RStr s \<Rightarrow> s | RInt i \<Rightarrow> int_str i | RTrue \<Rightarrow> ''True'' | RNil \<Rightarrow> ''None'' | RList xs \<Rightarrow> concat xs)"

definition credential :: "(string \<times> string) list \<Rightarrow> string \<Rightarrow> (acl_exc, string) res" where
  "credential creds u = (case map_of creds u of None \<Rightarrow> Inl (OtherExc ''KeyError'') | Some p \<Rightarrow> Inr p)"

text \<open>The proofs every identity has to pass; returns the keys to delete and the audit entry's id.\<close>

definition verify_user :: "'w connector \<Rightarrow> string \<Rightarrow> (string \<times> string) list \<Rightarrow> string \<Rightarrow> ('w, string list \<times> string) acl_m" where
  "verify_user conn host creds u =
    bind_m (lift_m (credential creds u)) (\<lambda>pw.
    let own_inbox = fst (proof_keys u host);
        foreign_inbox = ''agent_scratch:agent:foreign-host-acl-proof:inbox'';
        sink = ''agent_scratch:agent:acl-proof-sink:inbox'';
        seq = ''arbmem:audit:run:bus-reg-'' @ host @ ''-'' @ u @ '':seq''
    in
    bind_m (allowed conn u pw 12 [''PING'']) (\<lambda>pong.
    bind_m (when_m (pong \<noteq> RTrue) (AclProvisionError (''fresh DB12 PING failed for '' @ u))) (\<lambda>_.
    bind_m (allowed conn u pw 12 [''RPUSH'', own_inbox, ''probe'']) (\<lambda>_.
    bind_m (allowed conn u pw 12 [''BLPOP'', own_inbox, ''1'']) (\<lambda>popped.
    bind_m (when_m (\<not> popped_probe popped) (AclProvisionError (''own inbox consume proof failed for '' @ u))) (\<lambda>_.
    bind_m (allowed conn u pw 12 [''LPUSH'', sink, u]) (\<lambda>_.
    bind_m (allowed conn u pw 12 [''INCRBY'', seq, ''1'']) (\<lambda>n.
    bind_m (when_m (n \<notin> {RInt 1, RStr ''1''}) (AclProvisionError (''audit INCRBY proof failed for '' @ u))) (\<lambda>_.
    bind_m (allowed conn u pw 12 [''EXPIRE'', seq, ''60'']) (\<lambda>_.
    bind_m (allowed conn u pw 12 [''XADD'', ''arbmem:audit'', ''*'', ''source'', ''bus-registrar-acl-proof'', ''role'', u]) (\<lambda>audit_id.
    bind_m (denied conn u pw 1 [''PING'']) (\<lambda>_.
    bind_m (denied conn u pw 12 [''KEYS'', ''*'']) (\<lambda>_.
    bind_m (denied conn u pw 12 [''SCAN'', ''0'']) (\<lambda>_.
    bind_m (denied conn u pw 12 [''CONFIG'', ''GET'', ''maxmemory'']) (\<lambda>_.
    bind_m (denied conn u pw 12 [''BLPOP'', foreign_inbox, ''1'']) (\<lambda>_.
    bind_m (denied conn u pw 12 [''XADD'', ''arbmem:writes'', ''*'', ''probe'', ''1'']) (\<lambda>_.
    ret_m ([own_inbox, sink, seq], reply_text audit_id))))))))))))))))))"

definition verify_secret :: "'w connector \<Rightarrow> string \<Rightarrow> (string \<times> string) list \<Rightarrow> string \<Rightarrow> ('w, string) acl_m" where
  "verify_secret conn host creds u =
    bind_m (lift_m (credential creds u)) (\<lambda>pw.
    let own_secret = snd (proof_keys u host) in
    bind_m (allowed conn u pw 12 [''SET'', own_secret, ''pubkey'']) (\<lambda>_.
    bind_m (allowed conn u pw 12 [''GET'', own_secret]) (\<lambda>r.
    bind_m (when_m (r \<noteq> RStr ''pubkey'') (AclProvisionError (''own secret proof failed for '' @ u))) (\<lambda>_.
    bind_m (denied conn u pw 12 [''GET'', ''agent_scratch:secrets:private:foreign-host:value'']) (\<lambda>_.
    ret_m own_secret)))))"

definition verify :: "'w connector \<Rightarrow> string \<Rightarrow> string \<Rightarrow> string \<Rightarrow> (string \<times> string) list \<Rightarrow> string list \<Rightarrow> ('w, unit) acl_m" where
  "verify conn admin_user admin_pw host creds roles =
    bind_m (lift_m (validate_host host)) (\<lambda>h.
    bind_m (lift_m (role_rules h roles)) (\<lambda>expected.
    let names = sort (map fst expected) in
    bind_m (for_m names (verify_user conn h creds)) (\<lambda>proofs.
    bind_m (for_m (filter (\<lambda>u. \<not> py_startswith u ''arb-worker-'') names) (verify_secret conn h creds)) (\<lambda>secrets.
    let cleanup = concat (map fst proofs) @ secrets; entries = map snd proofs in
    bind_m (if cleanup = [] then ret_m RNil
            else raw_command conn admin_user admin_pw 12 (''DEL'' # sort (remdups cleanup))) (\<lambda>_.
    bind_m (if entries = [] then ret_m RNil
            else raw_command conn admin_user admin_pw 12 ([''XDEL'', ''arbmem:audit''] @ entries)) (\<lambda>_.
    ret_m ()))))))"

section \<open>Provisioning\<close>

text \<open>The two files, the in-flight marker beside the ACL file, and the server.\<close>

record 'w acl_host =
  pv_acl :: string
  pv_creds :: string
  pv_marker :: "string option"
  pv_bus :: 'w

text \<open>
  The parts of the environment a call draws on: the server, SHA-256, the passwords \<open>secrets.token_hex\<close>
  draws for new users, and which of the atomic file replacements, or the removal of the marker, raise. A replacement that raises
  leaves its file as it was (the temporary file is removed, \<open>os.replace\<close> is atomic).
\<close>

datatype fs_write = WMarker | WCreds | WAcl | WRestoreAcl | WRestoreCreds | WClear

record 'w acl_env =
  ev_conn :: "'w connector"
  ev_sha :: "string \<Rightarrow> string"
  ev_fresh :: "string \<Rightarrow> string"
  ev_fails :: "fs_write \<Rightarrow> bool"
  ev_acl_path :: string
  ev_creds_path :: string

text \<open>The second word of a line whose first word is \<open>user\<close>.\<close>

definition py_word :: "string \<Rightarrow> string \<times> string" where
  "py_word s = (let t = dropWhile py_isspace s in (takeWhile (\<lambda>c. \<not> py_isspace c) t, dropWhile (\<lambda>c. \<not> py_isspace c) t))"

definition line_user :: "string \<Rightarrow> string option" where
  "line_user line =
    (let (w1, r1) = py_word line; (w2, r2) = py_word r1
     in if w1 = ''user'' \<and> w2 \<noteq> [] then Some w2 else None)"

definition line_by_user :: "string list \<Rightarrow> string \<Rightarrow> string option" where
  "line_by_user lines u = List.find (\<lambda>l. line_user l = Some u) (rev lines)"

definition creds_dict :: "string \<Rightarrow> (acl_exc, (string \<times> json) list \<times> string) res" where
  "creds_dict text =
    (case json_loads text of
       None \<Rightarrow> Inl (OtherExc ''JSONDecodeError'')
     | Some (JObj d) \<Rightarrow>
        (case map_of d ''arb-admin'' of
           Some (JStr pw) \<Rightarrow> Inr (d, pw)
         | _ \<Rightarrow> Inl (AclProvisionError ''root credential store is missing arb-admin''))
     | Some _ \<Rightarrow> Inl (AclProvisionError ''root credential store is missing arb-admin''))"

text \<open>The identities of this host that both files already hold, with exactly the generated line.\<close>

definition current_users ::
  "(string \<Rightarrow> string) \<Rightarrow> (string \<times> json) list \<Rightarrow> string list \<Rightarrow> (string \<times> string) list \<Rightarrow> (acl_exc, string list) res" where
  "current_users sha d lines all_rules =
    bind_r (mapM_r (\<lambda>(u, rules).
      let pw = dget d u; existing = line_by_user lines u in
      if pw = JNull \<and> existing = None then Inr []
      else (case (pw, existing) of
              (JStr p, Some l) \<Rightarrow>
                (if l = acl_line sha u p rules then Inr [u]
                 else Inl (AclProvisionError (''existing ACL identity differs: '' @ u)))
            | _ \<Rightarrow> Inl (AclProvisionError (''existing ACL identity is incomplete: '' @ u)))) all_rules)
    (\<lambda>us. Inr (concat us))"

definition new_users :: "string list \<Rightarrow> (string \<times> string) list \<Rightarrow> (string \<times> string) list" where
  "new_users current requested = filter (\<lambda>(u, rules). u \<notin> set current) requested"

definition str_creds :: "(string \<times> json) list \<Rightarrow> (string \<times> string) list" where
  "str_creds d = concat (map (\<lambda>(k, v). case v of JStr s \<Rightarrow> [(k, s)] | _ \<Rightarrow> []) d)"

definition marker_text :: "'w acl_env \<Rightarrow> string \<Rightarrow> string \<Rightarrow> string \<Rightarrow> string list \<Rightarrow> string" where
  "marker_text env host acl_before creds_before candidates =
     json_dumps \<lparr>js_item = '', '', js_key = '': '', js_sort = True, js_ascii = True\<rparr>
       (JObj [(''host'', JStr host), (''candidates'', JArr (map JStr candidates)),
              (''acl_path'', JStr (ev_acl_path env)), (''acl_sha256_before'', JStr (ev_sha env acl_before)),
              (''credentials_path'', JStr (ev_creds_path env)),
              (''credentials_sha256_before'', JStr (ev_sha env creds_before))]) @ [CHR 0x0A]"

text \<open>Removing the candidates again; the first failure raises.\<close>

fun del_users :: "'w connector \<Rightarrow> string \<Rightarrow> string list \<Rightarrow> ('w, unit) acl_m" where
  "del_users conn pw [] = ret_m ()"
| "del_users conn pw (u # us) = (\<lambda>w. case conn w ''arb-admin'' pw 0 [''ACL'', ''DELUSER'', u] of
      (Inl e, w') \<Rightarrow> (Inl (AclResidueError (''preflight left live identity '' @ u)), w')
    | (Inr _, w') \<Rightarrow> del_users conn pw us w')"

text \<open>Creates the candidates; returns those created, and the error that stopped it.\<close>

fun set_users :: "'w connector \<Rightarrow> string \<Rightarrow> (string \<times> string) list \<Rightarrow> (string \<times> string list) list \<Rightarrow> string list
    \<Rightarrow> 'w \<Rightarrow> string list \<times> acl_exc option \<times> 'w" where
  "set_users conn pw creds [] created w = (created, None, w)"
| "set_users conn pw creds ((u, args) # us) created w =
    (case credential creds u of
       Inl e \<Rightarrow> (created, Some e, w)
     | Inr upw \<Rightarrow>
        (case conn w ''arb-admin'' pw 0 ([''ACL'', ''SETUSER'', u, ''on'', CHR ''>'' # upw] @ args) of
           (Inl e, w') \<Rightarrow> (created, Some (RawRedis e), w')
         | (Inr _, w') \<Rightarrow> set_users conn pw creds us (created @ [u]) w'))"

definition preflight ::
  "'w connector \<Rightarrow> string \<Rightarrow> (string \<times> string) list \<Rightarrow> string list \<Rightarrow> string \<Rightarrow> ('w, unit) acl_m" where
  "preflight conn host creds new_roles admin_pw = (\<lambda>w.
    (case role_rule_args host new_roles of
       Inl e \<Rightarrow> (Inl e, w)
     | Inr rule_args \<Rightarrow>
        (let (created, err, w1) = set_users conn admin_pw creds (sort_key fst rule_args) [] w;
             (r, w2) = (case err of
                          Some e \<Rightarrow> (Inl e, w1)
                        | None \<Rightarrow> verify conn ''arb-admin'' admin_pw host creds new_roles w1)
         in (case del_users conn admin_pw created w2 of
               (Inl e, w3) \<Rightarrow> (Inl e, w3)
             | (Inr _, w3) \<Rightarrow> (r, w3)))))"

definition write_file :: "'w acl_env \<Rightarrow> fs_write \<Rightarrow> ('w acl_host \<Rightarrow> 'w acl_host) \<Rightarrow> 'w acl_host \<Rightarrow> (acl_exc, unit) res \<times> 'w acl_host" where
  "write_file env op f s = (if ev_fails env op then (Inl (OtherExc ''OSError''), s) else (Inr (), f s))"

definition acl_load :: "'w acl_env \<Rightarrow> string \<Rightarrow> 'w acl_host \<Rightarrow> (redis_exc, redis_reply) res \<times> 'w acl_host" where
  "acl_load env admin_pw s =
    (case ev_conn env (pv_bus s) ''arb-admin'' admin_pw 0 [''ACL'', ''LOAD''] of (r, w) \<Rightarrow> (r, s\<lparr>pv_bus := w\<rparr>))"

text \<open>Restores both files and reloads; any failure is a residue.\<close>

definition rollback :: "'w acl_env \<Rightarrow> string \<Rightarrow> string \<Rightarrow> string \<Rightarrow> 'w acl_host \<Rightarrow> (acl_exc, unit) res \<times> 'w acl_host" where
  "rollback env acl_before creds_before admin_pw s =
    (let residue = AclResidueError ''ROLLBACK FAILED'';
         (r1, s1) = (if pv_acl s \<noteq> acl_before then write_file env WRestoreAcl (\<lambda>s. s\<lparr>pv_acl := acl_before\<rparr>) s else (Inr (), s))
     in case r1 of Inl _ \<Rightarrow> (Inl residue, s1)
     | Inr _ \<Rightarrow>
    (let (r2, s2) = (if pv_creds s1 \<noteq> creds_before then write_file env WRestoreCreds (\<lambda>s. s\<lparr>pv_creds := creds_before\<rparr>) s1
                     else (Inr (), s1))
     in case r2 of Inl _ \<Rightarrow> (Inl residue, s2)
     | Inr _ \<Rightarrow> (case acl_load env admin_pw s2 of (Inl _, s3) \<Rightarrow> (Inl residue, s3) | (Inr _, s3) \<Rightarrow> (Inr (), s3))))"

text \<open>The commit block: replace the files that change, reload, prove the persisted identities.\<close>

definition commit ::
  "'w acl_env \<Rightarrow> string \<Rightarrow> string \<Rightarrow> (string \<times> json) list \<Rightarrow> (string \<times> json) list \<Rightarrow> string \<Rightarrow> string list
    \<Rightarrow> 'w acl_host \<Rightarrow> (acl_exc, unit) res \<times> 'w acl_host" where
  "commit env host admin_pw creds0 creds acl_after current_roles s =
    (let (r1, s1) = (if creds \<noteq> creds0
                     then write_file env WCreds (\<lambda>s. s\<lparr>pv_creds := json_dumps (json_default\<lparr>js_sort := True\<rparr>) (JObj creds) @ [CHR 0x0A]\<rparr>) s
                     else (Inr (), s))
     in case r1 of Inl e \<Rightarrow> (Inl e, s1)
     | Inr _ \<Rightarrow>
    (let (r2, s2) = (if pv_acl s \<noteq> acl_after then write_file env WAcl (\<lambda>s. s\<lparr>pv_acl := acl_after\<rparr>) s1 else (Inr (), s1))
     in case r2 of Inl e \<Rightarrow> (Inl e, s2)
     | Inr _ \<Rightarrow>
    (case acl_load env admin_pw s2 of
       (Inl e, s3) \<Rightarrow> (Inl (AclProvisionError ''ACL LOAD failed''), s3)
     | (Inr _, s3) \<Rightarrow>
        (case verify (ev_conn env) ''arb-admin'' admin_pw host (str_creds creds) current_roles (pv_bus s3) of
           (r, w) \<Rightarrow> (r, s3\<lparr>pv_bus := w\<rparr>)))))"

definition clear_marker :: "'w acl_env \<Rightarrow> 'w acl_host \<Rightarrow> (acl_exc, unit) res \<times> 'w acl_host" where
  "clear_marker env s = write_file env WClear (\<lambda>s. s\<lparr>pv_marker := None\<rparr>) s"

text \<open>The marker is cleared, then the call ends as it would; an exception of the removal ends it instead.\<close>

definition clear_then :: "'w acl_env \<Rightarrow> (acl_exc, 'a) res \<Rightarrow> 'w acl_host \<Rightarrow> (acl_exc, 'a) res \<times> 'w acl_host" where
  "clear_then env r s = (case clear_marker env s of (Inl e, s') \<Rightarrow> (Inl e, s') | (Inr _, s') \<Rightarrow> (r, s'))"

text \<open>What \<open>provision\<close> works out from the two files before it changes anything.\<close>

record acl_plan =
  pl_host :: string
  pl_admin_pw :: string
  pl_creds0 :: "(string \<times> json) list"
  pl_creds :: "(string \<times> json) list"
  pl_new :: "string list"
  pl_current :: "string list"
  pl_new_roles :: "string list"
  pl_current_roles :: "string list"
  pl_acl_after :: string

definition roles_of :: "string \<Rightarrow> string list \<Rightarrow> string list" where
  "roles_of host users = filter (\<lambda>role. case role_username role host of Inr u \<Rightarrow> u \<in> set users | Inl _ \<Rightarrow> False) ROLE_NAMES"

definition plan_provision :: "'w acl_env \<Rightarrow> string \<Rightarrow> json \<Rightarrow> 'w acl_host \<Rightarrow> (acl_exc, acl_plan) res" where
  "plan_provision env host0 roles s =
    bind_r (validate_host host0) (\<lambda>host.
    bind_r (validate_declared_roles roles) (\<lambda>declared.
    bind_r (guard_r (pv_marker s = None) (AclProvisionError ''unresolved provision marker'')) (\<lambda>_.
    bind_r (creds_dict (pv_creds s)) (\<lambda>(creds0, admin_pw).
    bind_r (role_rules host ROLE_NAMES) (\<lambda>all_rules.
    bind_r (role_rules host declared) (\<lambda>requested.
    (let lines = py_splitlines (pv_acl s) in
    bind_r (current_users (ev_sha env) creds0 lines all_rules) (\<lambda>existing.
    (let new = new_users existing requested;
         creds = foldl (\<lambda>d (u, rules). AList.update u (JStr (ev_fresh env u)) d) creds0 new;
         lines' = lines @ map (\<lambda>(u, rules). acl_line (ev_sha env) u (ev_fresh env u) rules) new;
         current = existing @ map fst new
     in Inr \<lparr>pl_host = host, pl_admin_pw = admin_pw, pl_creds0 = creds0, pl_creds = creds, pl_new = map fst new,
             pl_current = current, pl_new_roles = roles_of host (map fst new), pl_current_roles = roles_of host current,
             pl_acl_after = join [CHR 0x0A] lines' @ [CHR 0x0A]\<rparr>)))))))))"

definition provision_run :: "'w acl_env \<Rightarrow> acl_plan \<Rightarrow> 'w acl_host \<Rightarrow> (acl_exc, (string \<times> string) list) res \<times> 'w acl_host" where
  "provision_run env pl s =
    (case write_file env WMarker (\<lambda>s. s\<lparr>pv_marker := Some (marker_text env (pl_host pl) (pv_acl s) (pv_creds s) (sort (pl_new pl)))\<rparr>) s of
       (Inl e, s1) \<Rightarrow> (Inl e, s1)
     | (Inr _, s1) \<Rightarrow>
    (case (if pl_new pl = [] then (Inr (), pv_bus s1)
           else preflight (ev_conn env) (pl_host pl) (str_creds (pl_creds pl)) (pl_new_roles pl) (pl_admin_pw pl) (pv_bus s1)) of
       (Inl (AclResidueError e), w) \<Rightarrow> (Inl (AclResidueError e), s1\<lparr>pv_bus := w\<rparr>)
     | (Inl e, w) \<Rightarrow> clear_then env (Inl e) (s1\<lparr>pv_bus := w\<rparr>)
     | (Inr _, w) \<Rightarrow>
    (case commit env (pl_host pl) (pl_admin_pw pl) (pl_creds0 pl) (pl_creds pl) (pl_acl_after pl) (pl_current_roles pl) (s1\<lparr>pv_bus := w\<rparr>) of
       (Inl e, s2) \<Rightarrow>
         (case rollback env (pv_acl s) (pv_creds s) (pl_admin_pw pl) s2 of
            (Inl e', s3) \<Rightarrow> (Inl e', s3)
          | (Inr _, s3) \<Rightarrow> clear_then env (Inl e) s3)
     | (Inr _, s2) \<Rightarrow>
         clear_then env (Inr (concat (map (\<lambda>u. case map_of (str_creds (pl_creds pl)) u of Some p \<Rightarrow> [(u, p)] | None \<Rightarrow> []) (sort (pl_current pl))))) s2)))"

definition provision :: "'w acl_env \<Rightarrow> string \<Rightarrow> json \<Rightarrow> 'w acl_host \<Rightarrow> (acl_exc, (string \<times> string) list) res \<times> 'w acl_host" where
  "provision env host roles s =
    (case plan_provision env host roles s of
       Inl e \<Rightarrow> (Inl e, s)
     | Inr pl \<Rightarrow> provision_run env pl s)"

section \<open>What the rules grant\<close>

text \<open>
  The generated key patterns use only the wildcard \<open>*\<close>, any sequence of characters. A selector grants a
  command on a key when it names the command and one of its patterns matches the key.
\<close>

fun star_match :: "string \<Rightarrow> string \<Rightarrow> bool" where
  "star_match [] k \<longleftrightarrow> k = []"
| "star_match (c # p) k \<longleftrightarrow>
     (if c = CHR ''*'' then star_match p k \<or> (case k of [] \<Rightarrow> False | x # k' \<Rightarrow> star_match (c # p) k')
      else (case k of [] \<Rightarrow> False | x # k' \<Rightarrow> x = c \<and> star_match p k'))"

declare star_match.simps(2) [simp del]

definition acl_grants :: "acl_selector list \<Rightarrow> string \<Rightarrow> string \<Rightarrow> bool" where
  "acl_grants sels c k \<longleftrightarrow>
     list_ex (\<lambda>(cmds, pats). (CHR ''+'' # py_lower c) \<in> set cmds \<and> list_ex (\<lambda>p. p \<noteq> [] \<and> hd p = CHR ''~'' \<and> star_match (tl p) k) pats) sels"

text \<open>What is relied on of the server: it refuses a worker identity every command on a key that its selectors do not grant.\<close>

definition acl_enforced :: "'w connector \<Rightarrow> string \<Rightarrow> bool" where
  "acl_enforced conn host \<longleftrightarrow>
     (\<forall>w pw c k rest. \<not> acl_grants (worker_selectors host) c k \<longrightarrow>
        (\<exists>m. fst (conn w (''arb-worker-'' @ host) pw 12 (c # k # rest)) = Inl (NoPermission m)))"

lemma star_match_lit: "c \<noteq> CHR ''*'' \<Longrightarrow> star_match (c # p) k \<longleftrightarrow> (\<exists>k'. k = c # k' \<and> star_match p k')"
  by (cases k) (auto simp: star_match.simps(2))

lemma star_match_star: "star_match (CHR ''*'' # p) k \<longleftrightarrow> (\<exists>a b. k = a @ b \<and> star_match p b)"
proof (induction k)
  case Nil
  then show ?case by (simp add: star_match.simps(2))
next
  case (Cons x k)
  have "star_match (CHR ''*'' # p) (x # k) \<longleftrightarrow> star_match p (x # k) \<or> star_match (CHR ''*'' # p) k"
    by (subst star_match.simps(2)) simp
  also have "\<dots> \<longleftrightarrow> star_match p (x # k) \<or> (\<exists>a b. k = a @ b \<and> star_match p b)" using Cons by simp
  also have "\<dots> \<longleftrightarrow> (\<exists>a b. x # k = a @ b \<and> star_match p b)" by (auto simp: Cons_eq_append_conv)
  finally show ?case .
qed

lemma star_match_prefix:
  "CHR ''*'' \<notin> set q \<Longrightarrow> star_match (q @ p) k \<longleftrightarrow> (\<exists>k'. k = q @ k' \<and> star_match p k')"
proof (induction q arbitrary: k)
  case (Cons c q)
  then show ?case by (auto simp: star_match_lit)
qed simp

lemma star_match_all: "CHR ''*'' \<notin> set q \<Longrightarrow> star_match q k \<longleftrightarrow> k = q"
  using star_match_prefix [of q "[]" k] by simp

section \<open>Provisioning is a transaction\<close>

lemma write_file_frame:
  assumes "write_file env op f s = (r, s')" and "\<And>s. pv_marker (f s) = pv_marker s"
  shows "pv_marker s' = pv_marker s"
  using assms by (auto simp: write_file_def split: if_splits)

lemma acl_load_frame:
  "acl_load env pw s = (r, s') \<Longrightarrow> pv_marker s' = pv_marker s \<and> pv_acl s' = pv_acl s \<and> pv_creds s' = pv_creds s"
  by (auto simp: acl_load_def split: prod.splits)

lemma commit_marker:
  assumes "commit env host pw d0 d acl roles s = (r, s')"
  shows "pv_marker s' = pv_marker s"
  using assms
  by (auto simp: commit_def Let_def write_file_def split: prod.splits sum.splits if_splits dest: acl_load_frame)

lemma rollback_outcome:
  assumes "rollback env acl creds pw s = (r, s')"
  shows "pv_marker s' = pv_marker s \<and>
    (case r of Inl e \<Rightarrow> (\<exists>m. e = AclResidueError m) | Inr _ \<Rightarrow> pv_acl s' = acl \<and> pv_creds s' = creds)"
  using assms
  by (auto simp: rollback_def Let_def write_file_def split: prod.splits sum.splits if_splits dest!: acl_load_frame)

lemma plan_marker: "plan_provision env host roles s = Inr pl \<Longrightarrow> pv_marker s = None"
  by (auto simp: plan_provision_def bind_r_def guard_r_def split: sum.splits if_splits)

text \<open>The live proof never raises a residue error of its own.\<close>

definition no_residue :: "('w, 'a) acl_m \<Rightarrow> bool" where
  "no_residue m \<longleftrightarrow> (\<forall>w e. fst (m w) \<noteq> Inl (AclResidueError e))"

lemma no_residue_bind: "no_residue m \<Longrightarrow> (\<And>x. no_residue (f x)) \<Longrightarrow> no_residue (bind_m m f)"
  by (auto simp: no_residue_def bind_m_def split: prod.splits sum.splits) (metis fst_conv)+

lemma no_residue_prims:
  "no_residue (ret_m x)" "no_residue (allowed conn u pw db c)" "no_residue (denied conn u pw db c)"
  "no_residue (raw_command conn u pw db c)" "no_residue (when_m b (AclProvisionError e))" "no_residue (lift_m (credential creds u))"
  by (auto simp: no_residue_def ret_m_def allowed_def denied_def raw_command_def when_m_def raise_m_def lift_m_def credential_def
      split: prod.splits sum.splits redis_exc.splits option.splits)

lemma no_residue_for: "(\<And>x. no_residue (f x)) \<Longrightarrow> no_residue (for_m xs f)"
  by (induction xs) (auto intro!: no_residue_bind no_residue_prims)

lemma mapM_r_Inl: "mapM_r f xs = Inl e \<Longrightarrow> \<exists>x \<in> set xs. f x = Inl e"
  by (induction xs) (auto simp: bind_r_eq_Inl)

lemma rules_no_residue: "role_rules h roles \<noteq> Inl (AclResidueError e)"
  by (auto simp: role_rules_def role_rule_args_def bind_r_eq_Inl validate_host_def validate_declared_roles_def Let_def
      role_username_def role_args_def worker_rule_args_def orchestrator_rule_args_def split: if_splits json.splits dest!: mapM_r_Inl)

lemma verify_no_residue: "no_residue (verify conn au apw host creds roles)"
proof -
  have "no_residue (lift_m (validate_host host))" by (simp add: no_residue_def lift_m_def validate_host_def Let_def)
  moreover have "no_residue (lift_m (role_rules h roles))" for h by (simp add: no_residue_def lift_m_def rules_no_residue)
  moreover have "no_residue (verify_user conn h creds u)" "no_residue (verify_secret conn h creds u)" for h u
    unfolding verify_user_def verify_secret_def Let_def by (intro no_residue_bind no_residue_prims)+
  ultimately show ?thesis
    unfolding verify_def Let_def by (auto intro!: no_residue_bind no_residue_prims no_residue_for)
qed

lemma commit_no_residue:
  assumes "commit env host pw d0 d acl roles s = (Inl e, s')"
  shows "e \<noteq> AclResidueError m"
proof -
  have "verify (ev_conn env) au apw h creds rs w \<noteq> (Inl (AclResidueError m), w')" for au apw h creds rs w w'
    using verify_no_residue [of "ev_conn env" au apw h creds rs] by (auto simp: no_residue_def) (metis fst_conv)
  with assms show ?thesis
    by (auto simp: commit_def Let_def write_file_def split: prod.splits sum.splits if_splits)
qed

lemma clear_then_ok: "\<not> ev_fails env WClear \<Longrightarrow> clear_then env r s = (r, s\<lparr>pv_marker := None\<rparr>)"
  by (simp add: clear_then_def clear_marker_def write_file_def)

lemma clear_then_Inr: "clear_then env r s = (Inr x, s') \<Longrightarrow> r = Inr x \<and> s' = s\<lparr>pv_marker := None\<rparr>"
  by (auto simp: clear_then_def clear_marker_def write_file_def split: if_splits)

lemma provision_run_clears:
  assumes "pv_marker s = None" and "provision_run env pl s = (res, s')" and "\<not> ev_fails env WClear"
  shows "case res of
      Inl (AclResidueError m) \<Rightarrow> pv_marker s' \<noteq> None
    | Inl _ \<Rightarrow> pv_acl s' = pv_acl s \<and> pv_creds s' = pv_creds s \<and> pv_marker s' = None
    | Inr _ \<Rightarrow> pv_marker s' = None"
proof (cases "ev_fails env WMarker")
  case True
  with assms(1,2) show ?thesis by (auto simp: provision_run_def write_file_def)
next
  case False
  define s1 where "s1 = s\<lparr>pv_marker := Some (marker_text env (pl_host pl) (pv_acl s) (pv_creds s) (sort (pl_new pl)))\<rparr>"
  obtain r w where pf: "(if pl_new pl = [] then (Inr (), pv_bus s1)
      else preflight (ev_conn env) (pl_host pl) (str_creds (pl_creds pl)) (pl_new_roles pl) (pl_admin_pw pl) (pv_bus s1)) = (r, w)"
    by fastforce
  have s1: "pv_acl (s1\<lparr>pv_bus := w\<rparr>) = pv_acl s" "pv_creds (s1\<lparr>pv_bus := w\<rparr>) = pv_creds s" "pv_marker (s1\<lparr>pv_bus := w\<rparr>) \<noteq> None"
    by (simp_all add: s1_def)
  have wf: "write_file env WMarker (\<lambda>s. s\<lparr>pv_marker := Some (marker_text env (pl_host pl) (pv_acl s) (pv_creds s) (sort (pl_new pl)))\<rparr>) s
      = (Inr (), s1)" using False by (simp add: write_file_def s1_def)
  have run: "provision_run env pl s = (case (r, w) of
       (Inl (AclResidueError e), w) \<Rightarrow> (Inl (AclResidueError e), s1\<lparr>pv_bus := w\<rparr>)
     | (Inl e, w) \<Rightarrow> clear_then env (Inl e) (s1\<lparr>pv_bus := w\<rparr>)
     | (Inr _, w) \<Rightarrow>
    (case commit env (pl_host pl) (pl_admin_pw pl) (pl_creds0 pl) (pl_creds pl) (pl_acl_after pl) (pl_current_roles pl) (s1\<lparr>pv_bus := w\<rparr>) of
       (Inl e, s2) \<Rightarrow>
         (case rollback env (pv_acl s) (pv_creds s) (pl_admin_pw pl) s2 of
            (Inl e', s3) \<Rightarrow> (Inl e', s3)
          | (Inr _, s3) \<Rightarrow> clear_then env (Inl e) s3)
     | (Inr _, s2) \<Rightarrow>
         clear_then env (Inr (concat (map (\<lambda>u. case map_of (str_creds (pl_creds pl)) u of Some p \<Rightarrow> [(u, p)] | None \<Rightarrow> []) (sort (pl_current pl))))) s2))"
    by (simp only: provision_run_def wf prod.case sum.case pf)
  show ?thesis
  proof (cases r)
    case (Inl e)
    with run s1 assms(2) show ?thesis by (cases e) (auto simp: clear_then_ok [OF assms(3)])
  next
    case (Inr u)
    obtain rc s2 where c: "commit env (pl_host pl) (pl_admin_pw pl) (pl_creds0 pl) (pl_creds pl) (pl_acl_after pl)
        (pl_current_roles pl) (s1\<lparr>pv_bus := w\<rparr>) = (rc, s2)" by fastforce
    have m2: "pv_marker s2 \<noteq> None" using commit_marker [OF c] s1 by simp
    show ?thesis
    proof (cases rc)
      case (Inr v)
      with run \<open>r = Inr u\<close> c assms(2) show ?thesis by (auto simp: clear_then_ok [OF assms(3)])
    next
      case e: (Inl e)
      obtain rb s3 where rb: "rollback env (pv_acl s) (pv_creds s) (pl_admin_pw pl) s2 = (rb, s3)" by fastforce
      note ro = rollback_outcome [OF rb]
      show ?thesis
      proof (cases rb)
        case (Inl e')
        with run \<open>r = Inr u\<close> c e rb assms(2) ro m2 show ?thesis by auto
      next
        case (Inr v)
        have "commit env (pl_host pl) (pl_admin_pw pl) (pl_creds0 pl) (pl_creds pl) (pl_acl_after pl)
          (pl_current_roles pl) (s1\<lparr>pv_bus := w\<rparr>) = (Inl e, s2)" using c e by simp
        from commit_no_residue [OF this] run \<open>r = Inr u\<close> rb Inr assms(2) ro c e show ?thesis
          by (cases e) (auto simp: clear_then_ok [OF assms(3)])
      qed
    qed
  qed
qed

text \<open>When the marker cannot be removed, the run is the one in which it could, with the marker still there and the error of the removal.\<close>

definition marker_removable :: "'w acl_env \<Rightarrow> 'w acl_env" where
  "marker_removable env = env\<lparr>ev_fails := (ev_fails env)(WClear := False)\<rparr>"

lemma removable_same:
  "ev_conn (marker_removable env) = ev_conn env" "marker_text (marker_removable env) = marker_text env"
  "op \<noteq> WClear \<Longrightarrow> write_file (marker_removable env) op = write_file env op" "acl_load (marker_removable env) = acl_load env"
  "plan_provision (marker_removable env) = plan_provision env"
  by (intro ext; simp add: marker_removable_def marker_text_def write_file_def acl_load_def plan_provision_def)+

lemma removable_clears: "\<not> ev_fails (marker_removable env) WClear"
  by (simp add: marker_removable_def)

lemmas removable_writes = removable_same(3) [of WMarker, simplified] removable_same(3) [of WCreds, simplified] removable_same(3) [of WAcl, simplified]
  removable_same(3) [of WRestoreAcl, simplified] removable_same(3) [of WRestoreCreds, simplified]

lemma removable_steps: "commit (marker_removable env) = commit env" "rollback (marker_removable env) = rollback env"
  unfolding commit_def rollback_def removable_same(1,4) removable_writes fun_eq_iff by (intro allI refl)+

lemma clear_then_cases:
  assumes "clear_then env r s = (res, s')" and "pv_marker s \<noteq> None"
  shows "clear_then (marker_removable env) r s = (res, s') \<or>
    clear_then (marker_removable env) r s = (r, s'\<lparr>pv_marker := None\<rparr>) \<and> ev_fails env WClear \<and> res = Inl (OtherExc ''OSError'') \<and> pv_marker s' \<noteq> None"
  using assms
  by (cases "ev_fails env WClear") (auto simp: clear_then_ok removable_clears clear_then_def clear_marker_def write_file_def)

lemma provision_run_removable:
  assumes "provision_run env pl s = (res, s')"
  shows "provision_run (marker_removable env) pl s = (res, s') \<or>
    (\<exists>r. provision_run (marker_removable env) pl s = (r, s'\<lparr>pv_marker := None\<rparr>) \<and> ev_fails env WClear \<and> res = Inl (OtherExc ''OSError'') \<and> pv_marker s' \<noteq> None)"
proof (cases "ev_fails env WMarker")
  case True
  with assms show ?thesis by (auto simp: provision_run_def removable_same write_file_def)
next
  case False
  define s1 where "s1 = s\<lparr>pv_marker := Some (marker_text env (pl_host pl) (pv_acl s) (pv_creds s) (sort (pl_new pl)))\<rparr>"
  have wf: "write_file env WMarker (\<lambda>s. s\<lparr>pv_marker := Some (marker_text env (pl_host pl) (pv_acl s) (pv_creds s) (sort (pl_new pl)))\<rparr>) s
      = (Inr (), s1)" using False by (simp add: write_file_def s1_def)
  obtain r w where pf: "(if pl_new pl = [] then (Inr (), pv_bus s1)
      else preflight (ev_conn env) (pl_host pl) (str_creds (pl_creds pl)) (pl_new_roles pl) (pl_admin_pw pl) (pv_bus s1)) = (r, w)"
    by fastforce
  obtain rc s2 where c: "commit env (pl_host pl) (pl_admin_pw pl) (pl_creds0 pl) (pl_creds pl) (pl_acl_after pl)
      (pl_current_roles pl) (s1\<lparr>pv_bus := w\<rparr>) = (rc, s2)" by fastforce
  obtain rb s3 where rb: "rollback env (pv_acl s) (pv_creds s) (pl_admin_pw pl) s2 = (rb, s3)" by fastforce
  have m: "pv_marker (s1\<lparr>pv_bus := w\<rparr>) \<noteq> None" "pv_marker s2 \<noteq> None" "pv_marker s3 \<noteq> None"
    using commit_marker [OF c] rollback_outcome [OF rb] by (simp_all add: s1_def)
  note run = provision_run_def removable_same(1,2) removable_writes removable_steps wf prod.case sum.case pf c rb
  consider x where "r = Inl (AclResidueError x)" | e where "r = Inl e" "\<And>x. e \<noteq> AclResidueError x"
    | u e e' where "r = Inr u" "rc = Inl e" "rb = Inl e'" | u e v where "r = Inr u" "rc = Inl e" "rb = Inr v" | u v where "r = Inr u" "rc = Inr v"
    by (metis sum.exhaust)
  then show ?thesis
  proof cases
    case 1
    from assms show ?thesis unfolding run unfolding 1 by simp
  next
    case 2
    have "provision_run env pl s = clear_then env (Inl e) (s1\<lparr>pv_bus := w\<rparr>)"
        "provision_run (marker_removable env) pl s = clear_then (marker_removable env) (Inl e) (s1\<lparr>pv_bus := w\<rparr>)"
      unfolding run unfolding 2(1) using 2(2) by (cases e; simp)+
    with clear_then_cases [OF _ m(1)] assms show ?thesis by metis
  next
    case 3
    from assms show ?thesis unfolding run unfolding 3 by simp
  next
    case 4
    have "provision_run env pl s = clear_then env (Inl e) s3" "provision_run (marker_removable env) pl s = clear_then (marker_removable env) (Inl e) s3"
      unfolding run unfolding 4 by simp_all
    with clear_then_cases [OF _ m(3)] assms show ?thesis by metis
  next
    case 5
    have "\<exists>r'. provision_run env pl s = clear_then env r' s2 \<and> provision_run (marker_removable env) pl s = clear_then (marker_removable env) r' s2"
      unfolding run unfolding 5 by auto
    with clear_then_cases [OF _ m(2)] assms show ?thesis by metis
  qed
qed

lemma provision_run_outcome:
  assumes "pv_marker s = None" and "provision_run env pl s = (res, s')"
  shows "case res of
      Inl (AclResidueError m) \<Rightarrow> pv_marker s' \<noteq> None
    | Inl e \<Rightarrow> pv_acl s' = pv_acl s \<and> pv_creds s' = pv_creds s \<and> pv_marker s' = None \<or>
        ev_fails env WClear \<and> e = OtherExc ''OSError'' \<and> pv_marker s' \<noteq> None \<and>
        (\<exists>r. provision_run (marker_removable env) pl s = (r, s'\<lparr>pv_marker := None\<rparr>) \<and>
          (case r of Inl e' \<Rightarrow> (\<forall>m. e' \<noteq> AclResidueError m) \<and> pv_acl s' = pv_acl s \<and> pv_creds s' = pv_creds s | Inr _ \<Rightarrow> True))
    | Inr _ \<Rightarrow> pv_marker s' = None"
proof -
  note clears = provision_run_clears [OF assms(1) _ removable_clears]
  from provision_run_removable [OF assms(2)] show ?thesis
  proof (elim disjE exE conjE)
    assume "provision_run (marker_removable env) pl s = (res, s')"
    from clears [OF this] show ?thesis by (auto split: sum.splits acl_exc.splits)
  next
    fix r assume r: "provision_run (marker_removable env) pl s = (r, s'\<lparr>pv_marker := None\<rparr>)" "ev_fails env WClear" "res = Inl (OtherExc ''OSError'')"
      "pv_marker s' \<noteq> None"
    from clears [OF r(1)] have "case r of Inl e' \<Rightarrow> (\<forall>m. e' \<noteq> AclResidueError m) \<and> pv_acl s' = pv_acl s \<and> pv_creds s' = pv_creds s | Inr _ \<Rightarrow> True"
      by (auto split: sum.splits acl_exc.splits)
    with r show ?thesis by auto
  qed
qed

lemma plan_no_residue: "plan_provision env host roles s \<noteq> Inl (AclResidueError m)"
  by (auto simp: plan_provision_def bind_r_eq_Inl validate_host_def validate_declared_roles_def Let_def creds_dict_def
      rules_no_residue current_users_def split: if_splits json.splits option.splits dest!: mapM_r_Inl)

text \<open>
  Servers for the witnesses. On the first, creating a user takes effect but the reply is lost; on the
  second, users cannot be removed; the third refuses a worker everything its selectors do not grant.
\<close>

definition demo_lossy :: "string list connector" where
  "demo_lossy w u pw db c = (case c of
     a # b # x # rest \<Rightarrow> (if a = ''ACL'' \<and> b = ''SETUSER'' then (Inl (OtherRedisError ''Timeout''), x # w) else (Inr RTrue, w))
   | _ \<Rightarrow> (Inr RTrue, w))"

definition demo_sticky :: "string list connector" where
  "demo_sticky w u pw db c = (case c of
     a # b # x # rest \<Rightarrow> (if a = ''ACL'' \<and> b = ''SETUSER'' then (Inr RTrue, x # w) else (Inl (ResponseError ''ERR''), w))
   | _ \<Rightarrow> (Inr RTrue, w))"

definition demo_strict :: "string list connector" where
  "demo_strict w u pw db c = (case c of
     a # k # rest \<Rightarrow> (if u = ''arb-worker-mini'' \<and> \<not> acl_grants (worker_selectors ''mini'') a k
                    then (Inl (NoPermission ''NOPERM''), w) else (Inr RTrue, w))
   | _ \<Rightarrow> (Inr RTrue, w))"

definition demo_env :: "string list connector \<Rightarrow> string list acl_env" where
  "demo_env conn = \<lparr>ev_conn = conn, ev_sha = (\<lambda>x. ''h''), ev_fresh = (\<lambda>u. ''p''), ev_fails = (\<lambda>_. False),
     ev_acl_path = ''users.acl'', ev_creds_path = ''credentials.json''\<rparr>"

definition demo_host :: "string list acl_host" where
  "demo_host = \<lparr>pv_acl = ''user arb-admin on'', pv_creds = json_dumps json_default (JObj [(''arb-admin'', JStr ''pw'')]),
     pv_marker = None, pv_bus = []\<rparr>"

text \<open>The plan for adding a Claude orchestrator to that host; the rules stay symbolic.\<close>

definition demo_args :: "string list" where
  "demo_args = acl_base 12 [] @ map selector (orchestrator_selectors ''claude-orch-mini*'')"

definition demo_plan :: acl_plan where
  "demo_plan = \<lparr>pl_host = ''mini'', pl_admin_pw = ''pw'', pl_creds0 = [(''arb-admin'', JStr ''pw'')],
     pl_creds = [(''arb-admin'', JStr ''pw''), (''claude-orch-mini'', JStr ''p'')], pl_new = [''claude-orch-mini''],
     pl_current = [''claude-orch-mini''], pl_new_roles = [''claude''], pl_current_roles = [''claude''],
     pl_acl_after = join [CHR 0x0A] [''user arb-admin on'', acl_line (\<lambda>x. ''h'') ''claude-orch-mini'' ''p'' (join '' '' demo_args)]
       @ [CHR 0x0A]\<rparr>"

lemma mini_names:
  "HOST_RE ''mini''" "validate_host ''mini'' = Inr ''mini''" "role_username ''claude'' ''mini'' = Inr ''claude-orch-mini''"
  "role_username ''codex'' ''mini'' = Inr ''codex-orch-mini''" "role_username ''pi'' ''mini'' = Inr ''pi-orch-mini''"
  "role_username ''worker'' ''mini'' = Inr ''arb-worker-mini''" "py_splitlines ''user arb-admin on'' = [''user arb-admin on'']"
  "line_user ''user arb-admin on'' = Some ''arb-admin''"
  "validate_declared_roles (JArr [JStr ''claude'']) = Inr [''claude'']" "validate_declared_roles (roles_json [''claude'']) = Inr [''claude'']"
  "validate_declared_roles (roles_json ROLE_NAMES) = Inr [''claude'', ''codex'', ''pi'', ''worker'']"
  by code_simp+

lemma mini_rules:
  "role_rule_args ''mini'' [''claude''] = Inr [(''claude-orch-mini'', demo_args)]"
  "role_rules ''mini'' [''claude''] = Inr [(''claude-orch-mini'', join '' '' demo_args)]"
  "\<exists>a b c d. role_rules ''mini'' ROLE_NAMES = Inr [(''claude-orch-mini'', a), (''codex-orch-mini'', b), (''pi-orch-mini'', c), (''arb-worker-mini'', d)]"
  by (simp_all add: role_rules_def role_rule_args_def mini_names role_args_def orchestrator_rule_args_def worker_rule_args_def
      ENGINES_def demo_args_def)

lemma demo_creds: "creds_dict (pv_creds demo_host) = Inr ([(''arb-admin'', JStr ''pw'')], ''pw'')"
  using json_loads_dumps [of json_default "JObj [(''arb-admin'', JStr ''pw'')]"]
  by (simp add: creds_dict_def demo_host_def style_ok_def json_default_def json_norm_def)

lemma demo_plan: "plan_provision (demo_env conn) ''mini'' (JArr [JStr ''claude'']) demo_host = Inr demo_plan"
proof -
  obtain a b c d where all: "role_rules ''mini'' ROLE_NAMES
      = Inr [(''claude-orch-mini'', a), (''codex-orch-mini'', b), (''pi-orch-mini'', c), (''arb-worker-mini'', d)]"
    using mini_rules(3) by blast
  have host: "pv_acl demo_host = ''user arb-admin on''" "pv_marker demo_host = None" by (simp_all add: demo_host_def)
  have env: "ev_sha (demo_env conn) = (\<lambda>x. ''h'')" "ev_fresh (demo_env conn) = (\<lambda>u. ''p'')" by (simp_all add: demo_env_def)
  have roles: "roles_of ''mini'' [''claude-orch-mini''] = [''claude'']"
    by (simp add: roles_of_def ROLE_NAMES_def ENGINES_def mini_names)
  have cur: "current_users sha [(''arb-admin'', JStr ''pw'')] [''user arb-admin on'']
      [(''claude-orch-mini'', a), (''codex-orch-mini'', b), (''pi-orch-mini'', c), (''arb-worker-mini'', d)] = Inr []" for sha
    by (simp add: current_users_def line_by_user_def mini_names dget_def)
  show ?thesis unfolding plan_provision_def mini_names(2,9) bind_r_Inr host demo_creds prod.case all mini_rules(2) mini_names(7) Let_def cur env
    by (simp add: new_users_def demo_plan_def roles del: join.simps)
qed

text \<open>A server that answers every probe the way the verification asks.\<close>

definition demo_good :: "string list connector" where
  "demo_good w u pw db c =
    (if u = ''arb-admin'' then (Inr RTrue, w)
     else if db \<noteq> 12 then (Inl (NoPermission ''NOPERM''), w)
     else (case c of
       [a] \<Rightarrow> (Inr RTrue, w)
     | a # k # rest \<Rightarrow>
        (if a \<in> {''KEYS'', ''SCAN'', ''CONFIG''} \<or> k \<in> {''agent_scratch:agent:foreign-host-acl-proof:inbox'', ''arbmem:writes'',
              ''agent_scratch:secrets:private:foreign-host:value''}
         then (Inl (NoPermission ''NOPERM''), w)
         else (Inr (if a = ''BLPOP'' then RList [k, ''probe''] else if a = ''GET'' then RStr ''pubkey'' else RInt 1), w))
     | _ \<Rightarrow> (Inr RTrue, w)))"

lemma demo_good_verify:
  "verify demo_good ''arb-admin'' ''pw'' ''mini'' [(''arb-admin'', ''pw''), (''claude-orch-mini'', ''p'')] [''claude''] w = (Inr (), w)"
  by (simp add: verify_def bind_m_def lift_m_def mini_names mini_rules verify_user_def verify_secret_def credential_def
      allowed_def denied_def demo_good_def ret_m_def when_m_def popped_probe_def raw_command_def proof_keys_def py_startswith_def Let_def)

lemma demo_good_admin: "demo_good w ''arb-admin'' pw db c = (Inr RTrue, w)"
  by (simp add: demo_good_def)

lemma demo_good_preflight:
  "preflight demo_good ''mini'' [(''arb-admin'', ''pw''), (''claude-orch-mini'', ''p'')] [''claude''] ''pw'' w = (Inr (), w)"
  by (simp add: preflight_def mini_rules credential_def demo_good_admin demo_good_verify ret_m_def)

lemma demo_good_commit:
  "\<exists>s'. commit (demo_env demo_good) ''mini'' ''pw'' [(''arb-admin'', JStr ''pw'')] (pl_creds demo_plan) acl [''claude''] s = (Inr (), s')"
  by (simp add: commit_def demo_env_def write_file_def acl_load_def demo_good_admin demo_good_verify str_creds_def demo_plan_def Let_def)

lemma demo_good_run:
  "\<exists>h. provision (demo_env demo_good) ''mini'' (JArr [JStr ''claude'']) demo_host = (Inr [(''claude-orch-mini'', ''p'')], h)"
proof -
  define s1 where "s1 = demo_host\<lparr>pv_marker := Some (marker_text (demo_env demo_good) ''mini'' (pv_acl demo_host) (pv_creds demo_host) [''claude-orch-mini''])\<rparr>"
  obtain s2 where c: "commit (demo_env demo_good) ''mini'' ''pw'' [(''arb-admin'', JStr ''pw'')] (pl_creds demo_plan) (pl_acl_after demo_plan)
      [''claude''] s1 = (Inr (), s2)" using demo_good_commit by blast
  have pl: "str_creds (pl_creds demo_plan) = [(''arb-admin'', ''pw''), (''claude-orch-mini'', ''p'')]"
    "pl_host demo_plan = ''mini''" "pl_new demo_plan = [''claude-orch-mini'']" "pl_new_roles demo_plan = [''claude'']"
    "pl_admin_pw demo_plan = ''pw''" "pl_creds0 demo_plan = [(''arb-admin'', JStr ''pw'')]" "pl_current_roles demo_plan = [''claude'']"
    "pl_current demo_plan = [''claude-orch-mini'']"
    by (simp_all add: demo_plan_def str_creds_def)
  have w: "write_file (demo_env demo_good) WMarker (\<lambda>s. s\<lparr>pv_marker := Some (marker_text (demo_env demo_good) ''mini'' (pv_acl s) (pv_creds s)
      (sort [''claude-orch-mini'']))\<rparr>) demo_host = (Inr (), s1)"
    by (simp add: write_file_def demo_env_def s1_def)
  have conn: "ev_conn (demo_env demo_good) = demo_good" by (simp add: demo_env_def)
  have bus: "s1\<lparr>pv_bus := pv_bus s1\<rparr> = s1" by simp
  have clears: "\<not> ev_fails (demo_env demo_good) WClear" by (simp add: demo_env_def)
  show ?thesis unfolding provision_def demo_plan sum.case provision_run_def pl w prod.case conn demo_good_preflight
    by (simp add: c clear_then_ok [of "demo_env demo_good", OF clears])
qed

lemma demo_lossy_run:
  "provision (demo_env demo_lossy) ''mini'' (JArr [JStr ''claude'']) demo_host
    = (Inl (RawRedis (OtherRedisError ''Timeout'')), demo_host\<lparr>pv_bus := [''claude-orch-mini'']\<rparr>)"
  unfolding provision_def demo_plan
  by (simp add: provision_run_def write_file_def demo_plan_def demo_env_def preflight_def mini_rules credential_def str_creds_def
      demo_lossy_def ret_m_def clear_then_def clear_marker_def demo_host_def)

lemma demo_sticky_run:
  "\<exists>m s'. provision (demo_env demo_sticky) ''mini'' (JArr [JStr ''claude'']) demo_host = (Inl (AclResidueError m), s') \<and>
     pv_marker s' \<noteq> None"
proof -
  have "\<exists>w m. preflight demo_sticky ''mini'' (str_creds (pl_creds demo_plan)) [''claude''] ''pw'' [] = (Inl (AclResidueError m), w)"
    by (simp add: preflight_def mini_rules credential_def str_creds_def demo_sticky_def demo_plan_def case_prod_unfold)
  then show ?thesis unfolding provision_def demo_plan
    by (auto simp: provision_run_def write_file_def demo_plan_def demo_env_def demo_host_def)
qed

section \<open>Properties\<close>

text \<open>C26: Provisioning is a transaction, up to the removal of the marker. Whatever the server answers and whichever file writes fail: a residue error leaves
  the in-flight marker in place; a success leaves no marker; any other failure leaves both files byte for byte and the marker as they were, except when
  the last step, removing the marker, is what fails. Then the error is that of the removal and the marker is still there, which blocks the next provision, while
  everything else is as if the marker had been removed: a successful commit stands, and after a failure both files are restored.\<close>

theorem provision_transaction:
  assumes "provision env host roles s = (res, s')"
  shows "case res of
      Inl (AclResidueError m) \<Rightarrow> pv_marker s = None \<and> pv_marker s' \<noteq> None
    | Inl e \<Rightarrow> pv_acl s' = pv_acl s \<and> pv_creds s' = pv_creds s \<and> pv_marker s' = pv_marker s \<or>
        ev_fails env WClear \<and> e = OtherExc ''OSError'' \<and> pv_marker s = None \<and> pv_marker s' \<noteq> None \<and>
        (\<exists>r. provision (env\<lparr>ev_fails := (ev_fails env)(WClear := False)\<rparr>) host roles s = (r, s'\<lparr>pv_marker := None\<rparr>) \<and>
          (case r of Inl e' \<Rightarrow> (\<forall>m. e' \<noteq> AclResidueError m) \<and> pv_acl s' = pv_acl s \<and> pv_creds s' = pv_creds s | Inr _ \<Rightarrow> True))
    | Inr _ \<Rightarrow> pv_marker s = None \<and> pv_marker s' = None"
proof (cases "plan_provision env host roles s")
  case (Inl e)
  with plan_no_residue [of env host roles s] assms show ?thesis by (cases e) (auto simp: provision_def)
next
  case (Inr pl)
  then have pl: "plan_provision (marker_removable env) host roles s = Inr pl" by (simp add: removable_same)
  have run: "provision env host roles s = provision_run env pl s" "provision (marker_removable env) host roles s = provision_run (marker_removable env) pl s"
    using Inr pl by (simp_all add: provision_def)
  note none = plan_marker [OF Inr]
  have "provision_run env pl s = (res, s')" using run assms by simp
  note out = provision_run_outcome [OF none this]
  show ?thesis unfolding marker_removable_def [symmetric] run none using out
    by (cases res rule: sum.exhaust) (simp_all split: acl_exc.splits)
qed

theorem provision_transaction_witness:
  "\<exists>s'. provision (demo_env demo_lossy) ''mini'' (JArr [JStr ''claude'']) demo_host
      = (Inl (RawRedis (OtherRedisError ''Timeout'')), s') \<and>
     pv_acl s' = pv_acl demo_host \<and> pv_creds s' = pv_creds demo_host \<and> pv_marker s' = None"
proof -
  have "pv_marker demo_host = None" by (simp add: demo_host_def)
  with provision_transaction [OF demo_lossy_run] demo_lossy_run show ?thesis by auto
qed

text \<open>A residue blocks provisioning. After a provision that raised a residue error, every further provision is
  refused and changes nothing, for any host, roles, server and file behaviour, until the marker is
  removed by hand.\<close>

theorem residue_blocks_provisioning:
  assumes "provision env host roles s = (Inl (AclResidueError m), s')"
  shows "\<exists>e. provision env2 host2 roles2 s' = (Inl e, s') \<and> (\<forall>m. e \<noteq> AclResidueError m)"
proof -
  from assms obtain pl where pl: "plan_provision env host roles s = Inr pl"
    using plan_no_residue [of env host roles s m] by (auto simp: provision_def split: sum.splits)
  with assms provision_run_outcome [OF plan_marker [OF pl], of env pl "Inl (AclResidueError m)" s']
  have "pv_marker s' \<noteq> None" by (simp add: provision_def)
  then obtain e where e: "plan_provision env2 host2 roles2 s' = Inl e"
    using plan_marker [of env2 host2 roles2 s'] by (cases "plan_provision env2 host2 roles2 s'") auto
  with plan_no_residue [of env2 host2 roles2 s'] show ?thesis by (simp add: provision_def)
qed

theorem residue_blocks_provisioning_witness:
  "\<exists>s' e. provision (demo_env demo_lossy) ''mini'' (JArr [JStr ''claude'']) s' = (Inl e, s') \<and> pv_marker s' \<noteq> pv_marker demo_host"
proof -
  obtain m s' where run: "provision (demo_env demo_sticky) ''mini'' (JArr [JStr ''claude'']) demo_host = (Inl (AclResidueError m), s')"
    and "pv_marker s' \<noteq> None" using demo_sticky_run by blast
  moreover have "pv_marker demo_host = None" by (simp add: demo_host_def)
  ultimately have "pv_marker s' \<noteq> pv_marker demo_host" by simp
  with residue_blocks_provisioning [OF run, of "demo_env demo_lossy" "''mini''" "JArr [JStr ''claude'']"]
  show ?thesis by blast
qed

section \<open>What a worker credential can and cannot do\<close>

lemma worker_grants_scratch:
  assumes "CHR ''*'' \<notin> set h" and "acl_grants (worker_selectors h) c k"
  shows "\<exists>k'. k = ''agent_scratch:'' @ k'"
  using assms
  by (auto simp: acl_grants_def worker_selectors_def task_selectors_def Let_def star_match_lit)

lemma allowed_NoPermission:
  "fst (conn w u pw db c) = Inl (NoPermission m) \<Longrightarrow> allowed conn u pw db c w \<noteq> (Inr r, w')"
  by (auto simp: allowed_def split: prod.splits)

lemma worker_not_verified:
  assumes "acl_enforced conn h" and "CHR ''*'' \<notin> set h"
  shows "verify_user conn h creds (''arb-worker-'' @ h) w \<noteq> (Inr r, w')"
proof
  assume ok: "verify_user conn h creds (''arb-worker-'' @ h) w = (Inr r, w')"
  let ?k = "''arbmem:audit:run:bus-reg-'' @ h @ ''-'' @ (''arb-worker-'' @ h) @ '':seq''"
  have "\<not> acl_grants (worker_selectors h) ''INCRBY'' ?k"
    using worker_grants_scratch [OF assms(2), of "''INCRBY''" ?k] by auto
  then have no: "\<exists>m. fst (conn v (''arb-worker-'' @ h) pw 12 [''INCRBY'', ?k, ''1'']) = Inl (NoPermission m)" for v pw
    using assms(1) unfolding acl_enforced_def by blast
  from ok obtain pw v n v' where "allowed conn (''arb-worker-'' @ h) pw 12 [''INCRBY'', ?k, ''1''] v = (Inr n, v')"
    unfolding verify_user_def Let_def bind_m_Inr by blast
  moreover obtain m where "fst (conn v (''arb-worker-'' @ h) pw 12 [''INCRBY'', ?k, ''1'']) = Inl (NoPermission m)"
    using no by blast
  ultimately show False using allowed_NoPermission by metis
qed

lemma validate_host_id:
  assumes "HOST_RE h"
  shows "validate_host h = Inr h" and "CHR ''*'' \<notin> set h"
proof -
  have la: "\<not> py_isspace c" "py_lower_char c = c" "c \<noteq> CHR ''*''" if "lower_alnum c" for c
    using that by (auto simp: lower_alnum_def is_digit_def py_isspace_def py_lower_char_def Let_def)
  from assms have h: "h \<noteq> []" "lower_alnum (hd h)" "lower_alnum (last h)" "\<forall>c \<in> set h. lower_alnum c \<or> c = CHR ''-''"
    by (auto simp: HOST_RE_def list_all_iff)
  have "dropWhile py_isspace h = h" using h(1,2) la(1) by (cases h) auto
  moreover have "dropWhile py_isspace (rev h) = rev h" using h(1,3) la(1) by (cases "rev h") (auto simp: last_rev hd_rev [symmetric] dest: arg_cong [where f = rev])
  ultimately have "py_strip h = h" by (simp add: py_strip_def)
  moreover have "py_lower h = h" using h(4) la(2) by (auto simp: py_lower_def py_lower_char_def intro!: map_idI)
  ultimately show "validate_host h = Inr h" using assms by (simp add: validate_host_def)
  show "CHR ''*'' \<notin> set h" using h(4) la(3) by auto
qed

lemma validate_host_Inr: "validate_host host = Inr h \<Longrightarrow> HOST_RE h"
  by (auto simp: validate_host_def Let_def split: if_splits)

lemma mapM_r_Inr:
  assumes "mapM_r f xs = Inr ys" and "x \<in> set xs"
  shows "\<exists>y \<in> set ys. f x = Inr y"
  using assms by (induction xs arbitrary: ys) auto

lemma worker_username: "HOST_RE h \<Longrightarrow> role_username ''worker'' h = Inr (''arb-worker-'' @ h)"
  by (simp add: role_username_def validate_host_id ROLE_NAMES_def ENGINES_def)

lemma worker_in_rules:
  assumes "HOST_RE h" and "role_rules h roles = Inr rules" and "''worker'' \<in> set roles"
  shows "''arb-worker-'' @ h \<in> fst ` set rules"
proof -
  from assms(2) obtain ra declared where ra: "rules = map (\<lambda>(u, a). (u, join '' '' a)) ra"
    "validate_declared_roles (roles_json roles) = Inr declared"
    "mapM_r (\<lambda>role. bind_r (role_username role h) (\<lambda>u. bind_r (role_args role h) (\<lambda>a. Inr (u, a)))) declared = Inr ra"
    by (auto simp: role_rules_def role_rule_args_def validate_host_id [OF assms(1)])
  have "''worker'' \<in> set declared" using ra(2) assms(3)
    by (auto simp: validate_declared_roles_def roles_json_def ROLE_NAMES_def split: if_splits)
  from mapM_r_Inr [OF ra(3) this] obtain a where "(''arb-worker-'' @ h, a) \<in> set ra"
    by (auto simp: worker_username [OF assms(1)])
  then show ?thesis unfolding ra(1) by force
qed

lemma worker_verify_fails:
  assumes "acl_enforced conn h" and "HOST_RE h" and "''worker'' \<in> set roles"
  shows "verify conn au apw h creds roles w \<noteq> (Inr u, w')"
proof
  assume "verify conn au apw h creds roles w = (Inr u, w')"
  then obtain rules proofs w1 w2 where r: "role_rules h roles = Inr rules"
    and "for_m (sort (map fst rules)) (verify_user conn h creds) w1 = (Inr proofs, w2)"
    unfolding verify_def Let_def bind_m_Inr by (auto simp: lift_m_def validate_host_id [OF assms(2)])
  moreover have "''arb-worker-'' @ h \<in> set (sort (map fst rules))" using worker_in_rules [OF assms(2) r assms(3)] by simp
  ultimately obtain v y v' where "verify_user conn h creds (''arb-worker-'' @ h) v = (Inr y, v')"
    using for_m_Inr by metis
  with worker_not_verified [OF assms(1) validate_host_id(2) [OF assms(2)]] show False by blast
qed

lemma plan_worker:
  assumes "plan_provision env host0 roles s = Inr pl" and "validate_host host0 = Inr h"
    and "validate_declared_roles roles = Inr declared" and "''worker'' \<in> set declared"
  shows "pl_host pl = h" and "''worker'' \<in> set (pl_current_roles pl)"
proof -
  have h: "HOST_RE h" using assms(2) by (rule validate_host_Inr)
  from assms(1-3) obtain creds0 pw all req existing where p: "role_rules h declared = Inr req"
    "pl_host pl = h" "pl_current_roles pl = roles_of h (existing @ map fst (new_users existing req))"
    by (auto simp: plan_provision_def Let_def)
  show "pl_host pl = h" by (rule p(2))
  have "''arb-worker-'' @ h \<in> set (existing @ map fst (new_users existing req))"
    using worker_in_rules [OF h p(1) assms(4)] by (force simp: new_users_def)
  then show "''worker'' \<in> set (pl_current_roles pl)"
    unfolding p(3) roles_of_def by (simp add: worker_username [OF h] ROLE_NAMES_def)
qed

lemma commit_Inr:
  assumes "commit env host pw d0 d acl roles s = (Inr u, s')"
  shows "\<exists>w w'. verify (ev_conn env) ''arb-admin'' pw host (str_creds d) roles w = (Inr u, w')"
  using assms
  by (auto simp: commit_def Let_def write_file_def split: prod.splits sum.splits if_splits)

lemma provision_run_Inr:
  assumes "provision_run env pl s = (Inr x, s')"
  shows "\<exists>s1 u s2. commit env (pl_host pl) (pl_admin_pw pl) (pl_creds0 pl) (pl_creds pl) (pl_acl_after pl)
    (pl_current_roles pl) s1 = (Inr u, s2)"
  using assms unfolding provision_run_def
  by (auto split: prod.splits sum.splits acl_exc.splits dest!: clear_then_Inr)

section \<open>The users a provision returns\<close>

definition uname :: "string \<Rightarrow> string \<Rightarrow> string" where
  "uname h role = (if role = ''worker'' then ''arb-worker-'' @ h else role @ ''-orch-'' @ h)"

lemma role_username_uname: "HOST_RE h \<Longrightarrow> role \<in> set ROLE_NAMES \<Longrightarrow> role_username role h = Inr (uname h role)"
  by (simp add: role_username_def validate_host_id uname_def)

lemma declared_roles:
  assumes "validate_declared_roles v = Inr ds"
  shows "set ds \<subseteq> set ROLE_NAMES" "distinct ds"
  using assms by (auto simp: validate_declared_roles_def ROLE_NAMES_def ENGINES_def split: json.splits if_splits)

lemma mapM_r_map: "mapM_r f xs = Inr ys \<Longrightarrow> (\<And>x y. x \<in> set xs \<Longrightarrow> f x = Inr y \<Longrightarrow> g y = k x) \<Longrightarrow> map g ys = map k xs"
  by (induction xs arbitrary: ys) auto

lemma role_rules_names:
  assumes "HOST_RE h" and "role_rules h roles = Inr rules"
  shows "\<exists>ds. set ds \<subseteq> set ROLE_NAMES \<and> distinct ds \<and> map fst rules = map (uname h) ds"
proof -
  from assms(2) obtain ra ds where ra: "rules = map (\<lambda>(u, a). (u, join '' '' a)) ra"
    "validate_declared_roles (roles_json roles) = Inr ds"
    "mapM_r (\<lambda>role. bind_r (role_username role h) (\<lambda>u. bind_r (role_args role h) (\<lambda>a. Inr (u, a)))) ds = Inr ra"
    by (auto simp: role_rules_def role_rule_args_def validate_host_id [OF assms(1)])
  note ds = declared_roles [OF ra(2)]
  have "map fst ra = map (uname h) ds"
    by (rule mapM_r_map [OF ra(3)]) (use ds role_username_uname [OF assms(1)] in auto)
  moreover have "map fst rules = map fst ra" unfolding ra(1) by auto
  ultimately show ?thesis using ds by auto
qed

lemma uname_inj: "set ds \<subseteq> set ROLE_NAMES \<Longrightarrow> distinct ds \<Longrightarrow> distinct (map (uname h) ds)"
  by (auto simp: distinct_map inj_on_def uname_def ROLE_NAMES_def ENGINES_def dest!: subsetD)

lemma current_users_sublist:
  assumes "current_users sha d lines rules = Inr us" and "distinct (map fst rules)"
  shows "distinct us \<and> set us \<subseteq> set (map fst rules)"
proof -
  from assms(1) obtain uss where uss: "us = concat uss"
    "mapM_r (\<lambda>(u, r). let pw = dget d u; existing = line_by_user lines u in
      if pw = JNull \<and> existing = None then Inr []
      else (case (pw, existing) of
              (JStr p, Some l) \<Rightarrow>
                (if l = acl_line sha u p r then Inr [u] else Inl (AclProvisionError (''existing ACL identity differs: '' @ u)))
            | _ \<Rightarrow> Inl (AclProvisionError (''existing ACL identity is incomplete: '' @ u)))) rules = Inr uss"
    by (auto simp: current_users_def)
  from uss(2) assms(2) have "distinct (concat uss) \<and> set (concat uss) \<subseteq> set (map fst rules)"
  proof (induction rules arbitrary: uss)
    case (Cons ur rules)
    obtain u r where ur: "ur = (u, r)" by fastforce
    from Cons.prems(1) ur obtain x xs where x: "uss = x # xs" "x = [] \<or> x = [u]"
      and rest: "mapM_r (\<lambda>(u, r). let pw = dget d u; existing = line_by_user lines u in
      if pw = JNull \<and> existing = None then Inr []
      else (case (pw, existing) of
              (JStr p, Some l) \<Rightarrow>
                (if l = acl_line sha u p r then Inr [u] else Inl (AclProvisionError (''existing ACL identity differs: '' @ u)))
            | _ \<Rightarrow> Inl (AclProvisionError (''existing ACL identity is incomplete: '' @ u)))) rules = Inr xs"
      by (auto simp: Let_def split: if_splits json.splits option.splits)
    have ih: "distinct (concat xs)" "set (concat xs) \<subseteq> set (map fst rules)" using Cons.IH [OF rest] Cons.prems(2) by auto
    then have "u \<notin> set (concat xs)" using Cons.prems(2) ur by auto
    with ih x ur show ?case by auto
  qed simp
  with uss(1) show ?thesis by simp
qed

lemma plan_current_distinct:
  assumes "plan_provision env host roles s = Inr pl"
  shows "distinct (pl_current pl)"
proof -
  from assms obtain h ds creds0 all req existing where p: "validate_host host = Inr h"
    "role_rules h ROLE_NAMES = Inr all" "role_rules h ds = Inr req"
    "current_users (ev_sha env) creds0 (py_splitlines (pv_acl s)) all = Inr existing"
    "pl_current pl = existing @ map fst (new_users existing req)"
    by (auto simp: plan_provision_def Let_def)
  have h: "HOST_RE h" using p(1) by (rule validate_host_Inr)
  from role_rules_names [OF h p(2)] uname_inj have "distinct (map fst all)" by metis
  with current_users_sublist [OF p(4)] have "distinct existing" by blast
  moreover from role_rules_names [OF h p(3)] uname_inj have "distinct (map fst req)" by metis
  then have "distinct (map fst (new_users existing req))" unfolding new_users_def by (rule distinct_map_filter)
  moreover have "set existing \<inter> set (map fst (new_users existing req)) = {}" by (auto simp: new_users_def)
  ultimately show ?thesis unfolding p(5) by auto
qed

lemma provision_users_distinct:
  assumes "provision env host roles s = (Inr creds, s')"
  shows "distinct (map fst creds)"
proof -
  from assms obtain pl where pl: "plan_provision env host roles s = Inr pl" "provision_run env pl s = (Inr creds, s')"
    by (auto simp: provision_def split: sum.splits)
  let ?look = "\<lambda>u. case map_of (str_creds (pl_creds pl)) u of Some p \<Rightarrow> [(u, p)] | None \<Rightarrow> []"
  have c: "creds = concat (map ?look (sort (pl_current pl)))"
    using pl(2) unfolding provision_run_def by (auto split: prod.splits sum.splits acl_exc.splits dest!: clear_then_Inr)
  have "distinct (map fst (concat (map ?look us))) \<and> set (map fst (concat (map ?look us))) \<subseteq> set us" if "distinct us" for us
    using that by (induction us) (auto split: option.splits)
  from this [of "sort (pl_current pl)"] plan_current_distinct [OF pl(1)] show ?thesis unfolding c by simp
qed

text \<open>A worker credential can never be provisioned. The live proof requires every identity, a worker's too, to
  increment an audit sequence under \<open>arbmem:audit:run:\<close>, while the generated worker rules grant nothing
  outside \<open>agent_scratch:\<close>. On a server that enforces the generated rules, no call of \<open>provision\<close> whose
  roles include \<open>worker\<close> returns credentials.\<close>

theorem worker_never_provisioned:
  assumes "validate_host host0 = Inr h" and "validate_declared_roles roles = Inr declared"
    and "''worker'' \<in> set declared" and "acl_enforced (ev_conn env) h"
  shows "\<exists>e. fst (provision env host0 roles s) = Inl e"
proof (cases "plan_provision env host0 roles s")
  case (Inl e)
  then show ?thesis by (simp add: provision_def)
next
  case (Inr pl)
  note pl = plan_worker [OF Inr assms(1-3)]
  have "commit env (pl_host pl) pw d0 d acl (pl_current_roles pl) s1 \<noteq> (Inr u, s2)" for pw d0 d acl s1 u s2
  proof
    assume "commit env (pl_host pl) pw d0 d acl (pl_current_roles pl) s1 = (Inr u, s2)"
    from commit_Inr [OF this] worker_verify_fails [OF assms(4) validate_host_Inr [OF assms(1)] pl(2)]
    show False unfolding pl(1) by blast
  qed
  then have "provision_run env pl s \<noteq> (Inr x, s')" for x s'
    using provision_run_Inr [of env pl s] by blast
  then have "fst (provision_run env pl s) \<noteq> Inr x" for x by (cases "provision_run env pl s") auto
  with Inr show ?thesis by (cases "fst (provision_run env pl s)") (auto simp: provision_def)
qed

theorem worker_never_provisioned_witness:
  "\<exists>e. fst (provision (demo_env demo_strict) ''mini'' (JArr [JStr ''worker'']) demo_host) = Inl e"
proof -
  have "validate_host ''mini'' = Inr ''mini''" "validate_declared_roles (JArr [JStr ''worker'']) = Inr [''worker'']" by code_simp+
  moreover have "acl_enforced (ev_conn (demo_env demo_strict)) ''mini''"
    by (simp add: acl_enforced_def demo_env_def demo_strict_def)
  ultimately show ?thesis
    using worker_never_provisioned [of "''mini''" "''mini''" "JArr [JStr ''worker'']" "[''worker'']" "demo_env demo_strict" demo_host]
    by simp
qed

text \<open>Which inboxes a host's worker credential can consume. The worker credential of a host may pop from the
  inbox of a seat \<open>worker-<host2>-<name>\<close> exactly when that identity continues the first host's prefix:
  disjoint host names are isolated, but the credential of host \<open>mini\<close> also reaches every seat of a host
  called \<open>mini-dev\<close>.\<close>

theorem worker_inbox_isolation:
  assumes "HOST_RE h1"
  shows "acl_grants (worker_selectors h1) ''BLPOP'' (''agent_scratch:agent:worker-'' @ h2 @ ''-'' @ name @ '':inbox'')
    \<longleftrightarrow> (\<exists>x. h2 @ ''-'' @ name = h1 @ ''-'' @ x)"
proof -
  let ?tail = "h2 @ ''-'' @ name @ '':inbox''"
  have low: "py_lower ''BLPOP'' = ''blpop''" by code_simp
  have suffix: "star_match ''*:inbox'' k \<longleftrightarrow> (\<exists>a. k = a @ '':inbox'')" for k
    by (auto simp: star_match_star star_match_all)
  have inbox: "star_match (h1 @ ''-*:inbox'') ?tail \<longleftrightarrow> (\<exists>x. h2 @ ''-'' @ name = h1 @ ''-'' @ x)"
  proof -
    have "star_match ((h1 @ ''-'') @ (''*:inbox'')) ?tail \<longleftrightarrow> (\<exists>k'. ?tail = (h1 @ ''-'') @ k' \<and> star_match ''*:inbox'' k')"
      by (rule star_match_prefix) (use validate_host_id(2) [OF assms] in auto)
    also have "\<dots> \<longleftrightarrow> (\<exists>x. ?tail = (h1 @ ''-'') @ x @ '':inbox'')"
      unfolding suffix by blast
    also have "\<dots> \<longleftrightarrow> (\<exists>x. (h2 @ ''-'' @ name) @ '':inbox'' = (h1 @ ''-'' @ x) @ '':inbox'')"
      by (simp only: append.assoc)
    also have "\<dots> \<longleftrightarrow> (\<exists>x. h2 @ ''-'' @ name = h1 @ ''-'' @ x)"
      by (simp only: append_same_eq)
    finally show ?thesis by (simp only: append.assoc) simp
  qed
  have proc: "\<not> star_match (h1 @ ''-*:processing'') ?tail"
  proof
    assume "star_match (h1 @ ''-*:processing'') ?tail"
    then have "star_match ((h1 @ ''-'') @ (''*:processing'')) ?tail" by simp
    then obtain a where "?tail = (h1 @ ''-'') @ a @ '':processing''"
      using star_match_prefix [of "h1 @ ''-''" "''*:processing''" ?tail] validate_host_id(2) [OF assms]
      by (auto simp: star_match_star star_match_all)
    then have "last ?tail = last ((h1 @ ''-'') @ a @ '':processing'')" by simp
    then show False by simp
  qed
  have own: "acl_grants (worker_selectors h1) ''BLPOP'' (''agent_scratch:agent:worker-'' @ ?tail)
      \<longleftrightarrow> star_match (h1 @ ''-*:inbox'') ?tail \<or> star_match (h1 @ ''-*:processing'') ?tail"
    by (simp add: acl_grants_def worker_selectors_def task_selectors_def Let_def low star_match_lit)
  show ?thesis using own inbox proc by simp
qed

theorem worker_inbox_isolation_witness:
  "acl_grants (worker_selectors ''mini'') ''BLPOP'' ''agent_scratch:agent:worker-mini-dev-pi:inbox'' \<and>
   \<not> acl_grants (worker_selectors ''mini'') ''BLPOP'' ''agent_scratch:agent:worker-host-b-pi:inbox''"
proof -
  have re: "HOST_RE ''mini''" by code_simp
  show ?thesis
    using worker_inbox_isolation [OF re, of "''mini-dev''" "''pi''"] worker_inbox_isolation [OF re, of "''host-b''" "''pi''"] by simp
qed

text \<open>A \<open>SETUSER\<close> that raises clears the marker without a clean-up. When creating the first candidate raises a
  connection error, provisioning fails, the in-flight marker is gone and no \<open>DELUSER\<close> is sent: the
  server is left in the state after the failed call, also when it had already applied the command.\<close>

theorem failed_setuser_clears_marker:
  assumes "plan_provision env host roles s = Inr pl" and "pl_new pl \<noteq> []" and "\<not> ev_fails env WMarker \<and> \<not> ev_fails env WClear"
    and "role_rule_args (pl_host pl) (pl_new_roles pl) = Inr ra" and "sort_key fst ra = (u, args) # others"
    and "map_of (str_creds (pl_creds pl)) u = Some pw"
    and "ev_conn env (pv_bus s) ''arb-admin'' (pl_admin_pw pl) 0 ([''ACL'', ''SETUSER'', u, ''on'', CHR ''>'' # pw] @ args)
      = (Inl (OtherRedisError m), w)"
  shows "provision env host roles s = (Inl (RawRedis (OtherRedisError m)), s\<lparr>pv_marker := None, pv_bus := w\<rparr>)"
proof -
  have "preflight (ev_conn env) (pl_host pl) (str_creds (pl_creds pl)) (pl_new_roles pl) (pl_admin_pw pl) (pv_bus s)
      = (Inl (RawRedis (OtherRedisError m)), w)"
    using assms(4-7) by (simp add: preflight_def credential_def ret_m_def)
  with assms(1-3) show ?thesis
    by (simp add: provision_def provision_run_def write_file_def clear_then_ok)
qed

theorem failed_setuser_clears_marker_witness:
  "provision (demo_env demo_lossy) ''mini'' (JArr [JStr ''claude'']) demo_host
    = (Inl (RawRedis (OtherRedisError ''Timeout'')), demo_host\<lparr>pv_marker := None, pv_bus := [''claude-orch-mini'']\<rparr>)"
proof -
  have "role_rule_args (pl_host demo_plan) (pl_new_roles demo_plan) = Inr [(''claude-orch-mini'', demo_args)]"
    by (simp add: demo_plan_def mini_rules)
  moreover have "sort_key fst [(''claude-orch-mini'', demo_args)] = (''claude-orch-mini'', demo_args) # []" by simp
  moreover have "pl_new demo_plan \<noteq> []" "map_of (str_creds (pl_creds demo_plan)) ''claude-orch-mini'' = Some ''p''"
    by (simp_all add: demo_plan_def str_creds_def)
  moreover have "\<not> ev_fails (demo_env demo_lossy) WMarker \<and> \<not> ev_fails (demo_env demo_lossy) WClear" by (simp add: demo_env_def)
  moreover have "ev_conn (demo_env demo_lossy) (pv_bus demo_host) ''arb-admin'' (pl_admin_pw demo_plan) 0
      ([''ACL'', ''SETUSER'', ''claude-orch-mini'', ''on'', CHR ''>'' # ''p''] @ demo_args) = (Inl (OtherRedisError ''Timeout''), [''claude-orch-mini''])"
    by (simp add: demo_env_def demo_lossy_def demo_host_def)
  ultimately show ?thesis using failed_setuser_clears_marker [OF demo_plan] by blast
qed

end
