(* ===== verification/Bus_Registrar.thy ===== *)
theory Bus_Registrar
  imports Registration_Store Registration_Protocol Bus_Acl Arb_Crypto
begin

text \<open>
  The bus registrar (\<open>src/src/arb_registration/bus_registrar.py\<close>): a signed request with a one-time token is
  filed, an operator decides it, and an approved request gets the credentials of its roles sealed
  for the key it registered. The handlers work on the store, the provisioner's host and the messages
  sent; a message that Redis refuses raises. An exception is its class name. All readings of the clock
  during the processing of one request are one instant.
\<close>

section \<open>Validation of a request\<close>

definition ALLOWED_PRODUCER_ENVS :: "string list" where
  "ALLOWED_PRODUCER_ENVS = [''ARB_MEMORY_REDIS_URL'', ''ARB_EVAL_REDIS_URL'', ''ARB_TRACE_REDIS_URL'']"

definition MAX_ATTEMPTS :: int where "MAX_ATTEMPTS = 5"

definition RETRY_DELAYS :: "int list" where "RETRY_DELAYS = [5, 15, 30, 60, 120]"

definition nonempty_at :: "dict \<Rightarrow> string \<Rightarrow> bool" where
  "nonempty_at d k \<longleftrightarrow> nonempty_str (dget d k)"

definition stream_db :: "json \<Rightarrow> bool" where
  "stream_db v \<longleftrightarrow> v \<in> {JInt 5, JInt 6, JInt 7, JFloat ''5.0'', JFloat ''6.0'', JFloat ''7.0''}"

definition check_supervisor :: "json \<Rightarrow> (string, unit) res" where
  "check_supervisor item = (case item of
     JObj d \<Rightarrow> guard_r (nonempty_at d ''service'' \<and> nonempty_at d ''kind'' \<and> nonempty_at d ''env_file'' \<and>
                      py_startswith (str_of (dget d ''env_file'')) ''/'') ''ValueError''
   | _ \<Rightarrow> Inl ''ValueError'')"

text \<open>Membership in a set hashes the value first: a list or a dictionary raises \<open>TypeError\<close>.\<close>

definition check_producer :: "json \<Rightarrow> (string, unit) res" where
  "check_producer item = (case item of
     JObj d \<Rightarrow>
      (if \<not> nonempty_at d ''service'' then Inl ''ValueError''
       else if unhashable (dget d ''env_var'') then Inl ''TypeError''
       else if \<not> (\<exists>e \<in> set ALLOWED_PRODUCER_ENVS. dget d ''env_var'' = JStr e) then Inl ''ValueError''
       else if unhashable (dget d ''db'') then Inl ''TypeError''
       else if \<not> stream_db (dget d ''db'') then Inl ''ValueError''
       else (case dget d ''streams'' of
               JArr ss \<Rightarrow> guard_r (ss \<noteq> [] \<and> list_all nonempty_str ss) ''ValueError''
             | _ \<Rightarrow> Inl ''ValueError''))
   | _ \<Rightarrow> Inl ''ValueError'')"

definition compact_sorted :: json_style where
  "compact_sorted = \<lparr>js_item = '','', js_key = '':'', js_sort = True, js_ascii = True\<rparr>"

definition validate_self_report :: "json \<Rightarrow> (string, json) res" where
  "validate_self_report value = (case value of
     JObj d \<Rightarrow>
      (if set (map fst d) \<noteq> {''supervisors'', ''producers''} then Inl ''ValueError''
       else (case (dget d ''supervisors'', dget d ''producers'') of
               (JArr sups, JArr prods) \<Rightarrow>
                 bind_r (mapM_r check_supervisor sups) (\<lambda>_. bind_r (mapM_r check_producer prods) (\<lambda>_.
                   (case json_loads (json_dumps compact_sorted value) of
                      None \<Rightarrow> Inl ''ValueError'' | Some v \<Rightarrow> Inr v)))
             | _ \<Rightarrow> Inl ''ValueError''))
   | _ \<Rightarrow> Inl ''ValueError'')"

definition decode_pinned_sealing_key :: "nacl \<Rightarrow> string \<Rightarrow> string \<Rightarrow> (string, string) res" where
  "decode_pinned_sealing_key nc encoded expected =
    (case b64_decode_strict encoded of
       None \<Rightarrow> Inl ''ValueError''
     | Some pk \<Rightarrow> (if length pk \<noteq> 32 then Inl ''ValueError''
                  else if fingerprint nc pk \<noteq> expected then Inl ''ValueError'' else Inr pk))"

definition id_char :: "char \<Rightarrow> bool" where
  "id_char c \<longleftrightarrow> (let n = (of_char c :: nat) in
     (48 \<le> n \<and> n \<le> 57) \<or> (65 \<le> n \<and> n \<le> 90) \<or> (97 \<le> n \<and> n \<le> 122))"

definition REPLY_ID_RE :: "string \<Rightarrow> bool" where
  "REPLY_ID_RE s \<longleftrightarrow> s \<noteq> [] \<and> id_char (hd s) \<and> length s \<le> 128 \<and>
     list_all (\<lambda>c. id_char c \<or> c \<in> {CHR ''_'', CHR ''.'', CHR '':'', CHR ''-''}) (tl s)"

section \<open>State\<close>

record 'w bus_env =
  be_nacl :: nacl
  be_ec :: ec_lib
  be_sha :: "string \<Rightarrow> string"
  be_acl :: "'w acl_env"
  be_endpoint :: string
  be_agent_id :: string
  be_timeout :: int
  be_send_ok :: "string \<Rightarrow> dict \<Rightarrow> bool"         \<comment> \<open>whether Redis takes this message for this recipient\<close>
  be_rnd :: string                              \<comment> \<open>randomness of the sealed box\<close>

record 'w bus_reg =
  br_db :: reg_db
  br_host :: "'w acl_host"
  br_sent :: "(string \<times> string \<times> dict) list"    \<comment> \<open>recipient, event, data\<close>
  br_log :: "(string \<times> string) list"            \<comment> \<open>audit action and request id\<close>

definition audit :: "string \<Rightarrow> string \<Rightarrow> 'w bus_reg \<Rightarrow> 'w bus_reg" where
  "audit action rid s = s\<lparr>br_log := br_log s @ [(action, rid)]\<rparr>"

definition inventory_sha :: "'w bus_env \<Rightarrow> json \<Rightarrow> string" where
  "inventory_sha env inventory = be_sha env (json_dumps compact_sorted inventory)"

definition opt_json :: "string option \<Rightarrow> json" where
  "opt_json x = (case x of None \<Rightarrow> JNull | Some s \<Rightarrow> JStr s)"

definition br_reply :: "'w bus_env \<Rightarrow> req_row \<Rightarrow> string \<Rightarrow> dict \<Rightarrow> 'w bus_reg \<Rightarrow> (string, unit) res \<times> 'w bus_reg" where
  "br_reply env r event data s =
    (let body = build_dict (data @ [(''client_nonce'', JStr (r_client_nonce r)), (''sealing_fingerprint'', opt_json (r_sealing_fp r))])
     in if be_send_ok env (r_reply_agent r) body
        then (Inr (), s\<lparr>br_sent := br_sent s @ [(r_reply_agent r, event, body)]\<rparr>)
        else (Inl ''RedisError'', s))"

definition br_status :: "int \<Rightarrow> string \<Rightarrow> string \<Rightarrow> 'w bus_reg \<Rightarrow> (string, unit) res \<times> 'w bus_reg" where
  "br_status t rid status s =
    (case set_bus_status (br_db s) t t rid status of
       (Inl e, db) \<Rightarrow> (Inl ''TokenError'', s\<lparr>br_db := db\<rparr>)
     | (Inr _, db) \<Rightarrow> (Inr (), s\<lparr>br_db := db\<rparr>))"

text \<open>Statement sequencing: run the next part unless the first raised.\<close>

definition seq_s :: "(string, 'a) res \<times> 's \<Rightarrow> ('a \<Rightarrow> 's \<Rightarrow> (string, 'b) res \<times> 's) \<Rightarrow> (string, 'b) res \<times> 's" where
  "seq_s m f = (case m of (Inl e, s) \<Rightarrow> (Inl e, s) | (Inr x, s) \<Rightarrow> f x s)"

section \<open>Filing a request\<close>

definition br_required :: "string list" where
  "br_required = [''token'', ''name'', ''host'', ''pubkey'', ''signing_pubkey'', ''sealing_pubkey'', ''sealing_fingerprint'',
     ''reply_agent_id'', ''client_nonce'', ''issued_at'', ''signature'']"

definition sget :: "dict \<Rightarrow> string \<Rightarrow> string" where
  "sget d k = str_of (dget d k)"

definition bus_request_dict :: "dict \<Rightarrow> json \<Rightarrow> string list \<Rightarrow> reg_request" where
  "bus_request_dict data report roles =
     \<lparr>q_pubkey = sget data ''pubkey'', q_signing_pubkey = sget data ''signing_pubkey'', q_channels_json = JArr [],
      q_reply_agent = sget data ''reply_agent_id'', q_client_nonce = sget data ''client_nonce'',
      q_sealing_pubkey = Some (sget data ''sealing_pubkey''), q_sealing_fp = Some (sget data ''sealing_fingerprint''),
      q_self_report_json = Some report, q_roles_json = Some (roles_json roles)\<rparr>"

definition request_shape :: "'w bus_env \<Rightarrow> dict \<Rightarrow> (string, string \<times> string list \<times> json) res" where
  "request_shape env data =
    (case validate_host (sget data ''host'') of
       Inl _ \<Rightarrow> Inl ''AclProvisionError''
     | Inr host \<Rightarrow>
    (case validate_declared_roles (dget data ''roles'') of
       Inl _ \<Rightarrow> Inl ''AclProvisionError''
     | Inr roles \<Rightarrow>
    bind_r (validate_self_report (dget data ''self_report'')) (\<lambda>report.
    bind_r (decode_pinned_sealing_key (be_nacl env) (sget data ''sealing_pubkey'') (sget data ''sealing_fingerprint'')) (\<lambda>_.
      Inr (host, roles, report)))))"

definition br_request :: "'w bus_env \<Rightarrow> int \<Rightarrow> string \<Rightarrow> dict \<Rightarrow> 'w bus_reg \<Rightarrow> (string, unit) res \<times> 'w bus_reg" where
  "br_request env t rid data s =
    (if \<not> list_all (nonempty_at data) br_required then (Inr (), audit ''invalid_request_shape'' [] s)
     else if \<not> REPLY_ID_RE (sget data ''reply_agent_id'') then (Inr (), audit ''invalid_reply_agent'' [] s)
     else (case request_shape env data of
        Inl e \<Rightarrow> (if e \<in> {''AclProvisionError'', ''ValueError''} then (Inr (), audit ''invalid_request_shape'' [] s) else (Inl e, s))
      | Inr (host, roles, report) \<Rightarrow>
         (if \<not> verify_signed_data (be_ec env) data then (Inr (), audit ''invalid_request_signature'' [] s)
          else if host_sealing_pin (br_db s) host \<noteq> None \<and>
                  host_sealing_pin (br_db s) host \<noteq> Some (sget data ''sealing_fingerprint'')
          then (Inr (), audit ''sealing_key_pin_mismatch'' [] s)
          else (case reserve_bus (be_sha env) (br_db s) t rid (sget data ''token'') (sget data ''name'') host
                       (bus_request_dict data report roles) of
                  (Inl (TokenError _), db) \<Rightarrow> (Inr (), audit ''invalid_registration_token'' [] (s\<lparr>br_db := db\<rparr>))
                | (Inl IntegrityError, db) \<Rightarrow> (Inl ''IntegrityError'', s\<lparr>br_db := db\<rparr>)
                | (Inr i, db) \<Rightarrow> (Inr (), audit ''registration_pending'' i (s\<lparr>br_db := db\<rparr>))))))"

definition br_handle :: "'w bus_env \<Rightarrow> int \<Rightarrow> string \<Rightarrow> dict \<Rightarrow> 'w bus_reg \<Rightarrow> (string, unit) res \<times> 'w bus_reg" where
  "br_handle env t rid envelope s =
    (if dget envelope ''kind'' \<noteq> JStr ''notify'' \<or> dget envelope ''to'' \<noteq> JStr (be_agent_id env) then (Inr (), s)
     else (case dget envelope ''payload'' of
        JObj p \<Rightarrow>
          (if dget p ''event'' \<noteq> JStr BUS_REQUEST_EVENT then (Inr (), s)
           else (case dget p ''data'' of
              JObj data \<Rightarrow> (if dget data ''event'' \<noteq> JStr BUS_REQUEST_EVENT then (Inr (), s)
                           else br_request env t rid data s)
            | _ \<Rightarrow> (Inr (), s)))
      | _ \<Rightarrow> (Inr (), s)))"

section \<open>Provisioning a request\<close>

definition reject_at_provision :: "'w bus_env \<Rightarrow> int \<Rightarrow> req_row \<Rightarrow> string \<Rightarrow> string \<Rightarrow> 'w bus_reg \<Rightarrow> (string, unit) res \<times> 'w bus_reg" where
  "reject_at_provision env t r action reason s =
    seq_s (br_reply env r BUS_DENY_EVENT [(''request_id'', JStr (r_id r)), (''reason'', JStr reason)] s) (\<lambda>_ s.
    seq_s (br_status t (r_id r) ''denied'' s) (\<lambda>_ s. (Inr (), audit action (r_id r) s)))"

definition acl_exc_name :: "acl_exc \<Rightarrow> string" where
  "acl_exc_name e = (case e of AclProvisionError _ \<Rightarrow> ''AclProvisionError'' | AclResidueError _ \<Rightarrow> ''AclResidueError''
     | RawRedis _ \<Rightarrow> ''RedisError'' | OtherExc n \<Rightarrow> n)"

definition grant_bundle :: "'w bus_env \<Rightarrow> req_row \<Rightarrow> string \<Rightarrow> (string \<times> string) list \<Rightarrow> string list \<Rightarrow> json \<Rightarrow> json" where
  "grant_bundle env r issued creds roles inventory =
     JObj [(''request_id'', JStr (r_id r)), (''host'', JStr (r_host r)), (''endpoint'', JStr (be_endpoint env)),
       (''roles'', JObj (map (\<lambda>(u, p). (u, JObj [(''username'', JStr u), (''password'', JStr p), (''db'', JInt 12)])) creds)),
       (''declared_roles'', roles_json roles), (''inventory_sha256'', JStr (inventory_sha env inventory)), (''issued_at'', JStr issued)]"

definition grant_data :: "'w bus_env \<Rightarrow> req_row \<Rightarrow> string \<Rightarrow> json \<Rightarrow> string \<Rightarrow> dict" where
  "grant_data env r fp inventory ct =
     [(''request_id'', JStr (r_id r)), (''sealed_bundle_b64'', JStr (b64_encode ct)), (''recipient_fingerprint'', JStr fp),
      (''inventory_sha256'', JStr (inventory_sha env inventory))]"

definition send_grant :: "'w bus_env \<Rightarrow> int \<Rightarrow> req_row \<Rightarrow> string \<Rightarrow> json \<Rightarrow> string \<Rightarrow> 'w bus_reg \<Rightarrow> (string, unit) res \<times> 'w bus_reg" where
  "send_grant env t r fp inventory ct s =
    seq_s (br_reply env r BUS_GRANT_EVENT (grant_data env r fp inventory ct) s) (\<lambda>_ s.
    seq_s (br_status t (r_id r) ''provisioned'' s) (\<lambda>_ s.
      (Inr (), audit ''registration_provisioned'' (r_id r) s)))"

text \<open>\<open>issued\<close> is the text of the current time that the bundle carries.\<close>

definition try_provision :: "'w bus_env \<Rightarrow> int \<Rightarrow> string \<Rightarrow> req_row \<Rightarrow> 'w bus_reg \<Rightarrow> (string, unit) res \<times> 'w bus_reg" where
  "try_provision env t issued r s =
    (case (r_sealing_pubkey r, r_sealing_fp r, r_self_report_json r, r_roles_json r) of
       (Some spk, Some fp, Some inventory, Some rolesj) \<Rightarrow>
    (case decode_pinned_sealing_key (be_nacl env) spk fp of
       Inl e \<Rightarrow> (Inl e, s)
     | Inr pk \<Rightarrow>
    (case validate_declared_roles rolesj of
       Inl e \<Rightarrow> (Inl (acl_exc_name e), s)
     | Inr roles \<Rightarrow>
    (if host_sealing_pin (br_db s) (r_host r) \<noteq> None \<and> host_sealing_pin (br_db s) (r_host r) \<noteq> Some fp
     then reject_at_provision env t r ''sealing_key_pin_mismatch'' ''sealing key pin mismatch'' s
     else (case assert_request_token_fresh (br_db s) t (r_id r) of
       Inl _ \<Rightarrow> reject_at_provision env t r ''registration_token_stale'' ''registration credential expired or was revoked'' s
     | Inr _ \<Rightarrow>
    (case provision (be_acl env) (r_host r) (roles_json roles) (br_host s) of
       (Inl e, h) \<Rightarrow> (Inl (acl_exc_name e), s\<lparr>br_host := h\<rparr>)
     | (Inr creds, h) \<Rightarrow>
    (case pin_host_sealing_key (br_db s) t (r_host r) fp (r_id r) of
       (Inl _, db) \<Rightarrow> reject_at_provision env t r ''sealing_key_pin_mismatch'' ''sealing key pin mismatch'' (s\<lparr>br_host := h, br_db := db\<rparr>)
     | (Inr _, db) \<Rightarrow>
    (case seal (be_nacl env) (be_rnd env) (json_dumps compact_sorted (grant_bundle env r issued creds roles inventory)) pk of
       Inl e \<Rightarrow> (Inl ''ValueError'', s\<lparr>br_host := h, br_db := db\<rparr>)
     | Inr ct \<Rightarrow>
       send_grant env t r fp inventory ct (s\<lparr>br_host := h, br_db := db\<rparr>))))))))
     | _ \<Rightarrow> (Inl ''TypeError'', s))"

definition retry_delay :: "int \<Rightarrow> int" where
  "retry_delay prior = RETRY_DELAYS ! (min (nat prior) (length RETRY_DELAYS - 1))"

definition br_provision :: "'w bus_env \<Rightarrow> int \<Rightarrow> string \<Rightarrow> req_row \<Rightarrow> 'w bus_reg \<Rightarrow> (string, unit) res \<times> 'w bus_reg" where
  "br_provision env t issued r s =
    (case try_provision env t issued r s of
       (Inr _, s1) \<Rightarrow> (Inr (), s1)
     | (Inl e, s1) \<Rightarrow>
        (case record_attempt_failure (br_db s1) t t (r_id r) e (t + retry_delay (r_attempts r) * 1000000) MAX_ATTEMPTS of
           (Inl _, db) \<Rightarrow> (Inl ''TokenError'', s1\<lparr>br_db := db\<rparr>)
         | (Inr (attempts, exhausted), db) \<Rightarrow>
            (if exhausted
             then seq_s (br_reply env r BUS_DENY_EVENT
                    [(''request_id'', JStr (r_id r)), (''reason'', JStr ''credential provisioning failed'')] (s1\<lparr>br_db := db\<rparr>)) (\<lambda>_ s.
                  (Inr (), audit ''registration_provision_failed'' (r_id r) s))
             else (Inr (), s1\<lparr>br_db := db\<rparr>))))"

section \<open>Polling\<close>

fun each_s :: "'a list \<Rightarrow> ('a \<Rightarrow> 's \<Rightarrow> (string, unit) res \<times> 's) \<Rightarrow> 's \<Rightarrow> (string, unit) res \<times> 's" where
  "each_s [] f s = (Inr (), s)"
| "each_s (x # xs) f s = seq_s (f x s) (\<lambda>_ s. each_s xs f s)"

definition deny_request :: "'w bus_env \<Rightarrow> int \<Rightarrow> string \<Rightarrow> string \<Rightarrow> req_row \<Rightarrow> 'w bus_reg \<Rightarrow> (string, unit) res \<times> 'w bus_reg" where
  "deny_request env t action reason r s = reject_at_provision env t r action reason s"

definition poll_timeout :: "'w bus_env \<Rightarrow> int \<Rightarrow> req_row \<Rightarrow> 'w bus_reg \<Rightarrow> (string, unit) res \<times> 'w bus_reg" where
  "poll_timeout env now r s =
    (if now - r_created r < be_timeout env then (Inr (), s)
     else deny_request env now ''registration_timed_out'' ''operator approval timed out'' r s)"

definition poll_decided :: "'w bus_env \<Rightarrow> int \<Rightarrow> req_row \<Rightarrow> 'w bus_reg \<Rightarrow> (string, unit) res \<times> 'w bus_reg" where
  "poll_decided env now r s =
    (if r_decision r = Some ''deny'' then deny_request env now ''registration_denied'' ''operator denied registration'' r s
     else br_status now (r_id r) ''approved'' s)"

definition poll_approved :: "'w bus_env \<Rightarrow> int \<Rightarrow> string \<Rightarrow> req_row \<Rightarrow> 'w bus_reg \<Rightarrow> (string, unit) res \<times> 'w bus_reg" where
  "poll_approved env now issued r s =
    (case r_next_attempt r of
       Some n \<Rightarrow> (if now < n then (Inr (), s) else br_provision env now issued r s)
     | None \<Rightarrow> br_provision env now issued r s)"

definition br_poll :: "'w bus_env \<Rightarrow> int \<Rightarrow> string \<Rightarrow> 'w bus_reg \<Rightarrow> (string, unit) res \<times> 'w bus_reg" where
  "br_poll env now issued s =
    seq_s (each_s (bus_pending (br_db s)) (poll_timeout env now) s) (\<lambda>_ s.
    seq_s (each_s (bus_decided (br_db s)) (poll_decided env now) s) (\<lambda>_ s.
      each_s (bus_approved (br_db s)) (poll_approved env now issued) s))"

text \<open>One round of \<open>run\<close>: at most one message, then a poll; an exception ends the loop.\<close>

definition br_run :: "'w bus_env \<Rightarrow> int \<Rightarrow> string \<Rightarrow> string \<Rightarrow> string \<Rightarrow> bus_lists \<Rightarrow> 'w bus_reg
    \<Rightarrow> (string, unit) res \<times> 'w bus_reg \<times> bus_lists" where
  "br_run env t rid issued prefix ls s =
    (let (msg, ls') = bus_receive ls prefix (be_agent_id env);
         (r, s') = seq_s (case msg of None \<Rightarrow> (Inr (), s) | Some e \<Rightarrow> (if e = [] then (Inr (), s) else br_handle env t rid e s))
                     (\<lambda>_ s. br_poll env t issued s)
     in (r, s', ls'))"

section \<open>Lemmas\<close>

definition grants :: "(string \<times> string \<times> dict) list \<Rightarrow> (string \<times> string \<times> dict) list" where
  "grants ms = filter (\<lambda>(to, event, body). event = BUS_GRANT_EVENT) ms"

lemma events_differ [simp]: "BUS_DENY_EVENT \<noteq> BUS_GRANT_EVENT" "BUS_GRANT_EVENT \<noteq> BUS_DENY_EVENT"
  by (simp_all add: BUS_DENY_EVENT_def BUS_GRANT_EVENT_def)

lemma br_reply_cases:
  assumes "br_reply env r event data s = (res, s')"
  obtains "res = Inl ''RedisError''" "s' = s"
  | "res = Inr ()" "s' = s\<lparr>br_sent := br_sent s @ [(r_reply_agent r, event,
       build_dict (data @ [(''client_nonce'', JStr (r_client_nonce r)), (''sealing_fingerprint'', opt_json (r_sealing_fp r))]))]\<rparr>"
  using assms by (auto simp: br_reply_def Let_def split: if_splits)

lemma br_status_frame:
  assumes "br_status t rid st s = (res, s')"
  shows "br_sent s' = br_sent s" "br_host s' = br_host s" "br_db s' = snd (set_bus_status (br_db s) t t rid st)"
  using assms by (auto simp: br_status_def split: prod.splits sum.splits)

lemma reject_frame:
  assumes "reject_at_provision env t r action reason s = (res, s')"
  shows "grants (br_sent s') = grants (br_sent s) \<and> br_host s' = br_host s"
proof -
  obtain r1 s1 where rp: "br_reply env r BUS_DENY_EVENT [(''request_id'', JStr (r_id r)), (''reason'', JStr reason)] s = (r1, s1)"
    by fastforce
  have 1: "grants (br_sent s1) = grants (br_sent s) \<and> br_host s1 = br_host s"
    using rp by (cases rule: br_reply_cases) (auto simp: grants_def)
  obtain r2 s2 where st: "br_status t (r_id r) ''denied'' s1 = (r2, s2)" by fastforce
  from assms rp st have "s' \<in> {s1, s2, audit action (r_id r) s2}"
    by (cases r1; cases r2) (simp_all add: reject_at_provision_def seq_s_def)
  with 1 br_status_frame [OF st] show ?thesis by (auto simp: audit_def)
qed

definition grant_body :: "'w bus_env \<Rightarrow> req_row \<Rightarrow> string \<Rightarrow> json \<Rightarrow> string \<Rightarrow> dict" where
  "grant_body env r fp inventory ct = build_dict (grant_data env r fp inventory ct @
     [(''client_nonce'', JStr (r_client_nonce r)), (''sealing_fingerprint'', opt_json (r_sealing_fp r))])"

lemma send_grant_frame:
  assumes "send_grant env t r fp inventory ct s = (res, s')"
  shows "(br_sent s' = br_sent s \<or> br_sent s' = br_sent s @ [(r_reply_agent r, BUS_GRANT_EVENT, grant_body env r fp inventory ct)]) \<and>
    br_host s' = br_host s \<and> rg_pins (br_db s') = rg_pins (br_db s)"
proof -
  obtain r1 s1 where rp: "br_reply env r BUS_GRANT_EVENT (grant_data env r fp inventory ct) s = (r1, s1)" by fastforce
  have 1: "(br_sent s1 = br_sent s \<or> br_sent s1 = br_sent s @ [(r_reply_agent r, BUS_GRANT_EVENT, grant_body env r fp inventory ct)]) \<and>
      br_host s1 = br_host s \<and> br_db s1 = br_db s"
    using rp by (cases rule: br_reply_cases) (auto simp: grant_body_def)
  obtain r2 s2 where st: "br_status t (r_id r) ''provisioned'' s1 = (r2, s2)" by fastforce
  from assms rp st have "s' \<in> {s1, s2, audit ''registration_provisioned'' (r_id r) s2}"
    by (cases r1; cases r2) (simp_all add: send_grant_def seq_s_def)
  moreover have "rg_pins (br_db s2) = rg_pins (br_db s1)"
    using bus_status_in_place [of "br_db s1" t t "r_id r" "''provisioned''"] br_status_frame(3) [OF st] by (simp add: in_place_def)
  ultimately show ?thesis using 1 br_status_frame(1,2) [OF st] by (auto simp: audit_def)
qed

lemma pin_Inr:
  assumes "pin_host_sealing_key db t host fp rid = (Inr u, db')"
  shows "host_sealing_pin db' host = Some fp"
proof (cases "List.find (\<lambda>p. p_host p = host) (rg_pins db)")
  case None
  have "List.find (\<lambda>p. p_host p = host) (ps @ [\<lparr>p_host = host, p_fp = fp, p_request = rid, p_pinned_at = t\<rparr>])
      = Some \<lparr>p_host = host, p_fp = fp, p_request = rid, p_pinned_at = t\<rparr>" if "List.find (\<lambda>p. p_host p = host) ps = None" for ps
    using that by (induction ps) (auto split: if_splits)
  with None assms show ?thesis by (auto simp: pin_host_sealing_key_def host_sealing_pin_def)
next
  case (Some p)
  with assms show ?thesis by (auto simp: pin_host_sealing_key_def host_sealing_pin_def split: if_splits)
qed

lemma try_provision_refused:
  assumes "try_provision env t issued r s = (res, s')"
    and "(\<exists>fp. r_sealing_fp r = Some fp \<and> host_sealing_pin (br_db s) (r_host r) \<noteq> None \<and> host_sealing_pin (br_db s) (r_host r) \<noteq> Some fp) \<or>
         (\<exists>e. assert_request_token_fresh (br_db s) t (r_id r) = Inl e)"
  shows "grants (br_sent s') = grants (br_sent s) \<and> br_host s' = br_host s"
  using assms
  by (auto simp: try_provision_def split: option.splits sum.splits if_splits dest: reject_frame)

lemma try_provision_granted:
  assumes "try_provision env t issued r s = (res, s')" and "grants (br_sent s') \<noteq> grants (br_sent s)"
  obtains spk fp pk inventory rolesj roles creds h ct where
    "r_sealing_pubkey r = Some spk" "r_sealing_fp r = Some fp" "r_self_report_json r = Some inventory" "r_roles_json r = Some rolesj"
    "decode_pinned_sealing_key (be_nacl env) spk fp = Inr pk" "validate_declared_roles rolesj = Inr roles"
    "host_sealing_pin (br_db s) (r_host r) \<in> {None, Some fp}"
    "assert_request_token_fresh (br_db s) t (r_id r) = Inr ()"
    "provision (be_acl env) (r_host r) (roles_json roles) (br_host s) = (Inr creds, h)"
    "seal (be_nacl env) (be_rnd env) (json_dumps compact_sorted (grant_bundle env r issued creds roles inventory)) pk = Inr ct"
    "br_sent s' = br_sent s @ [(r_reply_agent r, BUS_GRANT_EVENT, grant_body env r fp inventory ct)]" "br_host s' = h"
    "host_sealing_pin (br_db s') (r_host r) = Some fp"
proof -
  from assms obtain spk fp inventory rolesj where row: "r_sealing_pubkey r = Some spk" "r_sealing_fp r = Some fp"
    "r_self_report_json r = Some inventory" "r_roles_json r = Some rolesj"
    by (auto simp: try_provision_def split: option.splits)
  from assms row obtain pk where pk: "decode_pinned_sealing_key (be_nacl env) spk fp = Inr pk"
    by (auto simp: try_provision_def split: sum.splits)
  from assms row pk obtain roles where roles: "validate_declared_roles rolesj = Inr roles"
    by (auto simp: try_provision_def split: sum.splits)
  have "host_sealing_pin (br_db s) (r_host r) \<in> {None, Some fp}" "\<nexists>e. assert_request_token_fresh (br_db s) t (r_id r) = Inl e"
    using try_provision_refused [OF assms(1)] assms(2) row by blast+
  then have ok: "host_sealing_pin (br_db s) (r_host r) \<in> {None, Some fp}"
    "assert_request_token_fresh (br_db s) t (r_id r) = Inr ()"
    by (cases "assert_request_token_fresh (br_db s) t (r_id r)"; auto)+
  obtain pr h where pv: "provision (be_acl env) (r_host r) (roles_json roles) (br_host s) = (pr, h)" by fastforce
  have pin: "((\<exists>y. host_sealing_pin (br_db s) (r_host r) = Some y) \<and> host_sealing_pin (br_db s) (r_host r) \<noteq> Some fp) = False"
    using ok by auto
  note red = try_provision_def row pk roles pin ok(2) pv
  from assms obtain creds where creds: "pr = Inr creds" by (cases pr) (auto simp: red)
  obtain qr db where pn: "pin_host_sealing_key (br_db s) t (r_host r) fp (r_id r) = (qr, db)" by fastforce
  from assms creds have qr: "\<exists>u. qr = Inr u"
    by (cases qr) (auto simp: red pn dest: reject_frame)
  from assms creds qr obtain ct where ct: "seal (be_nacl env) (be_rnd env)
      (json_dumps compact_sorted (grant_bundle env r issued creds roles inventory)) pk = Inr ct"
    by (cases "seal (be_nacl env) (be_rnd env) (json_dumps compact_sorted (grant_bundle env r issued creds roles inventory)) pk") (auto simp: red pn)
  from assms(1) creds qr ct have "send_grant env t r fp inventory ct (s\<lparr>br_host := h, br_db := db\<rparr>) = (res, s')"
    by (auto simp: red pn)
  note f = send_grant_frame [OF this]
  with assms(2) have "br_sent s' = br_sent s @ [(r_reply_agent r, BUS_GRANT_EVENT, grant_body env r fp inventory ct)]" by auto
  moreover have "host_sealing_pin (br_db s') (r_host r) = Some fp"
    using qr pin_Inr pn f by (auto simp: host_sealing_pin_def)
  ultimately show thesis using that row pk roles ok pv creds ct f by auto
qed

lemma compact_sorted_ok: "style_ok compact_sorted"
  by (simp add: style_ok_def compact_sorted_def)

lemma grant_bundle_wf:
  assumes "distinct (map fst creds)"
  shows "json_wf (grant_bundle env r issued creds roles inventory)"
proof -
  have "map fst (map (\<lambda>(u, p). (u, JObj [(''username'', JStr u), (''password'', JStr p), (''db'', JInt 12)])) creds) = map fst creds"
    by auto
  with assms have "json_wf (JObj (map (\<lambda>(u, p). (u, JObj [(''username'', JStr u), (''password'', JStr p), (''db'', JInt 12)])) creds))"
    by (auto simp: list_all_iff simp del: map_map)
  then show ?thesis by (simp add: grant_bundle_def roles_json_def list_all_iff del: json_wf.simps(3)) (simp add: list_all_iff)
qed

lemma grant_body_fields:
  "dget (grant_body env r fp inventory ct) ''sealed_bundle_b64'' = JStr (b64_encode ct)"
  "dget (grant_body env r fp inventory ct) ''request_id'' = JStr (r_id r)"
  "dget (grant_body env r fp inventory ct) ''client_nonce'' = JStr (r_client_nonce r)"
proof -
  have "grant_body env r fp inventory ct = grant_data env r fp inventory ct @
     [(''client_nonce'', JStr (r_client_nonce r)), (''sealing_fingerprint'', opt_json (r_sealing_fp r))]"
    unfolding grant_body_def by (rule build_dict_distinct) (simp add: grant_data_def)
  then show "dget (grant_body env r fp inventory ct) ''sealed_bundle_b64'' = JStr (b64_encode ct)"
    "dget (grant_body env r fp inventory ct) ''request_id'' = JStr (r_id r)"
    "dget (grant_body env r fp inventory ct) ''client_nonce'' = JStr (r_client_nonce r)"
    by (simp_all add: grant_data_def)
qed

text \<open>Loops keep what each iteration keeps.\<close>

lemma each_s_inv:
  assumes "\<And>x s r s'. x \<in> set xs \<Longrightarrow> J s \<Longrightarrow> f x s = (r, s') \<Longrightarrow> J s'" and "J s" and "each_s xs f s = (res, s')"
  shows "J s'"
  using assms
proof (induction xs arbitrary: s)
  case (Cons x xs)
  obtain r1 s1 where fx: "f x s = (r1, s1)" by fastforce
  with Cons.prems(1) [of x s r1 s1] Cons.prems(2) have "J s1" by simp
  show ?case
  proof (cases r1)
    case (Inl e)
    with Cons.prems(3) fx \<open>J s1\<close> show ?thesis by (simp add: seq_s_def)
  next
    case (Inr u)
    with Cons.prems(3) fx have rest: "each_s xs f s1 = (res, s')" by (simp add: seq_s_def)
    show ?thesis by (rule Cons.IH [OF _ \<open>J s1\<close> rest]) (rule Cons.prems(1), simp_all)
  qed
qed simp

definition same_but_status :: "req_row \<Rightarrow> req_row \<Rightarrow> bool" where
  "same_but_status r r' \<longleftrightarrow> r' = r\<lparr>r_status := r_status r', r_updated := r_updated r'\<rparr>"

lemma same_but_status_refl [simp]: "same_but_status r r"
  by (simp add: same_but_status_def)

lemma same_but_status_trans: "same_but_status a b \<Longrightarrow> same_but_status b c \<Longrightarrow> same_but_status a c"
  unfolding same_but_status_def
  by (metis (no_types, lifting) req_row.surjective req_row.update_convs(10,13))

lemma same_but_status_keep:
  assumes "same_but_status r r'"
  shows "r_id r' = r_id r" "r_self_report_json r' = r_self_report_json r" "r_reply_agent r' = r_reply_agent r" "r_decision r' = r_decision r"
  using assms unfolding same_but_status_def
  by (metis req_row.select_convs(1) req_row.surjective req_row.update_convs(10,13),
      metis req_row.select_convs(22) req_row.surjective req_row.update_convs(10,13),
      metis req_row.select_convs(8) req_row.surjective req_row.update_convs(10,13),
      metis req_row.select_convs(14) req_row.surjective req_row.update_convs(10,13))

lemma status_rows:
  assumes "r' \<in> set (rg_requests (snd (set_bus_status db t1 t2 rid st)))"
  shows "\<exists>r \<in> set (rg_requests db). r' = r \<or> (r_id r = rid \<and> r' = r\<lparr>r_status := st, r_updated := t1\<rparr>)"
  using assms by (auto simp: set_bus_status_def Let_def split: if_splits)

lemma br_status_step:
  assumes "br_status t rid st s = (res, s')" and "reg_inv (br_db s)"
  shows "reg_inv (br_db s')" and "r' \<in> set (rg_requests (br_db s')) \<Longrightarrow>
    \<exists>r \<in> set (rg_requests (br_db s)). same_but_status r r' \<and> (r_status r' = r_status r \<or> (r_id r = rid \<and> r_status r' = st))"
proof -
  have db: "br_db s' = snd (set_bus_status (br_db s) t t rid st)" by (rule br_status_frame(3) [OF assms(1)])
  show "reg_inv (br_db s')" unfolding db by (rule registration.inv_step [OF assms(2) rs_bus_status [where sha = id]])
  show "\<exists>r \<in> set (rg_requests (br_db s)). same_but_status r r' \<and> (r_status r' = r_status r \<or> (r_id r = rid \<and> r_status r' = st))"
    if "r' \<in> set (rg_requests (br_db s'))"
    using status_rows [of r' "br_db s" t t rid st] that unfolding db
    by (auto simp: same_but_status_def) (metis req_row.select_convs req_row.surjective req_row.update_convs)+
qed

lemma reject_step:
  assumes "reject_at_provision env t x action reason s = (res, s')" and "reg_inv (br_db s)"
  shows "reg_inv (br_db s')" and "r' \<in> set (rg_requests (br_db s')) \<Longrightarrow>
    \<exists>r \<in> set (rg_requests (br_db s)). same_but_status r r' \<and> (r_status r' = r_status r \<or> (r_id r = r_id x \<and> r_status r' = ''denied''))"
proof -
  obtain r1 s1 where rp: "br_reply env x BUS_DENY_EVENT [(''request_id'', JStr (r_id x)), (''reason'', JStr reason)] s = (r1, s1)"
    by fastforce
  have db1: "br_db s1 = br_db s" using rp by (cases rule: br_reply_cases) simp_all
  obtain r2 s2 where st: "br_status t (r_id x) ''denied'' s1 = (r2, s2)" by fastforce
  from assms(1) rp st have "br_db s' = br_db s1 \<or> br_db s' = br_db s2"
    by (cases r1; cases r2) (auto simp: reject_at_provision_def seq_s_def audit_def)
  with br_status_step [OF st] assms(2) db1 show "reg_inv (br_db s')"
    and "r' \<in> set (rg_requests (br_db s')) \<Longrightarrow>
    \<exists>r \<in> set (rg_requests (br_db s)). same_but_status r r' \<and> (r_status r' = r_status r \<or> (r_id r = r_id x \<and> r_status r' = ''denied''))"
    by (auto intro: same_but_status_refl)
qed

text \<open>What the first two loops of a poll may do to the rows: \<open>L\<close> are the rows the second loop may approve.\<close>

definition poll_rel :: "req_row list \<Rightarrow> 'w bus_reg \<Rightarrow> 'w bus_reg \<Rightarrow> bool" where
  "poll_rel L s s' \<longleftrightarrow> reg_inv (br_db s') \<and> grants (br_sent s') = grants (br_sent s) \<and>
     (\<forall>r' \<in> set (rg_requests (br_db s')). \<exists>r \<in> set (rg_requests (br_db s)). same_but_status r r' \<and>
        (r_status r' \<in> {r_status r, ''denied''} \<or> (\<exists>x \<in> set L. r_id x = r_id r \<and> r_decision x \<noteq> Some ''deny'')))"

lemma poll_rel_deny:
  assumes "poll_rel L s0 s" and "reject_at_provision env t x action reason s = (res, s')"
  shows "poll_rel L s0 s'"
proof -
  have inv: "reg_inv (br_db s)" using assms(1) by (simp add: poll_rel_def)
  have "\<exists>r \<in> set (rg_requests (br_db s0)). same_but_status r r' \<and>
      (r_status r' \<in> {r_status r, ''denied''} \<or> (\<exists>x \<in> set L. r_id x = r_id r \<and> r_decision x \<noteq> Some ''deny''))"
    if r': "r' \<in> set (rg_requests (br_db s'))" for r'
  proof -
    obtain q where q: "q \<in> set (rg_requests (br_db s))" "same_but_status q r'" "r_status r' = r_status q \<or> r_status r' = ''denied''"
      using reject_step(2) [OF assms(2) inv r'] by blast
    from q(1) obtain r where r: "r \<in> set (rg_requests (br_db s0))" "same_but_status r q"
      "r_status q \<in> {r_status r, ''denied''} \<or> (\<exists>x \<in> set L. r_id x = r_id r \<and> r_decision x \<noteq> Some ''deny'')"
      using assms(1) unfolding poll_rel_def by blast
    show ?thesis
      by (rule bexI [OF _ r(1)]) (use r(3) q(3) same_but_status_trans [OF r(2) q(2)] in auto)
  qed
  moreover have "grants (br_sent s') = grants (br_sent s0)" using reject_frame [OF assms(2)] assms(1) by (simp add: poll_rel_def)
  ultimately show ?thesis unfolding poll_rel_def using reject_step(1) [OF assms(2) inv] by blast
qed

lemma poll_rel_approve:
  assumes "poll_rel L s0 s" and "x \<in> set L" and "r_decision x \<noteq> Some ''deny''" and "br_status t (r_id x) ''approved'' s = (res, s')"
  shows "poll_rel L s0 s'"
proof -
  have inv: "reg_inv (br_db s)" using assms(1) by (simp add: poll_rel_def)
  have "\<exists>r \<in> set (rg_requests (br_db s0)). same_but_status r r' \<and>
      (r_status r' \<in> {r_status r, ''denied''} \<or> (\<exists>x \<in> set L. r_id x = r_id r \<and> r_decision x \<noteq> Some ''deny''))"
    if r': "r' \<in> set (rg_requests (br_db s'))" for r'
  proof -
    obtain q where q: "q \<in> set (rg_requests (br_db s))" "same_but_status q r'" "r_status r' = r_status q \<or> r_id q = r_id x"
      using br_status_step(2) [OF assms(4) inv r'] by blast
    from q(1) obtain r where r: "r \<in> set (rg_requests (br_db s0))" "same_but_status r q"
      "r_status q \<in> {r_status r, ''denied''} \<or> (\<exists>x \<in> set L. r_id x = r_id r \<and> r_decision x \<noteq> Some ''deny'')"
      using assms(1) unfolding poll_rel_def by blast
    have "r_id q = r_id r" by (rule same_but_status_keep(1) [OF r(2)])
    then show ?thesis
      by (intro bexI [OF _ r(1)] conjI same_but_status_trans [OF r(2) q(2)]) (use r(3) q(3) assms(2,3) in auto)
  qed
  moreover have "grants (br_sent s') = grants (br_sent s0)" using br_status_frame(1) [OF assms(4)] assms(1) by (simp add: poll_rel_def)
  ultimately show ?thesis unfolding poll_rel_def using br_status_step(1) [OF assms(4) inv] by blast
qed

lemma poll_rel_refl: "reg_inv (br_db s) \<Longrightarrow> poll_rel L s s"
  by (auto simp: poll_rel_def intro: same_but_status_refl)

lemma br_provision_grants:
  assumes "br_provision env t issued r s = (res, s')" and "m \<in> set (grants (br_sent s'))"
  shows "m \<in> set (grants (br_sent s)) \<or>
    (\<exists>body. m = (r_reply_agent r, BUS_GRANT_EVENT, body) \<and> dget body ''request_id'' = JStr (r_id r))"
proof -
  obtain tr s1 where tp: "try_provision env t issued r s = (tr, s1)" by fastforce
  have reply: "br_reply env r BUS_DENY_EVENT d q = (x, q') \<Longrightarrow> grants (br_sent q') = grants (br_sent q)" for d q x q'
    by (erule br_reply_cases) (simp_all add: grants_def)
  have "grants (br_sent s') = grants (br_sent s1)"
    using assms(1) tp
    by (auto simp: br_provision_def seq_s_def audit_def split: sum.splits prod.splits if_splits dest!: reply)
  moreover have "m \<in> set (grants (br_sent s)) \<or>
    (\<exists>body. m = (r_reply_agent r, BUS_GRANT_EVENT, body) \<and> dget body ''request_id'' = JStr (r_id r))" if "m \<in> set (grants (br_sent s1))"
  proof (cases "grants (br_sent s1) = grants (br_sent s)")
    case False
    from tp False show ?thesis
    proof (cases rule: try_provision_granted)
      case (1 spk fp pk inventory rolesj roles creds h ct)
      from that 1(11) have "m \<in> set (grants (br_sent s)) \<or> m = (r_reply_agent r, BUS_GRANT_EVENT, grant_body env r fp inventory ct)"
        by (auto simp: grants_def)
      with grant_body_fields(2) [of env r fp inventory ct] show ?thesis by blast
    qed
  qed (use that in simp)
  ultimately show ?thesis using assms(2) by simp
qed

lemma poll_phase_timeout:
  assumes "each_s (bus_pending (br_db s)) (poll_timeout env now) s = (res, s')" and "reg_inv (br_db s)"
  shows "poll_rel [] s s'"
proof (rule each_s_inv [where J = "poll_rel [] s", OF _ poll_rel_refl [OF assms(2)] assms(1)])
  show "poll_rel [] s q'" if "poll_rel [] s q" "poll_timeout env now x q = (r, q')" for x q r q'
    using that by (auto simp: poll_timeout_def deny_request_def split: if_splits intro: poll_rel_deny)
qed

lemma poll_phase_decided:
  assumes "each_s (bus_decided (br_db s)) (poll_decided env now) s = (res, s')" and "reg_inv (br_db s)"
  shows "poll_rel (bus_decided (br_db s)) s s'"
proof (rule each_s_inv [where J = "poll_rel (bus_decided (br_db s)) s", OF _ poll_rel_refl [OF assms(2)] assms(1)])
  show "poll_rel (bus_decided (br_db s)) s q'"
    if "x \<in> set (bus_decided (br_db s))" "poll_rel (bus_decided (br_db s)) s q" "poll_decided env now x q = (r, q')" for x q r q'
    using that by (auto simp: poll_decided_def deny_request_def split: if_splits intro: poll_rel_deny poll_rel_approve)
qed

lemma poll_phase_approved:
  assumes "each_s L (poll_approved env now issued) s = (res, s')" and "m \<in> set (grants (br_sent s'))"
  shows "m \<in> set (grants (br_sent s)) \<or>
    (\<exists>r \<in> set L. \<exists>body. m = (r_reply_agent r, BUS_GRANT_EVENT, body) \<and> dget body ''request_id'' = JStr (r_id r))"
proof -
  let ?J = "\<lambda>q. m \<in> set (grants (br_sent q)) \<longrightarrow> m \<in> set (grants (br_sent s)) \<or>
    (\<exists>r \<in> set L. \<exists>body. m = (r_reply_agent r, BUS_GRANT_EVENT, body) \<and> dget body ''request_id'' = JStr (r_id r))"
  have "?J s'"
  proof (rule each_s_inv [where J = ?J, OF _ _ assms(1)])
    show "?J q'" if "x \<in> set L" "?J q" "poll_approved env now issued x q = (r, q')" for x q r q'
    proof -
      from that(3) have "q' = q \<or> br_provision env now issued x q = (r, q')"
        by (auto simp: poll_approved_def split: option.splits if_splits)
      then show ?thesis using that(1,2) br_provision_grants [of env now issued x q r q' m] by blast
    qed
  qed simp
  with assms(2) show ?thesis by simp
qed

lemma poll_rel_origin:
  assumes "poll_rel L s s'" and "r' \<in> set (rg_requests (br_db s'))"
  obtains r where "r \<in> set (rg_requests (br_db s))" "same_but_status r r'"
    "r_status r' \<in> {r_status r, ''denied''} \<or> (\<exists>x \<in> set L. r_id x = r_id r \<and> r_decision x \<noteq> Some ''deny'')"
  using assms unfolding poll_rel_def by blast

lemma row_by_id:
  assumes "reg_inv db" and "r \<in> set (rg_requests db)" and "x \<in> set (rg_requests db)" and "r_id r = r_id x"
  shows "r = x"
  using assms by (auto simp: reg_inv_def distinct_map dest: inj_onD)

lemma approved_origin:
  assumes inv: "reg_inv (br_db s)" and p1: "poll_rel [] s s1" and p2: "poll_rel (bus_decided (br_db s1)) s1 s2"
    and r2: "r2 \<in> set (bus_approved (br_db s2))"
  obtains r where "r \<in> set (rg_requests (br_db s))" "same_but_status r r2" "r_self_report_json r \<noteq> None"
    "r_status r = ''approved'' \<or> r_status r = ''pending'' \<and> r_decision r \<notin> {None, Some ''deny''}"
proof -
  have r2': "r2 \<in> set (rg_requests (br_db s2))" "r_status r2 = ''approved''" "r_self_report_json r2 \<noteq> None"
    using r2 by (auto simp: bus_approved_def by_created_def)
  obtain r1 where r1: "r1 \<in> set (rg_requests (br_db s1))" "same_but_status r1 r2"
    "r_status r2 \<in> {r_status r1, ''denied''} \<or> (\<exists>x \<in> set (bus_decided (br_db s1)). r_id x = r_id r1 \<and> r_decision x \<noteq> Some ''deny'')"
    by (rule poll_rel_origin [OF p2 r2'(1)])
  have inv1: "reg_inv (br_db s1)" using p1 by (simp add: poll_rel_def)
  have st1: "r_status r1 = ''approved'' \<or> r_status r1 = ''pending'' \<and> r_decision r1 \<notin> {None, Some ''deny''}"
    using r1(3)
  proof
    assume "\<exists>x \<in> set (bus_decided (br_db s1)). r_id x = r_id r1 \<and> r_decision x \<noteq> Some ''deny''"
    then obtain x where x: "x \<in> set (bus_decided (br_db s1))" "r_id x = r_id r1" "r_decision x \<noteq> Some ''deny''" by blast
    then have "x \<in> set (rg_requests (br_db s1))" by (auto simp: bus_decided_def by_created_def)
    with row_by_id [OF inv1 r1(1)] x(2) have "r1 = x" by simp
    with x show ?thesis by (auto simp: bus_decided_def by_created_def)
  qed (use r2'(2) in simp)
  obtain r where r: "r \<in> set (rg_requests (br_db s))" "same_but_status r r1" "r_status r1 \<in> {r_status r, ''denied''}"
    by (rule poll_rel_origin [OF p1 r1(1)]) auto
  have "r_status r1 = r_status r" using r(3) st1 by auto
  with st1 same_but_status_keep [OF r(2)] same_but_status_keep [OF r1(2)] r2'(3) r(1) same_but_status_trans [OF r(2) r1(2)]
  show thesis by (intro that) auto
qed

text \<open>A request for the host \<open>mini\<close>, approved, on a server that answers as it should.\<close>

definition demo_sk :: string where "demo_sk = replicate 31 CHR ''s''"

definition demo_pk :: string where "demo_pk = CHR ''P'' # demo_sk"

definition demo_fp :: string where "demo_fp = ''fp'' @ demo_pk"

definition demo_bus_env :: "string list bus_env" where
  "demo_bus_env = \<lparr>be_nacl = demo_nacl, be_ec = \<lparr>ec_point_x = (\<lambda>p. Some ''aa''), ec_verify = (\<lambda>p s m. True)\<rparr>, be_sha = id,
     be_acl = demo_env demo_good, be_endpoint = ''redis'', be_agent_id = ''registrar'', be_timeout = 60000000,
     be_send_ok = (\<lambda>_ _. True), be_rnd = ''r''\<rparr>"

definition demo_bus_request :: reg_request where
  "demo_bus_request = demo_request\<lparr>q_sealing_pubkey := Some (b64_encode demo_pk),
     q_sealing_fp := Some demo_fp, q_self_report_json := Some (JObj []),
     q_roles_json := Some (JArr [JStr ''claude''])\<rparr>"

definition demo_mini :: reg_db where
  "demo_mini = snd (mint id reg_init 1000000 1000000 ''t1'' ''s'' ''seat'' (Some ''mini'') 9000000)"

definition demo_bus_db :: reg_db where
  "demo_bus_db = snd (set_bus_status (snd (reserve id demo_mini 2000000 ''r1'' ''arbseat_t1_s'' ''seat'' ''mini'' demo_bus_request))
     2500000 2500000 ''r1'' ''approved'')"

definition demo_bus_row :: req_row where
  "demo_bus_row = (new_request ''r1'' ''t1'' ''seat'' ''mini'' 2000000 demo_bus_request)\<lparr>r_status := ''approved'', r_updated := 2500000\<rparr>"

definition demo_bus :: "string list bus_reg" where
  "demo_bus = \<lparr>br_db = demo_bus_db, br_host = demo_host, br_sent = [], br_log = []\<rparr>"

lemma demo_mini_eval:
  "demo_mini = \<lparr>rg_tokens = [\<lparr>t_id = ''t1'', t_name = ''seat'', t_host = ''mini'', t_hash = ''arbseat_t1_s'',
      t_status = ''active'', t_created = 1000000, t_expires = 10000000, t_request = None, t_updated = 1000000\<rparr>],
    rg_requests = [], rg_pins = [], rg_audit = []\<rparr>"
  unfolding demo_mini_def by code_simp

lemma demo_self: "q_self_report_json demo_bus_request = Some (JObj [])"
  by (simp add: demo_bus_request_def)

lemma demo_bus_db_eval:
  "demo_bus_db = \<lparr>rg_tokens = [\<lparr>t_id = ''t1'', t_name = ''seat'', t_host = ''mini'', t_hash = ''arbseat_t1_s'',
      t_status = ''approved'', t_created = 1000000, t_expires = 10000000, t_request = Some ''r1'', t_updated = 2500000\<rparr>],
    rg_requests = [demo_bus_row], rg_pins = [], rg_audit = []\<rparr>"
  by (simp add: demo_bus_db_def reserve_def demo_mini_eval find_token_def iso_rank_def demo_bus_row_def demo_self set_bus_status_def new_request_def Let_def)

lemma demo_bus_inv: "reg_inv (br_db demo_bus)"
  by (simp add: demo_bus_def demo_bus_db_eval reg_inv_def demo_bus_row_def new_request_def)

lemma demo_row:
  "r_id demo_bus_row = ''r1''" "r_host demo_bus_row = ''mini''" "r_sealing_pubkey demo_bus_row = Some (b64_encode demo_pk)"
  "r_sealing_fp demo_bus_row = Some demo_fp" "r_self_report_json demo_bus_row = Some (JObj [])"
  "r_roles_json demo_bus_row = Some (JArr [JStr ''claude''])" "r_reply_agent demo_bus_row = ''cli''"
  "r_status demo_bus_row = ''approved''" "r_decision demo_bus_row = None"
  by (simp_all add: demo_bus_row_def new_request_def demo_bus_request_def demo_request_def)

lemma demo_key: "decode_pinned_sealing_key demo_nacl (b64_encode demo_pk) demo_fp = Inr demo_pk"
  by (simp add: decode_pinned_sealing_key_def fingerprint_def demo_nacl_def demo_sk_def demo_pk_def demo_fp_def del: b64_encode.simps replicate.simps)

lemma demo_fresh: "assert_request_token_fresh demo_bus_db 3000000 ''r1'' = Inr ()"
  by (simp add: assert_request_token_fresh_def request_token_def demo_bus_db_eval demo_bus_row_def new_request_def iso_rank_def)

lemma demo_grant_sent:
  "\<exists>s'. try_provision demo_bus_env 3000000 ''now'' demo_bus_row demo_bus = (Inr (), s') \<and> grants (br_sent s') \<noteq> []"
proof -
  obtain h where run: "provision (demo_env demo_good) ''mini'' (JArr [JStr ''claude'']) demo_host = (Inr [(''claude-orch-mini'', ''p'')], h)"
    using demo_good_run by blast
  have seal: "\<exists>ct. seal demo_nacl ''r'' m demo_pk = Inr ct" for m
    using seal_unseal(1) [OF demo_nacl_contract, of demo_sk "''r''" m] by (simp add: demo_nacl_def demo_pk_def)
  have pin: "host_sealing_pin demo_bus_db ''mini'' = None" "\<exists>db. pin_host_sealing_key demo_bus_db 3000000 ''mini'' fp ''r1'' = (Inr (), db)" for fp
    by (simp_all add: host_sealing_pin_def pin_host_sealing_key_def demo_bus_db_eval)
  obtain db where db: "pin_host_sealing_key demo_bus_db 3000000 ''mini'' demo_fp ''r1'' = (Inr (), db)" using pin(2) by blast
  obtain ct where ct: "seal demo_nacl ''r'' (json_dumps compact_sorted (grant_bundle demo_bus_env demo_bus_row ''now'' [(''claude-orch-mini'', ''p'')] [''claude''] (JObj []))) demo_pk = Inr ct"
    using seal by blast
  have env: "be_nacl demo_bus_env = demo_nacl" "be_acl demo_bus_env = demo_env demo_good" "be_rnd demo_bus_env = ''r''"
    by (simp_all add: demo_bus_env_def)
  define s1 where "s1 = demo_bus\<lparr>br_host := h, br_db := db\<rparr>"
  have roles: "roles_json [''claude''] = JArr [JStr ''claude'']" by (simp add: roles_json_def)
  have tp: "try_provision demo_bus_env 3000000 ''now'' demo_bus_row demo_bus
      = send_grant demo_bus_env 3000000 demo_bus_row demo_fp (JObj []) ct s1"
    using ct by (simp add: try_provision_def demo_row s1_def env demo_bus_def demo_key demo_fresh pin(1) db run mini_names(9) roles)
  have ok: "be_send_ok demo_bus_env a d" for a d by (simp add: demo_bus_env_def)
  have rows: "rg_requests db = [demo_bus_row]"
    using db by (auto simp: pin_host_sealing_key_def demo_bus_db_eval split: option.splits if_splits)
  have "br_status 3000000 ''r1'' ''provisioned'' (s1\<lparr>br_sent := x\<rparr>) = (Inr (), snd (br_status 3000000 ''r1'' ''provisioned'' (s1\<lparr>br_sent := x\<rparr>)))" for x
    using rows by (simp add: br_status_def set_bus_status_def s1_def demo_row Let_def)
  then obtain s' where sg: "send_grant demo_bus_env 3000000 demo_bus_row demo_fp (JObj []) ct s1 = (Inr (), s')" and "br_sent s' \<noteq> []"
    using ok by (force simp: send_grant_def br_reply_def seq_s_def Let_def audit_def demo_row br_status_def split: sum.splits prod.splits)
  then have "br_sent s' = [(''cli'', BUS_GRANT_EVENT, grant_body demo_bus_env demo_bus_row demo_fp (JObj []) ct)]"
    using send_grant_frame [OF sg] by (simp add: s1_def demo_bus_def demo_row)
  with tp sg show ?thesis by (simp add: grants_def)
qed

lemma demo_queues: "bus_pending demo_bus_db = []" "bus_decided demo_bus_db = []" "bus_approved demo_bus_db = [demo_bus_row]"
  by (simp_all add: bus_pending_def bus_decided_def bus_approved_def by_created_def demo_bus_db_eval demo_row)

lemma demo_next: "r_next_attempt demo_bus_row = None"
  by (simp add: demo_bus_row_def new_request_def)

lemma demo_poll: "\<exists>s'. br_poll demo_bus_env 3000000 ''now'' demo_bus = (Inr (), s') \<and> grants (br_sent s') \<noteq> []"
proof -
  obtain s' where tp: "try_provision demo_bus_env 3000000 ''now'' demo_bus_row demo_bus = (Inr (), s')" "grants (br_sent s') \<noteq> []"
    using demo_grant_sent by blast
  have "br_db demo_bus = demo_bus_db" by (simp add: demo_bus_def)
  then have "br_poll demo_bus_env 3000000 ''now'' demo_bus = (Inr (), s')"
    by (simp add: br_poll_def demo_queues seq_s_def poll_approved_def demo_next br_provision_def tp(1))
  with tp(2) show ?thesis by blast
qed

definition demo_data :: dict where
  "demo_data = [(''event'', JStr BUS_REQUEST_EVENT), (''token'', JStr ''arbseat_t1_s''), (''name'', JStr ''seat''), (''host'', JStr ''mini''),
     (''pubkey'', JStr ''aa''), (''signing_pubkey'', JStr ''00''), (''sealing_pubkey'', JStr (b64_encode demo_pk)), (''sealing_fingerprint'', JStr demo_fp),
     (''reply_agent_id'', JStr ''cli''), (''client_nonce'', JStr ''n1''), (''issued_at'', JStr ''now''), (''signature'', JStr ''eA==''),
     (''roles'', JArr [JStr ''claude'']), (''self_report'', JObj [(''producers'', JArr []), (''supervisors'', JArr [])])]"

lemma demo_data_shape:
  "list_all (nonempty_at demo_data) br_required" "REPLY_ID_RE (sget demo_data ''reply_agent_id'')"
  "validate_self_report (dget demo_data ''self_report'') = Inr (JObj [(''producers'', JArr []), (''supervisors'', JArr [])])"
  by code_simp+

lemma demo_data_get:
  "dget demo_data ''event'' = JStr BUS_REQUEST_EVENT" "dget demo_data ''signature'' = JStr ''eA==''" "dget demo_data ''signing_pubkey'' = JStr ''00''"
  "dget demo_data ''pubkey'' = JStr ''aa''" "dget demo_data ''roles'' = JArr [JStr ''claude'']" "sget demo_data ''host'' = ''mini''"
  "sget demo_data ''sealing_pubkey'' = b64_encode demo_pk" "sget demo_data ''sealing_fingerprint'' = demo_fp"
  "sget demo_data ''token'' = ''arbseat_t1_s''" "sget demo_data ''name'' = ''seat''"
  by (simp_all add: demo_data_def sget_def dget_def)

lemma demo_data_ok:
  "request_shape demo_bus_env demo_data = Inr (''mini'', [''claude''], JObj [(''producers'', JArr []), (''supervisors'', JArr [])])"
  "verify_signed_data (be_ec demo_bus_env) demo_data"
proof -
  have nc: "be_nacl demo_bus_env = demo_nacl" by (simp add: demo_bus_env_def)
  show "request_shape demo_bus_env demo_data = Inr (''mini'', [''claude''], JObj [(''producers'', JArr []), (''supervisors'', JArr [])])"
    by (simp add: request_shape_def demo_data_get demo_data_shape mini_names bind_r_def nc demo_key)
  have codec: "py_fromhex ''00'' = Some [CHR 0x00]" "b64_decode_strict ''eA=='' = Some ''x''" "py_lower ''aa'' = ''aa''" "BUS_REQUEST_EVENT \<in> set SIGNED_EVENTS"
    by code_simp+
  show "verify_signed_data (be_ec demo_bus_env) demo_data"
    using codec(4) unfolding verify_signed_data_def demo_data_get prod.case json.case verify_fields_def codec(1-3) option.case
    by (simp add: demo_bus_env_def codec(3))
qed

lemma demo_key_given: "b64_encode demo_pk \<noteq> []" "demo_fp \<noteq> []"
  by (code_simp, simp add: demo_fp_def)

definition demo_start :: "string list bus_reg" where
  "demo_start = \<lparr>br_db = demo_mini, br_host = demo_host, br_sent = [], br_log = []\<rparr>"

definition demo_envelope :: dict where
  "demo_envelope = [(''kind'', JStr ''notify''), (''to'', JStr ''registrar''),
     (''payload'', JObj [(''event'', JStr BUS_REQUEST_EVENT), (''data'', JObj demo_data)])]"

lemma demo_filed: "\<exists>s'. br_handle demo_bus_env 2000000 ''r1'' demo_envelope demo_start = (Inr (), s') \<and> br_db s' \<noteq> br_db demo_start"
proof -
  have env: "be_agent_id demo_bus_env = ''registrar''" "be_sha demo_bus_env = id" by (simp_all add: demo_bus_env_def)
  have q: "given (q_sealing_pubkey (bus_request_dict demo_data r rs))" "given (q_sealing_fp (bus_request_dict demo_data r rs))"
    "q_self_report_json (bus_request_dict demo_data r rs) \<noteq> None" "q_roles_json (bus_request_dict demo_data r rs) \<noteq> None" for r rs
    using demo_key_given by (simp_all add: bus_request_dict_def demo_data_get given_def split: list.splits)
  have res: "\<exists>db. reserve_bus id demo_mini 2000000 ''r1'' ''arbseat_t1_s'' ''seat'' ''mini'' (bus_request_dict demo_data r rs) = (Inr ''r1'', db) \<and>
      db \<noteq> demo_mini" for r rs
  proof -
    have "find_token id demo_mini ''arbseat_t1_s'' = Some (hd (rg_tokens demo_mini))" by (simp add: find_token_def demo_mini_eval)
    moreover have "rg_requests demo_mini = []" "\<forall>u \<in> set (rg_tokens demo_mini). t_request u = None" "t_status (hd (rg_tokens demo_mini)) = ''active''"
      "t_name (hd (rg_tokens demo_mini)) = ''seat''" "t_host (hd (rg_tokens demo_mini)) = ''mini''"
      "\<not> iso_rank (t_expires (hd (rg_tokens demo_mini))) \<le> iso_rank 2000000"
      by (simp_all add: demo_mini_eval iso_rank_def)
    ultimately have "\<exists>db. reserve id demo_mini 2000000 ''r1'' ''arbseat_t1_s'' ''seat'' ''mini'' (bus_request_dict demo_data r rs)
        = (Inr ''r1'', db) \<and> rg_requests db \<noteq> []"
      by (simp add: reserve_def)
    with q \<open>rg_requests demo_mini = []\<close> show ?thesis unfolding reserve_bus_def by (metis (no_types, lifting))
  qed
  obtain db where db: "reserve_bus id demo_mini 2000000 ''r1'' ''arbseat_t1_s'' ''seat'' ''mini''
      (bus_request_dict demo_data (JObj [(''producers'', JArr []), (''supervisors'', JArr [])]) [''claude'']) = (Inr ''r1'', db)" "db \<noteq> demo_mini"
    using res by blast
  have pin: "host_sealing_pin demo_mini ''mini'' = None" by (simp add: host_sealing_pin_def demo_mini_eval)
  have "br_request demo_bus_env 2000000 ''r1'' demo_data demo_start = (Inr (), audit ''registration_pending'' ''r1'' (demo_start\<lparr>br_db := db\<rparr>))"
    using db(1) by (simp add: br_request_def demo_data_shape demo_data_ok demo_data_get demo_start_def pin env)
  moreover have "br_handle demo_bus_env 2000000 ''r1'' demo_envelope demo_start = br_request demo_bus_env 2000000 ''r1'' demo_data demo_start"
    by (simp add: br_handle_def demo_envelope_def env dget_def demo_data_get(1) [unfolded dget_def])
  ultimately show ?thesis using db(2) by (simp add: audit_def demo_start_def)
qed

text \<open>What filing may raise, and what an accepted request has gone through.\<close>

lemma mapM_r_error: "mapM_r f xs = Inl e \<Longrightarrow> \<exists>x \<in> set xs. f x = Inl e"
  by (induction xs) (auto simp: bind_r_def split: sum.splits)

lemma report_error:
  assumes "validate_self_report v = Inl e"
  shows "e \<in> {''ValueError'', ''TypeError''}"
proof -
  have sup: "check_supervisor x = Inl e \<Longrightarrow> e \<in> {''ValueError'', ''TypeError''}" for x
    by (auto simp: check_supervisor_def guard_r_def split: json.splits if_splits)
  have prod: "check_producer x = Inl e \<Longrightarrow> e \<in> {''ValueError'', ''TypeError''}" for x
    by (auto simp: check_producer_def guard_r_def split: json.splits if_splits)
  from assms show ?thesis
  proof (rule contrapos_pp)
    assume e: "e \<notin> {''ValueError'', ''TypeError''}"
    have "mapM_r check_supervisor xs \<noteq> Inl e" "mapM_r check_producer xs \<noteq> Inl e" for xs
      using mapM_r_error sup prod e by fastforce+
    moreover have "e \<noteq> ''ValueError''" using e by simp
    ultimately show "validate_self_report v \<noteq> Inl e"
      by (auto simp: validate_self_report_def bind_r_def simp del: insert_iff split: json.split if_split sum.split option.split)
  qed
qed

lemma shape_error:
  assumes "request_shape env data = Inl e"
  shows "e \<in> {''AclProvisionError'', ''ValueError'', ''TypeError''}"
  using assms report_error
  by (auto simp: request_shape_def bind_r_def decode_pinned_sealing_key_def split: sum.splits option.splits if_splits)

lemma reserve_bus_db:
  assumes "reserve_bus sha db t rid token name host q = (r, db')"
  shows "db' = db \<and> (\<exists>e. r = Inl e) \<or> r = Inr rid \<and> reserve sha db t rid token name host q = (Inr rid, db')"
  using assms by (auto simp: reserve_bus_def reserve_def split: if_splits option.splits)

lemma br_request_cases:
  assumes "br_request env t rid data s = (res, s')"
  obtains (refused) "br_sent s' = br_sent s" "br_host s' = br_host s" "br_db s' = br_db s" "res = Inr ()"
  | (raised) e where "res = Inl e" "e \<in> {''IntegrityError'', ''TypeError''}" "s' = s"
  | (filed) host roles report where "res = Inr ()" "br_sent s' = br_sent s" "br_host s' = br_host s"
      "REPLY_ID_RE (sget data ''reply_agent_id'')" "request_shape env data = Inr (host, roles, report)"
      "verify_signed_data (be_ec env) data"
      "host_sealing_pin (br_db s) host \<in> {None, Some (sget data ''sealing_fingerprint'')}"
      "reserve (be_sha env) (br_db s) t rid (sget data ''token'') (sget data ''name'') host (bus_request_dict data report roles)
        = (Inr rid, br_db s')"
proof (cases "request_shape env data")
  case (Inl e)
  with assms shape_error [OF Inl] refused raised show ?thesis
    by (auto simp: br_request_def audit_def split: if_splits)
next
  case (Inr x)
  obtain host roles report where x: "x = (host, roles, report)" by (cases x) auto
  obtain r db where rb: "reserve_bus (be_sha env) (br_db s) t rid (sget data ''token'') (sget data ''name'') host
      (bus_request_dict data report roles) = (r, db)" by fastforce
  show ?thesis
  proof (cases "list_all (nonempty_at data) br_required \<and> REPLY_ID_RE (sget data ''reply_agent_id'') \<and> verify_signed_data (be_ec env) data \<and>
      host_sealing_pin (br_db s) host \<in> {None, Some (sget data ''sealing_fingerprint'')}")
    case False
    with assms Inr x refused show ?thesis by (auto simp: br_request_def audit_def split: if_splits)
  next
    case True
    then have res: "(res, s') = (case (r, db) of
          (Inl (TokenError _), db) \<Rightarrow> (Inr (), audit ''invalid_registration_token'' [] (s\<lparr>br_db := db\<rparr>))
        | (Inl IntegrityError, db) \<Rightarrow> (Inl ''IntegrityError'', s\<lparr>br_db := db\<rparr>)
        | (Inr i, db) \<Rightarrow> (Inr (), audit ''registration_pending'' i (s\<lparr>br_db := db\<rparr>)))"
      using assms Inr x rb by (auto simp: br_request_def)
    from reserve_bus_db [OF rb] show ?thesis
    proof
      assume "db = br_db s \<and> (\<exists>e. r = Inl e)"
      then show ?thesis using res refused raised by (auto simp: audit_def split: reg_error.splits)
    next
      assume "r = Inr rid \<and> reserve (be_sha env) (br_db s) t rid (sget data ''token'') (sget data ''name'') host
        (bus_request_dict data report roles) = (Inr rid, db)"
      then show ?thesis using res True Inr x filed by (auto simp: audit_def)
    qed
  qed
qed

lemma br_handle_cases:
  assumes "br_handle env t rid e s = (res, s')"
  obtains (ignored) "res = Inr ()" "s' = s"
  | (request) p data where "dget e ''payload'' = JObj p" "dget p ''data'' = JObj data" "dget e ''to'' = JStr (be_agent_id env)"
      "br_request env t rid data s = (res, s')"
proof (cases "dget e ''kind'' \<noteq> JStr ''notify'' \<or> dget e ''to'' \<noteq> JStr (be_agent_id env)")
  case True
  with assms show ?thesis by (intro ignored) (auto simp: br_handle_def)
next
  case False
  show ?thesis
  proof (cases "\<exists>p data. dget e ''payload'' = JObj p \<and> dget p ''data'' = JObj data \<and> br_request env t rid data s = (res, s')")
    case True
    with False request show ?thesis by blast
  next
    case no: False
    then have "res = Inr () \<and> s' = s"
      using assms False by (cases "dget e ''payload''"; simp add: br_handle_def split: if_splits json.splits)
    then show ?thesis using ignored by blast
  qed
qed

section \<open>Properties\<close>

text \<open>C29: What a grant carries and whom it is for. When an attempt to provision a request sends a grant, the
  request's token is fresh, the host's key pin is absent or the request's fingerprint and is that
  fingerprint afterwards, and the provisioner has just returned credentials for the request's host. The
  grant goes to the agent that filed the request, with its nonce, and its sealed bundle opens with the
  private half of the registered key to the JSON text of exactly these credentials.\<close>

theorem grant_opens_for_requester:
  assumes "try_provision env t issued r s = (res, s')" and "grants (br_sent s') \<noteq> grants (br_sent s)"
    and "nacl_contract (be_nacl env)" and "nacl_sk_ok (be_nacl env) sk"
    and "r_sealing_pubkey r = Some (b64_encode (nacl_pk_of (be_nacl env) sk))"
  shows "\<exists>body fp ct creds h roles inventory sealed.
     br_sent s' = br_sent s @ [(r_reply_agent r, BUS_GRANT_EVENT, body)] \<and>
     dget body ''client_nonce'' = JStr (r_client_nonce r) \<and> dget body ''sealed_bundle_b64'' = JStr ct \<and> b64_decode ct = Some sealed \<and>
     provision (be_acl env) (r_host r) (roles_json roles) (br_host s) = (Inr creds, h) \<and>
     (\<exists>clear. unseal (be_nacl env) sealed sk = Inr clear \<and>
        json_loads clear = Some (jsort (grant_bundle env r issued creds roles inventory))) \<and>
     assert_request_token_fresh (br_db s) t (r_id r) = Inr () \<and> r_sealing_fp r = Some fp \<and>
     host_sealing_pin (br_db s) (r_host r) \<in> {None, Some fp} \<and> host_sealing_pin (br_db s') (r_host r) = Some fp"
  using assms(1,2)
proof (cases rule: try_provision_granted)
  case (1 spk fp pk inventory rolesj roles creds h ct)
  have pk: "pk = nacl_pk_of (be_nacl env) sk"
    using 1(1,5) assms(5) by (auto simp: decode_pinned_sealing_key_def split: if_splits)
  let ?clear = "json_dumps compact_sorted (grant_bundle env r issued creds roles inventory)"
  have ct: "ct = nacl_sealed_encrypt (be_nacl env) (be_rnd env) (nacl_pk_of (be_nacl env) sk) ?clear"
    using 1(10) seal_unseal(1) [OF assms(3,4)] unfolding pk by auto
  then have "unseal (be_nacl env) ct sk = Inr ?clear" using seal_unseal(2) [OF assms(3,4)] by simp
  moreover have "json_loads ?clear = Some (jsort (grant_bundle env r issued creds roles inventory))"
    using json_loads_dumps [OF compact_sorted_ok grant_bundle_wf [OF provision_users_distinct [OF 1(9)]]]
    by (simp add: json_norm_def compact_sorted_def)
  ultimately show ?thesis
    using 1 grant_body_fields [of env r fp inventory ct]
    by (intro exI [of _ "grant_body env r fp inventory ct"] exI [of _ fp] exI [of _ "b64_encode ct"] exI [of _ creds] exI [of _ h]
        exI [of _ roles] exI [of _ inventory] exI [of _ ct]) auto
qed

theorem grant_opens_for_requester_witness:
  "\<exists>s' body sealed ct. try_provision demo_bus_env 3000000 ''now'' demo_bus_row demo_bus = (Inr (), s') \<and>
     br_sent s' = [(''cli'', BUS_GRANT_EVENT, body)] \<and> dget body ''sealed_bundle_b64'' = JStr ct \<and> b64_decode ct = Some sealed \<and>
     (\<exists>clear. unseal demo_nacl sealed demo_sk = Inr clear \<and> json_loads clear \<noteq> None)"
proof -
  obtain s' where s': "try_provision demo_bus_env 3000000 ''now'' demo_bus_row demo_bus = (Inr (), s')" "grants (br_sent s') \<noteq> []"
    using demo_grant_sent by blast
  have nc: "be_nacl demo_bus_env = demo_nacl" "nacl_pk_of demo_nacl demo_sk = demo_pk" "nacl_sk_ok demo_nacl demo_sk" "br_sent demo_bus = []"
    by (simp_all add: demo_bus_env_def demo_nacl_def demo_pk_def demo_bus_def)
  show ?thesis
    using grant_opens_for_requester [OF s'(1), of demo_sk] s' demo_nacl_contract by (auto simp: nc demo_row grants_def)
qed

text \<open>C28: Only operator-approved requests are granted. Every grant message a poll of the bus registrar adds, on
  whatever exit of the poll, answers a bus request of the database that was already approved, or that was
  pending with a recorded decision other than deny: it goes to that request's agent and names its id. An
  undecided, denied, failed or already provisioned request gets none.\<close>

theorem poll_grants_only_approved:
  assumes "reg_inv (br_db s)" and "br_poll env now issued s = (res, s')"
    and "m \<in> set (grants (br_sent s'))" and "m \<notin> set (grants (br_sent s))"
  shows "\<exists>r \<in> set (rg_requests (br_db s)). \<exists>body. m = (r_reply_agent r, BUS_GRANT_EVENT, body) \<and>
    dget body ''request_id'' = JStr (r_id r) \<and> r_self_report_json r \<noteq> None \<and>
    (r_status r = ''approved'' \<or> r_status r = ''pending'' \<and> r_decision r \<notin> {None, Some ''deny''})"
proof -
  obtain a s1 where e1: "each_s (bus_pending (br_db s)) (poll_timeout env now) s = (a, s1)" by fastforce
  obtain b s2 where e2: "each_s (bus_decided (br_db s1)) (poll_decided env now) s1 = (b, s2)" by fastforce
  obtain c s3 where e3: "each_s (bus_approved (br_db s2)) (poll_approved env now issued) s2 = (c, s3)" by fastforce
  note p1 = poll_phase_timeout [OF e1 assms(1)]
  then have inv1: "reg_inv (br_db s1)" by (simp add: poll_rel_def)
  note p2 = poll_phase_decided [OF e2 inv1]
  have same: "grants (br_sent s1) = grants (br_sent s)" "grants (br_sent s2) = grants (br_sent s)"
    using p1 p2 by (simp_all add: poll_rel_def)
  from assms(2) e1 e2 e3 have "s' \<in> {s1, s2, s3}"
    by (cases a; cases b) (simp_all add: br_poll_def seq_s_def)
  with assms(3,4) same have "m \<in> set (grants (br_sent s3))" "m \<notin> set (grants (br_sent s2))" by auto
  with poll_phase_approved [OF e3] obtain r2 body where r2: "r2 \<in> set (bus_approved (br_db s2))"
    "m = (r_reply_agent r2, BUS_GRANT_EVENT, body)" "dget body ''request_id'' = JStr (r_id r2)" by blast
  obtain r where r: "r \<in> set (rg_requests (br_db s))" "same_but_status r r2" "r_self_report_json r \<noteq> None"
    "r_status r = ''approved'' \<or> r_status r = ''pending'' \<and> r_decision r \<notin> {None, Some ''deny''}"
    by (rule approved_origin [OF assms(1) p1 p2 r2(1)])
  show ?thesis
    by (intro bexI [OF _ r(1)] exI [of _ body])
      (use r(3,4) r2(2,3) same_but_status_keep(1,3) [OF r(2)] in auto)
qed

theorem poll_grants_only_approved_witness:
  "\<exists>s' m body. br_poll demo_bus_env 3000000 ''now'' demo_bus = (Inr (), s') \<and> m \<in> set (grants (br_sent s')) \<and>
     m = (''cli'', BUS_GRANT_EVENT, body) \<and> dget body ''request_id'' = JStr ''r1'' \<and> r_status demo_bus_row = ''approved''"
proof -
  obtain s' where s': "br_poll demo_bus_env 3000000 ''now'' demo_bus = (Inr (), s')" "grants (br_sent s') \<noteq> []" using demo_poll by blast
  then obtain m where m: "m \<in> set (grants (br_sent s'))" by (meson last_in_set)
  have "grants (br_sent demo_bus) = []" "rg_requests (br_db demo_bus) = [demo_bus_row]"
    by (simp_all add: demo_bus_def grants_def demo_bus_db_eval)
  with poll_grants_only_approved [OF demo_bus_inv s'(1) m] s' m show ?thesis by (auto simp: demo_row)
qed

text \<open>What an incoming message can do. Handling a message never sends anything and never touches the ACL host.
  It changes the store only by the reservation of the presented token, and only for a well-formed
  request addressed to the registrar whose signature verifies and whose sealing key agrees with the
  host's pin. Only two exceptions can leave the handler, an id collision and the \<open>TypeError\<close> of a
  report with an unhashable field, and both leave the state as it was.\<close>

theorem handle_files_only_verified:
  assumes "br_handle env t rid e s = (res, s')"
  shows "br_sent s' = br_sent s \<and> br_host s' = br_host s \<and>
    (\<forall>x. res = Inl x \<longrightarrow> x \<in> {''IntegrityError'', ''TypeError''} \<and> s' = s) \<and>
    (br_db s' \<noteq> br_db s \<longrightarrow> (\<exists>p data host roles report.
       dget e ''payload'' = JObj p \<and> dget p ''data'' = JObj data \<and> dget e ''to'' = JStr (be_agent_id env) \<and>
       verify_signed_data (be_ec env) data \<and> request_shape env data = Inr (host, roles, report) \<and>
       host_sealing_pin (br_db s) host \<in> {None, Some (sget data ''sealing_fingerprint'')} \<and>
       reserve (be_sha env) (br_db s) t rid (sget data ''token'') (sget data ''name'') host (bus_request_dict data report roles)
         = (Inr rid, br_db s')))"
  using assms
proof (cases rule: br_handle_cases)
  case (request p data)
  from request(4) show ?thesis
  proof (cases rule: br_request_cases)
    case (filed host roles report)
    then show ?thesis using request(1-3) by blast
  qed auto
qed simp

theorem handle_files_only_verified_witness:
  "\<exists>s'. br_handle demo_bus_env 2000000 ''r1'' demo_envelope demo_start = (Inr (), s') \<and> br_sent s' = [] \<and> br_db s' \<noteq> br_db demo_start \<and>
     (\<exists>token name host q. reserve id demo_mini 2000000 ''r1'' token name host q = (Inr ''r1'', br_db s'))"
proof -
  obtain s' where s': "br_handle demo_bus_env 2000000 ''r1'' demo_envelope demo_start = (Inr (), s')" "br_db s' \<noteq> br_db demo_start"
    using demo_filed by blast
  have st: "br_sent demo_start = []" "br_db demo_start = demo_mini" "be_sha demo_bus_env = id"
    by (simp_all add: demo_start_def demo_bus_env_def)
  from handle_files_only_verified [OF s'(1)] s' show ?thesis unfolding st by blast
qed

text \<open>An unsigned message whose report names a producer with a list for its variable.\<close>

definition crash_data :: dict where
  "crash_data = map (\<lambda>k. (k, JStr ''x'')) br_required @
     [(''event'', JStr BUS_REQUEST_EVENT), (''roles'', JArr [JStr ''claude'']),
      (''self_report'', JObj [(''supervisors'', JArr []), (''producers'', JArr [JObj [(''service'', JStr ''x''), (''env_var'', JArr [])]])])]"

definition crash_envelope :: "string \<Rightarrow> dict" where
  "crash_envelope agent = [(''kind'', JStr ''notify''), (''to'', JStr agent),
     (''payload'', JObj [(''event'', JStr BUS_REQUEST_EVENT), (''data'', JObj crash_data)])]"

lemma crash_request:
  "list_all (nonempty_at crash_data) br_required" "REPLY_ID_RE (sget crash_data ''reply_agent_id'')"
  "validate_host (sget crash_data ''host'') = Inr ''x''" "validate_declared_roles (dget crash_data ''roles'') = Inr [''claude'']"
  "validate_self_report (dget crash_data ''self_report'') = Inl ''TypeError''" "dget crash_data ''event'' = JStr BUS_REQUEST_EVENT"
  by code_simp+

lemma crash_envelope_wf: "json_wf (JObj (crash_envelope agent))"
proof -
  have "json_wf (JObj crash_data)" by code_simp
  then show ?thesis by (simp add: crash_envelope_def list_all_iff del: json_wf.simps(3)) (simp add: list_all_iff)
qed

text \<open>An unauthenticated message ends the registrar's loop. Whatever the store, the clock and the keys are, the
  message above, whose signature is never looked at, makes the round that receives it raise \<open>TypeError\<close>
  with nothing done but the message consumed: the membership test of the report's validation hashes a
  list, and only a \<open>ValueError\<close> or an \<open>AclProvisionError\<close> is caught there.\<close>

theorem unsigned_report_raises:
  "br_run env t rid issued prefix (bus_send (\<lambda>_. []) prefix (be_agent_id env) (crash_envelope (be_agent_id env))) s
    = (Inl ''TypeError'', s, \<lambda>_. [])"
proof -
  have "request_shape env crash_data = Inl ''TypeError''"
    by (simp add: request_shape_def crash_request bind_r_def)
  then have "br_request env t rid crash_data s = (Inl ''TypeError'', s)"
    by (simp add: br_request_def crash_request)
  moreover have "dget (crash_envelope a) ''kind'' = JStr ''notify''" "dget (crash_envelope a) ''to'' = JStr a"
    "dget (crash_envelope a) ''payload'' = JObj [(''event'', JStr BUS_REQUEST_EVENT), (''data'', JObj crash_data)]"
    "dget [(''event'', JStr BUS_REQUEST_EVENT), (''data'', JObj crash_data)] ''event'' = JStr BUS_REQUEST_EVENT"
    "dget [(''event'', JStr BUS_REQUEST_EVENT), (''data'', JObj crash_data)] ''data'' = JObj crash_data" "crash_envelope a \<noteq> []" for a
    by (simp_all add: crash_envelope_def dget_def)
  ultimately show ?thesis
    using send_receive [OF _ crash_envelope_wf, of "\<lambda>_. []" prefix "be_agent_id env"]
    by (simp add: br_run_def br_handle_def crash_request(6) seq_s_def)
qed

text \<open>C39: Provisioning is bounded. When an attempt raises, the request's attempt count in the store goes up by exactly
  one and the next attempt is set to the delay of the schedule; at the fifth failure, and not before,
  the request becomes \<open>provision_failed\<close> and its token denied, so a later poll does not pick it up again.\<close>

theorem failed_attempt_exact:
  assumes "try_provision env t issued r s = (Inl e, s1)" and "reg_request_row (br_db s1) (r_id r) = Some r0"
    and "br_provision env t issued r s = (res, s')"
  shows "reg_request_row (br_db s') (r_id r) = Some (r0\<lparr>r_attempts := r_attempts r0 + 1,
      r_next_attempt := Some (t + RETRY_DELAYS ! (min (nat (r_attempts r)) 4) * 1000000), r_last_error := Some (take 1000 e),
      r_status := (if r_attempts r0 \<ge> 4 then ''provision_failed'' else r_status r0), r_updated := t\<rparr>) \<and>
    (r_attempts r0 \<ge> 4 \<longrightarrow> (\<forall>k \<in> set (rg_tokens (br_db s')). t_request k = Some (r_id r) \<longrightarrow> t_status k = ''denied''))"
proof -
  let ?f = "\<lambda>q. q\<lparr>r_attempts := r_attempts r0 + 1, r_next_attempt := Some (t + retry_delay (r_attempts r) * 1000000),
      r_last_error := Some (take 1000 e), r_status := (if MAX_ATTEMPTS \<le> r_attempts r0 + 1 then ''provision_failed'' else r_status q), r_updated := t\<rparr>"
  obtain out db where raf: "record_attempt_failure (br_db s1) t t (r_id r) e (t + retry_delay (r_attempts r) * 1000000) MAX_ATTEMPTS
      = (out, db)" by fastforce
  have out: "out = Inr (r_attempts r0 + 1, MAX_ATTEMPTS \<le> r_attempts r0 + 1)"
    and rows: "rg_requests db = map (\<lambda>q. if r_id q = r_id r then ?f q else q) (rg_requests (br_db s1))"
    and toks: "rg_tokens db = map (\<lambda>k. if MAX_ATTEMPTS \<le> r_attempts r0 + 1 \<and> t_request k = Some (r_id r)
        then k\<lparr>t_status := ''denied'', t_updated := t\<rparr> else k) (rg_tokens (br_db s1))"
    using raf assms(2) by (auto simp: record_attempt_failure_def Let_def map_requests_def map_tokens_def intro!: map_idI [symmetric])
  have reply: "br_reply env r BUS_DENY_EVENT d q = (x, q') \<Longrightarrow> br_db q' = br_db q" for d q x q'
    by (erule br_reply_cases) simp_all
  have db: "br_db s' = db" using assms(1,3) raf out
    by (auto simp: br_provision_def seq_s_def audit_def split: sum.splits prod.splits if_splits dest!: reply)
  have find: "List.find (\<lambda>q. r_id q = i) (map (\<lambda>q. if r_id q = i then g q else q) xs) = map_option g (List.find (\<lambda>q. r_id q = i) xs)"
    if "\<And>q. r_id (g q) = r_id q" for g i xs
    using that by (induction xs) auto
  have "reg_request_row (br_db s') (r_id r) = Some (?f r0)"
    using assms(2) unfolding reg_request_row_def db rows by (subst find) simp_all
  moreover have "retry_delay (r_attempts r) = RETRY_DELAYS ! (min (nat (r_attempts r)) 4)"
  proof -
    have "length RETRY_DELAYS - 1 = 4" by (simp add: RETRY_DELAYS_def)
    then show ?thesis by (simp only: retry_delay_def)
  qed
  moreover have "MAX_ATTEMPTS \<le> r_attempts r0 + 1 \<longleftrightarrow> 4 \<le> r_attempts r0" by (auto simp: MAX_ATTEMPTS_def)
  moreover have "t_status k = ''denied''" if "4 \<le> r_attempts r0" "k \<in> set (rg_tokens (br_db s'))" "t_request k = Some (r_id r)" for k
    using that unfolding db toks by (auto simp: MAX_ATTEMPTS_def)
  ultimately show ?thesis by simp
qed

theorem failed_attempt_exact_witness:
  "\<exists>res s'. br_provision (demo_bus_env\<lparr>be_acl := demo_env demo_lossy\<rparr>) 3000000 ''now'' demo_bus_row demo_bus = (res, s') \<and>
     map_option r_attempts (reg_request_row (br_db s') ''r1'') = Some 1 \<and>
     map_option r_next_attempt (reg_request_row (br_db s') ''r1'') = Some (Some 8000000)"
proof -
  let ?env = "demo_bus_env\<lparr>be_acl := demo_env demo_lossy\<rparr>"
  have roles: "roles_json [''claude''] = JArr [JStr ''claude'']" by (simp add: roles_json_def)
  have "\<exists>s1. try_provision ?env 3000000 ''now'' demo_bus_row demo_bus = (Inl ''RedisError'', s1) \<and> br_db s1 = demo_bus_db"
    using demo_lossy_run by (simp add: try_provision_def demo_row demo_bus_env_def demo_bus_def demo_key demo_fresh mini_names(9)
        roles host_sealing_pin_def demo_bus_db_eval acl_exc_name_def demo_fresh [unfolded demo_bus_db_eval])
  then obtain s1 where s1: "try_provision ?env 3000000 ''now'' demo_bus_row demo_bus = (Inl ''RedisError'', s1)" "br_db s1 = demo_bus_db"
    by blast
  have row: "reg_request_row (br_db s1) (r_id demo_bus_row) = Some demo_bus_row" "r_attempts demo_bus_row = 0"
    unfolding s1(2) by (simp_all add: reg_request_row_def demo_bus_db_eval demo_bus_row_def new_request_def)
  obtain res s' where br: "br_provision ?env 3000000 ''now'' demo_bus_row demo_bus = (res, s')" by fastforce
  from failed_attempt_exact [OF s1(1) row(1) br] br show ?thesis by (auto simp: demo_row row RETRY_DELAYS_def)
qed

end
