(* ===== verification/Owner_Key.thy ===== *)
theory Owner_Key
  imports Registration_Protocol
begin

text \<open>
  The owner key of the seat registrar (\<open>src/src/arb_registration/nip_oa.py\<close>): decoding of a hexadecimal or bech32 secret, the guards
  around the curve library and the signed owner tag. The library (\<open>coincurve\<close>) and SHA-256 are parameters.
\<close>

unbundle bit_operations_syntax

section \<open>Bech32\<close>

datatype owner_exc = OwnerKeyError string | OwnerOther string

definition CURVE_ORDER :: nat where
  "CURVE_ORDER = 0xFFFFFFFFFFFFFFFFFFFFFFFFFFFFFFFEBAAEDCE6AF48A03BBFD25E8CD0364141"

definition BECH32_CHARSET :: string where
  "BECH32_CHARSET = ''qpzry9x8gf2tvdw0s3jn54khce6mua7l''"

definition bech32_hrp_expand :: "string \<Rightarrow> nat list" where
  "bech32_hrp_expand hrp = map (\<lambda>c. drop_bit 5 (of_char c)) hrp @ [0] @ map (\<lambda>c. of_char c AND 31) hrp"

definition generators :: "nat list" where
  "generators = [0x3B6A57B2, 0x26508E6D, 0x1EA119FA, 0x3D4233DD, 0x2A1462B3]"

definition polymod_step :: "nat \<Rightarrow> nat \<Rightarrow> nat" where
  "polymod_step checksum value =
    (let top = drop_bit 25 checksum
     in fold (\<lambda>(index, generator) c. if drop_bit index top AND 1 \<noteq> 0 then c XOR generator else c) (enumerate 0 generators)
          (push_bit 5 (checksum AND 0x1FFFFFF) XOR value))"

definition bech32_polymod :: "nat list \<Rightarrow> nat" where
  "bech32_polymod values = fold (\<lambda>v c. polymod_step c v) values 1"

text \<open>The inner loop: full groups leave the accumulator from the top. The code calls it with \<open>to_bits = 8\<close>; with 0 it would not end.\<close>

fun emit_groups :: "nat \<Rightarrow> nat \<Rightarrow> nat \<Rightarrow> nat list \<times> nat" where
  "emit_groups to_bits acc bits =
    (if 0 < to_bits \<and> to_bits \<le> bits
     then (let (gs, rest) = emit_groups to_bits acc (bits - to_bits)
           in ((drop_bit (bits - to_bits) acc AND (2 ^ to_bits - 1)) # gs, rest))
     else ([], bits))"

declare emit_groups.simps [simp del]

fun convert_loop :: "nat list \<Rightarrow> nat \<Rightarrow> nat \<Rightarrow> nat \<Rightarrow> nat \<Rightarrow> nat list \<Rightarrow> (nat list \<times> nat \<times> nat) option" where
  "convert_loop [] from_bits to_bits acc bits out = Some (out, acc, bits)"
| "convert_loop (v # vs) from_bits to_bits acc bits out =
    (if drop_bit from_bits v \<noteq> 0 then None
     else (let acc' = push_bit from_bits acc OR v;
               (gs, rest) = emit_groups to_bits acc' (bits + from_bits)
           in convert_loop vs from_bits to_bits acc' rest (out @ gs)))"

definition convert_bits :: "nat list \<Rightarrow> nat \<Rightarrow> nat \<Rightarrow> bool \<Rightarrow> nat list option" where
  "convert_bits data from_bits to_bits pad =
    (case convert_loop data from_bits to_bits 0 0 [] of
       None \<Rightarrow> None
     | Some (out, acc, bits) \<Rightarrow>
        (let last = push_bit (to_bits - bits) acc AND (2 ^ to_bits - 1)
         in if pad then (if bits \<noteq> 0 then Some (out @ [last]) else Some out)
            else if from_bits \<le> bits \<or> last \<noteq> 0 then None
            else Some out))"

text \<open>A character that \<open>str.upper\<close> changes.\<close>

definition upper_changes :: "char \<Rightarrow> bool" where
  "upper_changes c = (let n = (of_char c :: nat) in
     (97 \<le> n \<and> n \<le> 122) \<or> n = 181 \<or> n = 223 \<or> (224 \<le> n \<and> n \<le> 255 \<and> n \<noteq> 247))"

fun py_rfind :: "string \<Rightarrow> char \<Rightarrow> int" where
  "py_rfind s c = (if c \<in> set s then int (length s) - 1 - int (length (takeWhile (\<lambda>d. d \<noteq> c) (rev s))) else -1)"

definition decode_nsec :: "string \<Rightarrow> (owner_exc, string) res" where
  "decode_nsec value =
    (if py_lower value \<noteq> value \<and> list_ex upper_changes value then Inl (OwnerKeyError ''nsec must not mix uppercase and lowercase'')
     else
      (let normalized = py_lower value;
           separator = py_rfind normalized CHR ''1''
       in if separator < 1 \<or> int (length normalized) < separator + 7 then Inl (OwnerKeyError ''nsec is malformed'')
          else
           (let hrp = take (nat separator) normalized
            in if hrp \<noteq> ''nsec'' then Inl (OwnerKeyError ''owner key bech32 prefix must be nsec'')
               else (case those (map (index_of BECH32_CHARSET) (drop (nat separator + 1) normalized)) of
                       None \<Rightarrow> Inl (OwnerKeyError ''nsec contains an invalid bech32 character'')
                     | Some data \<Rightarrow>
                        (if bech32_polymod (bech32_hrp_expand hrp @ data) \<noteq> 1 then Inl (OwnerKeyError ''nsec checksum is invalid'')
                         else (case convert_bits (take (length data - 6) data) 5 8 False of
                                 None \<Rightarrow> Inl (OwnerKeyError ''nsec payload must decode to 32 bytes'')
                               | Some decoded \<Rightarrow>
                                  (if length decoded \<noteq> 32 then Inl (OwnerKeyError ''nsec payload must decode to 32 bytes'')
                                   else Inr (map char_of decoded))))))))"

section \<open>The secret\<close>

definition int_from_bytes :: "string \<Rightarrow> nat" where
  "int_from_bytes bs = fold (\<lambda>b n. n * 256 + of_char b) bs 0"

definition decode_secret :: "string \<Rightarrow> (owner_exc, string) res" where
  "decode_secret value =
    bind_r (if length value = 64
            then (case py_fromhex value of None \<Rightarrow> Inl (OwnerKeyError ''owner key must be 64-hex or nsec'') | Some s \<Rightarrow> Inr s)
            else if py_startswith (py_lower value) ''nsec1'' then decode_nsec value
            else Inl (OwnerKeyError ''owner key must be 64-hex or nsec''))
      (\<lambda>secret.
        if length secret \<noteq> 32 \<or> \<not> (0 < int_from_bytes secret \<and> int_from_bytes secret < CURVE_ORDER)
        then Inl (OwnerKeyError ''owner key is outside the secp256k1 scalar range'') else Inr secret)"

text \<open>The library: each function is \<open>None\<close> where the library raises \<open>ValueError\<close>.\<close>

record curve =
  cv_xonly :: "string \<Rightarrow> string option"                           \<comment> \<open>\<open>PublicKeyXOnly.from_secret(secret).format()\<close>\<close>
  cv_parses :: "string \<Rightarrow> bool"                                  \<comment> \<open>\<open>PublicKeyXOnly(raw)\<close> does not raise\<close>
  cv_sign :: "string \<Rightarrow> string \<Rightarrow> string \<Rightarrow> string option"        \<comment> \<open>secret, message, auxiliary randomness\<close>
  cv_verify :: "string \<Rightarrow> string \<Rightarrow> string \<Rightarrow> bool option"        \<comment> \<open>key, signature, message\<close>
  cv_sha256 :: "string \<Rightarrow> string"

definition bytes_hex :: "string \<Rightarrow> string" where
  "bytes_hex bs = concat (map (\<lambda>b. [hex_char (of_char b div 16), hex_char (of_char b mod 16)]) bs)"

definition xonly_pubkey :: "curve \<Rightarrow> string \<Rightarrow> (owner_exc, string) res" where
  "xonly_pubkey cv secret =
    (if length secret \<noteq> 32 then Inl (OwnerKeyError ''owner key is outside the secp256k1 scalar range'')
     else (case cv_xonly cv secret of
             None \<Rightarrow> Inl (OwnerKeyError ''owner key is outside the secp256k1 scalar range'')
           | Some pk \<Rightarrow> Inr (bytes_hex pk)))"

definition is_valid_xonly :: "curve \<Rightarrow> string \<Rightarrow> bool" where
  "is_valid_xonly cv raw = cv_parses cv raw"

definition schnorr_sign :: "curve \<Rightarrow> string \<Rightarrow> string \<Rightarrow> string \<Rightarrow> (owner_exc, string) res" where
  "schnorr_sign cv message secret aux =
    (if length message \<noteq> 32 \<or> length secret \<noteq> 32 \<or> length aux \<noteq> 32 then Inl (OwnerKeyError ''BIP-340 signing inputs must be 32 bytes'')
     else (case cv_sign cv secret message aux of
             None \<Rightarrow> Inl (OwnerKeyError ''owner key is outside the secp256k1 scalar range'')
           | Some sig \<Rightarrow> Inr sig))"

definition schnorr_verify :: "curve \<Rightarrow> string \<Rightarrow> string \<Rightarrow> string \<Rightarrow> bool" where
  "schnorr_verify cv message pubkey signature =
    (if length message \<noteq> 32 \<or> length pubkey \<noteq> 32 \<or> length signature \<noteq> 64 then False
     else (case cv_verify cv pubkey signature message of None \<Rightarrow> False | Some b \<Rightarrow> b))"

text \<open>The mode bits and the bytes of the key file; \<open>None\<close> where \<open>stat\<close> or reading raises.\<close>

definition load_owner_secret :: "curve \<Rightarrow> (nat \<times> string) option \<Rightarrow> string \<Rightarrow> (owner_exc, string) res" where
  "load_owner_secret cv file expected =
    (case file of
       None \<Rightarrow> Inl (OwnerOther ''OSError'')
     | Some (mode, bytes) \<Rightarrow>
        (if mode AND 63 \<noteq> 0 then Inl (OwnerKeyError ''owner key file must not be accessible by group or other users'')
         else if list_ex (\<lambda>c. 128 \<le> (of_char c :: nat)) bytes then Inl (OwnerOther ''UnicodeDecodeError'')
         else bind_r (decode_secret (py_strip bytes)) (\<lambda>secret.
           bind_r (xonly_pubkey cv secret) (\<lambda>pk.
             if pk \<noteq> py_lower expected then Inl (OwnerKeyError ''owner key does not match ARB_REGISTRAR_MARK_PUBKEY'') else Inr secret))))"

section \<open>The owner tag\<close>

definition tag_message :: "curve \<Rightarrow> string \<Rightarrow> string" where
  "tag_message cv agent = cv_sha256 cv (''nostr:agent-auth:'' @ py_lower agent @ '':kind=0'')"

text \<open>The two readings of the owner's own hexadecimal text cannot fail; \<open>None\<close> is kept as the error it would be.\<close>

definition build_auth_tag :: "curve \<Rightarrow> string \<Rightarrow> string \<Rightarrow> string \<Rightarrow> (owner_exc, string) res" where
  "build_auth_tag cv secret agent aux =
    (case py_fromhex agent of
       None \<Rightarrow> Inl (OwnerKeyError ''agent pubkey must be 64 hexadecimal characters'')
     | Some raw \<Rightarrow>
        (if length raw \<noteq> 32 \<or> \<not> is_valid_xonly cv raw then Inl (OwnerKeyError ''agent pubkey is not a valid x-only secp256k1 key'')
         else bind_r (xonly_pubkey cv secret) (\<lambda>owner.
           if owner = py_lower agent then Inl (OwnerKeyError ''owner and agent pubkeys must differ'')
           else bind_r (schnorr_sign cv (tag_message cv agent) secret aux) (\<lambda>sig.
             (case py_fromhex owner of
                None \<Rightarrow> Inl (OwnerOther ''ValueError'')
              | Some pk \<Rightarrow>
                 (if \<not> schnorr_verify cv (tag_message cv agent) pk sig then Inl (OwnerKeyError ''generated BIP-340 signature did not verify'')
                  else Inr (json_dumps json_compact (JArr [JStr ''auth'', JStr owner, JStr ''kind=0'', JStr (bytes_hex sig)]))))))))"

section \<open>The checksum\<close>

definition gsum :: "nat \<Rightarrow> nat" where
  "gsum t = fold (\<lambda>(index, generator) c. if drop_bit index t AND 1 \<noteq> 0 then c XOR generator else c) (enumerate 0 generators) 0"

lemma xor_cancel [simp]: "(a :: nat) XOR b = a XOR c \<longleftrightarrow> b = c" "b XOR a = c XOR a \<longleftrightarrow> b = c"
  by (metis xor.assoc xor_self_eq xor.left_neutral) (metis xor.assoc xor_self_eq xor.right_neutral)

lemma fold_xor: "fold (\<lambda>(index, generator) c. if P index then c XOR generator else c) xs (x :: nat) =
    x XOR fold (\<lambda>(index, generator) c. if P index then c XOR generator else c) xs 0"
proof (induction xs arbitrary: x)
  case (Cons p xs)
  obtain i g where p: "p = (i, g)" by (cases p)
  let ?F = "\<lambda>y. fold (\<lambda>(index, generator) c. if P index then c XOR generator else c) xs y"
  have "?F (x XOR g) = x XOR ?F g"
    by (subst Cons, subst (2) Cons) (simp only: xor.assoc)
  with Cons [of x] show ?case by (cases "P i") (simp_all only: p fold_simps comp_def prod.case if_True if_False xor.left_neutral)
qed simp

lemma polymod_step_alt: "polymod_step c v = gsum (drop_bit 25 c) XOR (push_bit 5 (take_bit 25 c) XOR v)"
proof -
  have "c AND 0x1FFFFFF = take_bit 25 c" by (simp add: take_bit_eq_mask mask_eq_exp_minus_1)
  then show ?thesis
    unfolding polymod_step_def Let_def gsum_def
    by (subst fold_xor) (simp add: xor.commute)
qed

lemma enumerate_generators:
  "enumerate 0 generators = [(0, 0x3B6A57B2), (1, 0x26508E6D), (2, 0x1EA119FA), (3, 0x3D4233DD), (4, 0x2A1462B3)]"
  by (simp add: generators_def)

lemma if_xor: "(if b then c XOR g else c) = c XOR (if b then g else (0 :: nat))"
  by simp

lemma gsum_bits: "gsum t = (if odd t then 0x3B6A57B2 else 0) XOR (if odd (t div 2) then 0x26508E6D else 0) XOR
    (if odd (t div 4) then 0x1EA119FA else 0) XOR (if odd (t div 8) then 0x3D4233DD else 0) XOR (if odd (t div 16) then 0x2A1462B3 else 0)"
  unfolding gsum_def enumerate_generators fold_simps comp_def id_def prod.case if_xor drop_bit_eq_div and_one_eq odd_iff_mod_2_eq_one xor.left_neutral
  by (simp only: power_0 div_by_1 power_one_right xor.assoc) simp

lemma gsum_range: "list_all (\<lambda>t. take_bit 30 (gsum t) = gsum t) [0..<32]"
  by (simp add: gsum_bits upt_conv_Cons)

lemma gsum_distinct: "distinct (map (\<lambda>t. take_bit 5 (gsum t)) [0..<32])"
proof -
  have "18 XOR Suc (Suc (Suc 0)) = 17" by (simp flip: numeral_3_eq_3)
  then show ?thesis by (simp add: gsum_bits upt_conv_Cons)
qed

lemma gsum_bound: "t < 32 \<Longrightarrow> take_bit 30 (gsum t) = gsum t"
  using gsum_range by (simp add: list_all_iff)

lemma gsum_inj: "t < 32 \<Longrightarrow> u < 32 \<Longrightarrow> take_bit 5 (gsum t) = take_bit 5 (gsum u) \<Longrightarrow> t = u"
  using gsum_distinct unfolding distinct_map by (auto dest: inj_onD)

lemma drop_25_less: "c < 2 ^ 30 \<Longrightarrow> drop_bit 25 c < (32 :: nat)"
  by (simp add: drop_bit_eq_div div_less_iff_less_mult)

lemma polymod_step_bound:
  assumes "c < 2 ^ 30" "v < 32"
  shows "polymod_step c v < 2 ^ 30"
proof -
  have "take_bit 25 c < 2 ^ 25" by (rule take_bit_nat_less_exp)
  then have "push_bit 5 (take_bit 25 c) < 2 ^ 30" by (simp add: push_bit_eq_mult)
  then have "take_bit 30 (push_bit 5 (take_bit 25 c)) = push_bit 5 (take_bit 25 c)" "take_bit 30 v = v" using assms(2) by (simp_all add: take_bit_nat_eq_self)
  then have "take_bit 30 (polymod_step c v) = polymod_step c v"
    unfolding polymod_step_alt take_bit_xor using gsum_bound [OF drop_25_less [OF assms(1)]] by simp
  then show ?thesis by (metis take_bit_nat_less_exp)
qed

lemma polymod_step_inj:
  assumes "c < 2 ^ 30" "d < 2 ^ 30" "polymod_step c v = polymod_step d v"
  shows "c = d"
proof -
  have e: "gsum (drop_bit 25 c) XOR push_bit 5 (take_bit 25 c) = gsum (drop_bit 25 d) XOR push_bit 5 (take_bit 25 d)"
    using assms(3) by (simp add: polymod_step_alt flip: xor.assoc)
  have "take_bit 5 (push_bit 5 (take_bit 25 x)) = 0" for x :: nat by (simp add: take_bit_push_bit)
  with arg_cong [OF e, of "take_bit 5"] have "take_bit 5 (gsum (drop_bit 25 c)) = take_bit 5 (gsum (drop_bit 25 d))"
    by (simp add: take_bit_xor)
  then have t: "drop_bit 25 c = drop_bit 25 d" using gsum_inj drop_25_less assms(1,2) by blast
  with e have "take_bit 25 c = take_bit 25 d" by (simp add: push_bit_eq_mult)
  with t show ?thesis by (metis bits_ident)
qed

lemma polymod_fold_inj:
  assumes "c < 2 ^ 30" "d < 2 ^ 30" "c \<noteq> d" "\<forall>v \<in> set vs. v < 32"
  shows "fold (\<lambda>v c. polymod_step c v) vs c \<noteq> fold (\<lambda>v c. polymod_step c v) vs d"
  using assms
proof (induction vs arbitrary: c d)
  case (Cons v vs)
  then have "polymod_step c v \<noteq> polymod_step d v" using polymod_step_inj by blast
  moreover have "polymod_step c v < 2 ^ 30" "polymod_step d v < 2 ^ 30" using Cons.prems polymod_step_bound by auto
  ultimately show ?case using Cons.IH [of "polymod_step c v" "polymod_step d v"] Cons.prems(4) by simp
qed simp

text \<open>One wrong symbol always changes the checksum.\<close>

lemma polymod_substitution:
  assumes "c < 2 ^ 30" "\<forall>v \<in> set vs. v < 32" "j < length vs" "y < 32" "y \<noteq> vs ! j"
  shows "fold (\<lambda>v c. polymod_step c v) (vs[j := y]) c \<noteq> fold (\<lambda>v c. polymod_step c v) vs c"
  using assms
proof (induction vs arbitrary: c j)
  case (Cons v vs)
  show ?case
  proof (cases j)
    case 0
    with Cons.prems have "polymod_step c y \<noteq> polymod_step c v" by (simp add: polymod_step_alt)
    moreover have "polymod_step c y < 2 ^ 30" "polymod_step c v < 2 ^ 30" using Cons.prems polymod_step_bound by auto
    ultimately show ?thesis using polymod_fold_inj [of "polymod_step c y" "polymod_step c v" vs] 0 Cons.prems(2) by simp
  next
    case (Suc k)
    moreover have "polymod_step c v < 2 ^ 30" using Cons.prems polymod_step_bound by auto
    ultimately show ?thesis using Cons.IH [of "polymod_step c v" k] Cons.prems by simp
  qed
qed simp

section \<open>Accepted keys\<close>

lemma length_BECH32: "length BECH32_CHARSET = 32"
  by (simp add: BECH32_CHARSET_def)

lemma those_Some: "those xs = Some ys \<longleftrightarrow> xs = map Some ys"
  by (induction xs arbitrary: ys) (auto split: option.splits simp: Cons_eq_map_conv map_eq_Cons_conv)

lemma index_of_Some: "index_of xs x = Some i \<Longrightarrow> i < length xs \<and> xs ! i = x"
  by (induction xs x arbitrary: i rule: index_of.induct) (auto split: if_splits)

lemma rfind_hit:
  assumes "0 \<le> py_rfind s c"
  shows "nat (py_rfind s c) < length s \<and> s ! nat (py_rfind s c) = c"
proof -
  have c: "c \<in> set (rev s)" using assms by (auto split: if_splits)
  then obtain us vs where r: "rev s = us @ c # vs" "c \<notin> set us" by (meson split_list_first)
  then have t: "takeWhile (\<lambda>d. d \<noteq> c) (rev s) = us" by (simp add: takeWhile_tail) (metis takeWhile_eq_all_conv)
  have s: "s = rev vs @ c # rev us" using arg_cong [OF r(1), of rev] by simp
  have "nat (py_rfind s c) = length vs" using c t s by simp
  with s show ?thesis by (simp add: nth_append)
qed

declare py_rfind.simps [simp del]

lemma nth_prefix: "take k s = p \<Longrightarrow> k < length s \<Longrightarrow> s ! k = c \<Longrightarrow> s = p @ c # drop (Suc k) s"
  by (metis id_take_nth_drop)

lemma decode_nsec_Inr:
  assumes "decode_nsec value = Inr s"
  obtains d data where "py_lower value = ''nsec1'' @ d" "map (index_of BECH32_CHARSET) d = map Some data"
    "bech32_polymod (bech32_hrp_expand ''nsec'' @ data) = 1" "length s = 32"
proof -
  let ?n = "py_lower value" and ?p = "py_rfind (py_lower value) CHR ''1''"
  from assms have sep: "1 \<le> ?p" and hrp: "take (nat ?p) ?n = ''nsec''"
    by (auto simp: decode_nsec_def Let_def split: if_splits)
  from sep have hit: "nat ?p < length ?n" "?n ! nat ?p = CHR ''1''" using rfind_hit [of ?n "CHR ''1''"] by simp_all
  have "length (take (nat ?p) ?n) = nat ?p" using hit(1) by simp
  then have p: "nat ?p = 4" by (simp add: hrp)
  obtain data where data: "those (map (index_of BECH32_CHARSET) (drop (nat ?p + 1) ?n)) = Some data"
    using assms by (auto simp: decode_nsec_def Let_def split: if_splits option.splits)
  have chk: "bech32_polymod (bech32_hrp_expand ''nsec'' @ data) = 1"
    using assms hrp data by (auto simp: decode_nsec_def Let_def split: if_splits)
  have len: "length s = 32" using assms by (auto simp: decode_nsec_def Let_def split: if_splits option.splits)
  have "?n = ''nsec1'' @ drop (nat ?p + 1) ?n" using nth_prefix [OF hrp hit] by simp
  then show thesis by (rule that [OF _ _ chk len]) (use data in \<open>simp add: those_Some\<close>)
qed

lemma symbols_of: "map (index_of BECH32_CHARSET) d = map Some data \<Longrightarrow>
    length data = length d \<and> (\<forall>k < length d. data ! k < 32 \<and> BECH32_CHARSET ! (data ! k) = d ! k)"
  unfolding list_eq_iff_nth_eq using index_of_Some [of BECH32_CHARSET] by (metis length_BECH32 length_map nth_map)

lemma symbols_unique: "map (index_of BECH32_CHARSET) d = map Some data \<Longrightarrow> k < length d \<Longrightarrow> index_of BECH32_CHARSET (d ! k) = Some (data ! k)"
  by (metis length_map nth_map)

lemma prefix_symbols: "\<forall>v \<in> set (bech32_hrp_expand ''nsec''). v < 32"
  by (simp add: bech32_hrp_expand_def of_char_def drop_bit_eq_div)

lemma checksum_detects:
  assumes d: "map (index_of BECH32_CHARSET) d = map Some data" and d': "map (index_of BECH32_CHARSET) (d[j := x]) = map Some data'"
    and j: "j < length d" "x \<noteq> d ! j"
  shows "bech32_polymod (bech32_hrp_expand ''nsec'' @ data') \<noteq> bech32_polymod (bech32_hrp_expand ''nsec'' @ data)"
proof -
  let ?h = "bech32_hrp_expand ''nsec''"
  note s = symbols_of [OF d] and s' = symbols_of [OF d']
  have data': "data' = data[j := data' ! j]"
  proof (rule nth_equalityI)
    show "data' ! k = data[j := data' ! j] ! k" if "k < length data'" for k
    proof (cases "k = j")
      case False
      then show ?thesis using symbols_unique [OF d, of k] symbols_unique [OF d', of k] that s s' by simp
    qed (use j s in simp)
  qed (use s s' in simp)
  have "data' ! j \<noteq> data ! j" using s s' j by (metis length_list_update nth_list_update_eq)
  moreover have "\<forall>v \<in> set (?h @ data). v < 32" using prefix_symbols s by (auto simp: in_set_conv_nth)
  ultimately have "bech32_polymod ((?h @ data)[length ?h + j := data' ! j]) \<noteq> bech32_polymod (?h @ data)"
    unfolding bech32_polymod_def using j s s' by (intro polymod_substitution) (auto simp: nth_append)
  with data' show ?thesis by (simp add: list_update_append)
qed

text \<open>C31: A mistyped \<^verbatim>\<open>nsec\<close> is refused. A text that differs from an accepted one in a single character, by more than its case, never decodes to a key: the prefix, the separator and every symbol of
  the data are covered, the symbols by the checksum.\<close>

theorem nsec_typo_refused:
  assumes "decode_nsec value = Inr s" "i < length value" "py_lower_char c \<noteq> py_lower_char (value ! i)"
  shows "\<exists>e. decode_nsec (value[i := c]) = Inl e"
proof (rule ccontr)
  assume "\<nexists>e. decode_nsec (value[i := c]) = Inl e"
  then obtain s' where ok: "decode_nsec (value[i := c]) = Inr s'" by (cases "decode_nsec (value[i := c])") auto
  obtain d data where v: "py_lower value = ''nsec1'' @ d" "map (index_of BECH32_CHARSET) d = map Some data"
    "bech32_polymod (bech32_hrp_expand ''nsec'' @ data) = 1" using decode_nsec_Inr [OF assms(1)] by metis
  obtain d' data' where v': "py_lower (value[i := c]) = ''nsec1'' @ d'" "map (index_of BECH32_CHARSET) d' = map Some data'"
    "bech32_polymod (bech32_hrp_expand ''nsec'' @ data') = 1" using decode_nsec_Inr [OF ok] by metis
  have l: "''nsec1'' @ d' = (''nsec1'' @ d)[i := py_lower_char c]" using v(1) v'(1) by (simp add: py_lower_def map_update)
  have x: "py_lower_char c \<noteq> (''nsec1'' @ d) ! i" using assms(2,3) v(1) by (metis nth_map py_lower_def)
  have i: "i < 5 + length d" using assms(2) arg_cong [OF v(1), of length] by (simp add: py_lower_def)
  show False
  proof (cases "i < 5")
    case True
    then have "i = 0 \<or> i = 1 \<or> i = 2 \<or> i = 3 \<or> i = 4" by arith
    with l x show False by (auto simp: eval_nat_numeral)
  next
    case False
    then obtain j where j: "i = 5 + j" by (metis le_iff_add not_less)
    have "d' = d[j := py_lower_char c]" using l by (simp add: j list_update_append)
    then show False using checksum_detects [OF v(2), of j "py_lower_char c" data'] v(3) v'(2,3) i x by (simp add: j)
  qed
qed

text \<open>A key that the file may hold, and one with the last character mistyped.\<close>

definition demo_nsec :: string where
  "demo_nsec = ''nsec1qypqxpq9qcrsszg2pvxq6rs0zqg3yyc5z5tpwxqergd3c8g7rusqpqcc2y''"

definition demo_symbols :: "nat list" where
  "demo_symbols = [0, 4, 1, 0, 6, 1, 0, 5, 0, 24, 3, 16, 16, 2, 8, 10, 1, 12, 6, 0, 26, 3, 16, 15, 2, 0, 8, 17, 4, 4, 24, 20, 2, 20, 11, 1, 14, 6, 0, 25, 3, 8, 13, 17, 24, 7, 8, 30, 3, 28, 16, 0, 1, 0, 24, 24, 10, 4]"

lemma demo_index: "those (map (index_of BECH32_CHARSET) (drop 5 demo_nsec)) = Some demo_symbols"
  by code_simp

lemma demo_checksum: "bech32_polymod (bech32_hrp_expand ''nsec'' @ demo_symbols) = 1"
proof -
  have "bech32_hrp_expand ''nsec'' = [3, 3, 3, 3, 0, 14, 19, 5, 3]" by (simp add: bech32_hrp_expand_def of_char_def drop_bit_eq_div)
  moreover have "polymod_step c v = gsum (c div 33554432) XOR ((c mod 33554432 * 32) XOR v)" for c v
    by (simp add: polymod_step_alt drop_bit_eq_div take_bit_eq_mod push_bit_eq_mult)
  ultimately show ?thesis by (simp add: bech32_polymod_def gsum_bits demo_symbols_def)
qed

lemma demo_payload: "convert_bits (take (length demo_symbols - 6) demo_symbols) 5 8 False = Some [1 ..< 33]"
  by (simp add: demo_symbols_def convert_bits_def emit_groups.simps drop_bit_eq_div push_bit_eq_mult Let_def upt_conv_Cons)

lemma demo_nsec_decodes: "decode_nsec demo_nsec = Inr (map char_of [1 ..< 33 :: nat])"
proof -
  have "py_lower demo_nsec = demo_nsec" "py_rfind demo_nsec CHR ''1'' = 4" "length demo_nsec = 63" "take 4 demo_nsec = ''nsec''" by code_simp+
  with demo_index demo_checksum demo_payload show ?thesis by (simp add: decode_nsec_def)
qed

theorem nsec_typo_refused_witness: "\<exists>e. decode_nsec (demo_nsec[62 := CHR ''q'']) = Inl e"
proof -
  have "(62 :: nat) < length demo_nsec" "py_lower_char CHR ''q'' \<noteq> py_lower_char (demo_nsec ! 62)" by code_simp+
  from nsec_typo_refused [OF demo_nsec_decodes this] show ?thesis .
qed

end
