(* ===== verification/Buzz_Ops.thy ===== *)
theory Buzz_Ops
  imports Owner_Key Registration_Store
begin

text \<open>
  The registrar's operations on the relay (\<open>src/src/arb_registration/buzz.py\<close>): every one runs the command line client or the
  administration command, and owner binding updates the relay's \<open>users\<close> table. The commands are parameters; each invocation is kept in
  a trace. A non-Latin-1 character the code writes is its UTF-8 bytes, and texts handed to a process are bytes.
\<close>

section \<open>Processes and the relay\<close>

datatype buzz_exc = BuzzError string | ProvisionError string string | BuzzOther string

definition exc_str :: "buzz_exc \<Rightarrow> string" where
  "exc_str e = (case e of BuzzError s \<Rightarrow> s | ProvisionError c d \<Rightarrow> ''channel '' @ c @ '': '' @ d | BuzzOther s \<Rightarrow> s)"

definition is_buzz_error :: "buzz_exc \<Rightarrow> bool" where
  "is_buzz_error e \<longleftrightarrow> (case e of BuzzOther _ \<Rightarrow> False | _ \<Rightarrow> True)"

record proc =
  pr_rc :: int
  pr_out :: string
  pr_err :: string

text \<open>The emoji the code knows, and any other text.\<close>

datatype emoji = WhiteCheck | BallotCheck | BallotCheckVS | CrossMark | HeavyX | HeavyXVS | Eyes | OtherEmoji string

record command =
  cm_admin :: bool
  cm_argv :: "string list"
  cm_stdin :: "string option"

record user_row =
  u_community :: string
  u_pubkey :: string
  u_owner :: "string option"

text \<open>\<open>bz_exec\<close> is \<open>subprocess.run\<close>: the exception it raises, or the process.\<close>

record 'w buzz =
  bz_exec :: "command \<Rightarrow> 'w \<Rightarrow> (string, proc) res \<times> 'w"
  bz_ops_channel :: string
  bz_mark :: string
  bz_registrar :: string
  bz_community :: string
  bz_owner :: "string option"
  bz_curve :: curve
  bz_aux :: string
  bz_db_up :: bool
  bz_emoji :: "string \<Rightarrow> emoji"

record 'w relay =
  rl_world :: 'w
  rl_trace :: "command list"
  rl_users :: "user_row list"

type_synonym ('w, 'a) buzz_m = "('w relay, buzz_exc, 'a) st_m"

definition relay_exec :: "'w buzz \<Rightarrow> command \<Rightarrow> ('w, proc) buzz_m" where
  "relay_exec bz c = (\<lambda>s. let (r, w) = bz_exec bz c (rl_world s)
     in (map_sum BuzzOther id r, s\<lparr>rl_world := w, rl_trace := rl_trace s @ [c]\<rparr>))"

text \<open>The reading of the output that \<open>_run\<close> makes of a finished process.\<close>

definition read_output :: "string list \<Rightarrow> bool \<Rightarrow> proc \<Rightarrow> (buzz_exc, json) res" where
  "read_output argv expect_json p =
    (if pr_rc p \<noteq> 0
     then Inl (BuzzError (''command failed ('' @ int_str (pr_rc p) @ ''): '' @ join '' '' argv @ '': '' @ py_strip (pr_err p)))
     else if py_strip (pr_out p) = [] then Inr (JObj [])
     else if \<not> expect_json then Inr (JStr (py_strip (pr_out p)))
     else (case json_loads (py_strip (pr_out p)) of
             None \<Rightarrow> Inl (BuzzError (''command returned non-JSON: '' @ join '' '' argv))
           | Some v \<Rightarrow> Inr v))"

definition run_cmd :: "'w buzz \<Rightarrow> string list \<Rightarrow> string option \<Rightarrow> bool \<Rightarrow> bool \<Rightarrow> ('w, json) buzz_m" where
  "run_cmd bz argv stdin admin expect_json =
     bind_m (relay_exec bz \<lparr>cm_admin = admin, cm_argv = map utf8 argv, cm_stdin = stdin\<rparr>) (\<lambda>p. lift_m (read_output argv expect_json p))"

text \<open>\<open>result.get(...)\<close> on a value that is not a dictionary raises.\<close>

definition as_dict :: "json \<Rightarrow> ('w, dict) buzz_m" where
  "as_dict v = (case v of JObj d \<Rightarrow> ret_m d | _ \<Rightarrow> raise_m (BuzzOther ''AttributeError''))"

definition dict_items :: "json list \<Rightarrow> dict list" where
  "dict_items vs = concat (map (\<lambda>v. case v of JObj d \<Rightarrow> [d] | _ \<Rightarrow> []) vs)"

definition list_at :: "dict \<Rightarrow> string \<Rightarrow> json list option" where
  "list_at d k = (case dget d k of JArr vs \<Rightarrow> Some vs | _ \<Rightarrow> None)"

section \<open>Configuration\<close>

text \<open>\<open>BuzzOps.__init__\<close> on an environment: the first missing variable is the error. The splitting of the two command lines is not modelled.\<close>

definition buzz_required :: "(string \<times> string) list \<Rightarrow> string \<Rightarrow> (buzz_exc, string) res" where
  "buzz_required env key =
    (let value = (case map_of env key of None \<Rightarrow> [] | Some v \<Rightarrow> py_strip v)
     in if value = [] then Inl (BuzzError (key @ '' is required'')) else Inr value)"

definition owner_error :: "(owner_exc, 'a) res \<Rightarrow> string \<Rightarrow> (buzz_exc, 'a) res" where
  "owner_error r message = (case r of
      Inr x \<Rightarrow> Inr x
    | Inl (OwnerKeyError e) \<Rightarrow> Inl (BuzzError message)
    | Inl (OwnerOther e) \<Rightarrow> Inl (BuzzOther e))"

text \<open>The channel, the operator's key, the community, the registrar's own key and the owner secret.\<close>

definition buzz_init :: "curve \<Rightarrow> (string \<times> string) list \<Rightarrow> (string \<Rightarrow> (nat \<times> string) option)
    \<Rightarrow> (buzz_exc, string \<times> string \<times> string \<times> string \<times> string option) res" where
  "buzz_init cv env read_file =
    bind_r (buzz_required env ''ARB_REGISTRAR_BUZZ_CLI'') (\<lambda>_.
    bind_r (buzz_required env ''ARB_REGISTRAR_BUZZ_ADMIN'') (\<lambda>_.
    bind_r (buzz_required env ''ARB_REGISTRAR_OPS_CHANNEL'') (\<lambda>ops.
    bind_r (map_sum id py_lower (buzz_required env ''ARB_REGISTRAR_MARK_PUBKEY'')) (\<lambda>mark.
    bind_r (guard_r (map_option length (py_fromhex mark) = Some 32) (BuzzError ''ARB_REGISTRAR_MARK_PUBKEY must be a full 64-hex pubkey'')) (\<lambda>_.
    bind_r (buzz_required env ''ARB_REGISTRAR_DATABASE_URL'') (\<lambda>_.
    bind_r (buzz_required env ''ARB_REGISTRAR_COMMUNITY_ID'') (\<lambda>community.
    bind_r (buzz_required env ''BUZZ_PRIVATE_KEY'') (\<lambda>private.
    bind_r (owner_error (bind_r (decode_secret private) (xonly_pubkey cv)) ''BUZZ_PRIVATE_KEY must be a hex or nsec registrar key'') (\<lambda>registrar.
      (let owner_file = (case map_of env ''ARB_REGISTRAR_OWNER_KEY_FILE'' of None \<Rightarrow> [] | Some v \<Rightarrow> py_strip v)
       in if owner_file = [] then Inr (ops, mark, community, registrar, None)
          else (case load_owner_secret cv (read_file owner_file) mark of
                  Inr secret \<Rightarrow> Inr (ops, mark, community, registrar, Some secret)
                | Inl (OwnerKeyError e) \<Rightarrow> Inl (BuzzError (''invalid ARB_REGISTRAR_OWNER_KEY_FILE: '' @ e))
                | Inl (OwnerOther e) \<Rightarrow> (if e = ''OSError'' then Inl (BuzzError (''invalid ARB_REGISTRAR_OWNER_KEY_FILE: '' @ e)) else Inl (BuzzOther e)))))))))))))"

section \<open>Messages\<close>

definition approval_text :: "string \<Rightarrow> string \<Rightarrow> string \<Rightarrow> string \<Rightarrow> string list \<Rightarrow> string list \<Rightarrow> string" where
  "approval_text rid name host pubkey channels warnings =
    utf8 (''Seat registration `'' @ rid @ ''` requests approval.'' @ [CHR 0x0A] @ ''Name: `'' @ name @ ''`'' @ [CHR 0x0A] @ ''Host: `'' @ host @ ''`'' @ [CHR 0x0A] @
      ''Pubkey: `'' @ pubkey @ ''`'' @ [CHR 0x0A] @ ''Channels: '' @ (if channels \<noteq> [] then join '', '' channels else ''(none)'')) @
    (if warnings = [] then []
     else utf8 [CHR 0x0A, CHR 0x0A] @ [CHR 0xE2, CHR 0x9A, CHR 0xA0] @
       utf8 ('' Registrar channel-admin precheck failed:'' @ [CHR 0x0A] @ ''- '' @ join ([CHR 0x0A] @ ''- '') warnings @ [CHR 0x0A] @
         ''Repair registrar standing before approving this request.'')) @
    utf8 ([CHR 0x0A, CHR 0x0A] @ ''Reply in this thread with `approve '' @ rid @ ''` or `deny '' @ rid @ ''`.'' @ '' Or react '') @
    [CHR 0xE2, CHR 0x9C, CHR 0x85] @ utf8 '' to approve / '' @ [CHR 0xE2, CHR 0x9D, CHR 0x8C] @ utf8 '' to deny. First valid signal wins.''"

definition post_approval :: "'w buzz \<Rightarrow> string \<Rightarrow> string \<Rightarrow> string \<Rightarrow> string \<Rightarrow> string list \<Rightarrow> string list \<Rightarrow> ('w, string) buzz_m" where
  "post_approval bz rid name host pubkey channels warnings =
    bind_m (run_cmd bz [''messages'', ''send'', ''--channel'', bz_ops_channel bz, ''--content'', ''-'', ''--mention'', bz_mark bz]
              (Some (approval_text rid name host pubkey channels warnings)) False True) (\<lambda>result.
    bind_m (as_dict result) (\<lambda>d.
      let event = (if py_truth (dget d ''event_id'') then dget d ''event_id'' else dget d ''id'')
      in if nonempty_str event then ret_m (str_of event)
         else raise_m (BuzzError ''approval message response did not contain event_id'')))"

definition thread :: "'w buzz \<Rightarrow> string \<Rightarrow> ('w, dict list) buzz_m" where
  "thread bz ev =
    bind_m (run_cmd bz [''messages'', ''thread'', ''--channel'', bz_ops_channel bz, ''--event'', ev] None False True) (\<lambda>result.
      case result of
        JArr vs \<Rightarrow> ret_m (dict_items vs)
      | _ \<Rightarrow> bind_m (as_dict result) (\<lambda>d.
          ret_m (case (list_at d ''messages'', list_at d ''events'', list_at d ''items'') of
                   (Some vs, _, _) \<Rightarrow> dict_items vs
                 | (None, Some vs, _) \<Rightarrow> dict_items vs
                 | (None, None, Some vs) \<Rightarrow> dict_items vs
                 | _ \<Rightarrow> [])))"

text \<open>The keys that reacted with an emoji; a later entry for the same emoji replaces an earlier one.\<close>

definition reaction_items :: "'w buzz \<Rightarrow> json list \<Rightarrow> (emoji \<times> string list) list" where
  "reaction_items bz items =
    concat (map (\<lambda>v. case v of
        JObj d \<Rightarrow> (case (dget d ''emoji'', if dhas d ''pubkeys'' then dget d ''pubkeys'' else JArr []) of
                    (JStr e, JArr ks) \<Rightarrow> [(bz_emoji bz e, map (\<lambda>k. py_lower (str_of k)) (filter is_str ks))]
                  | _ \<Rightarrow> [])
      | _ \<Rightarrow> []) items)"

definition reactions :: "'w buzz \<Rightarrow> string \<Rightarrow> ('w, emoji \<Rightarrow> string list) buzz_m" where
  "reactions bz ev =
    bind_m (run_cmd bz [''reactions'', ''get'', ''--event'', ev] None False True) (\<lambda>result.
      case (case result of JObj d \<Rightarrow> (if dhas d ''reactions'' then dget d ''reactions'' else JArr []) | _ \<Rightarrow> JArr []) of
        JArr items \<Rightarrow> ret_m (\<lambda>e. case map_of (rev (reaction_items bz items)) e of None \<Rightarrow> [] | Some ks \<Rightarrow> ks)
      | JStr _ \<Rightarrow> ret_m (\<lambda>_. [])
      | JObj _ \<Rightarrow> ret_m (\<lambda>_. [])
      | _ \<Rightarrow> raise_m (BuzzOther ''TypeError''))"

definition react :: "'w buzz \<Rightarrow> string \<Rightarrow> ('w, unit) buzz_m" where
  "react bz ev =
    bind_m (relay_exec bz \<lparr>cm_admin = False, cm_argv = [''reactions'', ''add'', ''--event'', utf8 ev, ''--emoji'', [CHR 0xF0, CHR 0x9F, CHR 0x91, CHR 0x80]],
              cm_stdin = None\<rparr>) (\<lambda>p.
      bind_m (lift_m (read_output [''reactions'', ''add'', ''--event'', ev, ''--emoji''] True p)) (\<lambda>_. ret_m ()))"

definition relay_reply :: "'w buzz \<Rightarrow> string \<Rightarrow> string \<Rightarrow> ('w, unit) buzz_m" where
  "relay_reply bz ev content =
    bind_m (run_cmd bz [''messages'', ''send'', ''--channel'', bz_ops_channel bz, ''--content'', ''-'', ''--reply-to'', ev] (Some content) False True)
      (\<lambda>_. ret_m ())"

section \<open>Channels and membership\<close>

definition channel_member_role :: "'w buzz \<Rightarrow> string \<Rightarrow> string \<Rightarrow> ('w, string option) buzz_m" where
  "channel_member_role bz channel pubkey =
    bind_m (run_cmd bz [''channels'', ''members'', ''--channel'', channel] None False True) (\<lambda>result.
      case (case result of
              JObj d \<Rightarrow> (if dhas d ''members'' then dget d ''members'' else if dhas d ''items'' then dget d ''items'' else JArr [])
            | v \<Rightarrow> v) of
        JArr ms \<Rightarrow> ret_m (case List.find (\<lambda>d. py_lower (if dhas d ''pubkey'' then py_str (dget d ''pubkey'') else []) = py_lower pubkey) (dict_items ms) of
                           None \<Rightarrow> None
                         | Some d \<Rightarrow> Some (case dget d ''role'' of JStr r \<Rightarrow> py_lower r | _ \<Rightarrow> []))
      | _ \<Rightarrow> raise_m (BuzzError ''channel members response was not a list''))"

definition channel_has_member :: "'w buzz \<Rightarrow> string \<Rightarrow> string \<Rightarrow> ('w, bool) buzz_m" where
  "channel_has_member bz channel pubkey = bind_m (channel_member_role bz channel pubkey) (\<lambda>r. ret_m (r \<noteq> None))"

text \<open>\<open>except BuzzError\<close>: the handler for the relay's own errors; others pass.\<close>

definition catch_buzz :: "('w, 'a) buzz_m \<Rightarrow> (buzz_exc \<Rightarrow> ('w, 'a) buzz_m) \<Rightarrow> ('w, 'a) buzz_m" where
  "catch_buzz m h = (\<lambda>s. case m s of (Inl e, s') \<Rightarrow> (if is_buzz_error e then h e s' else (Inl e, s')) | (Inr x, s') \<Rightarrow> (Inr x, s'))"

definition standing_warning :: "'w buzz \<Rightarrow> string \<Rightarrow> ('w, string list) buzz_m" where
  "standing_warning bz channel =
    catch_buzz
      (bind_m (channel_member_role bz channel (bz_registrar bz)) (\<lambda>role. ret_m (case role of
          None \<Rightarrow> [''channel `'' @ channel @ ''`: registrar is not a member'']
        | Some r \<Rightarrow> (if r \<notin> {''admin'', ''owner''}
                    then [''channel `'' @ channel @ ''`: registrar role `'' @ (if r = [] then ''(missing)'' else r) @ ''` is not admin''] else []))))
      (\<lambda>e. ret_m [''channel `'' @ channel @ ''`: standing unreadable ('' @ exc_str e @ '')''])"

definition registrar_standing_warnings :: "'w buzz \<Rightarrow> string list \<Rightarrow> ('w, string list) buzz_m" where
  "registrar_standing_warnings bz channels = bind_m (for_m channels (standing_warning bz)) (\<lambda>ws. ret_m (concat ws))"

definition join_channel :: "'w buzz \<Rightarrow> string \<Rightarrow> string \<Rightarrow> ('w, unit) buzz_m" where
  "join_channel bz pubkey channel =
    catch_buzz
      (bind_m (channel_has_member bz channel pubkey) (\<lambda>b.
       bind_m (if b then ret_m (JObj [])
               else run_cmd bz [''channels'', ''add-member'', ''--channel'', channel, ''--pubkey'', pubkey, ''--role'', ''bot''] None False True) (\<lambda>_.
       bind_m (channel_has_member bz channel pubkey) (\<lambda>b2.
         when_m (\<not> b2) (BuzzError ''membership was not visible after add'')))))
      (\<lambda>e. raise_m (ProvisionError channel (exc_str e)))"

definition relay_provision :: "'w buzz \<Rightarrow> string \<Rightarrow> string list \<Rightarrow> ('w, unit) buzz_m" where
  "relay_provision bz pubkey channels =
    bind_m (run_cmd bz [''add-member'', ''--pubkey'', pubkey] None True False) (\<lambda>_.
    bind_m (for_m channels (join_channel bz pubkey)) (\<lambda>_. ret_m ()))"

section \<open>Owner and profile\<close>

definition owner_auth_tag :: "'w buzz \<Rightarrow> string \<Rightarrow> ('w, string option) buzz_m" where
  "owner_auth_tag bz pubkey =
    (case bz_owner bz of
       None \<Rightarrow> ret_m None
     | Some secret \<Rightarrow> (case build_auth_tag (bz_curve bz) secret pubkey (bz_aux bz) of
           Inr t \<Rightarrow> ret_m (Some t)
         | Inl (OwnerKeyError e) \<Rightarrow> raise_m (BuzzError (''could not build owner auth tag: '' @ e))
         | Inl (OwnerOther e) \<Rightarrow> raise_m (BuzzOther e)))"

text \<open>The transaction on \<open>users\<close>; an exception rolls it back.\<close>

definition bind_owner :: "'w buzz \<Rightarrow> string \<Rightarrow> ('w, unit) buzz_m" where
  "bind_owner bz pubkey = (\<lambda>s.
    (case (py_fromhex (bz_mark bz), py_fromhex pubkey) of
       (Some mark, Some seat) \<Rightarrow>
        (if \<not> bz_db_up bz then (Inl (BuzzOther ''OperationalError''), s)
         else
          (let hit = (\<lambda>u. u_community u = bz_community bz \<and> u_pubkey u = seat \<and> u_owner u = None);
               users = map (\<lambda>u. if hit u then u\<lparr>u_owner := Some mark\<rparr> else u) (rl_users s)
           in if length (filter hit (rl_users s)) = 1 then (Inr (), s\<lparr>rl_users := users\<rparr>)
              else (case List.find (\<lambda>u. u_community u = bz_community bz \<and> u_pubkey u = seat) users of
                      Some u \<Rightarrow> (if u_owner u = Some mark then (Inr (), s\<lparr>rl_users := users\<rparr>)
                                else (Inl (BuzzError ''owner bind changed no row (missing user or different owner)''), s))
                    | None \<Rightarrow> (Inl (BuzzError ''owner bind changed no row (missing user or different owner)''), s))))
     | _ \<Rightarrow> (Inl (BuzzOther ''ValueError''), s)))"

definition profiles_of :: "json \<Rightarrow> dict list" where
  "profiles_of result = (case result of
      JArr vs \<Rightarrow> dict_items vs
    | JObj d \<Rightarrow>
        (case (if dhas d ''profile'' then dget d ''profile'' else JObj d) of
           JObj p \<Rightarrow> [p]
         | JArr ps \<Rightarrow> dict_items ps
         | _ \<Rightarrow> (case (list_at d ''profiles'', list_at d ''users'', list_at d ''items'') of
                  (Some vs, _, _) \<Rightarrow> dict_items vs
                | (None, Some vs, _) \<Rightarrow> dict_items vs
                | (None, None, Some vs) \<Rightarrow> dict_items vs
                | _ \<Rightarrow> []))
    | _ \<Rightarrow> [])"

definition profile_matches :: "string \<Rightarrow> string \<Rightarrow> dict \<Rightarrow> bool" where
  "profile_matches pubkey name p \<longleftrightarrow>
     py_lower (if dhas p ''pubkey'' then py_str (dget p ''pubkey'') else pubkey) = py_lower pubkey \<and>
     (if dhas p ''display_name'' then dget p ''display_name'' else dget p ''name'') = JStr name"

definition verify_profile :: "'w buzz \<Rightarrow> string \<Rightarrow> string \<Rightarrow> ('w, unit) buzz_m" where
  "verify_profile bz pubkey name =
    bind_m (run_cmd bz [''users'', ''get'', ''--pubkey'', pubkey] None False True) (\<lambda>result.
      when_m (\<not> list_ex (profile_matches pubkey name) (profiles_of result)) (BuzzError ''seat profile name was not visible after publication''))"

section \<open>Proof rules for computations\<close>

text \<open>A computation keeps a property of the state on every path, the raising ones included.\<close>

definition keeps :: "('s \<Rightarrow> bool) \<Rightarrow> ('s, 'e, 'a) st_m \<Rightarrow> bool" where
  "keeps P m \<longleftrightarrow> (\<forall>s. P s \<longrightarrow> P (snd (m s)))"

lemma keepsD: "keeps P m \<Longrightarrow> m s = (r, s') \<Longrightarrow> P s \<Longrightarrow> P s'"
  by (metis keeps_def snd_conv)

lemma keeps_ret [simp, intro]: "keeps P (ret_m x)"
  by (simp add: keeps_def ret_m_def)

lemma keeps_raise [simp, intro]: "keeps P (raise_m e)"
  by (simp add: keeps_def raise_m_def)

lemma keeps_lift [simp, intro]: "keeps P (lift_m r)"
  by (simp add: keeps_def lift_m_def)

lemma keeps_when [simp, intro]: "keeps P (when_m b e)"
  by (simp add: when_m_def)

lemma keeps_bind [intro]: "keeps P m \<Longrightarrow> (\<And>x. keeps P (f x)) \<Longrightarrow> keeps P (bind_m m f)"
  by (auto simp: keeps_def bind_m_def split: prod.splits sum.splits)

lemma keeps_for [intro]: "(\<And>x. x \<in> set xs \<Longrightarrow> keeps P (f x)) \<Longrightarrow> keeps P (for_m xs f)"
  by (induction xs) (auto intro!: keeps_bind)

lemma keeps_catch_buzz [intro]: "keeps P m \<Longrightarrow> (\<And>e. keeps P (h e)) \<Longrightarrow> keeps P (catch_buzz m h)"
  by (auto simp: keeps_def catch_buzz_def split: prod.splits sum.splits)

section \<open>Which operations administer the relay\<close>

definition admins :: "'w relay \<Rightarrow> command set" where
  "admins rl = {c \<in> set (rl_trace rl). cm_admin c}"

definition add_member :: "string \<Rightarrow> command" where
  "add_member pubkey = \<lparr>cm_admin = True, cm_argv = [utf8 ''add-member'', utf8 ''--pubkey'', utf8 pubkey], cm_stdin = None\<rparr>"

definition within :: "command set \<Rightarrow> 'w relay \<Rightarrow> bool" where
  "within Y rl \<longleftrightarrow> admins rl \<subseteq> Y"

lemma exec_within: "(cm_admin c \<longrightarrow> c \<in> Y) \<Longrightarrow> keeps (within Y) (relay_exec bz c)"
  by (auto simp: keeps_def within_def admins_def relay_exec_def Let_def split: prod.splits)

lemma run_within [intro]: "keeps (within Y) (run_cmd bz argv stdin False ej)"
  unfolding run_cmd_def by (intro keeps_bind exec_within keeps_lift) simp

lemma as_dict_within [intro]: "keeps (within Y) (as_dict v)"
  by (auto simp: as_dict_def split: json.splits)

lemma relay_ops_within:
  "keeps (within Y) (post_approval bz rid name host pk chs ws)" "keeps (within Y) (thread bz ev)" "keeps (within Y) (reactions bz ev)"
  "keeps (within Y) (relay_reply bz ev content)" "keeps (within Y) (channel_member_role bz ch pk)"
  unfolding post_approval_def thread_def reactions_def relay_reply_def channel_member_role_def
  by (auto simp: Let_def split: json.split intro!: keeps_bind run_within as_dict_within)

lemma react_within: "keeps (within Y) (react bz ev)"
  unfolding react_def by (intro keeps_bind exec_within keeps_lift keeps_ret) simp

lemma membership_within: "keeps (within Y) (channel_has_member bz ch pk)" "keeps (within Y) (join_channel bz pk ch)"
  unfolding join_channel_def channel_has_member_def
  by (auto intro!: keeps_bind keeps_catch_buzz relay_ops_within run_within)

lemma standing_within: "keeps (within Y) (registrar_standing_warnings bz chs)"
  unfolding registrar_standing_warnings_def standing_warning_def
  by (intro keeps_bind keeps_for keeps_catch_buzz relay_ops_within keeps_ret)

lemma owner_within: "keeps (within Y) (owner_auth_tag bz pk)" "keeps (within Y) (bind_owner bz pk)" "keeps (within Y) (verify_profile bz pk name)"
proof -
  show "keeps (within Y) (owner_auth_tag bz pk)" by (auto simp: owner_auth_tag_def split: option.split sum.split owner_exc.split)
  show "keeps (within Y) (bind_owner bz pk)"
    by (auto simp: keeps_def bind_owner_def within_def admins_def Let_def split: option.splits)
  show "keeps (within Y) (verify_profile bz pk name)" unfolding verify_profile_def by (intro keeps_bind run_within keeps_when)
qed

lemma provision_within:
  assumes "add_member pk \<in> Y"
  shows "keeps (within Y) (relay_provision bz pk chs)"
  unfolding relay_provision_def run_cmd_def
  by (intro keeps_bind keeps_for membership_within exec_within keeps_lift keeps_ret) (use assms in \<open>simp add: add_member_def\<close>)

end
