(* ===== verification/Seat_Registrar.thy ===== *)
theory Seat_Registrar
  imports Buzz_Ops
begin

text \<open>
  The seat registrar (\<open>src/src/arb_registration/registrar.py\<close>): a signed request with a one-time token is filed and posted for
  approval, the operator decides in the relay's thread, an approved seat is made a member, and it is granted once its profile shows.
  Every method is a computation on the store, the relay, the messages sent and the audit log; an exception the code does not catch
  ends it. All readings of the clock during one message or one poll are one instant.
\<close>

section \<open>State\<close>

record 'w seat_env =
  se_buzz :: "'w buzz"
  se_ec :: ec_lib
  se_sha :: "string \<Rightarrow> string"
  se_agent_id :: string
  se_relay_url :: string
  se_timeout :: int
  se_send_ok :: "string \<Rightarrow> string \<Rightarrow> dict \<Rightarrow> bool"     \<comment> \<open>whether Redis takes this event for this recipient\<close>
  se_iter :: "emoji list \<Rightarrow> emoji list"                  \<comment> \<open>the order in which a set of emoji is iterated\<close>

record 'w seat =
  st_db :: reg_db
  st_relay :: "'w relay"
  st_sent :: "(string \<times> string \<times> dict) list"
  st_log :: "(string \<times> string) list"
  st_last_poll :: int

type_synonym ('w, 'a) seat_m = "('w seat, buzz_exc, 'a) st_m"

definition APPROVE_REACTIONS :: "emoji list" where
  "APPROVE_REACTIONS = [WhiteCheck, BallotCheck, BallotCheckVS]"

definition DENY_REACTIONS :: "emoji list" where
  "DENY_REACTIONS = [CrossMark, HeavyX, HeavyXVS]"

definition SEAT_MAX_ATTEMPTS :: int where "SEAT_MAX_ATTEMPTS = 5"

definition SEAT_RETRY_DELAYS :: "int list" where "SEAT_RETRY_DELAYS = [5, 15, 30, 60, 120]"

definition emoji_text :: "emoji \<Rightarrow> string" where
  "emoji_text e = (case e of
      WhiteCheck \<Rightarrow> [CHR 0xE2, CHR 0x9C, CHR 0x85] | BallotCheck \<Rightarrow> [CHR 0xE2, CHR 0x98, CHR 0x91]
    | BallotCheckVS \<Rightarrow> [CHR 0xE2, CHR 0x98, CHR 0x91, CHR 0xEF, CHR 0xB8, CHR 0x8F]
    | CrossMark \<Rightarrow> [CHR 0xE2, CHR 0x9D, CHR 0x8C] | HeavyX \<Rightarrow> [CHR 0xE2, CHR 0x9C, CHR 0x96]
    | HeavyXVS \<Rightarrow> [CHR 0xE2, CHR 0x9C, CHR 0x96, CHR 0xEF, CHR 0xB8, CHR 0x8F]
    | Eyes \<Rightarrow> [CHR 0xF0, CHR 0x9F, CHR 0x91, CHR 0x80] | OtherEmoji s \<Rightarrow> s)"

definition em_dash :: string where "em_dash = [CHR 0xE2, CHR 0x80, CHR 0x94]"

section \<open>Effects\<close>

definition on_relay :: "('w, 'a) buzz_m \<Rightarrow> ('w, 'a) seat_m" where
  "on_relay m = (\<lambda>s. let (r, rl) = m (st_relay s) in (r, s\<lparr>st_relay := rl\<rparr>))"

definition on_db :: "(reg_db \<Rightarrow> (reg_error, 'a) res \<times> reg_db) \<Rightarrow> ('w, 'a) seat_m" where
  "on_db f = (\<lambda>s. let (r, db) = f (st_db s)
     in (map_sum (\<lambda>e. case e of TokenError _ \<Rightarrow> BuzzOther ''TokenError'' | IntegrityError \<Rightarrow> BuzzOther ''IntegrityError'') id r, s\<lparr>st_db := db\<rparr>))"

definition get_db :: "('w, reg_db) seat_m" where
  "get_db = (\<lambda>s. (Inr (st_db s), s))"

definition seat_audit :: "string \<Rightarrow> string \<Rightarrow> ('w, unit) seat_m" where
  "seat_audit action rid = (\<lambda>s. (Inr (), s\<lparr>st_log := st_log s @ [(action, rid)]\<rparr>))"

text \<open>\<open>except Exception\<close>.\<close>

definition catch_all :: "('w, 'a) seat_m \<Rightarrow> (buzz_exc \<Rightarrow> ('w, 'a) seat_m) \<Rightarrow> ('w, 'a) seat_m" where
  "catch_all m h = (\<lambda>s. case m s of (Inl e, s') \<Rightarrow> h e s' | (Inr x, s') \<Rightarrow> (Inr x, s'))"

definition seat_reply :: "'w seat_env \<Rightarrow> req_row \<Rightarrow> string \<Rightarrow> dict \<Rightarrow> ('w, unit) seat_m" where
  "seat_reply env r event data = (\<lambda>s.
     if se_send_ok env (r_reply_agent r) event data
     then (Inr (), s\<lparr>st_sent := st_sent s @ [(r_reply_agent r, event, data)]\<rparr>)
     else (Inl (BuzzOther ''RedisError''), s))"

definition react_seen :: "'w seat_env \<Rightarrow> string \<Rightarrow> ('w, unit) seat_m" where
  "react_seen env ev = catch_all (on_relay (react (se_buzz env) ev)) (\<lambda>_. ret_m ())"

text \<open>An event identifier that is missing or empty is false.\<close>

definition event_of :: "req_row \<Rightarrow> string" where
  "event_of r = (case r_approval_event r of None \<Rightarrow> [] | Some e \<Rightarrow> e)"

definition thread_reply :: "'w seat_env \<Rightarrow> req_row \<Rightarrow> string \<Rightarrow> ('w, unit) seat_m" where
  "thread_reply env r content =
    (if event_of r = [] then ret_m ()
     else catch_all (on_relay (relay_reply (se_buzz env) (event_of r) content)) (\<lambda>_. ret_m ()))"

definition channels_of :: "req_row \<Rightarrow> string list" where
  "channels_of r = (case r_channels_json r of JArr vs \<Rightarrow> map str_of vs | _ \<Rightarrow> [])"

section \<open>Failures\<close>

text \<open>For texts that begin with an ASCII letter.\<close>

definition py_capitalize :: "string \<Rightarrow> string" where
  "py_capitalize s = (case s of [] \<Rightarrow> [] | c # cs \<Rightarrow>
     (let n = (of_char c :: nat) in if 97 \<le> n \<and> n \<le> 122 then char_of (n - 32) else c) # py_lower cs)"

definition exc_channel :: "buzz_exc \<Rightarrow> string option" where
  "exc_channel e = (case e of ProvisionError c _ \<Rightarrow> Some c | _ \<Rightarrow> None)"

definition record_failure :: "'w seat_env \<Rightarrow> int \<Rightarrow> req_row \<Rightarrow> string \<Rightarrow> string option \<Rightarrow> ('w, unit) seat_m" where
  "record_failure env now r phase channel =
    (let named = (case channel of Some c \<Rightarrow> c \<noteq> [] | None \<Rightarrow> False);
         c = (case channel of Some c \<Rightarrow> c | None \<Rightarrow> []);
         phase_detail = (if named then phase @ '' for channel `'' @ c @ ''`'' else phase);
         stored_error = (if named then phase @ '' channel='' @ c else phase);
         delay = SEAT_RETRY_DELAYS ! min (nat (r_attempts r)) (length SEAT_RETRY_DELAYS - 1)
     in bind_m (on_db (\<lambda>db. record_attempt_failure db now now (r_id r) stored_error (now + delay * 1000000) SEAT_MAX_ATTEMPTS)) (\<lambda>(attempts, exhausted).
        if exhausted
        then bind_m (thread_reply env r (utf8 ''Failed '' @ em_dash @ utf8 ('' '' @ phase_detail @ '' for request `'' @ r_id r @ ''` exhausted '' @
                       int_str SEAT_MAX_ATTEMPTS @ '' attempts. The request is closed; see registrar audit logs.''))) (\<lambda>_.
             bind_m (seat_reply env r DENY_EVENT [(''request_id'', JStr (r_id r)), (''reason'', JStr (phase_detail @ '' failed'')),
                       (''client_nonce'', JStr (r_client_nonce r))]) (\<lambda>_.
               seat_audit ''registration_failed'' (r_id r)))
        else thread_reply env r (utf8 (py_capitalize phase_detail @ '' attempt '' @ int_str attempts @ ''/'' @ int_str SEAT_MAX_ATTEMPTS @
               '' failed; retrying with backoff. See registrar audit logs.''))))"

definition attempt_due :: "req_row \<Rightarrow> int \<Rightarrow> bool" where
  "attempt_due r now \<longleftrightarrow> (case r_next_attempt r of None \<Rightarrow> True | Some n \<Rightarrow> n \<le> now)"

section \<open>Decisions\<close>

type_synonym signal = "string \<times> string \<times> string"

definition message_signal :: "'w seat_env \<Rightarrow> req_row \<Rightarrow> dict \<Rightarrow> signal list" where
  "message_signal env r m =
    (if py_lower (if dhas m ''pubkey'' then py_str (dget m ''pubkey'') else []) \<noteq> bz_mark (se_buzz env) then []
     else (case parse_approval_reply (if dhas m ''content'' then py_str (dget m ''content'') else []) of
             None \<Rightarrow> []
           | Some a \<Rightarrow>
              (if ap_request_id a = py_lower (r_id r)
               then let mid = (if dhas m ''id'' then py_str (dget m ''id'') else []) in [(ap_action a, ''reply:'' @ mid, mid)]
               else [])))"

definition reply_signals :: "'w seat_env \<Rightarrow> req_row \<Rightarrow> dict list \<Rightarrow> signal list" where
  "reply_signals env r messages =
    concat (map (message_signal env r)
      (sort_key (\<lambda>m. if dhas m ''created_at'' then py_str (dget m ''created_at'') else []) messages))"

definition reaction_signal :: "'w seat_env \<Rightarrow> req_row \<Rightarrow> (emoji \<Rightarrow> string list) \<Rightarrow> string \<Rightarrow> emoji list \<Rightarrow> signal list" where
  "reaction_signal env r rs action emojis =
    (case List.find (\<lambda>e. bz_mark (se_buzz env) \<in> set (rs e)) (se_iter env emojis) of
       None \<Rightarrow> [] | Some e \<Rightarrow> [(action, ''reaction:'' @ emoji_text e, event_of r)])"

text \<open>The thread holds dictionaries only, and on these the reading of a key, \<open>str\<close>, \<open>lower\<close> and the regular expression do not raise; so an
  exception of the first block comes from the relay, before any signal was appended.\<close>

definition decision_signals :: "'w seat_env \<Rightarrow> req_row \<Rightarrow> ('w, signal list) seat_m" where
  "decision_signals env r =
    bind_m (catch_all (bind_m (on_relay (thread (se_buzz env) (event_of r))) (\<lambda>ms. ret_m (reply_signals env r ms))) (\<lambda>_. ret_m [])) (\<lambda>replies.
    bind_m (catch_all (bind_m (on_relay (reactions (se_buzz env) (event_of r))) (\<lambda>rs.
              ret_m (reaction_signal env r rs ''approve'' APPROVE_REACTIONS @ reaction_signal env r rs ''deny'' DENY_REACTIONS))) (\<lambda>_. ret_m [])) (\<lambda>reacts.
      ret_m (replies @ reacts)))"

definition seat_deny :: "'w seat_env \<Rightarrow> int \<Rightarrow> req_row \<Rightarrow> string \<Rightarrow> string \<Rightarrow> ('w, unit) seat_m" where
  "seat_deny env now r reason status =
    bind_m (on_db (\<lambda>db. set_request db now now (r_id r) status None)) (\<lambda>_.
    bind_m (seat_reply env r DENY_EVENT [(''request_id'', JStr (r_id r)), (''reason'', JStr reason), (''client_nonce'', JStr (r_client_nonce r))]) (\<lambda>_.
    bind_m (seat_audit ''registration_denied'' (r_id r)) (\<lambda>_.
      thread_reply env r (utf8 ''Denied '' @ em_dash @ utf8 ('' request `'' @ r_id r @ ''` closed and its one-time token is burned.'')))))"

section \<open>Provisioning and grant\<close>

definition provision_data :: "'w seat_env \<Rightarrow> req_row \<Rightarrow> string option \<Rightarrow> dict" where
  "provision_data env r auth_tag =
     [(''request_id'', JStr (r_id r)), (''pubkey'', JStr (r_pubkey r)), (''relay_url'', JStr (se_relay_url env)),
      (''channels'', JArr (map JStr (channels_of r))), (''client_nonce'', JStr (r_client_nonce r))] @
     (case auth_tag of None \<Rightarrow> [] | Some t \<Rightarrow> [(''auth_tag'', JStr t)])"

definition seat_approve :: "'w seat_env \<Rightarrow> int \<Rightarrow> req_row \<Rightarrow> ('w, unit) seat_m" where
  "seat_approve env now r =
    catch_all
      (bind_m (on_relay (owner_auth_tag (se_buzz env) (r_pubkey r))) (\<lambda>auth_tag.
       bind_m (on_relay (relay_provision (se_buzz env) (r_pubkey r) (channels_of r))) (\<lambda>_.
       bind_m (on_db (\<lambda>db. set_request db now now (r_id r) ''provisioned'' None)) (\<lambda>_.
       bind_m (seat_reply env r PROVISION_EVENT (provision_data env r auth_tag)) (\<lambda>_.
         seat_audit ''registration_provisioned'' (r_id r))))))
      (\<lambda>e. record_failure env now r ''provisioning'' (exc_channel e))"

definition grant_msg :: "'w seat_env \<Rightarrow> req_row \<Rightarrow> dict" where
  "grant_msg env r =
     [(''request_id'', JStr (r_id r)), (''pubkey'', JStr (r_pubkey r)), (''relay_url'', JStr (se_relay_url env)),
      (''channels'', JArr (map JStr (channels_of r))), (''profile_verified'', JBool True), (''client_nonce'', JStr (r_client_nonce r))]"

definition grant_note :: "'w seat_env \<Rightarrow> req_row \<Rightarrow> string" where
  "grant_note env r =
     utf8 ''Approved '' @ em_dash @ utf8 ('' relay membership granted, added to '' @
       (if channels_of r \<noteq> [] then join '', '' (channels_of r) else ''(no requested channels)'') @
       '', owner bound, profile verified for `'' @ r_pubkey r @ ''`, and '' @
       (if bz_owner (se_buzz env) \<noteq> None then ''NIP-OA kind-0 owner auth tag supplied for profile publication''
        else ''NIP-OA owner key is not configured; the auth-tag ceremony remains manual'') @ ''.'')"

definition finish_profile :: "'w seat_env \<Rightarrow> int \<Rightarrow> req_row \<Rightarrow> ('w, unit) seat_m" where
  "finish_profile env now r =
    catch_all
      (bind_m (on_relay (verify_profile (se_buzz env) (r_pubkey r) (r_name r))) (\<lambda>_.
       bind_m (on_relay (bind_owner (se_buzz env) (r_pubkey r))) (\<lambda>_.
       bind_m (on_db (\<lambda>db. set_request db now now (r_id r) ''approved'' None)) (\<lambda>_.
       bind_m (seat_reply env r GRANT_EVENT (grant_msg env r)) (\<lambda>_.
       bind_m (seat_audit ''registration_granted'' (r_id r)) (\<lambda>_.
         thread_reply env r (grant_note env r)))))))
      (\<lambda>_. record_failure env now r ''profile verification and owner binding'' None)"

definition profile_ready :: "'w seat_env \<Rightarrow> int \<Rightarrow> dict \<Rightarrow> ('w, unit) seat_m" where
  "profile_ready env now data =
    (if \<not> is_str (dget data ''request_id'') \<or> \<not> verify_signed_data (se_ec env) data then seat_audit ''invalid_profile_ready'' []
     else bind_m get_db (\<lambda>db.
      let rid = str_of (dget data ''request_id'') in
      (case reg_request_row db rid of
         None \<Rightarrow> seat_audit ''unexpected_profile_ready'' rid
       | Some r \<Rightarrow>
          (if r_status r \<notin> {''provisioned'', ''profile_ready''} \<or> dget data ''pubkey'' \<noteq> JStr (r_pubkey r) \<or>
              dget data ''client_nonce'' \<noteq> JStr (r_client_nonce r)
           then seat_audit ''unexpected_profile_ready'' rid
           else bind_m (on_db (\<lambda>db. set_request db now now rid ''profile_ready'' None)) (\<lambda>_. finish_profile env now r)))))"

section \<open>Requests\<close>

definition seat_required :: "string list" where
  "seat_required = [''token'', ''name'', ''host'', ''pubkey'', ''signing_pubkey'', ''reply_agent_id'', ''client_nonce'', ''issued_at'', ''signature'']"

definition string_at :: "dict \<Rightarrow> string \<Rightarrow> string" where
  "string_at d k = str_of (dget d k)"

definition seat_request_dict :: "dict \<Rightarrow> reg_request" where
  "seat_request_dict data =
     \<lparr>q_pubkey = string_at data ''pubkey'', q_signing_pubkey = string_at data ''signing_pubkey'', q_channels_json = dget data ''channels'',
      q_reply_agent = string_at data ''reply_agent_id'', q_client_nonce = string_at data ''client_nonce'',
      q_sealing_pubkey = None, q_sealing_fp = None, q_self_report_json = None, q_roles_json = None\<rparr>"

definition post_request :: "'w seat_env \<Rightarrow> int \<Rightarrow> string \<Rightarrow> dict \<Rightarrow> string list \<Rightarrow> ('w, unit) seat_m" where
  "post_request env now request_id data channels =
    catch_all
      (bind_m (on_relay (registrar_standing_warnings (se_buzz env) channels)) (\<lambda>warnings.
       bind_m (on_relay (post_approval (se_buzz env) request_id (string_at data ''name'') (string_at data ''host'') (string_at data ''pubkey'') channels warnings)) (\<lambda>ev.
       bind_m (on_db (\<lambda>db. set_request db now now request_id ''pending'' (Some ev))) (\<lambda>_.
         seat_audit ''approval_requested'' request_id))))
      (\<lambda>_. ret_m ())"

text \<open>\<open>rid\<close> is the identifier \<open>reserve\<close> draws.\<close>

definition registration_request :: "'w seat_env \<Rightarrow> int \<Rightarrow> string \<Rightarrow> dict \<Rightarrow> ('w, unit) seat_m" where
  "registration_request env now rid data =
    (if \<not> list_all (\<lambda>k. nonempty_str (dget data k)) seat_required then seat_audit ''invalid_request_shape'' []
     else (case dget data ''channels'' of
        JArr channels \<Rightarrow>
         (if \<not> list_all nonempty_str channels then seat_audit ''invalid_request_shape'' []
          else if \<not> verify_signed_data (se_ec env) data then seat_audit ''invalid_request_signature'' []
          else (\<lambda>s. case reserve (se_sha env) (st_db s) now rid (string_at data ''token'') (string_at data ''name'') (string_at data ''host'') (seat_request_dict data) of
               (Inl (TokenError _), db) \<Rightarrow> seat_audit ''invalid_registration_credential'' [] (s\<lparr>st_db := db\<rparr>)
             | (Inl IntegrityError, db) \<Rightarrow> (Inl (BuzzOther ''IntegrityError''), s\<lparr>st_db := db\<rparr>)
             | (Inr i, db) \<Rightarrow> post_request env now i data (map str_of channels) (s\<lparr>st_db := db\<rparr>)))
      | _ \<Rightarrow> seat_audit ''invalid_request_shape'' []))"

definition seat_handle :: "'w seat_env \<Rightarrow> int \<Rightarrow> string \<Rightarrow> dict \<Rightarrow> ('w, unit) seat_m" where
  "seat_handle env now rid envelope =
    (if dget envelope ''kind'' \<noteq> JStr ''notify'' then ret_m ()
     else (case dget envelope ''payload'' of
        JObj p \<Rightarrow> (case dget p ''data'' of
            JObj data \<Rightarrow>
              (if dget data ''event'' \<noteq> dget p ''event'' then ret_m ()
               else if dget p ''event'' = JStr REQUEST_EVENT then registration_request env now rid data
               else if dget p ''event'' = JStr PROFILE_READY_EVENT then profile_ready env now data
               else ret_m ())
          | _ \<Rightarrow> ret_m ())
      | _ \<Rightarrow> ret_m ()))"

section \<open>Polling\<close>

text \<open>What follows a decision that won.\<close>

definition note_contradiction :: "'w seat_env \<Rightarrow> int \<Rightarrow> req_row \<Rightarrow> string \<Rightarrow> signal list \<Rightarrow> ('w, unit) seat_m" where
  "note_contradiction env now r action rest =
    (if list_ex (\<lambda>(a, _, _). a \<noteq> action) rest
     then bind_m (thread_reply env r (utf8 (''Ignored a contradictory signal for `'' @ r_id r @
            ''`; the first valid Mark-authored decision (`'' @ action @ ''`) already won.''))) (\<lambda>_.
            on_db (\<lambda>db. (Inr (), mark_contradiction_noted db now (r_id r))))
     else ret_m ())"

definition carry_out :: "'w seat_env \<Rightarrow> int \<Rightarrow> req_row \<Rightarrow> string \<Rightarrow> ('w, unit) seat_m" where
  "carry_out env now r action =
    (if action = ''deny'' then seat_deny env now r ''operator denied registration'' ''denied''
     else bind_m get_db (\<lambda>db. seat_approve env now (case reg_request_row db (r_id r) of None \<Rightarrow> r | Some r' \<Rightarrow> r')))"

definition follow_decision :: "'w seat_env \<Rightarrow> int \<Rightarrow> req_row \<Rightarrow> signal \<Rightarrow> signal list \<Rightarrow> ('w, unit) seat_m" where
  "follow_decision env now r signal rest =
    (case signal of (action, source, target) \<Rightarrow>
       bind_m (react_seen env (if target \<noteq> [] then target else event_of r)) (\<lambda>_.
       bind_m (note_contradiction env now r action rest) (\<lambda>_. carry_out env now r action)))"

definition poll_signals :: "'w seat_env \<Rightarrow> int \<Rightarrow> req_row \<Rightarrow> ('w, unit) seat_m" where
  "poll_signals env now r =
    bind_m (decision_signals env r) (\<lambda>signals.
      (case signals of
         [] \<Rightarrow> ret_m ()
       | (action, source, target) # rest \<Rightarrow>
          bind_m (on_db (\<lambda>db. set_decision db now (r_id r) action source)) (\<lambda>won.
            if \<not> won then ret_m () else follow_decision env now r (action, source, target) rest)))"

definition poll_one :: "'w seat_env \<Rightarrow> int \<Rightarrow> req_row \<Rightarrow> ('w, unit) seat_m" where
  "poll_one env now r =
    (if r_status r = ''provisioned'' then ret_m ()
     else if r_status r = ''profile_ready'' then (if attempt_due r now then finish_profile env now r else ret_m ())
     else if r_decision r = None \<and> se_timeout env \<le> now - r_created r then seat_deny env now r ''approval timed out'' ''timed_out''
     else if event_of r = [] then ret_m ()
     else if r_decision r = Some ''approve'' then (if attempt_due r now then seat_approve env now r else ret_m ())
     else poll_signals env now r)"

definition late_contradiction :: "'w seat_env \<Rightarrow> int \<Rightarrow> req_row \<Rightarrow> ('w, unit) seat_m" where
  "late_contradiction env now r =
    (let opposite = (if r_decision r = Some ''approve'' then ''deny'' else ''approve'') in
     bind_m (decision_signals env r) (\<lambda>signals.
       if list_ex (\<lambda>(a, _, _). a = opposite) signals
       then bind_m (thread_reply env r (utf8 (''Ignored a later `'' @ opposite @ ''` signal for `'' @ r_id r @
              ''`; the first valid decision (`'' @ (case r_decision r of Some d \<Rightarrow> d | None \<Rightarrow> []) @ ''`) is final.''))) (\<lambda>_.
              on_db (\<lambda>db. (Inr (), mark_contradiction_noted db now (r_id r))))
       else ret_m ()))"

definition late_contradictions :: "'w seat_env \<Rightarrow> int \<Rightarrow> ('w, unit) seat_m" where
  "late_contradictions env now =
    bind_m get_db (\<lambda>db. bind_m (for_m (decided_for_contradiction_check db now) (late_contradiction env now)) (\<lambda>_. ret_m ()))"

text \<open>\<open>clk\<close> is the monotonic clock in microseconds.\<close>

definition poll_approvals :: "'w seat_env \<Rightarrow> int \<Rightarrow> int \<Rightarrow> ('w, unit) seat_m" where
  "poll_approvals env now clk =
    bind_m get_db (\<lambda>db.
    bind_m (for_m (reg_pending db) (poll_one env now)) (\<lambda>_ s.
      if 30000000 \<le> clk - st_last_poll s then late_contradictions env now (s\<lparr>st_last_poll := clk\<rparr>) else (Inr (), s)))"

text \<open>One round of \<open>run\<close>: at most one message, then a poll.\<close>

definition seat_run :: "'w seat_env \<Rightarrow> int \<Rightarrow> int \<Rightarrow> string \<Rightarrow> string \<Rightarrow> bus_lists \<Rightarrow> 'w seat \<Rightarrow> (buzz_exc, unit) res \<times> 'w seat \<times> bus_lists" where
  "seat_run env now clk rid prefix ls s =
    (let (msg, ls') = bus_receive ls prefix (se_agent_id env);
         (r, s') = bind_m (case msg of None \<Rightarrow> ret_m () | Some e \<Rightarrow> (if e = [] then ret_m () else seat_handle env now rid e))
                     (\<lambda>_. poll_approvals env now clk) s
     in (r, s', ls'))"

section \<open>What the registrar may have done\<close>

text \<open>The statuses a request reaches only through an approval.\<close>

definition good_rows :: "reg_db \<Rightarrow> bool" where
  "good_rows db \<longleftrightarrow> (\<forall>r \<in> set (rg_requests db). r_status r \<in> {''provisioned'', ''profile_ready'', ''approved''} \<longrightarrow> r_decision r = Some ''approve'')"

definition approved_row :: "reg_db \<Rightarrow> req_row \<Rightarrow> bool" where
  "approved_row db r \<longleftrightarrow> r \<in> set (rg_requests db) \<and> r_decision r = Some ''approve''"

text \<open>A message that admits a seat names an approved request, its key, its nonce and its reply address.\<close>

definition admits :: "req_row \<Rightarrow> string \<times> string \<times> dict \<Rightarrow> bool" where
  "admits r m \<longleftrightarrow> fst m = r_reply_agent r \<and> dget (snd (snd m)) ''request_id'' = JStr (r_id r) \<and>
     dget (snd (snd m)) ''pubkey'' = JStr (r_pubkey r) \<and> dget (snd (snd m)) ''client_nonce'' = JStr (r_client_nonce r)"

definition seat_inv :: "'w seat \<Rightarrow> bool" where
  "seat_inv s \<longleftrightarrow> reg_inv (st_db s) \<and> good_rows (st_db s) \<and>
     (\<forall>c \<in> admins (st_relay s). \<exists>r. approved_row (st_db s) r \<and> c = add_member (r_pubkey r)) \<and>
     (\<forall>m \<in> set (st_sent s). fst (snd m) \<in> {PROVISION_EVENT, GRANT_EVENT} \<longrightarrow> (\<exists>r. approved_row (st_db s) r \<and> admits r m))"

definition seen_row :: "reg_db \<Rightarrow> req_row \<Rightarrow> bool" where
  "seen_row db r \<longleftrightarrow> (\<exists>r' \<in> set (rg_requests db). req_evolves r r')"

text \<open>The invariant together with the rows a handler has read: they are still there, in a later state.\<close>

definition with_rows :: "req_row set \<Rightarrow> 'w seat \<Rightarrow> bool" where
  "with_rows R s \<longleftrightarrow> seat_inv s \<and> (\<forall>r \<in> R. seen_row (st_db s) r)"

lemma with_rowsD: "with_rows R s \<Longrightarrow> reg_inv (st_db s)" "with_rows R s \<Longrightarrow> good_rows (st_db s)" "with_rows R s \<Longrightarrow> r \<in> R \<Longrightarrow> seen_row (st_db s) r"
  by (simp_all add: with_rows_def seat_inv_def)

lemma seat_invD:
  assumes "seat_inv s"
  shows "c \<in> admins (st_relay s) \<Longrightarrow> \<exists>r. approved_row (st_db s) r \<and> c = add_member (r_pubkey r)"
    and "m \<in> set (st_sent s) \<Longrightarrow> fst (snd m) \<in> {PROVISION_EVENT, GRANT_EVENT} \<Longrightarrow> \<exists>r. approved_row (st_db s) r \<and> admits r m"
  using assms by (simp_all only: seat_inv_def ball_simps) 

lemma with_rows_inv: "with_rows R s \<Longrightarrow> seat_inv s"
  by (simp add: with_rows_def)

lemma approved_evolves:
  assumes "reg_inv db" and "reg_step sha db db'" and "approved_row db r"
  obtains r' where "approved_row db' r'" "r_pubkey r' = r_pubkey r" "\<forall>m. admits r m \<longrightarrow> admits r' m"
proof -
  have "r \<in> set (rg_requests db)" using assms(3) by (simp add: approved_row_def)
  from reg_step_evolves(2) [OF assms(1,2) this] obtain r' where r': "r' \<in> set (rg_requests db')" "req_evolves r r'" by blast
  show thesis by (rule that [of r']) (use r' assms(3) in \<open>simp_all add: approved_row_def req_evolves_def admits_def\<close>)
qed

lemma db_step_kept:
  fixes s :: "'w seat"
  assumes w: "with_rows R s" and step: "reg_step sha (st_db s) db" and good: "good_rows db"
  shows "with_rows R (s\<lparr>st_db := db\<rparr>)"
proof -
  have inv: "reg_inv (st_db s)" using with_rowsD(1) [OF w] .
  have seen: "\<forall>r \<in> R. seen_row db r"
    using with_rowsD(3) [OF w] reg_step_evolves(2) [OF inv step] unfolding seen_row_def by (meson req_evolves_trans)
  have "\<exists>r. approved_row db r \<and> c = add_member (r_pubkey r)" if "c \<in> admins (st_relay s)" for c
  proof -
    from seat_invD(1) [OF with_rows_inv [OF w] that] obtain r where r: "approved_row (st_db s) r" "c = add_member (r_pubkey r)" by (elim exE conjE)
    obtain r' where "approved_row db r'" "r_pubkey r' = r_pubkey r" by (rule approved_evolves [OF inv step r(1)])
    then show ?thesis using r(2) by (intro exI [of _ r']) simp
  qed
  moreover have "\<exists>r. approved_row db r \<and> admits r m" if "m \<in> set (st_sent s)" "fst (snd m) \<in> {PROVISION_EVENT, GRANT_EVENT}" for m
  proof -
    from seat_invD(2) [OF with_rows_inv [OF w] that] obtain r where r: "approved_row (st_db s) r" "admits r m" by (elim exE conjE)
    obtain r' where "approved_row db r'" "\<forall>m. admits r m \<longrightarrow> admits r' m" by (rule approved_evolves [OF inv step r(1)])
    then show ?thesis using r(2) by (intro exI [of _ r']) (simp del: split_paired_All)
  qed
  ultimately show ?thesis
    unfolding with_rows_def seat_inv_def using registration.inv_step [OF inv step] good seen by simp
qed

lemma on_db_keeps:
  assumes "\<And>s :: 'w seat. with_rows R s \<Longrightarrow> reg_step id (st_db s) (snd (f (st_db s))) \<and> good_rows (snd (f (st_db s)))"
  shows "keeps (with_rows R :: 'w seat \<Rightarrow> bool) (on_db f)"
  unfolding keeps_def
proof (intro allI impI)
  fix s :: "'w seat"
  assume w: "with_rows R s"
  have "snd (on_db f s) = s\<lparr>st_db := snd (f (st_db s))\<rparr>" by (simp add: on_db_def Let_def split: prod.split)
  then show "with_rows R (snd (on_db f s))" using db_step_kept [OF w conjunct1 conjunct2, OF assms [OF w] assms [OF w]] by simp
qed

lemma on_relay_keeps:
  fixes m :: "('w, 'a) buzz_m"
  assumes "\<And>Y. (\<And>r. r \<in> A \<Longrightarrow> add_member (r_pubkey r) \<in> Y) \<Longrightarrow> keeps (within Y) m"
    and "A \<subseteq> {r \<in> R. r_decision r = Some ''approve''}"
  shows "keeps (with_rows R) (on_relay m)"
  unfolding keeps_def
proof (intro allI impI)
  fix s :: "'w seat"
  assume w: "with_rows R s"
  let ?Y = "{c. \<exists>r. approved_row (st_db s) r \<and> c = add_member (r_pubkey r)}" and ?rl = "snd (m (st_relay s))"
  have "add_member (r_pubkey r) \<in> ?Y" if r: "r \<in> A" for r
  proof -
    from r assms(2) have r: "r \<in> R" "r_decision r = Some ''approve''" by auto
    then obtain r' where "r' \<in> set (rg_requests (st_db s))" "req_evolves r r'" using with_rowsD(3) [OF w] by (auto simp: seen_row_def)
    then show ?thesis using r(2) by (auto simp: approved_row_def req_evolves_def intro!: exI [of _ r'])
  qed
  then have "keeps (within ?Y) m" by (rule assms(1))
  moreover have "within ?Y (st_relay s)" using w unfolding with_rows_def seat_inv_def within_def by blast
  ultimately have "within ?Y ?rl" by (simp add: keeps_def)
  then show "with_rows R (snd (on_relay m s))"
    using w by (auto simp: on_relay_def with_rows_def seat_inv_def within_def Let_def split: prod.split)
qed

lemmas quiet = on_relay_keeps [of "{}", OF _ empty_subsetI, simplified]

lemma catch_all_keeps: "keeps P m \<Longrightarrow> (\<And>e. keeps P (h e)) \<Longrightarrow> keeps P (catch_all m h)"
  by (auto simp: keeps_def catch_all_def split: prod.splits sum.splits)

lemma audit_keeps: "keeps (with_rows R) (seat_audit action rid)"
  by (simp add: keeps_def seat_audit_def with_rows_def seat_inv_def)

lemma reply_keeps:
  assumes "event \<in> {PROVISION_EVENT, GRANT_EVENT} \<Longrightarrow> r \<in> R \<and> r_decision r = Some ''approve'' \<and> admits r (r_reply_agent r, event, data)"
  shows "keeps (with_rows R) (seat_reply (env :: 'w seat_env) r event data)"
  unfolding keeps_def
proof (intro allI impI)
  fix s :: "'w seat"
  assume w: "with_rows R s"
  have "\<exists>q. approved_row (st_db s) q \<and> admits q (r_reply_agent r, event, data)" if "event \<in> {PROVISION_EVENT, GRANT_EVENT}"
  proof -
    from assms [OF that] have a: "r \<in> R" "r_decision r = Some ''approve''" "admits r (r_reply_agent r, event, data)" by blast+
    from with_rowsD(3) [OF w a(1)] obtain q where "q \<in> set (rg_requests (st_db s))" "req_evolves r q" by (auto simp: seen_row_def)
    then show ?thesis using a(2,3) by (auto simp: approved_row_def admits_def req_evolves_def intro!: exI [of _ q])
  qed
  then show "with_rows R (snd (seat_reply env r event data s))"
    using w by (auto simp: seat_reply_def with_rows_def seat_inv_def)
qed

lemma get_db_keeps: "(\<And>s. P s \<Longrightarrow> P (snd (f (st_db s) s))) \<Longrightarrow> keeps P (bind_m get_db f)"
  by (simp add: keeps_def bind_m_def get_db_def)

section \<open>Every operation keeps it\<close>

lemma good_map:
  assumes "good_rows db" "\<And>r. r \<in> set (rg_requests db) \<Longrightarrow> p r \<Longrightarrow> r_decision r = Some ''approve'' \<longrightarrow> r_decision (f r) = Some ''approve''"
    "\<And>r. r \<in> set (rg_requests db) \<Longrightarrow> p r \<Longrightarrow> r_status (f r) \<in> {''provisioned'', ''profile_ready'', ''approved''} \<Longrightarrow>
      r_status r \<in> {''provisioned'', ''profile_ready'', ''approved''} \<or> r_decision r = Some ''approve''"
  shows "good_rows (map_requests p f db)"
  using assms by (auto simp: good_rows_def)

lemma good_tokens [simp]: "good_rows (map_tokens p f db) \<longleftrightarrow> good_rows db"
  by (simp add: good_rows_def)

lemma set_request_good:
  assumes "good_rows db" "status \<in> {''provisioned'', ''profile_ready'', ''approved''} \<Longrightarrow> \<forall>r \<in> set (rg_requests db). r_id r = rid \<longrightarrow> r_decision r = Some ''approve''"
  shows "good_rows (snd (set_request db t1 t2 rid status ev))"
proof (cases "\<exists>r \<in> set (rg_requests db). r_id r = rid")
  case True
  let ?db1 = "map_requests (\<lambda>r. r_id r = rid) (\<lambda>r. r\<lparr>r_status := status,
      r_approval_event := (case ev of Some e \<Rightarrow> Some e | None \<Rightarrow> r_approval_event r), r_updated := t1\<rparr>) db"
  have 1: "good_rows ?db1" by (rule good_map [OF assms(1)]) (use assms(2) in auto)
  have "good_rows (map_requests (\<lambda>r. r_id r = rid) (\<lambda>r. r\<lparr>r_attempts := 0, r_next_attempt := None, r_last_error := None\<rparr>) ?db1)"
    by (rule good_map [OF 1]) auto
  with 1 True show ?thesis by (auto simp: set_request_def Let_def)
qed (use assms(1) in \<open>simp add: set_request_def\<close>)

lemma seen_unique:
  assumes "with_rows R s" "r \<in> R" "q \<in> set (rg_requests (st_db s))" "r_id q = r_id r" "r_decision r = Some d"
  shows "r_decision q = Some d"
proof -
  obtain r' where r': "r' \<in> set (rg_requests (st_db s))" "req_evolves r r'" using with_rowsD(3) [OF assms(1,2)] by (auto simp: seen_row_def)
  moreover have "r_id r' = r_id q" using r'(2) assms(4) by (simp add: req_evolves_def)
  then have "q = r'" using request_row_unique [OF with_rowsD(1) [OF assms(1)]] assms(3) r'(1) by (metis option.inject)
  ultimately show ?thesis using assms(5) by (auto simp: req_evolves_def)
qed

lemma set_request_keeps:
  assumes "status \<in> {''provisioned'', ''profile_ready'', ''approved''} \<Longrightarrow> r \<in> R \<and> r_id r = rid \<and> r_decision r = Some ''approve''"
  shows "keeps (with_rows R) (on_db (\<lambda>db. set_request db t1 t2 rid status ev))"
proof (rule on_db_keeps, rule conjI)
  fix s :: "'a seat"
  assume w: "with_rows R s"
  show "reg_step id (st_db s) (snd (set_request (st_db s) t1 t2 rid status ev))" by (rule rs_set_request)
  show "good_rows (snd (set_request (st_db s) t1 t2 rid status ev))"
    by (rule set_request_good [OF with_rowsD(2) [OF w]]) (use assms seen_unique [OF w, of r] in auto)
qed

lemma failure_good: "good_rows db \<Longrightarrow> good_rows (snd (record_attempt_failure db t1 t2 rid err nx m))"
  by (auto simp: record_attempt_failure_def Let_def split: option.split intro!: good_map)

lemma failure_keeps: "keeps (with_rows R) (on_db (\<lambda>db. record_attempt_failure db t1 t2 rid err nx m))"
  by (rule on_db_keeps) (auto intro: rs_failure failure_good dest: with_rowsD(2))

lemma decision_good: "good_rows db \<Longrightarrow> good_rows (snd (set_decision db now rid action source))"
  by (auto simp: set_decision_def decidable_def intro!: good_map)

lemma decision_keeps: "keeps (with_rows R) (on_db (\<lambda>db. set_decision db now rid action source))"
  by (rule on_db_keeps) (blast intro: rs_decision decision_good dest: with_rowsD(2))

lemma noted_good: "good_rows db \<Longrightarrow> good_rows (mark_contradiction_noted db now rid)"
  by (auto simp: mark_contradiction_noted_def intro!: good_map)

lemma noted_keeps: "keeps (with_rows R) (on_db (\<lambda>db. (Inr x, mark_contradiction_noted db now rid)))"
  unfolding snd_conv by (rule on_db_keeps, unfold snd_conv) (blast intro: rs_contradiction noted_good dest: with_rowsD(2))

lemma thread_reply_keeps: "keeps (with_rows R) (thread_reply env r content)"
  by (auto simp: thread_reply_def intro!: catch_all_keeps quiet relay_ops_within)

lemma react_seen_keeps: "keeps (with_rows R) (react_seen env ev)"
  by (auto simp: react_seen_def intro!: catch_all_keeps quiet react_within)

lemma other_events [simp]: "DENY_EVENT \<noteq> PROVISION_EVENT" "DENY_EVENT \<noteq> GRANT_EVENT"
  by (simp_all add: DENY_EVENT_def PROVISION_EVENT_def GRANT_EVENT_def)

lemma record_failure_keeps: "keeps (with_rows R) (record_failure env now r phase channel)"
  unfolding record_failure_def Let_def
  by (intro keeps_bind failure_keeps) (auto intro!: keeps_bind thread_reply_keeps reply_keeps audit_keeps split: prod.split)

lemma signals_keep: "keeps (with_rows R) (decision_signals env r)"
  unfolding decision_signals_def
  by (intro keeps_bind catch_all_keeps quiet relay_ops_within keeps_ret)

lemma seat_deny_keeps: "status \<in> {''denied'', ''timed_out''} \<Longrightarrow> keeps (with_rows R) (seat_deny env now r reason status)"
  unfolding seat_deny_def
  by (intro keeps_bind set_request_keeps reply_keeps audit_keeps thread_reply_keeps) auto

lemma seat_approve_keeps:
  assumes "r \<in> R" "r_decision r = Some ''approve''"
  shows "keeps (with_rows R) (seat_approve env now r)"
  unfolding seat_approve_def
proof (intro keeps_bind catch_all_keeps record_failure_keeps audit_keeps)
  show "keeps (with_rows R) (on_relay (relay_provision (se_buzz env) (r_pubkey r) (channels_of r)))"
    by (rule on_relay_keeps [of "{r}", OF provision_within]) (use assms in auto)
  show "keeps (with_rows R) (on_db (\<lambda>db. set_request db now now (r_id r) ''provisioned'' None))"
    by (rule set_request_keeps) (use assms in auto)
  show "keeps (with_rows R) (seat_reply env r PROVISION_EVENT (provision_data env r tag))" for tag
    by (rule reply_keeps) (use assms in \<open>auto simp: admits_def provision_data_def\<close>)
qed (rule quiet, rule owner_within)

lemma finish_profile_keeps:
  assumes "r \<in> R" "r_decision r = Some ''approve''"
  shows "keeps (with_rows R) (finish_profile env now r)"
  unfolding finish_profile_def
proof (intro keeps_bind catch_all_keeps record_failure_keeps audit_keeps thread_reply_keeps)
  show "keeps (with_rows R) (on_db (\<lambda>db. set_request db now now (r_id r) ''approved'' None))"
    by (rule set_request_keeps) (use assms in auto)
  show "keeps (with_rows R) (seat_reply env r GRANT_EVENT (grant_msg env r))"
    by (rule reply_keeps) (use assms in \<open>auto simp: admits_def grant_msg_def\<close>)
qed (rule quiet, rule owner_within)+

lemma keeps_at:
  assumes "keeps P m" "P s" "\<And>x s'. m s = (Inr x, s') \<Longrightarrow> P s' \<Longrightarrow> P (snd (f x s'))"
  shows "P (snd (bind_m m f s))"
proof -
  obtain r s' where m: "m s = (r, s')" by fastforce
  then have "P s'" using keepsD [OF assms(1) m assms(2)] by blast
  then show ?thesis using assms(3) m by (cases r) (auto simp: bind_m_def)
qed

lemma fresh_row:
  assumes "with_rows R s" "q \<in> set (rg_requests (st_db s))"
  shows "with_rows (insert q R) s"
  using assms by (auto simp: with_rows_def seen_row_def intro: bexI [of _ q])

lemma fewer_rows: "with_rows R s \<Longrightarrow> Q \<subseteq> R \<Longrightarrow> with_rows Q s"
  by (auto simp: with_rows_def)

lemma found_row: "reg_request_row db rid = Some q \<Longrightarrow> q \<in> set (rg_requests db) \<and> r_id q = rid"
  by (auto simp: reg_request_row_def find_Some_iff)

text \<open>A decision that was taken is in the row.\<close>

lemma decision_taken:
  assumes "on_db (\<lambda>db. set_decision db now rid action source) s = (Inr True, s')"
  obtains q where "q \<in> set (rg_requests (st_db s'))" "r_id q = rid" "r_decision q = Some action"
proof -
  have ok: "action \<in> {''approve'', ''deny''}" and ex: "\<exists>r \<in> set (rg_requests (st_db s)). decidable rid r"
    and db: "st_db s' = map_requests (decidable rid) (\<lambda>r. r\<lparr>r_decision := Some action, r_decision_source := Some source, r_updated := now\<rparr>) (st_db s)"
    using assms by (auto simp: on_db_def set_decision_def Let_def split: if_splits)
  then obtain r where r: "r \<in> set (rg_requests (st_db s))" "decidable rid r" by blast
  show thesis
    by (rule that [of "r\<lparr>r_decision := Some action, r_decision_source := Some source, r_updated := now\<rparr>"])
      (use r db in \<open>auto simp: decidable_def intro!: image_eqI [of _ _ r]\<close>)
qed

lemma approve_latest_keeps:
  assumes w: "with_rows R s" and q: "q \<in> R" "r_decision q = Some ''approve''" "r_id q = rid"
  shows "with_rows R (snd (bind_m get_db (\<lambda>db. seat_approve env now (case reg_request_row db rid of None \<Rightarrow> r | Some r' \<Rightarrow> r')) s))"
proof -
  obtain p where "p \<in> set (rg_requests (st_db s))" "req_evolves q p" using with_rowsD(3) [OF w q(1)] by (auto simp: seen_row_def)
  then have "reg_request_row (st_db s) rid = Some p"
    using request_row_unique [OF with_rowsD(1) [OF w]] q(3) by (metis req_evolves_def)
  then obtain q' where row: "reg_request_row (st_db s) rid = Some q'" by blast
  have q': "q' \<in> set (rg_requests (st_db s))" "r_id q' = r_id q" using found_row [OF row] q(3) by simp_all
  have "r_decision q' = Some ''approve''" by (rule seen_unique [OF w q(1) q' q(2)])
  then have "keeps (with_rows (insert q' R)) (seat_approve env now q')" by (intro seat_approve_keeps) simp_all
  then have "with_rows (insert q' R) (snd (seat_approve env now q' s))" using fresh_row [OF w q'(1)] by (simp add: keeps_def)
  then show ?thesis using row fewer_rows by (fastforce simp: bind_m_def get_db_def)
qed

lemma note_keeps: "keeps (with_rows R) (note_contradiction env now r action rest)"
  by (auto simp: note_contradiction_def intro!: keeps_bind thread_reply_keeps noted_keeps)

lemma carry_out_keeps:
  assumes w: "with_rows R s" and q: "q \<in> R" "r_id q = r_id r" "r_decision q = Some action" and a: "action \<in> {''approve'', ''deny''}"
  shows "with_rows R (snd (carry_out env now r action s))"
proof (cases "action = ''deny''")
  case True
  have "keeps (with_rows R) (seat_deny env now r ''operator denied registration'' ''denied'')" by (rule seat_deny_keeps) simp
  with True w show ?thesis by (simp add: keeps_def carry_out_def)
next
  case False
  then show ?thesis using approve_latest_keeps [OF w q(1) _ q(2)] q(3) a by (simp add: carry_out_def)
qed

lemma follow_keeps:
  assumes w: "with_rows R s" and q: "q \<in> R" "r_id q = r_id r" "r_decision q = Some action"
    and a: "action \<in> {''approve'', ''deny''}"
  shows "with_rows R (snd (follow_decision env now r (action, source, target) rest s))"
  unfolding follow_decision_def prod.case
  by (rule keeps_at [OF react_seen_keeps w], rule keeps_at [OF note_keeps], assumption, rule carry_out_keeps [OF _ q a])

lemma set_decision_action: "on_db (\<lambda>db. set_decision db now rid action source) s = (Inr b, s') \<Longrightarrow> action \<in> {''approve'', ''deny''}"
  by (auto simp: on_db_def set_decision_def Let_def split: if_splits)

lemma poll_signals_keeps: "keeps (with_rows R) (poll_signals env now r)"
  unfolding poll_signals_def
proof (intro keeps_bind signals_keep)
  fix signals
  show "keeps (with_rows R) (case signals of [] \<Rightarrow> ret_m () | (action, source, target) # rest \<Rightarrow>
          bind_m (on_db (\<lambda>db. set_decision db now (r_id r) action source)) (\<lambda>won.
            if \<not> won then ret_m () else follow_decision env now r (action, source, target) rest))"
  proof (cases signals)
    case (Cons sg rest)
    obtain action source target where sg: "sg = (action, source, target)" by (cases sg)
    have "with_rows R (snd (bind_m (on_db (\<lambda>db. set_decision db now (r_id r) action source)) (\<lambda>won.
            if \<not> won then ret_m () else follow_decision env now r (action, source, target) rest) s))" if w: "with_rows R s" for s
    proof (rule keeps_at [OF decision_keeps w])
      fix won s1
      assume d: "on_db (\<lambda>db. set_decision db now (r_id r) action source) s = (Inr won, s1)" and w1: "with_rows R s1"
      show "with_rows R (snd ((if \<not> won then ret_m () else follow_decision env now r (action, source, target) rest) s1))"
      proof (cases won)
        case True
        from decision_taken [OF d [unfolded eqTrueI [OF True]]] obtain q
          where q: "q \<in> set (rg_requests (st_db s1))" "r_id q = r_id r" "r_decision q = Some action" .
        have "with_rows (insert q R) (snd (follow_decision env now r (action, source, target) rest s1))"
          by (rule follow_keeps [OF fresh_row [OF w1 q(1)] insertI1 q(2,3) set_decision_action [OF d]])
        then have "with_rows R (snd (follow_decision env now r (action, source, target) rest s1))" by (rule fewer_rows) blast
        with True show ?thesis by simp
      qed (use w1 in \<open>simp add: ret_m_def\<close>)
    qed
    with Cons sg show ?thesis by (simp add: keeps_def)
  qed simp
qed

lemma poll_one_keeps:
  assumes "r \<in> R" "r_status r \<in> {''provisioned'', ''profile_ready'', ''approved''} \<longrightarrow> r_decision r = Some ''approve''"
  shows "keeps (with_rows R) (poll_one env now r)"
proof -
  have f: "keeps (with_rows R) (finish_profile env now r)" if "r_status r = ''profile_ready''" by (rule finish_profile_keeps) (use assms that in auto)
  have d: "keeps (with_rows R) (seat_deny env now r ''approval timed out'' ''timed_out'')" by (rule seat_deny_keeps) simp
  have a: "keeps (with_rows R) (seat_approve env now r)" if "r_decision r = Some ''approve''" by (rule seat_approve_keeps) (use assms that in auto)
  show ?thesis unfolding poll_one_def using f d a poll_signals_keeps by (simp only: keeps_ret split: if_split) blast
qed

lemma late_keeps: "keeps (with_rows R) (late_contradiction env now r)"
  unfolding late_contradiction_def Let_def
  by (intro keeps_bind signals_keep) (auto intro!: keeps_bind thread_reply_keeps noted_keeps)

lemma with_rows_empty: "with_rows {} s \<longleftrightarrow> seat_inv s"
  by (simp add: with_rows_def)

lemma late_all_keeps: "keeps (with_rows R) (late_contradictions env now)"
proof -
  have "keeps (with_rows R) (bind_m (for_m xs (late_contradiction env now)) (\<lambda>_. ret_m ()))" for xs
    by (intro keeps_bind keeps_for late_keeps keeps_ret)
  then show ?thesis unfolding late_contradictions_def by (intro get_db_keeps) (simp add: keeps_def)
qed

lemma poll_approvals_keeps:
  assumes "seat_inv s"
  shows "seat_inv (snd (poll_approvals env now clk s))"
proof -
  let ?L = "reg_pending (st_db s)"
  have L: "r \<in> set (rg_requests (st_db s))" if "r \<in> set ?L" for r using that by (simp add: reg_pending_def by_created_def)
  have w: "with_rows (set ?L) s" using assms L by (auto simp: with_rows_def seen_row_def intro!: bexI [where P = "req_evolves _", OF evolves_refl(2)])
  have good: "r_status r \<in> {''provisioned'', ''profile_ready'', ''approved''} \<longrightarrow> r_decision r = Some ''approve''" if "r \<in> set ?L" for r
    using assms L [OF that] by (simp add: seat_inv_def good_rows_def)
  have "keeps (with_rows (set ?L)) (for_m ?L (poll_one env now))" by (intro keeps_for poll_one_keeps good)
  then have "with_rows (set ?L) (snd (bind_m (for_m ?L (poll_one env now)) (\<lambda>_ s.
      if 30000000 \<le> clk - st_last_poll s then late_contradictions env now (s\<lparr>st_last_poll := clk\<rparr>) else (Inr (), s)) s))"
  proof (rule keeps_at)
    show "with_rows (set ?L) s" by (rule w)
    fix s1 :: "'a seat"
    assume w1: "with_rows (set ?L) s1"
    then have "with_rows (set ?L) (s1\<lparr>st_last_poll := clk\<rparr>)" by (simp add: with_rows_def seat_inv_def)
    with w1 late_all_keeps [of "set ?L" env now] show "with_rows (set ?L) (snd (if 30000000 \<le> clk - st_last_poll s1 then late_contradictions env now (s1\<lparr>st_last_poll := clk\<rparr>) else (Inr (), s1)))"
      by (simp add: keeps_def)
  qed
  then show ?thesis by (simp add: poll_approvals_def bind_m_def get_db_def with_rows_def)
qed

lemma post_request_keeps: "keeps (with_rows {}) (post_request env now rid data chs)"
  unfolding post_request_def
  by (intro catch_all_keeps keeps_bind keeps_ret audit_keeps set_request_keeps quiet standing_within relay_ops_within) auto

lemma reserve_rows:
  assumes "reserve sha db now rid token name host q = (res, db')" "good_rows db"
  shows "good_rows db'"
proof (cases res)
  case (Inr i)
  with assms show ?thesis by (auto elim!: reserve_Inr simp: good_rows_def new_request_def)
next
  case (Inl e)
  with assms show ?thesis by (auto simp: reserve_def split: option.splits if_splits)
qed

lemma reserve_kept:
  assumes "with_rows R s" "reserve sha (st_db s) now rid token name host q = (res, db')"
  shows "with_rows R (s\<lparr>st_db := db'\<rparr>)"
  using db_step_kept [OF assms(1) _ reserve_rows [OF assms(2) with_rowsD(2) [OF assms(1)]]]
    rs_reserve [of sha "st_db s" now rid token name host q] assms(2) by simp

lemma registration_request_keeps: "keeps (with_rows {}) (registration_request env now rid data)"
proof -
  let ?m = "\<lambda>channels s. case reserve (se_sha env) (st_db s) now rid (string_at data ''token'') (string_at data ''name'') (string_at data ''host'') (seat_request_dict data) of
               (Inl (TokenError _), db) \<Rightarrow> seat_audit ''invalid_registration_credential'' [] (s\<lparr>st_db := db\<rparr>)
             | (Inl IntegrityError, db) \<Rightarrow> (Inl (BuzzOther ''IntegrityError''), s\<lparr>st_db := db\<rparr>)
             | (Inr i, db) \<Rightarrow> post_request env now i data (map str_of channels) (s\<lparr>st_db := db\<rparr>)"
  have "keeps (with_rows {}) (?m channels)" for channels
    unfolding keeps_def
  proof (intro allI impI)
    fix s :: "'a seat"
    assume w: "with_rows {} s"
    obtain r db where res: "reserve (se_sha env) (st_db s) now rid (string_at data ''token'') (string_at data ''name'')
        (string_at data ''host'') (seat_request_dict data) = (r, db)" by fastforce
    have w1: "with_rows {} (s\<lparr>st_db := db\<rparr>)" by (rule reserve_kept [OF w res])
    show "with_rows {} (snd (?m channels s))"
      using w1 keepsD [OF audit_keeps prod.collapse [symmetric] w1] keepsD [OF post_request_keeps prod.collapse [symmetric] w1]
      by (simp add: res split: sum.split reg_error.split)
  qed
  then show ?thesis unfolding registration_request_def by (auto split: json.split intro: audit_keeps)
qed

lemma profile_ready_keeps: "keeps (with_rows {}) (profile_ready env now data)"
proof -
  have "with_rows {} (snd (bind_m (on_db (\<lambda>db. set_request db now now rid ''profile_ready'' None)) (\<lambda>_. finish_profile env now r) s))"
    if w: "with_rows {} s" and r: "reg_request_row (st_db s) rid = Some r" "r_status r \<in> {''provisioned'', ''profile_ready''}" for s :: "'a seat" and rid r
  proof -
    have f: "r \<in> set (rg_requests (st_db s))" "r_id r = rid" using found_row [OF r(1)] by simp_all
    with r(2) with_rowsD(2) [OF w] have d: "r_decision r = Some ''approve''" by (auto simp: good_rows_def)
    have "keeps (with_rows {r}) (bind_m (on_db (\<lambda>db. set_request db now now rid ''profile_ready'' None)) (\<lambda>_. finish_profile env now r))"
      by (intro keeps_bind set_request_keeps [where r = r] finish_profile_keeps) (use f d in auto)
    then have "with_rows {r} (snd (bind_m (on_db (\<lambda>db. set_request db now now rid ''profile_ready'' None)) (\<lambda>_. finish_profile env now r) s))"
      using fresh_row [OF w f(1)] by (simp add: keeps_def)
    then show ?thesis by (rule fewer_rows) simp
  qed
  note step = this
  show ?thesis unfolding profile_ready_def
    by (simp add: audit_keeps Let_def, intro conjI impI, rule get_db_keeps)
      (auto simp: Let_def split: option.split intro!: step keepsD [OF audit_keeps prod.collapse [symmetric]])
qed

lemma seat_handle_keeps: "keeps (with_rows {}) (seat_handle env now rid envelope)"
  unfolding seat_handle_def
  by (auto split: json.split intro: registration_request_keeps profile_ready_keeps)

section \<open>Runs of the registrar\<close>

text \<open>The messages it handles, its polls, and the operator's commands on the token store, in any order.\<close>

inductive seat_step :: "'w seat_env \<Rightarrow> 'w seat \<Rightarrow> 'w seat \<Rightarrow> bool" for env where
  ss_handle: "seat_step env s (snd (seat_handle env now rid envelope s))"
| ss_poll: "seat_step env s (snd (poll_approvals env now clk s))"
| ss_mint: "seat_step env s (s\<lparr>st_db := snd (mint (se_sha env) (st_db s) t1 t2 tid secret name host ttl)\<rparr>)"
| ss_list: "seat_step env s (s\<lparr>st_db := snd (list_tokens (st_db s) now)\<rparr>)"
| ss_revoke: "seat_step env s (s\<lparr>st_db := snd (revoke (st_db s) now tid)\<rparr>)"

definition seat_start :: "'w seat \<Rightarrow> bool" where
  "seat_start s \<longleftrightarrow> st_db s = reg_init \<and> st_sent s = [] \<and> rl_trace (st_relay s) = []"

lemma token_commands_good:
  assumes "good_rows db"
  shows "good_rows (snd (mint sha db t1 t2 tid secret name host ttl))" "good_rows (snd (list_tokens db now))" "good_rows (snd (revoke db now tid))"
  using assms by (auto simp: mint_def list_tokens_def revoke_def good_rows_def Let_def split: option.splits)

interpretation seats: inv_system seat_start "seat_step env" seat_inv for env
proof
  show "seat_inv s" if "seat_start s" for s :: "'a seat"
    using that registration.inv_init by (simp add: seat_inv_def seat_start_def good_rows_def admins_def reg_init_def)
  show "seat_inv t" if inv: "seat_inv s" and step: "seat_step env s t" for s t
  proof -
    have w: "with_rows {} s" using inv by (simp add: with_rows_empty)
    note db = db_step_kept [OF w _ token_commands_good(1) [OF with_rowsD(2) [OF w]], OF rs_mint]
      db_step_kept [OF w _ token_commands_good(2) [OF with_rowsD(2) [OF w]], OF rs_list]
      db_step_kept [OF w _ token_commands_good(3) [OF with_rowsD(2) [OF w]], OF rs_revoke]
    from step show ?thesis
      by (cases rule: seat_step.cases)
        (use db keepsD [OF seat_handle_keeps prod.collapse [symmetric] w] poll_approvals_keeps [OF inv] in \<open>simp_all add: with_rows_empty\<close>)
  qed
qed

text \<open>C8: Only the operator's approval makes a member. In every run, each administration command the registrar has issued adds the key of a request
  whose recorded decision is an approval.\<close>

theorem members_were_approved:
  assumes "reachable seat_start (seat_step env) s" "c \<in> set (rl_trace (st_relay s))" "cm_admin c"
  shows "\<exists>r \<in> set (rg_requests (st_db s)). r_decision r = Some ''approve'' \<and> c = add_member (r_pubkey r)"
proof -
  have "c \<in> admins (st_relay s)" using assms(2,3) by (simp add: admins_def)
  from seat_invD(1) [OF seats.inv_reachable [OF assms(1)] this] show ?thesis by (auto simp: approved_row_def)
qed

text \<open>A seat is told that it is in only if it is. In every run, each provision or grant message names an approved request, carries its key
  and its nonce, and went to the address that request gave.\<close>

theorem grants_name_approved_requests:
  assumes "reachable seat_start (seat_step env) s" "(to, event, body) \<in> set (st_sent s)" "event \<in> {PROVISION_EVENT, GRANT_EVENT}"
  shows "\<exists>r \<in> set (rg_requests (st_db s)). r_decision r = Some ''approve'' \<and> to = r_reply_agent r \<and> dget body ''request_id'' = JStr (r_id r) \<and>
    dget body ''pubkey'' = JStr (r_pubkey r) \<and> dget body ''client_nonce'' = JStr (r_client_nonce r)"
  using seat_invD(2) [OF seats.inv_reachable [OF assms(1)] assms(2)] assms(3) by (auto simp: approved_row_def admits_def)

section \<open>Whose decision it is\<close>

definition decisions :: "reg_db \<Rightarrow> (string \<times> string option) list" where
  "decisions db = map (\<lambda>r. (r_id r, r_decision r)) (rg_requests db)"

definition decided_as :: "(string \<times> string option) list \<Rightarrow> 'w seat \<Rightarrow> bool" where
  "decided_as X s \<longleftrightarrow> decisions (st_db s) = X"

lemma on_db_decided: "(\<And>db. decisions (snd (f db)) = decisions db) \<Longrightarrow> keeps (decided_as X) (on_db f)"
  by (auto simp: keeps_def decided_as_def on_db_def Let_def split: prod.split) (metis snd_conv)

lemma on_relay_decided: "keeps (decided_as X) (on_relay m)"
  by (auto simp: keeps_def decided_as_def on_relay_def Let_def split: prod.split)

lemma decisions_map: "(\<And>r. p r \<Longrightarrow> r_id (f r) = r_id r \<and> r_decision (f r) = r_decision r) \<Longrightarrow> decisions (map_requests p f db) = decisions db"
  by (auto simp: decisions_def)

lemma decisions_tokens [simp]: "decisions (map_tokens p f db) = decisions db"
  by (simp add: decisions_def)

lemma other_db_decided:
  "decisions (snd (set_request db t1 t2 rid status ev)) = decisions db"
  "decisions (snd (record_attempt_failure db t1 t2 rid err nx m)) = decisions db"
  "decisions (mark_contradiction_noted db t1 rid) = decisions db"
  by (simp_all add: set_request_def record_attempt_failure_def mark_contradiction_noted_def Let_def decisions_map split: option.split)

lemma seat_ops_decided:
  "keeps (decided_as X) (thread_reply env r content)" "keeps (decided_as X) (react_seen env ev)" "keeps (decided_as X) (seat_audit a rid)"
  "keeps (decided_as X) (seat_reply env r event data)"
  by (auto simp: thread_reply_def react_seen_def intro!: catch_all_keeps on_relay_decided)
    (auto simp: keeps_def decided_as_def seat_audit_def seat_reply_def)

lemma failure_decided: "keeps (decided_as X) (record_failure env now r phase channel)"
  unfolding record_failure_def Let_def
  by (intro keeps_bind on_db_decided other_db_decided) (auto intro!: keeps_bind seat_ops_decided split: prod.split)

lemma handlers_decided:
  "keeps (decided_as X) (seat_deny env now r reason status)" "keeps (decided_as X) (seat_approve env now r)"
  "keeps (decided_as X) (finish_profile env now r)" "keeps (decided_as X) (decision_signals env r)"
  "keeps (decided_as X) (note_contradiction env now r action rest)"
proof -
  show "keeps (decided_as X) (seat_deny env now r reason status)" unfolding seat_deny_def
    by (intro keeps_bind on_db_decided other_db_decided seat_ops_decided)
  show "keeps (decided_as X) (seat_approve env now r)" unfolding seat_approve_def
    by (intro keeps_bind catch_all_keeps on_relay_decided on_db_decided other_db_decided seat_ops_decided failure_decided)
  show "keeps (decided_as X) (finish_profile env now r)" unfolding finish_profile_def
    by (intro keeps_bind catch_all_keeps on_relay_decided on_db_decided other_db_decided seat_ops_decided failure_decided)
  show "keeps (decided_as X) (decision_signals env r)" unfolding decision_signals_def
    by (intro keeps_bind catch_all_keeps on_relay_decided keeps_ret)
  have "keeps (decided_as X) (on_db (\<lambda>db. (Inr (), mark_contradiction_noted db now (r_id r))))"
    by (rule on_db_decided) (simp add: other_db_decided)
  then show "keeps (decided_as X) (note_contradiction env now r action rest)" unfolding note_contradiction_def
    by (auto intro!: keeps_bind seat_ops_decided)
qed

lemma carry_out_decided: "keeps (decided_as X) (carry_out env now r action)"
proof -
  have "keeps (decided_as X) (bind_m get_db (\<lambda>db. seat_approve env now (f db)))" for f
    by (rule get_db_keeps) (rule keepsD [OF handlers_decided(2) prod.collapse [symmetric]])
  then show ?thesis by (simp add: carry_out_def handlers_decided)
qed

lemma follow_decided: "keeps (decided_as X) (follow_decision env now r sg rest)"
  unfolding follow_decision_def
  by (cases sg) (auto intro!: keeps_bind seat_ops_decided handlers_decided carry_out_decided)

text \<open>What the poll reads at \<open>s\<close>: the thread as the relay shows it there, and the reactions as the relay shows them right after that read.
  The operator says something in the thread of the request, under the operator's key, or by a reaction under that key.\<close>

definition operator_says :: "'w seat_env \<Rightarrow> req_row \<Rightarrow> string \<Rightarrow> 'w seat \<Rightarrow> bool" where
  "operator_says env r action s \<longleftrightarrow>
     (\<exists>ms. fst (on_relay (thread (se_buzz env) (event_of r)) s) = Inr ms \<and>
        (\<exists>m \<in> set ms. py_lower (py_str (dget m ''pubkey'')) = bz_mark (se_buzz env) \<and>
           parse_approval_reply (py_str (dget m ''content'')) = Some \<lparr>ap_action = action, ap_request_id = py_lower (r_id r)\<rparr>)) \<or>
     (\<exists>rs. fst (on_relay (reactions (se_buzz env) (event_of r)) (snd (on_relay (thread (se_buzz env) (event_of r)) s))) = Inr rs \<and>
        (action = ''approve'' \<and> (\<exists>e \<in> set APPROVE_REACTIONS. bz_mark (se_buzz env) \<in> set (rs e)) \<or>
         action = ''deny'' \<and> (\<exists>e \<in> set DENY_REACTIONS. bz_mark (se_buzz env) \<in> set (rs e))))"

lemma message_signal_operator:
  assumes sg: "(a, src, t) \<in> set (message_signal env r m)" and mark: "bz_mark (se_buzz env) \<noteq> []"
  shows "py_lower (py_str (dget m ''pubkey'')) = bz_mark (se_buzz env) \<and>
    parse_approval_reply (py_str (dget m ''content'')) = Some \<lparr>ap_action = a, ap_request_id = py_lower (r_id r)\<rparr>"
proof -
  let ?pk = "if dhas m ''pubkey'' then py_str (dget m ''pubkey'') else []" and ?ct = "if dhas m ''content'' then py_str (dget m ''content'') else []"
  have none: "parse_approval_reply [] = None" by code_simp
  have pk: "py_lower ?pk = bz_mark (se_buzz env)" using sg by (simp add: message_signal_def split: if_split_asm)
  obtain p where p: "parse_approval_reply ?ct = Some p" using sg pk by (cases "parse_approval_reply ?ct") (simp_all add: message_signal_def)
  then have "ap_request_id p = py_lower (r_id r)" "a = ap_action p" using sg pk by (simp_all add: message_signal_def Let_def split: if_split_asm)
  moreover have "dhas m ''pubkey''" using pk mark by (cases "dhas m ''pubkey''") (simp_all add: py_lower_def)
  moreover have "dhas m ''content''" using p none by (cases "dhas m ''content''") simp_all
  ultimately show ?thesis using pk p by simp
qed

lemma reply_signal_operator:
  assumes "(a, src, t) \<in> set (reply_signals env r ms)" "bz_mark (se_buzz env) \<noteq> []"
  shows "\<exists>m \<in> set ms. py_lower (py_str (dget m ''pubkey'')) = bz_mark (se_buzz env) \<and>
    parse_approval_reply (py_str (dget m ''content'')) = Some \<lparr>ap_action = a, ap_request_id = py_lower (r_id r)\<rparr>"
  using assms message_signal_operator [OF _ assms(2)] by (fastforce simp: reply_signals_def)

lemma reaction_signal_operator:
  assumes "(a, src, t) \<in> set (reaction_signal env r rs action emojis)"
  shows "a = action \<and> (\<exists>e \<in> set (se_iter env emojis). bz_mark (se_buzz env) \<in> set (rs e))"
proof (cases "List.find (\<lambda>e. bz_mark (se_buzz env) \<in> set (rs e)) (se_iter env emojis)")
  case (Some e)
  then have "e \<in> set (se_iter env emojis)" "bz_mark (se_buzz env) \<in> set (rs e)" by (auto simp: find_Some_iff)
  then show ?thesis using assms Some by (auto simp: reaction_signal_def)
qed (use assms in \<open>simp add: reaction_signal_def\<close>)

lemma signals_operator:
  assumes "decision_signals env r s = (Inr sgs, s')" "(a, src, t) \<in> set sgs" "bz_mark (se_buzz env) \<noteq> []" "\<forall>es. set (se_iter env es) = set es"
  shows "operator_says env r a s"
proof -
  obtain x s1 where th: "on_relay (thread (se_buzz env) (event_of r)) s = (x, s1)" by fastforce
  obtain y s2 where re: "on_relay (reactions (se_buzz env) (event_of r)) s1 = (y, s2)" by fastforce
  have sgs: "sgs = (case x of Inl _ \<Rightarrow> [] | Inr ms \<Rightarrow> reply_signals env r ms) @
     (case y of Inl _ \<Rightarrow> [] | Inr rs \<Rightarrow> reaction_signal env r rs ''approve'' APPROVE_REACTIONS @ reaction_signal env r rs ''deny'' DENY_REACTIONS)"
    using assms(1) by (cases x; cases y) (auto simp: decision_signals_def bind_m_def catch_all_def ret_m_def th re)
  from assms(2) consider ms where "x = Inr ms" "(a, src, t) \<in> set (reply_signals env r ms)"
    | rs where "y = Inr rs" "(a, src, t) \<in> set (reaction_signal env r rs ''approve'' APPROVE_REACTIONS)"
    | rs where "y = Inr rs" "(a, src, t) \<in> set (reaction_signal env r rs ''deny'' DENY_REACTIONS)"
    unfolding sgs by (cases x; cases y) auto
  then show ?thesis
  proof cases
    case 1
    with reply_signal_operator [OF 1(2) assms(3)] th show ?thesis unfolding operator_says_def by (intro disjI1 exI [of _ ms]) simp
  next
    case 2
    with reaction_signal_operator [OF 2(2)] re th assms(4) show ?thesis unfolding operator_says_def by (intro disjI2 exI [of _ rs]) simp
  next
    case 3
    with reaction_signal_operator [OF 3(2)] re th assms(4) show ?thesis unfolding operator_says_def by (intro disjI2 exI [of _ rs]) simp
  qed
qed

lemma decided_row:
  assumes "decisions db = decisions db'" "q \<in> set (rg_requests db)"
  obtains q' where "q' \<in> set (rg_requests db')" "r_id q' = r_id q" "r_decision q' = r_decision q"
proof -
  have "(r_id q, r_decision q) \<in> set (decisions db')" using assms by (metis (no_types, lifting) decisions_def image_eqI set_map)
  then show thesis using that by (auto simp: decisions_def)
qed

lemma poll_signals_decides:
  assumes p: "poll_signals env now r s = (res, s')" and mark: "bz_mark (se_buzz env) \<noteq> []" and it: "\<forall>es. set (se_iter env es) = set es"
  shows "decisions (st_db s') = decisions (st_db s) \<or>
    (\<exists>a src. operator_says env r a s \<and> decisions (st_db s') = decisions (snd (set_decision (st_db s) now (r_id r) a src)))"
proof -
  obtain sg s1 where d: "decision_signals env r s = (sg, s1)" by fastforce
  have 1: "decisions (st_db s1) = decisions (st_db s)" using keepsD [OF handlers_decided(4) d, of "decisions (st_db s)"] by (simp add: decided_as_def)
  have db1: "st_db s1 = st_db s"
    using d by (auto simp: decision_signals_def bind_m_def catch_all_def on_relay_def ret_m_def Let_def split: prod.splits sum.splits)
  consider "s' = s1" | a src t rest where "sg = Inr ((a, src, t) # rest)"
    using p d by (cases sg) (auto simp: poll_signals_def bind_m_def ret_m_def split: list.splits)
  then show ?thesis
  proof cases
    case 2
    obtain won s2 where w: "on_db (\<lambda>db. set_decision db now (r_id r) a src) s1 = (won, s2)" by fastforce
    have db2: "st_db s2 = snd (set_decision (st_db s) now (r_id r) a src)" using w db1 by (auto simp: on_db_def Let_def split: prod.splits)
    have "decisions (st_db s') = decisions (st_db s2)"
    proof (cases won)
      case (Inl e)
      then show ?thesis using p d 2 w by (simp add: poll_signals_def bind_m_def)
    next
      case (Inr b)
      with p d 2 w have f: "(if \<not> b then ret_m () else follow_decision env now r (a, src, t) rest) s2 = (res, s')" by (simp add: poll_signals_def bind_m_def)
      show ?thesis
      proof (cases b)
        case True
        with f have "follow_decision env now r (a, src, t) rest s2 = (res, s')" by simp
        from keepsD [OF follow_decided this, of "decisions (st_db s2)"] show ?thesis by (simp add: decided_as_def)
      qed (use f in \<open>simp add: ret_m_def\<close>)
    qed
    moreover have "operator_says env r a s" by (rule signals_operator [OF d [unfolded 2(1)] list.set_intros(1) mark it])
    ultimately show ?thesis using db2 by metis
  qed (use 1 in simp)
qed

text \<open>C9: A decision is the operator's, and it is about that request. If a step of the poll turns an undecided request into a decided one, then the step was for this very request, and what this step read
  on the relay says so: a message in the thread of the request, signed with the operator's key, reads as that decision for that request, or among the reactions read right after the thread
  the operator's key stands behind a sign for it, a sign of approval for an approval and one of denial for a denial. (A set of emoji is iterated in some order.)\<close>

theorem decision_is_the_operators:
  assumes "poll_one env now r s = (res, s')" "bz_mark (se_buzz env) \<noteq> []" "reg_inv (st_db s)" 
    and "q \<in> set (rg_requests (st_db s))" "r_decision q = None" "q' \<in> set (rg_requests (st_db s'))" "r_id q' = r_id q" "r_decision q' = Some a"
    and iter: "\<forall>es. set (se_iter env es) = set es"
  shows "r_id q = r_id r \<and> operator_says env r a s"
proof -
  have uniq: "p = q" if "p \<in> set (rg_requests (st_db s))" "r_id p = r_id q" for p
    using request_row_unique [OF assms(3)] that assms(4) by (metis option.inject)
  have changed: "decisions (st_db s') \<noteq> decisions (st_db s)"
  proof
    assume "decisions (st_db s') = decisions (st_db s)"
    from decided_row [OF this assms(6)] obtain p where "p \<in> set (rg_requests (st_db s))" "r_id p = r_id q'" "r_decision p = r_decision q'" .
    with uniq [of p] assms(5,7,8) show False by simp
  qed
  have still: "decisions (st_db s') = decisions (st_db s)" if "keeps (decided_as (decisions (st_db s))) m" "m s = (res, s')" for m
    using keepsD [OF that] by (simp add: decided_as_def)
  have "poll_signals env now r s = (res, s')"
    using assms(1) changed still [OF keeps_ret] still [OF handlers_decided(1) [of _ env now r "''approval timed out''" "''timed_out''"]]
      still [OF handlers_decided(2) [of _ env now r]] still [OF handlers_decided(3) [of _ env now r]]
    unfolding poll_one_def by (simp split: if_splits)
  from poll_signals_decides [OF this assms(2) iter] changed obtain b src where says: "operator_says env r b s"
    and db: "decisions (st_db s') = decisions (snd (set_decision (st_db s) now (r_id r) b src))" by blast
  from decided_row [OF db assms(6)] obtain p where p: "p \<in> set (rg_requests (snd (set_decision (st_db s) now (r_id r) b src)))"
    "r_id p = r_id q'" "r_decision p = r_decision q'" .
  then obtain p0 where "p0 \<in> set (rg_requests (st_db s))" "r_id p0 = r_id q"
    "p = p0 \<or> r_id p0 = r_id r \<and> r_decision p = Some b"
    using assms(7) by (auto simp: set_decision_def decidable_def split: if_splits)
  moreover from this(1,2) have "p0 = q" by (rule uniq)
  ultimately have "r_id q = r_id r" "b = a" using assms(5,8) p(3) by auto
  with says show ?thesis by simp
qed

lemma thread_reply_result: "\<exists>rl. thread_reply env r content s = (Inr (), s\<lparr>st_relay := rl\<rparr>)"
proof (cases "event_of r = []")
  case True
  then have "thread_reply env r content s = (Inr (), s\<lparr>st_relay := st_relay s\<rparr>)" by (simp add: thread_reply_def ret_m_def)
  then show ?thesis by blast
next
  case False
  obtain x rl where "relay_reply (se_buzz env) (event_of r) content (st_relay s) = (x, rl)" by fastforce
  then have "thread_reply env r content s = (Inr (), s\<lparr>st_relay := rl\<rparr>)" using False
    by (cases x) (simp_all add: thread_reply_def catch_all_def on_relay_def ret_m_def)
  then show ?thesis by blast
qed

lemma on_relay_frame: "on_relay m s = (x, s') \<Longrightarrow> st_db s' = st_db s \<and> st_sent s' = st_sent s"
  by (auto simp: on_relay_def Let_def split: prod.splits)

lemma set_provisioned_row:
  assumes "r \<in> set (rg_requests db)" "reg_inv db" "set_request db t t (r_id r) ''provisioned'' None = (x, db')"
  shows "x = Inr ()" "reg_inv db'" "\<exists>r1. reg_request_row db' (r_id r) = Some r1 \<and> r_status r1 = ''provisioned'' \<and> r_attempts r1 = 0 \<and> r_id r1 = r_id r"
proof -
  have inv: "reg_inv db'" using registration.inv_step [OF assms(2) rs_set_request [where sha = id, of db t t "r_id r" "''provisioned''" None]] assms(3) by simp
  show "x = Inr ()" using assms(1,3) by (auto simp: set_request_def Let_def split: if_splits)
  let ?r1 = "r\<lparr>r_status := ''provisioned'', r_updated := t, r_attempts := 0, r_next_attempt := None, r_last_error := None\<rparr>"
  have "?r1 \<in> set (rg_requests db')" using assms(1,3) by (auto simp: set_request_def Let_def image_image split: if_splits intro!: image_eqI [of _ _ r])
  from request_row_unique [OF inv this] show "\<exists>r1. reg_request_row db' (r_id r) = Some r1 \<and> r_status r1 = ''provisioned'' \<and> r_attempts r1 = 0 \<and> r_id r1 = r_id r" by simp
  show "reg_inv db'" by (rule inv)
qed

lemma first_failure_row:
  assumes "reg_request_row db rid = Some r1" "r_attempts r1 = 0" "reg_inv db" "record_attempt_failure db t t rid err nx SEAT_MAX_ATTEMPTS = (x, db')"
  shows "x = Inr (1, False)" "\<exists>r2. reg_request_row db' rid = Some r2 \<and> r_status r2 = r_status r1 \<and> r_attempts r2 = 1"
proof -
  have inv: "reg_inv db'" using registration.inv_step [OF assms(3) rs_failure [where sha = id, of db t t rid err nx SEAT_MAX_ATTEMPTS]] assms(4) by simp
  show "x = Inr (1, False)" using assms(1,2,4) by (auto simp: record_attempt_failure_def Let_def SEAT_MAX_ATTEMPTS_def)
  have r1: "r1 \<in> set (rg_requests db)" "r_id r1 = rid" using found_row [OF assms(1)] by simp_all
  let ?r2 = "r1\<lparr>r_attempts := 1, r_next_attempt := Some nx, r_last_error := Some (take 1000 err), r_updated := t\<rparr>"
  have "?r2 \<in> set (rg_requests db')" using assms(1,2,4) r1
    by (auto simp: record_attempt_failure_def Let_def SEAT_MAX_ATTEMPTS_def intro!: image_eqI [of _ _ r1])
  from request_row_unique [OF inv this] r1(2) show "\<exists>r2. reg_request_row db' rid = Some r2 \<and> r_status r2 = r_status r1 \<and> r_attempts r2 = 1" by simp
qed

text \<open>C38: A seat whose provision message is lost is lost for good. When the relay has made the seat a member but the queue refuses the message, the request is left as provisioned with one failed attempt, which the
  thread announces as one to be retried; yet no later poll does anything with it.\<close>

theorem lost_provision_stuck:
  assumes "on_relay (owner_auth_tag (se_buzz env) (r_pubkey r)) s = (Inr tag, s1)"
    and "on_relay (relay_provision (se_buzz env) (r_pubkey r) (channels_of r)) s1 = (Inr (), s2)"
    and "r \<in> set (rg_requests (st_db s))" "reg_inv (st_db s)" "\<not> se_send_ok env (r_reply_agent r) PROVISION_EVENT (provision_data env r tag)"
  shows "\<exists>r' s'. seat_approve env now r s = (Inr (), s') \<and> reg_request_row (st_db s') (r_id r) = Some r' \<and> r_status r' = ''provisioned'' \<and> r_attempts r' = 1 \<and>
    st_sent s' = st_sent s \<and> (\<forall>env' now' s3. poll_one env' now' r' s3 = (Inr (), s3))"
proof -
  obtain x db1 where set: "set_request (st_db s2) now now (r_id r) ''provisioned'' None = (x, db1)" by fastforce
  have db: "st_db s2 = st_db s" "st_sent s2 = st_sent s" using on_relay_frame [OF assms(1)] on_relay_frame [OF assms(2)] by simp_all
  from set_provisioned_row [OF assms(3,4) set [unfolded db]] obtain r1 where x: "x = Inr ()" and inv1: "reg_inv db1"
    and r1: "reg_request_row db1 (r_id r) = Some r1" "r_status r1 = ''provisioned''" "r_attempts r1 = 0" by blast
  let ?nx = "now + SEAT_RETRY_DELAYS ! min (nat (r_attempts r)) (length SEAT_RETRY_DELAYS - 1) * 1000000"
  obtain y db2 where fail: "record_attempt_failure db1 now now (r_id r) ''provisioning'' ?nx SEAT_MAX_ATTEMPTS = (y, db2)" by fastforce
  from first_failure_row [OF r1(1,3) inv1 fail] obtain r2 where y: "y = Inr (1, False)"
    and r2: "reg_request_row db2 (r_id r) = Some r2" "r_status r2 = r_status r1" "r_attempts r2 = 1" by blast
  let ?s3 = "s2\<lparr>st_db := db1\<rparr>"
  have "seat_approve env now r s = record_failure env now r ''provisioning'' None ?s3"
    using assms(5) by (simp add: seat_approve_def catch_all_def bind_m_def assms(1,2) on_db_def set x seat_reply_def exc_channel_def)
  moreover obtain rl where "record_failure env now r ''provisioning'' None ?s3 = (Inr (), ?s3\<lparr>st_db := db2, st_relay := rl\<rparr>)"
    using thread_reply_result [of env r _ "?s3\<lparr>st_db := db2\<rparr>"] by (auto simp: record_failure_def bind_m_def on_db_def fail y Let_def simp del: One_nat_def)
  moreover have "poll_one env' now' r2 s3 = (Inr (), s3)" for env' now' and s3 :: "'b seat"
    using r1(2) r2(2) by (simp add: poll_one_def ret_m_def)
  ultimately show ?thesis using r1(2) r2 db(2) by (intro exI [of _ r2] exI [of _ "?s3\<lparr>st_db := db2, st_relay := rl\<rparr>"]) simp
qed

section \<open>A run\<close>

text \<open>A relay whose thread holds the operator's approval of the request \<^verbatim>\<open>00000001\<close>.\<close>

definition demo_exec :: "command \<Rightarrow> unit \<Rightarrow> (string, proc) res \<times> unit" where
  "demo_exec c w =
    (let out = (if take 2 (cm_argv c) = [''messages'', ''send''] then ''{\"event_id\": \"e1\"}''
                else if take 2 (cm_argv c) = [''messages'', ''thread'']
                then ''[{\"pubkey\": \"MK\", \"content\": \"approve 00000001\", \"id\": \"m1\"}]'' else [])
     in (Inr \<lparr>pr_rc = 0, pr_out = out, pr_err = []\<rparr>, w))"

definition demo_curve :: curve where
  "demo_curve = \<lparr>cv_xonly = (\<lambda>_. None), cv_parses = (\<lambda>_. True), cv_sign = (\<lambda>_ _ _. None), cv_verify = (\<lambda>_ _ _. None), cv_sha256 = id\<rparr>"

definition demo_buzz :: "unit buzz" where
  "demo_buzz = \<lparr>bz_exec = demo_exec, bz_ops_channel = ''ops'', bz_mark = ''mk'', bz_registrar = ''rg'', bz_community = ''co'', bz_owner = None,
     bz_curve = demo_curve, bz_aux = [], bz_db_up = True, bz_emoji = OtherEmoji\<rparr>"

definition demo_seat_env :: "unit seat_env" where
  "demo_seat_env = \<lparr>se_buzz = demo_buzz, se_ec = \<lparr>ec_point_x = (\<lambda>_. Some ''aa''), ec_verify = (\<lambda>_ _ _. True)\<rparr>, se_sha = id, se_agent_id = ''registrar'',
     se_relay_url = ''wss'', se_timeout = 86400000000, se_send_ok = (\<lambda>_ _ _. True), se_iter = id\<rparr>"

definition demo_seat_start :: "unit seat" where
  "demo_seat_start = \<lparr>st_db = reg_init, st_relay = \<lparr>rl_world = (), rl_trace = [], rl_users = []\<rparr>, st_sent = [], st_log = [], st_last_poll = 0\<rparr>"

definition demo_seat_request :: dict where
  "demo_seat_request = [(''kind'', JStr ''notify''), (''payload'', JObj [(''event'', JStr REQUEST_EVENT), (''data'', JObj
     [(''event'', JStr REQUEST_EVENT), (''token'', JStr ''arbseat_t_s''), (''name'', JStr ''n''), (''host'', JStr ''h''), (''pubkey'', JStr ''aa''),
      (''signing_pubkey'', JStr ''aa''), (''reply_agent_id'', JStr ''ra''), (''client_nonce'', JStr ''c''), (''issued_at'', JStr ''i''),
      (''channels'', JArr []), (''signature'', JStr ''QQ=='')])])]"

definition demo_seat_minted :: "unit seat" where
  "demo_seat_minted = demo_seat_start\<lparr>st_db := snd (mint id reg_init 1000000 1000000 ''t'' ''s'' ''n'' (Some ''h'') 9000000)\<rparr>"

definition demo_seat_filed :: "unit seat" where
  "demo_seat_filed = snd (seat_handle demo_seat_env 2000000 ''00000001'' demo_seat_request demo_seat_minted)"

lemma demo_seat_filed_eval [code]:
  "demo_seat_filed =
     \<lparr>st_db =
        \<lparr>rg_tokens = [\<lparr>t_id = ''t'', t_name = ''n'', t_host = ''h'', t_hash = ''arbseat_t_s'', t_status = ''pending'', t_created = 1000000,
           t_expires = 10000000, t_request = Some ''00000001'', t_updated = 2000000\<rparr>],
         rg_requests = [(new_request ''00000001'' ''t'' ''n'' ''h'' 2000000
           \<lparr>q_pubkey = ''aa'', q_signing_pubkey = ''aa'', q_channels_json = JArr [], q_reply_agent = ''ra'', q_client_nonce = ''c'',
            q_sealing_pubkey = None, q_sealing_fp = None, q_self_report_json = None, q_roles_json = None\<rparr>)\<lparr>r_approval_event := Some ''e1''\<rparr>],
         rg_pins = [], rg_audit = []\<rparr>,
      st_relay = \<lparr>rl_world = (), rl_trace = [\<lparr>cm_admin = False,
           cm_argv = [''messages'', ''send'', ''--channel'', ''ops'', ''--content'', ''-'', ''--mention'', ''mk''],
           cm_stdin = Some (approval_text ''00000001'' ''n'' ''h'' ''aa'' [] [])\<rparr>], rl_users = []\<rparr>,
      st_sent = [], st_log = [(''approval_requested'', ''00000001'')], st_last_poll = 0\<rparr>"
  by code_simp

definition demo_seat_polled :: "unit seat" where
  "demo_seat_polled = snd (poll_approvals demo_seat_env 3000000 3000000 demo_seat_filed)"

definition demo_seat_row :: req_row where
  "demo_seat_row = hd (rg_requests (st_db demo_seat_filed))"

lemma demo_reached: "reachable seat_start (seat_step demo_seat_env) demo_seat_filed" "reachable seat_start (seat_step demo_seat_env) demo_seat_polled"
proof -
  have 0: "reachable seat_start (seat_step demo_seat_env) demo_seat_start"
    by (rule reach_init) (simp add: seat_start_def demo_seat_start_def)
  have eq: "demo_seat_minted = demo_seat_start\<lparr>st_db := snd (mint (se_sha demo_seat_env) (st_db demo_seat_start) 1000000 1000000 ''t'' ''s'' ''n'' (Some ''h'') 9000000)\<rparr>"
    by (simp add: demo_seat_minted_def demo_seat_env_def demo_seat_start_def)
  from 0 have 1: "reachable seat_start (seat_step demo_seat_env) demo_seat_minted" unfolding eq by (rule reach_step) (rule ss_mint)
  from 1 show 2: "reachable seat_start (seat_step demo_seat_env) demo_seat_filed" unfolding demo_seat_filed_def by (rule reach_step) (rule ss_handle)
  from 2 show "reachable seat_start (seat_step demo_seat_env) demo_seat_polled" unfolding demo_seat_polled_def by (rule reach_step) (rule ss_poll)
qed

lemma demo_row_filed: "demo_seat_row \<in> set (rg_requests (st_db demo_seat_filed))" "r_decision demo_seat_row = None"
  by code_simp+

lemma demo_members: "filter cm_admin (rl_trace (st_relay demo_seat_polled)) = [add_member ''aa'']"
  by code_simp

lemma demo_messages: "map (\<lambda>(to, event, body). (to, event)) (st_sent demo_seat_polled) = [(''ra'', PROVISION_EVENT)]"
  by code_simp

theorem members_were_approved_witness:
  "\<exists>r \<in> set (rg_requests (st_db demo_seat_polled)). r_decision r = Some ''approve'' \<and> add_member ''aa'' = add_member (r_pubkey r)"
proof -
  have "add_member ''aa'' \<in> set (filter cm_admin (rl_trace (st_relay demo_seat_polled)))" unfolding demo_members by simp
  then have "add_member ''aa'' \<in> set (rl_trace (st_relay demo_seat_polled))" "cm_admin (add_member ''aa'')" by simp_all
  from members_were_approved [OF demo_reached(2) this] show ?thesis .
qed

theorem grants_name_approved_requests_witness:
  "\<exists>r \<in> set (rg_requests (st_db demo_seat_polled)). r_decision r = Some ''approve'' \<and> ''ra'' = r_reply_agent r"
proof -
  have "(''ra'', PROVISION_EVENT) \<in> set (map (\<lambda>(to, event, body). (to, event)) (st_sent demo_seat_polled))" unfolding demo_messages by simp
  then obtain body where "(''ra'', PROVISION_EVENT, body) \<in> set (st_sent demo_seat_polled)" by auto
  from grants_name_approved_requests [OF demo_reached(2) this] show ?thesis by blast
qed

lemma demo_decided: "map (\<lambda>r. (r_id r, r_decision r)) (rg_requests (st_db (snd (poll_one demo_seat_env 3000000 demo_seat_row demo_seat_filed)))) =
    [(''00000001'', Some ''approve'')]"
  by code_simp

theorem decision_is_the_operators_witness: "operator_says demo_seat_env demo_seat_row ''approve'' demo_seat_filed"
proof -
  have "(''00000001'', Some ''approve'') \<in> set (map (\<lambda>r. (r_id r, r_decision r)) (rg_requests (st_db (snd (poll_one demo_seat_env 3000000 demo_seat_row demo_seat_filed)))))"
    unfolding demo_decided by simp
  moreover have "r_id demo_seat_row = ''00000001''" by code_simp
  ultimately obtain q where q: "q \<in> set (rg_requests (st_db (snd (poll_one demo_seat_env 3000000 demo_seat_row demo_seat_filed))))"
    "r_id q = r_id demo_seat_row" "r_decision q = Some ''approve''" by auto
  have mark: "bz_mark (se_buzz demo_seat_env) \<noteq> []" by (simp add: demo_seat_env_def demo_buzz_def)
  have inv: "reg_inv (st_db demo_seat_filed)" using seats.inv_reachable [OF demo_reached(1)] by (simp add: seat_inv_def)
  have "\<forall>es. set (se_iter demo_seat_env es) = set es" by (simp add: demo_seat_env_def)
  from decision_is_the_operators [OF prod.collapse [symmetric] mark inv demo_row_filed q this] show ?thesis by blast
qed

definition demo_deaf :: "unit seat_env" where
  "demo_deaf = demo_seat_env\<lparr>se_send_ok := (\<lambda>_ _ _. False)\<rparr>"

theorem lost_provision_stuck_witness:
  "\<exists>r' s'. seat_approve demo_deaf 3000000 demo_seat_row demo_seat_filed = (Inr (), s') \<and> r_status r' = ''provisioned'' \<and> st_sent s' = [] \<and>
     poll_one demo_deaf 9000000 r' s' = (Inr (), s')"
proof -
  let ?m = "on_relay (owner_auth_tag (se_buzz demo_deaf) (r_pubkey demo_seat_row)) demo_seat_filed"
  let ?n = "on_relay (relay_provision (se_buzz demo_deaf) (r_pubkey demo_seat_row) (channels_of demo_seat_row)) (snd ?m)"
  have "fst ?m = Inr None" "fst ?n = Inr ()" by code_simp+
  then have m: "?m = (Inr None, snd ?m)" "?n = (Inr (), snd ?n)" by (metis prod.collapse)+
  have inv: "reg_inv (st_db demo_seat_filed)" using seats.inv_reachable [OF demo_reached(1)] by (simp add: seat_inv_def)
  have "\<not> se_send_ok demo_deaf (r_reply_agent demo_seat_row) PROVISION_EVENT (provision_data demo_deaf demo_seat_row None)" by (simp add: demo_deaf_def)
  moreover have "st_sent demo_seat_filed = []" by code_simp
  ultimately show ?thesis using lost_provision_stuck [OF m demo_row_filed(1) inv] by metis
qed

end
