(* ===== verification/Envelope.thy ===== *)
theory Envelope
  imports Py_Json
begin

text \<open>
  The messages of the bus (\<open>src/src/agent_redis_bridge/envelope.py\<close> and \<open>brief_ref.py\<close>): the header checks, the
  checks of each kind of payload, the two wire forms of a task, and the way back to JSON text.
  A parse failure is an \<open>EnvelopeError\<close> with its reason and the header, if that had been validated;
  the text the JSON decoder adds to its reason is left out. A list or an object where the code tests
  membership in a set raises \<open>TypeError\<close>.
\<close>

section \<open>References to briefs\<close>

record brief_ref =
  br_artefact_id :: string
  br_version :: int

definition brief_ref_dict :: "brief_ref \<Rightarrow> dict" where
  "brief_ref_dict r = [(''artefact_id'', JStr (br_artefact_id r)), (''version'', JInt (br_version r))]"

definition parse_brief_ref :: "json \<Rightarrow> (string, brief_ref) res" where
  "parse_brief_ref v =
    (case v of
       JObj d \<Rightarrow>
        (if \<not> dhas d ''artefact_id'' \<or> \<not> dhas d ''version'' then Inl ''invalid-payload-task-ref''
         else (case (dget d ''artefact_id'', dget d ''version'') of
                 (JStr a, JInt n) \<Rightarrow>
                   (if \<not> nonblank a \<or> n < 1 then Inl ''invalid-payload-task-ref''
                    else Inr \<lparr>br_artefact_id = py_strip a, br_version = n\<rparr>)
               | _ \<Rightarrow> Inl ''invalid-payload-task-ref''))
     | _ \<Rightarrow> Inl ''invalid-payload-task-ref'')"

definition is_brief_ref_shape :: "json \<Rightarrow> bool" where
  "is_brief_ref_shape v = (case v of JObj d \<Rightarrow> dhas d ''artefact_id'' | _ \<Rightarrow> False)"

section \<open>Headers\<close>

definition ALLOWED_KINDS :: "string list" where
  "ALLOWED_KINDS = [''cancel'', ''hello'', ''request'', ''reply'', ''steer'', ''notify'']"

record envelope_header =
  h_id :: string
  h_sender :: string
  h_branch :: string
  h_recipient :: string
  h_kind :: string
  h_sent_at :: string
  h_payload :: dict
  h_in_reply_to :: "string option"

datatype envelope_exc = EnvelopeError string "envelope_header option" | EnvelopeTypeError

definition task_ref_required :: "(string \<times> string) list \<Rightarrow> bool" where
  "task_ref_required source =
     (py_lower (case map_of source ''BRIDGE_TASK_REF_REQUIRED'' of None \<Rightarrow> ''0'' | Some v \<Rightarrow> v) \<in> {''1'', ''true'', ''yes''})"

definition validate_request_task :: "bool \<Rightarrow> json \<Rightarrow> (string, unit) res" where
  "validate_request_task required task =
    (if is_brief_ref_shape task \<or> is_dict task
     then (case parse_brief_ref task of Inl e \<Rightarrow> Inl e | Inr _ \<Rightarrow> Inr ())
     else if required then Inl ''invalid-payload-task-ref''
     else if \<not> nonblank_str task then Inl ''missing-payload-task''
     else Inr ())"

definition load_envelope_object :: "string \<Rightarrow> (string, dict) res" where
  "load_envelope_object raw =
    (case json_loads raw of
       None \<Rightarrow> Inl ''invalid-json''
     | Some (JObj d) \<Rightarrow> Inr d
     | Some _ \<Rightarrow> Inl ''envelope-not-object'')"

definition header_strings :: "string list" where
  "header_strings = [''id'', ''from'', ''branch'', ''to'', ''kind'', ''sent_at'']"

definition opt_str :: "json \<Rightarrow> string option" where
  "opt_str v = (case v of JStr s \<Rightarrow> Some s | _ \<Rightarrow> None)"

definition header_from_value :: "dict \<Rightarrow> (string, envelope_header) res" where
  "header_from_value d =
    (case List.find (\<lambda>f. \<not> dhas d f) (header_strings @ [''payload'']) of
       Some f \<Rightarrow> Inl (''missing-'' @ f)
     | None \<Rightarrow>
    (case List.find (\<lambda>f. \<not> nonempty_str (dget d f)) header_strings of
       Some f \<Rightarrow> Inl (''invalid-'' @ f)
     | None \<Rightarrow>
    (let kind = str_of (dget d ''kind'') in
     if kind \<notin> set ALLOWED_KINDS then Inl (''invalid-kind:'' @ kind)
     else (case dget d ''payload'' of
       JObj payload \<Rightarrow>
        (if kind = ''reply'' \<and> \<not> nonempty_str (dget d ''in_reply_to'') then Inl ''missing-in_reply_to''
         else if kind \<noteq> ''reply'' \<and> dget d ''in_reply_to'' \<noteq> JNull then Inl ''unexpected-in_reply_to''
         else Inr \<lparr>h_id = str_of (dget d ''id''), h_sender = str_of (dget d ''from''), h_branch = str_of (dget d ''branch''),
                   h_recipient = str_of (dget d ''to''), h_kind = kind, h_sent_at = str_of (dget d ''sent_at''),
                   h_payload = payload, h_in_reply_to = opt_str (dget d ''in_reply_to'')\<rparr>)
     | _ \<Rightarrow> Inl ''invalid-payload''))))"

definition parse_header :: "string \<Rightarrow> (string, envelope_header) res" where
  "parse_header raw = bind_r (load_envelope_object raw) header_from_value"

section \<open>Envelopes\<close>

record envelope =
  e_id :: string
  e_sender :: string
  e_branch :: string
  e_recipient :: string
  e_kind :: string
  e_sent_at :: string
  e_payload :: dict
  e_in_reply_to :: "string option"
  e_run_id :: "string option"

definition taskless_operations :: "string list" where
  "taskless_operations = [''worktree_arm'', ''worktree_release'']"

text \<open>The checks on a request's payload in the order of the code; \<open>None\<close> is the \<open>TypeError\<close>.\<close>

definition has_context :: "dict \<Rightarrow> string \<Rightarrow> bool" where
  "has_context p k = nonblank_str (dget p k)"

definition request_payload_checks :: "bool \<Rightarrow> dict \<Rightarrow> (string option, unit) res" where
  "request_payload_checks required p =
    (if unhashable (dget p ''operation'') then Inl None
     else
      (case (if \<exists>o' \<in> set taskless_operations. dget p ''operation'' = JStr o' then Inr ()
             else validate_request_task required (dget p ''task'')) of
         Inl e \<Rightarrow> Inl (Some e)
       | Inr _ \<Rightarrow>
          (if dhas p ''thread_id'' \<and> \<not> has_context p ''thread_id'' then Inl (Some ''invalid-payload-thread_id'')
           else if dhas p ''fork_from_thread_id'' \<and> \<not> has_context p ''fork_from_thread_id''
           then Inl (Some ''invalid-payload-fork_from_thread_id'')
           else (case List.find (\<lambda>f. dhas p f \<and> \<not> nonblank_str (dget p f)) [''claim_ref'', ''lane''] of
                   Some f \<Rightarrow> Inl (Some (''invalid-payload-'' @ f))
                 | None \<Rightarrow>
                    (if has_context p ''thread_id'' \<and> has_context p ''fork_from_thread_id'' then Inl (Some ''contradictory-context'')
                     else if (has_context p ''thread_id'' \<or> has_context p ''fork_from_thread_id'') \<and> dget p ''fresh_context'' = JBool True
                     then Inl (Some ''contradictory-context'')
                     else Inr ())))))"

definition payload_checks :: "bool \<Rightarrow> string \<Rightarrow> dict \<Rightarrow> (string option, unit) res" where
  "payload_checks required kind p =
    (if kind = ''request'' then request_payload_checks required p
     else if kind = ''steer'' \<and> \<not> nonblank_str (dget p ''message'') then Inl (Some ''missing-payload-message'')
     else Inr ())"

definition from_json :: "bool \<Rightarrow> string \<Rightarrow> (envelope_exc, envelope) res" where
  "from_json required raw =
    (case load_envelope_object raw of
       Inl e \<Rightarrow> Inl (EnvelopeError e None)
     | Inr d \<Rightarrow>
    (case header_from_value d of
       Inl e \<Rightarrow> Inl (EnvelopeError e None)
     | Inr h \<Rightarrow>
    (case payload_checks required (h_kind h) (h_payload h) of
       Inl None \<Rightarrow> Inl EnvelopeTypeError
     | Inl (Some e) \<Rightarrow> Inl (EnvelopeError e (Some h))
     | Inr _ \<Rightarrow>
        (if dget d ''run_id'' \<noteq> JNull \<and> \<not> nonblank_str (dget d ''run_id'') then Inl (EnvelopeError ''invalid-run_id'' (Some h))
         else Inr \<lparr>e_id = h_id h, e_sender = h_sender h, e_branch = h_branch h, e_recipient = h_recipient h, e_kind = h_kind h,
                   e_sent_at = h_sent_at h, e_payload = h_payload h, e_in_reply_to = h_in_reply_to h,
                   e_run_id = opt_str (dget d ''run_id'')\<rparr>))))"

definition to_dict :: "envelope \<Rightarrow> dict" where
  "to_dict e =
     [(''id'', JStr (e_id e)), (''from'', JStr (e_sender e)), (''branch'', JStr (e_branch e)), (''to'', JStr (e_recipient e)),
      (''kind'', JStr (e_kind e)), (''sent_at'', JStr (e_sent_at e)), (''payload'', JObj (e_payload e))] @
     (case e_in_reply_to e of None \<Rightarrow> [] | Some r \<Rightarrow> [(''in_reply_to'', JStr r)]) @
     (case e_run_id e of None \<Rightarrow> [] | Some r \<Rightarrow> [(''run_id'', JStr r)])"

definition wire_style :: json_style where
  "wire_style = \<lparr>js_item = '','', js_key = '':'', js_sort = False, js_ascii = False\<rparr>"

definition to_json :: "envelope \<Rightarrow> string" where
  "to_json e = json_dumps wire_style (JObj (to_dict e))"

text \<open>\<open>uid\<close> and \<open>now\<close> are the drawn identifier and the text of the current time.\<close>

definition make_reply :: "string \<Rightarrow> string \<Rightarrow> string \<Rightarrow> string \<Rightarrow> string \<Rightarrow> string \<Rightarrow> dict \<Rightarrow> envelope" where
  "make_reply uid now sender recipient branch in_reply_to payload =
     \<lparr>e_id = uid, e_sender = sender, e_branch = branch, e_recipient = recipient, e_kind = ''reply'', e_sent_at = now,
      e_payload = payload, e_in_reply_to = Some in_reply_to, e_run_id = None\<rparr>"

definition make_notify :: "string \<Rightarrow> string \<Rightarrow> string \<Rightarrow> string \<Rightarrow> string \<Rightarrow> string \<Rightarrow> dict \<Rightarrow> envelope" where
  "make_notify uid now sender recipient branch event data =
     \<lparr>e_id = uid, e_sender = sender, e_branch = branch, e_recipient = recipient, e_kind = ''notify'', e_sent_at = now,
      e_payload = [(''event'', JStr event), (''data'', JObj data)], e_in_reply_to = None, e_run_id = None\<rparr>"

section \<open>What a valid envelope is\<close>

definition envelope_ok :: "bool \<Rightarrow> envelope \<Rightarrow> bool" where
  "envelope_ok required e \<longleftrightarrow>
     e_id e \<noteq> [] \<and> e_sender e \<noteq> [] \<and> e_branch e \<noteq> [] \<and> e_recipient e \<noteq> [] \<and> e_sent_at e \<noteq> [] \<and>
     e_kind e \<in> set ALLOWED_KINDS \<and>
     (if e_kind e = ''reply'' then e_in_reply_to e \<notin> {None, Some []} else e_in_reply_to e = None) \<and>
     payload_checks required (e_kind e) (e_payload e) = Inr () \<and>
     (case e_run_id e of None \<Rightarrow> True | Some r \<Rightarrow> nonblank r) \<and> json_wf (JObj (e_payload e))"

section \<open>Lemmas\<close>

lemma wire_style_ok: "style_ok wire_style"
  by (simp add: style_ok_def wire_style_def)

lemma find_first_None: "List.find P xs = None \<longleftrightarrow> (\<forall>x \<in> set xs. \<not> P x)"
  by (auto simp: find_None_iff)

lemma header_ok:
  assumes "header_from_value d = Inr h"
  shows "\<forall>f \<in> set header_strings. dget d f \<noteq> JStr [] \<and> (\<exists>s. dget d f = JStr s)"
    and "h = \<lparr>h_id = str_of (dget d ''id''), h_sender = str_of (dget d ''from''), h_branch = str_of (dget d ''branch''),
           h_recipient = str_of (dget d ''to''), h_kind = str_of (dget d ''kind''), h_sent_at = str_of (dget d ''sent_at''),
           h_payload = h_payload h, h_in_reply_to = opt_str (dget d ''in_reply_to'')\<rparr>"
    and "h_kind h \<in> set ALLOWED_KINDS" "dget d ''payload'' = JObj (h_payload h)"
    and "if h_kind h = ''reply'' then nonempty_str (dget d ''in_reply_to'') else dget d ''in_reply_to'' = JNull"
  using assms
  by (auto simp: header_from_value_def Let_def find_first_None nonempty_str_iff split: option.splits if_splits json.splits)

lemma from_json_Inr:
  assumes "from_json required raw = Inr e"
  obtains d h where "json_loads raw = Some (JObj d)" "header_from_value d = Inr h"
    "payload_checks required (h_kind h) (h_payload h) = Inr ()" "dget d ''run_id'' = JNull \<or> nonblank_str (dget d ''run_id'')"
    "e = \<lparr>e_id = h_id h, e_sender = h_sender h, e_branch = h_branch h, e_recipient = h_recipient h, e_kind = h_kind h,
          e_sent_at = h_sent_at h, e_payload = h_payload h, e_in_reply_to = h_in_reply_to h, e_run_id = opt_str (dget d ''run_id'')\<rparr>"
proof -
  from assms obtain d where d: "load_envelope_object raw = Inr d" by (auto simp: from_json_def split: sum.splits)
  from assms d obtain h where h: "header_from_value d = Inr h" by (auto simp: from_json_def split: sum.splits)
  have c: "payload_checks required (h_kind h) (h_payload h) = Inr ()"
    using assms d h by (auto simp: from_json_def split: sum.splits option.splits)
  have "json_loads raw = Some (JObj d)" using d by (auto simp: load_envelope_object_def split: option.splits json.splits)
  then show thesis using assms d h c that by (auto simp: from_json_def split: if_splits)
qed

lemma from_json_ok:
  assumes "from_json required raw = Inr e"
  shows "envelope_ok required e"
  using assms
proof (cases rule: from_json_Inr)
  case (1 d h)
  note hd = header_ok [OF 1(2)]
  have ne: "str_of (dget d f) \<noteq> []" if "f \<in> set header_strings" for f
    using hd(1) that by force
  have sel: "h_id h = str_of (dget d ''id'')" "h_sender h = str_of (dget d ''from'')" "h_branch h = str_of (dget d ''branch'')"
     "h_recipient h = str_of (dget d ''to'')" "h_sent_at h = str_of (dget d ''sent_at'')" "h_in_reply_to h = opt_str (dget d ''in_reply_to'')"
    by (subst hd(2), simp)+
  have wf: "json_wf (JObj (h_payload h))"
  proof -
    have "json_wf (JObj d)" by (rule json_loads_wf [OF 1(1)])
    moreover have "(''payload'', JObj (h_payload h)) \<in> set d"
      using hd(4) by (auto simp: dget_def split: option.splits dest: map_of_SomeD)
    ultimately show ?thesis by (rule json_wf_member)
  qed
  have strs: "h_id h \<noteq> []" "h_sender h \<noteq> []" "h_branch h \<noteq> []" "h_recipient h \<noteq> []" "h_sent_at h \<noteq> []"
    unfolding sel by (rule ne, simp add: header_strings_def)+
  have rep: "if h_kind h = ''reply'' then h_in_reply_to h \<notin> {None, Some []} else h_in_reply_to h = None"
    using hd(5) unfolding sel(6) by (auto simp: opt_str_def nonempty_str_iff split: if_splits)
  have run: "case opt_str (dget d ''run_id'') of None \<Rightarrow> True | Some r \<Rightarrow> nonblank r"
    using 1(4) by (auto simp: opt_str_def nonblank_str_iff split: json.splits)
  show ?thesis unfolding envelope_ok_def 1(5) envelope.select_convs
    by (intro conjI strs hd(3) rep 1(3) run wf)
qed

lemma to_dict_get:
  "dget (to_dict e) ''id'' = JStr (e_id e)" "dget (to_dict e) ''from'' = JStr (e_sender e)" "dget (to_dict e) ''branch'' = JStr (e_branch e)"
  "dget (to_dict e) ''to'' = JStr (e_recipient e)" "dget (to_dict e) ''kind'' = JStr (e_kind e)" "dget (to_dict e) ''sent_at'' = JStr (e_sent_at e)"
  "dget (to_dict e) ''payload'' = JObj (e_payload e)"
  "dget (to_dict e) ''in_reply_to'' = (case e_in_reply_to e of None \<Rightarrow> JNull | Some r \<Rightarrow> JStr r)"
  "dget (to_dict e) ''run_id'' = (case e_run_id e of None \<Rightarrow> JNull | Some r \<Rightarrow> JStr r)"
  by (simp_all add: to_dict_def split: option.splits)

lemma to_dict_has: "f \<in> set (header_strings @ [''payload'']) \<Longrightarrow> dhas (to_dict e) f"
  by (auto simp: to_dict_def header_strings_def)

lemma to_dict_wf: "json_wf (JObj (e_payload e)) \<Longrightarrow> json_wf (JObj (to_dict e))"
  by (simp add: to_dict_def list_all_iff del: json_wf.simps(3) split: option.splits) (simp add: list_all_iff)

lemma to_dict_header:
  assumes "envelope_ok required e"
  shows "header_from_value (to_dict e) = Inr \<lparr>h_id = e_id e, h_sender = e_sender e, h_branch = e_branch e, h_recipient = e_recipient e,
     h_kind = e_kind e, h_sent_at = e_sent_at e, h_payload = e_payload e, h_in_reply_to = e_in_reply_to e\<rparr>"
proof -
  have "List.find (\<lambda>f. \<not> dhas (to_dict e) f) (header_strings @ [''payload'']) = None"
    using to_dict_has by (auto simp: find_first_None)
  moreover have "List.find (\<lambda>f. \<not> nonempty_str (dget (to_dict e) f)) header_strings = None"
    using assms by (auto simp: find_first_None header_strings_def to_dict_get envelope_ok_def ALLOWED_KINDS_def)
  ultimately show ?thesis
    using assms by (auto simp: header_from_value_def to_dict_get envelope_ok_def opt_str_def Let_def simp del: json_wf.simps split: if_splits option.splits)
qed

lemma to_json_from_json:
  assumes "envelope_ok required e"
  shows "from_json required (to_json e) = Inr e"
proof -
  have wf: "json_wf (JObj (to_dict e))" using assms to_dict_wf by (simp add: envelope_ok_def del: json_wf.simps)
  have "load_envelope_object (to_json e) = Inr (to_dict e)"
    using json_loads_dumps [OF wire_style_ok wf] by (simp add: load_envelope_object_def to_json_def json_norm_def wire_style_def)
  with to_dict_header [OF assms] assms show ?thesis
    by (auto simp: from_json_def envelope_ok_def to_dict_get opt_str_def simp del: json_wf.simps split: option.splits)
qed

lemma make_reply_ok:
  assumes "uid \<noteq> []" "now \<noteq> []" "sender \<noteq> []" "recipient \<noteq> []" "branch \<noteq> []" "irt \<noteq> []" "json_wf (JObj payload)"
  shows "envelope_ok required (make_reply uid now sender recipient branch irt payload)"
  using assms by (simp add: envelope_ok_def make_reply_def payload_checks_def ALLOWED_KINDS_def del: json_wf.simps)

lemma make_notify_ok:
  assumes "uid \<noteq> []" "now \<noteq> []" "sender \<noteq> []" "recipient \<noteq> []" "branch \<noteq> []" "json_wf (JObj data)"
  shows "envelope_ok required (make_notify uid now sender recipient branch event data)"
proof -
  have "json_wf (JObj [(''event'', JStr event), (''data'', JObj data)])"
    using assms(6) by (simp add: json_wf_Cons wf_empty del: json_wf.simps(3))
  with assms show ?thesis by (simp add: envelope_ok_def make_notify_def payload_checks_def ALLOWED_KINDS_def del: json_wf.simps)
qed

lemma request_task_checked:
  assumes "request_payload_checks required p = Inr ()" and "\<forall>o' \<in> set taskless_operations. dget p ''operation'' \<noteq> JStr o'"
  shows "validate_request_task required (dget p ''task'') = Inr ()"
  using assms by (auto simp: request_payload_checks_def split: if_splits sum.splits option.splits)

lemma brief_ref_task:
  assumes "validate_request_task True v = Inr ()"
  shows "\<exists>r. parse_brief_ref v = Inr r \<and> nonblank (br_artefact_id r) \<and> 1 \<le> br_version r"
  using assms
  by (auto simp: validate_request_task_def parse_brief_ref_def split: if_splits json.splits sum.splits)

definition demo_envelope_req :: envelope where
  "demo_envelope_req = \<lparr>e_id = ''m1'', e_sender = ''orch'', e_branch = ''main'', e_recipient = ''seat'', e_kind = ''request'', e_sent_at = ''now'',
     e_payload = [(''task'', JObj [(''artefact_id'', JStr ''art-1''), (''version'', JInt 2)])], e_in_reply_to = None, e_run_id = Some ''run-1''\<rparr>"

lemma demo_envelope_req_ok: "envelope_ok True demo_envelope_req"
  by code_simp

section \<open>Properties\<close>

text \<open>C30: The wire format is exact. The envelopes that parsing can return are exactly the valid ones, whatever text they
  come from, and writing a valid envelope and reading it back gives the same envelope: no field is lost,
  added or changed, however the payload is nested.\<close>

theorem envelope_wire_exact:
  "(envelope_ok required e \<longleftrightarrow> (\<exists>raw. from_json required raw = Inr e)) \<and>
   (envelope_ok required e \<longrightarrow> from_json required (to_json e) = Inr e)"
  using to_json_from_json from_json_ok by blast

theorem envelope_wire_exact_witness: "from_json True (to_json demo_envelope_req) = Inr demo_envelope_req"
  using envelope_wire_exact [of True demo_envelope_req] demo_envelope_req_ok by blast

text \<open>A parse error carries the header exactly when the header was validated. If parsing raises an \<open>EnvelopeError\<close>
  with a header, that header is what \<open>parse_header\<close> returns for the text; if it raises one without, the
  header itself was refused with the same reason. The only other exception is the \<open>TypeError\<close> of a
  request whose operation is a list or an object.\<close>

theorem error_header_exact:
  assumes "from_json required raw = Inl x"
  shows "case x of
     EnvelopeError r None \<Rightarrow> parse_header raw = Inl r
   | EnvelopeError r (Some h) \<Rightarrow> parse_header raw = Inr h \<and>
       (payload_checks required (h_kind h) (h_payload h) = Inl (Some r) \<or> r = ''invalid-run_id'')
   | EnvelopeTypeError \<Rightarrow> \<exists>h. parse_header raw = Inr h \<and> h_kind h = ''request'' \<and> unhashable (dget (h_payload h) ''operation'')"
proof (cases "parse_header raw")
  case (Inl r)
  then have "from_json required raw = Inl (EnvelopeError r None)"
    by (cases "load_envelope_object raw") (auto simp: parse_header_def from_json_def)
  with assms Inl show ?thesis by auto
next
  case (Inr h)
  then obtain d where d: "load_envelope_object raw = Inr d" "header_from_value d = Inr h" by (auto simp: parse_header_def)
  have te: "payload_checks required (h_kind h) (h_payload h) = Inl None \<Longrightarrow> h_kind h = ''request'' \<and> unhashable (dget (h_payload h) ''operation'')"
    by (auto simp: payload_checks_def request_payload_checks_def split: if_splits sum.splits option.splits)
  from assms d Inr te show ?thesis by (auto simp: from_json_def split: sum.splits option.splits if_splits)
qed

theorem error_header_exact_witness:
  "\<exists>r. from_json True ''[]'' = Inl (EnvelopeError r None) \<and> parse_header ''[]'' = Inl r"
proof -
  have "from_json True ''[]'' = Inl (EnvelopeError ''envelope-not-object'' None)" by code_simp
  from error_header_exact [OF this] this show ?thesis by simp
qed

text \<open>C40: A seat that requires references never accepts a task in clear text. When parsing with the requirement on
  returns a request that is not a worktree life-cycle operation, its task is a well-formed reference: a
  non-blank artefact id and a positive version.\<close>

theorem ref_required_only_refs:
  assumes "from_json True raw = Inr e" and "e_kind e = ''request''"
    and "\<forall>o' \<in> set taskless_operations. dget (e_payload e) ''operation'' \<noteq> JStr o'"
  shows "\<exists>r. parse_brief_ref (dget (e_payload e) ''task'') = Inr r \<and> nonblank (br_artefact_id r) \<and> 1 \<le> br_version r"
proof -
  have "request_payload_checks True (e_payload e) = Inr ()"
    using from_json_ok [OF assms(1)] assms(2) by (simp add: envelope_ok_def payload_checks_def)
  from brief_ref_task [OF request_task_checked [OF this assms(3)]] show ?thesis .
qed

theorem ref_required_only_refs_witness:
  "\<exists>r. parse_brief_ref (dget (e_payload demo_envelope_req) ''task'') = Inr r \<and> nonblank (br_artefact_id r)"
proof -
  have "e_kind demo_envelope_req = ''request''" "\<forall>o' \<in> set taskless_operations. dget (e_payload demo_envelope_req) ''operation'' \<noteq> JStr o'"
    by (simp_all add: demo_envelope_req_def)
  with ref_required_only_refs [OF to_json_from_json [OF demo_envelope_req_ok]] show ?thesis by blast
qed

end
