(* ===== verification/Redis_Io.thy ===== *)
theory Redis_Io
  imports Arb_Prelude
begin

text \<open>
  The bridge's view of Redis (\<open>src/src/agent_redis_bridge/redis_io.py\<close> and the inbox operations of \<open>bridge.py\<close>):
  the key layout, the identity lease of an agent, and the reliable inbox with its processing list and
  owner-fenced acknowledgement. The server is a record of strings, lists, hashes and expiry times; a
  key past its expiry reads as absent. Every command is one atomic step, a Lua script too. Commands
  that fail on the connection raise out of the wrapper before any effect and are not modelled.
  SHA-256 is a parameter.
\<close>

section \<open>Server\<close>

record redis =
  rd_str :: "string \<Rightarrow> string option"
  rd_list :: "string \<Rightarrow> string list"
  rd_hash :: "string \<Rightarrow> (string \<times> string) list"
  rd_exp :: "string \<Rightarrow> int option"

definition live :: "int \<Rightarrow> redis \<Rightarrow> string \<Rightarrow> bool" where
  "live now s k = (case rd_exp s k of None \<Rightarrow> True | Some e \<Rightarrow> now < e)"

text \<open>The server at an instant: expired keys are gone.\<close>

definition purge :: "int \<Rightarrow> redis \<Rightarrow> redis" where
  "purge now s =
     \<lparr>rd_str = (\<lambda>k. if live now s k then rd_str s k else None), rd_list = (\<lambda>k. if live now s k then rd_list s k else []),
      rd_hash = (\<lambda>k. if live now s k then rd_hash s k else []), rd_exp = (\<lambda>k. if live now s k then rd_exp s k else None)\<rparr>"

definition r_set :: "int \<Rightarrow> string \<Rightarrow> string \<Rightarrow> int option \<Rightarrow> redis \<Rightarrow> redis" where
  "r_set now k v ex s = s\<lparr>rd_str := (rd_str s)(k \<mapsto> v), rd_exp := (rd_exp s)(k := map_option (\<lambda>t. now + t) ex)\<rparr>"

definition r_del :: "string \<Rightarrow> redis \<Rightarrow> redis" where
  "r_del k s = s\<lparr>rd_str := (rd_str s)(k := None), rd_list := (rd_list s)(k := []), rd_hash := (rd_hash s)(k := []), rd_exp := (rd_exp s)(k := None)\<rparr>"

definition r_expire :: "int \<Rightarrow> string \<Rightarrow> int \<Rightarrow> redis \<Rightarrow> redis" where
  "r_expire now k ttl s =
    (if rd_str s k = None \<and> rd_list s k = [] \<and> rd_hash s k = [] then s else s\<lparr>rd_exp := (rd_exp s)(k \<mapsto> now + ttl)\<rparr>)"

definition r_list :: "string \<Rightarrow> string list \<Rightarrow> redis \<Rightarrow> redis" where
  "r_list k xs s = s\<lparr>rd_list := (rd_list s)(k := xs)\<rparr>"

definition r_hset :: "string \<Rightarrow> (string \<times> string) list \<Rightarrow> redis \<Rightarrow> redis" where
  "r_hset k fs s = s\<lparr>rd_hash := (rd_hash s)(k := foldl (\<lambda>h (f, v). AList.update f v h) (rd_hash s k) fs)\<rparr>"

section \<open>Configuration and keys\<close>

record redis_config =
  rc_host :: string
  rc_port :: string
  rc_db :: string
  rc_prefix :: string
  rc_password :: "string option"
  rc_user :: "string option"
  rc_tls :: bool

definition cfg_key :: "redis_config \<Rightarrow> string \<Rightarrow> string" where "cfg_key c suffix = rc_prefix c @ suffix"
definition registry_key :: "redis_config \<Rightarrow> string \<Rightarrow> string" where "registry_key c a = cfg_key c (''registry:'' @ a)"
definition status_key :: "redis_config \<Rightarrow> string \<Rightarrow> string" where "status_key c a = cfg_key c (''agent:'' @ a @ '':status'')"
definition consumer_key :: "redis_config \<Rightarrow> string \<Rightarrow> string" where "consumer_key c a = cfg_key c (''agent:'' @ a @ '':consumer'')"
definition agent_inbox_key :: "redis_config \<Rightarrow> string \<Rightarrow> string" where "agent_inbox_key c a = cfg_key c (''agent:'' @ a @ '':inbox'')"
definition control_key :: "redis_config \<Rightarrow> string \<Rightarrow> string" where "control_key c a = cfg_key c (''agent:'' @ a @ '':control'')"
definition processing_key :: "redis_config \<Rightarrow> string \<Rightarrow> string" where "processing_key c a = cfg_key c (''agent:'' @ a @ '':processing'')"

definition processing_claim_key :: "(string \<Rightarrow> string) \<Rightarrow> redis_config \<Rightarrow> string \<Rightarrow> string \<Rightarrow> string" where
  "processing_claim_key sha c a body = cfg_key c (''agent:'' @ a @ '':processing_claim:'' @ take 32 (sha body))"

definition notify_inbox_key :: "redis_config \<Rightarrow> string \<Rightarrow> string" where "notify_inbox_key c a = cfg_key c (''agent:'' @ a @ '':notify_inbox'')"
definition task_events_key :: "redis_config \<Rightarrow> string \<Rightarrow> string" where "task_events_key c t = cfg_key c (''task:'' @ t @ '':events'')"
definition task_epoch_key :: "redis_config \<Rightarrow> string \<Rightarrow> string" where "task_epoch_key c t = cfg_key c (''task:'' @ t @ '':epoch'')"
definition task_status_key :: "redis_config \<Rightarrow> string \<Rightarrow> string" where "task_status_key c t = cfg_key c (''task:'' @ t @ '':status'')"
definition task_result_key :: "redis_config \<Rightarrow> string \<Rightarrow> string" where "task_result_key c t = cfg_key c (''task:'' @ t @ '':result'')"

definition usage_key :: "redis_config \<Rightarrow> string \<Rightarrow> string \<Rightarrow> string \<Rightarrow> string" where
  "usage_key c a day metric = cfg_key c (''usage:'' @ a @ '':'' @ day @ '':'' @ metric)"

definition unquote :: "string \<Rightarrow> string" where
  "unquote v = (if 2 \<le> length v \<and> hd v = last v \<and> hd v \<in> {CHR 0x27, CHR 0x22} then butlast (tl v) else v)"

definition env_line :: "string \<Rightarrow> (string \<times> string) option" where
  "env_line line =
    (let s = py_strip line in
     if s = [] \<or> hd s = CHR ''#'' \<or> CHR ''='' \<notin> set s then None
     else Some (py_strip (takeWhile (\<lambda>c. c \<noteq> CHR ''='') s), unquote (py_strip (tl (dropWhile (\<lambda>c. c \<noteq> CHR ''='') s)))))"

text \<open>\<open>None\<close> is a file that does not exist.\<close>

definition read_env_file :: "string option \<Rightarrow> (string \<times> string) list" where
  "read_env_file file =
    (case file of
       None \<Rightarrow> []
     | Some content \<Rightarrow> foldl (\<lambda>d l. case env_line l of None \<Rightarrow> d | Some (k, v) \<Rightarrow> AList.update k v d) [] (py_splitlines content))"

definition require_value :: "(string \<times> string) list \<Rightarrow> (string \<times> string) list \<Rightarrow> string \<Rightarrow> (string, string) res" where
  "require_value os_env values k =
    (case map_of values k of
       Some (c # cs) \<Rightarrow> Inr (c # cs)
     | _ \<Rightarrow> (case map_of os_env k of Some (c # cs) \<Rightarrow> Inr (c # cs) | _ \<Rightarrow> Inl (k @ '' is required'')))"

definition or_none :: "string option \<Rightarrow> string option" where
  "or_none v = (case v of Some (c # cs) \<Rightarrow> Some (c # cs) | _ \<Rightarrow> None)"

definition from_env_file :: "(string \<times> string) list \<Rightarrow> string option \<Rightarrow> (string \<times> string option) list \<Rightarrow> (string, redis_config) res" where
  "from_env_file os_env file overrides =
    (let env = foldl (\<lambda>d (k, v). case v of None \<Rightarrow> d | Some x \<Rightarrow> AList.update k x d) (read_env_file file) overrides in
     bind_r (require_value os_env env ''AGENT_REDIS_HOST'') (\<lambda>host.
     bind_r (require_value os_env env ''AGENT_REDIS_PORT'') (\<lambda>port.
     bind_r (require_value os_env env ''AGENT_REDIS_DB'') (\<lambda>db.
     bind_r (require_value os_env env ''AGENT_REDIS_PREFIX'') (\<lambda>prefix.
     Inr \<lparr>rc_host = host, rc_port = port, rc_db = db, rc_prefix = prefix,
          rc_password = or_none (map_of env ''AGENT_REDIS_PASSWORD''), rc_user = or_none (map_of env ''AGENT_REDIS_USER''),
          rc_tls = ((case map_of env ''AGENT_REDIS_TLS'' of None \<Rightarrow> ''0'' | Some v \<Rightarrow> v) \<in> {''1'', ''true'', ''True'', ''yes''})\<rparr>)))))"

section \<open>Identity lease\<close>

datatype lease_exc = IdentityOwnedError string string int | OwnershipLostError string

definition key_ttl :: "int \<Rightarrow> string \<Rightarrow> redis \<Rightarrow> int" where
  "key_ttl now k s = (if rd_str s k = None \<and> rd_list s k = [] \<and> rd_hash s k = [] then -2 else case rd_exp s k of None \<Rightarrow> -1 | Some e \<Rightarrow> e - now)"

text \<open>The claim script, and the registration; \<open>cols\<close> are the descriptive columns the caller passes (tool, project,
  branch, vantage and so on).\<close>

definition claim_identity :: "redis_config \<Rightarrow> int \<Rightarrow> string \<Rightarrow> string \<Rightarrow> int \<Rightarrow> redis \<Rightarrow> string option \<times> redis" where
  "claim_identity c now a owner ttl s0 =
    (let s = purge now s0; k = status_key c a in
     case rd_str s k of
       None \<Rightarrow> (None, r_set now k owner (Some ttl) s)
     | Some current \<Rightarrow> (if current = owner then (None, r_expire now k ttl s) else (Some current, s)))"

definition register :: "redis_config \<Rightarrow> int \<Rightarrow> string \<Rightarrow> string \<Rightarrow> int \<Rightarrow> string option \<Rightarrow> (string \<times> string) list \<Rightarrow> redis
    \<Rightarrow> (lease_exc, unit) res \<times> redis" where
  "register c now a token ttl generation cols s =
    (case claim_identity c now a (''alive:'' @ token) ttl s of
       (Some current, s1) \<Rightarrow> (Inl (IdentityOwnedError a current (key_ttl now (status_key c a) s1)), s1)
     | (None, s1) \<Rightarrow>
        (Inr (), r_hset (registry_key c a)
           (cols @ [(''owner_token'', token), (''registration_generation'', case generation of None \<Rightarrow> token | Some g \<Rightarrow> g)]) s1))"

definition consumer_heartbeat :: "redis_config \<Rightarrow> int \<Rightarrow> string \<Rightarrow> string \<Rightarrow> int \<Rightarrow> redis \<Rightarrow> (lease_exc, unit) res \<times> redis" where
  "consumer_heartbeat c now a token ttl s0 =
    (let s = purge now s0 in
     if rd_str s (status_key c a) = Some (''alive:'' @ token)
     then (Inr (), r_set now (consumer_key c a) (''consuming:'' @ token) (Some ttl) s)
     else (Inl (OwnershipLostError a), s))"

definition cleanup :: "redis_config \<Rightarrow> int \<Rightarrow> string \<Rightarrow> string \<Rightarrow> redis \<Rightarrow> redis" where
  "cleanup c now a token s0 =
    (let s = purge now s0;
         s1 = (if rd_str s (status_key c a) = Some (''alive:'' @ token) then r_del (status_key c a) s else s);
         s2 = (if rd_str s1 (consumer_key c a) = Some (''consuming:'' @ token) then r_del (consumer_key c a) s1 else s1)
     in if map_of (rd_hash s2 (registry_key c a)) ''owner_token'' = Some token then r_del (registry_key c a) s2 else s2)"

section \<open>Lists and simple keys\<close>

definition lpush :: "redis_config \<Rightarrow> int \<Rightarrow> string \<Rightarrow> string \<Rightarrow> redis \<Rightarrow> redis" where
  "lpush c now a body s0 = (let s = purge now s0; k = agent_inbox_key c a in r_list k (body # rd_list s k) s)"

definition rpush :: "redis_config \<Rightarrow> int \<Rightarrow> string \<Rightarrow> string \<Rightarrow> redis \<Rightarrow> redis" where
  "rpush c now a body s0 = (let s = purge now s0; k = agent_inbox_key c a in r_list k (rd_list s k @ [body]) s)"

definition lpush_control :: "redis_config \<Rightarrow> int \<Rightarrow> string \<Rightarrow> string \<Rightarrow> redis \<Rightarrow> redis" where
  "lpush_control c now a body s0 = (let s = purge now s0; k = control_key c a in r_list k (body # rd_list s k) s)"

text \<open>\<open>LTRIM key 0 (n - 1)\<close>: a bound of zero or less counts from the end.\<close>

definition ltrim_to :: "int \<Rightarrow> string list \<Rightarrow> string list" where
  "ltrim_to n xs = (if 0 < n then take (nat n) xs else take (nat (int (length xs) + n)) xs)"

definition lpush_key :: "int \<Rightarrow> string \<Rightarrow> string \<Rightarrow> int option \<Rightarrow> redis \<Rightarrow> redis" where
  "lpush_key now k body trim s0 =
    (let s = purge now s0; xs = body # rd_list s k
     in r_list k (case trim of None \<Rightarrow> xs | Some n \<Rightarrow> ltrim_to n xs) s)"

definition set_key :: "int \<Rightarrow> string \<Rightarrow> string \<Rightarrow> int option \<Rightarrow> redis \<Rightarrow> redis" where
  "set_key now k v ttl s = r_set now k v ttl (purge now s)"

definition hset_key :: "int \<Rightarrow> string \<Rightarrow> (string \<times> string) list \<Rightarrow> int option \<Rightarrow> redis \<Rightarrow> redis" where
  "hset_key now k fs ttl s0 =
    (let s = r_hset k fs (purge now s0) in case ttl of None \<Rightarrow> s | Some t \<Rightarrow> r_expire now k t s)"

definition get_str :: "int \<Rightarrow> string \<Rightarrow> redis \<Rightarrow> string option" where
  "get_str now k s = or_none (rd_str (purge now s) k)"

definition hgetall :: "int \<Rightarrow> string \<Rightarrow> redis \<Rightarrow> (string \<times> string) list" where
  "hgetall now k s = rd_hash (purge now s) k"

definition pop_list :: "int \<Rightarrow> string \<Rightarrow> redis \<Rightarrow> string option \<times> redis" where
  "pop_list now k s0 = (let s = purge now s0 in case rd_list s k of [] \<Rightarrow> (None, s) | x # xs \<Rightarrow> (Some x, r_list k xs s))"

definition lpop :: "redis_config \<Rightarrow> int \<Rightarrow> string \<Rightarrow> redis \<Rightarrow> string option \<times> redis" where
  "lpop c now a s = (case pop_list now (agent_inbox_key c a) s of (v, s') \<Rightarrow> (or_none v, s'))"

definition lpop_control :: "redis_config \<Rightarrow> int \<Rightarrow> string \<Rightarrow> redis \<Rightarrow> string option \<times> redis" where
  "lpop_control c now a s = (case pop_list now (control_key c a) s of (v, s') \<Rightarrow> (or_none v, s'))"

definition blpop :: "redis_config \<Rightarrow> int \<Rightarrow> string \<Rightarrow> redis \<Rightarrow> string option \<times> redis" where
  "blpop c now a s = pop_list now (agent_inbox_key c a) s"

section \<open>The reliable inbox\<close>

definition blmove_to_processing :: "redis_config \<Rightarrow> int \<Rightarrow> string \<Rightarrow> redis \<Rightarrow> string option \<times> redis" where
  "blmove_to_processing c now a s0 =
    (let s = purge now s0 in
     case rd_list s (agent_inbox_key c a) of
       [] \<Rightarrow> (None, s)
     | x # xs \<Rightarrow> (let s1 = r_list (agent_inbox_key c a) xs s
                 in (Some x, r_list (processing_key c a) (rd_list s1 (processing_key c a) @ [x]) s1)))"

definition peek_processing :: "redis_config \<Rightarrow> int \<Rightarrow> string \<Rightarrow> redis \<Rightarrow> string option" where
  "peek_processing c now a s =
    (let xs = rd_list (purge now s) (processing_key c a) in if xs = [] then None else Some (last xs))"

definition claim_processing :: "(string \<Rightarrow> string) \<Rightarrow> redis_config \<Rightarrow> int \<Rightarrow> string \<Rightarrow> string \<Rightarrow> string \<Rightarrow> int \<Rightarrow> redis \<Rightarrow> redis" where
  "claim_processing sha c now a body token ttl s = r_set now (processing_claim_key sha c a body) token (Some ttl) (purge now s)"

definition clear_processing_claim :: "(string \<Rightarrow> string) \<Rightarrow> redis_config \<Rightarrow> int \<Rightarrow> string \<Rightarrow> string \<Rightarrow> redis \<Rightarrow> redis" where
  "clear_processing_claim sha c now a body s = r_del (processing_claim_key sha c a body) (purge now s)"

text \<open>The two scripts. \<open>LMOVE\<close> takes from the right end of the processing list to the left end of the inbox.\<close>

definition recover_validated :: "(string \<Rightarrow> string) \<Rightarrow> redis_config \<Rightarrow> int \<Rightarrow> string \<Rightarrow> string \<Rightarrow> redis \<Rightarrow> int \<times> redis" where
  "recover_validated sha c now a body s0 =
    (let s = purge now s0; xs = rd_list s (processing_key c a) in
     if xs \<noteq> [] \<and> last xs = body
     then (let s1 = r_del (processing_claim_key sha c a body) s;
               s2 = r_list (processing_key c a) (butlast xs) s1
           in (1, r_list (agent_inbox_key c a) (body # rd_list s2 (agent_inbox_key c a)) s2))
     else (0, s))"

definition remove_processing :: "(string \<Rightarrow> string) \<Rightarrow> redis_config \<Rightarrow> int \<Rightarrow> string \<Rightarrow> string \<Rightarrow> string \<Rightarrow> redis \<Rightarrow> int \<times> redis" where
  "remove_processing sha c now a body token s0 =
    (let s = purge now s0; k = processing_claim_key sha c a body; xs = rd_list s (processing_key c a) in
     if rd_str s k = Some token
     then (if body \<in> set xs then 1 else 0, r_del k (r_list (processing_key c a) (remove1 body xs) s))
     else (0, s))"

text \<open>The start-up loop of the bridge that empties the processing list, run by itself.\<close>

function recover_processing_envelopes :: "(string \<Rightarrow> string) \<Rightarrow> redis_config \<Rightarrow> int \<Rightarrow> string \<Rightarrow> redis \<Rightarrow> redis" where
  "recover_processing_envelopes sha c now a s =
    (case peek_processing c now a s of
       None \<Rightarrow> s
     | Some raw \<Rightarrow> recover_processing_envelopes sha c now a (snd (recover_validated sha c now a raw s)))"
  by pat_completeness auto

section \<open>The system of an agent's inbox\<close>

text \<open>\<open>ib_sent\<close> and \<open>ib_acked\<close> record what was pushed and what was acknowledged.\<close>

record inbox_sys =
  ib_redis :: redis
  ib_now :: int
  ib_sent :: "string list"
  ib_acked :: "string list"

inductive inbox_step :: "(string \<Rightarrow> string) \<Rightarrow> redis_config \<Rightarrow> string \<Rightarrow> inbox_sys \<Rightarrow> inbox_sys \<Rightarrow> bool" for sha c a where
  ib_lpush: "inbox_step sha c a s (s\<lparr>ib_redis := lpush c (ib_now s) a body (ib_redis s), ib_sent := body # ib_sent s\<rparr>)"
| ib_rpush: "inbox_step sha c a s (s\<lparr>ib_redis := rpush c (ib_now s) a body (ib_redis s), ib_sent := body # ib_sent s\<rparr>)"
| ib_park: "inbox_step sha c a s (s\<lparr>ib_redis := snd (blmove_to_processing c (ib_now s) a (ib_redis s))\<rparr>)"
| ib_claim: "inbox_step sha c a s (s\<lparr>ib_redis := claim_processing sha c (ib_now s) a body token ttl (ib_redis s)\<rparr>)"
| ib_clear: "inbox_step sha c a s (s\<lparr>ib_redis := clear_processing_claim sha c (ib_now s) a body (ib_redis s)\<rparr>)"
| ib_recover: "inbox_step sha c a s (s\<lparr>ib_redis := snd (recover_validated sha c (ib_now s) a body (ib_redis s))\<rparr>)"
| ib_ack: "remove_processing sha c (ib_now s) a body token (ib_redis s) = (n, r) \<Longrightarrow>
    inbox_step sha c a s (s\<lparr>ib_redis := r, ib_acked := replicate (nat n) body @ ib_acked s\<rparr>)"
| ib_register: "inbox_step sha c a s (s\<lparr>ib_redis := snd (register c (ib_now s) a token ttl generation cols (ib_redis s))\<rparr>)"
| ib_heartbeat: "inbox_step sha c a s (s\<lparr>ib_redis := snd (consumer_heartbeat c (ib_now s) a token ttl (ib_redis s))\<rparr>)"
| ib_cleanup: "inbox_step sha c a s (s\<lparr>ib_redis := cleanup c (ib_now s) a token (ib_redis s)\<rparr>)"
| ib_tick: "ib_now s \<le> now' \<Longrightarrow> inbox_step sha c a s (s\<lparr>ib_now := now'\<rparr>)"

definition inbox_init :: "inbox_sys \<Rightarrow> bool" where
  "inbox_init s \<longleftrightarrow> (\<forall>k. rd_str (ib_redis s) k = None \<and> rd_list (ib_redis s) k = [] \<and> rd_hash (ib_redis s) k = [] \<and> rd_exp (ib_redis s) k = None) \<and>
     ib_sent s = [] \<and> ib_acked s = []"

definition no_expiry :: "redis_config \<Rightarrow> string \<Rightarrow> redis \<Rightarrow> bool" where
  "no_expiry c a r \<longleftrightarrow> rd_exp r (agent_inbox_key c a) = None \<and> rd_exp r (processing_key c a) = None"

definition inbox_inv :: "redis_config \<Rightarrow> string \<Rightarrow> inbox_sys \<Rightarrow> bool" where
  "inbox_inv c a s \<longleftrightarrow> no_expiry c a (ib_redis s) \<and>
     mset (rd_list (ib_redis s) (agent_inbox_key c a)) + mset (rd_list (ib_redis s) (processing_key c a)) + mset (ib_acked s) = mset (ib_sent s)"

section \<open>Lemmas\<close>

lemma key_neq [simp]:
  "agent_inbox_key c a \<noteq> processing_key c a" "processing_key c a \<noteq> agent_inbox_key c a"
  "agent_inbox_key c a \<noteq> processing_claim_key sha c a b" "processing_claim_key sha c a b \<noteq> agent_inbox_key c a"
  "processing_key c a \<noteq> processing_claim_key sha c a b" "processing_claim_key sha c a b \<noteq> processing_key c a"
  "agent_inbox_key c a \<noteq> status_key c a" "processing_key c a \<noteq> status_key c a"
  "agent_inbox_key c a \<noteq> consumer_key c a" "processing_key c a \<noteq> consumer_key c a"
  "agent_inbox_key c a \<noteq> registry_key c a" "processing_key c a \<noteq> registry_key c a"
  "status_key c a \<noteq> consumer_key c a" "consumer_key c a \<noteq> status_key c a"
  "status_key c a \<noteq> registry_key c a" "registry_key c a \<noteq> status_key c a"
  "consumer_key c a \<noteq> registry_key c a" "registry_key c a \<noteq> consumer_key c a"
  by (simp_all add: agent_inbox_key_def processing_key_def processing_claim_key_def status_key_def consumer_key_def registry_key_def cfg_key_def)

lemma purge_live: "no_expiry c a r \<Longrightarrow> live now r (agent_inbox_key c a) \<and> live now r (processing_key c a)"
  by (simp add: no_expiry_def live_def)

lemma purge_lists [simp]:
  assumes "no_expiry c a r"
  shows "rd_list (purge now r) (agent_inbox_key c a) = rd_list r (agent_inbox_key c a)"
    "rd_list (purge now r) (processing_key c a) = rd_list r (processing_key c a)"
    "no_expiry c a (purge now r)"
  using purge_live [OF assms, of now] assms by (simp_all add: purge_def no_expiry_def)

lemma purge_idem: "purge now (purge now r) = purge now r"
  by (auto simp: purge_def live_def fun_eq_iff split: option.splits)

lemmas server_defs = r_set_def r_del_def r_expire_def r_list_def r_hset_def Let_def

text \<open>What each command does to the two lists.\<close>

lemma list_commands:
  assumes "no_expiry c a r"
  shows "rd_list (lpush c now a b r) (agent_inbox_key c a) = b # rd_list r (agent_inbox_key c a)"
    "rd_list (lpush c now a b r) (processing_key c a) = rd_list r (processing_key c a)" "no_expiry c a (lpush c now a b r)"
    "rd_list (rpush c now a b r) (agent_inbox_key c a) = rd_list r (agent_inbox_key c a) @ [b]"
    "rd_list (rpush c now a b r) (processing_key c a) = rd_list r (processing_key c a)" "no_expiry c a (rpush c now a b r)"
  using assms by (simp_all add: lpush_def rpush_def server_defs) (simp_all add: no_expiry_def purge_def live_def)

lemma park_lists:
  assumes "no_expiry c a r" and "blmove_to_processing c now a r = (v, r')"
  shows "no_expiry c a r'"
    "rd_list r (agent_inbox_key c a) = (case v of None \<Rightarrow> [] | Some x \<Rightarrow> [x]) @ rd_list r' (agent_inbox_key c a)"
    "rd_list r' (processing_key c a) = rd_list r (processing_key c a) @ (case v of None \<Rightarrow> [] | Some x \<Rightarrow> [x])"
  using assms purge_lists(3) [OF assms(1), of now]
  by (auto simp: blmove_to_processing_def server_defs no_expiry_def split: list.splits)

lemma recover_lists:
  assumes "no_expiry c a r" and "recover_validated sha c now a b r = (n, r')"
  shows "no_expiry c a r'"
    "if n = 1 then rd_list r (processing_key c a) = rd_list r' (processing_key c a) @ [b] \<and>
        rd_list r' (agent_inbox_key c a) = b # rd_list r (agent_inbox_key c a)
     else rd_list r' (processing_key c a) = rd_list r (processing_key c a) \<and> rd_list r' (agent_inbox_key c a) = rd_list r (agent_inbox_key c a)"
  using assms purge_lists(3) [OF assms(1), of now]
  by (auto simp: recover_validated_def server_defs no_expiry_def split: if_splits)

lemma ack_lists:
  assumes "no_expiry c a r" and "remove_processing sha c now a b token r = (n, r')"
  shows "no_expiry c a r'" "rd_list r' (agent_inbox_key c a) = rd_list r (agent_inbox_key c a)"
    "mset (rd_list r' (processing_key c a)) + mset (replicate (nat n) b) = mset (rd_list r (processing_key c a))"
  using assms purge_lists(3) [OF assms(1), of now]
  by (auto simp: remove_processing_def server_defs no_expiry_def remove1_idem split: if_splits)

definition keeps_lists :: "redis_config \<Rightarrow> string \<Rightarrow> redis \<Rightarrow> redis \<Rightarrow> bool" where
  "keeps_lists c a r r' \<longleftrightarrow> no_expiry c a r' \<and> rd_list r' (agent_inbox_key c a) = rd_list r (agent_inbox_key c a) \<and>
     rd_list r' (processing_key c a) = rd_list r (processing_key c a)"

lemma quiet_commands:
  assumes "no_expiry c a r"
  shows "keeps_lists c a r (claim_processing sha c now a b token ttl r)" "keeps_lists c a r (clear_processing_claim sha c now a b r)"
    "keeps_lists c a r (snd (register c now a token ttl gen cols r))" "keeps_lists c a r (snd (consumer_heartbeat c now a token ttl r))"
    "keeps_lists c a r (cleanup c now a token r)"
  using purge_lists [OF assms, of now]
  by (auto simp: keeps_lists_def claim_processing_def clear_processing_claim_def register_def claim_identity_def consumer_heartbeat_def cleanup_def
      server_defs no_expiry_def split: option.splits if_splits prod.splits)

lemma inbox_inv_quiet:
  "inbox_inv c a s \<Longrightarrow> keeps_lists c a (ib_redis s) r' \<Longrightarrow> inbox_inv c a (s\<lparr>ib_redis := r'\<rparr>)"
  by (simp add: inbox_inv_def keeps_lists_def)

lemma live_purged: "live now (purge now s) k"
  by (auto simp: live_def purge_def split: option.splits)

lemma recover_shrinks:
  assumes "peek_processing c now a s = Some raw"
  shows "length (rd_list (purge now (snd (recover_validated sha c now a raw s))) (processing_key c a))
    < length (rd_list (purge now s) (processing_key c a))"
proof -
  let ?xs = "rd_list (purge now s) (processing_key c a)"
  from assms have xs: "?xs \<noteq> []" "last ?xs = raw" by (auto simp: peek_processing_def Let_def split: if_splits)
  have "rd_list (snd (recover_validated sha c now a raw s)) (processing_key c a) = butlast ?xs"
    using xs by (simp add: recover_validated_def server_defs)
  then have "length (rd_list (purge now (snd (recover_validated sha c now a raw s))) (processing_key c a)) \<le> length (butlast ?xs)"
    by (simp add: purge_def [of now "snd (recover_validated sha c now a raw s)"])
  with xs(1) show ?thesis by (simp add: le_less_trans [of _ "length ?xs - 1"])
qed

termination recover_processing_envelopes
  by (relation "measure (\<lambda>(sha, c, now, a, s). length (rd_list (purge now s) (processing_key c a)))") (auto simp: recover_shrinks)

declare recover_processing_envelopes.simps [simp del]

lemma recover_all_lists:
  assumes "no_expiry c a s"
  shows "no_expiry c a (recover_processing_envelopes sha c now a s) \<and>
    rd_list (recover_processing_envelopes sha c now a s) (processing_key c a) = [] \<and>
    rd_list (recover_processing_envelopes sha c now a s) (agent_inbox_key c a) = rd_list s (processing_key c a) @ rd_list s (agent_inbox_key c a)"
  using assms
proof (induction sha c now a s rule: recover_processing_envelopes.induct)
  case (1 sha c now a s)
  show ?case
  proof (cases "peek_processing c now a s")
    case None
    with 1(2) show ?thesis
      by (subst (1 2 3) recover_processing_envelopes.simps) (auto simp: peek_processing_def Let_def split: if_splits)
  next
    case (Some raw)
    obtain n s' where rv: "recover_validated sha c now a raw s = (n, s')" by fastforce
    have "rd_list s (processing_key c a) \<noteq> []" "last (rd_list s (processing_key c a)) = raw"
      using Some 1(2) by (auto simp: peek_processing_def Let_def split: if_splits)
    then have "n = 1" using rv 1(2) by (auto simp: recover_validated_def Let_def)
    with recover_lists [OF 1(2) rv] have s': "no_expiry c a s'" "rd_list s (processing_key c a) = rd_list s' (processing_key c a) @ [raw]"
      "rd_list s' (agent_inbox_key c a) = raw # rd_list s (agent_inbox_key c a)" by auto
    have "recover_processing_envelopes sha c now a s = recover_processing_envelopes sha c now a s'"
      by (subst recover_processing_envelopes.simps) (simp add: Some rv)
    with 1(1) [OF Some] s' rv show ?thesis by simp
  qed
qed

interpretation inbox: inv_system inbox_init "inbox_step sha c a" "inbox_inv c a" for sha c a
proof
  show "inbox_inv c a s" if "inbox_init s" for s
    using that by (simp add: inbox_inv_def inbox_init_def no_expiry_def)
  show "inbox_inv c a s'" if "inbox_inv c a s" "inbox_step sha c a s s'" for s s'
  proof -
    have ne: "no_expiry c a (ib_redis s)"
      and eq: "mset (rd_list (ib_redis s) (agent_inbox_key c a)) + mset (rd_list (ib_redis s) (processing_key c a)) + mset (ib_acked s) = mset (ib_sent s)"
      using that(1) by (simp_all add: inbox_inv_def)
    from that(2) show ?thesis
    proof cases
      case (ib_lpush body)
      with list_commands [OF ne, of "ib_now s" body] eq show ?thesis by (simp add: inbox_inv_def)
    next
      case (ib_rpush body)
      with list_commands [OF ne, of "ib_now s" body] eq show ?thesis by (simp add: inbox_inv_def)
    next
      case ib_park
      obtain v r' where "blmove_to_processing c (ib_now s) a (ib_redis s) = (v, r')" by fastforce
      with park_lists [OF ne this] ib_park eq show ?thesis by (simp add: inbox_inv_def split: option.splits)
    next
      case (ib_recover body)
      obtain n r' where "recover_validated sha c (ib_now s) a body (ib_redis s) = (n, r')" by fastforce
      with recover_lists [OF ne this] ib_recover eq show ?thesis by (auto simp: inbox_inv_def split: if_splits)
    next
      case (ib_ack body token n r)
      from ack_lists [OF ne ib_ack(2)] eq show ?thesis
        by (simp add: inbox_inv_def ib_ack(1)) (metis (no_types, lifting) add.assoc add.commute)
    next
      case (ib_tick now')
      with ne eq show ?thesis by (simp add: inbox_inv_def)
    qed (simp_all add: inbox_inv_quiet [OF that(1)] quiet_commands [OF ne])
  qed
qed

text \<open>What other daemons can do to an identity before its lease runs out.\<close>

inductive rival_step :: "redis_config \<Rightarrow> string \<Rightarrow> string \<Rightarrow> int \<Rightarrow> redis \<Rightarrow> redis \<Rightarrow> bool" for c a token deadline where
  rv_register: "rival \<noteq> token \<Longrightarrow> now < deadline \<Longrightarrow> rival_step c a token deadline r (snd (register c now a rival ttl gen cols r))"
| rv_heartbeat: "rival \<noteq> token \<Longrightarrow> now < deadline \<Longrightarrow> rival_step c a token deadline r (snd (consumer_heartbeat c now a rival ttl r))"
| rv_cleanup: "rival \<noteq> token \<Longrightarrow> now < deadline \<Longrightarrow> rival_step c a token deadline r (cleanup c now a rival r)"

definition holds_identity :: "redis_config \<Rightarrow> string \<Rightarrow> string \<Rightarrow> int \<Rightarrow> redis \<Rightarrow> bool" where
  "holds_identity c a token deadline r \<longleftrightarrow> rd_str r (status_key c a) = Some (''alive:'' @ token) \<and> rd_exp r (status_key c a) = Some deadline"

lemma holds_purge: "holds_identity c a token deadline r \<Longrightarrow> now < deadline \<Longrightarrow> holds_identity c a token deadline (purge now r)"
  by (simp add: holds_identity_def purge_def live_def)

lemma rival_keeps:
  assumes "rival_step c a token deadline r r'" and "holds_identity c a token deadline r"
  shows "holds_identity c a token deadline r'"
  using assms(1)
proof cases
  case (rv_register rival now ttl gen cols)
  with holds_purge [OF assms(2) rv_register(3)] show ?thesis
    by (simp add: holds_identity_def register_def claim_identity_def Let_def)
next
  case (rv_heartbeat rival now ttl)
  with holds_purge [OF assms(2) rv_heartbeat(3)] show ?thesis
    by (simp add: holds_identity_def consumer_heartbeat_def Let_def)
next
  case (rv_cleanup rival now)
  with holds_purge [OF assms(2) rv_cleanup(3)] show ?thesis
    by (simp add: holds_identity_def cleanup_def Let_def r_del_def)
qed

lemma rivals_keep: "(rival_step c a token deadline)\<^sup>*\<^sup>* r r' \<Longrightarrow> holds_identity c a token deadline r \<Longrightarrow> holds_identity c a token deadline r'"
  by (induction rule: rtranclp.induct) (auto intro: rival_keeps)

lemma register_holds:
  assumes "register c now a token ttl gen cols r = (Inr (), r')"
  shows "holds_identity c a token (now + ttl) r'"
  using assms
  by (auto simp: register_def claim_identity_def Let_def holds_identity_def server_defs split: option.splits if_splits)

definition demo_config :: redis_config where
  "demo_config = \<lparr>rc_host = ''h'', rc_port = ''6379'', rc_db = ''0'', rc_prefix = ''p:'', rc_password = None, rc_user = None, rc_tls = False\<rparr>"

definition empty_redis :: redis where
  "empty_redis = \<lparr>rd_str = (\<lambda>_. None), rd_list = (\<lambda>_. []), rd_hash = (\<lambda>_. []), rd_exp = (\<lambda>_. None)\<rparr>"

section \<open>Properties\<close>

text \<open>C4: The reliable inbox loses nothing and invents nothing. In every state reachable from an empty server by pushes, parking,
  claims, recoveries, acknowledgements, registrations, clean-ups and the passing of time, in any order
  and by any daemons, the messages pushed for an agent are, with multiplicities, those waiting in its inbox, those parked for processing
  and those acknowledged: a crash at any point leaves every unacknowledged message in one of the two lists.\<close>

theorem reliable_inbox_conserves:
  assumes "reachable inbox_init (inbox_step sha c a) s"
  shows "mset (ib_sent s) = mset (rd_list (ib_redis s) (agent_inbox_key c a)) + mset (rd_list (ib_redis s) (processing_key c a)) + mset (ib_acked s)"
  using inbox.inv_reachable [OF assms] by (simp add: inbox_inv_def)

definition demo_inbox :: inbox_sys where
  "demo_inbox = \<lparr>ib_redis = empty_redis, ib_now = 0, ib_sent = [], ib_acked = []\<rparr>"

theorem reliable_inbox_conserves_witness:
  "\<exists>s. reachable inbox_init (inbox_step id demo_config ''seat'') s \<and> ib_sent s = [''m''] \<and>
     mset (rd_list (ib_redis s) (agent_inbox_key demo_config ''seat'')) + mset (rd_list (ib_redis s) (processing_key demo_config ''seat'')) + mset (ib_acked s) = {#''m''#}"
proof -
  have r0: "reachable inbox_init (inbox_step id demo_config ''seat'') demo_inbox"
    by (rule reach_init) (simp add: inbox_init_def demo_inbox_def empty_redis_def)
  let ?s = "demo_inbox\<lparr>ib_redis := rpush demo_config (ib_now demo_inbox) ''seat'' ''m'' (ib_redis demo_inbox), ib_sent := ''m'' # ib_sent demo_inbox\<rparr>"
  have r1: "reachable inbox_init (inbox_step id demo_config ''seat'') ?s" by (rule reach_step [OF r0 ib_rpush])
  have "ib_sent ?s = [''m'']" by (simp add: demo_inbox_def)
  with reliable_inbox_conserves [OF r1] r1 show ?thesis by (intro exI [of _ ?s]) simp
qed

text \<open>C6: Acknowledgement is fenced by the claim. An acknowledgement removes one copy of the message from the processing list
  exactly when the live claim on the message is the caller's token, and then the claim is gone too; otherwise both lists keep
  everything. So once a successor has claimed the message, its predecessor cannot acknowledge it as long as the successor's claim lives.\<close>

theorem ack_is_fenced:
  assumes "no_expiry c a r" and "remove_processing sha c now a body token r = (n, r')"
  shows "(if rd_str (purge now r) (processing_claim_key sha c a body) = Some token
      then rd_list r' (processing_key c a) = remove1 body (rd_list r (processing_key c a)) \<and> rd_str r' (processing_claim_key sha c a body) = None \<and>
        (n = 1 \<longleftrightarrow> body \<in> set (rd_list r (processing_key c a)))
      else n = 0 \<and> rd_list r' (processing_key c a) = rd_list r (processing_key c a)) \<and>
    rd_list r' (agent_inbox_key c a) = rd_list r (agent_inbox_key c a) \<and>
    (\<forall>t0 q successor ttl. r = claim_processing sha c t0 a body successor ttl q \<and> successor \<noteq> token \<and> now < t0 + ttl \<longrightarrow> n = 0)"
proof -
  have claimed: "rd_str (purge now (claim_processing sha c t0 a body successor ttl q)) (processing_claim_key sha c a body) = Some successor"
    if "now < t0 + ttl" for t0 q successor ttl
    using that by (simp add: claim_processing_def r_set_def purge_def live_def)
  show ?thesis
    using assms(2) ack_lists(2) [OF assms] purge_lists(2) [OF assms(1), of now] claimed
    by (auto simp: remove_processing_def Let_def r_del_def r_list_def split: if_splits)
qed

theorem ack_is_fenced_witness:
  "\<exists>n r'. remove_processing id demo_config 1 ''seat'' ''m'' ''old'' (claim_processing id demo_config 0 ''seat'' ''m'' ''new'' 60 empty_redis) = (n, r') \<and> n = 0"
proof -
  let ?r = "claim_processing id demo_config 0 ''seat'' ''m'' ''new'' 60 empty_redis"
  obtain n r' where rm: "remove_processing id demo_config 1 ''seat'' ''m'' ''old'' ?r = (n, r')" by fastforce
  have "no_expiry demo_config ''seat'' empty_redis" by (simp add: no_expiry_def empty_redis_def)
  then have "no_expiry demo_config ''seat'' ?r" using quiet_commands(1) by (simp add: keeps_lists_def)
  note f = ack_is_fenced [OF this rm, THEN conjunct2, THEN conjunct2, rule_format, of 0 "''new''" 60 empty_redis]
  have "n = 0" by (rule f) simp
  with rm show ?thesis by simp
qed

text \<open>C34: Start-up recovery terminates and restores the order. Whatever is parked when a daemon starts, the recovery loop ends with an empty
  processing list and an inbox that holds the parked messages, in their original order, in front of the waiting ones.\<close>

theorem recovery_restores_order:
  assumes "no_expiry c a s"
  shows "rd_list (recover_processing_envelopes sha c now a s) (processing_key c a) = [] \<and>
    rd_list (recover_processing_envelopes sha c now a s) (agent_inbox_key c a) = rd_list s (processing_key c a) @ rd_list s (agent_inbox_key c a)"
  using recover_all_lists [OF assms] by blast

theorem recovery_restores_order_witness:
  "rd_list (recover_processing_envelopes id demo_config 0 ''seat'' (r_list (processing_key demo_config ''seat'') [''m1'', ''m2''] empty_redis))
     (agent_inbox_key demo_config ''seat'') = [''m1'', ''m2'']"
proof -
  let ?s = "r_list (processing_key demo_config ''seat'') [''m1'', ''m2''] empty_redis"
  have "no_expiry demo_config ''seat'' ?s" by (simp add: no_expiry_def empty_redis_def r_list_def)
  from recovery_restores_order [OF this, of id 0] show ?thesis by (simp add: r_list_def empty_redis_def)
qed

text \<open>C35: An agent identity has one owner at a time. After a daemon has registered, no sequence of registrations, heartbeats and clean-ups by other
  daemons before its lease runs out takes the identity away: its status key still names it with the same expiry, and the next rival registration raises \<open>IdentityOwnedError\<close>
  with the owner and the time left.\<close>

theorem identity_has_one_owner:
  assumes "register c now a token ttl gen cols r = (Inr (), r1)" and "(rival_step c a token (now + ttl))\<^sup>*\<^sup>* r1 r2"
    and "rival \<noteq> token" and "t < now + ttl"
  shows "holds_identity c a token (now + ttl) r2 \<and>
    fst (register c t a rival ttl' gen' cols' r2) = Inl (IdentityOwnedError a (''alive:'' @ token) (now + ttl - t))"
proof -
  have h: "holds_identity c a token (now + ttl) r2" by (rule rivals_keep [OF assms(2) register_holds [OF assms(1)]])
  with holds_purge [OF h assms(4)] assms(3) show ?thesis
    by (simp add: register_def claim_identity_def holds_identity_def Let_def key_ttl_def)
qed

theorem identity_has_one_owner_witness:
  "fst (register demo_config 5 ''seat'' ''b'' 60 None [] (snd (register demo_config 0 ''seat'' ''a'' 60 None [] empty_redis)))
     = Inl (IdentityOwnedError ''seat'' ''alive:a'' 55)"
proof -
  have "fst (register demo_config 0 ''seat'' ''a'' 60 None [] empty_redis) = Inr ()"
    by (simp add: register_def claim_identity_def Let_def purge_def empty_redis_def)
  then have "register demo_config 0 ''seat'' ''a'' 60 None [] empty_redis = (Inr (), snd (register demo_config 0 ''seat'' ''a'' 60 None [] empty_redis))"
    by (metis prod.collapse)
  from identity_has_one_owner [OF this rtranclp.rtrancl_refl, of "''b''" 5 60 None "[]"] show ?thesis by simp
qed

end
