(* ===== verification/Dispatch_Authority.thy ===== *)
theory Dispatch_Authority
  imports Envelope Redis_Io
begin

text \<open>
  The publish-and-enqueue authority for requests (\<open>src/src/agent_redis_bridge/dispatch_authority.py\<close>). The
  registry is read several times in one call and may change in between: \<open>dispatch_view\<close> holds the
  server, with the time, at each of these reads and at the push. The brief validator and the publish
  gate of \<open>tools/faba\<close>, SHA-256 and the drawn identifiers are parameters. A source is one of the two
  typed sources the callers build.
\<close>

section \<open>Sources and receipts\<close>

definition FABA_IDENTITY :: string where "FABA_IDENTITY = ''faba''"
definition HARNESS_PUBLISH_ENV :: string where "HARNESS_PUBLISH_ENV = ''ARB_MEMORY_REDIS_URL''"
definition AUDIT_EMITTER_ENV :: string where "AUDIT_EMITTER_ENV = ''ARB_AUDIT_REDIS_URL''"

definition PUBLISH_CREDENTIAL_ENV :: "string list" where
  "PUBLISH_CREDENTIAL_ENV = [HARNESS_PUBLISH_ENV, AUDIT_EMITTER_ENV]"

definition filter_publish_env :: "(string \<times> string) list \<Rightarrow> (string \<times> string) list" where
  "filter_publish_env env = filter (\<lambda>(k, v). k \<notin> set PUBLISH_CREDENTIAL_ENV) env"

definition pop_publish_env :: "(string \<times> string) list \<Rightarrow> (string \<times> string) list \<times> (string \<times> string) list" where
  "pop_publish_env env = (filter (\<lambda>(k, v). k \<in> set PUBLISH_CREDENTIAL_ENV) env, filter_publish_env env)"

definition TYPED_PAYLOAD_KEYS :: "string list" where
  "TYPED_PAYLOAD_KEYS = [''task'', ''operation'', ''worktree'', ''worktree_lease'', ''lane'']"

datatype dispatch_exc = DispatchAuthorityError string | OtherError string

record receipt =
  pr_artefact_id :: string
  pr_version :: int
  pr_target :: string
  pr_generation :: string
  pr_vantage :: string
  pr_content_hash :: string

definition receipt_dict :: "receipt \<Rightarrow> dict" where
  "receipt_dict r =
     [(''artefact_id'', JStr (pr_artefact_id r)), (''version'', JInt (pr_version r)), (''target_agent_id'', JStr (pr_target r)),
      (''registration_generation'', JStr (pr_generation r)), (''worker_vantage'', JStr (pr_vantage r)), (''content_hash'', JStr (pr_content_hash r))]"

definition receipt_from_dict :: "dict \<Rightarrow> (string, receipt) res" where
  "receipt_from_dict d =
    (if \<not> dhas d ''version'' then Inl (''receipt missing field: '' @ repr_str ''version'')
     else (case dget d ''version'' of
       JInt v \<Rightarrow>
        (if v < 1 then Inl ''receipt version must be a positive int''
         else (case List.find (\<lambda>f. \<not> dhas d f) [''artefact_id'', ''target_agent_id'', ''registration_generation'', ''worker_vantage'', ''content_hash''] of
                 Some f \<Rightarrow> Inl (''receipt missing field: '' @ repr_str f)
               | None \<Rightarrow> Inr \<lparr>pr_artefact_id = py_str (dget d ''artefact_id''), pr_version = v, pr_target = py_str (dget d ''target_agent_id''),
                           pr_generation = py_str (dget d ''registration_generation''), pr_vantage = py_str (dget d ''worker_vantage''),
                           pr_content_hash = py_str (dget d ''content_hash'')\<rparr>))
     | _ \<Rightarrow> Inl ''receipt version must be a positive int''))"

datatype source =
    DraftSource string "string option"                 \<comment> \<open>brief text, artefact id\<close>
  | PreMintedSource string int receipt string          \<comment> \<open>artefact id, version, receipt, original bytes\<close>

text \<open>\<open>artefact_hash\<close> of \<open>arb_memory\<close> for text with the type \<open>text/markdown\<close>.\<close>

definition content_hash_for_brief :: "(string \<Rightarrow> string) \<Rightarrow> string \<Rightarrow> string" where
  "content_hash_for_brief sha text =
     sha (''arbmem:artefact:v1'' @ [CHR 0x00] @ ''text/markdown'' @ [CHR 0x00] @ ''text'' @ [CHR 0x00] @ utf8 text)"

section \<open>The frozen target\<close>

record frozen =
  fz_agent_id :: string
  fz_owner_token :: string
  fz_generation :: string
  fz_vantage :: string
  fz_task_wire :: string
  fz_brief_hydrate :: string

definition fget :: "(string \<times> string) list \<Rightarrow> string \<Rightarrow> string" where
  "fget fs k = (case map_of fs k of None \<Rightarrow> [] | Some v \<Rightarrow> v)"

definition select_wire :: "frozen \<Rightarrow> string" where
  "select_wire f = (if fz_task_wire f = ''legacy-or-ref-v1'' \<and> fz_brief_hydrate f = ''v1'' then ''ref'' else ''legacy'')"

definition freeze_target :: "redis_config \<Rightarrow> int \<times> redis \<Rightarrow> string \<Rightarrow> (string, frozen) res" where
  "freeze_target c view target =
    (let (now, r) = view in
     if \<not> nonblank target then Inl ''missing target''
     else
       (let fs = hgetall now (registry_key c target) r in
        if fs = [] then Inl ''missing target''
        else (case get_str now (status_key c target) r of
           None \<Rightarrow> Inl ''stale target''
         | Some status \<Rightarrow>
            (if \<not> py_startswith status ''alive:'' then Inl ''stale target''
             else
               (let vantage = py_strip (fget fs ''worker_vantage'');
                    generation = py_strip (if fget fs ''registration_generation'' \<noteq> [] then fget fs ''registration_generation''
                                           else fget fs ''owner_token'')
                in if vantage = [] then Inl ''blank/missing worker_vantage''
                   else if generation = [] then Inl ''missing registration_generation''
                   else Inr \<lparr>fz_agent_id = target, fz_owner_token = fget fs ''owner_token'', fz_generation = generation, fz_vantage = vantage,
                             fz_task_wire = fget fs ''task_wire'', fz_brief_hydrate = fget fs ''brief_hydrate''\<rparr>)))))"

definition changed_text :: "string \<Rightarrow> string \<Rightarrow> string \<Rightarrow> string" where
  "changed_text k old new = ''target '' @ k @ '' changed since freeze ('' @ repr_str old @ '' -> '' @ repr_str new @ '')''"

definition recheck_frozen :: "redis_config \<Rightarrow> int \<times> redis \<Rightarrow> frozen \<Rightarrow> (string, frozen) res" where
  "recheck_frozen c view f =
    bind_r (freeze_target c view (fz_agent_id f)) (\<lambda>g.
      if fz_generation g \<noteq> fz_generation f then Inl (changed_text ''registration_generation'' (fz_generation f) (fz_generation g))
      else if fz_vantage g \<noteq> fz_vantage f then Inl (changed_text ''worker_vantage'' (fz_vantage f) (fz_vantage g))
      else if fz_task_wire g \<noteq> fz_task_wire f then Inl (changed_text ''task_wire'' (fz_task_wire f) (fz_task_wire g))
      else if fz_brief_hydrate g \<noteq> fz_brief_hydrate f then Inl (changed_text ''brief_hydrate'' (fz_brief_hydrate f) (fz_brief_hydrate g))
      else Inr g)"

section \<open>Change summary\<close>

definition summary_marker :: string where "summary_marker = ''**change summary:**''"

definition marker_group :: "string \<Rightarrow> string option" where
  "marker_group rest =
    (let r = dropWhile py_isspace rest in
     if r \<noteq> [] then Some (takeWhile (\<lambda>c. c \<noteq> CHR 0x0A) r)
     else if \<exists>c \<in> set rest. c \<noteq> CHR 0x0A then Some [] else None)"

text \<open>The first line that starts with the marker; white space after it may run over line ends.\<close>

fun find_summary :: "bool \<Rightarrow> string \<Rightarrow> string option" where
  "find_summary bol [] = None"
| "find_summary bol (c # cs) =
    (let here = (if bol \<and> py_lower (take (length summary_marker) (c # cs)) = summary_marker
                 then marker_group (drop (length summary_marker) (c # cs)) else None)
     in case here of Some g \<Rightarrow> Some g | None \<Rightarrow> find_summary (c = CHR 0x0A) cs)"

definition change_summary :: "string \<Rightarrow> string" where
  "change_summary text =
    (case find_summary True text of
       Some g \<Rightarrow> take 200 (py_strip g)
     | None \<Rightarrow>
        (case List.find (\<lambda>s. s \<noteq> [] \<and> \<not> py_startswith s ''#'' \<and> \<not> py_startswith s ''```'') (map py_strip (py_splitlines text)) of
           Some s \<Rightarrow> take 200 s | None \<Rightarrow> []))"

section \<open>Checks and publishing\<close>

definition credential_given :: "string option \<Rightarrow> bool" where
  "credential_given v = (case v of None \<Rightarrow> False | Some s \<Rightarrow> nonblank s)"

definition assert_identity_and_credentials :: "string \<Rightarrow> source \<Rightarrow> (string \<times> string) list \<Rightarrow> string option \<Rightarrow> (string, unit) res" where
  "assert_identity_and_credentials caller src env url =
    (let held = credential_given (map_of env HARNESS_PUBLISH_ENV) \<or> credential_given url in
     if caller \<noteq> FABA_IDENTITY
     then (if held then Inl (''non-faba harness publish credential forbidden (identity='' @ caller @ '')'')
           else (case src of DraftSource _ _ \<Rightarrow> Inl (''non-faba draft forbidden (identity='' @ caller @ '')'') | _ \<Rightarrow> Inr ()))
     else (case src of DraftSource _ _ \<Rightarrow> guard_r held ''faba draft requires publish credential'' | _ \<Rightarrow> Inr ()))"

text \<open>The result of the publish gate: passed, reason, the store's receipt.\<close>

record gate_result =
  gr_passed :: bool
  gr_reason :: string
  gr_receipt :: "dict option"

record dispatch_env =
  de_sha :: "string \<Rightarrow> string"
  de_check_brief :: "string \<Rightarrow> string \<Rightarrow> string list"              \<comment> \<open>brief, vantage: the problems found\<close>
  de_publish_fn :: "(string \<Rightarrow> string \<Rightarrow> frozen \<Rightarrow> (string, receipt) res) option"    \<comment> \<open>brief, artefact id; an exception is its text\<close>
  de_gate :: "string \<Rightarrow> string \<Rightarrow> string \<Rightarrow> (string, gate_result) res"              \<comment> \<open>brief, artefact id, vantage\<close>
  de_config :: redis_config
  de_uuid :: string
  de_hex12 :: string
  de_now :: string

definition validate_brief :: "dispatch_env \<Rightarrow> string \<Rightarrow> string \<Rightarrow> (string, unit) res" where
  "validate_brief env text vantage =
    (let problems = de_check_brief env text vantage in
     if problems \<noteq> [] then Inl (''invalid brief: '' @ join ''; '' problems) else Inr ())"

definition verify_receipt :: "dispatch_env \<Rightarrow> receipt \<Rightarrow> string \<Rightarrow> int \<Rightarrow> frozen \<Rightarrow> string \<Rightarrow> (string, string) res" where
  "verify_receipt env r artefact_id version f bytes =
    (if pr_artefact_id r \<noteq> artefact_id then Inl ''receipt artefact_id mismatch''
     else if pr_version r \<noteq> version then Inl ''receipt version mismatch''
     else if pr_target r \<noteq> fz_agent_id f then Inl ''receipt target mismatch''
     else if pr_generation r \<noteq> fz_generation f then Inl ''receipt registration_generation mismatch''
     else if pr_vantage r \<noteq> fz_vantage f then Inl ''receipt vantage mismatch''
     else (case utf8_decode bytes of
             None \<Rightarrow> Inl ''legacy_brief_bytes are not utf-8''
           | Some text \<Rightarrow> (if pr_content_hash r \<noteq> content_hash_for_brief (de_sha env) text then Inl ''legacy bytes content hash mismatch''
                          else Inr text)))"

definition published_receipt :: "dispatch_env \<Rightarrow> string \<Rightarrow> string \<Rightarrow> frozen \<Rightarrow> string \<Rightarrow> gate_result \<Rightarrow> (dispatch_exc, receipt) res" where
  "published_receipt env text art_id f target result =
    (case gr_receipt result of
       Some (kv # rest) \<Rightarrow>
        (let d = kv # rest in
         if \<not> gr_passed result then Inl (DispatchAuthorityError (''failed/wrong receipt: '' @ gr_reason result))
         else (case dget d ''version'' of
             JInt v \<Rightarrow>
              (if v < 1 then Inl (DispatchAuthorityError ''failed/wrong receipt: missing version'')
               else if unhashable (dget d ''artefact_id'') then Inl (OtherError ''TypeError'')
               else if dget d ''artefact_id'' \<noteq> JNull \<and> dget d ''artefact_id'' \<noteq> JStr art_id
               then Inl (DispatchAuthorityError ''failed/wrong receipt: artefact_id mismatch'')
               else Inr \<lparr>pr_artefact_id = art_id, pr_version = v, pr_target = target, pr_generation = fz_generation f,
                         pr_vantage = fz_vantage f, pr_content_hash = content_hash_for_brief (de_sha env) text\<rparr>)
           | _ \<Rightarrow> Inl (DispatchAuthorityError ''failed/wrong receipt: missing version'')))
     | _ \<Rightarrow> Inl (DispatchAuthorityError (''failed/wrong receipt: '' @ gr_reason result)))"

definition harness_publish :: "dispatch_env \<Rightarrow> int \<times> redis \<Rightarrow> string \<Rightarrow> string \<Rightarrow> string option \<Rightarrow> (dispatch_exc, receipt) res" where
  "harness_publish env view text target artefact_id =
    (case freeze_target (de_config env) view target of
       Inl e \<Rightarrow> Inl (DispatchAuthorityError e)
     | Inr f \<Rightarrow>
    (case validate_brief env text (fz_vantage f) of
       Inl e \<Rightarrow> Inl (DispatchAuthorityError e)
     | Inr _ \<Rightarrow>
    (let art_id = (case artefact_id of Some (x # xs) \<Rightarrow> x # xs | _ \<Rightarrow> ''art-brief-'' @ de_hex12 env) in
     case de_publish_fn env of
       Some pub \<Rightarrow> (case pub text art_id f of Inl e \<Rightarrow> Inl (OtherError e) | Inr r \<Rightarrow> Inr r)
     | None \<Rightarrow> (case de_gate env text art_id (fz_vantage f) of
                 Inl e \<Rightarrow> Inl (OtherError e)
               | Inr result \<Rightarrow> published_receipt env text art_id f target result))))"

section \<open>Dispatch\<close>

record dispatch_args =
  da_target :: string
  da_operation :: string
  da_run_id :: string
  da_worktree_lease :: "string option"
  da_caller :: string
  da_sender :: string
  da_branch :: string
  da_redis_url :: "string option"
  da_worktree :: "dict option"
  da_extra :: "dict option"
  da_lane :: "string option"
  da_env :: "(string \<times> string) list"
  da_dry_run :: bool
  da_request_id :: "string option"

record dispatch_view =
  dv_freeze :: "int \<times> redis"
  dv_harness :: "int \<times> redis"
  dv_recheck :: "int \<times> redis"
  dv_push :: "int \<times> redis"

record dispatch_result =
  dr_request_id :: string
  dr_artefact_id :: string
  dr_version :: int
  dr_target :: string
  dr_change_summary :: string
  dr_wire :: "string option"
  dr_envelope :: "string option"

definition opt_field :: "string \<Rightarrow> string option \<Rightarrow> dict" where
  "opt_field k v = (case v of Some (c # cs) \<Rightarrow> [(k, JStr (c # cs))] | _ \<Rightarrow> [])"

definition typed_payload :: "dispatch_args \<Rightarrow> json \<Rightarrow> dict" where
  "typed_payload args task =
     [(''task'', task)] @
     (if da_operation args \<noteq> [] \<and> da_operation args \<noteq> ''request'' then [(''operation'', JStr (da_operation args))] else []) @
     opt_field ''worktree_lease'' (da_worktree_lease args) @
     (case da_worktree args of Some (kv # d) \<Rightarrow> [(''worktree'', JObj (kv # d))] | _ \<Rightarrow> []) @
     opt_field ''lane'' (da_lane args)"

definition add_extra :: "dict \<Rightarrow> dict \<Rightarrow> dict" where
  "add_extra p extra = foldl (\<lambda>p (k, v). if dhas p k \<or> k \<in> set TYPED_PAYLOAD_KEYS then p else p @ [(k, v)]) p extra"

definition request_payload :: "dispatch_args \<Rightarrow> json \<Rightarrow> dict" where
  "request_payload args task = add_extra (typed_payload args task) (case da_extra args of None \<Rightarrow> [] | Some d \<Rightarrow> d)"

definition request_id_of :: "dispatch_env \<Rightarrow> dispatch_args \<Rightarrow> string" where
  "request_id_of env args = (case da_request_id args of Some (c # cs) \<Rightarrow> c # cs | _ \<Rightarrow> de_uuid env)"

definition request_envelope :: "dispatch_env \<Rightarrow> dispatch_args \<Rightarrow> json \<Rightarrow> envelope" where
  "request_envelope env args task =
     \<lparr>e_id = request_id_of env args, e_sender = da_sender args, e_branch = da_branch args, e_recipient = da_target args, e_kind = ''request'',
      e_sent_at = de_now env, e_payload = request_payload args task, e_in_reply_to = None,
      e_run_id = (if da_run_id args \<noteq> [] then Some (da_run_id args) else None)\<rparr>"

definition publish_url :: "dispatch_args \<Rightarrow> string" where
  "publish_url args = py_strip (case da_redis_url args of
       Some (c # cs) \<Rightarrow> c # cs
     | _ \<Rightarrow> (case map_of (da_env args) HARNESS_PUBLISH_ENV of None \<Rightarrow> [] | Some s \<Rightarrow> s))"

text \<open>The verified brief, artefact id and version of a source.\<close>

definition resolve_source :: "dispatch_env \<Rightarrow> dispatch_args \<Rightarrow> dispatch_view \<Rightarrow> frozen \<Rightarrow> source \<Rightarrow> (string, string \<times> string \<times> int) res" where
  "resolve_source env args view f src =
    (case src of
       DraftSource text art \<Rightarrow>
        if publish_url args = [] then Inl ''faba draft requires publish credential'' else
        (case harness_publish env (dv_harness view) text (da_target args) art of
           Inl (DispatchAuthorityError e) \<Rightarrow> Inl e
         | Inl (OtherError e) \<Rightarrow> Inl (''publish exception: '' @ e)
         | Inr r \<Rightarrow> bind_r (verify_receipt env r (pr_artefact_id r) (pr_version r) f (utf8 text)) (\<lambda>t. Inr (t, pr_artefact_id r, pr_version r)))
     | PreMintedSource art version r bytes \<Rightarrow>
        bind_r (verify_receipt env r art version f bytes) (\<lambda>t.
        bind_r (validate_brief env t (fz_vantage f)) (\<lambda>_. Inr (t, art, version))))"

definition publish_and_enqueue :: "dispatch_env \<Rightarrow> dispatch_args \<Rightarrow> dispatch_view \<Rightarrow> source \<Rightarrow> (string, dispatch_result) res \<times> redis" where
  "publish_and_enqueue env args view src =
    (let plan = bind_r (assert_identity_and_credentials (da_caller args) src (da_env args) (da_redis_url args)) (\<lambda>_.
                bind_r (freeze_target (de_config env) (dv_freeze view) (da_target args)) (\<lambda>f.
                bind_r (resolve_source env args view f src) (\<lambda>(text, art, version).
                bind_r (recheck_frozen (de_config env) (dv_recheck view) f) (\<lambda>current.
                Inr (text, art, version, select_wire current)))));
         (now, r) = dv_push view
     in case plan of
          Inl e \<Rightarrow> (Inl e, r)
        | Inr (text, art, version, wire) \<Rightarrow>
           (let task = (if wire = ''ref'' then JObj [(''artefact_id'', JStr art), (''version'', JInt version)] else JStr text);
                json = to_json (request_envelope env args task);
                result = \<lparr>dr_request_id = request_id_of env args, dr_artefact_id = art, dr_version = version, dr_target = da_target args,
                          dr_change_summary = change_summary text, dr_wire = None, dr_envelope = None\<rparr>
            in if da_dry_run args then (Inr (result\<lparr>dr_wire := Some wire, dr_envelope := Some json\<rparr>), r)
               else (Inr result, rpush (de_config env) now (da_target args) json r)))"

section \<open>Lemmas\<close>

text \<open>What a frozen record was, and that the second look at the target found the same one.\<close>

lemma freeze_target_Inr:
  assumes "freeze_target c view target = Inr f"
  shows "fz_agent_id f = target \<and> nonblank target \<and> fz_vantage f \<noteq> [] \<and> fz_generation f \<noteq> [] \<and>
    (\<exists>st. get_str (fst view) (status_key c target) (snd view) = Some (''alive:'' @ st))"
  using assms by (cases view) (auto simp: freeze_target_def Let_def py_startswith_iff split: option.splits if_splits)

lemma recheck_frozen_Inr:
  assumes "recheck_frozen c view f = Inr g"
  shows "freeze_target c view (fz_agent_id f) = Inr g \<and> fz_generation g = fz_generation f \<and> fz_vantage g = fz_vantage f \<and>
    fz_task_wire g = fz_task_wire f \<and> fz_brief_hydrate g = fz_brief_hydrate f"
  using assms by (auto simp: recheck_frozen_def split: if_splits)

definition receipt_binds :: "dispatch_env \<Rightarrow> receipt \<Rightarrow> string \<Rightarrow> int \<Rightarrow> frozen \<Rightarrow> string \<Rightarrow> bool" where
  "receipt_binds env r art version f text \<longleftrightarrow>
     pr_artefact_id r = art \<and> pr_version r = version \<and> pr_target r = fz_agent_id f \<and> pr_generation r = fz_generation f \<and>
     pr_vantage r = fz_vantage f \<and> pr_content_hash r = content_hash_for_brief (de_sha env) text"

lemma verify_receipt_iff:
  "verify_receipt env r art version f bytes = Inr text \<longleftrightarrow> utf8_decode bytes = Some text \<and> receipt_binds env r art version f text"
  by (auto simp: verify_receipt_def receipt_binds_def split: option.splits)

lemma validate_brief_iff: "validate_brief env text vantage = Inr u \<longleftrightarrow> de_check_brief env text vantage = []"
  by (simp add: validate_brief_def Let_def)

lemma identity_checked:
  assumes "assert_identity_and_credentials caller src env url = Inr u"
  shows "caller = FABA_IDENTITY \<or>
    (\<exists>a v r b. src = PreMintedSource a v r b) \<and> \<not> credential_given (map_of env HARNESS_PUBLISH_ENV) \<and> \<not> credential_given url"
  using assms by (cases src) (auto simp: assert_identity_and_credentials_def Let_def split: if_splits)

lemma published_receipt_Inr:
  assumes "published_receipt env text art f target result = Inr r"
  shows "pr_artefact_id r = art \<and> 1 \<le> pr_version r \<and> pr_vantage r = fz_vantage f \<and> gr_passed result"
  using assms by (auto simp: published_receipt_def Let_def split: option.splits list.splits json.splits if_splits)

lemma harness_publish_Inr:
  assumes "harness_publish env view text target art = Inr r"
  shows "\<exists>g. freeze_target (de_config env) view target = Inr g \<and> de_check_brief env text (fz_vantage g) = [] \<and>
    (de_publish_fn env = None \<longrightarrow> pr_vantage r = fz_vantage g \<and> 1 \<le> pr_version r)"
  using assms unfolding harness_publish_def
  by (auto simp: Let_def validate_brief_iff split: sum.splits option.splits dest: published_receipt_Inr)

text \<open>What the source yields, for both kinds of source: a receipt bound to the frozen target and to the text, which passed the validator.\<close>

definition brief_cleared :: "dispatch_env \<Rightarrow> source \<Rightarrow> frozen \<Rightarrow> string \<Rightarrow> string \<Rightarrow> int \<Rightarrow> bool" where
  "brief_cleared env src f text art version \<longleftrightarrow>
     (\<exists>r. receipt_binds env r art version f text \<and>
        (case src of DraftSource t _ \<Rightarrow> text = t | PreMintedSource a v r' b \<Rightarrow> r = r' \<and> a = art \<and> v = version \<and> utf8_decode b = Some text)) \<and>
     ((\<exists>a v r b. src = PreMintedSource a v r b) \<or> de_publish_fn env = None \<longrightarrow> de_check_brief env text (fz_vantage f) = []) \<and>
     (\<exists>v. de_check_brief env text v = [])"

lemma resolve_source_Inr:
  assumes "resolve_source env args view f src = Inr (text, art, version)"
  shows "brief_cleared env src f text art version"
proof (cases src)
  case (DraftSource t a)
  have u: "publish_url args \<noteq> []" using assms DraftSource by (auto simp: resolve_source_def)
  obtain r where h: "harness_publish env (dv_harness view) t (da_target args) a = Inr r"
    using assms DraftSource u by (cases "harness_publish env (dv_harness view) t (da_target args) a")
      (simp_all add: resolve_source_def split: dispatch_exc.splits)
  then have r: "harness_publish env (dv_harness view) t (da_target args) a = Inr r"
      "receipt_binds env r (pr_artefact_id r) (pr_version r) f text" "text = t" "art = pr_artefact_id r" "version = pr_version r"
    using assms DraftSource u by (auto simp: resolve_source_def verify_receipt_iff)
  with harness_publish_Inr [OF r(1)] DraftSource show ?thesis
    by (auto simp: brief_cleared_def receipt_binds_def)
next
  case (PreMintedSource a v r b)
  with assms have "utf8_decode b = Some text" "receipt_binds env r art version f text" "a = art" "v = version"
      "de_check_brief env text (fz_vantage f) = []"
    by (auto simp: resolve_source_def verify_receipt_iff validate_brief_iff)
  with PreMintedSource show ?thesis by (auto simp: brief_cleared_def)
qed

text \<open>The extra payload fills in only the untyped keys.\<close>

lemma add_extra_Cons:
  "add_extra p ((k, v) # extra) = add_extra (if dhas p k \<or> k \<in> set TYPED_PAYLOAD_KEYS then p else p @ [(k, v)]) extra"
  by (simp add: add_extra_def)

lemma add_extra_Nil: "add_extra p [] = p"
  by (simp add: add_extra_def)

lemma add_extra_has: "dhas (add_extra p extra) k \<longleftrightarrow> dhas p k \<or> k \<notin> set TYPED_PAYLOAD_KEYS \<and> dhas extra k"
proof (induction extra arbitrary: p)
  case (Cons kv extra)
  obtain k' v where "kv = (k', v)" by fastforce
  then show ?case by (cases "dhas p k' \<or> k' \<in> set TYPED_PAYLOAD_KEYS") (auto simp: add_extra_Cons Cons.IH )
qed (simp add: add_extra_Nil)

lemma add_extra_get: "dget (add_extra p extra) k = (if dhas p k \<or> k \<in> set TYPED_PAYLOAD_KEYS then dget p k else dget extra k)"
proof (induction extra arbitrary: p)
  case (Cons kv extra)
  obtain k' v where "kv = (k', v)" by fastforce
  then show ?case by (cases "dhas p k' \<or> k' \<in> set TYPED_PAYLOAD_KEYS") (auto simp: add_extra_Cons Cons.IH dget_append)
qed (simp add: add_extra_Nil)

definition wire_task :: "string \<Rightarrow> string \<Rightarrow> string \<Rightarrow> int \<Rightarrow> json" where
  "wire_task wire text art version = (if wire = ''ref'' then JObj [(''artefact_id'', JStr art), (''version'', JInt version)] else JStr text)"

lemma typed_payload_typed: "dhas (typed_payload args task) k \<Longrightarrow> k \<in> set TYPED_PAYLOAD_KEYS"
  by (auto simp: typed_payload_def opt_field_def TYPED_PAYLOAD_KEYS_def split: option.splits list.splits if_splits)

lemma typed_payload_task [simp]: "dget (typed_payload args task) ''task'' = task"
  by (simp add: typed_payload_def)

lemma request_payload_get:
  "dget (request_payload args task) k = (if k \<in> set TYPED_PAYLOAD_KEYS then dget (typed_payload args task) k else dget (case da_extra args of None \<Rightarrow> [] | Some d \<Rightarrow> d) k)"
  "dhas (request_payload args task) k \<longleftrightarrow>
     (if k \<in> set TYPED_PAYLOAD_KEYS then dhas (typed_payload args task) k else dhas (case da_extra args of None \<Rightarrow> [] | Some d \<Rightarrow> d) k)"
  using typed_payload_typed [of args task k] by (auto simp: request_payload_def add_extra_get add_extra_has)

definition plan_ok :: "dispatch_env \<Rightarrow> dispatch_args \<Rightarrow> dispatch_view \<Rightarrow> source \<Rightarrow> string \<Rightarrow> string \<Rightarrow> int \<Rightarrow> string \<Rightarrow> bool" where
  "plan_ok env args view src text art version wire \<longleftrightarrow>
     (da_caller args = FABA_IDENTITY \<or>
       (\<exists>a v r b. src = PreMintedSource a v r b) \<and> \<not> credential_given (map_of (da_env args) HARNESS_PUBLISH_ENV) \<and> \<not> credential_given (da_redis_url args)) \<and>
     (\<exists>f g. freeze_target (de_config env) (dv_freeze view) (da_target args) = Inr f \<and> brief_cleared env src f text art version \<and>
        freeze_target (de_config env) (dv_recheck view) (da_target args) = Inr g \<and>
        fz_generation g = fz_generation f \<and> fz_vantage g = fz_vantage f \<and> wire = select_wire f)"

lemma publish_and_enqueue_cases:
  assumes "publish_and_enqueue env args view src = (out, r')"
  obtains (refused) e where "out = Inl e" "r' = snd (dv_push view)"
  | (planned) brief art version wire res where "plan_ok env args view src brief art version wire" "out = Inr res"
      "dr_request_id res = request_id_of env args" "dr_artefact_id res = art" "dr_version res = version" "dr_target res = da_target args"
      "dr_envelope res = (if da_dry_run args then Some (to_json (request_envelope env args (wire_task wire brief art version))) else None)"
      "r' = (if da_dry_run args then snd (dv_push view)
             else rpush (de_config env) (fst (dv_push view)) (da_target args) (to_json (request_envelope env args (wire_task wire brief art version))) (snd (dv_push view)))"
proof -
  obtain now r where v: "dv_push view = (now, r)" by fastforce
  define plan where "plan = bind_r (assert_identity_and_credentials (da_caller args) src (da_env args) (da_redis_url args)) (\<lambda>_.
                bind_r (freeze_target (de_config env) (dv_freeze view) (da_target args)) (\<lambda>f.
                bind_r (resolve_source env args view f src) (\<lambda>(brief, art, version).
                bind_r (recheck_frozen (de_config env) (dv_recheck view) f) (\<lambda>current.
                Inr (brief, art, version, select_wire current)))))"
  show thesis
  proof (cases plan)
    case (Inl e)
    then show thesis using assms by (intro refused [of e]) (simp_all add: publish_and_enqueue_def plan_def v)
  next
    case (Inr p)
    obtain brief art version wire where p: "p = (brief, art, version, wire)" by (cases p) auto
    from Inr p have "\<exists>u f g. assert_identity_and_credentials (da_caller args) src (da_env args) (da_redis_url args) = Inr u \<and>
        freeze_target (de_config env) (dv_freeze view) (da_target args) = Inr f \<and> resolve_source env args view f src = Inr (brief, art, version) \<and>
        recheck_frozen (de_config env) (dv_recheck view) f = Inr g \<and> wire = select_wire g"
      by (auto simp: plan_def)
    then obtain u f g where s: "assert_identity_and_credentials (da_caller args) src (da_env args) (da_redis_url args) = Inr u"
        "freeze_target (de_config env) (dv_freeze view) (da_target args) = Inr f" "resolve_source env args view f src = Inr (brief, art, version)"
        "recheck_frozen (de_config env) (dv_recheck view) f = Inr g" "wire = select_wire g" by blast
    have "fz_agent_id f = da_target args" using freeze_target_Inr [OF s(2)] by simp
    then have ok: "plan_ok env args view src brief art version wire"
      unfolding plan_ok_def
      using identity_checked [OF s(1)] s(2) resolve_source_Inr [OF s(3)] recheck_frozen_Inr [OF s(4)] s(5) by (auto simp: select_wire_def)
    have out: "publish_and_enqueue env args view src =
        (let json = to_json (request_envelope env args (wire_task wire brief art version));
             result = \<lparr>dr_request_id = request_id_of env args, dr_artefact_id = art, dr_version = version, dr_target = da_target args,
                          dr_change_summary = change_summary brief, dr_wire = None, dr_envelope = None\<rparr>
         in if da_dry_run args then (Inr (result\<lparr>dr_wire := Some wire, dr_envelope := Some json\<rparr>), r)
            else (Inr result, rpush (de_config env) now (da_target args) json r))"
      unfolding publish_and_enqueue_def plan_def [symmetric] Inr p v wire_task_def by simp
    show thesis
    proof (cases "da_dry_run args")
      case True
      with out assms show thesis by (intro planned [OF ok]) (auto simp: Let_def v)
    next
      case False
      with out assms show thesis by (intro planned [OF ok]) (auto simp: Let_def v)
    qed
  qed
qed

text \<open>What a caller has to supply for the request to be a valid envelope.\<close>

definition extra_of :: "dispatch_args \<Rightarrow> dict" where
  "extra_of args = (case da_extra args of None \<Rightarrow> [] | Some d \<Rightarrow> d)"

definition request_ready :: "dispatch_env \<Rightarrow> dispatch_args \<Rightarrow> bool" where
  "request_ready env args \<longleftrightarrow>
     request_id_of env args \<noteq> [] \<and> da_sender args \<noteq> [] \<and> da_branch args \<noteq> [] \<and> de_now env \<noteq> [] \<and>
     (da_run_id args = [] \<or> nonblank (da_run_id args)) \<and> (\<forall>l. da_lane args = Some l \<longrightarrow> l = [] \<or> nonblank l) \<and>
     json_wf (JObj (extra_of args)) \<and> (\<forall>w. da_worktree args = Some w \<longrightarrow> json_wf (JObj w)) \<and>
     (\<forall>f \<in> {''thread_id'', ''fork_from_thread_id'', ''claim_ref''}. dhas (extra_of args) f \<longrightarrow> nonblank_str (dget (extra_of args) f)) \<and>
     \<not> (dhas (extra_of args) ''thread_id'' \<and> dhas (extra_of args) ''fork_from_thread_id'') \<and>
     (dhas (extra_of args) ''thread_id'' \<or> dhas (extra_of args) ''fork_from_thread_id'' \<longrightarrow> dget (extra_of args) ''fresh_context'' \<noteq> JBool True)"

lemma wf_snoc: "json_wf (JObj d) \<Longrightarrow> json_wf v \<Longrightarrow> \<not> dhas d k \<Longrightarrow> json_wf (JObj (d @ [(k, v)]))"
  by (auto simp: dhas_def map_of_eq_None_iff)

lemma wf_add_extra: "json_wf (JObj p) \<Longrightarrow> json_wf (JObj extra) \<Longrightarrow> json_wf (JObj (add_extra p extra))"
proof (induction extra arbitrary: p)
  case (Cons kv extra)
  obtain k v where kv: "kv = (k, v)" by fastforce
  have e: "json_wf v" "json_wf (JObj extra)" using Cons.prems(2) by (auto simp: kv)
  have "json_wf (JObj (if dhas p k \<or> k \<in> set TYPED_PAYLOAD_KEYS then p else p @ [(k, v)]))"
    using Cons.prems(1) e(1) wf_snoc by (simp del: json_wf.simps)
  from Cons.IH [OF this e(2)] show ?case by (simp add: kv add_extra_Cons del: json_wf.simps)
qed (simp add: add_extra_Nil)

lemma wf_typed_payload:
  assumes "json_wf task" and "\<And>w. da_worktree args = Some w \<Longrightarrow> json_wf (JObj w)"
  shows "json_wf (JObj (typed_payload args task))"
proof -
  define w where "w = (case da_worktree args of Some (kv # d) \<Rightarrow> [(''worktree'', JObj (kv # d))] | _ \<Rightarrow> [])"
  have w: "w = [] \<or> (\<exists>d. w = [(''worktree'', JObj d)] \<and> json_wf (JObj d))"
    using assms(2) by (cases "da_worktree args"; simp add: w_def del: json_wf.simps split: list.splits) blast
  show ?thesis
    unfolding typed_payload_def w_def [symmetric] opt_field_def
    using w assms(1) by (elim disjE exE conjE)
      (simp_all add: json_wf_Cons wf_empty del: json_wf.simps(3) split: option.splits list.splits)
qed

lemma request_payload_wf:
  assumes "request_ready env args" and "json_wf task"
  shows "json_wf (JObj (request_payload args task))"
  using assms wf_add_extra wf_typed_payload by (simp add: request_ready_def request_payload_def extra_of_def del: json_wf.simps)

lemma typed_operation: "\<not> unhashable (dget (typed_payload args task) ''operation'')"
  by (simp add: typed_payload_def opt_field_def unhashable_def split: option.splits list.splits)

lemma typed_lane: "dhas (typed_payload args task) ''lane'' \<Longrightarrow> \<exists>l. da_lane args = Some l \<and> l \<noteq> [] \<and> dget (typed_payload args task) ''lane'' = JStr l"
  by (auto simp: typed_payload_def opt_field_def dget_append split: option.splits list.splits if_splits)

lemma request_checks_pass:
  assumes "request_ready env args" and "validate_request_task required task = Inr ()"
  shows "request_payload_checks required (request_payload args task) = Inr ()"
proof -
  let ?p = "request_payload args task" and ?x = "extra_of args"
  have free: "dhas ?p f \<longleftrightarrow> dhas ?x f" "dget ?p f = dget ?x f" if "f \<notin> set TYPED_PAYLOAD_KEYS" for f
    using that by (simp_all add: request_payload_get extra_of_def)
  have typed: "dhas ?p f \<longleftrightarrow> dhas (typed_payload args task) f" "dget ?p f = dget (typed_payload args task) f" if "f \<in> set TYPED_PAYLOAD_KEYS" for f
    using that by (simp_all add: request_payload_get)
  have op: "\<not> unhashable (dget ?p ''operation'')" and task: "dget ?p ''task'' = task"
    using typed_operation by (simp_all add: typed TYPED_PAYLOAD_KEYS_def)
  have lane: "dhas ?p ''lane'' \<longrightarrow> nonblank_str (dget ?p ''lane'')"
    using assms(1) typed_lane [of args task] by (auto simp: typed TYPED_PAYLOAD_KEYS_def request_ready_def)
  have ctx: "dhas ?p f \<longrightarrow> nonblank_str (dget ?p f)" if "f \<in> {''thread_id'', ''fork_from_thread_id'', ''claim_ref''}" for f
  proof -
    have n: "f \<notin> set TYPED_PAYLOAD_KEYS" using that by (auto simp: TYPED_PAYLOAD_KEYS_def)
    have "dhas ?x f \<longrightarrow> nonblank_str (dget ?x f)" using assms(1) that unfolding request_ready_def by blast
    then show ?thesis unfolding free [OF n] .
  qed
  have ctx0: "\<not> dhas ?p f \<longrightarrow> \<not> nonblank_str (dget ?p f)" for f by simp
  have both: "\<not> (dhas ?p ''thread_id'' \<and> dhas ?p ''fork_from_thread_id'')"
      "dhas ?p ''thread_id'' \<or> dhas ?p ''fork_from_thread_id'' \<longrightarrow> dget ?p ''fresh_context'' \<noteq> JBool True"
    using assms(1) by (auto simp: request_ready_def free TYPED_PAYLOAD_KEYS_def)
  have gate: "List.find (\<lambda>f. dhas ?p f \<and> \<not> nonblank_str (dget ?p f)) [''claim_ref'', ''lane''] = None"
    using lane ctx [of "''claim_ref''"] by (simp add: find_first_None)
  show ?thesis
    unfolding request_payload_checks_def gate option.case task assms(2)
    using op both ctx [of "''thread_id''"] ctx [of "''fork_from_thread_id''"] ctx0 [of "''thread_id''"] ctx0 [of "''fork_from_thread_id''"]
    by (auto simp: has_context_def)
qed

lemma request_envelope_ok:
  assumes "request_ready env args" and "validate_request_task required task = Inr ()" and "da_target args \<noteq> []" and "json_wf task"
  shows "envelope_ok required (request_envelope env args task)"
proof -
  have "json_wf (JObj (request_payload args task))" by (rule request_payload_wf [OF assms(1,4)])
  moreover have "payload_checks required ''request'' (request_payload args task) = Inr ()"
    using request_checks_pass [OF assms(1,2)] by (simp add: payload_checks_def)
  ultimately show ?thesis
    using assms(1,3) by (auto simp: envelope_ok_def request_envelope_def request_ready_def ALLOWED_KINDS_def simp del: json_wf.simps)
qed

text \<open>A registered seat and a pre-minted brief for it.\<close>

definition demo_server :: redis where
  "demo_server = empty_redis\<lparr>rd_str := (\<lambda>k. if k = status_key demo_config ''seat'' then Some ''alive:t'' else None),
     rd_hash := (\<lambda>k. if k = registry_key demo_config ''seat'' then [(''worker_vantage'', ''v''), (''owner_token'', ''t'')] else [])\<rparr>"

definition demo_frozen :: frozen where
  "demo_frozen = \<lparr>fz_agent_id = ''seat'', fz_owner_token = ''t'', fz_generation = ''t'', fz_vantage = ''v'', fz_task_wire = [], fz_brief_hydrate = []\<rparr>"

definition demo_denv :: dispatch_env where
  "demo_denv = \<lparr>de_sha = id, de_check_brief = (\<lambda>t v. if nonblank t then [] else [''blank'']), de_publish_fn = None, de_gate = (\<lambda>_ _ _. Inl ''unused''),
     de_config = demo_config, de_uuid = ''u'', de_hex12 = ''h'', de_now = ''now''\<rparr>"

definition demo_dargs :: dispatch_args where
  "demo_dargs = \<lparr>da_target = ''seat'', da_operation = ''request'', da_run_id = [], da_worktree_lease = None, da_caller = ''bash'', da_sender = ''orch'',
     da_branch = ''main'', da_redis_url = None, da_worktree = None, da_extra = Some [(''lane'', JStr ''exempt''), (''claim_ref'', JStr ''c'')], da_lane = None,
     da_env = [], da_dry_run = False, da_request_id = None\<rparr>"

definition demo_dview :: dispatch_view where
  "demo_dview = \<lparr>dv_freeze = (0, demo_server), dv_harness = (0, demo_server), dv_recheck = (0, demo_server), dv_push = (0, demo_server)\<rparr>"

definition demo_source :: source where
  "demo_source = PreMintedSource ''a'' 1 \<lparr>pr_artefact_id = ''a'', pr_version = 1, pr_target = ''seat'', pr_generation = ''t'', pr_vantage = ''v'',
     pr_content_hash = content_hash_for_brief id ''do''\<rparr> ''do''"

lemma demo_freeze: "freeze_target demo_config (0, demo_server) ''seat'' = Inr demo_frozen"
  by code_simp

lemma demo_recheck: "recheck_frozen demo_config (0, demo_server) demo_frozen = Inr demo_frozen"
  by code_simp

lemma demo_resolve: "resolve_source demo_denv demo_dargs demo_dview demo_frozen demo_source = Inr (''do'', ''a'', 1)"
  by code_simp

lemma demo_ready: "request_ready demo_denv demo_dargs"
  by (simp add: request_ready_def request_id_of_def extra_of_def demo_denv_def demo_dargs_def nonblank_iff py_isspace_def)

lemma demo_dispatched: "\<exists>res r'. publish_and_enqueue demo_denv demo_dargs demo_dview demo_source = (Inr res, r')"
proof -
  have c: "assert_identity_and_credentials (da_caller demo_dargs) demo_source (da_env demo_dargs) (da_redis_url demo_dargs) = Inr ()" by code_simp
  show ?thesis
    unfolding publish_and_enqueue_def c using demo_freeze demo_recheck demo_resolve
    by (simp add: Let_def demo_dview_def demo_denv_def demo_dargs_def)
qed

section \<open>Properties\<close>

text \<open>C10: A request reaches an inbox only through all the checks, and then exactly once. A refused call leaves the server as it
  is. An accepted one was made by FABA, or with a pre-minted source and no publish credential in the environment or the arguments; the target
  was alive, with a vantage and a generation, when the call started and again just before the push, and had not changed; the receipt names
  that target, generation and vantage, the artefact and version, and the hash of the brief that is sent, which passed the validator. The server then
  gains one message at the tail of the target's inbox, or none in a dry run, which returns that message instead.\<close>

theorem enqueue_only_cleared:
  "case publish_and_enqueue env args view src of
     (Inl e, r') \<Rightarrow> r' = snd (dv_push view)
   | (Inr res, r') \<Rightarrow>
      (\<exists>brief wire msg. plan_ok env args view src brief (dr_artefact_id res) (dr_version res) wire \<and>
         msg = to_json (request_envelope env args (wire_task wire brief (dr_artefact_id res) (dr_version res))) \<and>
         dr_request_id res = request_id_of env args \<and> dr_target res = da_target args \<and>
         (if da_dry_run args then dr_envelope res = Some msg \<and> r' = snd (dv_push view)
          else dr_envelope res = None \<and> r' = rpush (de_config env) (fst (dv_push view)) (da_target args) msg (snd (dv_push view))))"
proof -
  obtain out r' where o: "publish_and_enqueue env args view src = (out, r')" by fastforce
  then show ?thesis
  proof (cases rule: publish_and_enqueue_cases)
    case (refused e)
    with o show ?thesis by simp
  next
    case (planned brief art version wire res)
    then show ?thesis unfolding o planned(2) prod.case sum.case
      by (intro exI [of _ brief] exI [of _ wire] exI conjI) auto
  qed
qed

text \<open>The extra payload cannot forge a typed key. Task, operation, worktree, lease and lane of the request are what the typed arguments
  say, or absent; every other key is what the extra payload says.\<close>

theorem extra_payload_untyped:
  "(k \<in> set TYPED_PAYLOAD_KEYS \<longrightarrow> dget (request_payload args task) k = dget (typed_payload args task) k \<and>
      dhas (request_payload args task) k = dhas (typed_payload args task) k) \<and>
   (k \<notin> set TYPED_PAYLOAD_KEYS \<longrightarrow> dget (request_payload args task) k = dget (extra_of args) k \<and> dhas (request_payload args task) k = dhas (extra_of args) k)"
  by (simp add: request_payload_get extra_of_def)

theorem extra_payload_untyped_witness:
  "\<not> dhas (request_payload demo_dargs (JStr ''do'')) ''lane'' \<and> dget (request_payload demo_dargs (JStr ''do'')) ''claim_ref'' = JStr ''c''"
  using extra_payload_untyped [of "''lane''" demo_dargs "JStr ''do''"] extra_payload_untyped [of "''claim_ref''" demo_dargs "JStr ''do''"]
  by (simp add: TYPED_PAYLOAD_KEYS_def typed_payload_def opt_field_def extra_of_def demo_dargs_def)

text \<open>What the authority enqueues is what the seat reads. If the caller supplied the header fields and a consistent context, the
  validator refuses blank briefs, and a seat that demands references is sent a well-formed one, then the text at the tail of the inbox parses at the seat, and gives the
  request the authority built.\<close>

theorem dispatched_request_parses:
  assumes "publish_and_enqueue env args view src = (Inr res, r')" and "\<not> da_dry_run args" and "request_ready env args"
    and "\<And>t v. de_check_brief env t v = [] \<Longrightarrow> nonblank t" and "nonblank (dr_artefact_id res)" and "1 \<le> dr_version res"
    and "\<And>f. required \<Longrightarrow> freeze_target (de_config env) (dv_freeze view) (da_target args) = Inr f \<Longrightarrow> select_wire f = ''ref''"
  shows "\<exists>raw task. rd_list r' (agent_inbox_key (de_config env) (da_target args)) =
      rd_list (purge (fst (dv_push view)) (snd (dv_push view))) (agent_inbox_key (de_config env) (da_target args)) @ [raw] \<and>
    from_json required raw = Inr (request_envelope env args task)"
  using assms(1)
proof (cases rule: publish_and_enqueue_cases)
  case (planned brief art version wire res')
  from planned(1) obtain f where f: "freeze_target (de_config env) (dv_freeze view) (da_target args) = Inr f"
      "brief_cleared env src f brief art version" "wire = select_wire f"
    unfolding plan_ok_def by blast
  have "nonblank brief" using f(2) assms(4) unfolding brief_cleared_def by blast
  moreover have "nonblank art" "1 \<le> version" using planned(2,4,5) assms(5,6) by auto
  moreover have "required \<Longrightarrow> wire = ''ref''" using assms(7) f by blast
  ultimately have v: "validate_request_task required (wire_task wire brief art version) = Inr ()"
    by (simp add: validate_request_task_def wire_task_def is_brief_ref_shape_def parse_brief_ref_def)
  have "da_target args \<noteq> []" using freeze_target_Inr [OF f(1)] nonblank_not_Nil by blast
  moreover have "json_wf (wire_task wire brief art version)" by (simp add: wire_task_def)
  ultimately have "envelope_ok required (request_envelope env args (wire_task wire brief art version))"
    by (intro request_envelope_ok [OF assms(3) v])
  from to_json_from_json [OF this] planned(8) assms(2) show ?thesis
    by (intro exI [of _ "to_json (request_envelope env args (wire_task wire brief art version))"] exI [of _ "wire_task wire brief art version"])
      (simp add: rpush_def r_list_def Let_def)
qed simp

theorem dispatched_request_parses_witness:
  "\<exists>raw task. rd_list (snd (publish_and_enqueue demo_denv demo_dargs demo_dview demo_source)) (agent_inbox_key demo_config ''seat'') = [raw] \<and>
     from_json False raw = Inr (request_envelope demo_denv demo_dargs task)"
proof -
  have e: "de_config demo_denv = demo_config" "da_target demo_dargs = ''seat''"
      "rd_list (purge (fst (dv_push demo_dview)) (snd (dv_push demo_dview))) (agent_inbox_key demo_config ''seat'') = []"
    by (simp_all add: demo_denv_def demo_dargs_def demo_dview_def demo_server_def purge_def live_def empty_redis_def)
  obtain res r' where p: "publish_and_enqueue demo_denv demo_dargs demo_dview demo_source = (Inr res, r')" using demo_dispatched by blast
  have "nonblank (dr_artefact_id res) \<and> 1 \<le> dr_version res"
    using p
  proof (cases rule: publish_and_enqueue_cases)
    case (planned brief art version wire res')
    then have "art = ''a'' \<and> version = 1" by (auto simp: plan_ok_def brief_cleared_def demo_source_def)
    with planned show ?thesis by (simp add: nonblank_iff py_isspace_def)
  qed simp
  moreover have "nonblank t" if "de_check_brief demo_denv t v = []" for t v using that by (simp add: demo_denv_def split: if_splits)
  ultimately have "\<exists>raw task. rd_list r' (agent_inbox_key (de_config demo_denv) (da_target demo_dargs)) =
      rd_list (purge (fst (dv_push demo_dview)) (snd (dv_push demo_dview))) (agent_inbox_key (de_config demo_denv) (da_target demo_dargs)) @ [raw] \<and>
    from_json False raw = Inr (request_envelope demo_denv demo_dargs task)"
    by (intro dispatched_request_parses [OF p _ demo_ready]) (simp_all add: demo_dargs_def)
  then show ?thesis unfolding e p snd_conv append_Nil .
qed

end
