(* ===== verification/Claim_Gate.thy ===== *)
theory Claim_Gate
  imports Envelope
begin

text \<open>
  The admission decision for requests (\<open>src/src/agent_redis_bridge/claim_gate.py\<close>). The gate asks a resolver
  for the seat's posture, the lane of a worktree lease and the facts of a claim; each answer may be
  \<open>StoreUnreachable\<close>. A resolver keeps state of its own (a connection), which the decision threads
  through its calls. \<open>gate_authority\<close> states what a resolver promises about the tables it reads and
  derives what an admission rests on. The em dash of two messages lies outside the characters modelled
  and stands as character 0x97.
\<close>

section \<open>Outcomes and audit\<close>

definition MISSING_CLAIM_REF :: string where "MISSING_CLAIM_REF = ''missing_claim_ref''"
definition UNCONFIRMED_CLAIM :: string where "UNCONFIRMED_CLAIM = ''unconfirmed_claim''"
definition UNATTESTED_CLAIM :: string where "UNATTESTED_CLAIM = ''unattested_claim''"
definition UNKNOWN_CLAIM_REF :: string where "UNKNOWN_CLAIM_REF = ''unknown_claim_ref''"
definition LANE_NOT_ARMED_EXEMPT :: string where "LANE_NOT_ARMED_EXEMPT = ''lane_not_armed_exempt''"
definition STORE_UNREACHABLE :: string where "STORE_UNREACHABLE = ''store_unreachable''"

definition GATE_EXIT_CODE :: int where "GATE_EXIT_CODE = 5"

record gate_outcome =
  go_code :: string
  go_gaps :: "string list"
  go_exit_code :: int

definition refusal :: "string \<Rightarrow> string list \<Rightarrow> gate_outcome" where
  "refusal code gaps = \<lparr>go_code = code, go_gaps = gaps, go_exit_code = GATE_EXIT_CODE\<rparr>"

definition outcome_as_dict :: "gate_outcome \<Rightarrow> dict" where
  "outcome_as_dict o' = [(''outcome'', JStr (go_code o')), (''exit_code'', JInt (go_exit_code o')), (''gaps'', JArr (map JStr (go_gaps o')))]"

definition outcome_as_error :: "gate_outcome \<Rightarrow> string" where
  "outcome_as_error o' = (if go_gaps o' = [] then go_code o' else go_code o' @ '': '' @ join ''; '' (go_gaps o'))"

record claim_facts =
  cf_confirmed_now :: bool
  cf_attested :: bool
  cf_provenance :: string

record gate_audit =
  au_brief_ref :: "(json \<times> json) option"
  au_posture_required :: "bool option"
  au_lease_id :: "string option"
  au_resolved_lane :: "string option"
  au_claim_ref :: "string option"
  au_claim_facts :: "claim_facts option"
  au_decision :: string

record gate_evaluation =
  ge_outcome :: "gate_outcome option"
  ge_audit :: gate_audit

definition store_unreachable :: "string \<Rightarrow> string \<Rightarrow> gate_outcome" where
  "store_unreachable what exc = refusal STORE_UNREACHABLE [what @ '': '' @ exc, ''operator action: the authority is unavailable'']"

definition brief_ref_from_payload :: "dict \<Rightarrow> (json \<times> json) option" where
  "brief_ref_from_payload p =
    (case dget p ''task'' of
       JObj t \<Rightarrow> (if dhas t ''artefact_id'' then Some (dget t ''artefact_id'', dget t ''version'') else None)
     | _ \<Rightarrow> None)"

section \<open>The decision\<close>

record 's claim_resolver =
  rs_posture :: "string \<Rightarrow> 's \<Rightarrow> (string, bool) res \<times> 's"
  rs_lane :: "string \<Rightarrow> 's \<Rightarrow> (string, string option) res \<times> 's"
  rs_claim :: "string \<Rightarrow> 's \<Rightarrow> (string, claim_facts option) res \<times> 's"

definition audit_start :: "dict \<Rightarrow> gate_audit" where
  "audit_start p = \<lparr>au_brief_ref = brief_ref_from_payload p, au_posture_required = None, au_lease_id = None, au_resolved_lane = None,
     au_claim_ref = None, au_claim_facts = None, au_decision = STORE_UNREACHABLE\<rparr>"

definition admit :: "gate_audit \<Rightarrow> gate_evaluation" where
  "admit a = \<lparr>ge_outcome = None, ge_audit = a\<lparr>au_decision := ''admit''\<rparr>\<rparr>"

definition refuse :: "gate_outcome \<Rightarrow> gate_audit \<Rightarrow> gate_evaluation" where
  "refuse o' a = \<lparr>ge_outcome = Some o', ge_audit = a\<lparr>au_decision := go_code o'\<rparr>\<rparr>"

definition probe_route :: string where
  "probe_route = ''legitimate lane: exempt '' @ [CHR 0x97] @ '' build the probe first, then dispatch the remediation''"

text \<open>The last part: the request is gated traffic and needs an admissible claim.\<close>

definition decide_claim :: "'s claim_resolver \<Rightarrow> string \<Rightarrow> dict \<Rightarrow> gate_audit \<Rightarrow> 's \<Rightarrow> gate_evaluation \<times> 's" where
  "decide_claim rs seat p a s =
    (if \<not> nonblank_str (dget p ''claim_ref'')
     then (refuse (refusal MISSING_CLAIM_REF [''seat '' @ seat @ '' requires a claim_ref; none present on payload'', probe_route]) a, s)
     else
       (let ref = str_of (dget p ''claim_ref''); a1 = a\<lparr>au_claim_ref := Some ref\<rparr> in
        case rs_claim rs ref s of
          (Inl e, s1) \<Rightarrow> (refuse (store_unreachable (''claim '' @ ref @ '' unavailable'') e) a1, s1)
        | (Inr found, s1) \<Rightarrow>
           (let a2 = a1\<lparr>au_claim_facts := found\<rparr> in
            (case found of
               None \<Rightarrow> refuse (refusal UNKNOWN_CLAIM_REF [''claim_ref '' @ repr_str ref @ '' does not resolve'',
                                ''check for a typo or a stale reference'']) a2
             | Some f \<Rightarrow>
                (if \<not> cf_confirmed_now f
                 then refuse (refusal UNCONFIRMED_CLAIM [''claim '' @ ref @ '' is not admissible as of now'', probe_route]) a2
                 else if \<not> cf_attested f
                 then refuse (refusal UNATTESTED_CLAIM
                        [''claim '' @ ref @ '' is confirmed but carries no complete cross-family attestation'',
                         ''next action: verification '' @ [CHR 0x97] @ '' this claim already has its probe'']) a2
                 else admit a2), s1))))"

definition decide_lane :: "'s claim_resolver \<Rightarrow> string \<Rightarrow> dict \<Rightarrow> gate_audit \<Rightarrow> 's \<Rightarrow> gate_evaluation \<times> 's" where
  "decide_lane rs seat p a s =
    (let (a1, r, s1) = (if nonempty_str (dget p ''worktree_lease'')
                        then (let lease = str_of (dget p ''worktree_lease''); (x, s1) = rs_lane rs lease s
                              in (a\<lparr>au_lease_id := Some lease\<rparr>, x, s1))
                        else (a, Inr None, s))
     in case r of
          Inl e \<Rightarrow> (refuse (store_unreachable (''lane unavailable for lease '' @ str_of (dget p ''worktree_lease'')) e) a1, s1)
        | Inr lane \<Rightarrow>
           (let a2 = a1\<lparr>au_resolved_lane := lane\<rparr> in
            if lane = Some ''exempt'' then (admit a2, s1)
            else if dget p ''lane'' = JStr ''exempt''
            then (refuse (refusal LANE_NOT_ARMED_EXEMPT
                    [''envelope presents as exempt but the store records lane='' @ (case lane of None \<Rightarrow> ''None'' | Some l \<Rightarrow> repr_str l) @
                       '' for lease '' @ py_repr (dget p ''worktree_lease''),
                     ''lanes are armed by the consumer at arm time, not asserted by the dispatcher'']) a2, s1)
            else decide_claim rs seat p a2 s1))"

definition evaluate :: "'s claim_resolver \<Rightarrow> string \<Rightarrow> envelope \<Rightarrow> 's \<Rightarrow> gate_evaluation \<times> 's" where
  "evaluate rs seat e s =
    (let p = e_payload e; a = audit_start p in
     case rs_posture rs seat s of
       (Inl exc, s1) \<Rightarrow> (refuse (store_unreachable (''posture unavailable for seat '' @ seat) exc) a, s1)
     | (Inr required, s1) \<Rightarrow>
        (let a1 = a\<lparr>au_posture_required := Some required\<rparr> in
         if \<not> required then (admit a1, s1) else decide_lane rs seat p a1 s1))"

section \<open>The decision as a table\<close>

text \<open>The decision as a function of what the tables hold, for requests whose questions are all answered.\<close>

definition gate_spec :: "(string \<Rightarrow> bool option) \<Rightarrow> (string \<Rightarrow> string option) \<Rightarrow> (string \<Rightarrow> claim_facts option) \<Rightarrow> string \<Rightarrow> dict \<Rightarrow> string" where
  "gate_spec posture_tab lane_tab claim_tab seat p =
    (if posture_tab seat = Some False then ''admit''
     else if nonempty_str (dget p ''worktree_lease'') \<and> lane_tab (str_of (dget p ''worktree_lease'')) = Some ''exempt'' then ''admit''
     else if dget p ''lane'' = JStr ''exempt'' then LANE_NOT_ARMED_EXEMPT
     else if \<not> nonblank_str (dget p ''claim_ref'') then MISSING_CLAIM_REF
     else (case claim_tab (str_of (dget p ''claim_ref'')) of
             None \<Rightarrow> UNKNOWN_CLAIM_REF
           | Some f \<Rightarrow> (if \<not> cf_confirmed_now f then UNCONFIRMED_CLAIM
                       else if \<not> cf_attested f then UNATTESTED_CLAIM else ''admit'')))"

section \<open>Lemmas\<close>

lemmas gate_codes = MISSING_CLAIM_REF_def UNCONFIRMED_CLAIM_def UNATTESTED_CLAIM_def UNKNOWN_CLAIM_REF_def LANE_NOT_ARMED_EXEMPT_def
  STORE_UNREACHABLE_def

lemma refuse_simps [simp]: "ge_outcome (refuse o' a) = Some o'" "au_decision (ge_audit (refuse o' a)) = go_code o'"
  "ge_outcome (admit a) = None" "au_decision (ge_audit (admit a)) = ''admit''" "go_code (refusal c g) = c"
  "go_code (store_unreachable w x) = STORE_UNREACHABLE"
  by (simp_all add: refuse_def admit_def refusal_def store_unreachable_def)

lemma decide_claim_admits:
  "ge_outcome (fst (decide_claim rs seat p a s)) = None \<longleftrightarrow>
     nonblank_str (dget p ''claim_ref'') \<and>
     (\<exists>f. fst (rs_claim rs (str_of (dget p ''claim_ref'')) s) = Inr (Some f) \<and> cf_confirmed_now f \<and> cf_attested f)"
  by (auto simp: decide_claim_def Let_def split: prod.splits sum.splits option.splits)

text \<open>The lane a request resolves to, and the resolver's state afterwards.\<close>

definition lane_of :: "'s claim_resolver \<Rightarrow> dict \<Rightarrow> 's \<Rightarrow> (string, string option) res \<times> 's" where
  "lane_of rs p s = (if nonempty_str (dget p ''worktree_lease'') then rs_lane rs (str_of (dget p ''worktree_lease'')) s else (Inr None, s))"

lemma decide_lane_admits:
  "ge_outcome (fst (decide_lane rs seat p a s)) = None \<longleftrightarrow>
     (\<exists>lane s1. lane_of rs p s = (Inr lane, s1) \<and>
        (lane = Some ''exempt'' \<or> dget p ''lane'' \<noteq> JStr ''exempt'' \<and> ge_outcome (fst (decide_claim rs seat p a s1)) = None))"
  by (auto simp: decide_lane_def lane_of_def Let_def decide_claim_admits split: prod.splits sum.splits)

lemma evaluate_admits:
  "ge_outcome (fst (evaluate rs seat e s)) = None \<longleftrightarrow>
     (\<exists>b s1. rs_posture rs seat s = (Inr b, s1) \<and>
        (b \<longrightarrow> (\<exists>lane s2. lane_of rs (e_payload e) s1 = (Inr lane, s2) \<and>
           (lane = Some ''exempt'' \<or> dget (e_payload e) ''lane'' \<noteq> JStr ''exempt'' \<and>
              nonblank_str (dget (e_payload e) ''claim_ref'') \<and>
              (\<exists>f. fst (rs_claim rs (str_of (dget (e_payload e) ''claim_ref'')) s2) = Inr (Some f) \<and> cf_confirmed_now f \<and> cf_attested f)))))"
  by (auto simp: evaluate_def Let_def decide_lane_admits decide_claim_admits split: prod.splits sum.splits)

lemma decide_claim_decision:
  "fst (decide_claim rs seat p a s) = ev \<Longrightarrow>
   au_decision (ge_audit ev) = (case ge_outcome ev of None \<Rightarrow> ''admit'' | Some o' \<Rightarrow> go_code o')"
  by (auto simp: decide_claim_def Let_def split: prod.splits sum.splits option.splits)

lemma decide_lane_decision:
  "fst (decide_lane rs seat p a s) = ev \<Longrightarrow>
   au_decision (ge_audit ev) = (case ge_outcome ev of None \<Rightarrow> ''admit'' | Some o' \<Rightarrow> go_code o')"
  by (auto simp: decide_lane_def Let_def decide_claim_decision split: prod.splits sum.splits)

lemma evaluate_decision:
  "au_decision (ge_audit (fst (evaluate rs seat e s)))
     = (case ge_outcome (fst (evaluate rs seat e s)) of None \<Rightarrow> ''admit'' | Some o' \<Rightarrow> go_code o')"
  by (auto simp: evaluate_def Let_def decide_lane_decision split: prod.splits sum.splits)

section \<open>What a resolver promises\<close>

text \<open>
  The contract the gate relies on: an answer, when there is one, is what the tables hold, and a seat
  without a row needs a claim. Nothing is assumed about when the store answers.
\<close>

locale gate_authority =
  fixes rs :: "'s claim_resolver"
    and posture_tab :: "string \<Rightarrow> bool option" and lane_tab :: "string \<Rightarrow> string option" and claim_tab :: "string \<Rightarrow> claim_facts option"
  assumes posture_law: "rs_posture rs seat s = (Inr b, s') \<Longrightarrow> b = (case posture_tab seat of None \<Rightarrow> True | Some x \<Rightarrow> x)"
    and lane_law: "rs_lane rs lease s = (Inr l, s') \<Longrightarrow> l = lane_tab lease"
    and claim_law: "rs_claim rs ref s = (Inr c, s') \<Longrightarrow> c = claim_tab ref"
begin

lemma lane_of_tab: "lane_of rs p s = (Inr lane, s') \<Longrightarrow>
    lane = (if nonempty_str (dget p ''worktree_lease'') then lane_tab (str_of (dget p ''worktree_lease'')) else None)"
  by (auto simp: lane_of_def dest: lane_law split: if_splits)

lemma admission_rests_on_tables:
  assumes "ge_outcome (fst (evaluate rs seat e s)) = None"
  shows "gate_spec posture_tab lane_tab claim_tab seat (e_payload e) = ''admit''"
proof -
  from assms obtain b s1 where b: "rs_posture rs seat s = (Inr b, s1)"
    and rest: "b \<longrightarrow> (\<exists>lane s2. lane_of rs (e_payload e) s1 = (Inr lane, s2) \<and>
      (lane = Some ''exempt'' \<or> dget (e_payload e) ''lane'' \<noteq> JStr ''exempt'' \<and> nonblank_str (dget (e_payload e) ''claim_ref'') \<and>
        (\<exists>f. fst (rs_claim rs (str_of (dget (e_payload e) ''claim_ref'')) s2) = Inr (Some f) \<and> cf_confirmed_now f \<and> cf_attested f)))"
    unfolding evaluate_admits by blast
  show ?thesis
  proof (cases b)
    case False
    with posture_law [OF b] show ?thesis by (auto simp: gate_spec_def split: option.splits)
  next
    case True
    with rest obtain lane s2 where lane: "lane_of rs (e_payload e) s1 = (Inr lane, s2)"
      and adm: "lane = Some ''exempt'' \<or> dget (e_payload e) ''lane'' \<noteq> JStr ''exempt'' \<and> nonblank_str (dget (e_payload e) ''claim_ref'') \<and>
        (\<exists>f. fst (rs_claim rs (str_of (dget (e_payload e) ''claim_ref'')) s2) = Inr (Some f) \<and> cf_confirmed_now f \<and> cf_attested f)"
      by blast
    from adm show ?thesis
    proof
      assume "lane = Some ''exempt''"
      with lane_of_tab [OF lane] show ?thesis by (auto simp: gate_spec_def split: if_splits)
    next
      assume claim: "dget (e_payload e) ''lane'' \<noteq> JStr ''exempt'' \<and> nonblank_str (dget (e_payload e) ''claim_ref'') \<and>
        (\<exists>f. fst (rs_claim rs (str_of (dget (e_payload e) ''claim_ref'')) s2) = Inr (Some f) \<and> cf_confirmed_now f \<and> cf_attested f)"
      then obtain f where "claim_tab (str_of (dget (e_payload e) ''claim_ref'')) = Some f" "cf_confirmed_now f" "cf_attested f"
        using claim_law by (metis prod.collapse)
      with claim show ?thesis by (simp add: gate_spec_def)
    qed
  qed
qed

end

text \<open>A resolver whose store answers every question: then the decision is the table's, code for code.\<close>

locale gate_authority_up = gate_authority +
  assumes posture_up: "\<exists>b s'. rs_posture rs seat s = (Inr b, s')"
    and lane_up: "\<exists>l s'. rs_lane rs lease s = (Inr l, s')"
    and claim_up: "\<exists>c s'. rs_claim rs ref s = (Inr c, s')"
begin

lemma decide_claim_spec:
  "au_decision (ge_audit (fst (decide_claim rs seat p a s))) =
     (if \<not> nonblank_str (dget p ''claim_ref'') then MISSING_CLAIM_REF
      else (case claim_tab (str_of (dget p ''claim_ref'')) of
              None \<Rightarrow> UNKNOWN_CLAIM_REF
            | Some f \<Rightarrow> (if \<not> cf_confirmed_now f then UNCONFIRMED_CLAIM
                        else if \<not> cf_attested f then UNATTESTED_CLAIM else ''admit'')))"
proof -
  obtain c s' where c: "rs_claim rs (str_of (dget p ''claim_ref'')) s = (Inr c, s')" using claim_up by blast
  with claim_law [OF c] show ?thesis by (auto simp: decide_claim_def Let_def split: option.splits)
qed

lemma decision_is_the_table:
  "au_decision (ge_audit (fst (evaluate rs seat e s))) = gate_spec posture_tab lane_tab claim_tab seat (e_payload e)"
proof -
  let ?p = "e_payload e" and ?lease = "str_of (dget (e_payload e) ''worktree_lease'')"
  obtain b s1 where b: "rs_posture rs seat s = (Inr b, s1)" using posture_up by blast
  have bt: "b = (posture_tab seat \<noteq> Some False)" using posture_law [OF b] by (auto split: option.splits)
  obtain l s2 where l: "rs_lane rs ?lease s1 = (Inr l, s2)" using lane_up by blast
  have lt: "l = lane_tab ?lease" by (rule lane_law [OF l])
  show ?thesis using b bt l lt
    by (auto simp: evaluate_def decide_lane_def gate_spec_def Let_def decide_claim_spec)
qed

end

end
