(* ===== verification/Claim_Resolver.thy ===== *)
theory Claim_Resolver
  imports Claim_Gate
begin

text \<open>
  The PostgreSQL resolver of the gate (\<open>src/src/agent_redis_bridge/claim_resolver.py\<close>): one connection that is
  discarded on any failure, row projections that refuse a row outside the published contract, and the
  readiness check of the reader's privileges. The server is a record of answers: whether connecting
  works, the rows of the three views, the connected role and its privileges. \<open>conn\<close> is whether
  a live connection is held. A \<open>repr\<close> of a column value in a message is left out.
\<close>

section \<open>Privilege coverage\<close>

definition GATE_RELATIONS :: "string list" where
  "GATE_RELATIONS = [''claims'', ''attestations'', ''seat_posture'', ''lease_lanes'', ''claim_admissibility_v'', ''seat_posture_v'', ''lease_lane_v'']"

definition GATE_VIEWS :: "string list" where
  "GATE_VIEWS = filter (\<lambda>r. py_endswith r ''_v'') GATE_RELATIONS"

definition BASE_TABLES :: "string list" where
  "BASE_TABLES = filter (\<lambda>r. \<not> py_endswith r ''_v'') GATE_RELATIONS"

definition PG_TABLE_PRIVILEGES :: "string list" where
  "PG_TABLE_PRIVILEGES = [''SELECT'', ''INSERT'', ''UPDATE'', ''DELETE'', ''TRUNCATE'', ''REFERENCES'', ''TRIGGER'', ''MAINTAIN'']"

definition PG_COLUMN_PRIVILEGES :: "string list" where
  "PG_COLUMN_PRIVILEGES = [''SELECT'', ''INSERT'', ''UPDATE'', ''REFERENCES'']"

definition RELATION_KINDS :: "string list" where
  "RELATION_KINDS = [''view'', ''base_table'']"

definition exempt_select :: string where
  "exempt_select = ''exempt-because-select-alone-is-not-a-mint-or-escalation-path''"

definition KNOWN_TAGS :: "string list" where
  "KNOWN_TAGS = [''probed-by-view-select-required'', ''probed-by-view-relation'', ''probed-by-view-relation+column'',
     ''probed-by-base-relation'', ''probed-by-base-relation+column'', exempt_select]"

definition EXEMPT_COVERAGE_PAIRS :: "(string \<times> string) list" where
  "EXEMPT_COVERAGE_PAIRS = [(''base_table'', ''SELECT'')]"

type_synonym coverage = "((string \<times> string) \<times> string) list"

definition PRIVILEGE_COVERAGE :: coverage where
  "PRIVILEGE_COVERAGE =
    [((''view'', ''SELECT''), ''probed-by-view-select-required''),
     ((''view'', ''INSERT''), ''probed-by-view-relation+column''),
     ((''view'', ''UPDATE''), ''probed-by-view-relation+column''),
     ((''view'', ''DELETE''), ''probed-by-view-relation''),
     ((''view'', ''TRUNCATE''), ''probed-by-view-relation''),
     ((''view'', ''REFERENCES''), ''probed-by-view-relation+column''),
     ((''view'', ''TRIGGER''), ''probed-by-view-relation''),
     ((''view'', ''MAINTAIN''), ''probed-by-view-relation''),
     ((''base_table'', ''SELECT''), exempt_select),
     ((''base_table'', ''INSERT''), ''probed-by-base-relation+column''),
     ((''base_table'', ''UPDATE''), ''probed-by-base-relation+column''),
     ((''base_table'', ''DELETE''), ''probed-by-base-relation''),
     ((''base_table'', ''TRUNCATE''), ''probed-by-base-relation''),
     ((''base_table'', ''REFERENCES''), ''probed-by-base-relation+column''),
     ((''base_table'', ''TRIGGER''), ''probed-by-base-relation''),
     ((''base_table'', ''MAINTAIN''), ''probed-by-base-relation'')]"

fun has_infix :: "string \<Rightarrow> string \<Rightarrow> bool" where
  "has_infix p [] \<longleftrightarrow> p = []"
| "has_infix p (c # cs) \<longleftrightarrow> py_startswith (c # cs) p \<or> has_infix p cs"

text \<open>The check of one entry, and of the map; an error is the start of the message.\<close>

definition tag_error :: "string \<Rightarrow> string \<Rightarrow> string option" where
  "tag_error priv tag =
    (if py_startswith tag ''exempt-because-'' then None
     else if \<not> py_startswith tag ''probed-by-'' then Some ''neither probed nor exempt''
     else if priv = ''SELECT'' then (if tag \<noteq> ''probed-by-view-select-required'' then Some ''SELECT coverage'' else None)
     else if priv \<in> set PG_COLUMN_PRIVILEGES
     then (if \<not> has_infix ''relation'' tag \<or> \<not> has_infix ''column'' tag then Some ''must claim relation+column'' else None)
     else if has_infix ''column'' tag then Some ''must not claim column''
     else if \<not> has_infix ''relation'' tag then Some ''must claim relation channel''
     else None)"

definition validate_privilege_coverage :: "coverage \<Rightarrow> (string, unit) res" where
  "validate_privilege_coverage cov =
    (if set (map fst cov) \<noteq> set (List.product RELATION_KINDS PG_TABLE_PRIVILEGES)
     then Inl ''PRIVILEGE_COVERAGE must be the full cartesian product''
     else if \<not> list_all (\<lambda>(pair, tag). tag \<in> set KNOWN_TAGS) cov then Inl ''PRIVILEGE_COVERAGE has tags outside KNOWN_TAGS''
     else if set (map fst (filter (\<lambda>(pair, tag). py_startswith tag ''exempt-because-'') cov)) \<noteq> set EXEMPT_COVERAGE_PAIRS
     then Inl ''exempt pairs must equal EXEMPT_COVERAGE_PAIRS literal''
     else (case List.find (\<lambda>((kind, priv), tag). tag_error priv tag \<noteq> None) cov of
             None \<Rightarrow> Inr ()
           | Some ((kind, priv), tag) \<Rightarrow> Inl (case tag_error priv tag of Some e \<Rightarrow> e | None \<Rightarrow> [])))"

definition privs_probed_via :: "string \<Rightarrow> string \<Rightarrow> string list" where
  "privs_probed_via kind channel =
     filter (\<lambda>priv.
       (case map_of PRIVILEGE_COVERAGE (kind, priv) of
          None \<Rightarrow> False
        | Some tag \<Rightarrow> py_startswith tag ''probed-by-'' \<and>
            (if channel = ''select-required'' \<and> py_endswith tag ''select-required'' then True
             else channel \<in> {''relation'', ''column''} \<and> has_infix channel tag))) PG_TABLE_PRIVILEGES"

definition VIEW_SELECT_REQUIRED :: "string list" where "VIEW_SELECT_REQUIRED = privs_probed_via ''view'' ''select-required''"
definition VIEW_RELATION_NON_SELECT :: "string list" where "VIEW_RELATION_NON_SELECT = privs_probed_via ''view'' ''relation''"
definition VIEW_COLUMN_NON_SELECT :: "string list" where "VIEW_COLUMN_NON_SELECT = privs_probed_via ''view'' ''column''"
definition BASE_TABLE_WRITES :: "string list" where "BASE_TABLE_WRITES = privs_probed_via ''base_table'' ''relation''"
definition BASE_TABLE_COLUMN_WRITES :: "string list" where "BASE_TABLE_COLUMN_WRITES = privs_probed_via ''base_table'' ''column''"

section \<open>The server and the connection\<close>

text \<open>An \<open>Inl\<close> answer is a \<open>psycopg.Error\<close> with its text. Relations are named as \<open>relname\<close> quotes them.\<close>

record gate_db =
  gd_connect :: "(string, unit) res"
  gd_row :: "string \<Rightarrow> string \<Rightarrow> string \<Rightarrow> (string, dict option) res"     \<comment> \<open>schema, view, key\<close>
  gd_current_user :: "(string, string) res"
  gd_select :: "string \<Rightarrow> string \<Rightarrow> (string, unit) res"                      \<comment> \<open>schema, view: the \<open>LIMIT 0\<close> probe\<close>
  gd_table_priv :: "string \<Rightarrow> string \<Rightarrow> (string, bool) res"                \<comment> \<open>quoted relation, privilege\<close>
  gd_column_priv :: "string \<Rightarrow> string \<Rightarrow> (string, bool) res"

type_synonym conn = bool

definition open_conn :: "gate_db \<Rightarrow> conn \<Rightarrow> (string, unit) res" where
  "open_conn db c = (if c then Inr () else gd_connect db)"

definition read_row :: "gate_db \<Rightarrow> string \<Rightarrow> string \<Rightarrow> string \<Rightarrow> (dict \<Rightarrow> (string, 'a) res) \<Rightarrow> conn \<Rightarrow> (string, 'a option) res \<times> conn" where
  "read_row db schema view key project c =
    (case open_conn db c of
       Inl e \<Rightarrow> (Inl e, False)
     | Inr _ \<Rightarrow>
        (case gd_row db schema view key of
           Inl e \<Rightarrow> (Inl e, False)
         | Inr None \<Rightarrow> (Inr None, True)
         | Inr (Some row) \<Rightarrow>
            (case project row of
               Inl e \<Rightarrow> (Inl (''authority row violates its published contract: '' @ e), False)
             | Inr v \<Rightarrow> (Inr (Some v), True))))"

definition validated_posture :: "dict \<Rightarrow> (string, bool) res" where
  "validated_posture row =
    (if \<not> dhas row ''requires_claim_ref'' then Inl ''requires_claim_ref''
     else (case dget row ''requires_claim_ref'' of JBool b \<Rightarrow> Inr b | _ \<Rightarrow> Inl ''requires_claim_ref must be bool''))"

definition validated_lane :: "dict \<Rightarrow> (string, string) res" where
  "validated_lane row =
    (if \<not> dhas row ''lane'' then Inl ''lane''
     else (case dget row ''lane'' of
             JStr l \<Rightarrow> (if l \<in> {''gated'', ''exempt''} then Inr l else Inl ''lane must be gated|exempt'')
           | _ \<Rightarrow> Inl ''lane must be gated|exempt''))"

definition validated_claim_facts :: "dict \<Rightarrow> (string, claim_facts) res" where
  "validated_claim_facts row =
    (case List.find (\<lambda>k. \<not> dhas row k) [''confirmed_now'', ''attested'', ''decorrelation_provenance''] of
       Some k \<Rightarrow> Inl k
     | None \<Rightarrow>
        (case dget row ''confirmed_now'' of
           JBool c \<Rightarrow>
             (case dget row ''attested'' of
                JBool a \<Rightarrow>
                  (case dget row ''decorrelation_provenance'' of
                     JStr p \<Rightarrow>
                       (if p \<in> {''none'', ''degraded'', ''wire''} then Inr \<lparr>cf_confirmed_now = c, cf_attested = a, cf_provenance = p\<rparr>
                        else Inl ''decorrelation_provenance must be none|degraded|wire'')
                   | _ \<Rightarrow> Inl ''decorrelation_provenance must be none|degraded|wire'')
              | _ \<Rightarrow> Inl ''attested must be bool'')
         | _ \<Rightarrow> Inl ''confirmed_now must be bool''))"

definition seat_requires_claim_ref :: "gate_db \<Rightarrow> string \<Rightarrow> string \<Rightarrow> conn \<Rightarrow> (string, bool) res \<times> conn" where
  "seat_requires_claim_ref db schema seat c =
    (case read_row db schema ''seat_posture_v'' seat validated_posture c of
       (Inl e, c') \<Rightarrow> (Inl e, c')
     | (Inr None, c') \<Rightarrow> (Inr True, c')
     | (Inr (Some b), c') \<Rightarrow> (Inr b, c'))"

definition lease_lane :: "gate_db \<Rightarrow> string \<Rightarrow> string \<Rightarrow> conn \<Rightarrow> (string, string option) res \<times> conn" where
  "lease_lane db schema lease c = read_row db schema ''lease_lane_v'' lease validated_lane c"

definition resolve_claim :: "gate_db \<Rightarrow> string \<Rightarrow> string \<Rightarrow> conn \<Rightarrow> (string, claim_facts option) res \<times> conn" where
  "resolve_claim db schema ref c = read_row db schema ''claim_admissibility_v'' ref validated_claim_facts c"

definition psycopg_resolver :: "gate_db \<Rightarrow> string \<Rightarrow> conn claim_resolver" where
  "psycopg_resolver db schema = \<lparr>rs_posture = seat_requires_claim_ref db schema, rs_lane = lease_lane db schema, rs_claim = resolve_claim db schema\<rparr>"

definition close :: "conn \<Rightarrow> conn" where
  "close c = False"

section \<open>Readiness\<close>

definition quote_ident :: "string \<Rightarrow> string" where
  "quote_ident ident = CHR 0x22 # concat (map (\<lambda>c. if c = CHR 0x22 then [CHR 0x22, CHR 0x22] else [c]) ident) @ [CHR 0x22]"

definition relname :: "string \<Rightarrow> string \<Rightarrow> string" where
  "relname schema name = quote_ident schema @ ''.'' @ quote_ident name"

text \<open>A loop of probes that stops at the first one whose flag is not the wanted one.\<close>

fun probe_all :: "(string \<Rightarrow> (string, bool) res) \<Rightarrow> bool \<Rightarrow> (string \<Rightarrow> string) \<Rightarrow> string list \<Rightarrow> (string, unit) res" where
  "probe_all q want msg [] = Inr ()"
| "probe_all q want msg (p # ps) = bind_r (q p) (\<lambda>flag. if flag \<noteq> want then Inl (msg p) else probe_all q want msg ps)"

fun each_r :: "('a \<Rightarrow> ('e, unit) res) \<Rightarrow> 'a list \<Rightarrow> ('e, unit) res" where
  "each_r f [] = Inr ()"
| "each_r f (x # xs) = bind_r (f x) (\<lambda>_. each_r f xs)"

definition view_ready :: "gate_db \<Rightarrow> string \<Rightarrow> string \<Rightarrow> (string, unit) res" where
  "view_ready db schema view =
    (let rel = relname schema view in
     bind_r (probe_all (gd_table_priv db rel) True (\<lambda>p. ''missing '' @ p @ '' privilege on view '' @ view) VIEW_SELECT_REQUIRED) (\<lambda>_.
     bind_r (gd_select db schema view) (\<lambda>_.
     bind_r (probe_all (gd_table_priv db rel) False (\<lambda>p. ''non-SELECT privilege '' @ p @ '' on view '' @ view) VIEW_RELATION_NON_SELECT) (\<lambda>_.
     probe_all (gd_column_priv db rel) False (\<lambda>p. ''non-SELECT column privilege '' @ p @ '' on view '' @ view) VIEW_COLUMN_NON_SELECT))))"

definition table_ready :: "gate_db \<Rightarrow> string \<Rightarrow> string \<Rightarrow> (string, unit) res" where
  "table_ready db schema table =
    (let rel = relname schema table in
     bind_r (probe_all (gd_table_priv db rel) False (\<lambda>p. ''write privilege '' @ p @ '' on base table '' @ table) BASE_TABLE_WRITES) (\<lambda>_.
     probe_all (gd_column_priv db rel) False (\<lambda>p. ''write column privilege '' @ p @ '' on base table '' @ table) BASE_TABLE_COLUMN_WRITES))"

definition assert_ready :: "gate_db \<Rightarrow> string \<Rightarrow> string \<Rightarrow> conn \<Rightarrow> (string, unit) res \<times> conn" where
  "assert_ready db schema expected_role c =
    (let r = bind_r (open_conn db c) (\<lambda>_.
             bind_r (gd_current_user db) (\<lambda>current.
             bind_r (guard_r (current = expected_role)
                      (''expected role '' @ repr_str expected_role @ '', current_user='' @ repr_str current)) (\<lambda>_.
             bind_r (each_r (view_ready db schema) GATE_VIEWS) (\<lambda>_.
             each_r (table_ready db schema) BASE_TABLES))))
     in (r, case r of Inl _ \<Rightarrow> False | Inr _ \<Rightarrow> True))"

section \<open>The tables behind the resolver\<close>

definition row_of :: "gate_db \<Rightarrow> string \<Rightarrow> string \<Rightarrow> string \<Rightarrow> dict option" where
  "row_of db schema view key = (case gd_row db schema view key of Inr r \<Rightarrow> r | Inl _ \<Rightarrow> None)"

definition projected :: "(dict \<Rightarrow> (string, 'a) res) \<Rightarrow> dict option \<Rightarrow> 'a option" where
  "projected f r = (case r of None \<Rightarrow> None | Some row \<Rightarrow> (case f row of Inl _ \<Rightarrow> None | Inr v \<Rightarrow> Some v))"

definition posture_tab :: "gate_db \<Rightarrow> string \<Rightarrow> string \<Rightarrow> bool option" where
  "posture_tab db schema seat = projected validated_posture (row_of db schema ''seat_posture_v'' seat)"

definition lane_tab :: "gate_db \<Rightarrow> string \<Rightarrow> string \<Rightarrow> string option" where
  "lane_tab db schema lease = projected validated_lane (row_of db schema ''lease_lane_v'' lease)"

definition claim_tab :: "gate_db \<Rightarrow> string \<Rightarrow> string \<Rightarrow> claim_facts option" where
  "claim_tab db schema ref = projected validated_claim_facts (row_of db schema ''claim_admissibility_v'' ref)"

text \<open>A server that answers, with every row inside the published contract.\<close>

definition rows_valid :: "gate_db \<Rightarrow> string \<Rightarrow> string \<Rightarrow> (dict \<Rightarrow> (string, 'a) res) \<Rightarrow> bool" where
  "rows_valid db schema view f \<longleftrightarrow>
     (\<forall>key. case gd_row db schema view key of Inl _ \<Rightarrow> False | Inr None \<Rightarrow> True | Inr (Some row) \<Rightarrow> (\<exists>v. f row = Inr v))"

definition db_up :: "gate_db \<Rightarrow> string \<Rightarrow> bool" where
  "db_up db schema \<longleftrightarrow> gd_connect db = Inr () \<and> rows_valid db schema ''seat_posture_v'' validated_posture \<and>
     rows_valid db schema ''lease_lane_v'' validated_lane \<and> rows_valid db schema ''claim_admissibility_v'' validated_claim_facts"

text \<open>A healthy server from three tables; a lane is \<open>True\<close> when it is exempt.\<close>

definition table_db :: "(string \<Rightarrow> bool option) \<Rightarrow> (string \<Rightarrow> bool option) \<Rightarrow> (string \<Rightarrow> (bool \<times> bool) option) \<Rightarrow> gate_db" where
  "table_db pt lt ct =
    \<lparr>gd_connect = Inr (),
     gd_row = (\<lambda>schema view key. Inr
       (if view = ''seat_posture_v'' then map_option (\<lambda>b. [(''requires_claim_ref'', JBool b)]) (pt key)
        else if view = ''lease_lane_v'' then map_option (\<lambda>b. [(''lane'', JStr (if b then ''exempt'' else ''gated''))]) (lt key)
        else map_option (\<lambda>(c, a). [(''confirmed_now'', JBool c), (''attested'', JBool a), (''decorrelation_provenance'', JStr ''none'')]) (ct key))),
     gd_current_user = Inr ''arb_gate_reader'', gd_select = (\<lambda>_ _. Inr ()),
     gd_table_priv = (\<lambda>rel p. Inr (p = ''SELECT'')),
     gd_column_priv = (\<lambda>_ _. Inr False)\<rparr>"

section \<open>Lemmas\<close>

lemma probe_all_Inr [simp]: "probe_all q want msg ps = Inr () \<longleftrightarrow> (\<forall>p \<in> set ps. q p = Inr want)"
  by (induction ps) auto

lemma each_r_Inr [simp]: "each_r f xs = Inr () \<longleftrightarrow> (\<forall>x \<in> set xs. f x = Inr ())"
  by (induction xs) auto

lemma probe_lists:
  "VIEW_SELECT_REQUIRED = [''SELECT'']"
  "VIEW_RELATION_NON_SELECT = [''INSERT'', ''UPDATE'', ''DELETE'', ''TRUNCATE'', ''REFERENCES'', ''TRIGGER'', ''MAINTAIN'']"
  "VIEW_COLUMN_NON_SELECT = [''INSERT'', ''UPDATE'', ''REFERENCES'']"
  "BASE_TABLE_WRITES = [''INSERT'', ''UPDATE'', ''DELETE'', ''TRUNCATE'', ''REFERENCES'', ''TRIGGER'', ''MAINTAIN'']"
  "BASE_TABLE_COLUMN_WRITES = [''INSERT'', ''UPDATE'', ''REFERENCES'']"
  by code_simp+

lemma relation_lists:
  "GATE_VIEWS = [''claim_admissibility_v'', ''seat_posture_v'', ''lease_lane_v'']"
  "BASE_TABLES = [''claims'', ''attestations'', ''seat_posture'', ''lease_lanes'']"
  by code_simp+

lemma coverage_valid: "validate_privilege_coverage PRIVILEGE_COVERAGE = Inr ()"
  by code_simp

lemma read_row_Inr:
  assumes "read_row db schema view key f c = (Inr x, c')"
  shows "x = projected f (row_of db schema view key) \<and> c' \<and> (x = None \<longrightarrow> gd_row db schema view key = Inr None)"
  using assms by (auto simp: read_row_def projected_def row_of_def split: sum.splits option.splits)

lemma read_row_up:
  assumes "gd_connect db = Inr ()" and "rows_valid db schema view f"
  shows "\<exists>x c'. read_row db schema view key f c = (Inr x, c')"
proof -
  have "open_conn db c = Inr ()" using assms(1) by (simp add: open_conn_def)
  moreover have "case gd_row db schema view key of Inl _ \<Rightarrow> False | Inr None \<Rightarrow> True | Inr (Some row) \<Rightarrow> (\<exists>v. f row = Inr v)"
    using assms(2) by (simp add: rows_valid_def)
  ultimately show ?thesis by (auto simp: read_row_def split: sum.splits option.splits)
qed

lemma posture_reads:
  assumes "seat_requires_claim_ref db schema seat c = (Inr b, c')"
  shows "b = (case posture_tab db schema seat of None \<Rightarrow> True | Some x \<Rightarrow> x)"
proof -
  obtain r c1 where r: "read_row db schema ''seat_posture_v'' seat validated_posture c = (r, c1)" by fastforce
  with assms obtain x where "r = Inr x" by (cases r) (auto simp: seat_requires_claim_ref_def)
  with read_row_Inr [of db schema "''seat_posture_v''" seat validated_posture c x c1] r assms show ?thesis
    by (auto simp: seat_requires_claim_ref_def posture_tab_def split: option.splits)
qed

interpretation psycopg: gate_authority "psycopg_resolver db schema" "posture_tab db schema" "lane_tab db schema" "claim_tab db schema"
  for db schema
proof unfold_locales
  show "b = (case posture_tab db schema seat of None \<Rightarrow> True | Some x \<Rightarrow> x)" if "rs_posture (psycopg_resolver db schema) seat s = (Inr b, s')"
    for seat s b s'
    using that by (simp add: psycopg_resolver_def posture_reads)
  show "l = lane_tab db schema lease" if "rs_lane (psycopg_resolver db schema) lease s = (Inr l, s')" for lease s l s'
    using that read_row_Inr by (fastforce simp: psycopg_resolver_def lease_lane_def lane_tab_def)
  show "c = claim_tab db schema ref" if "rs_claim (psycopg_resolver db schema) ref s = (Inr c, s')" for ref s c s'
    using that read_row_Inr by (fastforce simp: psycopg_resolver_def resolve_claim_def claim_tab_def)
qed

lemma db_up_authority:
  assumes "db_up db schema"
  shows "gate_authority_up (psycopg_resolver db schema) (posture_tab db schema) (lane_tab db schema) (claim_tab db schema)"
proof unfold_locales
  have up: "gd_connect db = Inr ()" "rows_valid db schema ''seat_posture_v'' validated_posture"
    "rows_valid db schema ''lease_lane_v'' validated_lane" "rows_valid db schema ''claim_admissibility_v'' validated_claim_facts"
    using assms by (simp_all add: db_up_def)
  show "\<exists>b s'. rs_posture (psycopg_resolver db schema) seat s = (Inr b, s')" for seat s
  proof -
    obtain x c' where "read_row db schema ''seat_posture_v'' seat validated_posture s = (Inr x, c')" using read_row_up [OF up(1,2)] by blast
    then show ?thesis by (cases x) (auto simp: psycopg_resolver_def seat_requires_claim_ref_def)
  qed
  show "\<exists>l s'. rs_lane (psycopg_resolver db schema) lease s = (Inr l, s')" for lease s
    using read_row_up [OF up(1,3)] by (simp add: psycopg_resolver_def lease_lane_def)
  show "\<exists>c s'. rs_claim (psycopg_resolver db schema) ref s = (Inr c, s')" for ref s
    using read_row_up [OF up(1,4)] by (simp add: psycopg_resolver_def resolve_claim_def)
qed

lemma table_db_up: "db_up (table_db pt lt ct) schema"
  by (auto simp: db_up_def rows_valid_def table_db_def validated_posture_def validated_lane_def validated_claim_facts_def split: option.splits)

interpretation table_server: gate_authority_up "psycopg_resolver (table_db pt lt ct) schema" "posture_tab (table_db pt lt ct) schema"
    "lane_tab (table_db pt lt ct) schema" "claim_tab (table_db pt lt ct) schema" for pt lt ct schema
  by (rule db_up_authority [OF table_db_up])

lemma posture_tab_row: "posture_tab db schema seat = Some b \<longleftrightarrow>
    (\<exists>row. gd_row db schema ''seat_posture_v'' seat = Inr (Some row) \<and> map_of row ''requires_claim_ref'' = Some (JBool b))"
  by (auto simp: posture_tab_def projected_def row_of_def validated_posture_def dhas_def dget_def split: sum.splits option.splits json.splits if_splits)

lemma lane_tab_row: "lane_tab db schema lease = Some ''exempt'' \<longleftrightarrow>
    (\<exists>row. gd_row db schema ''lease_lane_v'' lease = Inr (Some row) \<and> map_of row ''lane'' = Some (JStr ''exempt''))"
  by (auto simp: lane_tab_def projected_def row_of_def validated_lane_def dhas_def dget_def split: sum.splits option.splits json.splits if_splits)

lemma validated_claim_facts_Inr:
  assumes "validated_claim_facts row = Inr f"
  shows "dget row ''confirmed_now'' = JBool (cf_confirmed_now f) \<and> dget row ''attested'' = JBool (cf_attested f)"
  using assms by (auto simp: validated_claim_facts_def split: option.splits json.splits if_splits)

lemma claim_tab_row:
  assumes "claim_tab db schema ref = Some f"
  shows "\<exists>row. gd_row db schema ''claim_admissibility_v'' ref = Inr (Some row) \<and>
    map_of row ''confirmed_now'' = Some (JBool (cf_confirmed_now f)) \<and> map_of row ''attested'' = Some (JBool (cf_attested f))"
proof -
  from assms obtain row where row: "gd_row db schema ''claim_admissibility_v'' ref = Inr (Some row)" "validated_claim_facts row = Inr f"
    by (auto simp: claim_tab_def projected_def row_of_def split: sum.splits option.splits)
  have get: "map_of row k = Some v" if "dget row k = v" "v \<noteq> JNull" for k v
    using that by (auto simp: dget_def split: option.splits)
  from validated_claim_facts_Inr [OF row(2)] row(1) get show ?thesis by blast
qed

lemma gate_spec_admit:
  assumes "gate_spec pt lt ct seat p = ''admit''"
  shows "pt seat = Some False \<or> (\<exists>lease. dget p ''worktree_lease'' = JStr lease \<and> lt lease = Some ''exempt'') \<or>
    (\<exists>ref f. dget p ''claim_ref'' = JStr ref \<and> dget p ''lane'' \<noteq> JStr ''exempt'' \<and> ct ref = Some f \<and> cf_confirmed_now f \<and> cf_attested f)"
proof (rule ccontr)
  assume no: "\<not> ?thesis"
  then have "pt seat \<noteq> Some False" by blast
  moreover have "\<not> (nonempty_str (dget p ''worktree_lease'') \<and> lt (str_of (dget p ''worktree_lease'')) = Some ''exempt'')"
    using no by (auto simp: nonempty_str_iff)
  moreover have "dget p ''lane'' \<noteq> JStr ''exempt''" using assms calculation by (auto simp: gate_spec_def gate_codes)
  moreover have "nonblank_str (dget p ''claim_ref'')"
    using assms calculation by (auto simp: gate_spec_def gate_codes split: if_splits)
  ultimately show False using assms no by (auto simp: gate_spec_def gate_codes nonblank_str_iff split: option.splits if_splits)
qed

definition demo_gate_db :: gate_db where
  "demo_gate_db = table_db (\<lambda>s. None) (\<lambda>l. if l = ''lease-1'' then Some True else None) (\<lambda>c. if c = ''c1'' then Some (True, True) else None)"

definition demo_gate_envelope :: "dict \<Rightarrow> envelope" where
  "demo_gate_envelope p = demo_envelope_req\<lparr>e_payload := p\<rparr>"

section \<open>Properties\<close>

text \<open>C32: An admission rests on rows of the store, never on the message alone. Whatever the connection does and whatever the
  payload claims, if the gate admits a request through the PostgreSQL resolver, then the posture view has a
  row for the seat that requires no claim, or the lease the payload names has a row with the exempt lane, or the claim it names has a row that is confirmed
  and attested and the message does not present itself as exempt. An unreachable store, a missing row and a row outside the published
  contract never admit.\<close>

theorem admission_rests_on_rows:
  assumes "ge_outcome (fst (evaluate (psycopg_resolver db schema) seat e c)) = None"
  shows "(\<exists>row. gd_row db schema ''seat_posture_v'' seat = Inr (Some row) \<and> map_of row ''requires_claim_ref'' = Some (JBool False)) \<or>
    (\<exists>lease row. dget (e_payload e) ''worktree_lease'' = JStr lease \<and> gd_row db schema ''lease_lane_v'' lease = Inr (Some row) \<and>
       map_of row ''lane'' = Some (JStr ''exempt'')) \<or>
    (\<exists>ref row. dget (e_payload e) ''claim_ref'' = JStr ref \<and> dget (e_payload e) ''lane'' \<noteq> JStr ''exempt'' \<and>
       gd_row db schema ''claim_admissibility_v'' ref = Inr (Some row) \<and>
       map_of row ''confirmed_now'' = Some (JBool True) \<and> map_of row ''attested'' = Some (JBool True))"
proof -
  have spec: "gate_spec (posture_tab db schema) (lane_tab db schema) (claim_tab db schema) seat (e_payload e) = ''admit''"
    by (rule psycopg.admission_rests_on_tables [OF assms])
  consider "posture_tab db schema seat = Some False"
    | lease where "dget (e_payload e) ''worktree_lease'' = JStr lease" "lane_tab db schema lease = Some ''exempt''"
    | ref f where "dget (e_payload e) ''claim_ref'' = JStr ref" "dget (e_payload e) ''lane'' \<noteq> JStr ''exempt''"
        "claim_tab db schema ref = Some f" "cf_confirmed_now f" "cf_attested f"
    using gate_spec_admit [OF spec] by blast
  then show ?thesis
  proof cases
    case 1
    then show ?thesis by (simp add: posture_tab_row)
  next
    case (2 lease)
    then show ?thesis by (auto simp: lane_tab_row)
  next
    case (3 ref f)
    with claim_tab_row [OF 3(3)] show ?thesis by auto
  qed
qed

theorem admission_rests_on_rows_witness:
  "ge_outcome (fst (evaluate (psycopg_resolver demo_gate_db ''public'') ''seat'' (demo_gate_envelope [(''claim_ref'', JStr ''c1'')]) False)) = None \<and>
   (\<exists>row. gd_row demo_gate_db ''public'' ''claim_admissibility_v'' ''c1'' = Inr (Some row) \<and> map_of row ''attested'' = Some (JBool True))"
proof -
  have adm: "ge_outcome (fst (evaluate (psycopg_resolver demo_gate_db ''public'') ''seat''
      (demo_gate_envelope [(''claim_ref'', JStr ''c1'')]) False)) = None"
  proof -
    have "nonblank ''c1''" by (simp add: nonblank_iff py_isspace_def)
    then show ?thesis
      by (auto simp: evaluate_admits psycopg_resolver_def seat_requires_claim_ref_def resolve_claim_def read_row_def open_conn_def demo_gate_db_def
          table_db_def lane_of_def demo_gate_envelope_def validated_claim_facts_def)
  qed
  have "gd_row demo_gate_db ''public'' ''seat_posture_v'' ''seat'' = Inr None" by (simp add: demo_gate_db_def table_db_def)
  with admission_rests_on_rows [OF adm] adm show ?thesis by (auto simp: demo_gate_envelope_def)
qed

text \<open>C33: With a store that answers, the decision is the reference table. When the database is up and its rows are inside
  the published contract, the decision the gate records (admit, or the code of the refusal) is, for
  every seat, payload and connection state, the one computed from the tables by the reference definition.\<close>

theorem gate_decision_is_table:
  assumes "db_up db schema"
  shows "au_decision (ge_audit (fst (evaluate (psycopg_resolver db schema) seat e c)))
    = gate_spec (posture_tab db schema) (lane_tab db schema) (claim_tab db schema) seat (e_payload e)"
  by (rule gate_authority_up.decision_is_the_table [OF db_up_authority [OF assms]])

theorem gate_decision_is_table_witness:
  "au_decision (ge_audit (fst (evaluate (psycopg_resolver demo_gate_db ''public'') ''seat''
      (demo_gate_envelope [(''claim_ref'', JStr ''c2'')]) False))) = UNKNOWN_CLAIM_REF"
proof -
  have up: "db_up demo_gate_db ''public''" unfolding demo_gate_db_def by (rule table_db_up)
  have "posture_tab demo_gate_db ''public'' ''seat'' = None" "claim_tab demo_gate_db ''public'' ''c2'' = None" "nonblank ''c2''"
    by code_simp+
  then show ?thesis
    unfolding gate_decision_is_table [OF up] by (simp add: gate_spec_def demo_gate_envelope_def)
qed

text \<open>Readiness is exactly read-only access to the three views. The readiness check passes exactly when the store can be
  reached as the expected role, every view can be queried, the role has \<open>SELECT\<close> and no other privilege on
  each view and nothing but possibly \<open>SELECT\<close> on each base table, where privileges on single columns count too; after a
  failure no connection is kept.\<close>

theorem ready_exact:
  "(fst (assert_ready db schema role c) = Inr () \<longleftrightarrow>
       open_conn db c = Inr () \<and> gd_current_user db = Inr role \<and>
       (\<forall>v \<in> set GATE_VIEWS. gd_select db schema v = Inr () \<and>
          (\<forall>p \<in> set PG_TABLE_PRIVILEGES. gd_table_priv db (relname schema v) p = Inr (p = ''SELECT'')) \<and>
          (\<forall>p \<in> set PG_COLUMN_PRIVILEGES - {''SELECT''}. gd_column_priv db (relname schema v) p = Inr False)) \<and>
       (\<forall>t \<in> set BASE_TABLES.
          (\<forall>p \<in> set PG_TABLE_PRIVILEGES - {''SELECT''}. gd_table_priv db (relname schema t) p = Inr False) \<and>
          (\<forall>p \<in> set PG_COLUMN_PRIVILEGES - {''SELECT''}. gd_column_priv db (relname schema t) p = Inr False))) \<and>
    snd (assert_ready db schema role c) = (fst (assert_ready db schema role c) = Inr ())"
proof -
  have v: "view_ready db schema v = Inr () \<longleftrightarrow> gd_select db schema v = Inr () \<and>
      (\<forall>p \<in> set PG_TABLE_PRIVILEGES. gd_table_priv db (relname schema v) p = Inr (p = ''SELECT'')) \<and>
      (\<forall>p \<in> set PG_COLUMN_PRIVILEGES - {''SELECT''}. gd_column_priv db (relname schema v) p = Inr False)" for v
    by (auto simp: view_ready_def Let_def probe_lists PG_TABLE_PRIVILEGES_def PG_COLUMN_PRIVILEGES_def)
  have t: "table_ready db schema t = Inr () \<longleftrightarrow>
      (\<forall>p \<in> set PG_TABLE_PRIVILEGES - {''SELECT''}. gd_table_priv db (relname schema t) p = Inr False) \<and>
      (\<forall>p \<in> set PG_COLUMN_PRIVILEGES - {''SELECT''}. gd_column_priv db (relname schema t) p = Inr False)" for t
    by (auto simp: table_ready_def Let_def probe_lists PG_TABLE_PRIVILEGES_def PG_COLUMN_PRIVILEGES_def)
  have F: "fst (assert_ready db schema role c) = Inr () \<longleftrightarrow> open_conn db c = Inr () \<and> gd_current_user db = Inr role \<and>
      (\<forall>v \<in> set GATE_VIEWS. view_ready db schema v = Inr ()) \<and> (\<forall>t \<in> set BASE_TABLES. table_ready db schema t = Inr ())"
    by (auto simp: assert_ready_def Let_def)
  have S: "snd (assert_ready db schema role c) = (fst (assert_ready db schema role c) = Inr ())"
  proof -
    have "(case x of Inl _ \<Rightarrow> False | Inr _ \<Rightarrow> True) = (x = Inr ())" for x :: "(string, unit) res" by (cases x) auto
    then show ?thesis unfolding assert_ready_def Let_def by simp
  qed
  show ?thesis by (rule conjI [OF F [unfolded v t] S])
qed

theorem ready_exact_witness:
  "fst (assert_ready demo_gate_db ''public'' ''arb_gate_reader'' False) = Inr () \<and>
   gd_table_priv demo_gate_db (relname ''public'' ''lease_lane_v'') ''INSERT'' = Inr False"
proof -
  have "open_conn demo_gate_db False = Inr ()" "gd_current_user demo_gate_db = Inr ''arb_gate_reader''"
    "gd_select demo_gate_db s v = Inr ()" "gd_table_priv demo_gate_db rel p = Inr (p = ''SELECT'')" "gd_column_priv demo_gate_db rel p = Inr False"
    for s v rel p
    by (simp_all add: demo_gate_db_def table_db_def open_conn_def)
  then show ?thesis using ready_exact [of demo_gate_db "''public''" "''arb_gate_reader''" False] by simp
qed

end
