(* ===== verification/Engine_Pool.thy ===== *)
theory Engine_Pool
  imports Arb_Prelude
begin

text \<open>
  The bounded pool of engine adapters (\<open>src/src/agent_redis_bridge/engine_pool.py\<close>). Engines are
  opaque handles; what the pool reads of an engine by \<open>getattr\<close> is looked up in the attribute
  environment of the call, because engines change their own attributes between calls. Every
  operation runs under the pool's lock, so an operation is one atomic step on the state. The
  \<open>stop()\<close> calls an operation makes are returned in order; an exception of \<open>stop()\<close> is swallowed
  by the code and so has no effect here.
\<close>

section \<open>State\<close>

record eng_attrs =
  ea_thread_id :: "string option"    \<comment> \<open>the attribute when it is a \<open>str\<close>\<close>
  ea_session_id :: "string option"
  ea_healthy :: "bool option"        \<comment> \<open>\<open>is_healthy()\<close> when it is callable\<close>
  ea_retire :: bool                  \<comment> \<open>\<open>retire_after_turn\<close>, truthy\<close>
  ea_stoppable :: bool               \<comment> \<open>\<open>stop\<close> is callable\<close>

record 'e pool =
  pl_max_size :: int
  pl_idle :: "'e list"
  pl_busy :: "(string \<times> 'e option) list"
  pl_reserved :: "string set"
  pl_started :: int

text \<open>What a factory or a \<open>start()\<close> raises: the adapters' own \<open>EngineError\<close>, or any other exception.\<close>

datatype start_exc = EngineError string | OtherExc string

datatype pool_error =
    AffinityMissError string
  | AffinityBusyError string string
  | AffinityAmbiguousError string
  | SpawnError start_exc
  | PoolValueError int

text \<open>What \<open>self._factory()\<close> and the engine's \<open>start()\<close> do when they are called.\<close>

datatype 'e spawn =
    SpawnOk 'e
  | StartRaises 'e start_exc
  | FactoryRaises start_exc

section \<open>Operations\<close>

definition pool_init :: "int \<Rightarrow> (pool_error, 'e pool) res" where
  "pool_init n = (if n < 1 then Inl (PoolValueError n)
     else Inr \<lparr>pl_max_size = n, pl_idle = [], pl_busy = [], pl_reserved = {}, pl_started = 0\<rparr>)"

definition engine_thread_id :: "('e \<Rightarrow> eng_attrs) \<Rightarrow> 'e option \<Rightarrow> string option" where
  "engine_thread_id at eo = (case eo of None \<Rightarrow> None | Some e \<Rightarrow>
     (case ea_thread_id (at e) of
        Some (c # cs) \<Rightarrow> Some (c # cs)
      | _ \<Rightarrow> (case ea_session_id (at e) of
                Some (c # cs) \<Rightarrow> Some (c # cs)
              | _ \<Rightarrow> None)))"

definition stop_calls :: "('e \<Rightarrow> eng_attrs) \<Rightarrow> 'e list \<Rightarrow> 'e list" where
  "stop_calls at es = filter (\<lambda>e. ea_stoppable (at e)) es"

definition pool_acquire ::
  "('e \<Rightarrow> eng_attrs) \<Rightarrow> 'e spawn \<Rightarrow> 'e pool \<Rightarrow> string \<Rightarrow> string option
    \<Rightarrow> (pool_error, 'e option) res \<times> 'e pool \<times> 'e list" where
  "pool_acquire at sp p task_id thread_id =
    (case thread_id of
       Some th \<Rightarrow>
         (let idle_matches = filter (\<lambda>i. engine_thread_id at (Some (pl_idle p ! i)) = Some th)
                               [0..<length (pl_idle p)];
              busy_matches = map fst (filter (\<lambda>(t, eo). engine_thread_id at eo = Some th) (pl_busy p))
          in if length idle_matches + length busy_matches > 1
             then (Inl (AffinityAmbiguousError th), p, [])
             else if busy_matches \<noteq> []
             then (Inl (AffinityBusyError th (hd busy_matches)), p, [])
             else if idle_matches \<noteq> []
             then (let i = hd idle_matches; e = pl_idle p ! i
                   in (Inr (Some e),
                       p\<lparr>pl_idle := take i (pl_idle p) @ drop (Suc i) (pl_idle p),
                         pl_busy := AList.update task_id (Some e) (pl_busy p)\<rparr>, []))
             else (Inl (AffinityMissError th), p, []))
     | None \<Rightarrow>
         (if pl_idle p \<noteq> []
          then (let e = last (pl_idle p)
                in (Inr (Some e),
                    p\<lparr>pl_idle := butlast (pl_idle p),
                      pl_busy := AList.update task_id (Some e) (pl_busy p)\<rparr>, []))
          else if pl_started p < pl_max_size p
          then (case sp of
                  FactoryRaises x \<Rightarrow> (Inl (SpawnError x), p, [])
                | StartRaises e x \<Rightarrow> (Inl (SpawnError x), p, stop_calls at [e])
                | SpawnOk e \<Rightarrow>
                    (Inr (Some e),
                     p\<lparr>pl_started := pl_started p + 1,
                       pl_busy := AList.update task_id (Some e) (pl_busy p)\<rparr>, []))
          else (Inr None, p, [])))"

definition pool_reserve ::
  "('e \<Rightarrow> eng_attrs) \<Rightarrow> 'e pool \<Rightarrow> string \<Rightarrow> bool \<times> 'e pool \<times> 'e list" where
  "pool_reserve at p task_id =
    (if task_id \<in> fst ` set (pl_busy p) then (False, p, [])
     else
       (let retire = pl_max_size p \<le> pl_started p \<and> pl_idle p \<noteq> [];
            retired = (if retire then [last (pl_idle p)] else []);
            p1 = (if retire then p\<lparr>pl_idle := butlast (pl_idle p), pl_started := pl_started p - 1\<rparr>
                  else p)
        in if pl_max_size p1 \<le> pl_started p1 then (False, p1, [])
           else (True,
                 p1\<lparr>pl_started := pl_started p1 + 1,
                    pl_reserved := insert task_id (pl_reserved p1),
                    pl_busy := AList.update task_id None (pl_busy p1)\<rparr>,
                 stop_calls at retired)))"

definition has_capacity :: "'e pool \<Rightarrow> bool" where
  "has_capacity p \<longleftrightarrow> 0 < length (pl_idle p) \<or> pl_started p < pl_max_size p"

text \<open>
  \<open>wait_for_capacity\<close>: while the thread waits on the condition variable other threads move the
  pool; the states it is woken in (in order) are \<open>wakes\<close>, the last one the state at the time-out.
  The call itself changes nothing and returns the capacity of the state it stops in.
\<close>

fun wait_for_capacity :: "('e pool \<times> bool) \<Rightarrow> ('e pool \<times> bool) list \<Rightarrow> bool" where
  "wait_for_capacity (p, stop_set) [] = has_capacity p"
| "wait_for_capacity (p, stop_set) (w # wakes) =
     (if has_capacity p \<or> stop_set then has_capacity p else wait_for_capacity w wakes)"

definition pool_release ::
  "('e \<Rightarrow> eng_attrs) \<Rightarrow> 'e pool \<Rightarrow> string \<Rightarrow> 'e pool \<times> 'e list" where
  "pool_release at p task_id =
    (case map_of (pl_busy p) task_id of
       None \<Rightarrow> (p, [])
     | Some eo \<Rightarrow>
         (let p1 = p\<lparr>pl_busy := AList.delete task_id (pl_busy p)\<rparr>
          in if task_id \<in> pl_reserved p
             then (p1\<lparr>pl_reserved := pl_reserved p - {task_id}, pl_started := pl_started p - 1\<rparr>, [])
             else (case eo of
                     None \<Rightarrow> (p1, [])
                   | Some e \<Rightarrow>
                       (if ea_healthy (at e) = Some False
                        then (p1\<lparr>pl_started := pl_started p - 1\<rparr>, stop_calls at [e])
                        else if ea_retire (at e)
                        then (p1\<lparr>pl_started := pl_started p - 1\<rparr>, stop_calls at [e])
                        else (p1\<lparr>pl_idle := pl_idle p @ [e]\<rparr>, [])))))"

definition pool_get :: "'e pool \<Rightarrow> string \<Rightarrow> 'e option" where
  "pool_get p task_id = (case map_of (pl_busy p) task_id of None \<Rightarrow> None | Some eo \<Rightarrow> eo)"

definition active_task_ids :: "'e pool \<Rightarrow> string list" where
  "active_task_ids p = map fst (pl_busy p)"

definition busy_engines :: "'e pool \<Rightarrow> 'e list" where
  "busy_engines p = List.map_filter snd (pl_busy p)"

definition pool_stop_all :: "('e \<Rightarrow> eng_attrs) \<Rightarrow> 'e pool \<Rightarrow> 'e pool \<times> 'e list" where
  "pool_stop_all at p =
     (p\<lparr>pl_busy := [], pl_reserved := {}, pl_idle := []\<rparr>,
      stop_calls at (busy_engines p @ pl_idle p))"

section \<open>The pool as a transition system\<close>

text \<open>
  The bridge acquires and reserves under the id of a request it has just accepted, which is not
  a key of \<open>_busy\<close>, and the factory returns a new engine object: those are the two conditions on
  the steps. The stop log of the whole run is part of the state.
\<close>

record 'e pool_sys =
  ps_pool :: "'e pool"
  ps_stopped :: "'e list"

definition pool_engines :: "'e pool \<Rightarrow> 'e list" where
  "pool_engines p = busy_engines p @ pl_idle p"

fun spawn_fresh :: "'e spawn \<Rightarrow> 'e pool_sys \<Rightarrow> bool" where
  "spawn_fresh (SpawnOk e) s = (e \<notin> set (pool_engines (ps_pool s)) \<and> e \<notin> set (ps_stopped s))"
| "spawn_fresh (StartRaises e x) s = (e \<notin> set (pool_engines (ps_pool s)) \<and> e \<notin> set (ps_stopped s))"
| "spawn_fresh (FactoryRaises x) s = True"

inductive pool_step :: "'e pool_sys \<Rightarrow> 'e pool_sys \<Rightarrow> bool" where
  ps_acquire: "t \<notin> fst ` set (pl_busy (ps_pool s)) \<Longrightarrow> spawn_fresh sp s \<Longrightarrow>
     pool_acquire at sp (ps_pool s) t th = (r, p', st) \<Longrightarrow>
     pool_step s \<lparr>ps_pool = p', ps_stopped = ps_stopped s @ st\<rparr>"
| ps_reserve: "pool_reserve at (ps_pool s) t = (b, p', st) \<Longrightarrow>
     pool_step s \<lparr>ps_pool = p', ps_stopped = ps_stopped s @ st\<rparr>"
| ps_release: "pool_release at (ps_pool s) t = (p', st) \<Longrightarrow>
     pool_step s \<lparr>ps_pool = p', ps_stopped = ps_stopped s @ st\<rparr>"
| ps_stop_all: "pool_stop_all at (ps_pool s) = (p', st) \<Longrightarrow>
     pool_step s \<lparr>ps_pool = p', ps_stopped = ps_stopped s @ st\<rparr>"

definition pool_start :: "'e pool_sys \<Rightarrow> bool" where
  "pool_start s \<longleftrightarrow> (\<exists>n. pool_init n = Inr (ps_pool s)) \<and> ps_stopped s = []"


section \<open>The invariant\<close>

definition pool_inv :: "'e pool \<Rightarrow> bool" where
  "pool_inv p \<longleftrightarrow>
     1 \<le> pl_max_size p \<and> pl_started p \<le> pl_max_size p \<and>
     int (length (pl_idle p)) + int (length (pl_busy p)) \<le> pl_started p \<and>
     distinct (map fst (pl_busy p)) \<and>
     pl_reserved p = {t. (t, None) \<in> set (pl_busy p)} \<and>
     distinct (pool_engines p)"

definition pool_sys_inv :: "'e pool_sys \<Rightarrow> bool" where
  "pool_sys_inv s \<longleftrightarrow> pool_inv (ps_pool s) \<and> distinct (ps_stopped s) \<and>
     set (ps_stopped s) \<inter> set (pool_engines (ps_pool s)) = {}"

definition engine_list :: "(string \<times> 'e option) list \<Rightarrow> 'e list" where
  "engine_list b = List.map_filter snd b"

lemma engine_list_simps [simp]:
  "engine_list [] = []"
  "engine_list ((t, None) # b) = engine_list b"
  "engine_list ((t, Some e) # b) = e # engine_list b"
  "engine_list (b @ b') = engine_list b @ engine_list b'"
  by (simp_all add: engine_list_def List.map_filter_def)

lemma busy_engines_list: "busy_engines p = engine_list (pl_busy p)"
  by (simp add: busy_engines_def engine_list_def)

lemma set_engine_list: "set (engine_list b) = {e. \<exists>t. (t, Some e) \<in> set b}"
proof (induction b)
  case (Cons a b)
  then show ?case by (cases a; cases "snd a") auto
qed simp

lemma alist_delete_split:
  "distinct (map fst xs) \<Longrightarrow> map_of xs k = Some v \<Longrightarrow>
   \<exists>us vs. xs = us @ (k, v) # vs \<and> AList.delete k xs = us @ vs \<and> k \<notin> fst ` set (us @ vs)"
proof (induction xs)
  case (Cons a xs)
  show ?case
  proof (cases "fst a = k")
    case True
    with Cons.prems show ?thesis
      by (intro exI [of _ "[]"] exI [of _ xs]) (cases a, auto simp: alist_delete_fresh)
  next
    case False
    with Cons obtain us vs where "xs = us @ (k, v) # vs" "AList.delete k xs = us @ vs"
      "k \<notin> fst ` set (us @ vs)" by (cases a) auto
    with False show ?thesis
      by (intro exI [of _ "a # us"] exI [of _ vs]) (cases a, auto)
  qed
qed simp

lemma pool_inv_init: "pool_init n = Inr p \<Longrightarrow> pool_inv p"
  by (auto simp: pool_init_def pool_inv_def pool_engines_def busy_engines_list split: if_splits)

text \<open>Moving one engine from the idle list to a fresh task keeps the invariant.\<close>

lemma pool_inv_bind_idle:
  assumes inv: "pool_inv p" and fresh: "t \<notin> fst ` set (pl_busy p)"
    and idle: "pl_idle p = us @ e # vs"
  shows "pool_inv (p\<lparr>pl_idle := us @ vs, pl_busy := AList.update t (Some e) (pl_busy p)\<rparr>)"
    and "set (pool_engines (p\<lparr>pl_idle := us @ vs, pl_busy := AList.update t (Some e) (pl_busy p)\<rparr>))
         = set (pool_engines p)"
  using assms
  by (auto simp: pool_inv_def pool_engines_def busy_engines_list alist_update_fresh)

lemma pool_inv_bind_spawn:
  assumes inv: "pool_inv p" and fresh: "t \<notin> fst ` set (pl_busy p)"
    and cap: "pl_started p < pl_max_size p" and new: "e \<notin> set (pool_engines p)"
  shows "pool_inv (p\<lparr>pl_started := pl_started p + 1, pl_busy := AList.update t (Some e) (pl_busy p)\<rparr>)"
    and "set (pool_engines (p\<lparr>pl_started := pl_started p + 1, pl_busy := AList.update t (Some e) (pl_busy p)\<rparr>))
         = insert e (set (pool_engines p))"
  using assms
  by (auto simp: pool_inv_def pool_engines_def busy_engines_list alist_update_fresh)

lemma take_drop_nth: "i < length xs \<Longrightarrow> xs = take i xs @ xs ! i # drop (Suc i) xs"
  by (simp add: id_take_nth_drop)

lemma hd_filter_upt:
  assumes "filter P [0..<n] \<noteq> []"
  shows "hd (filter P [0..<n]) < n" and "P (hd (filter P [0..<n]))"
  using hd_in_set [OF assms] by auto

lemma index_filter_single:
  assumes "filter (\<lambda>i. P (xs ! i)) [0..<length xs] = [i]"
  shows "{x \<in> set xs. P x} = {xs ! i}" and "xs ! i \<in> set xs"
proof -
  have "filter P xs = filter P (map ((!) xs) [0..<length xs])" by (simp add: map_nth)
  also have "\<dots> = [xs ! i]" using assms by (simp add: filter_map comp_def)
  finally have "set (filter P xs) = {xs ! i}" by simp
  then show "{x \<in> set xs. P x} = {xs ! i}" and "xs ! i \<in> set xs" by auto
qed

text \<open>
  The possible effects of \<open>acquire\<close>: nothing, an idle engine moved to the task, or a new engine
  bound to it.
\<close>

lemma pool_acquire_cases:
  assumes "pool_acquire at sp p t th = (r, p', st)"
  obtains
    (refused) "p' = p" "st = []" "\<forall>e. r \<noteq> Inr (Some e)"
  | (failed) e x where "p' = p" "st = stop_calls at [e]" "sp = StartRaises e x" "r = Inl (SpawnError x)"
  | (idle) us e vs where "pl_idle p = us @ e # vs" "r = Inr (Some e)" "st = []"
      "p' = p\<lparr>pl_idle := us @ vs, pl_busy := AList.update t (Some e) (pl_busy p)\<rparr>"
  | (spawned) e where "sp = SpawnOk e" "r = Inr (Some e)" "st = []" "pl_started p < pl_max_size p"
      "p' = p\<lparr>pl_started := pl_started p + 1, pl_busy := AList.update t (Some e) (pl_busy p)\<rparr>"
proof (cases th)
  case None
  show ?thesis
  proof (cases "pl_idle p = []")
    case True
    show ?thesis
    proof (cases "pl_started p < pl_max_size p")
      case cap: True
      show ?thesis
        using assms None True cap
        by (cases sp) (auto simp: pool_acquire_def intro: refused failed spawned)
    next
      case False
      with assms None True show ?thesis
        by (intro refused) (auto simp: pool_acquire_def)
    qed
  next
    case False
    then have "pl_idle p = butlast (pl_idle p) @ last (pl_idle p) # []" by simp
    then show ?thesis
      using assms None False
      by (intro idle [of "butlast (pl_idle p)" "last (pl_idle p)" "[]"])
         (auto simp: pool_acquire_def Let_def)
  qed
next
  case (Some x)
  define im where "im = filter (\<lambda>i. engine_thread_id at (Some (pl_idle p ! i)) = Some x) [0..<length (pl_idle p)]"
  define bm where "bm = map fst (filter (\<lambda>(t, eo). engine_thread_id at eo = Some x) (pl_busy p))"
  have "pool_acquire at sp p t th =
     (if length im + length bm > 1 then (Inl (AffinityAmbiguousError x), p, [])
      else if bm \<noteq> [] then (Inl (AffinityBusyError x (hd bm)), p, [])
      else if im \<noteq> [] then
        (Inr (Some (pl_idle p ! hd im)),
         p\<lparr>pl_idle := take (hd im) (pl_idle p) @ drop (Suc (hd im)) (pl_idle p),
           pl_busy := AList.update t (Some (pl_idle p ! hd im)) (pl_busy p)\<rparr>, [])
      else (Inl (AffinityMissError x), p, []))"
    unfolding Some pool_acquire_def im_def bm_def Let_def by (simp only: option.case)
  note eq = this [unfolded assms]
  show ?thesis
  proof (cases "length im + length bm \<le> 1 \<and> bm = [] \<and> im \<noteq> []")
    case True
    then have "hd im < length (pl_idle p)"
      unfolding im_def using hd_filter_upt(1) by blast
    from take_drop_nth [OF this] eq True show ?thesis
      by (intro idle [of "take (hd im) (pl_idle p)" "pl_idle p ! hd im" "drop (Suc (hd im)) (pl_idle p)"])
         auto
  next
    case False
    with eq show ?thesis by (intro refused) (auto split: if_splits)
  qed
qed

lemma pool_inv_acquire:
  assumes "pool_inv p" and "t \<notin> fst ` set (pl_busy p)"
    and "pool_acquire at sp p t th = (r, p', st)" and "\<And>e. sp = SpawnOk e \<Longrightarrow> e \<notin> set (pool_engines p)"
  shows "pool_inv p'"
  using assms(3)
  by (cases rule: pool_acquire_cases) (use assms in \<open>auto intro: pool_inv_bind_idle pool_inv_bind_spawn\<close>)

lemma pool_inv_reserve:
  assumes "pool_inv p" and "pool_reserve at p t = (b, p', st)"
  shows "pool_inv p'" and "set (pool_engines p') \<union> set st \<subseteq> set (pool_engines p)"
    and "set (pool_engines p') \<inter> set st = {}" and "distinct st"
proof -
  have butlast: "pl_idle p \<noteq> [] \<Longrightarrow> \<exists>us e. pl_idle p = us @ [e]"
    by (metis append_butlast_last_id)
  show "pool_inv p'" and "set (pool_engines p') \<union> set st \<subseteq> set (pool_engines p)"
    and "set (pool_engines p') \<inter> set st = {}" and "distinct st"
    using assms butlast
    by (auto simp: pool_reserve_def pool_inv_def pool_engines_def busy_engines_list Let_def
          alist_update_fresh stop_calls_def dest: in_set_butlastD split: if_splits)
qed

text \<open>Unbinding a task: its slot is given back, or its engine goes to the end of the idle list.\<close>

lemma pool_inv_unbind_drop:
  assumes "pool_inv p" and "pl_busy p = us @ (t, eo) # vs"
  shows "pool_inv (p\<lparr>pl_busy := us @ vs, pl_reserved := pl_reserved p - {t}, pl_started := pl_started p - 1\<rparr>)"
proof -
  from assms have "t \<notin> fst ` set us \<union> fst ` set vs" by (auto simp: pool_inv_def)
  then have "(t, x) \<notin> set us \<and> (t, x) \<notin> set vs" for x by force
  with assms show ?thesis
    by (cases eo) (auto simp: pool_inv_def pool_engines_def busy_engines_list)
qed

lemma pool_inv_unbind_idle:
  assumes "pool_inv p" and "pl_busy p = us @ (t, Some e) # vs"
  shows "pool_inv (p\<lparr>pl_busy := us @ vs, pl_idle := pl_idle p @ [e]\<rparr>)"
  using assms by (auto simp: pool_inv_def pool_engines_def busy_engines_list)

lemma pool_reserved_iff:
  assumes "pool_inv p" and "map_of (pl_busy p) t = Some eo"
  shows "t \<in> pl_reserved p \<longleftrightarrow> eo = None"
  using assms map_of_eq_Some_iff [of "pl_busy p" t None]
  by (auto simp: pool_inv_def)

text \<open>The possible effects of \<open>release\<close>.\<close>

lemma pool_release_cases:
  assumes inv: "pool_inv p" and rel: "pool_release at p t = (p', st)"
  obtains (absent) "p' = p" "st = []"
  | (reserved) us vs where "pl_busy p = us @ (t, None) # vs" "st = []"
      "p' = p\<lparr>pl_busy := us @ vs, pl_reserved := pl_reserved p - {t}, pl_started := pl_started p - 1\<rparr>"
  | (retired) us e vs where "pl_busy p = us @ (t, Some e) # vs" "st = stop_calls at [e]"
      "p' = p\<lparr>pl_busy := us @ vs, pl_reserved := pl_reserved p - {t}, pl_started := pl_started p - 1\<rparr>"
  | (returned) us e vs where "pl_busy p = us @ (t, Some e) # vs" "st = []"
      "p' = p\<lparr>pl_busy := us @ vs, pl_idle := pl_idle p @ [e]\<rparr>"
proof (cases "map_of (pl_busy p) t")
  case None
  with rel show ?thesis by (intro absent) (auto simp: pool_release_def)
next
  case (Some eo)
  with inv obtain us vs where b: "pl_busy p = us @ (t, eo) # vs"
    and d: "AList.delete t (pl_busy p) = us @ vs"
    using alist_delete_split by (metis pool_inv_def)
  note res = pool_reserved_iff [OF inv Some]
  show ?thesis
  proof (cases eo)
    case None
    with Some rel res d b show ?thesis by (intro reserved) (auto simp: pool_release_def)
  next
    case e: (Some e)
    with res have "t \<notin> pl_reserved p" and r: "pl_reserved p - {t} = pl_reserved p" by auto
    with Some e d have eq: "pool_release at p t =
        (if ea_healthy (at e) = Some False \<or> ea_retire (at e)
         then (p\<lparr>pl_busy := us @ vs, pl_reserved := pl_reserved p - {t}, pl_started := pl_started p - 1\<rparr>,
               stop_calls at [e])
         else (p\<lparr>pl_busy := us @ vs, pl_idle := pl_idle p @ [e]\<rparr>, []))"
      by (simp add: pool_release_def Let_def)
    show ?thesis
    proof (cases "ea_healthy (at e) = Some False \<or> ea_retire (at e)")
      case True
      with eq rel b e show ?thesis by (intro retired) auto
    next
      case False
      with eq rel b e show ?thesis by (intro returned) auto
    qed
  qed
qed

lemma pool_inv_release:
  assumes inv: "pool_inv p" and rel: "pool_release at p t = (p', st)"
  shows "pool_inv p'" and "set (pool_engines p') \<union> set st \<subseteq> set (pool_engines p)"
    and "set (pool_engines p') \<inter> set st = {}" and "distinct st"
proof -
  have dist: "distinct (engine_list (pl_busy p) @ pl_idle p)"
    using inv by (simp add: pool_inv_def pool_engines_def busy_engines_list)
  from inv rel have "pool_inv p' \<and> set (pool_engines p') \<union> set st \<subseteq> set (pool_engines p) \<and>
        set (pool_engines p') \<inter> set st = {} \<and> distinct st"
  proof (cases rule: pool_release_cases)
    case absent
    with inv show ?thesis by simp
  next
    case (reserved us vs)
    with pool_inv_unbind_drop [OF inv reserved(1)] show ?thesis
      by (simp add: pool_engines_def busy_engines_list)
  next
    case (retired us e vs)
    with pool_inv_unbind_drop [OF inv retired(1)] dist show ?thesis
      by (auto simp: pool_engines_def busy_engines_list stop_calls_def)
  next
    case (returned us e vs)
    with pool_inv_unbind_idle [OF inv returned(1)] show ?thesis
      by (auto simp: pool_engines_def busy_engines_list)
  qed
  then show "pool_inv p'" and "set (pool_engines p') \<union> set st \<subseteq> set (pool_engines p)"
    and "set (pool_engines p') \<inter> set st = {}" and "distinct st" by auto
qed

lemma pool_inv_stop_all:
  assumes "pool_inv p" and "pool_stop_all at p = (p', st)"
  shows "pool_inv p'" and "set (pool_engines p') \<union> set st \<subseteq> set (pool_engines p)"
    and "set (pool_engines p') \<inter> set st = {}" and "distinct st"
  using assms
  by (auto simp: pool_stop_all_def pool_inv_def pool_engines_def busy_engines_list stop_calls_def)


lemma pool_sys_inv_step:
  assumes inv: "pool_sys_inv s" and step: "pool_step s s'"
  shows "pool_sys_inv s'"
proof -
  have shrink: "pool_sys_inv \<lparr>ps_pool = p', ps_stopped = ps_stopped s @ st\<rparr>"
    if "pool_inv p'" "set (pool_engines p') \<union> set st \<subseteq> set (pool_engines (ps_pool s))"
      "set (pool_engines p') \<inter> set st = {}" "distinct st" for p' st
    using that inv by (auto simp: pool_sys_inv_def)
  from inv have p: "pool_inv (ps_pool s)" by (simp add: pool_sys_inv_def)
  from step show ?thesis
  proof cases
    case (ps_acquire t sp at th r p' st)
    then have pi: "pool_inv p'"
      using p by (intro pool_inv_acquire [OF p]) auto
    from ps_acquire(4) show ?thesis
    proof (cases rule: pool_acquire_cases)
      case refused
      with inv ps_acquire show ?thesis by (simp add: pool_sys_inv_def)
    next
      case (failed e x)
      with inv ps_acquire pi show ?thesis by (auto simp: pool_sys_inv_def stop_calls_def)
    next
      case (idle us e vs)
      with inv ps_acquire pi show ?thesis
        by (simp add: pool_sys_inv_def pool_inv_bind_idle(2) [OF p])
    next
      case (spawned e)
      with inv ps_acquire pi show ?thesis
        by (simp add: pool_sys_inv_def pool_inv_bind_spawn(2) [OF p])
    qed
  qed (use p shrink pool_inv_reserve pool_inv_release pool_inv_stop_all in metis)+
qed

interpretation engine_pool: inv_system pool_start pool_step pool_sys_inv
proof
  show "pool_sys_inv s" if "pool_start s" for s :: "'a pool_sys"
    using that by (auto simp: pool_start_def pool_sys_inv_def dest: pool_inv_init)
qed (rule pool_sys_inv_step)

lemma pool_inv_reachable: "reachable pool_start pool_step s \<Longrightarrow> pool_inv (ps_pool s)"
  using engine_pool.inv_reachable by (auto simp: pool_sys_inv_def)

lemma pool_get_engine: "pool_get p t = Some e \<Longrightarrow> (t, Some e) \<in> set (pl_busy p)"
  by (auto simp: pool_get_def split: option.splits dest: map_of_SomeD)

lemma engine_list_unique:
  "distinct (engine_list b) \<Longrightarrow> (t, Some e) \<in> set b \<Longrightarrow> (t', Some e) \<in> set b \<Longrightarrow> t = t'"
proof (induction b)
  case (Cons a b)
  then show ?case by (cases a; cases "snd a") (auto simp: set_engine_list)
qed simp

section \<open>Properties\<close>

text \<open>C14: In every run of the pool (fresh task ids, a factory that builds new engines) no more than
  \<open>max_size\<close> tasks are active, an engine is bound to at most one task, a bound engine is neither idle
  nor stopped, and \<open>stop()\<close> is called at most once per engine.\<close>

theorem pool_exclusive_and_bounded:
  assumes "reachable pool_start pool_step s"
  shows "int (length (active_task_ids (ps_pool s))) \<le> pl_max_size (ps_pool s) \<and>
    (\<forall>t t' e. pool_get (ps_pool s) t = Some e \<and> pool_get (ps_pool s) t' = Some e \<longrightarrow> t = t') \<and>
    (\<forall>t e. pool_get (ps_pool s) t = Some e \<longrightarrow>
        e \<notin> set (pl_idle (ps_pool s)) \<and> e \<notin> set (ps_stopped s)) \<and>
    distinct (ps_stopped s)"
proof -
  from engine_pool.inv_reachable [OF assms]
  have inv: "pool_inv (ps_pool s)" and st: "distinct (ps_stopped s)"
    "set (ps_stopped s) \<inter> set (pool_engines (ps_pool s)) = {}" by (auto simp: pool_sys_inv_def)
  from inv have "distinct (engine_list (pl_busy (ps_pool s)))"
    "set (engine_list (pl_busy (ps_pool s))) \<inter> set (pl_idle (ps_pool s)) = {}"
    by (auto simp: pool_inv_def pool_engines_def busy_engines_list)
  with inv st show ?thesis
    by (auto simp: pool_inv_def active_task_ids_def pool_engines_def busy_engines_list set_engine_list
        dest!: pool_get_engine dest: engine_list_unique)
qed

definition demo_attrs :: "nat \<Rightarrow> eng_attrs" where
  "demo_attrs e = \<lparr>ea_thread_id = None, ea_session_id = Some (replicate e CHR ''s''), ea_healthy = Some True,
     ea_retire = False, ea_stoppable = True\<rparr>"

definition demo_pool :: "nat pool" where
  "demo_pool = \<lparr>pl_max_size = 2, pl_idle = [], pl_busy = [(''a'', Some 7)], pl_reserved = {}, pl_started = 1\<rparr>"

lemma demo_pool_reachable: "reachable pool_start pool_step \<lparr>ps_pool = demo_pool, ps_stopped = []\<rparr>"
proof -
  let ?s0 = "\<lparr>ps_pool = \<lparr>pl_max_size = 2, pl_idle = [], pl_busy = [], pl_reserved = {}, pl_started = 0\<rparr>,
              ps_stopped = []\<rparr> :: nat pool_sys"
  have "reachable pool_start pool_step ?s0"
    by (rule reach_init) (auto simp: pool_start_def pool_init_def intro: exI [of _ 2])
  moreover have "pool_step ?s0 \<lparr>ps_pool = demo_pool, ps_stopped = ps_stopped ?s0 @ []\<rparr>"
    by (rule ps_acquire [where t = "''a''" and sp = "SpawnOk 7" and at = demo_attrs and th = None])
       (auto simp: pool_acquire_def demo_pool_def pool_engines_def busy_engines_list)
  ultimately show ?thesis by (auto intro: reach_step)
qed

theorem pool_exclusive_and_bounded_witness:
  "int (length (active_task_ids demo_pool)) \<le> 2 \<and> pool_get demo_pool ''a'' = Some 7"
  using pool_exclusive_and_bounded [OF demo_pool_reachable]
  by (simp add: demo_pool_def pool_get_def)

text \<open>Without an affinity id and with a working factory, \<open>acquire\<close> hands out an engine exactly
  when the pool has capacity, and otherwise returns \<open>None\<close> and changes nothing.\<close>

theorem acquire_iff_capacity:
  "if has_capacity p then \<exists>e' p'. pool_acquire at (SpawnOk e) p t None = (Inr (Some e'), p', [])
   else pool_acquire at (SpawnOk e) p t None = (Inr None, p, [])"
  by (auto simp: pool_acquire_def has_capacity_def Let_def)

text \<open>In a pool that satisfies the invariant, \<open>reserve\<close> succeeds exactly when the id is not active
  and the pool has capacity; the pool stays within its bound, the id is then active with no engine,
  and releasing it gives the slot back.\<close>

theorem reserve_iff_capacity:
  assumes "pool_inv p"
  shows "(fst (pool_reserve at p t) \<longleftrightarrow> t \<notin> set (active_task_ids p) \<and> has_capacity p) \<and>
    (fst (pool_reserve at p t) \<longrightarrow>
      (let p' = fst (snd (pool_reserve at p t))
       in t \<in> set (active_task_ids p') \<and> pool_get p' t = None \<and> pl_started p' \<le> pl_max_size p' \<and>
          fst (pool_release at p' t) =
            p'\<lparr>pl_busy := pl_busy p, pl_reserved := pl_reserved p, pl_started := pl_started p' - 1\<rparr>))"
proof
  show "fst (pool_reserve at p t) \<longleftrightarrow> t \<notin> set (active_task_ids p) \<and> has_capacity p"
    using assms by (auto simp: pool_reserve_def has_capacity_def active_task_ids_def pool_inv_def Let_def)
  have "t \<notin> fst ` set (pl_busy p) \<Longrightarrow> t \<notin> pl_reserved p"
    using assms by (force simp: pool_inv_def)
  moreover have "t \<notin> fst ` set (pl_busy p) \<Longrightarrow> map_of (pl_busy p) t = None"
    by (simp add: map_of_eq_None_iff)
  ultimately show "fst (pool_reserve at p t) \<longrightarrow>
      (let p' = fst (snd (pool_reserve at p t))
       in t \<in> set (active_task_ids p') \<and> pool_get p' t = None \<and> pl_started p' \<le> pl_max_size p' \<and>
          fst (pool_release at p' t) =
            p'\<lparr>pl_busy := pl_busy p, pl_reserved := pl_reserved p, pl_started := pl_started p' - 1\<rparr>)"
    by (auto simp: pool_reserve_def pool_release_def pool_get_def active_task_ids_def Let_def
        alist_update_fresh alist_delete_snoc map_add_def)
qed

theorem reserve_iff_capacity_witness:
  "fst (pool_reserve demo_attrs demo_pool ''b'') \<and> has_capacity demo_pool"
proof -
  have "pool_inv demo_pool"
    using pool_inv_reachable [OF demo_pool_reachable] by simp
  from reserve_iff_capacity [OF this, of demo_attrs "''b''"] show ?thesis
    by (simp add: demo_pool_def active_task_ids_def has_capacity_def)
qed

text \<open>A turn on a pooled engine leaves no trace: acquiring an idle engine for a fresh task and
  releasing it healthy and not to be retired restores the pool exactly, the idle order included.\<close>

theorem acquire_release_roundtrip:
  assumes "pool_inv p" and "t \<notin> set (active_task_ids p)" and "pl_idle p \<noteq> []"
    and "pool_acquire at sp p t None = (Inr (Some e), p', st)"
    and "ea_healthy (at' e) \<noteq> Some False" and "\<not> ea_retire (at' e)"
  shows "pool_release at' p' t = (p, [])"
proof -
  from assms have fresh: "t \<notin> fst ` set (pl_busy p)" by (simp add: active_task_ids_def)
  with assms(1) have "t \<notin> pl_reserved p" by (force simp: pool_inv_def)
  moreover from fresh have "map_of (pl_busy p) t = None" by (simp add: map_of_eq_None_iff)
  moreover from assms(3,4) have "e = last (pl_idle p)"
    and "p' = p\<lparr>pl_idle := butlast (pl_idle p), pl_busy := AList.update t (Some e) (pl_busy p)\<rparr>"
    by (auto simp: pool_acquire_def Let_def)
  ultimately show ?thesis using assms(3,5,6) fresh
    by (simp add: pool_release_def alist_update_fresh alist_delete_snoc map_add_def Let_def)
qed

theorem acquire_release_roundtrip_witness:
  "let p = demo_pool\<lparr>pl_idle := [3], pl_started := 2\<rparr>
   in pool_release demo_attrs (fst (snd (pool_acquire demo_attrs (SpawnOk 9) p ''b'' None))) ''b'' = (p, [])"
proof -
  let ?p = "demo_pool\<lparr>pl_idle := [3], pl_started := 2\<rparr>"
  have inv: "pool_inv ?p"
    by (auto simp: pool_inv_def demo_pool_def pool_engines_def busy_engines_list)
  have acq: "pool_acquire demo_attrs (SpawnOk 9) ?p ''b'' None
      = (Inr (Some 3), fst (snd (pool_acquire demo_attrs (SpawnOk 9) ?p ''b'' None)), [])"
    by (simp add: pool_acquire_def demo_pool_def Let_def)
  show ?thesis
    unfolding Let_def
    by (rule acquire_release_roundtrip [OF inv _ _ acq])
       (simp_all add: demo_pool_def demo_attrs_def active_task_ids_def)
qed

text \<open>Session affinity binds only the one matching engine. When \<open>acquire\<close> with a thread id returns,
  it returns an engine that was idle and carries that id, no busy engine and no other idle engine
  carries it, and the engine is now the task's; otherwise it raises and the pool is unchanged. It never
  starts an engine.\<close>

theorem affinity_acquire_exact:
  assumes "pool_inv p" and "t \<notin> set (active_task_ids p)"
  shows "case pool_acquire at sp p t (Some th) of (r, p', st) \<Rightarrow>
    st = [] \<and> pl_started p' = pl_started p \<and>
    (case r of
       Inl x \<Rightarrow> p' = p
     | Inr eo \<Rightarrow> (\<exists>e. eo = Some e \<and> e \<in> set (pl_idle p) \<and> pool_get p' t = Some e \<and>
         {e' \<in> set (pool_engines p). engine_thread_id at (Some e') = Some th} = {e}))"
proof -
  define im where "im = filter (\<lambda>i. engine_thread_id at (Some (pl_idle p ! i)) = Some th) [0..<length (pl_idle p)]"
  define bm where "bm = map fst (filter (\<lambda>(t, eo). engine_thread_id at eo = Some th) (pl_busy p))"
  have eq: "pool_acquire at sp p t (Some th) =
     (if length im + length bm > 1 then (Inl (AffinityAmbiguousError th), p, [])
      else if bm \<noteq> [] then (Inl (AffinityBusyError th (hd bm)), p, [])
      else if im \<noteq> [] then
        (Inr (Some (pl_idle p ! hd im)),
         p\<lparr>pl_idle := take (hd im) (pl_idle p) @ drop (Suc (hd im)) (pl_idle p),
           pl_busy := AList.update t (Some (pl_idle p ! hd im)) (pl_busy p)\<rparr>, [])
      else (Inl (AffinityMissError th), p, []))"
    unfolding pool_acquire_def im_def bm_def Let_def by (simp only: option.case)
  have none_busy: "bm = [] \<Longrightarrow> {e' \<in> set (busy_engines p). engine_thread_id at (Some e') = Some th} = {}"
    by (auto simp: bm_def busy_engines_list set_engine_list filter_empty_conv)
  have one_idle: "{e' \<in> set (pl_idle p). engine_thread_id at (Some e') = Some th} = {pl_idle p ! hd im}"
    and in_idle: "pl_idle p ! hd im \<in> set (pl_idle p)" if "length im = 1"
  proof -
    from that obtain i where i: "im = [i]" by (auto simp: length_Suc_conv)
    with index_filter_single [of "\<lambda>e. engine_thread_id at (Some e) = Some th" "pl_idle p" i]
    show "{e' \<in> set (pl_idle p). engine_thread_id at (Some e') = Some th} = {pl_idle p ! hd im}"
      and "pl_idle p ! hd im \<in> set (pl_idle p)" by (simp_all add: im_def)
  qed
  have "length im = 1" if "length im + length bm \<le> 1" "im \<noteq> []"
    using that by (cases im) auto
  note one = this
  have split: "{e' \<in> set (pool_engines p). engine_thread_id at (Some e') = Some th}
      = {e' \<in> set (busy_engines p). engine_thread_id at (Some e') = Some th}
        \<union> {e' \<in> set (pl_idle p). engine_thread_id at (Some e') = Some th}"
    by (auto simp: pool_engines_def)
  show ?thesis
  proof (cases "length im + length bm \<le> 1 \<and> bm = [] \<and> im \<noteq> []")
    case True
    with one have "length im = 1" by simp
    with True eq none_busy one_idle in_idle split show ?thesis
      by (auto simp: pool_get_def update_conv)
  next
    case False
    with eq show ?thesis by auto
  qed
qed

theorem affinity_acquire_exact_witness:
  "let p = demo_pool\<lparr>pl_idle := [3], pl_started := 2\<rparr>
   in fst (pool_acquire demo_attrs (SpawnOk 9) p ''b'' (Some ''sss'')) = Inr (Some 3) \<and>
      pool_get (fst (snd (pool_acquire demo_attrs (SpawnOk 9) p ''b'' (Some ''sss'')))) ''b'' = Some 3"
proof -
  let ?p = "demo_pool\<lparr>pl_idle := [3], pl_started := 2\<rparr>"
  have inv: "pool_inv ?p" and fresh: "''b'' \<notin> set (active_task_ids ?p)"
    by (auto simp: pool_inv_def demo_pool_def pool_engines_def busy_engines_list active_task_ids_def)
  have "fst (pool_acquire demo_attrs (SpawnOk 9) ?p ''b'' (Some ''sss'')) = Inr (Some 3)"
    by (simp add: pool_acquire_def demo_pool_def demo_attrs_def engine_thread_id_def Let_def
        eval_nat_numeral)
  with affinity_acquire_exact [OF inv fresh, where at = demo_attrs and sp = "SpawnOk 9" and th = "''sss''"] show ?thesis
    by (auto split: prod.splits)
qed

text \<open>\<open>stop_all\<close> stops every live engine and forgets all tasks, but it does not reset the started
  count: a pool that was full has no capacity afterwards, so every later plain \<open>acquire\<close> returns
  \<open>None\<close> and every \<open>reserve\<close> is refused, for good.\<close>

theorem stop_all_strands_capacity:
  assumes "pool_inv p" and "pl_started p = pl_max_size p"
  shows "let p' = fst (pool_stop_all at p) in
     pool_engines p' = [] \<and> active_task_ids p' = [] \<and> \<not> has_capacity p' \<and>
     pool_acquire at' sp p' t None = (Inr None, p', []) \<and>
     pool_reserve at' p' t = (False, p', []) \<and> pool_release at' p' t = (p', [])"
  using assms
  by (simp add: pool_stop_all_def pool_engines_def busy_engines_list active_task_ids_def has_capacity_def
      pool_acquire_def pool_reserve_def pool_release_def)

theorem stop_all_strands_capacity_witness:
  "\<not> has_capacity (fst (pool_stop_all demo_attrs (demo_pool\<lparr>pl_idle := [3], pl_started := 2\<rparr>)))"
proof -
  let ?p = "demo_pool\<lparr>pl_idle := [3], pl_started := 2\<rparr>"
  have inv: "pool_inv ?p" and full: "pl_started ?p = pl_max_size ?p"
    by (auto simp: pool_inv_def demo_pool_def pool_engines_def busy_engines_list)
  from stop_all_strands_capacity [OF inv full, where at = demo_attrs and at' = demo_attrs and sp = "SpawnOk 9"
      and t = "''b''"]
  show ?thesis by (simp add: Let_def)
qed

end
