(* ===== verification/Bridge_Admission.thy ===== *)
theory Bridge_Admission
  imports Complex_Main Claim_Resolver Redis_Io Engine_Pool
begin

text \<open>
  The front of the bridge daemon (\<open>src/src/agent_redis_bridge/bridge.py\<close>, with \<open>usage_budget.py\<close>, \<open>panel_input.py\<close> and
  \<open>tool_call_id.py\<close>): what happens to a message between the inbox and the worktree and engine parts of
  \<open>Bridge.handle_raw\<close>. This is parsing, the refusal reply, mid-turn control, the sender policy, the time
  limit, the claim gate, the replay of durable results, the duplicate filter and the usage budget.

  A call gets its readings of clocks and drawn identifiers in a record. Log lines, the best-effort
  copies of events (\<open>_tee_eval_event\<close>, \<open>_tee_live_event\<close>) and failures of the Redis connection are left
  out. Events go to the record as the commands that were sent. The engines a control message reaches
  are external programs: what they answer is a parameter, and the calls made to them are recorded.
\<close>

section \<open>State\<close>

definition WORKTREE_LIFECYCLE_OPERATIONS :: "string list" where
  "WORKTREE_LIFECYCLE_OPERATIONS = [''worktree_arm'', ''worktree_release'']"

definition OUT_OF_TURN_EVENTS :: "string list" where
  "OUT_OF_TURN_EVENTS = [''task_started'', ''task_continuing'', ''agent_sdk_subscription_audit'']"

record ('e, 'c) bridge_cfg =
  bc_agent_id :: string
  bc_branch :: string
  bc_redis :: redis_config
  bc_policies :: "(string \<times> string) list"
  bc_unknown :: string
  bc_turn_timeout :: int
  bc_turn_timeout_max :: int
  bc_ref_required :: bool
  bc_gate_enabled :: bool
  bc_resolver :: "'c claim_resolver option"
  bc_notify_inbox :: int
  bc_notify_maxlen :: int
  bc_status_ttl :: int
  bc_daily_requests :: int
  bc_daily_seconds :: int
  bc_usage_identity :: string
  bc_steer :: "'e \<Rightarrow> string \<Rightarrow> (string, json) res"       \<comment> \<open>the engine's answer: turn id, or the text of its exception\<close>
  bc_interrupt :: "'e \<Rightarrow> (string, json) res"

record ('e, 'c) bridge =
  bg_redis :: redis
  bg_seen :: "(rat \<times> string) list"
  bg_active :: "(string \<times> envelope) list"
  bg_task_engines :: "(string \<times> 'e) list"
  bg_pool :: "'e pool"
  bg_cancelled :: "string set"
  bg_conn :: 'c
  bg_epoch :: "(string \<times> int) list"
  bg_turn_index :: "(string \<times> int) list"
  bg_events :: "(string \<times> string \<times> dict) list"      \<comment> \<open>task, event, data, in the order sent\<close>
  bg_calls :: "('e \<times> string option) list"          \<comment> \<open>engine, steering message or interrupt\<close>

text \<open>The readings of one call: server time in seconds, two readings of the monotonic clock, a drawn
  identifier, two texts of the current time, and the day.\<close>

record moment =
  mo_now :: int
  mo_mono :: rat
  mo_mono' :: rat
  mo_uid :: string
  mo_iso :: string
  mo_iso' :: string
  mo_day :: string

section \<open>Replies\<close>

record turn_result =
  tr_ok :: bool
  tr_result :: string
  tr_error :: json
  tr_completion :: json
  tr_thread_id :: json

definition failed :: "string \<Rightarrow> turn_result" where
  "failed e = \<lparr>tr_ok = False, tr_result = [], tr_error = JStr e, tr_completion = JNull, tr_thread_id = JNull\<rparr>"

definition expects_structured :: "dict \<Rightarrow> bool" where
  "expects_structured p = (dget p ''expect_structured'' = JBool True)"

definition timeout_echo_fields :: "dict \<Rightarrow> bool \<Rightarrow> dict" where
  "timeout_echo_fields p served =
    (if \<not> dhas p ''turn_timeout'' then []
     else [(''turn_timeout_requested'', dget p ''turn_timeout'')] @
          (if served then [(''turn_timeout_served'', dget p ''turn_timeout'')] else []))"

definition dict_merge :: "dict \<Rightarrow> dict \<Rightarrow> dict" where
  "dict_merge d d' = foldl (\<lambda>d (k, v). AList.update k v d) d d'"

definition reply_payload :: "envelope \<Rightarrow> turn_result \<Rightarrow> json \<Rightarrow> bool \<Rightarrow> dict \<Rightarrow> dict" where
  "reply_payload req r structured turn_started extra =
    (let p = dict_merge (dict_merge
               [(''result'', JStr (tr_result r)), (''ok'', JBool (tr_ok r)), (''error'', tr_error r), (''completion'', tr_completion r),
                (''thread_id'', tr_thread_id r), (''artifact_paths'', JArr [])]
               (timeout_echo_fields (e_payload req) turn_started)) extra
     in if expects_structured (e_payload req) then AList.update ''structured'' structured p else p)"

definition reply_envelope :: "('e, 'c) bridge_cfg \<Rightarrow> moment \<Rightarrow> string \<Rightarrow> string \<Rightarrow> dict \<Rightarrow> envelope" where
  "reply_envelope cfg mo to in_reply_to payload =
     make_reply (mo_uid mo) (mo_iso mo) (bc_agent_id cfg) to (bc_branch cfg) in_reply_to payload"

definition push_reply :: "('e, 'c) bridge_cfg \<Rightarrow> moment \<Rightarrow> string \<Rightarrow> string \<Rightarrow> dict \<Rightarrow> ('e, 'c) bridge \<Rightarrow> ('e, 'c) bridge" where
  "push_reply cfg mo to in_reply_to payload st =
     st\<lparr>bg_redis := lpush (bc_redis cfg) (mo_now mo) to (to_json (reply_envelope cfg mo to in_reply_to payload)) (bg_redis st)\<rparr>"

definition send_reply :: "('e, 'c) bridge_cfg \<Rightarrow> moment \<Rightarrow> envelope \<Rightarrow> turn_result \<Rightarrow> json \<Rightarrow> bool \<Rightarrow> dict \<Rightarrow> ('e, 'c) bridge \<Rightarrow> ('e, 'c) bridge" where
  "send_reply cfg mo req r structured turn_started extra st =
     push_reply cfg mo (e_sender req) (e_id req) (reply_payload req r structured turn_started extra) st"

definition refuse_request :: "('e, 'c) bridge_cfg \<Rightarrow> moment \<Rightarrow> envelope \<Rightarrow> string \<Rightarrow> ('e, 'c) bridge \<Rightarrow> ('e, 'c) bridge" where
  "refuse_request cfg mo req e st = send_reply cfg mo req (failed e) JNull False [] st"

definition REFUSAL_REPLY_REASONS :: "string list" where
  "REFUSAL_REPLY_REASONS =
     [''invalid-payload-task-ref'', ''missing-payload-task'', ''invalid-payload-thread_id'', ''invalid-payload-fork_from_thread_id'',
      ''invalid-payload-claim_ref'', ''invalid-payload-lane'', ''contradictory-context'', ''invalid-run_id'']"

fun refusal_task_type :: "json \<Rightarrow> string" where
  "refusal_task_type JNull = ''null''"
| "refusal_task_type (JBool _) = ''bool''"
| "refusal_task_type (JInt _) = ''int''"
| "refusal_task_type (JFloat _) = ''float''"
| "refusal_task_type (JStr _) = ''str''"
| "refusal_task_type (JObj _) = ''dict''"
| "refusal_task_type (JArr _) = ''list''"

definition refusal_payload :: "('e, 'c) bridge_cfg \<Rightarrow> envelope_header \<Rightarrow> string \<Rightarrow> dict" where
  "refusal_payload cfg h reason =
     [(''result'', JStr []), (''ok'', JBool False), (''error'', JStr (''envelope-invalid: '' @ reason)), (''error_code'', JStr reason),
      (''refused'', JStr ''envelope-parse''), (''task_type'', JStr (refusal_task_type (dget (h_payload h) ''task''))),
      (''task_ref_required'', JBool (bc_ref_required cfg)), (''completion'', JNull), (''thread_id'', JNull), (''artifact_paths'', JArr [])] @
     (if py_truth (dget (h_payload h) ''expect_structured'') then [(''structured'', JNull)] else [])"

definition send_refusal_reply :: "('e, 'c) bridge_cfg \<Rightarrow> moment \<Rightarrow> envelope_header \<Rightarrow> string \<Rightarrow> ('e, 'c) bridge \<Rightarrow> ('e, 'c) bridge" where
  "send_refusal_reply cfg mo h reason st =
    (if reason \<notin> set REFUSAL_REPLY_REASONS then st
     else if h_kind h \<noteq> ''request'' then st
     else if h_recipient h \<noteq> bc_agent_id cfg then st
     else if h_sender h = bc_agent_id cfg then st
     else (case map_of (bc_policies cfg) (h_sender h) of
             None \<Rightarrow> st
           | Some pol \<Rightarrow> (if pol = ''reject'' then st
                         else push_reply cfg mo (h_sender h) (h_id h) (refusal_payload cfg h reason) st)))"

definition send_milestone :: "('e, 'c) bridge_cfg \<Rightarrow> moment \<Rightarrow> envelope \<Rightarrow> string \<Rightarrow> dict \<Rightarrow> ('e, 'c) bridge \<Rightarrow> ('e, 'c) bridge" where
  "send_milestone cfg mo req event data st =
    (let body = to_json (make_notify (mo_uid mo) (mo_iso mo) (bc_agent_id cfg) (e_sender req) (bc_branch cfg) event data)
     in st\<lparr>bg_redis :=
          (if bc_notify_inbox cfg = 0
           then lpush_key (mo_now mo) (notify_inbox_key (bc_redis cfg) (e_sender req)) body (Some (bc_notify_maxlen cfg)) (bg_redis st)
           else lpush (bc_redis cfg) (mo_now mo) (e_sender req) body (bg_redis st))\<rparr>)"

section \<open>Task events and status\<close>

definition setdefault :: "string \<Rightarrow> json \<Rightarrow> dict \<Rightarrow> dict" where
  "setdefault k v d = (if dhas d k then d else d @ [(k, v)])"

definition canonical_tool_call_id :: "dict \<Rightarrow> string" where
  "canonical_tool_call_id d =
    (case List.find (\<lambda>k. nonempty_str (dget d k)) [''tool_call_id'', ''tool_use_id'', ''item_id''] of
       None \<Rightarrow> [] | Some k \<Rightarrow> str_of (dget d k))"

definition stamp_turn_index :: "string \<Rightarrow> string \<Rightarrow> dict \<Rightarrow> ('e, 'c) bridge \<Rightarrow> dict \<times> ('e, 'c) bridge" where
  "stamp_turn_index task event data st =
    (if event \<in> set OUT_OF_TURN_EVENTS then (data, st)
     else
       (let idx = (case map_of (bg_turn_index st) task of None \<Rightarrow> 1 | Some i \<Rightarrow> if i = 0 then 1 else i);
            next = (if event = ''turn_completed'' then idx + 1 else idx)
        in (setdefault ''turn_index'' (JInt idx) data, st\<lparr>bg_turn_index := AList.update task next (bg_turn_index st)\<rparr>)))"

definition push_task_event :: "string \<Rightarrow> string \<Rightarrow> dict \<Rightarrow> ('e, 'c) bridge \<Rightarrow> ('e, 'c) bridge" where
  "push_task_event task event data st =
    (let d1 = (case map_of (bg_epoch st) task of None \<Rightarrow> data | Some n \<Rightarrow> setdefault ''attempt_epoch'' (JInt n) data);
         (d2, st1) = stamp_turn_index task event d1 st;
         cid = canonical_tool_call_id d2;
         d3 = (if event \<in> {''command_started'', ''command_finished'', ''command_output''} \<and> cid \<noteq> []
               then setdefault ''tool_call_id'' (JStr cid) d2 else d2)
     in st1\<lparr>bg_events := bg_events st1 @ [(task, event, d3)]\<rparr>)"

text \<open>The client writes strings and numbers; another value raises \<open>DataError\<close> (its text is left out).\<close>

fun field_text :: "json \<Rightarrow> (string, string) res" where
  "field_text (JStr s) = Inr s"
| "field_text (JInt i) = Inr (int_str i)"
| "field_text (JFloat r) = Inr r"
| "field_text _ = Inl ''DataError''"

fun field_texts :: "dict \<Rightarrow> (string, (string \<times> string) list) res" where
  "field_texts [] = Inr []"
| "field_texts ((k, v) # d) = bind_r (field_text v) (\<lambda>t. bind_r (field_texts d) (\<lambda>ts. Inr ((k, t) # ts)))"

text \<open>A state that is not final; the final states also clear the stall record.\<close>

definition update_task_status :: "('e, 'c) bridge_cfg \<Rightarrow> moment \<Rightarrow> envelope \<Rightarrow> string \<Rightarrow> string \<Rightarrow> string \<Rightarrow> ('e, 'c) bridge
    \<Rightarrow> (string, unit) res \<times> ('e, 'c) bridge" where
  "update_task_status cfg mo req state phase summary st =
    (case field_texts (timeout_echo_fields (e_payload req) True) of
       Inl e \<Rightarrow> (Inl e, st)
     | Inr echo \<Rightarrow>
        (Inr (), st\<lparr>bg_redis := hset_key (mo_now mo) (task_status_key (bc_redis cfg) (e_id req))
           ([(''task_id'', e_id req), (''seat_id'', bc_agent_id cfg), (''state'', state), (''phase'', phase), (''last_summary'', summary),
             (''updated_at'', mo_iso' mo)] @ echo) (Some (bc_status_ttl cfg)) (bg_redis st)\<rparr>))"

section \<open>Mid-turn control\<close>

definition panel_input_lock_reason :: "dict \<Rightarrow> string option" where
  "panel_input_lock_reason p =
    (if py_truth (dget p ''audit_vote_expected'') \<or> py_truth (dget p ''panel_input_locked'') \<or> py_truth (dget p ''certifying'')
     then Some ''panel_task_input_locked'' else None)"

definition policy_of :: "('e, 'c) bridge_cfg \<Rightarrow> string \<Rightarrow> string" where
  "policy_of cfg sender = (case map_of (bc_policies cfg) sender of None \<Rightarrow> bc_unknown cfg | Some p \<Rightarrow> p)"

datatype control_choice = Target envelope | NoTarget | Ambiguous

definition control_target :: "dict \<Rightarrow> ('e, 'c) bridge \<Rightarrow> control_choice" where
  "control_target p st =
    (if bg_active st = [] then NoTarget
     else if nonempty_str (dget p ''task_id'')
     then (case map_of (bg_active st) (str_of (dget p ''task_id'')) of None \<Rightarrow> NoTarget | Some e \<Rightarrow> Target e)
     else if length (bg_active st) = 1 then Target (snd (hd (bg_active st)))
     else Ambiguous)"

definition engine_of :: "string \<Rightarrow> ('e, 'c) bridge \<Rightarrow> 'e option" where
  "engine_of task st = (case map_of (bg_task_engines st) task of Some e \<Rightarrow> Some e | None \<Rightarrow> pool_get (bg_pool st) task)"

definition control_failed :: "('e, 'c) bridge_cfg \<Rightarrow> moment \<Rightarrow> envelope \<Rightarrow> string \<Rightarrow> string \<Rightarrow> ('e, 'c) bridge \<Rightarrow> ('e, 'c) bridge" where
  "control_failed cfg mo env task exc st = send_milestone cfg mo env (e_kind env @ ''_failed'') [(''task_id'', JStr task), (''error'', JStr exc)] st"

definition steer_engine :: "('e, 'c) bridge_cfg \<Rightarrow> moment \<Rightarrow> envelope \<Rightarrow> string \<Rightarrow> 'e \<Rightarrow> ('e, 'c) bridge \<Rightarrow> ('e, 'c) bridge" where
  "steer_engine cfg mo env task e st =
    (let msg = str_of (dget (e_payload env) ''message''); st1 = st\<lparr>bg_calls := bg_calls st @ [(e, Some msg)]\<rparr> in
     case bc_steer cfg e msg of
       Inl x \<Rightarrow> control_failed cfg mo env task x st1
     | Inr turn \<Rightarrow>
        send_milestone cfg mo env ''steer_sent'' [(''task_id'', JStr task), (''turn_id'', turn)]
          (push_task_event task ''steer_sent'' [(''from'', JStr (e_sender env)), (''turn_id'', turn)] st1))"

definition cancel_engine :: "('e, 'c) bridge_cfg \<Rightarrow> moment \<Rightarrow> envelope \<Rightarrow> envelope \<Rightarrow> 'e \<Rightarrow> ('e, 'c) bridge \<Rightarrow> ('e, 'c) bridge" where
  "cancel_engine cfg mo env active e st =
    (let task = e_id active;
         st1 = st\<lparr>bg_cancelled := insert task (bg_cancelled st), bg_calls := bg_calls st @ [(e, None)]\<rparr> in
     case bc_interrupt cfg e of
       Inl x \<Rightarrow> control_failed cfg mo env task x st1
     | Inr turn \<Rightarrow>
        (let st2 = push_task_event task ''cancel_sent'' [(''from'', JStr (e_sender env)), (''turn_id'', turn)] st1 in
         case update_task_status cfg mo active ''cancelling'' ''cancel'' ''Cancellation requested.'' st2 of
           (Inl x, st3) \<Rightarrow> control_failed cfg mo env task x st3
         | (Inr _, st3) \<Rightarrow> send_milestone cfg mo env ''cancel_sent'' [(''task_id'', JStr task), (''turn_id'', turn)] st3))"

definition handle_control :: "('e, 'c) bridge_cfg \<Rightarrow> moment \<Rightarrow> envelope \<Rightarrow> ('e, 'c) bridge \<Rightarrow> ('e, 'c) bridge" where
  "handle_control cfg mo env st =
    (let rejected = e_kind env @ ''_rejected'' in
     if policy_of cfg (e_sender env) = ''reject'' then st
     else (case control_target (e_payload env) st of
       Ambiguous \<Rightarrow>
         send_milestone cfg mo env rejected
           [(''reason'', JStr ''task_id required (multiple active)''), (''active_task_ids'', JArr (map (JStr \<circ> fst) (bg_active st)))] st
     | NoTarget \<Rightarrow>
         (if nonempty_str (dget (e_payload env) ''task_id'')
          then send_milestone cfg mo env rejected
                 [(''reason'', JStr ''wrong task''), (''active_task_ids'', JArr (map JStr (active_task_ids (bg_pool st))))] st
          else send_milestone cfg mo env rejected [(''reason'', JStr ''no active task'')] st)
     | Target active \<Rightarrow>
         (case (if e_kind env \<in> {''steer'', ''cancel''} then panel_input_lock_reason (e_payload active) else None) of
            Some reason \<Rightarrow>
              (let data = [(''reason'', JStr reason), (''task_id'', JStr (e_id active))]
               in send_milestone cfg mo env rejected data
                    (push_task_event (e_id active) rejected ((''from'', JStr (e_sender env)) # data) st))
          | None \<Rightarrow>
              (case engine_of (e_id active) st of
                 None \<Rightarrow> send_milestone cfg mo env rejected [(''reason'', JStr ''engine unavailable'')] st
               | Some e \<Rightarrow>
                   (if e_kind env = ''steer'' then steer_engine cfg mo env (e_id active) e st
                    else if e_kind env = ''cancel'' then cancel_engine cfg mo env active e st
                    else st)))))"

section \<open>Limits\<close>

definition validate_requested_turn_timeout :: "('e, 'c) bridge_cfg \<Rightarrow> dict \<Rightarrow> string \<Rightarrow> string option" where
  "validate_requested_turn_timeout cfg p policy =
    (if \<not> dhas p ''turn_timeout'' then None
     else if policy \<noteq> ''trusted'' then Some (''turn_timeout requires trusted sender policy; resolved policy='' @ policy)
     else (case dget p ''turn_timeout'' of
             JInt n \<Rightarrow>
               (if n \<le> 0 then Some (''invalid turn_timeout value '' @ json_dumps wire_style (JInt n) @ ''; expected a positive integer'')
                else if bc_turn_timeout_max cfg < n
                then Some (''requested turn_timeout '' @ int_str n @ '' exceeds seat --turn-timeout-max '' @ int_str (bc_turn_timeout_max cfg))
                else None)
           | v \<Rightarrow> Some (''invalid turn_timeout value '' @ json_dumps wire_style v @ ''; expected a positive integer'')))"

definition effective_task_turn_timeout :: "('e, 'c) bridge_cfg \<Rightarrow> dict \<Rightarrow> int" where
  "effective_task_turn_timeout cfg p =
    (case dget p ''turn_timeout'' of JInt n \<Rightarrow> (if 0 < n then n else bc_turn_timeout cfg) | _ \<Rightarrow> bc_turn_timeout cfg)"

text \<open>Counters hold the texts that \<open>INCRBY\<close> writes; any other text is an error here.\<close>

definition get_int :: "int \<Rightarrow> string \<Rightarrow> redis \<Rightarrow> (string, int) res" where
  "get_int now k s =
    (case get_str now k s of
       None \<Rightarrow> Inr 0
     | Some v \<Rightarrow> (if num_kind v = Some True then Inr (int_of_str v) else Inl ''ValueError''))"

definition incrby :: "int \<Rightarrow> string \<Rightarrow> int \<Rightarrow> int option \<Rightarrow> redis \<Rightarrow> (string, int) res \<times> redis" where
  "incrby now k amount ttl s0 =
    (let s = purge now s0 in
     case (case rd_str s k of None \<Rightarrow> Inr 0 | Some v \<Rightarrow> if num_kind v = Some True then Inr (int_of_str v) else Inl ''ResponseError'') of
       Inl e \<Rightarrow> (Inl e, s)
     | Inr old \<Rightarrow>
        (let n = old + amount; s1 = s\<lparr>rd_str := (rd_str s)(k \<mapsto> int_str n)\<rparr>
         in (Inr n, case ttl of None \<Rightarrow> s1 | Some t \<Rightarrow> r_expire now k t s1)))"

definition evaluate_usage_budget :: "int \<Rightarrow> int \<Rightarrow> (string, int) res \<Rightarrow> (string, int) res \<Rightarrow> (string, string option) res" where
  "evaluate_usage_budget request_limit turn_seconds_limit read_requests read_turn_seconds =
    bind_r (if 0 < request_limit then bind_r read_requests (\<lambda>n. Inr (request_limit \<le> n)) else Inr False) (\<lambda>reached.
      if reached then Inr (Some ''daily-request-limit-reached'')
      else bind_r (if 0 < turn_seconds_limit then bind_r read_turn_seconds (\<lambda>n. Inr (turn_seconds_limit \<le> n)) else Inr False) (\<lambda>reached.
        Inr (if reached then Some ''daily-turn-seconds-limit-reached'' else None)))"

definition check_usage_budget :: "('e, 'c) bridge_cfg \<Rightarrow> moment \<Rightarrow> ('e, 'c) bridge \<Rightarrow> (string, string option) res" where
  "check_usage_budget cfg mo st =
    (let key = usage_key (bc_redis cfg) (bc_usage_identity cfg) (mo_day mo)
     in evaluate_usage_budget (bc_daily_requests cfg) (bc_daily_seconds cfg)
          (get_int (mo_now mo) (key ''requests'') (bg_redis st)) (get_int (mo_now mo) (key ''turn_seconds'') (bg_redis st)))"

definition record_usage :: "('e, 'c) bridge_cfg \<Rightarrow> moment \<Rightarrow> int \<Rightarrow> string \<Rightarrow> int \<Rightarrow> ('e, 'c) bridge \<Rightarrow> (string, unit) res \<times> ('e, 'c) bridge" where
  "record_usage cfg mo limit metric amount st =
    (if limit \<le> 0 then (Inr (), st)
     else (case incrby (mo_now mo) (usage_key (bc_redis cfg) (bc_usage_identity cfg) (mo_day mo) metric) amount (Some (36 * 60 * 60)) (bg_redis st) of
             (Inl e, r) \<Rightarrow> (Inl e, st\<lparr>bg_redis := r\<rparr>)
           | (Inr _, r) \<Rightarrow> (Inr (), st\<lparr>bg_redis := r\<rparr>)))"

definition record_request_started :: "('e, 'c) bridge_cfg \<Rightarrow> moment \<Rightarrow> ('e, 'c) bridge \<Rightarrow> (string, unit) res \<times> ('e, 'c) bridge" where
  "record_request_started cfg mo st = record_usage cfg mo (bc_daily_requests cfg) ''requests'' 1 st"

definition record_turn_seconds :: "('e, 'c) bridge_cfg \<Rightarrow> moment \<Rightarrow> int \<Rightarrow> ('e, 'c) bridge \<Rightarrow> (string, unit) res \<times> ('e, 'c) bridge" where
  "record_turn_seconds cfg mo secs st = record_usage cfg mo (bc_daily_seconds cfg) ''turn_seconds'' secs st"

section \<open>Duplicates\<close>

definition is_duplicate :: "moment \<Rightarrow> string \<Rightarrow> (rat \<times> string) list \<Rightarrow> bool \<times> (rat \<times> string) list" where
  "is_duplicate mo rid seen =
    (let kept = dropWhile (\<lambda>(t, _). t < mo_mono mo - 60) seen in
     if \<exists>(_, i) \<in> set kept. i = rid then (True, kept) else (False, kept @ [(mo_mono' mo, rid)]))"

section \<open>The gate and durable results\<close>

definition opt_json_str :: "string option \<Rightarrow> json" where
  "opt_json_str v = (case v of None \<Rightarrow> JNull | Some s \<Rightarrow> JStr s)"

definition brief_ref_json :: "(json \<times> json) option \<Rightarrow> json" where
  "brief_ref_json r = (case r of None \<Rightarrow> JNull | Some (a, v) \<Rightarrow> JObj [(''artefact_id'', a), (''version'', v)])"

definition claim_facts_json :: "claim_facts option \<Rightarrow> json" where
  "claim_facts_json f =
    (case f of None \<Rightarrow> JNull
     | Some c \<Rightarrow> JObj [(''confirmed_now'', JBool (cf_confirmed_now c)), (''attested'', JBool (cf_attested c)),
                      (''decorrelation_provenance'', JStr (cf_provenance c))])"

definition audit_json :: "gate_audit \<Rightarrow> json" where
  "audit_json a = JObj
     [(''brief_ref'', brief_ref_json (au_brief_ref a)),
      (''posture_required'', case au_posture_required a of None \<Rightarrow> JNull | Some b \<Rightarrow> JBool b),
      (''lease_id'', opt_json_str (au_lease_id a)), (''resolved_lane'', opt_json_str (au_resolved_lane a)),
      (''claim_ref'', opt_json_str (au_claim_ref a)), (''claim_facts'', claim_facts_json (au_claim_facts a)),
      (''decision'', JStr (au_decision a))]"

definition missing_resolver :: gate_outcome where
  "missing_resolver = refusal STORE_UNREACHABLE [''claim resolver is unavailable'', ''operator action: restart the seat'']"

definition run_gate :: "('e, 'c) bridge_cfg \<Rightarrow> envelope \<Rightarrow> ('e, 'c) bridge \<Rightarrow> gate_outcome option \<times> ('e, 'c) bridge" where
  "run_gate cfg e st =
    (case bc_resolver cfg of
       None \<Rightarrow> (Some missing_resolver, st)
     | Some rs \<Rightarrow>
        (let (ev, c) = evaluate rs (bc_agent_id cfg) e (bg_conn st); a = ge_audit ev
         in (ge_outcome ev,
             push_task_event (e_id e) ''gate_evaluation''
               [(''task_id'', JStr (e_id e)), (''decision'', JStr (au_decision a)), (''audit'', audit_json a), (''brief_ref'', brief_ref_json (au_brief_ref a))]
               (st\<lparr>bg_conn := c\<rparr>))))"

definition replay_keys :: "string list" where
  "replay_keys = [''lease_id'', ''path'', ''expires_at'', ''base_oid'', ''thread_resume'']"

definition replay_durable_lifecycle_result :: "('e, 'c) bridge_cfg \<Rightarrow> moment \<Rightarrow> envelope \<Rightarrow> string \<Rightarrow> ('e, 'c) bridge \<Rightarrow> ('e, 'c) bridge" where
  "replay_durable_lifecycle_result cfg mo e durable st =
    (case json_loads durable of
       Some (JObj d) \<Rightarrow>
        (let ok = py_truth (dget d ''ok'');
             result = \<lparr>tr_ok = ok, tr_result = (if py_truth (dget d ''result'') then py_str (dget d ''result'') else []),
                       tr_error = (if ok then JNull else dget d ''error''), tr_completion = JNull, tr_thread_id = JNull\<rparr>;
             extra = map (\<lambda>k. (k, dget d k)) (filter (dhas d) replay_keys)
         in send_reply cfg mo e result JNull False extra st)
     | _ \<Rightarrow> st)"

section \<open>The front of handle_raw\<close>

text \<open>\<open>Admitted\<close> continues with the worktree and engine part; \<open>Crashed\<close> is an exception out of the handler, which the inbox loop logs.\<close>

datatype front = Finished | Crashed string | Admitted envelope string

definition is_lifecycle :: "envelope \<Rightarrow> bool" where
  "is_lifecycle e \<longleftrightarrow> (\<exists>o' \<in> set WORKTREE_LIFECYCLE_OPERATIONS. dget (e_payload e) ''operation'' = JStr o')"

text \<open>After the gate: the durable result of a life-cycle operation, the duplicate filter, the budget.\<close>

definition request_tail :: "('e, 'c) bridge_cfg \<Rightarrow> moment \<Rightarrow> envelope \<Rightarrow> string \<Rightarrow> ('e, 'c) bridge \<Rightarrow> front \<times> ('e, 'c) bridge" where
  "request_tail cfg mo e policy st =
    (case (if is_lifecycle e then get_str (mo_now mo) (task_result_key (bc_redis cfg) (e_id e)) (bg_redis st) else None) of
       Some durable \<Rightarrow> (Finished, replay_durable_lifecycle_result cfg mo e durable st)
     | None \<Rightarrow>
       (let (dup, seen) = is_duplicate mo (e_id e) (bg_seen st); st2 = st\<lparr>bg_seen := seen\<rparr> in
        if dup then (Finished, st2)
        else
          (case check_usage_budget cfg mo st2 of
             Inl x \<Rightarrow> (Crashed x, st2)
           | Inr (Some err) \<Rightarrow> (Finished, refuse_request cfg mo e err st2)
           | Inr None \<Rightarrow> (Admitted e policy, st2))))"

definition handle_request :: "('e, 'c) bridge_cfg \<Rightarrow> moment \<Rightarrow> envelope \<Rightarrow> ('e, 'c) bridge \<Rightarrow> front \<times> ('e, 'c) bridge" where
  "handle_request cfg mo e st =
    (let policy = policy_of cfg (e_sender e) in
     case validate_requested_turn_timeout cfg (e_payload e) policy of
       Some err \<Rightarrow> (Finished, refuse_request cfg mo e err st)
     | None \<Rightarrow>
    (if policy = ''reject'' then (Finished, refuse_request cfg mo e (''sender rejected: '' @ e_sender e) st)
     else
       (case (if bc_gate_enabled cfg \<and> \<not> is_lifecycle e then run_gate cfg e st else (None, st)) of
          (Some o', st1) \<Rightarrow> (Finished, refuse_request cfg mo e (outcome_as_error o') st1)
        | (None, st1) \<Rightarrow> request_tail cfg mo e policy st1)))"

definition handle_raw_front :: "('e, 'c) bridge_cfg \<Rightarrow> moment \<Rightarrow> string \<Rightarrow> ('e, 'c) bridge \<Rightarrow> front \<times> ('e, 'c) bridge" where
  "handle_raw_front cfg mo raw st =
    (case from_json (bc_ref_required cfg) raw of
       Inl EnvelopeTypeError \<Rightarrow> (Crashed ''TypeError'', st)
     | Inl (EnvelopeError reason None) \<Rightarrow> (Finished, st)
     | Inl (EnvelopeError reason (Some h)) \<Rightarrow> (Finished, send_refusal_reply cfg mo h reason st)
     | Inr e \<Rightarrow>
        (if e_recipient e \<noteq> bc_agent_id cfg then (Finished, st)
         else if e_sender e = bc_agent_id cfg then (Finished, st)
         else if e_kind e \<in> {''steer'', ''cancel''} then (Finished, handle_control cfg mo e st)
         else if e_kind e \<noteq> ''request'' then (Finished, st)
         else handle_request cfg mo e st))"

section \<open>Worktree specifications\<close>

record worktree_spec =
  ws_name :: string
  ws_base_ref :: string
  ws_cleanup :: string

definition name_start :: "char \<Rightarrow> bool" where
  "name_start c \<longleftrightarrow> is_digit c \<or> (of_char c :: nat) \<in> {65..90} \<or> (of_char c :: nat) \<in> {97..122}"

text \<open>\<open>fullmatch\<close> and \<open>match\<close> of \<open>WORKTREE_NAME_PATTERN\<close>; the \<open>$\<close> of \<open>match\<close> also matches before a final line feed.\<close>

definition name_fullmatch :: "string \<Rightarrow> bool" where
  "name_fullmatch s \<longleftrightarrow> s \<noteq> [] \<and> length s \<le> 64 \<and> name_start (hd s) \<and>
     list_all (\<lambda>c. name_start c \<or> c \<in> {CHR ''.'', CHR ''_'', CHR ''-''}) (tl s)"

definition name_match :: "string \<Rightarrow> bool" where
  "name_match s \<longleftrightarrow> name_fullmatch s \<or> (s \<noteq> [] \<and> last s = CHR 0x0A \<and> name_fullmatch (butlast s))"

fun has_dots :: "string \<Rightarrow> bool" where
  "has_dots (c # d # cs) \<longleftrightarrow> (c = CHR ''.'' \<and> d = CHR ''.'') \<or> has_dots (d # cs)"
| "has_dots _ \<longleftrightarrow> False"

definition parse_worktree_spec :: "dict \<Rightarrow> (string, worktree_spec option) res" where
  "parse_worktree_spec p =
    (case dget p ''worktree'' of
       JNull \<Rightarrow> Inr None
     | JObj spec \<Rightarrow>
        (case dget spec ''name'' of
           JStr name \<Rightarrow>
            (if has_dots name \<or> \<not> name_match name then Inl (''invalid worktree name: '' @ repr_str name)
             else (case (if py_truth (dget spec ''base_ref'') then dget spec ''base_ref'' else JStr ''HEAD'') of
               JStr base \<Rightarrow>
                (if py_startswith base ''-'' \<or> (\<exists>c \<in> set base. py_isspace c) then Inl (''invalid base_ref: '' @ repr_str base)
                 else (case (if dhas spec ''cleanup'' then dget spec ''cleanup'' else JStr ''keep'') of
                   JStr c \<Rightarrow>
                    (if c \<in> {''keep'', ''auto''} then Inr (Some \<lparr>ws_name = name, ws_base_ref = base, ws_cleanup = c\<rparr>)
                     else Inl (''invalid cleanup policy: '' @ repr_str c @ '' (want keep|auto)''))
                 | v \<Rightarrow> Inl (''invalid cleanup policy: '' @ py_repr v @ '' (want keep|auto)'')))
             | v \<Rightarrow> Inl (''invalid base_ref: '' @ py_repr v)))
         | v \<Rightarrow> Inl (''invalid worktree name: '' @ py_repr v))
     | _ \<Rightarrow> Inl ''worktree must be an object'')"

definition request_thread_id :: "dict \<Rightarrow> string option" where
  "request_thread_id p = (if nonblank_str (dget p ''thread_id'') then Some (str_of (dget p ''thread_id'')) else None)"

definition request_fork_thread_id :: "dict \<Rightarrow> string option" where
  "request_fork_thread_id p = (if nonblank_str (dget p ''fork_from_thread_id'') then Some (str_of (dget p ''fork_from_thread_id'')) else None)"

definition wants_fresh_context :: "bool \<Rightarrow> dict \<Rightarrow> bool" where
  "wants_fresh_context dflt p =
    (if (request_thread_id p \<noteq> None \<or> request_fork_thread_id p \<noteq> None) \<and> \<not> dhas p ''fresh_context'' then False
     else if \<not> dhas p ''fresh_context'' then dflt
     else dget p ''fresh_context'' = JBool True)"

definition is_scored_request :: "envelope \<Rightarrow> bool" where
  "is_scored_request e =
    (let run = (case e_run_id e of Some (c # cs) \<Rightarrow> JStr (c # cs) | _ \<Rightarrow> dget (e_payload e) ''run_id'')
     in is_str run \<and> py_startswith (str_of run) ''oi-pi-bakeoff-'')"


section \<open>Lemmas\<close>

text \<open>What pushing an event and sending a message leave alone.\<close>

lemma push_task_event_keeps [simp]:
  "bg_redis (push_task_event task event data st) = bg_redis st" "bg_seen (push_task_event task event data st) = bg_seen st"
  "bg_calls (push_task_event task event data st) = bg_calls st" "bg_active (push_task_event task event data st) = bg_active st"
  "bg_conn (push_task_event task event data st) = bg_conn st" "bg_cancelled (push_task_event task event data st) = bg_cancelled st"
  by (simp_all add: push_task_event_def stamp_turn_index_def Let_def)

lemma send_milestone_keeps [simp]:
  "bg_calls (send_milestone cfg mo req event data st) = bg_calls st" "bg_cancelled (send_milestone cfg mo req event data st) = bg_cancelled st"
  "bg_active (send_milestone cfg mo req event data st) = bg_active st" "bg_seen (send_milestone cfg mo req event data st) = bg_seen st"
  by (simp_all add: send_milestone_def Let_def)

lemma push_reply_simps [simp]:
  "bg_redis (push_reply cfg mo to irt payload st) =
     lpush (bc_redis cfg) (mo_now mo) to (to_json (reply_envelope cfg mo to irt payload)) (bg_redis st)"
  "bg_calls (push_reply cfg mo to irt payload st) = bg_calls st" "bg_seen (push_reply cfg mo to irt payload st) = bg_seen st"
  by (simp_all add: push_reply_def)

lemma run_gate_keeps:
  assumes "run_gate cfg e st = (o', st')"
  shows "bg_redis st' = bg_redis st" "bg_seen st' = bg_seen st" "bg_calls st' = bg_calls st"
  using assms by (auto simp: run_gate_def Let_def split: option.splits prod.splits)

lemma run_gate_admits:
  assumes "run_gate cfg e st = (None, st')"
  shows "\<exists>rs. bc_resolver cfg = Some rs \<and> ge_outcome (fst (evaluate rs (bc_agent_id cfg) e (bg_conn st))) = None"
  using assms by (auto simp: run_gate_def Let_def split: option.splits prod.splits)

lemma wf_merge: "json_wf (JObj d) \<Longrightarrow> list_all (\<lambda>(k, v). json_wf v) d' \<Longrightarrow> json_wf (JObj (dict_merge d d'))"
proof (induction d' arbitrary: d)
  case (Cons kv d')
  obtain k v where kv: "kv = (k, v)" by fastforce
  have "json_wf (JObj (AList.update k v d))" using Cons.prems kv by (intro wf_update) auto
  with Cons kv show ?case by (simp add: dict_merge_def del: json_wf.simps(3))
qed (simp add: dict_merge_def)

text \<open>A payload that can be sent, and the envelope it makes.\<close>

definition result_wf :: "turn_result \<Rightarrow> bool" where
  "result_wf r \<longleftrightarrow> json_wf (tr_error r) \<and> json_wf (tr_completion r) \<and> json_wf (tr_thread_id r)"

lemma reply_payload_wf:
  assumes "json_wf (JObj (e_payload req))" "result_wf r" "json_wf structured" "list_all (\<lambda>(k, v). json_wf v) extra"
  shows "json_wf (JObj (reply_payload req r structured started extra))"
proof -
  let ?b = "[(''result'', JStr (tr_result r)), (''ok'', JBool (tr_ok r)), (''error'', tr_error r), (''completion'', tr_completion r),
                (''thread_id'', tr_thread_id r), (''artifact_paths'', JArr [])]"
  have t: "json_wf (dget (e_payload req) ''turn_timeout'')"
  proof (cases "map_of (e_payload req) ''turn_timeout''")
    case (Some v)
    then have "(''turn_timeout'', v) \<in> set (e_payload req)" by (rule map_of_SomeD)
    from json_wf_member [OF assms(1) this] Some show ?thesis by simp
  qed (simp add: dget_def)
  have "json_wf (JObj ?b)" using assms(2) by (simp add: result_wf_def json_wf_Cons wf_empty del: json_wf.simps(3))
  moreover have "list_all (\<lambda>(k, v). json_wf v) (timeout_echo_fields (e_payload req) started)"
    using t by (simp add: timeout_echo_fields_def)
  ultimately have "json_wf (JObj (dict_merge (dict_merge ?b (timeout_echo_fields (e_payload req) started)) extra))"
    by (intro wf_merge assms(4))
  then show ?thesis unfolding reply_payload_def Let_def using wf_update [OF _ assms(3)] by (simp del: json_wf.simps(3))
qed

definition can_send :: "('e, 'c) bridge_cfg \<Rightarrow> moment \<Rightarrow> bool" where
  "can_send cfg mo \<longleftrightarrow> mo_uid mo \<noteq> [] \<and> mo_iso mo \<noteq> [] \<and> bc_agent_id cfg \<noteq> [] \<and> bc_branch cfg \<noteq> []"

lemma reply_parses:
  assumes "can_send cfg mo" "to \<noteq> []" "irt \<noteq> []" "json_wf (JObj payload)"
  shows "from_json False (to_json (reply_envelope cfg mo to irt payload)) = Inr (reply_envelope cfg mo to irt payload)"
  unfolding reply_envelope_def using assms by (intro to_json_from_json make_reply_ok) (simp_all add: can_send_def)

text \<open>Exactly one reply to the request reached its sender's inbox, and it parses there.\<close>

definition answered :: "('e, 'c) bridge_cfg \<Rightarrow> moment \<Rightarrow> string \<Rightarrow> string \<Rightarrow> redis \<Rightarrow> redis \<Rightarrow> bool" where
  "answered cfg mo to irt r r' \<longleftrightarrow>
     (\<exists>reply. r' = lpush (bc_redis cfg) (mo_now mo) to (to_json reply) r \<and> from_json False (to_json reply) = Inr reply \<and>
        e_kind reply = ''reply'' \<and> e_recipient reply = to \<and> e_in_reply_to reply = Some irt)"

lemma push_reply_answers:
  assumes "can_send cfg mo" "to \<noteq> []" "irt \<noteq> []" "json_wf (JObj payload)"
  shows "answered cfg mo to irt (bg_redis st) (bg_redis (push_reply cfg mo to irt payload st))"
  unfolding answered_def using reply_parses [OF assms]
  by (intro exI [of _ "reply_envelope cfg mo to irt payload"]) (simp add: reply_envelope_def make_reply_def)

lemma refuse_request_answers:
  assumes "can_send cfg mo" "e_sender e \<noteq> []" "e_id e \<noteq> []" "json_wf (JObj (e_payload e))"
  shows "answered cfg mo (e_sender e) (e_id e) (bg_redis st) (bg_redis (refuse_request cfg mo e err st))"
  unfolding refuse_request_def send_reply_def
  by (intro push_reply_answers assms reply_payload_wf) (simp_all add: result_wf_def failed_def)

lemma replay_answers:
  assumes "can_send cfg mo" "e_sender e \<noteq> []" "e_id e \<noteq> []" "json_wf (JObj (e_payload e))" "json_loads durable = Some (JObj d)"
  shows "answered cfg mo (e_sender e) (e_id e) (bg_redis st) (bg_redis (replay_durable_lifecycle_result cfg mo e durable st))"
proof -
  have wf: "json_wf (JObj d)" by (rule json_loads_wf [OF assms(5)])
  have get: "json_wf (dget d k)" for k
  proof (cases "map_of d k")
    case (Some v)
    then have "(k, v) \<in> set d" by (rule map_of_SomeD)
    from json_wf_member [OF wf this] Some show ?thesis by simp
  qed (simp add: dget_def)
  show ?thesis
    unfolding replay_durable_lifecycle_result_def assms(5) option.case json.case Let_def send_reply_def
    by (intro push_reply_answers assms(1-3) reply_payload_wf assms(4)) (simp_all add: result_wf_def get list_all_iff)
qed

text \<open>The ways a request leaves the front, first after the gate and then from the start.\<close>

definition gate_passed :: "('e, 'c) bridge_cfg \<Rightarrow> envelope \<Rightarrow> ('e, 'c) bridge \<Rightarrow> bool" where
  "gate_passed cfg e st \<longleftrightarrow> (bc_gate_enabled cfg \<and> \<not> is_lifecycle e \<longrightarrow>
     (\<exists>rs. bc_resolver cfg = Some rs \<and> ge_outcome (fst (evaluate rs (bc_agent_id cfg) e (bg_conn st))) = None))"

lemma check_usage_budget_seen: "bg_redis st1 = bg_redis st \<Longrightarrow> check_usage_budget cfg mo (st1\<lparr>bg_seen := seen\<rparr>) = check_usage_budget cfg mo st"
  by (simp add: check_usage_budget_def)

lemma request_tail_cases:
  assumes "request_tail cfg mo e policy st = (out, st')"
  obtains (refused) err seen where "out = Finished" "st' = refuse_request cfg mo e err (st\<lparr>bg_seen := seen\<rparr>)"
  | (replayed) durable where "out = Finished" "is_lifecycle e"
      "get_str (mo_now mo) (task_result_key (bc_redis cfg) (e_id e)) (bg_redis st) = Some durable"
      "st' = replay_durable_lifecycle_result cfg mo e durable st"
  | (duplicate) "out = Finished" "fst (is_duplicate mo (e_id e) (bg_seen st))" "bg_redis st' = bg_redis st"
  | (crashed) x where "out = Crashed x" "check_usage_budget cfg mo st = Inl x" "bg_redis st' = bg_redis st"
  | (admitted) "out = Admitted e policy" "is_duplicate mo (e_id e) (bg_seen st) = (False, bg_seen st')" "check_usage_budget cfg mo st = Inr None"
      "bg_redis st' = bg_redis st"
proof (cases "if is_lifecycle e then get_str (mo_now mo) (task_result_key (bc_redis cfg) (e_id e)) (bg_redis st) else None")
  case (Some durable)
  with assms show thesis by (intro replayed [of durable]) (auto simp: request_tail_def split: if_splits)
next
  case d: None
  obtain dup seen where dup: "is_duplicate mo (e_id e) (bg_seen st) = (dup, seen)" by fastforce
  let ?st = "st\<lparr>bg_seen := seen\<rparr>"
  have rest: "(out, st') = (if dup then (Finished, ?st)
      else (case check_usage_budget cfg mo st of
         Inl x \<Rightarrow> (Crashed x, ?st)
       | Inr (Some err) \<Rightarrow> (Finished, refuse_request cfg mo e err ?st)
       | Inr None \<Rightarrow> (Admitted e policy, ?st)))"
    using assms d dup by (auto simp: request_tail_def Let_def check_usage_budget_seen [OF refl])
  consider "dup" | x where "\<not> dup" "check_usage_budget cfg mo st = Inl x" | err where "\<not> dup" "check_usage_budget cfg mo st = Inr (Some err)"
    | "\<not> dup" "check_usage_budget cfg mo st = Inr None"
    by (metis not_None_eq sum.exhaust)
  then show thesis
  proof cases
    case 1 with rest dup show thesis by (intro duplicate) auto
  next
    case (2 x) with rest show thesis by (intro crashed [of x]) auto
  next
    case (3 err) with rest show thesis by (intro refused [of err seen]) auto
  next
    case 4 with rest dup show thesis by (intro admitted) auto
  qed
qed

lemma handle_request_cases:
  assumes "handle_request cfg mo e st = (out, st')"
  obtains (refused) err st1 where "out = Finished" "bg_redis st1 = bg_redis st" "st' = refuse_request cfg mo e err st1"
  | (passed) st1 where "policy_of cfg (e_sender e) \<noteq> ''reject''"
      "validate_requested_turn_timeout cfg (e_payload e) (policy_of cfg (e_sender e)) = None" "gate_passed cfg e st"
      "bg_redis st1 = bg_redis st" "bg_seen st1 = bg_seen st" "request_tail cfg mo e (policy_of cfg (e_sender e)) st1 = (out, st')"
proof -
  let ?pol = "policy_of cfg (e_sender e)"
  obtain outc st1 where g: "(if bc_gate_enabled cfg \<and> \<not> is_lifecycle e then run_gate cfg e st else (None, st)) = (outc, st1)" by fastforce
  have keeps: "bg_redis st1 = bg_redis st" "bg_seen st1 = bg_seen st"
    using g run_gate_keeps [of cfg e st outc st1] by (auto split: if_splits)
  consider err where "validate_requested_turn_timeout cfg (e_payload e) ?pol = Some err"
    | "validate_requested_turn_timeout cfg (e_payload e) ?pol = None" "?pol = ''reject''"
    | o' where "validate_requested_turn_timeout cfg (e_payload e) ?pol = None" "?pol \<noteq> ''reject''" "outc = Some o'"
    | "validate_requested_turn_timeout cfg (e_payload e) ?pol = None" "?pol \<noteq> ''reject''" "outc = None"
    by (metis not_None_eq)
  then show thesis
  proof cases
    case (1 err) with assms show thesis by (intro refused [of st err]) (auto simp: handle_request_def Let_def)
  next
    case 2 with assms show thesis by (intro refused [of st "''sender rejected: '' @ e_sender e"]) (auto simp: handle_request_def Let_def)
  next
    case (3 o') with assms g keeps show thesis
      by (intro refused [of st1 "outcome_as_error o'"]) (auto simp: handle_request_def Let_def)
  next
    case 4
    have "gate_passed cfg e st" unfolding gate_passed_def using g 4(3) run_gate_admits by (auto split: if_splits)
    moreover have "request_tail cfg mo e ?pol st1 = (out, st')"
      using assms unfolding handle_request_def Let_def 4(1) g 4(3) using 4(2) by simp
    ultimately show thesis using 4(1,2) keeps by (intro passed)
  qed
qed

text \<open>The duplicate filter over a run of calls, and its reference: a call is a duplicate if the same request was accepted at most sixty
  seconds ago, with nothing ever forgotten.\<close>

fun dup_run :: "(moment \<times> string) list \<Rightarrow> (rat \<times> string) list \<Rightarrow> bool list" where
  "dup_run [] seen = []"
| "dup_run ((mo, rid) # calls) seen = (let (dup, seen') = is_duplicate mo rid seen in dup # dup_run calls seen')"

fun dup_ref :: "(moment \<times> string) list \<Rightarrow> (rat \<times> string) list \<Rightarrow> bool list" where
  "dup_ref [] accepted = []"
| "dup_ref ((mo, rid) # calls) accepted =
    (let dup = (\<exists>(t, i) \<in> set accepted. i = rid \<and> mo_mono mo - 60 \<le> t)
     in dup # dup_ref calls (if dup then accepted else accepted @ [(mo_mono' mo, rid)]))"

text \<open>The clock does not run backwards.\<close>

fun clock_ok :: "rat \<Rightarrow> (moment \<times> string) list \<Rightarrow> bool" where
  "clock_ok t [] \<longleftrightarrow> True"
| "clock_ok t ((mo, rid) # calls) \<longleftrightarrow> t \<le> mo_mono mo \<and> mo_mono mo \<le> mo_mono' mo \<and> clock_ok (mo_mono' mo) calls"

lemma dropWhile_sorted:
  assumes "sorted (map fst xs)"
  shows "set (dropWhile (\<lambda>(t, _). t < b) xs) = {x \<in> set xs. b \<le> fst x}"
  using assms
proof (induction xs)
  case (Cons x xs)
  then show ?case by (cases x) (auto dest: order_trans)
qed simp

lemma sorted_dropWhile_fst: "sorted (map fst xs) \<Longrightarrow> sorted (map fst (dropWhile P xs))"
  by (induction xs) auto

text \<open>The queue and the full history agree on the entries that can still matter.\<close>

definition same_recent :: "rat \<Rightarrow> (rat \<times> string) list \<Rightarrow> (rat \<times> string) list \<Rightarrow> bool" where
  "same_recent now seen accepted \<longleftrightarrow> sorted (map fst seen) \<and> (\<forall>x \<in> set seen. fst x \<le> now) \<and>
     {x \<in> set seen. now - 60 \<le> fst x} = {x \<in> set accepted. now - 60 \<le> fst x}"

lemma is_duplicate_step:
  assumes "same_recent now seen accepted" "now \<le> mo_mono mo" "mo_mono mo \<le> mo_mono' mo" "is_duplicate mo rid seen = (dup, seen')"
  shows "dup \<longleftrightarrow> (\<exists>(t, i) \<in> set accepted. i = rid \<and> mo_mono mo - 60 \<le> t)"
    and "same_recent (mo_mono' mo) seen' (if dup then accepted else accepted @ [(mo_mono' mo, rid)])"
proof -
  let ?kept = "dropWhile (\<lambda>(t, _). t < mo_mono mo - 60) seen"
  have s: "sorted (map fst seen)" "\<And>x. x \<in> set seen \<Longrightarrow> fst x \<le> now"
    and eq: "\<And>x. now - 60 \<le> fst x \<Longrightarrow> x \<in> set seen \<longleftrightarrow> x \<in> set accepted"
    using assms(1) unfolding same_recent_def by blast+
  have kept: "set ?kept = {x \<in> set seen. mo_mono mo - 60 \<le> fst x}" by (rule dropWhile_sorted [OF s(1)])
  have mem: "x \<in> set ?kept \<longleftrightarrow> x \<in> set accepted \<and> mo_mono mo - 60 \<le> fst x" for x
    unfolding kept using eq [of x] assms(2) by auto
  have out: "dup = (\<exists>(_, i) \<in> set ?kept. i = rid)" "seen' = (if dup then ?kept else ?kept @ [(mo_mono' mo, rid)])"
    using assms(4) by (auto simp: is_duplicate_def Let_def split: if_splits)
  show "dup \<longleftrightarrow> (\<exists>(t, i) \<in> set accepted. i = rid \<and> mo_mono mo - 60 \<le> t)"
    unfolding out(1) Bex_def mem by (auto simp: case_prod_beta)
  have le: "fst x \<le> mo_mono' mo" if "x \<in> set ?kept" for x using that s(2) [of x] assms(2,3) unfolding kept by auto
  have "sorted (map fst seen')" unfolding out(2) using sorted_dropWhile_fst [OF s(1)] le by (auto simp: sorted_append)
  moreover have "x \<in> set seen' \<longleftrightarrow> x \<in> set (if dup then accepted else accepted @ [(mo_mono' mo, rid)])" if "mo_mono' mo - 60 \<le> fst x" for x
    unfolding out(2) using mem [of x] that assms(3) by auto
  moreover have "\<forall>x \<in> set seen'. fst x \<le> mo_mono' mo" using le by (auto simp: out(2))
  ultimately show "same_recent (mo_mono' mo) seen' (if dup then accepted else accepted @ [(mo_mono' mo, rid)])"
    unfolding same_recent_def by blast
qed

lemma dup_run_ref: "same_recent now seen accepted \<Longrightarrow> clock_ok now calls \<Longrightarrow> dup_run calls seen = dup_ref calls accepted"
proof (induction calls arbitrary: now seen accepted)
  case (Cons c calls)
  obtain mo rid where c: "c = (mo, rid)" by fastforce
  obtain dup seen' where d: "is_duplicate mo rid seen = (dup, seen')" by fastforce
  have t: "now \<le> mo_mono mo" "mo_mono mo \<le> mo_mono' mo" "clock_ok (mo_mono' mo) calls" using Cons.prems(2) c by auto
  note step = is_duplicate_step [OF Cons.prems(1) t(1,2) d]
  show ?case unfolding c dup_run.simps dup_ref.simps d Let_def prod.case step(1) [symmetric]
    using Cons.IH [OF step(2) t(3)] by simp
qed simp

lemma no_recent: "same_recent t [] []"
  by (simp add: same_recent_def)

text \<open>The control path reaches an engine in one way only.\<close>

definition control_ok :: "('e, 'c) bridge_cfg \<Rightarrow> envelope \<Rightarrow> ('e, 'c) bridge \<Rightarrow> envelope \<Rightarrow> 'e \<Rightarrow> bool" where
  "control_ok cfg env st active e \<longleftrightarrow>
     policy_of cfg (e_sender env) \<noteq> ''reject'' \<and> active \<in> snd ` set (bg_active st) \<and>
     (if nonempty_str (dget (e_payload env) ''task_id'') then map_of (bg_active st) (str_of (dget (e_payload env) ''task_id'')) = Some active
      else length (bg_active st) = 1) \<and>
     panel_input_lock_reason (e_payload active) = None \<and> engine_of (e_id active) st = Some e"

lemma control_target_Target:
  assumes "control_target p st = Target active"
  shows "active \<in> snd ` set (bg_active st) \<and>
    (if nonempty_str (dget p ''task_id'') then map_of (bg_active st) (str_of (dget p ''task_id'')) = Some active else length (bg_active st) = 1)"
proof -
  have ne: "bg_active st \<noteq> []" using assms by (auto simp: control_target_def)
  show ?thesis
  proof (cases "nonempty_str (dget p ''task_id'')")
    case True
    with assms ne have m: "map_of (bg_active st) (str_of (dget p ''task_id'')) = Some active"
      by (simp add: control_target_def split: option.splits)
    then have "active \<in> snd ` set (bg_active st)" by (metis image_eqI map_of_SomeD snd_conv)
    with m True show ?thesis by simp
  next
    case False
    with assms ne have "length (bg_active st) = 1" "active = snd (hd (bg_active st))" by (simp_all add: control_target_def split: if_splits)
    with False ne show ?thesis by simp
  qed
qed

lemma steer_engine_calls: "bg_calls (steer_engine cfg mo env task e st) = bg_calls st @ [(e, Some (str_of (dget (e_payload env) ''message'')))]"
  "bg_cancelled (steer_engine cfg mo env task e st) = bg_cancelled st"
  by (simp_all add: steer_engine_def control_failed_def Let_def split: sum.splits)

lemma cancel_engine_calls: "bg_calls (cancel_engine cfg mo env active e st) = bg_calls st @ [(e, None)]"
  "bg_cancelled (cancel_engine cfg mo env active e st) = insert (e_id active) (bg_cancelled st)"
  by (simp_all add: cancel_engine_def control_failed_def update_task_status_def Let_def split: sum.splits prod.splits)

lemma handle_control_cases:
  fixes cfg :: "('e, 'c) bridge_cfg" and st :: "('e, 'c) bridge"
  assumes "e_kind env \<in> {''steer'', ''cancel''}"
  obtains (idle) "bg_calls (handle_control cfg mo env st) = bg_calls st" "bg_cancelled (handle_control cfg mo env st) = bg_cancelled st"
  | (reached) active e where "control_ok cfg env st active e"
      "bg_calls (handle_control cfg mo env st) = bg_calls st @ [(e, if e_kind env = ''steer'' then Some (str_of (dget (e_payload env) ''message'')) else None)]"
      "bg_cancelled (handle_control cfg mo env st) = (if e_kind env = ''steer'' then bg_cancelled st else insert (e_id active) (bg_cancelled st))"
proof (cases "policy_of cfg (e_sender env) = ''reject''")
  case True
  then have "handle_control cfg mo env st = st" by (simp add: handle_control_def)
  then show thesis using idle by simp
next
  case pol: False
  show thesis
  proof (cases "control_target (e_payload env) st")
    case (Target active)
    show thesis
    proof (cases "panel_input_lock_reason (e_payload active) = None \<and> engine_of (e_id active) st \<noteq> None")
      case False
      with pol Target assms show thesis by (intro idle) (auto simp: handle_control_def Let_def split: option.splits)
    next
      case True
      then obtain e where e: "engine_of (e_id active) st = Some e" by auto
      have "control_ok cfg env st active e"
        using pol control_target_Target [OF Target] True e by (simp add: control_ok_def)
      moreover have "handle_control cfg mo env st =
        (if e_kind env = ''steer'' then steer_engine cfg mo env (e_id active) e st else cancel_engine cfg mo env active e st)"
        using pol Target True e assms by (auto simp: handle_control_def Let_def)
      ultimately show thesis by (intro reached [of active e]) (simp_all add: steer_engine_calls cancel_engine_calls)
    qed
  qed (use pol in \<open>(intro idle; simp add: handle_control_def Let_def)+\<close>)
qed

lemma turn_timeout_checked:
  assumes "validate_requested_turn_timeout cfg p pol = None" "dhas p ''turn_timeout''"
  shows "pol = ''trusted'' \<and> (\<exists>n. dget p ''turn_timeout'' = JInt n \<and> 0 < n \<and> n \<le> bc_turn_timeout_max cfg)"
  using assms by (auto simp: validate_requested_turn_timeout_def split: if_splits json.splits)

lemma front_request:
  assumes "from_json (bc_ref_required cfg) raw = Inr e" "e_recipient e = bc_agent_id cfg" "e_sender e \<noteq> bc_agent_id cfg" "e_kind e = ''request''"
  shows "handle_raw_front cfg mo raw st = handle_request cfg mo e st"
  using assms by (simp add: handle_raw_front_def)

lemma front_admitted:
  assumes "handle_raw_front cfg mo raw st = (Admitted e pol, st')"
  shows "from_json (bc_ref_required cfg) raw = Inr e \<and> e_recipient e = bc_agent_id cfg \<and> e_sender e \<noteq> bc_agent_id cfg \<and> e_kind e = ''request''"
    and "handle_request cfg mo e st = (Admitted e pol, st')"
proof -
  have hr: "handle_request cfg mo e' st = (Admitted e pol, st') \<Longrightarrow> e' = e" for e'
    by (erule handle_request_cases, simp) (erule request_tail_cases, simp_all)
  from assms obtain e' where e': "from_json (bc_ref_required cfg) raw = Inr e'"
    by (auto simp: handle_raw_front_def split: sum.splits envelope_exc.splits option.splits)
  with assms have c: "e_recipient e' = bc_agent_id cfg" "e_sender e' \<noteq> bc_agent_id cfg" "e_kind e' = ''request''"
      "handle_request cfg mo e' st = (Admitted e pol, st')"
    by (auto simp: handle_raw_front_def split: if_splits)
  from hr [OF c(4)] c e' show "from_json (bc_ref_required cfg) raw = Inr e \<and> e_recipient e = bc_agent_id cfg \<and> e_sender e \<noteq> bc_agent_id cfg \<and> e_kind e = ''request''"
    "handle_request cfg mo e st = (Admitted e pol, st')" by auto
qed

lemma parse_worktree_spec_Some:
  assumes "parse_worktree_spec p = Inr (Some s)"
  shows "\<not> has_dots (ws_name s) \<and> name_match (ws_name s) \<and> ws_base_ref s \<noteq> [] \<and> hd (ws_base_ref s) \<noteq> CHR ''-'' \<and>
    (\<forall>c \<in> set (ws_base_ref s). \<not> py_isspace c) \<and> ws_cleanup s \<in> {''keep'', ''auto''}"
proof -
  have hd: "py_startswith b ''-'' = (b \<noteq> [] \<and> hd b = CHR ''-'')" for b by (cases b) (auto simp: py_startswith_def)
  have ne: "(if py_truth v then v else JStr ''HEAD'') = JStr b \<Longrightarrow> b \<noteq> []" for v b by (auto simp: py_truth_def split: if_splits)
  obtain spec where 1: "dget p ''worktree'' = JObj spec"
    using assms by (cases "dget p ''worktree''") (simp_all add: parse_worktree_spec_def)
  obtain name where 2: "dget spec ''name'' = JStr name"
    using assms 1 by (cases "dget spec ''name''") (simp_all add: parse_worktree_spec_def)
  have 3: "\<not> has_dots name" "name_match name"
    using assms by (simp_all add: parse_worktree_spec_def 1 2 split: if_splits)
  obtain base where 4: "(if py_truth (dget spec ''base_ref'') then dget spec ''base_ref'' else JStr ''HEAD'') = JStr base"
    using assms by (cases "if py_truth (dget spec ''base_ref'') then dget spec ''base_ref'' else JStr ''HEAD''")
      (simp_all add: parse_worktree_spec_def 1 2 3)
  have 5: "base \<noteq> []" "hd base \<noteq> CHR ''-''" "\<forall>c \<in> set base. \<not> py_isspace c"
    using ne [OF 4] assms unfolding parse_worktree_spec_def 1 2 json.case 4 hd using 3 by (auto split: if_splits)
  have free: "\<not> (py_startswith base ''-'' \<or> (\<exists>c \<in> set base. py_isspace c))" using 5 by (auto simp: hd)
  obtain c where 6: "(if dhas spec ''cleanup'' then dget spec ''cleanup'' else JStr ''keep'') = JStr c" "c \<in> {''keep'', ''auto''}"
      "s = \<lparr>ws_name = name, ws_base_ref = base, ws_cleanup = c\<rparr>"
    using assms unfolding parse_worktree_spec_def 1 2 json.case 4
    by (cases "if dhas spec ''cleanup'' then dget spec ''cleanup'' else JStr ''keep''") (use 3 free in \<open>simp_all split: if_splits\<close>)
  with 3 5 show ?thesis by simp
qed

lemma name_fullmatch_chars:
  assumes "name_fullmatch s" "c \<in> set s"
  shows "c \<noteq> CHR ''/'' \<and> c \<noteq> CHR 0x5C \<and> \<not> py_isspace c"
proof -
  have "name_start c \<or> c \<in> {CHR ''.'', CHR ''_'', CHR ''-''}"
    using assms by (cases s) (auto simp: name_fullmatch_def list_all_iff)
  then show ?thesis by (auto simp: name_start_def is_digit_def py_isspace_def)
qed

text \<open>A small seat: one trusted sender, no gate, no limits.\<close>

definition demo_bridge_cfg :: "(nat, conn) bridge_cfg" where
  "demo_bridge_cfg = \<lparr>bc_agent_id = ''seat'', bc_branch = ''main'', bc_redis = demo_config, bc_policies = [(''orch'', ''trusted'')], bc_unknown = ''reject'',
     bc_turn_timeout = 600, bc_turn_timeout_max = 900, bc_ref_required = True, bc_gate_enabled = False, bc_resolver = None, bc_notify_inbox = 1,
     bc_notify_maxlen = 100, bc_status_ttl = 60, bc_daily_requests = 0, bc_daily_seconds = 0, bc_usage_identity = ''seat'',
     bc_steer = (\<lambda>_ _. Inr JNull), bc_interrupt = (\<lambda>_. Inr JNull)\<rparr>"

definition demo_bridge :: "(nat, conn) bridge" where
  "demo_bridge = \<lparr>bg_redis = empty_redis, bg_seen = [], bg_active = [(''t1'', demo_envelope_req\<lparr>e_id := ''t1''\<rparr>)], bg_task_engines = [(''t1'', 7)],
     bg_pool = \<lparr>pl_max_size = 1, pl_idle = [], pl_busy = [], pl_reserved = {}, pl_started = 0\<rparr>, bg_cancelled = {}, bg_conn = False,
     bg_epoch = [], bg_turn_index = [], bg_events = [], bg_calls = []\<rparr>"

definition demo_moment :: "rat \<Rightarrow> moment" where
  "demo_moment t = \<lparr>mo_now = 0, mo_mono = t, mo_mono' = t, mo_uid = ''u'', mo_iso = ''now'', mo_iso' = ''now'', mo_day = ''20260101''\<rparr>"

lemma demo_parses: "from_json (bc_ref_required demo_bridge_cfg) (to_json demo_envelope_req) = Inr demo_envelope_req"
  using to_json_from_json [OF demo_envelope_req_ok] by (simp add: demo_bridge_cfg_def)

lemma demo_addressed: "e_recipient demo_envelope_req = bc_agent_id demo_bridge_cfg" "e_sender demo_envelope_req \<noteq> bc_agent_id demo_bridge_cfg"
  "e_kind demo_envelope_req = ''request''"
  by (simp_all add: demo_envelope_req_def demo_bridge_cfg_def)

lemma demo_not_lifecycle: "\<not> is_lifecycle demo_envelope_req"
  by (simp add: is_lifecycle_def demo_envelope_req_def)

lemma demo_policy: "policy_of demo_bridge_cfg (e_sender demo_envelope_req) = ''trusted''"
  by (simp add: policy_of_def demo_bridge_cfg_def demo_envelope_req_def)

lemma demo_no_timeout: "validate_requested_turn_timeout demo_bridge_cfg (e_payload demo_envelope_req) pol = None"
  by (simp add: validate_requested_turn_timeout_def demo_envelope_req_def)

lemma demo_budget: "check_usage_budget demo_bridge_cfg mo st = Inr None"
  by (simp add: check_usage_budget_def evaluate_usage_budget_def demo_bridge_cfg_def)

lemma demo_gate_off: "bc_gate_enabled demo_bridge_cfg = False"
  by (simp add: demo_bridge_cfg_def)

lemma demo_front:
  "handle_raw_front demo_bridge_cfg (demo_moment 5) (to_json demo_envelope_req) demo_bridge =
     (Admitted demo_envelope_req ''trusted'', demo_bridge\<lparr>bg_seen := [(5, ''m1'')]\<rparr>)"
proof -
  have dup: "is_duplicate (demo_moment 5) (e_id demo_envelope_req) (bg_seen demo_bridge) = (False, [(5, ''m1'')])"
    by (simp add: is_duplicate_def demo_bridge_def demo_moment_def demo_envelope_req_def)
  show ?thesis unfolding front_request [OF demo_parses demo_addressed] handle_request_def Let_def demo_policy demo_no_timeout demo_gate_off
      request_tail_def
    by (simp add: demo_not_lifecycle demo_budget dup)
qed

section \<open>Properties\<close>

text \<open>A request goes on to the worktree and engine part only through every check of the front. It then parses, is addressed to this seat by another agent whose
  policy is not \<open>reject\<close>; a requested time limit comes from a trusted sender and is positive and within the seat's bound; with the claim gate on, and unless it is a worktree life-cycle
  operation, the tables behind the PostgreSQL resolver admit it; the same id was not accepted in the last sixty seconds of the queue; the budget is not
  used up; and nothing was sent to anyone.\<close>

theorem front_admits_only_checked:
  assumes "handle_raw_front cfg mo raw st = (Admitted e pol, st')" and "bc_resolver cfg \<in> {None, Some (psycopg_resolver db schema)}"
  shows "from_json (bc_ref_required cfg) raw = Inr e \<and> e_recipient e = bc_agent_id cfg \<and> e_sender e \<noteq> bc_agent_id cfg \<and> e_kind e = ''request'' \<and>
    pol = policy_of cfg (e_sender e) \<and> pol \<noteq> ''reject'' \<and>
    (dhas (e_payload e) ''turn_timeout'' \<longrightarrow>
       pol = ''trusted'' \<and> (\<exists>n. dget (e_payload e) ''turn_timeout'' = JInt n \<and> 0 < n \<and> n \<le> bc_turn_timeout_max cfg)) \<and>
    (bc_gate_enabled cfg \<and> \<not> is_lifecycle e \<longrightarrow>
       gate_spec (posture_tab db schema) (lane_tab db schema) (claim_tab db schema) (bc_agent_id cfg) (e_payload e) = ''admit'') \<and>
    is_duplicate mo (e_id e) (bg_seen st) = (False, bg_seen st') \<and> check_usage_budget cfg mo st = Inr None \<and> bg_redis st' = bg_redis st"
proof -
  from front_admitted(2) [OF assms(1)] show ?thesis
  proof (cases rule: handle_request_cases)
    case (passed st1)
    have gate: "gate_spec (posture_tab db schema) (lane_tab db schema) (claim_tab db schema) (bc_agent_id cfg) (e_payload e) = ''admit''"
      if "bc_gate_enabled cfg \<and> \<not> is_lifecycle e"
    proof -
      from passed(3) that assms(2) have "ge_outcome (fst (evaluate (psycopg_resolver db schema) (bc_agent_id cfg) e (bg_conn st))) = None"
        by (auto simp: gate_passed_def)
      then show ?thesis by (rule psycopg.admission_rests_on_tables)
    qed
    from passed(6) show ?thesis
    proof (cases rule: request_tail_cases)
      case admitted
      then have "check_usage_budget cfg mo st = Inr None" using passed(4) by (simp add: check_usage_budget_def)
      with admitted passed front_admitted(1) [OF assms(1)] gate turn_timeout_checked [OF passed(2)] show ?thesis by simp
    qed simp_all
  qed simp
qed

theorem front_admits_only_checked_witness:
  "policy_of demo_bridge_cfg (e_sender demo_envelope_req) = ''trusted'' \<and> check_usage_budget demo_bridge_cfg (demo_moment 5) demo_bridge = Inr None"
proof -
  have "bc_resolver demo_bridge_cfg \<in> {None, Some (psycopg_resolver demo_gate_db ''public'')}" by (simp add: demo_bridge_cfg_def)
  from front_admits_only_checked [OF demo_front this] show ?thesis by simp
qed

text \<open>C2: No request is dropped without an answer. A well-formed request for this seat from another agent is either passed on, or answered with exactly one reply
  that names it and parses at the sender; the only silent ends are a duplicate of a request of the last minute, a counter that is not a number, and a life-cycle operation
  whose stored result is not a JSON object.\<close>

theorem every_request_answered:
  assumes "from_json (bc_ref_required cfg) raw = Inr e" and "e_recipient e = bc_agent_id cfg" and "e_sender e \<noteq> bc_agent_id cfg" and "e_kind e = ''request''"
    and "can_send cfg mo" and "handle_raw_front cfg mo raw st = (out, st')"
  shows "case out of
      Admitted e' pol \<Rightarrow> e' = e \<and> bg_redis st' = bg_redis st
    | Crashed x \<Rightarrow> check_usage_budget cfg mo st = Inl x \<and> bg_redis st' = bg_redis st
    | Finished \<Rightarrow> answered cfg mo (e_sender e) (e_id e) (bg_redis st) (bg_redis st') \<or>
        (bg_redis st' = bg_redis st \<and>
         (fst (is_duplicate mo (e_id e) (bg_seen st)) \<or>
          (is_lifecycle e \<and> (\<exists>durable. get_str (mo_now mo) (task_result_key (bc_redis cfg) (e_id e)) (bg_redis st) = Some durable \<and>
             (\<forall>d. json_loads durable \<noteq> Some (JObj d))))))"
proof -
  note ok = from_json_ok [OF assms(1)]
  have ne: "e_sender e \<noteq> []" "e_id e \<noteq> []" and wf: "json_wf (JObj (e_payload e))" using ok by (simp_all add: envelope_ok_def del: json_wf.simps)
  have hr: "handle_request cfg mo e st = (out, st')" using assms(6) unfolding front_request [OF assms(1-4)] .
  then show ?thesis
  proof (cases rule: handle_request_cases)
    case (refused err st1)
    with refuse_request_answers [OF assms(5) ne wf, of st1 err] show ?thesis by simp
  next
    case (passed st1)
    have budget: "check_usage_budget cfg mo st1 = check_usage_budget cfg mo st" using passed(4) by (simp add: check_usage_budget_def)
    from passed(6) show ?thesis
    proof (cases rule: request_tail_cases)
      case (refused err seen)
      with refuse_request_answers [OF assms(5) ne wf, of "st1\<lparr>bg_seen := seen\<rparr>" err] passed(4) show ?thesis by simp
    next
      case (replayed durable)
      show ?thesis
      proof (cases "\<exists>d. json_loads durable = Some (JObj d)")
        case True
        then obtain d where "json_loads durable = Some (JObj d)" by blast
        from replay_answers [OF assms(5) ne wf this, of st1] replayed passed(4) show ?thesis by simp
      next
        case False
        then have "replay_durable_lifecycle_result cfg mo e durable st1 = st1"
          by (auto simp: replay_durable_lifecycle_result_def split: option.splits json.splits)
        with replayed passed(4) False show ?thesis by auto
      qed
    qed (use passed(4,5) budget in auto)
  qed
qed

theorem every_request_answered_witness:
  "bg_redis (snd (handle_raw_front demo_bridge_cfg (demo_moment 5) (to_json demo_envelope_req) demo_bridge)) = empty_redis"
proof -
  have "can_send demo_bridge_cfg (demo_moment 5)" by (simp add: can_send_def demo_bridge_cfg_def demo_moment_def)
  from every_request_answered [OF demo_parses demo_addressed this demo_front] show ?thesis unfolding demo_front by (simp add: demo_bridge_def)
qed

text \<open>A parse failure is answered only to a sender the seat's roster names. When a message fails with a validated header, its sender gets a refusal reply, one that parses, exactly when
  the reason is on the closed list, the message is a request addressed to this seat, and the roster names the sender, other than itself, with a policy that is not \<open>reject\<close>;
  in every other case the server is left as it is, whatever the policy for unknown senders.\<close>

theorem refusal_reply_exact:
  assumes "from_json (bc_ref_required cfg) raw = Inl (EnvelopeError reason (Some h))" and "can_send cfg mo" and "h_sender h \<noteq> []" and "h_id h \<noteq> []"
  shows "(if reason \<in> set REFUSAL_REPLY_REASONS \<and> h_kind h = ''request'' \<and> h_recipient h = bc_agent_id cfg \<and> h_sender h \<noteq> bc_agent_id cfg \<and>
           map_of (bc_policies cfg) (h_sender h) \<notin> {None, Some ''reject''}
      then answered cfg mo (h_sender h) (h_id h) (bg_redis st) (bg_redis (snd (handle_raw_front cfg mo raw st)))
      else snd (handle_raw_front cfg mo raw st) = st)"
proof -
  have wf: "json_wf (JObj (refusal_payload cfg h reason))"
    by (simp add: refusal_payload_def json_wf_Cons wf_empty del: json_wf.simps(3))
  have front: "snd (handle_raw_front cfg mo raw st) = send_refusal_reply cfg mo h reason st"
    using assms(1) by (simp add: handle_raw_front_def)
  from push_reply_answers [OF assms(2-4) wf, of st] show ?thesis
    unfolding front by (auto simp: send_refusal_reply_def split: option.splits)
qed

definition demo_taskless :: envelope where
  "demo_taskless = demo_envelope_req\<lparr>e_payload := []\<rparr>"

definition demo_header :: envelope_header where
  "demo_header = \<lparr>h_id = ''m1'', h_sender = ''orch'', h_branch = ''main'', h_recipient = ''seat'', h_kind = ''request'', h_sent_at = ''now'',
     h_payload = [], h_in_reply_to = None\<rparr>"

lemma demo_taskless_fails: "from_json (bc_ref_required demo_bridge_cfg) (to_json demo_taskless) = Inl (EnvelopeError ''invalid-payload-task-ref'' (Some demo_header))"
proof -
  have "json_wf (JObj (to_dict demo_taskless))" by (rule to_dict_wf) (simp add: demo_taskless_def)
  then have "load_envelope_object (to_json demo_taskless) = Inr (to_dict demo_taskless)"
    using json_loads_dumps [OF wire_style_ok, of "JObj (to_dict demo_taskless)"]
    by (simp add: load_envelope_object_def to_json_def json_norm_def wire_style_def)
  moreover have "header_from_value (to_dict demo_taskless) = Inr demo_header" by code_simp
  moreover have "payload_checks (bc_ref_required demo_bridge_cfg) (h_kind demo_header) (h_payload demo_header) = Inl (Some ''invalid-payload-task-ref'')"
    by (simp add: payload_checks_def request_payload_checks_def validate_request_task_def is_brief_ref_shape_def demo_header_def demo_bridge_cfg_def
        unhashable_def)
  ultimately show ?thesis by (simp add: from_json_def)
qed

theorem refusal_reply_exact_witness:
  "answered demo_bridge_cfg (demo_moment 5) ''orch'' ''m1'' empty_redis
     (bg_redis (snd (handle_raw_front demo_bridge_cfg (demo_moment 5) (to_json demo_taskless) demo_bridge)))"
proof -
  have "can_send demo_bridge_cfg (demo_moment 5)" by (simp add: can_send_def demo_bridge_cfg_def demo_moment_def)
  from refusal_reply_exact [OF demo_taskless_fails this, of demo_bridge] show ?thesis
    by (simp add: demo_header_def REFUSAL_REPLY_REASONS_def demo_bridge_cfg_def demo_bridge_def)
qed

text \<open>The duplicate filter is exact. Over any run of calls with a clock that does not go back, the pruned queue gives the same answers as a
  filter that forgets nothing: a request is a duplicate if and only if the same id was accepted at most sixty seconds before.\<close>

theorem duplicate_filter_exact:
  assumes "clock_ok t calls"
  shows "dup_run calls [] = dup_ref calls []"
  by (rule dup_run_ref [OF no_recent assms])

theorem duplicate_filter_exact_witness:
  "dup_run [(demo_moment 0, ''a''), (demo_moment 60, ''a''), (demo_moment 61, ''a'')] [] = [False, True, False]"
proof -
  have "clock_ok 0 [(demo_moment 0, ''a''), (demo_moment 60, ''a''), (demo_moment 61, ''a'')]" by (simp add: demo_moment_def)
  from duplicate_filter_exact [OF this] show ?thesis by (simp add: demo_moment_def)
qed

text \<open>A control message reaches at most one engine, and only the one it is for. Steering or cancelling calls no engine and cancels nothing, or it makes one call, to the engine that
  runs the active task the message names (or the only active task, if it names none), from a sender that is not rejected, and that task's input is not locked. A cancellation
  marks that task and no other.\<close>

theorem control_reaches_one_task:
  assumes "e_kind env \<in> {''steer'', ''cancel''}"
  shows "(bg_calls (handle_control cfg mo env st) = bg_calls st \<and> bg_cancelled (handle_control cfg mo env st) = bg_cancelled st) \<or>
    (\<exists>active e. control_ok cfg env st active e \<and>
       bg_calls (handle_control cfg mo env st) =
         bg_calls st @ [(e, if e_kind env = ''steer'' then Some (str_of (dget (e_payload env) ''message'')) else None)] \<and>
       bg_cancelled (handle_control cfg mo env st) = (if e_kind env = ''steer'' then bg_cancelled st else insert (e_id active) (bg_cancelled st)))"
  by (rule handle_control_cases [OF assms, of cfg mo st]) blast+

definition demo_cancel :: envelope where
  "demo_cancel = demo_envelope_req\<lparr>e_kind := ''cancel'', e_payload := []\<rparr>"

theorem control_reaches_one_task_witness:
  "bg_calls (handle_control demo_bridge_cfg (demo_moment 5) demo_cancel demo_bridge) = [(7, None)]"
proof -
  have k: "e_kind demo_cancel \<in> {''steer'', ''cancel''}" by (simp add: demo_cancel_def)
  have "bg_cancelled (handle_control demo_bridge_cfg (demo_moment 5) demo_cancel demo_bridge) \<noteq> bg_cancelled demo_bridge"
    by (simp add: handle_control_def policy_of_def control_target_def engine_of_def panel_input_lock_reason_def py_truth_def cancel_engine_calls
        demo_bridge_cfg_def demo_cancel_def demo_bridge_def demo_envelope_req_def Let_def)
  with control_reaches_one_task [OF k, of demo_bridge_cfg "demo_moment 5" demo_bridge] show ?thesis
    by (auto simp: control_ok_def engine_of_def demo_cancel_def demo_bridge_def)
qed

text \<open>A worktree name is one safe path segment. An accepted specification has a name without slash, backslash and two dots in a row, that starts
  with a letter or digit and has at most sixty-five characters; only its last character can be white space, and then it is a line feed. The base reference is not empty,
  does not look like an option and has no white space.\<close>

theorem worktree_spec_safe:
  assumes "parse_worktree_spec p = Inr (Some s)"
  shows "\<not> has_dots (ws_name s) \<and> ws_name s \<noteq> [] \<and> name_start (hd (ws_name s)) \<and> length (ws_name s) \<le> 65 \<and>
    (\<forall>c \<in> set (ws_name s). c \<noteq> CHR ''/'' \<and> c \<noteq> CHR 0x5C) \<and>
    (\<forall>c \<in> set (butlast (ws_name s)). \<not> py_isspace c) \<and> (py_isspace (last (ws_name s)) \<longrightarrow> last (ws_name s) = CHR 0x0A) \<and>
    ws_base_ref s \<noteq> [] \<and> hd (ws_base_ref s) \<noteq> CHR ''-'' \<and> (\<forall>c \<in> set (ws_base_ref s). \<not> py_isspace c) \<and> ws_cleanup s \<in> {''keep'', ''auto''}"
proof -
  let ?n = "ws_name s"
  note sp = parse_worktree_spec_Some [OF assms]
  have n: "?n \<noteq> [] \<and> name_start (hd ?n) \<and> length ?n \<le> 65 \<and> (\<forall>c \<in> set ?n. c \<noteq> CHR ''/'' \<and> c \<noteq> CHR 0x5C) \<and>
     (\<forall>c \<in> set (butlast ?n). \<not> py_isspace c) \<and> (py_isspace (last ?n) \<longrightarrow> last ?n = CHR 0x0A)"
  proof (cases "name_fullmatch ?n")
    case True
    then have "?n \<noteq> []" by (simp add: name_fullmatch_def)
    with True name_fullmatch_chars [OF True] show ?thesis by (auto simp: name_fullmatch_def dest: in_set_butlastD)
  next
    case False
    with sp have m: "?n \<noteq> []" "last ?n = CHR 0x0A" "name_fullmatch (butlast ?n)" by (auto simp: name_match_def)
    obtain b where b: "?n = b @ [CHR 0x0A]" using m(1,2) append_butlast_last_id by metis
    with m(3) name_fullmatch_chars [OF m(3)] show ?thesis by (auto simp: name_fullmatch_def)
  qed
  with sp show ?thesis by blast
qed

theorem worktree_spec_safe_witness:
  "\<exists>s. parse_worktree_spec [(''worktree'', JObj [(''name'', JStr ''wt'')])] = Inr (Some s) \<and> ws_base_ref s \<noteq> []"
proof -
  have "parse_worktree_spec [(''worktree'', JObj [(''name'', JStr ''wt'')])] = Inr (Some \<lparr>ws_name = ''wt'', ws_base_ref = ''HEAD'', ws_cleanup = ''keep''\<rparr>)"
    by code_simp
  from this worktree_spec_safe [OF this] show ?thesis by blast
qed

text \<open>The name check lets a final line feed through: a name the other two checks of the same pattern refuse is accepted here, so its worktree is created
  but its lease is refused as corrupt.\<close>

theorem worktree_name_line_feed:
  "\<exists>s. parse_worktree_spec [(''worktree'', JObj [(''name'', JStr (''wt'' @ [CHR 0x0A]))])] = Inr (Some s) \<and> ws_name s = ''wt'' @ [CHR 0x0A] \<and>
     \<not> name_fullmatch (ws_name s)"
proof -
  have "parse_worktree_spec [(''worktree'', JObj [(''name'', JStr (''wt'' @ [CHR 0x0A]))])] =
      Inr (Some \<lparr>ws_name = ''wt'' @ [CHR 0x0A], ws_base_ref = ''HEAD'', ws_cleanup = ''keep''\<rparr>)" by code_simp
  moreover have "\<not> name_fullmatch (''wt'' @ [CHR 0x0A])" by code_simp
  ultimately show ?thesis by simp
qed

end
