(* ===== verification/Worktree_Lease.thy ===== *)
theory Worktree_Lease
  imports Bridge_Admission
begin

text \<open>
  Worktree leases (\<open>src/src/agent_redis_bridge/worktree_lease.py\<close> and the lease operations of \<open>bridge.py\<close>): a store of lease files with
  locks, the reconciliation of leases with git and with the rows of the lane writer, and the operations that
  arm and release a worktree.

  The store is a map from the digest of a lease id to a file, which holds a record the store wrote or
  something else. Times are rationals: adding a whole number of seconds to a time of this century is
  exact in the source's floats. A file whose path the operating system refuses (\<open>le_io\<close>) can be neither created
  nor locked; whether an existing record can be rewritten at a given time (\<open>le_replace_ok\<close>: another temporary file
  and a rename) is independent of that, so the tombstone of a lease can fail after its creation succeeded. Git, the exempt preparation and the three SQL functions of the lane writer are parameters;
  the worktrees that git has registered are part of the state. Temporary files, log lines and the link
  to the base environment are left out.
\<close>

section \<open>Records and the store\<close>

record lease_rec =
  l_id :: string
  l_sender :: string
  l_name :: string
  l_repo :: string
  l_base :: string
  l_created :: rat
  l_expires :: rat
  l_state :: string
  l_reason :: "string option"
  l_tombstoned :: "rat option"
  l_lane :: string
  l_arm_request :: "string option"

datatype lease_file = LeaseFile lease_rec rat | Corrupt     \<comment> \<open>record, time of modification\<close>

record lane_row =
  ln_lease :: string
  ln_lane :: string
  ln_armed_by :: string

record 'd lease_world =
  wl_files :: "(string \<times> lease_file) list"
  wl_locks :: "string set"
  wl_trees :: "string set"
  wl_lanes :: 'd

datatype wt_exc = LeaseError string | WorktreeErr string | LaneStoreUnreachable string

fun exc_text :: "wt_exc \<Rightarrow> string" where
  "exc_text (LeaseError s) = s"
| "exc_text (WorktreeErr s) = s"
| "exc_text (LaneStoreUnreachable s) = s"

type_synonym ('d, 'a) wt_m = "('d lease_world, wt_exc, 'a) st_m"

record 'd lane_writer =
  lwr_arm :: "string \<Rightarrow> 'd \<Rightarrow> (string, lane_row) res \<times> 'd"
  lwr_retire :: "string \<Rightarrow> 'd \<Rightarrow> (string, bool) res \<times> 'd"
  lwr_rows :: "'d \<Rightarrow> (string, lane_row list) res"

record 'd lease_env =
  le_sha :: "string \<Rightarrow> string"
  le_io :: "string \<Rightarrow> bool"
  le_replace_ok :: "rat \<Rightarrow> string \<Rightarrow> bool"                       \<comment> \<open>at this time: the new text is written and renamed over the record\<close>
  le_agent :: string
  le_workdir :: string
  le_repo :: "string option"                                     \<comment> \<open>git rev-parse --show-toplevel\<close>
  le_rev :: "bool \<Rightarrow> string \<Rightarrow> string"                             \<comment> \<open>after a fetch?, reference: its commit, or nothing\<close>
  le_add :: "string \<Rightarrow> string \<Rightarrow> string set \<Rightarrow> string option"         \<comment> \<open>git worktree add: the text of its failure\<close>
  le_remove_ok :: "string \<Rightarrow> bool"                               \<comment> \<open>git worktree remove --force\<close>
  le_prepare :: "string \<Rightarrow> string option"                        \<comment> \<open>the exempt preparation: its error code\<close>
  le_lane :: string
  le_writer :: "'d lane_writer option"
  le_resume :: bool
  le_ttl :: int
  le_ttl_max :: int
  le_max_armed :: nat
  le_max_sender :: nat
  le_result_ttl :: int

definition lease_path :: "'d lease_env \<Rightarrow> string \<Rightarrow> string" where
  "lease_path env lid = le_sha env (utf8 lid)"

definition write_new :: "'d lease_env \<Rightarrow> rat \<Rightarrow> lease_rec \<Rightarrow> ('d, unit) wt_m" where
  "write_new env now r w =
    (let p = lease_path env (l_id r) in
     if \<not> le_io env p then (Inl (LeaseError ''worktree-lease-write-failed''), w)
     else if map_of (wl_files w) p \<noteq> None then (Inl (LeaseError ''worktree-lease-id-collision''), w)
     else (Inr (), w\<lparr>wl_files := wl_files w @ [(p, LeaseFile r now)]\<rparr>))"

definition replace_file :: "'d lease_env \<Rightarrow> rat \<Rightarrow> lease_rec \<Rightarrow> ('d, unit) wt_m" where
  "replace_file env now r w =
    (let p = lease_path env (l_id r) in
     if \<not> le_replace_ok env now p then (Inl (LeaseError ''worktree-lease-write-failed''), w)
     else (Inr (), w\<lparr>wl_files := AList.update p (LeaseFile r now) (wl_files w)\<rparr>))"

definition new_lease :: "string \<Rightarrow> string \<Rightarrow> string \<Rightarrow> string \<Rightarrow> string \<Rightarrow> rat \<Rightarrow> int \<Rightarrow> string \<Rightarrow> string option \<Rightarrow> lease_rec" where
  "new_lease lid sender name repo base now ttl lane arm_request =
     \<lparr>l_id = lid, l_sender = sender, l_name = name, l_repo = repo, l_base = base, l_created = now, l_expires = now + of_int ttl,
      l_state = ''armed'', l_reason = None, l_tombstoned = None, l_lane = lane, l_arm_request = arm_request\<rparr>"

text \<open>With a lease id, and with up to four drawn ones.\<close>

definition create :: "'d lease_env \<Rightarrow> rat \<Rightarrow> lease_rec \<Rightarrow> ('d, lease_rec) wt_m" where
  "create env now r =
    (if l_lane r \<notin> {''gated'', ''exempt''} then raise_m (LeaseError ''worktree-lease-lane-invalid'')
     else bind_m (write_new env now r) (\<lambda>_. ret_m r))"

fun create_minted :: "'d lease_env \<Rightarrow> rat \<Rightarrow> lease_rec \<Rightarrow> string list \<Rightarrow> ('d, lease_rec) wt_m" where
  "create_minted env now r [] w = (Inl (LeaseError ''worktree-lease-id-collision''), w)"
| "create_minted env now r (lid # drawn) w =
    (case create env now (r\<lparr>l_id := lid\<rparr>) w of
       (Inl e, w') \<Rightarrow> (if e = LeaseError ''worktree-lease-id-collision'' then create_minted env now r drawn w' else (Inl e, w'))
     | (Inr r', w') \<Rightarrow> (Inr r', w'))"

definition load :: "'d lease_env \<Rightarrow> string \<Rightarrow> ('d, lease_rec option) wt_m" where
  "load env lid w =
    (if lid = [] then (Inr None, w)
     else (case map_of (wl_files w) (lease_path env lid) of
             None \<Rightarrow> (Inr None, w)
           | Some Corrupt \<Rightarrow> (Inl (LeaseError ''worktree-lease-corrupt''), w)
           | Some (LeaseFile r _) \<Rightarrow>
              (if l_id r \<noteq> lid \<or> l_state r \<notin> {''armed'', ''tombstoned''} then (Inl (LeaseError ''worktree-lease-corrupt''), w)
               else (Inr (Some r), w))))"

definition record_ok :: "'d lease_env \<Rightarrow> string \<times> lease_file \<Rightarrow> bool" where
  "record_ok env pf =
    (case pf of
       (p, LeaseFile r _) \<Rightarrow> l_id r \<noteq> [] \<and> l_sender r \<noteq> [] \<and> l_name r \<noteq> [] \<and> l_repo r \<noteq> [] \<and> l_base r \<noteq> [] \<and>
         l_state r \<in> {''armed'', ''tombstoned''} \<and> lease_path env (l_id r) = p
     | (p, Corrupt) \<Rightarrow> False)"

fun lease_of :: "string \<times> lease_file \<Rightarrow> lease_rec list" where
  "lease_of (p, LeaseFile r t) = [r]"
| "lease_of (p, Corrupt) = []"

definition records_of :: "'d lease_env \<Rightarrow> 'd lease_world \<Rightarrow> lease_rec list" where
  "records_of env w = concat (map lease_of (filter (record_ok env) (wl_files w)))"

text \<open>Files that do not hold a valid record are quarantined: renamed, so no longer part of the store.\<close>

definition records :: "'d lease_env \<Rightarrow> ('d, lease_rec list) wt_m" where
  "records env w = (Inr (records_of env w), w\<lparr>wl_files := filter (record_ok env) (wl_files w)\<rparr>)"

definition with_lock :: "'d lease_env \<Rightarrow> string \<Rightarrow> ('d, 'a) wt_m \<Rightarrow> ('d, 'a) wt_m" where
  "with_lock env lid body w =
    (let p = lease_path env lid in
     if \<not> le_io env p then (Inl (LeaseError ''worktree-lease-lock-failed''), w)
     else if p \<in> wl_locks w then (Inl (LeaseError ''worktree-lease-busy''), w)
     else (case body (w\<lparr>wl_locks := insert p (wl_locks w)\<rparr>) of
             (r, w') \<Rightarrow> (r, w'\<lparr>wl_locks := wl_locks w' - {p}\<rparr>)))"

text \<open>The pattern of the reconcilers: a busy lease is skipped.\<close>

definition unless_busy :: "'d lease_env \<Rightarrow> string \<Rightarrow> ('d, 'a list) wt_m \<Rightarrow> ('d, 'a list) wt_m" where
  "unless_busy env lid body w =
    (if le_io env (lease_path env lid) \<and> lease_path env lid \<in> wl_locks w then (Inr [], w) else with_lock env lid body w)"

definition tombstone :: "'d lease_env \<Rightarrow> rat \<Rightarrow> lease_rec \<Rightarrow> string \<Rightarrow> ('d, lease_rec) wt_m" where
  "tombstone env now r reason =
    (let r' = r\<lparr>l_state := ''tombstoned'', l_reason := Some reason, l_tombstoned := Some now\<rparr>
     in bind_m (replace_file env now r') (\<lambda>_. ret_m r'))"

definition armed_of :: "'d lease_env \<Rightarrow> 'd lease_world \<Rightarrow> lease_rec list" where
  "armed_of env w = filter (\<lambda>r. l_state r = ''armed'') (records_of env w)"

text \<open>The newest record of an arm request; of equally new ones the first.\<close>

fun newest :: "lease_rec list \<Rightarrow> lease_rec option" where
  "newest [] = None"
| "newest (r # rs) = (case newest rs of None \<Rightarrow> Some r | Some s \<Rightarrow> Some (if l_created r < l_created s then s else r))"

definition find_by_arm_request_id :: "'d lease_env \<Rightarrow> string \<Rightarrow> ('d, lease_rec option) wt_m" where
  "find_by_arm_request_id env rid =
    (if rid = [] then ret_m None
     else bind_m (records env) (\<lambda>rs. ret_m (newest (filter (\<lambda>r. l_arm_request r = Some rid) rs))))"

section \<open>Git\<close>

definition is_registered :: "string \<Rightarrow> 'd lease_world \<Rightarrow> bool" where
  "is_registered name w \<longleftrightarrow> name \<in> wl_trees w"

definition remove_worktree :: "'d lease_env \<Rightarrow> string \<Rightarrow> 'd lease_world \<Rightarrow> 'd lease_world" where
  "remove_worktree env name w = (if le_remove_ok env name then w\<lparr>wl_trees := wl_trees w - {name}\<rparr> else w)"

definition reclaim_leased_worktree :: "'d lease_env \<Rightarrow> lease_rec \<Rightarrow> ('d, unit) wt_m" where
  "reclaim_leased_worktree env r w =
    (let w' = remove_worktree env (l_name r) w
     in if is_registered (l_name r) w' then (Inl (LeaseError ''worktree-lease-reclaim-failed''), w') else (Inr (), w'))"

definition canonical_repo_identity :: "'d lease_env \<Rightarrow> ('d, string) wt_m" where
  "canonical_repo_identity env =
    (case le_repo env of None \<Rightarrow> raise_m (LeaseError ''worktree-lease-repo-unavailable'') | Some r \<Rightarrow> ret_m r)"

definition unresolved_text :: "'d lease_env \<Rightarrow> string \<Rightarrow> string" where
  "unresolved_text env ref =
     ''base_ref '' @ repr_str ref @ '' does not resolve in '' @ le_workdir env @ '': tried it directly, then `git fetch origin`, then origin/'' @ ref @
     ''. The seat'' @ [CHR 0x27] @ ''s clone is most likely stale, or the branch was never pushed to origin.''"

definition resolve_base_ref_oid :: "'d lease_env \<Rightarrow> string \<Rightarrow> (wt_exc, string) res" where
  "resolve_base_ref_oid env ref =
    (if le_rev env False ref \<noteq> [] then Inr (le_rev env False ref)
     else if le_rev env True ref \<noteq> [] then Inr (le_rev env True ref)
     else if le_rev env True (''origin/'' @ ref) \<noteq> [] then Inr (le_rev env True (''origin/'' @ ref))
     else Inl (WorktreeErr (unresolved_text env ref)))"

definition resolve_base_oid :: "'d lease_env \<Rightarrow> string \<Rightarrow> ('d, string) wt_m" where
  "resolve_base_oid env ref =
    (case resolve_base_ref_oid env ref of
       Inl _ \<Rightarrow> raise_m (LeaseError ''worktree-lease-base-ref-invalid'')
     | Inr oid \<Rightarrow> ret_m oid)"

definition create_worktree :: "'d lease_env \<Rightarrow> string \<Rightarrow> string \<Rightarrow> ('d, unit) wt_m" where
  "create_worktree env name base_ref w =
    (case resolve_base_ref_oid env base_ref of
       Inl e \<Rightarrow> (Inl e, w)
     | Inr oid \<Rightarrow>
        (case le_add env name oid (wl_trees w) of
           Some err \<Rightarrow> (Inl (WorktreeErr (''git worktree add failed: '' @ err)), w)
         | None \<Rightarrow> (Inr (), w\<lparr>wl_trees := insert name (wl_trees w)\<rparr>)))"

section \<open>Reconciliation\<close>

definition delete_lease :: "'d lease_env \<Rightarrow> string \<Rightarrow> 'd lease_world \<Rightarrow> 'd lease_world" where
  "delete_lease env lid w = w\<lparr>wl_files := AList.delete (lease_path env lid) (wl_files w), wl_locks := wl_locks w - {lease_path env lid}\<rparr>"

definition sweep_tombstone :: "'d lease_env \<Rightarrow> rat \<Rightarrow> lease_rec \<Rightarrow> ('d, (string \<times> string) list) wt_m" where
  "sweep_tombstone env now r w =
    (case map_of (wl_files w) (lease_path env (l_id r)) of
       None \<Rightarrow> (Inr [], w)
     | Some f \<Rightarrow>
        (let mtime = (case f of LeaseFile _ t \<Rightarrow> t | Corrupt \<Rightarrow> 0);
             t = (case l_tombstoned r of None \<Rightarrow> mtime | Some x \<Rightarrow> if x = 0 then mtime else x)
         in if t + of_int (le_result_ttl env) \<le> now then (Inr [(l_id r, ''tombstone-gc'')], delete_lease env (l_id r) w)
            else (Inr [], w)))"

definition sweep_armed :: "'d lease_env \<Rightarrow> rat \<Rightarrow> lease_rec \<Rightarrow> ('d, (string \<times> string) list) wt_m" where
  "sweep_armed env now r =
    bind_m (load env (l_id r)) (\<lambda>latest.
      case latest of
        None \<Rightarrow> ret_m []
      | Some s \<Rightarrow>
          (if l_state s \<noteq> ''armed'' then ret_m []
           else (\<lambda>w.
             if \<not> is_registered (l_name s) w
             then bind_m (tombstone env now s ''missing-registration'') (\<lambda>_. ret_m [(l_id s, ''missing-registration'')]) w
             else if l_expires s \<le> now
             then bind_m (reclaim_leased_worktree env s) (\<lambda>_.
                  bind_m (tombstone env now s ''expired'') (\<lambda>_. ret_m [(l_id s, ''expired'')])) w
             else (Inr [], w))))"

definition sweep_lease :: "'d lease_env \<Rightarrow> rat \<Rightarrow> string \<Rightarrow> lease_rec \<Rightarrow> ('d, (string \<times> string) list) wt_m" where
  "sweep_lease env now repo r =
    (if l_state r = ''tombstoned'' then sweep_tombstone env now r
     else if l_repo r \<noteq> repo then ret_m []
     else unless_busy env (l_id r) (sweep_armed env now r))"

definition reconcile :: "'d lease_env \<Rightarrow> rat \<Rightarrow> string \<Rightarrow> ('d, (string \<times> string) list) wt_m" where
  "reconcile env now repo =
    bind_m (records env) (\<lambda>rs. bind_m (for_m rs (sweep_lease env now repo)) (\<lambda>as. ret_m (concat as)))"

section \<open>Lane rows\<close>

definition writer_rows :: "'d lane_writer \<Rightarrow> ('d, lane_row list) wt_m" where
  "writer_rows wr w = (case lwr_rows wr (wl_lanes w) of Inl e \<Rightarrow> (Inl (LaneStoreUnreachable e), w) | Inr rs \<Rightarrow> (Inr rs, w))"

definition writer_retire :: "'d lane_writer \<Rightarrow> string \<Rightarrow> ('d, bool) wt_m" where
  "writer_retire wr lid w =
    (case lwr_retire wr lid (wl_lanes w) of
       (Inl e, d) \<Rightarrow> (Inl (LaneStoreUnreachable e), w\<lparr>wl_lanes := d\<rparr>)
     | (Inr b, d) \<Rightarrow> (Inr b, w\<lparr>wl_lanes := d\<rparr>))"

definition ignore_exc :: "('d, 'a) wt_m \<Rightarrow> ('d, unit) wt_m" where
  "ignore_exc m w = (Inr (), snd (m w))"

text \<open>The dictionary of rows by lease id: a later row replaces an earlier one, in place.\<close>

definition row_by_id :: "lane_row list \<Rightarrow> (string \<times> lane_row) list" where
  "row_by_id rows = foldl (\<lambda>d r. if ln_lease r = [] then d else AList.update (ln_lease r) r d) [] rows"

definition row_matches :: "'d lease_env \<Rightarrow> lease_rec \<Rightarrow> lane_row \<Rightarrow> bool" where
  "row_matches env r row \<longleftrightarrow> ln_lane row = l_lane r \<and> ln_armed_by row = le_agent env"

definition retire_action :: "'d lane_writer \<Rightarrow> string \<Rightarrow> string \<Rightarrow> ('d, (string \<times> string) list) wt_m" where
  "retire_action wr lid action = bind_m (writer_retire wr lid) (\<lambda>gone. ret_m (if gone then [(lid, action)] else []))"

definition reclaim_mismatch :: "'d lease_env \<Rightarrow> 'd lane_writer \<Rightarrow> rat \<Rightarrow> string \<Rightarrow> string \<Rightarrow> ('d, (string \<times> string) list) wt_m" where
  "reclaim_mismatch env wr now lid reason =
    bind_m (load env lid) (\<lambda>latest.
      case latest of
        None \<Rightarrow> ret_m []
      | Some s \<Rightarrow>
         (if l_state s \<noteq> ''armed'' then ret_m []
          else bind_m (writer_rows wr) (\<lambda>rows.
            (let live = map_of (row_by_id rows) (l_id s) in
             if (case live of None \<Rightarrow> False | Some row \<Rightarrow> row_matches env s row) then ret_m []
             else bind_m (reclaim_leased_worktree env s) (\<lambda>_.
                  bind_m (tombstone env now s reason) (\<lambda>_.
                  bind_m (if live \<noteq> None then ignore_exc (writer_retire wr (l_id s)) else ret_m ()) (\<lambda>_.
                  ret_m [(l_id s, reason)])))))))"

definition converge_record :: "'d lease_env \<Rightarrow> 'd lane_writer \<Rightarrow> rat \<Rightarrow> (string \<times> lane_row) list \<Rightarrow> lease_rec \<Rightarrow> ('d, (string \<times> string) list) wt_m" where
  "converge_record env wr now rows r =
    (let row = map_of rows (l_id r) in
     if l_state r = ''tombstoned''
     then (if row = None then ret_m [] else unless_busy env (l_id r) (retire_action wr (l_id r) ''tombstone-row-retired''))
     else if l_state r \<noteq> ''armed'' then ret_m []
     else (case row of
             None \<Rightarrow> unless_busy env (l_id r) (reclaim_mismatch env wr now (l_id r) ''lane-row-missing'')
           | Some x \<Rightarrow> (if row_matches env r x then ret_m []
                       else unless_busy env (l_id r) (reclaim_mismatch env wr now (l_id r) ''lane-mismatch''))))"

definition reconcile_lane_writer_rows :: "'d lease_env \<Rightarrow> 'd lane_writer \<Rightarrow> rat \<Rightarrow> ('d, (string \<times> string) list) wt_m" where
  "reconcile_lane_writer_rows env wr now =
    bind_m (writer_rows wr) (\<lambda>all_rows.
    bind_m (records env) (\<lambda>rs.
      (let rows = row_by_id all_rows;
           known = (\<lambda>lid. \<exists>r \<in> set rs. l_id r = lid \<and> l_state r \<in> {''armed'', ''tombstoned''})
       in bind_m (for_m rs (converge_record env wr now rows)) (\<lambda>as.
          bind_m (for_m (filter (\<lambda>lid. \<not> known lid) (map fst rows))
                    (\<lambda>lid. unless_busy env lid (retire_action wr lid ''orphan-row-retired''))) (\<lambda>bs.
          ret_m (concat as @ concat bs))))))"

definition reconcile_worktree_leases :: "'d lease_env \<Rightarrow> rat \<Rightarrow> ('d, (string \<times> string) list) wt_m" where
  "reconcile_worktree_leases env now =
    bind_m (records env) (\<lambda>rs.
    bind_m (if rs = [] then ret_m []
            else bind_m (if \<exists>r \<in> set rs. l_state r = ''armed'' then canonical_repo_identity env else ret_m [])
                   (\<lambda>repo. reconcile env now repo)) (\<lambda>as.
    bind_m (case le_writer env of None \<Rightarrow> ret_m [] | Some wr \<Rightarrow> reconcile_lane_writer_rows env wr now) (\<lambda>bs.
    ret_m (as @ bs))))"

section \<open>Use, arming and release\<close>

text \<open>The name pattern here is matched in full.\<close>

definition lease_checks :: "'d lease_env \<Rightarrow> rat \<Rightarrow> envelope \<Rightarrow> bool \<Rightarrow> lease_rec \<Rightarrow> ('d, lease_rec) wt_m" where
  "lease_checks env now e allow_expired r =
    bind_m (when_m (l_state r \<noteq> ''armed'') (LeaseError ''worktree-lease-unavailable'')) (\<lambda>_.
    bind_m (when_m (l_sender r \<noteq> e_sender e) (LeaseError ''worktree-lease-owner-mismatch'')) (\<lambda>_.
    bind_m (canonical_repo_identity env) (\<lambda>repo.
    bind_m (when_m (l_repo r \<noteq> repo) (LeaseError ''worktree-lease-repo-mismatch'')) (\<lambda>_.
    bind_m (when_m (\<not> name_fullmatch (l_name r)) (LeaseError ''worktree-lease-corrupt'')) (\<lambda>_.
    bind_m (when_m (\<not> allow_expired \<and> l_expires r \<le> now) (LeaseError ''worktree-lease-expired'')) (\<lambda>_.
    bind_m (\<lambda>w. when_m (\<not> is_registered (l_name r) w) (LeaseError ''worktree-lease-unavailable'') w) (\<lambda>_.
    bind_m (case (if allow_expired then None else le_writer env) of
              None \<Rightarrow> ret_m ()
            | Some wr \<Rightarrow> (\<lambda>w. case writer_rows wr w of
                 (Inl _, w') \<Rightarrow> (Inl (LeaseError ''worktree-lane-store-unreachable''), w')
               | (Inr rows, w') \<Rightarrow> when_m (\<not> (\<exists>row \<in> set rows. ln_lease row = l_id r \<and> row_matches env r row))
                                     (LeaseError ''worktree-lane-row-missing'') w')) (\<lambda>_.
    ret_m r))))))))"

definition validate_worktree_lease :: "'d lease_env \<Rightarrow> rat \<Rightarrow> envelope \<Rightarrow> string \<Rightarrow> bool \<Rightarrow> ('d, lease_rec) wt_m" where
  "validate_worktree_lease env now e policy allow_expired =
    (if \<not> nonempty_str (dget (e_payload e) ''worktree_lease'') then raise_m (LeaseError ''worktree-lease-invalid'')
     else if policy \<noteq> ''trusted'' then raise_m (LeaseError ''worktree-lease-requires-trusted-sender'')
     else bind_m (load env (str_of (dget (e_payload e) ''worktree_lease''))) (\<lambda>found.
       case found of
         None \<Rightarrow> raise_m (LeaseError ''worktree-lease-unavailable'')
       | Some r \<Rightarrow> lease_checks env now e allow_expired r))"

definition compensate :: "'d lease_env \<Rightarrow> rat \<Rightarrow> lease_rec \<Rightarrow> 'd lease_world \<Rightarrow> wt_exc option \<times> wt_exc option \<times> 'd lease_world" where
  "compensate env now r w =
    (let (a, w1) = reclaim_leased_worktree env r w; (b, w2) = tombstone env now r ''lane-row-arm-failed'' w1
     in ((case a of Inl e \<Rightarrow> Some e | Inr _ \<Rightarrow> None), (case b of Inl e \<Rightarrow> Some e | Inr _ \<Rightarrow> None), w2))"

definition none_text :: "wt_exc option \<Rightarrow> string" where
  "none_text x = (case x of None \<Rightarrow> ''None'' | Some e \<Rightarrow> exc_text e)"

definition arm_lane_row_or_compensate :: "'d lease_env \<Rightarrow> 'd lane_writer \<Rightarrow> rat \<Rightarrow> lease_rec \<Rightarrow> ('d, unit) wt_m" where
  "arm_lane_row_or_compensate env wr now r w =
    (case lwr_arm wr (l_id r) (wl_lanes w) of
       (Inl arm_exc, d) \<Rightarrow>
        (case compensate env now r (w\<lparr>wl_lanes := d\<rparr>) of
           (None, None, w2) \<Rightarrow> (Inl (LeaseError ''worktree-lane-arm-store-failed''), w2)
         | (x, y, w2) \<Rightarrow>
            (Inl (LeaseError (''worktree-lane-arm-store-failed;compensation-failed:'' @
               join '';'' ((''arm='' @ arm_exc) # (case x of None \<Rightarrow> [] | Some e \<Rightarrow> [''reclaim='' @ exc_text e]) @
                                   (case y of None \<Rightarrow> [] | Some e \<Rightarrow> [''tombstone='' @ exc_text e])))), w2))
     | (Inr row, d) \<Rightarrow>
        (if ln_lease row = l_id r \<and> ln_armed_by row = le_agent env \<and> ln_lane row = le_lane env then (Inr (), w\<lparr>wl_lanes := d\<rparr>)
         else
           (case compensate env now r (snd (writer_retire wr (l_id r) (w\<lparr>wl_lanes := d\<rparr>))) of
              (None, None, w2) \<Rightarrow> (Inl (LeaseError ''worktree-lane-arm-store-failed''), w2)
            | (x, y, w2) \<Rightarrow>
               (Inl (LeaseError (''worktree-lane-arm-store-failed;compensation-failed:arm=row-identity-mismatch;reclaim='' @ none_text x @
                  '';tombstone='' @ none_text y)), w2))))"

definition prepare_exempt :: "'d lease_env \<Rightarrow> string \<Rightarrow> ('d, unit) wt_m" where
  "prepare_exempt env name =
    (if le_lane env \<noteq> ''exempt'' then ret_m ()
     else (case le_prepare env name of None \<Rightarrow> ret_m () | Some code \<Rightarrow> raise_m (LeaseError code)))"

text \<open>Creation of the worktree and its record: an exception after the worktree exists removes it again.\<close>

definition publish_lease :: "'d lease_env \<Rightarrow> rat \<Rightarrow> lease_rec \<Rightarrow> ('d, lease_rec) wt_m" where
  "publish_lease env now r w =
    (case create_worktree env (l_name r) (l_base r) w of
       (Inl e, w1) \<Rightarrow> (Inl e, w1)
     | (Inr _, w1) \<Rightarrow>
        (case bind_m (prepare_exempt env (l_name r)) (\<lambda>_. create env now r) w1 of
           (Inl e, w2) \<Rightarrow> (Inl e, remove_worktree env (l_name r) w2)
         | (Inr s, w2) \<Rightarrow> (Inr s, w2)))"

definition arm_locked :: "'d lease_env \<Rightarrow> rat \<Rightarrow> lease_rec \<Rightarrow> ('d, lease_rec) wt_m" where
  "arm_locked env now r =
    with_lock env (l_id r)
      (bind_m (publish_lease env now r) (\<lambda>s.
       bind_m (case le_writer env of None \<Rightarrow> ret_m () | Some wr \<Rightarrow> arm_lane_row_or_compensate env wr now s) (\<lambda>_.
       ret_m s)))"

text \<open>An operation ends with a lease armed, a lease released, or the replay of an earlier end.\<close>

datatype op_end = Armed lease_rec | Released string | Refused string

definition lease_failure :: "lease_rec \<Rightarrow> string" where
  "lease_failure r =
    (let reason = (case l_reason r of Some (c # cs) \<Rightarrow> c # cs | _ \<Rightarrow> ''worktree-lease-unavailable'')
     in if reason \<in> {''lane-row-arm-failed'', ''lane-row-missing'', ''lane-mismatch''} \<or> py_startswith reason ''lane-''
        then ''worktree-lane-arm-store-failed'' else ''worktree-lease-unavailable:'' @ reason)"

definition replay_arm :: "'d lease_env \<Rightarrow> lease_rec \<Rightarrow> ('d, op_end option) wt_m" where
  "replay_arm env r =
    (if l_state r = ''tombstoned'' then ret_m (Some (Refused (lease_failure r)))
     else if l_state r \<noteq> ''armed'' then ret_m None
     else bind_m (case le_writer env of None \<Rightarrow> ret_m True
                  | Some wr \<Rightarrow> bind_m (writer_rows wr) (\<lambda>rows. ret_m (\<exists>row \<in> set rows. ln_lease row = l_id r \<and> row_matches env r row))) (\<lambda>ok.
          if \<not> ok then ret_m (Some (Refused ''worktree-lane-arm-store-failed''))
          else (\<lambda>w. (Inr (Some (if is_registered (l_name r) w then Armed r else Refused ''worktree-lease-unavailable'')), w))))"

definition lease_ttl_of :: "'d lease_env \<Rightarrow> dict \<Rightarrow> (wt_exc, int) res" where
  "lease_ttl_of env p =
    (case (if dhas p ''lease_ttl'' then dget p ''lease_ttl'' else JInt (le_ttl env)) of
       JInt n \<Rightarrow> (if n \<le> 0 \<or> le_ttl_max env < n then Inl (LeaseError ''worktree-lease-ttl-invalid'') else Inr n)
     | _ \<Rightarrow> Inl (LeaseError ''worktree-lease-ttl-invalid''))"

definition arm_within_quota :: "'d lease_env \<Rightarrow> rat \<Rightarrow> string \<Rightarrow> envelope \<Rightarrow> worktree_spec \<Rightarrow> int \<Rightarrow> ('d, op_end) wt_m" where
  "arm_within_quota env now lid e spec ttl =
    bind_m (records env) (\<lambda>rs.
      (let armed = filter (\<lambda>r. l_state r = ''armed'') rs in
       bind_m (when_m (le_max_armed env \<le> length armed) (LeaseError ''worktree-armed-global-quota'')) (\<lambda>_.
       bind_m (when_m (le_max_sender env \<le> length (filter (\<lambda>r. l_sender r = e_sender e) armed)) (LeaseError ''worktree-armed-sender-quota'')) (\<lambda>_.
       bind_m (canonical_repo_identity env) (\<lambda>repo.
       bind_m (resolve_base_oid env (ws_base_ref spec)) (\<lambda>oid.
       bind_m (arm_locked env now (new_lease lid (e_sender e) (ws_name spec) repo oid now ttl (le_lane env) (Some (e_id e)))) (\<lambda>r.
       ret_m (Armed r))))))))"

definition arm_new :: "'d lease_env \<Rightarrow> rat \<Rightarrow> string \<Rightarrow> envelope \<Rightarrow> ('d, op_end) wt_m" where
  "arm_new env now lid e =
    (case parse_worktree_spec (e_payload e) of
       Inl x \<Rightarrow> raise_m (WorktreeErr x)
     | Inr None \<Rightarrow> raise_m (LeaseError ''worktree-arm-requires-keep-worktree'')
     | Inr (Some spec) \<Rightarrow>
        bind_m (when_m (ws_cleanup spec \<noteq> ''keep'') (LeaseError ''worktree-arm-requires-keep-worktree'')) (\<lambda>_.
        bind_m (lift_m (lease_ttl_of env (e_payload e))) (\<lambda>ttl. arm_within_quota env now lid e spec ttl)))"

definition only_keys :: "string list \<Rightarrow> dict \<Rightarrow> bool" where
  "only_keys ks p \<longleftrightarrow> list_all (\<lambda>(k, _). k \<in> set ks) p"

definition arm_operation :: "'d lease_env \<Rightarrow> rat \<Rightarrow> string \<Rightarrow> envelope \<Rightarrow> ('d, op_end) wt_m" where
  "arm_operation env now lid e =
    (if \<not> only_keys [''operation'', ''worktree'', ''lease_ttl'', ''run_id''] (e_payload e) then raise_m (LeaseError ''worktree-arm-invalid-schema'')
     else bind_m (find_by_arm_request_id env (e_id e)) (\<lambda>prior.
          bind_m (case prior of None \<Rightarrow> ret_m None | Some r \<Rightarrow> replay_arm env r) (\<lambda>done'.
          case done' of Some x \<Rightarrow> ret_m x | None \<Rightarrow> arm_new env now lid e)))"

definition retire_released :: "'d lane_writer \<Rightarrow> string \<Rightarrow> ('d, unit) wt_m" where
  "retire_released wr lid w =
    (case writer_retire wr lid w of
       (Inl _, w') \<Rightarrow> (Inl (LeaseError ''worktree-lane-release-store-failed''), w')
     | (Inr False, w') \<Rightarrow> (Inl (LeaseError ''worktree-lane-release-mismatch''), w')
     | (Inr True, w') \<Rightarrow> (Inr (), w'))"

definition release_operation :: "'d lease_env \<Rightarrow> rat \<Rightarrow> envelope \<Rightarrow> string \<Rightarrow> ('d, op_end) wt_m" where
  "release_operation env now e policy =
    (if \<not> only_keys [''operation'', ''worktree_lease'', ''run_id''] (e_payload e) \<or> \<not> nonempty_str (dget (e_payload e) ''worktree_lease'')
     then raise_m (LeaseError ''worktree-release-invalid-schema'')
     else (let lid = str_of (dget (e_payload e) ''worktree_lease'') in
       with_lock env lid
         (bind_m (validate_worktree_lease env now e policy True) (\<lambda>r.
          bind_m (reclaim_leased_worktree env r) (\<lambda>_.
          bind_m (tombstone env now r ''released'') (\<lambda>_.
          bind_m (case le_writer env of None \<Rightarrow> ret_m () | Some wr \<Rightarrow> retire_released wr lid) (\<lambda>_.
          ret_m (Released lid))))))))"

definition lease_operation :: "'d lease_env \<Rightarrow> rat \<Rightarrow> string \<Rightarrow> envelope \<Rightarrow> string \<Rightarrow> ('d, op_end) wt_m" where
  "lease_operation env now lid e policy =
    bind_m (reconcile_worktree_leases env now) (\<lambda>_.
      if dget (e_payload e) ''operation'' = JStr ''worktree_arm'' then arm_operation env now lid e
      else release_operation env now e policy)"

section \<open>What operations can do to the armed leases\<close>

text \<open>A computation is calm if it arms nothing: the armed records afterwards are among those before.\<close>

definition keyed :: "'d lease_world \<Rightarrow> bool" where
  "keyed w \<longleftrightarrow> distinct (map fst (wl_files w))"

definition fewer_armed :: "'d lease_env \<Rightarrow> 'd lease_world \<Rightarrow> 'd lease_world \<Rightarrow> bool" where
  "fewer_armed env w w' \<longleftrightarrow> (keyed w \<longrightarrow> keyed w') \<and> mset (armed_of env w') \<subseteq># mset (armed_of env w)"

definition calm :: "'d lease_env \<Rightarrow> ('d, 'a) wt_m \<Rightarrow> bool" where
  "calm env m \<longleftrightarrow> (\<forall>w. fewer_armed env w (snd (m w)))"

lemma fewer_armed_refl [simp]: "fewer_armed env w w"
  by (simp add: fewer_armed_def)

lemma fewer_armed_trans: "fewer_armed env w1 w2 \<Longrightarrow> fewer_armed env w2 w3 \<Longrightarrow> fewer_armed env w1 w3"
  unfolding fewer_armed_def using subset_mset.order_trans by blast

lemma fewer_armed_files: "wl_files w' = wl_files w \<Longrightarrow> fewer_armed env w w'"
  by (simp add: fewer_armed_def keyed_def armed_of_def records_of_def)

lemma calm_bind: "calm env m \<Longrightarrow> (\<And>x. calm env (f x)) \<Longrightarrow> calm env (bind_m m f)"
  unfolding calm_def
proof
  fix w assume a: "\<forall>w. fewer_armed env w (snd (m w))" "\<And>x. \<forall>w. fewer_armed env w (snd (f x w))"
  obtain r w' where m: "m w = (r, w')" by fastforce
  with a(1) have "fewer_armed env w w'" by (metis snd_conv)
  with a(2) m show "fewer_armed env w (snd (bind_m m f w))"
    by (cases r) (auto simp: bind_m_def intro: fewer_armed_trans)
qed

lemma calm_pure [simp]: "calm env (ret_m x)" "calm env (raise_m e)" "calm env (lift_m r)" "calm env (when_m b e)"
  by (simp_all add: calm_def ret_m_def raise_m_def lift_m_def when_m_def)

lemma calm_for: "(\<And>x. calm env (f x)) \<Longrightarrow> calm env (for_m xs f)"
  by (induction xs) (auto intro!: calm_bind)

lemma calm_with_lock:
  fixes m :: "('d, 'a) wt_m"
  shows "calm env m \<Longrightarrow> calm env (with_lock env' lid m)"
  unfolding calm_def
proof
  fix w :: "'d lease_world" assume a: "\<forall>w. fewer_armed env w (snd (m w))"
  let ?w = "w\<lparr>wl_locks := insert (lease_path env' lid) (wl_locks w)\<rparr>"
  obtain r w' where m: "m ?w = (r, w')" by fastforce
  have "fewer_armed env w ?w" by (rule fewer_armed_files) simp
  moreover have "fewer_armed env ?w w'" using a m by (metis snd_conv)
  moreover have "fewer_armed env w' (w'\<lparr>wl_locks := wl_locks w' - {lease_path env' lid}\<rparr>)" by (rule fewer_armed_files) simp
  ultimately have "fewer_armed env w (w'\<lparr>wl_locks := wl_locks w' - {lease_path env' lid}\<rparr>)" using fewer_armed_trans by blast
  with m show "fewer_armed env w (snd (with_lock env' lid m w))" by (simp add: with_lock_def Let_def)
qed

lemma calm_unless_busy: "calm env m \<Longrightarrow> calm env (unless_busy env' lid m)"
  using calm_with_lock [of env m env' lid] by (auto simp: calm_def unless_busy_def)

lemma calm_state: "(\<And>w. wl_files (snd (m w)) = wl_files w) \<Longrightarrow> calm env m"
  by (simp add: calm_def fewer_armed_files)

lemma calm_ignore: "calm env m \<Longrightarrow> calm env (ignore_exc m)"
  by (simp add: calm_def ignore_exc_def)

definition armed_in :: "'d lease_env \<Rightarrow> string \<times> lease_file \<Rightarrow> lease_rec list" where
  "armed_in env pf = (if record_ok env pf then filter (\<lambda>r. l_state r = ''armed'') (lease_of pf) else [])"

lemma armed_of_concat: "armed_of env w = concat (map (armed_in env) (wl_files w))"
proof -
  have "filter (\<lambda>r. l_state r = ''armed'') (concat (map lease_of (filter (record_ok env) fs))) = concat (map (armed_in env) fs)" for fs
    by (induction fs) (auto simp: armed_in_def)
  then show ?thesis by (simp add: armed_of_def records_of_def)
qed

lemma calm_records: "calm env (records env)"
proof -
  have "concat (map (armed_in env) (filter (record_ok env) fs)) = concat (map (armed_in env) fs)" for fs
    by (induction fs) (auto simp: armed_in_def)
  then show ?thesis
    by (auto simp: calm_def records_def fewer_armed_def keyed_def armed_of_concat distinct_map_filter)
qed

lemma armed_update:
  assumes "armed_in env (p, f) = []"
  shows "mset (concat (map (armed_in env) (AList.update p f fs))) \<subseteq># mset (concat (map (armed_in env) fs))"
  using assms by (induction fs) (auto intro: subset_mset.order_trans)

lemma calm_tombstone: "calm env (tombstone env' now r reason)"
  unfolding tombstone_def Let_def
proof (intro calm_bind calm_pure)
  have "armed_in env (lease_path env' (l_id r), LeaseFile (r\<lparr>l_state := ''tombstoned'', l_reason := Some reason, l_tombstoned := Some now\<rparr>) now) = []"
    by (simp add: armed_in_def)
  note armed_update [OF this]
  then show "calm env (replace_file env' now (r\<lparr>l_state := ''tombstoned'', l_reason := Some reason, l_tombstoned := Some now\<rparr>))"
    by (auto simp: calm_def replace_file_def Let_def fewer_armed_def keyed_def armed_of_concat distinct_update)
qed

lemma armed_delete: "mset (concat (map (armed_in env) (AList.delete p fs))) \<subseteq># mset (concat (map (armed_in env) fs))"
  by (induction fs) (auto intro: subset_mset.order_trans)

lemma calm_sweep_tombstone: "calm env (sweep_tombstone env' now r)"
  using armed_delete
  by (auto simp: calm_def sweep_tombstone_def delete_lease_def Let_def fewer_armed_def keyed_def armed_of_concat distinct_delete split: option.splits lease_file.splits)

lemma calm_state_ops [simp]:
  "calm env (reclaim_leased_worktree env' r)" "calm env (canonical_repo_identity env')" "calm env (load env' lid)" "calm env (writer_rows wr)"
  "calm env (writer_retire wr lid)" "calm env (resolve_base_oid env' ref)" "calm env (create_worktree env' name ref)" "calm env (prepare_exempt env' name)"
  by (rule calm_state,
      simp add: reclaim_leased_worktree_def remove_worktree_def canonical_repo_identity_def load_def writer_rows_def writer_retire_def resolve_base_oid_def
        create_worktree_def prepare_exempt_def ret_m_def raise_m_def Let_def split: option.splits lease_file.splits sum.splits prod.splits)+

lemma calm_if: "calm env m \<Longrightarrow> calm env m' \<Longrightarrow> calm env (\<lambda>w. if P w then m w else m' w)"
  by (simp add: calm_def)

lemma calm_here [simp]: "calm env (\<lambda>w. (Inr (x w), w))" "calm env (\<lambda>w. when_m (P w) e w)"
  by (simp_all add: calm_def when_m_def ret_m_def raise_m_def)

lemmas calm_rules = calm_bind calm_for calm_if calm_unless_busy calm_with_lock calm_tombstone calm_records calm_ignore calm_sweep_tombstone

lemma calm_sweep: "calm env (sweep_lease env' now repo r)"
proof -
  have "calm env (sweep_armed env' now r)"
    unfolding sweep_armed_def by (rule calm_bind, simp) (auto split: option.splits intro!: calm_rules)
  then show ?thesis by (auto simp: sweep_lease_def intro!: calm_rules)
qed

lemma calm_reconcile: "calm env (reconcile env now repo)"
  unfolding reconcile_def by (auto intro!: calm_rules calm_sweep)

lemma calm_converge: "calm env (converge_record env' wr now rows r)"
proof -
  have "calm env (retire_action wr lid a)" for lid a unfolding retire_action_def by (auto intro!: calm_rules)
  moreover have "calm env (reclaim_mismatch env' wr now lid reason)" for lid reason
    unfolding reclaim_mismatch_def Let_def by (rule calm_bind, simp) (auto split: option.splits intro!: calm_rules)
  ultimately show ?thesis unfolding converge_record_def Let_def by (auto split: option.splits intro!: calm_rules)
qed

lemma calm_reconcile_rows: "calm env (reconcile_lane_writer_rows env wr now)"
proof -
  have "calm env (retire_action wr lid a)" for lid a unfolding retire_action_def by (auto intro!: calm_rules)
  then show ?thesis unfolding reconcile_lane_writer_rows_def Let_def by (auto intro!: calm_rules calm_converge)
qed

lemma calm_reconcile_leases: "calm env (reconcile_worktree_leases env now)"
  unfolding reconcile_worktree_leases_def by (auto split: option.splits intro!: calm_rules calm_reconcile calm_reconcile_rows)

lemma calm_validate: "calm env (validate_worktree_lease env' now e policy allow)"
proof -
  have "calm env (\<lambda>w. case writer_rows wr w of (Inl _, w') \<Rightarrow> (Inl x, w') | (Inr rows, w') \<Rightarrow> when_m (P rows) y w')" for wr x P y
    by (rule calm_state) (auto simp: writer_rows_def when_m_def ret_m_def raise_m_def split: sum.splits)
  then show ?thesis unfolding validate_worktree_lease_def lease_checks_def
    by (auto split: option.splits intro!: calm_rules)
qed

lemma calm_release: "calm env (release_operation env' now e policy)"
proof -
  have "calm env (retire_released wr lid)" for wr lid
    by (rule calm_state) (auto simp: retire_released_def writer_retire_def split: sum.splits prod.splits bool.splits)
  then show ?thesis unfolding release_operation_def Let_def
    by (auto split: option.splits intro!: calm_rules calm_validate)
qed

lemma calm_replay: "calm env (replay_arm env' r)"
  unfolding replay_arm_def by (auto split: option.splits intro!: calm_rules)

section \<open>Arming\<close>

lemma write_new_armed:
  assumes "write_new env now r w = (Inr (), w')"
  shows "wl_files w' = wl_files w @ [(lease_path env (l_id r), LeaseFile r now)]" "wl_trees w' = wl_trees w" "wl_lanes w' = wl_lanes w"
    "map_of (wl_files w) (lease_path env (l_id r)) = None" "le_io env (lease_path env (l_id r))"
  using assms by (auto simp: write_new_def Let_def split: if_splits)

lemma create_Inr: "create env now r w = (Inr s, w') \<longleftrightarrow> s = r \<and> l_lane r \<in> {''gated'', ''exempt''} \<and> write_new env now r w = (Inr (), w')"
  by (auto simp: create_def bind_m_Inr ret_m_def raise_m_def)

lemma create_Inl_keeps: "create env now r w = (Inl e, w') \<Longrightarrow> w' = w"
  by (auto simp: create_def write_new_def bind_m_def ret_m_def raise_m_def Let_def split: if_splits)

text \<open>A lease is published with its worktree, or neither is left behind.\<close>

lemma publish_lease_ends:
  assumes "publish_lease env now r w = (res, w')"
  shows "case res of
      Inr s \<Rightarrow> s = r \<and> wl_files w' = wl_files w @ [(lease_path env (l_id r), LeaseFile r now)] \<and> wl_trees w' = insert (l_name r) (wl_trees w) \<and>
         map_of (wl_files w) (lease_path env (l_id r)) = None \<and> le_io env (lease_path env (l_id r)) \<and> l_lane r \<in> {''gated'', ''exempt''} \<and>
         wl_lanes w' = wl_lanes w
    | Inl e \<Rightarrow> wl_files w' = wl_files w \<and> wl_lanes w' = wl_lanes w \<and> (le_remove_ok env (l_name r) \<longrightarrow> wl_trees w' \<subseteq> wl_trees w)"
proof -
  obtain a w1 where c: "create_worktree env (l_name r) (l_base r) w = (a, w1)" by fastforce
  show ?thesis
  proof (cases a)
    case (Inl e)
    with c have "w1 = w" by (auto simp: create_worktree_def split: sum.splits option.splits)
    with assms c Inl show ?thesis by (auto simp: publish_lease_def)
  next
    case (Inr u)
    with c have w1: "w1 = w\<lparr>wl_trees := insert (l_name r) (wl_trees w)\<rparr>" by (auto simp: create_worktree_def split: sum.splits option.splits)
    obtain b w2 where d: "bind_m (prepare_exempt env (l_name r)) (\<lambda>_. create env now r) w1 = (b, w2)" by fastforce
    show ?thesis
    proof (cases b)
      case (Inl e)
      with d have "w2 = w1"
        by (auto simp: bind_m_def prepare_exempt_def ret_m_def raise_m_def split: if_splits option.splits dest: create_Inl_keeps)
      with assms c Inr d Inl w1 show ?thesis by (auto simp: publish_lease_def remove_worktree_def)
    next
      case ok: (Inr s)
      with d have "create env now r w1 = (Inr s, w2)"
        by (auto simp: bind_m_def prepare_exempt_def ret_m_def raise_m_def split: if_splits option.splits)
      then have s: "s = r" "l_lane r \<in> {''gated'', ''exempt''}" "write_new env now r w1 = (Inr (), w2)" by (simp_all add: create_Inr)
      from assms c Inr d ok have "res = Inr s" "w' = w2" by (auto simp: publish_lease_def)
      with s(1,2) write_new_armed [OF s(3)] w1 show ?thesis by simp
    qed
  qed
qed

lemma update_last: "map_of fs p = None \<Longrightarrow> AList.update p f (fs @ [(p, g)]) = fs @ [(p, f)]"
  by (induction fs) auto

lemma compensate_ends:
  assumes "compensate env now r w = (x, y, w2)"
  shows "if le_replace_ok env now (lease_path env (l_id r))
     then y = None \<and> wl_files w2 = AList.update (lease_path env (l_id r))
       (LeaseFile (r\<lparr>l_state := ''tombstoned'', l_reason := Some ''lane-row-arm-failed'', l_tombstoned := Some now\<rparr>) now) (wl_files w)
     else y = Some (LeaseError ''worktree-lease-write-failed'') \<and> wl_files w2 = wl_files w"
    "le_remove_ok env (l_name r) \<Longrightarrow> x = None \<and> wl_trees w2 = wl_trees w - {l_name r}" "wl_locks w2 = wl_locks w"
  using assms
  by (auto simp: compensate_def tombstone_def replace_file_def reclaim_leased_worktree_def remove_worktree_def is_registered_def bind_m_def ret_m_def Let_def
      split: if_splits prod.splits)

text \<open>The row of the lane writer is there, or the lease that was just published is closed again.\<close>

definition row_armed :: "'d lease_env \<Rightarrow> lease_rec \<Rightarrow> 'd \<Rightarrow> 'd \<Rightarrow> bool" where
  "row_armed env r d d' \<longleftrightarrow> (\<forall>wr. le_writer env = Some wr \<longrightarrow>
     (\<exists>row. lwr_arm wr (l_id r) d = (Inr row, d') \<and> ln_lease row = l_id r \<and> ln_armed_by row = le_agent env \<and> ln_lane row = le_lane env))"

text \<open>The error of an arming whose compensation failed names the failure of the tombstone.\<close>

definition names_tombstone :: "wt_exc \<Rightarrow> wt_exc \<Rightarrow> bool" where
  "names_tombstone f e \<longleftrightarrow>
     (\<exists>c. e = LeaseError (''worktree-lane-arm-store-failed;compensation-failed:'' @ c @ '';tombstone='' @ exc_text f))"

lemma arm_row_cases:
  assumes "arm_lane_row_or_compensate env wr now r w = (res, w')"
  obtains (ok) row d where "lwr_arm wr (l_id r) (wl_lanes w) = (Inr row, d)" "ln_lease row = l_id r" "ln_armed_by row = le_agent env" "ln_lane row = le_lane env"
      "res = Inr ()" "w' = w\<lparr>wl_lanes := d\<rparr>"
  | (closed) v x y e where "compensate env now r v = (x, y, w')" "wl_files v = wl_files w" "wl_trees v = wl_trees w" "wl_locks v = wl_locks w" "res = Inl e"
      "\<And>f. y = Some f \<Longrightarrow> names_tombstone f e"
proof -
  obtain a d where arm: "lwr_arm wr (l_id r) (wl_lanes w) = (a, d)" by fastforce
  have named: "names_tombstone g (LeaseError (''worktree-lane-arm-store-failed;compensation-failed:'' @ c @ '';tombstone='' @ exc_text g))" for g c
    unfolding names_tombstone_def by blast
  show thesis
  proof (cases a)
    case (Inl arm_exc)
    obtain x y w2 where c: "compensate env now r (w\<lparr>wl_lanes := d\<rparr>) = (x, y, w2)" by (metis prod_cases3)
    have "\<exists>e. res = Inl e \<and> w' = w2 \<and> (\<forall>g. y = Some g \<longrightarrow> names_tombstone g e)"
      using assms named [of "the y" "''arm='' @ arm_exc"] named [of "the y" "''arm='' @ arm_exc @ '';reclaim='' @ exc_text (the x)"]
      by (cases x; cases y) (auto simp: arm_lane_row_or_compensate_def arm Inl c)
    then obtain e where "res = Inl e" "w' = w2" "\<And>g. y = Some g \<Longrightarrow> names_tombstone g e" by blast
    with c show thesis by (intro closed [of "w\<lparr>wl_lanes := d\<rparr>" x y e]) auto
  next
    case (Inr row)
    show thesis
    proof (cases "ln_lease row = l_id r \<and> ln_armed_by row = le_agent env \<and> ln_lane row = le_lane env")
      case True
      with assms arm Inr show thesis by (intro ok [of row d]) (auto simp: arm_lane_row_or_compensate_def)
    next
      case False
      let ?v = "snd (writer_retire wr (l_id r) (w\<lparr>wl_lanes := d\<rparr>))"
      obtain x y w2 where c: "compensate env now r ?v = (x, y, w2)" by (metis prod_cases3)
      have "\<exists>e. res = Inl e \<and> w' = w2 \<and> (\<forall>g. y = Some g \<longrightarrow> names_tombstone g e)"
        using assms False named [of "the y" "''arm=row-identity-mismatch;reclaim='' @ none_text x"]
        by (cases x; cases y) (auto simp: arm_lane_row_or_compensate_def arm Inr c none_text_def)
      then obtain e where "res = Inl e" "w' = w2" "\<And>g. y = Some g \<Longrightarrow> names_tombstone g e" by blast
      moreover have "wl_files ?v = wl_files w" "wl_trees ?v = wl_trees w" "wl_locks ?v = wl_locks w"
        by (simp_all add: writer_retire_def split: prod.splits sum.splits)
      ultimately show thesis using c by (intro closed [of ?v x y e]) auto
    qed
  qed
qed

text \<open>Arming as a whole, under the lock: the lease and its row, nothing, a tombstone, or the half-armed record of a tombstone that could not be written.\<close>

definition arm_effect :: "'d lease_env \<Rightarrow> rat \<Rightarrow> lease_rec \<Rightarrow> 'd lease_world \<Rightarrow> (wt_exc, lease_rec) res \<Rightarrow> 'd lease_world \<Rightarrow> bool" where
  "arm_effect env now r w res w' \<longleftrightarrow>
    (case res of
       Inr s \<Rightarrow> s = r \<and> wl_files w' = wl_files w @ [(lease_path env (l_id r), LeaseFile r now)] \<and> wl_trees w' = insert (l_name r) (wl_trees w) \<and>
          row_armed env r (wl_lanes w) (wl_lanes w')
     | Inl e \<Rightarrow> (wl_files w' = wl_files w \<or>
           (\<exists>t. l_state t = ''tombstoned'' \<and> l_id t = l_id r \<and> wl_files w' = wl_files w @ [(lease_path env (l_id r), LeaseFile t now)]) \<or>
           (\<not> le_replace_ok env now (lease_path env (l_id r)) \<and> le_writer env \<noteq> None \<and> names_tombstone (LeaseError ''worktree-lease-write-failed'') e \<and>
            wl_files w' = wl_files w @ [(lease_path env (l_id r), LeaseFile r now)])) \<and>
          (le_remove_ok env (l_name r) \<longrightarrow> wl_trees w' \<subseteq> wl_trees w)) \<and>
    (map_of (wl_files w) (lease_path env (l_id r)) \<noteq> None \<longrightarrow> wl_files w' = wl_files w)"

lemma publish_locks: "publish_lease env now r w = (res, w') \<Longrightarrow> wl_locks w' = wl_locks w"
  by (auto simp: publish_lease_def create_worktree_def remove_worktree_def prepare_exempt_def create_def write_new_def bind_m_def ret_m_def raise_m_def Let_def
      split: sum.splits option.splits if_splits prod.splits)

lemma arm_body_ends:
  assumes "bind_m (publish_lease env now r) (\<lambda>s.
       bind_m (case le_writer env of None \<Rightarrow> ret_m () | Some wr \<Rightarrow> arm_lane_row_or_compensate env wr now s) (\<lambda>_. ret_m s)) w = (res, w')"
  shows "arm_effect env now r w res w'" "wl_locks w' = wl_locks w"
proof -
  obtain a w1 where p: "publish_lease env now r w = (a, w1)" by fastforce
  note pe = publish_lease_ends [OF p] and pl = publish_locks [OF p]
  have "arm_effect env now r w res w' \<and> wl_locks w' = wl_locks w"
  proof (cases a)
    case (Inl e)
    with assms p have "res = Inl e" "w' = w1" by (auto simp: bind_m_def)
    with pe pl Inl show ?thesis by (auto simp: arm_effect_def)
  next
    case (Inr s)
    with pe have s: "s = r" "wl_files w1 = wl_files w @ [(lease_path env (l_id r), LeaseFile r now)]" "wl_trees w1 = insert (l_name r) (wl_trees w)"
        "map_of (wl_files w) (lease_path env (l_id r)) = None" "le_io env (lease_path env (l_id r))" "wl_lanes w1 = wl_lanes w" by auto
    show ?thesis
    proof (cases "le_writer env")
      case None
      with assms p Inr s pl show ?thesis by (auto simp: bind_m_def ret_m_def arm_effect_def row_armed_def)
    next
      case (Some wr)
      obtain b w2 where b: "arm_lane_row_or_compensate env wr now r w1 = (b, w2)" by fastforce
      from b show ?thesis
      proof (cases rule: arm_row_cases)
        case (ok row d)
        with assms p Inr s pl Some b show ?thesis by (auto simp: bind_m_def ret_m_def arm_effect_def row_armed_def)
      next
        case (closed v x y e)
        note ce = compensate_ends [OF closed(1)]
        let ?t = "r\<lparr>l_state := ''tombstoned'', l_reason := Some ''lane-row-arm-failed'', l_tombstoned := Some now\<rparr>"
        have rw: "res = Inl e" "w' = w2" using assms p Inr s(1) Some b closed(5) by (auto simp: bind_m_def)
        have tr: "le_remove_ok env (l_name r) \<longrightarrow> wl_trees w2 \<subseteq> wl_trees w" "wl_locks w2 = wl_locks w" "map_of (wl_files w) (lease_path env (l_id r)) = None"
          using ce(2,3) closed(3,4) s(3,4) pl by auto
        show ?thesis
        proof (cases "le_replace_ok env now (lease_path env (l_id r))")
          case True
          then have "wl_files w2 = wl_files w @ [(lease_path env (l_id r), LeaseFile ?t now)]"
            using ce(1) closed(2) s(2) update_last [OF s(4)] by simp
          then have "\<exists>t. l_state t = ''tombstoned'' \<and> l_id t = l_id r \<and> wl_files w2 = wl_files w @ [(lease_path env (l_id r), LeaseFile t now)]"
            by (intro exI [of _ ?t]) simp
          with rw tr show ?thesis by (simp add: arm_effect_def)
        next
          case False
          with ce(1) closed(2,6) s(2) have "wl_files w2 = wl_files w @ [(lease_path env (l_id r), LeaseFile r now)]"
              "names_tombstone (LeaseError ''worktree-lease-write-failed'') e" by simp_all
          with False rw tr Some show ?thesis by (simp add: arm_effect_def)
        qed
      qed
    qed
  qed
  then show "arm_effect env now r w res w'" "wl_locks w' = wl_locks w" by auto
qed

lemma arm_locked_ends:
  assumes "arm_locked env now r w = (res, w')"
  shows "arm_effect env now r w res w'" "wl_locks w' = wl_locks w"
proof -
  let ?p = "lease_path env (l_id r)" and ?w = "w\<lparr>wl_locks := insert (lease_path env (l_id r)) (wl_locks w)\<rparr>"
  let ?body = "bind_m (publish_lease env now r) (\<lambda>s.
       bind_m (case le_writer env of None \<Rightarrow> ret_m () | Some wr \<Rightarrow> arm_lane_row_or_compensate env wr now s) (\<lambda>_. ret_m s))"
  obtain a w1 where b: "?body ?w = (a, w1)" by fastforce
  note be = arm_body_ends [OF b]
  have "arm_effect env now r w res w' \<and> wl_locks w' = wl_locks w"
  proof (cases "le_io env ?p \<and> ?p \<notin> wl_locks w")
    case True
    then have "res = a" "w' = w1\<lparr>wl_locks := wl_locks w1 - {?p}\<rparr>"
      using assms b by (auto simp: arm_locked_def with_lock_def Let_def)
    with be True show ?thesis by (auto simp: arm_effect_def split: sum.splits)
  next
    case False
    with assms have "w' = w" "\<exists>e. res = Inl e" by (auto simp: arm_locked_def with_lock_def Let_def split: if_splits)
    then show ?thesis by (auto simp: arm_effect_def)
  qed
  then show "arm_effect env now r w res w'" "wl_locks w' = wl_locks w" by auto
qed

section \<open>Quotas\<close>

definition quota :: "'d lease_env \<Rightarrow> 'd lease_world \<Rightarrow> bool" where
  "quota env w \<longleftrightarrow> keyed w \<and> length (armed_of env w) \<le> le_max_armed env \<and>
     (\<forall>s. length (filter (\<lambda>r. l_sender r = s) (armed_of env w)) \<le> le_max_sender env)"

lemma fewer_armed_lengths:
  assumes "mset xs \<subseteq># mset ys"
  shows "length xs \<le> length ys" "length (filter P xs) \<le> length (filter P ys)"
proof -
  show "length xs \<le> length ys" using size_mset_mono [OF assms] by simp
  have "filter_mset P (mset xs) \<subseteq># filter_mset P (mset ys)" by (rule multiset_filter_mono [OF assms])
  from size_mset_mono [OF this] show "length (filter P xs) \<le> length (filter P ys)" by (metis mset_filter size_mset)
qed

lemma quota_fewer:
  assumes "quota env w" "fewer_armed env w w'"
  shows "quota env w'"
proof -
  have "mset (armed_of env w') \<subseteq># mset (armed_of env w)" using assms(2) by (simp add: fewer_armed_def)
  from fewer_armed_lengths [OF this] assms show ?thesis unfolding quota_def fewer_armed_def by (meson le_trans)
qed

lemma arm_effect_fewer:
  assumes "arm_effect env now r w res w'" "keyed w"
  shows "keyed w'" "mset (armed_of env w') \<subseteq># mset (r # armed_of env w)"
proof -
  let ?p = "lease_path env (l_id r)"
  have k: "keyed w'" if "wl_files w' = wl_files w @ [(?p, f)]" for f
  proof -
    have "map_of (wl_files w) ?p = None" using assms(1) that by (auto simp: arm_effect_def)
    then show ?thesis using assms(2) that by (auto simp: keyed_def map_of_eq_None_iff)
  qed
  have one: "mset (armed_in env (?p, LeaseFile r now)) \<subseteq># {#r#}" by (auto simp: armed_in_def)
  show "keyed w'" using assms k by (auto simp: arm_effect_def keyed_def split: sum.splits)
  show "mset (armed_of env w') \<subseteq># mset (r # armed_of env w)"
    using assms(1) one by (auto simp: arm_effect_def armed_of_concat armed_in_def split: sum.splits if_splits)
qed

lemma records_armed: "records env w = (Inr rs, w') \<Longrightarrow> filter (\<lambda>r. l_state r = ''armed'') rs = armed_of env w' \<and> fewer_armed env w w'"
proof -
  assume a: "records env w = (Inr rs, w')"
  have "filter (record_ok env) (filter (record_ok env) fs) = filter (record_ok env) fs" for fs by simp
  then have "filter (\<lambda>r. l_state r = ''armed'') rs = armed_of env w'" using a by (auto simp: records_def armed_of_def records_of_def)
  moreover have "fewer_armed env w w'" using calm_records [of env] a by (metis calm_def snd_conv)
  ultimately show ?thesis by blast
qed

lemma quota_arm_locked:
  assumes "arm_locked env now r w = (res, w')" "quota env w" "length (armed_of env w) < le_max_armed env"
    "length (filter (\<lambda>s. l_sender s = l_sender r) (armed_of env w)) < le_max_sender env"
  shows "quota env w'"
proof -
  have kw: "keyed w" using assms(2) by (simp add: quota_def)
  note e = arm_effect_fewer [OF arm_locked_ends(1) [OF assms(1)] kw]
  have "length (filter (\<lambda>x. l_sender x = s) (armed_of env w')) \<le> le_max_sender env" for s
    using fewer_armed_lengths(2) [OF e(2), of "\<lambda>x. l_sender x = s"] assms(2,4) unfolding quota_def
    by (cases "l_sender r = s") (auto intro: le_trans)
  with fewer_armed_lengths(1) [OF e(2)] assms(3) e(1) show ?thesis by (simp add: quota_def)
qed

lemma quota_calm: "calm env m \<Longrightarrow> quota env w \<Longrightarrow> m w = (res, w') \<Longrightarrow> quota env w'"
  using quota_fewer by (metis calm_def snd_conv)

text \<open>A computation that keeps the quotas, and the ways to compose them.\<close>

definition in_quota :: "'d lease_env \<Rightarrow> ('d, 'a) wt_m \<Rightarrow> bool" where
  "in_quota env m \<longleftrightarrow> (\<forall>w. quota env w \<longrightarrow> quota env (snd (m w)))"

lemma calm_in_quota: "calm env m \<Longrightarrow> in_quota env m"
  unfolding in_quota_def calm_def using quota_fewer by blast

lemma in_quota_bind:
  assumes "in_quota env m" "\<And>x. in_quota env (f x)"
  shows "in_quota env (bind_m m f)"
  unfolding in_quota_def
proof (intro allI impI)
  fix w assume "quota env w"
  moreover obtain r w' where m: "m w = (r, w')" by fastforce
  ultimately have "quota env w'" using assms(1) unfolding in_quota_def by (metis snd_conv)
  with assms(2) m show "quota env (snd (bind_m m f w))" by (cases r) (auto simp: bind_m_def in_quota_def)
qed

lemma in_quota_within: "in_quota env (arm_within_quota env now lid e spec ttl)"
  unfolding in_quota_def
proof (intro allI impI)
  fix w assume q: "quota env w"
  obtain rs w1 where r: "records env w = (Inr rs, w1)" by (simp add: records_def)
  note ra = records_armed [OF r]
  have q1: "quota env w1" using quota_fewer [OF q] ra by blast
  show "quota env (snd (arm_within_quota env now lid e spec ttl w))"
  proof (cases "length (armed_of env w1) < le_max_armed env \<and> length (filter (\<lambda>r. l_sender r = e_sender e) (armed_of env w1)) < le_max_sender env
      \<and> le_repo env \<noteq> None \<and> (\<exists>oid. resolve_base_ref_oid env (ws_base_ref spec) = Inr oid)")
    case True
    then obtain repo oid where ro: "le_repo env = Some repo" "resolve_base_ref_oid env (ws_base_ref spec) = Inr oid" by blast
    let ?r = "new_lease lid (e_sender e) (ws_name spec) repo oid now ttl (le_lane env) (Some (e_id e))"
    obtain res w2 where l: "arm_locked env now ?r w1 = (res, w2)" by fastforce
    have "quota env w2" using quota_arm_locked [OF l q1] True by (simp add: new_lease_def)
    moreover have "snd (arm_within_quota env now lid e spec ttl w) = w2"
      using r ra True ro l by (auto simp: arm_within_quota_def bind_m_def when_m_def ret_m_def canonical_repo_identity_def resolve_base_oid_def Let_def
          split: sum.splits)
    ultimately show ?thesis by simp
  next
    case False
    then have "snd (arm_within_quota env now lid e spec ttl w) = w1"
      using r ra by (auto simp: arm_within_quota_def bind_m_def when_m_def ret_m_def raise_m_def canonical_repo_identity_def resolve_base_oid_def Let_def
          split: sum.splits option.splits)
    with q1 show ?thesis by simp
  qed
qed

lemma in_quota_operation: "in_quota env (lease_operation env now lid e policy)"
proof -
  have new: "in_quota env (arm_new env now lid e)"
    unfolding arm_new_def
    by (auto split: sum.splits option.splits intro!: in_quota_bind in_quota_within calm_in_quota [OF calm_pure(1)]
        calm_in_quota [OF calm_pure(2)] calm_in_quota [OF calm_pure(3)] calm_in_quota [OF calm_pure(4)])
  have replay: "in_quota env (case prior of None \<Rightarrow> ret_m None | Some r \<Rightarrow> replay_arm env r)" for prior
    by (rule calm_in_quota) (auto split: option.splits intro: calm_replay)
  have found: "in_quota env (find_by_arm_request_id env (e_id e))"
    unfolding find_by_arm_request_id_def by (rule calm_in_quota) (auto intro!: calm_bind calm_records)
  have "in_quota env (arm_operation env now lid e)"
    unfolding arm_operation_def
    by (auto split: option.splits intro!: in_quota_bind new found replay calm_in_quota [OF calm_pure(1)] calm_in_quota [OF calm_pure(2)])
  moreover have "in_quota env (release_operation env now e policy)" by (rule calm_in_quota [OF calm_release])
  ultimately show ?thesis unfolding lease_operation_def
    by (auto intro!: in_quota_bind calm_in_quota [OF calm_reconcile_leases])
qed

text \<open>The store over time: operations and heartbeats of the daemon, locks taken and released by its turns, and what others do to git, to the lane
  rows and to single files.\<close>

inductive lease_step :: "'d lease_env \<Rightarrow> 'd lease_world \<Rightarrow> 'd lease_world \<Rightarrow> bool" for env where
  ls_operation: "lease_step env w (snd (lease_operation env now lid e policy w))"
| ls_heartbeat: "lease_step env w (snd (reconcile_worktree_leases env now w))"
| ls_locks: "lease_step env w (w\<lparr>wl_locks := ls\<rparr>)"
| ls_git: "lease_step env w (w\<lparr>wl_trees := ts\<rparr>)"
| ls_rows: "lease_step env w (w\<lparr>wl_lanes := d\<rparr>)"
| ls_damage: "lease_step env w (w\<lparr>wl_files := AList.update p Corrupt (wl_files w)\<rparr>)"

lemma damage_fewer: "fewer_armed env w (w\<lparr>wl_files := AList.update p Corrupt (wl_files w)\<rparr>)"
  using armed_update [of env p Corrupt "wl_files w"]
  by (simp add: fewer_armed_def keyed_def armed_of_concat distinct_update armed_in_def)

interpretation leases: inv_system "\<lambda>w. wl_files w = []" "lease_step env" "quota env" for env
proof
  show "quota env w" if "wl_files w = []" for w
    using that by (simp add: quota_def keyed_def armed_of_concat)
  show "quota env w'" if "quota env w" "lease_step env w w'" for w w'
    using that(2)
  proof cases
    case (ls_operation now lid e policy)
    with that(1) in_quota_operation [of env now lid e policy] show ?thesis by (simp add: in_quota_def)
  next
    case (ls_heartbeat now)
    with that(1) calm_in_quota [OF calm_reconcile_leases, of env now] show ?thesis unfolding in_quota_def by blast
  next
    case (ls_damage p)
    with quota_fewer [OF that(1) damage_fewer] show ?thesis by simp
  qed (use that(1) in \<open>simp_all add: quota_def keyed_def armed_of_concat\<close>)
qed


section \<open>A lease that a turn holds\<close>

text \<open>The file \<open>p\<close> is locked, holds the armed record \<open>r\<close> of a registered worktree, and no other armed record has that worktree.\<close>

definition held :: "string \<Rightarrow> lease_rec \<Rightarrow> rat \<Rightarrow> 'd lease_world \<Rightarrow> bool" where
  "held p r t w \<longleftrightarrow> keyed w \<and> p \<in> wl_locks w \<and> map_of (wl_files w) p = Some (LeaseFile r t) \<and> l_state r = ''armed'' \<and> l_name r \<in> wl_trees w \<and>
     (\<forall>q s u. map_of (wl_files w) q = Some (LeaseFile s u) \<and> l_state s = ''armed'' \<and> l_name s = l_name r \<longrightarrow> q = p)"

definition spares :: "string \<Rightarrow> lease_rec \<Rightarrow> rat \<Rightarrow> ('d, 'a) wt_m \<Rightarrow> bool" where
  "spares p r t m \<longleftrightarrow> (\<forall>w. held p r t w \<longrightarrow> held p r t (snd (m w)))"

lemma spares_bind:
  fixes m :: "('d, 'a) wt_m"
  shows "spares p r t m \<Longrightarrow> (\<And>x. spares p r t (f x)) \<Longrightarrow> spares p r t (bind_m m f)"
  unfolding spares_def
proof (intro allI impI)
  fix w :: "'d lease_world" assume a: "\<forall>w. held p r t w \<longrightarrow> held p r t (snd (m w))" "\<And>x. \<forall>w. held p r t w \<longrightarrow> held p r t (snd (f x w))" "held p r t w"
  obtain y w' where m: "m w = (y, w')" by fastforce
  with a(1,3) have "held p r t w'" by (metis snd_conv)
  with a(2) m show "held p r t (snd (bind_m m f w))" by (cases y) (auto simp: bind_m_def)
qed

lemma spares_pure [simp]: "spares p r t (ret_m x)" "spares p r t (raise_m e)" "spares p r t (when_m b e)" "spares p r t (\<lambda>w. (Inr (y w), w))"
  by (simp_all add: spares_def ret_m_def raise_m_def when_m_def)

lemma spares_for: "(\<And>x. x \<in> set xs \<Longrightarrow> spares p r t (f x)) \<Longrightarrow> spares p r t (for_m xs f)"
  by (induction xs) (auto intro!: spares_bind)

lemma spares_if: "spares p r t m \<Longrightarrow> spares p r t m' \<Longrightarrow> spares p r t (\<lambda>w. if P w then m w else m' w)"
  by (simp add: spares_def)

lemma spares_rows [simp]: "spares p r t (writer_rows wr)" "spares p r t (writer_retire wr lid)" "spares p r t (ignore_exc (writer_retire wr lid))"
    "spares p r t (canonical_repo_identity env)"
  by (auto simp: spares_def writer_rows_def writer_retire_def ignore_exc_def held_def keyed_def canonical_repo_identity_def ret_m_def raise_m_def
      split: sum.splits prod.splits option.splits)

lemma spares_unless_busy:
  fixes m :: "('d, 'a list) wt_m"
  assumes "lease_path env lid \<noteq> p \<Longrightarrow> spares p r t m"
  shows "spares p r t (unless_busy env lid m)"
  unfolding spares_def
proof (intro allI impI)
  fix w :: "'d lease_world" assume h: "held p r t w"
  let ?q = "lease_path env lid" and ?w = "w\<lparr>wl_locks := insert (lease_path env lid) (wl_locks w)\<rparr>"
  show "held p r t (snd (unless_busy env lid m w))"
  proof (cases "?q = p")
    case True
    with h show ?thesis by (auto simp: unless_busy_def with_lock_def held_def)
  next
    case False
    obtain y w' where m: "m ?w = (y, w')" by fastforce
    have "held p r t ?w" using h by (simp add: held_def keyed_def)
    with assms [OF False] m have "held p r t w'" by (metis spares_def snd_conv)
    then have "held p r t (w'\<lparr>wl_locks := wl_locks w' - {?q}\<rparr>)" using False by (auto simp: held_def keyed_def)
    with m h show ?thesis by (simp add: unless_busy_def with_lock_def Let_def)
  qed
qed

lemma spares_load:
  fixes f :: "lease_rec option \<Rightarrow> ('d, 'a) wt_m"
  assumes "lease_path env lid \<noteq> p" "spares p r t (f None)"
    "\<And>s. l_id s = lid \<Longrightarrow> l_state s = ''armed'' \<longrightarrow> l_name s \<noteq> l_name r \<Longrightarrow> spares p r t (f (Some s))"
  shows "spares p r t (bind_m (load env lid) f)"
  unfolding spares_def
proof (intro allI impI)
  fix w :: "'d lease_world" assume h: "held p r t w"
  have "snd (load env lid w) = w" by (auto simp: load_def split: option.splits lease_file.splits)
  then obtain y where l: "load env lid w = (y, w)" by (metis prod.collapse)
  show "held p r t (snd (bind_m (load env lid) f w))"
  proof (cases "\<exists>s. y = Inr (Some s)")
    case True
    then obtain s where s: "y = Inr (Some s)" by blast
    with l obtain u where "l_id s = lid" "map_of (wl_files w) (lease_path env lid) = Some (LeaseFile s u)"
      by (auto simp: load_def split: if_splits option.splits lease_file.splits)
    with h assms(1) have "l_id s = lid" "l_state s = ''armed'' \<longrightarrow> l_name s \<noteq> l_name r" unfolding held_def by blast+
    from assms(3) [OF this] h l s show ?thesis by (simp add: bind_m_def spares_def)
  next
    case False
    with assms(2) h l show ?thesis by (cases y) (auto simp: bind_m_def spares_def split: option.splits)
  qed
qed

lemma held_update:
  assumes "held p r t w" "q \<noteq> p" "l_state s \<noteq> ''armed''"
  shows "held p r t (w\<lparr>wl_files := AList.update q (LeaseFile s u) (wl_files w)\<rparr>)"
  using assms by (auto simp: held_def keyed_def distinct_update update_conv simp del: map_of_eq_Some_iff split: if_splits)

lemma held_delete:
  assumes "held p r t w" "q \<noteq> p"
  shows "held p r t (w\<lparr>wl_files := AList.delete q (wl_files w), wl_locks := wl_locks w - {q}\<rparr>)"
  using assms by (auto simp: held_def keyed_def distinct_delete delete_conv simp del: map_of_eq_Some_iff split: if_splits)

lemma spares_tombstone: "lease_path env (l_id s) \<noteq> p \<Longrightarrow> spares p r t (tombstone env now s reason)"
  by (simp add: spares_def tombstone_def replace_file_def bind_m_def ret_m_def Let_def held_update)

lemma spares_reclaim: "l_name s \<noteq> l_name r \<Longrightarrow> spares p r t (reclaim_leased_worktree env s)"
  by (simp add: spares_def reclaim_leased_worktree_def remove_worktree_def held_def keyed_def Let_def del: map_of_eq_Some_iff)

lemma spares_sweep_armed: "lease_path env (l_id s) \<noteq> p \<Longrightarrow> spares p r t (sweep_armed env now s)"
  unfolding sweep_armed_def
  by (rule spares_load) (auto intro!: spares_if spares_bind spares_tombstone spares_reclaim)

lemma spares_sweep_tombstone: "lease_path env (l_id s) \<noteq> p \<Longrightarrow> spares p r t (sweep_tombstone env now s)"
  using held_delete by (auto simp: spares_def sweep_tombstone_def delete_lease_def Let_def split: option.splits)

lemma lease_of_mem: "s \<in> set (lease_of pf) \<longleftrightarrow> (\<exists>q u. pf = (q, LeaseFile s u))"
  by (cases pf rule: lease_of.cases) auto

lemma spares_records:
  fixes f :: "lease_rec list \<Rightarrow> ('d, 'a) wt_m"
  assumes "record_ok env (p, LeaseFile r t)" "\<And>rs. (\<And>s. s \<in> set rs \<Longrightarrow> lease_path env (l_id s) = p \<Longrightarrow> s = r) \<Longrightarrow> spares p r t (f rs)"
  shows "spares p r t (bind_m (records env) f)"
  unfolding spares_def
proof (intro allI impI)
  fix w :: "'d lease_world" assume h: "held p r t w"
  let ?fs = "filter (record_ok env) (wl_files w)" and ?w = "w\<lparr>wl_files := filter (record_ok env) (wl_files w)\<rparr>"
  have d: "distinct (map fst (wl_files w))" using h by (simp add: held_def keyed_def)
  have d': "distinct (map fst ?fs)" by (rule distinct_map_filter [OF d])
  have sub: "map_of (wl_files w) q = Some x" if "map_of ?fs q = Some x" for q x
    using map_of_SomeD [OF that] d by (auto intro: map_of_is_SomeI)
  have "(p, LeaseFile r t) \<in> set ?fs" using h assms(1) by (auto simp: held_def dest: map_of_SomeD)
  then have here: "map_of ?fs p = Some (LeaseFile r t)" using d' by (auto intro: map_of_is_SomeI)
  then have hw: "held p r t ?w" using h d' sub by (fastforce simp: held_def keyed_def)
  have "s = r" if "s \<in> set (records_of env w)" "lease_path env (l_id s) = p" for s
  proof -
    from that(1) obtain q u where "(q, LeaseFile s u) \<in> set ?fs" "record_ok env (q, LeaseFile s u)"
      by (auto simp: records_of_def lease_of_mem)
    with that(2) d' have "map_of ?fs p = Some (LeaseFile s u)" by (auto simp: record_ok_def intro: map_of_is_SomeI)
    with here show ?thesis by simp
  qed
  with assms(2) have "spares p r t (f (records_of env w))" by blast
  with hw show "held p r t (snd (bind_m (records env) f w))" by (simp add: bind_m_def records_def spares_def)
qed

lemma spares_reclaim_mismatch: "lease_path env lid \<noteq> p \<Longrightarrow> spares p r t (reclaim_mismatch env wr now lid reason)"
  unfolding reclaim_mismatch_def
  by (rule spares_load) (auto simp: Let_def intro!: spares_bind spares_tombstone spares_reclaim)

lemma spares_converge: "spares p r t (converge_record env wr now rows s)"
proof -
  have "spares p r t (retire_action wr lid a)" for lid a unfolding retire_action_def by (auto intro!: spares_bind)
  then show ?thesis unfolding converge_record_def Let_def
    by (auto split: option.splits intro!: spares_unless_busy spares_reclaim_mismatch)
qed

lemma spares_reconcile:
  assumes ok: "record_ok env (p, LeaseFile r t)" and armed: "l_state r = ''armed''"
  shows "spares p r t (reconcile env now repo)" "spares p r t (reconcile_lane_writer_rows env wr now)"
proof -
  have "spares p r t (sweep_lease env now repo s)" if "lease_path env (l_id s) = p \<Longrightarrow> s = r" for s
    using that armed by (auto simp: sweep_lease_def intro!: spares_unless_busy spares_sweep_armed spares_sweep_tombstone)
  then show "spares p r t (reconcile env now repo)"
    unfolding reconcile_def by (auto intro!: spares_records [OF ok] spares_bind spares_for)
  have "spares p r t (retire_action wr lid a)" for lid a unfolding retire_action_def by (auto intro!: spares_bind)
  then show "spares p r t (reconcile_lane_writer_rows env wr now)"
    unfolding reconcile_lane_writer_rows_def Let_def
    by (auto intro!: spares_bind [OF spares_rows(1)] spares_records [OF ok])
       (auto intro!: spares_bind spares_for spares_converge spares_unless_busy)
qed

lemma spares_heartbeat:
  assumes "record_ok env (p, LeaseFile r t)" "l_state r = ''armed''"
  shows "spares p r t (reconcile_worktree_leases env now)"
  unfolding reconcile_worktree_leases_def
  by (rule spares_records [OF assms(1)])
     (auto split: option.splits intro!: spares_bind spares_reconcile [OF assms])

section \<open>The lane writer as an interface\<close>

lemma when_m_Inr: "when_m b x w = (Inr u, w') \<longleftrightarrow> \<not> b \<and> w' = w"
  by (auto simp: when_m_def ret_m_def raise_m_def)

lemma canonical_repo_Inr: "canonical_repo_identity env w = (Inr x, w') \<longleftrightarrow> le_repo env = Some x \<and> w' = w"
  by (auto simp: canonical_repo_identity_def ret_m_def raise_m_def split: option.splits)

lemma some_record_Inr:
  assumes "lid \<noteq> []"
  shows "bind_m (load env lid) (\<lambda>found. case found of None \<Rightarrow> raise_m x | Some r \<Rightarrow> f r) w = (Inr y, w') \<longleftrightarrow>
    (\<exists>r t. map_of (wl_files w) (lease_path env lid) = Some (LeaseFile r t) \<and> l_id r = lid \<and> l_state r \<in> {''armed'', ''tombstoned''} \<and> f r w = (Inr y, w'))"
  using assms by (auto simp: bind_m_def load_def raise_m_def split: option.splits lease_file.splits)

lemma row_check_Inr:
  "(case writer_rows wr w of (Inl _, v) \<Rightarrow> (Inl x, v) | (Inr rows, v) \<Rightarrow> when_m (\<not> P rows) y v) = (Inr u, w') \<longleftrightarrow>
    w' = w \<and> (\<exists>rows. lwr_rows wr (wl_lanes w) = Inr rows \<and> P rows)"
  by (auto simp: writer_rows_def when_m_Inr split: sum.splits)

lemma validate_iff:
  "(\<exists>w'. validate_worktree_lease env now e policy False w = (Inr r, w')) \<longleftrightarrow>
     policy = ''trusted'' \<and> dget (e_payload e) ''worktree_lease'' = JStr (l_id r) \<and> l_id r \<noteq> [] \<and>
     (\<exists>t. map_of (wl_files w) (lease_path env (l_id r)) = Some (LeaseFile r t)) \<and> l_state r = ''armed'' \<and> l_sender r = e_sender e \<and>
     le_repo env = Some (l_repo r) \<and> name_fullmatch (l_name r) \<and> now < l_expires r \<and> is_registered (l_name r) w \<and>
     (case le_writer env of None \<Rightarrow> True
      | Some wr \<Rightarrow> (\<exists>rows. lwr_rows wr (wl_lanes w) = Inr rows \<and> (\<exists>row \<in> set rows. ln_lease row = l_id r \<and> row_matches env r row)))"
  (is "?L \<longleftrightarrow> ?R")
proof (cases "policy = ''trusted'' \<and> (\<exists>lid. dget (e_payload e) ''worktree_lease'' = JStr lid \<and> lid \<noteq> [])")
  case True
  then obtain lid where lid: "policy = ''trusted''" "dget (e_payload e) ''worktree_lease'' = JStr lid" "lid \<noteq> []" by blast
  then have "?L \<longleftrightarrow> (\<exists>w' s t. map_of (wl_files w) (lease_path env lid) = Some (LeaseFile s t) \<and> l_id s = lid \<and> l_state s \<in> {''armed'', ''tombstoned''} \<and>
      lease_checks env now e False s w = (Inr r, w'))"
    by (simp add: validate_worktree_lease_def some_record_Inr)
  also have "\<dots> \<longleftrightarrow> ?R"
    by (cases "le_writer env")
       (auto simp: lid bind_m_Inr when_m_Inr canonical_repo_Inr row_check_Inr ret_m_def is_registered_def lease_checks_def not_le)
  finally show ?thesis .
next
  case False
  then have "\<not> ?L" by (auto simp: validate_worktree_lease_def raise_m_def nonempty_str_iff split: if_splits)
  with False show ?thesis by blast
qed

lemma validate_ends:
  assumes "validate_worktree_lease env now e policy True w = (Inr r, w')"
  shows "w' = w" "policy = ''trusted''" "dget (e_payload e) ''worktree_lease'' = JStr (l_id r)" "l_sender r = e_sender e"
    "\<exists>t. map_of (wl_files w) (lease_path env (l_id r)) = Some (LeaseFile r t)"
proof -
  have pre: "policy = ''trusted''" "nonempty_str (dget (e_payload e) ''worktree_lease'')"
    using assms by (auto simp: validate_worktree_lease_def raise_m_def split: if_splits)
  then obtain lid where lid: "dget (e_payload e) ''worktree_lease'' = JStr lid" "lid \<noteq> []" by (auto simp: nonempty_str_iff)
  then obtain s t where s: "map_of (wl_files w) (lease_path env lid) = Some (LeaseFile s t)" "l_id s = lid" "lease_checks env now e True s w = (Inr r, w')"
    using assms pre by (auto simp: validate_worktree_lease_def some_record_Inr)
  then have "s = r" "w' = w" "l_sender r = e_sender e"
    by (auto simp: lease_checks_def bind_m_Inr when_m_Inr canonical_repo_Inr ret_m_def)
  with s lid pre show "w' = w" "policy = ''trusted''" "dget (e_payload e) ''worktree_lease'' = JStr (l_id r)" "l_sender r = e_sender e"
    "\<exists>t. map_of (wl_files w) (lease_path env (l_id r)) = Some (LeaseFile r t)" by auto
qed

lemma reclaim_Inr: "reclaim_leased_worktree env r w = (Inr u, w') \<Longrightarrow> wl_files w' = wl_files w \<and> wl_lanes w' = wl_lanes w \<and> wl_locks w' = wl_locks w \<and> l_name r \<notin> wl_trees w'"
  by (auto simp: reclaim_leased_worktree_def remove_worktree_def is_registered_def Let_def split: if_splits)

lemma tombstone_Inr:
  "tombstone env now r reason w = (Inr u, w') \<Longrightarrow>
    w' = w\<lparr>wl_files := AList.update (lease_path env (l_id r)) (LeaseFile (r\<lparr>l_state := ''tombstoned'', l_reason := Some reason, l_tombstoned := Some now\<rparr>) now) (wl_files w)\<rparr>"
  by (auto simp: tombstone_def replace_file_def bind_m_Inr ret_m_def Let_def split: if_splits)

lemma retire_released_Inr: "retire_released wr lid w = (Inr u, w') \<Longrightarrow> \<exists>d. lwr_retire wr lid (wl_lanes w) = (Inr True, d) \<and> w' = w\<lparr>wl_lanes := d\<rparr>"
  by (auto simp: retire_released_def writer_retire_def split: prod.splits sum.splits bool.splits)

lemma with_lock_Inr:
  assumes "with_lock env lid body w = (Inr x, w')"
  obtains v where "body (w\<lparr>wl_locks := insert (lease_path env lid) (wl_locks w)\<rparr>) = (Inr x, v)" "w' = v\<lparr>wl_locks := wl_locks v - {lease_path env lid}\<rparr>"
  using assms by (auto simp: with_lock_def Let_def split: if_splits prod.splits)

lemma release_Inr:
  assumes "release_operation env now e policy w = (Inr out, w')"
  obtains lid r t where "out = Released lid" "dget (e_payload e) ''worktree_lease'' = JStr lid" "policy = ''trusted''" "l_id r = lid" "l_sender r = e_sender e"
    "map_of (wl_files w) (lease_path env lid) = Some (LeaseFile r t)"
    "wl_files w' = AList.update (lease_path env lid) (LeaseFile (r\<lparr>l_state := ''tombstoned'', l_reason := Some ''released'', l_tombstoned := Some now\<rparr>) now) (wl_files w)"
    "\<not> is_registered (l_name r) w'" "\<And>wr. le_writer env = Some wr \<Longrightarrow> lwr_retire wr lid (wl_lanes w) = (Inr True, wl_lanes w')"
proof -
  let ?lid = "str_of (dget (e_payload e) ''worktree_lease'')" and ?w = "w\<lparr>wl_locks := insert (lease_path env (str_of (dget (e_payload e) ''worktree_lease''))) (wl_locks w)\<rparr>"
  from assms have "with_lock env ?lid
         (bind_m (validate_worktree_lease env now e policy True) (\<lambda>r.
          bind_m (reclaim_leased_worktree env r) (\<lambda>_.
          bind_m (tombstone env now r ''released'') (\<lambda>_.
          bind_m (case le_writer env of None \<Rightarrow> ret_m () | Some wr \<Rightarrow> retire_released wr ?lid) (\<lambda>_.
          ret_m (Released ?lid)))))) w = (Inr out, w')"
    by (auto simp: release_operation_def raise_m_def Let_def split: if_splits)
  then obtain v r v1 u2 v2 u3 v3 u4 where s: "validate_worktree_lease env now e policy True ?w = (Inr r, v1)" "reclaim_leased_worktree env r v1 = (Inr u2, v2)"
      "tombstone env now r ''released'' v2 = (Inr u3, v3)" "(case le_writer env of None \<Rightarrow> ret_m () | Some wr \<Rightarrow> retire_released wr ?lid) v3 = (Inr u4, v)"
      "out = Released ?lid" "w' = v\<lparr>wl_locks := wl_locks v - {lease_path env ?lid}\<rparr>"
    by (elim with_lock_Inr) (auto simp: bind_m_Inr ret_m_def)
  note v = validate_ends [OF s(1)] and c = reclaim_Inr [OF s(2)] and t = tombstone_Inr [OF s(3)]
  have keep: "wl_files v = wl_files v3" "wl_trees v = wl_trees v3"
    using s(4) by (auto simp: ret_m_def dest!: retire_released_Inr split: option.splits)
  have row: "lwr_retire wr ?lid (wl_lanes w) = (Inr True, wl_lanes w')" if "le_writer env = Some wr" for wr
  proof -
    from s(4) that have "retire_released wr ?lid v3 = (Inr u4, v)" by simp
    from retire_released_Inr [OF this] t c v(1) s(6) show ?thesis by auto
  qed
  from v(3) have lid: "?lid = l_id r" by simp
  from v(5) obtain u where "map_of (wl_files w) (lease_path env (l_id r)) = Some (LeaseFile r u)" by auto
  with s(5,6) v(1-4) c t keep row lid show thesis by (intro that [of "l_id r" r u]) (auto simp: is_registered_def)
qed

text \<open>What a client relies on: an armed row is listed, a retired one is not.\<close>

locale lane_store =
  fixes wr :: "'d lane_writer"
  assumes arm_listed: "lwr_arm wr lid d = (Inr row, d') \<Longrightarrow> \<exists>rows. lwr_rows wr d' = Inr rows \<and> row \<in> set rows"
    and retire_unlisted: "lwr_retire wr lid d = (Inr b, d') \<Longrightarrow> lwr_rows wr d' = Inr rows \<Longrightarrow> row \<in> set rows \<Longrightarrow> ln_lease row \<noteq> lid"
begin

text \<open>A lease that was just armed serves its owner.\<close>

lemma armed_lease_serves:
  assumes "le_writer env = Some wr" "arm_locked env now r w = (Inr s, w')" "l_state r = ''armed''" "l_id r \<noteq> []" "l_lane r = le_lane env"
    "le_repo env = Some (l_repo r)" "name_fullmatch (l_name r)" "now' < l_expires r" "dget (e_payload e) ''worktree_lease'' = JStr (l_id r)"
    "e_sender e = l_sender r"
  shows "\<exists>v. validate_worktree_lease env now' e ''trusted'' False w' = (Inr r, v)"
proof -
  let ?p = "lease_path env (l_id r)"
  have e: "arm_effect env now r w (Inr s) w'" by (rule arm_locked_ends(1) [OF assms(2)])
  then have "map_of (wl_files w) ?p = None" by (auto simp: arm_effect_def)
  with e have f: "map_of (wl_files w') ?p = Some (LeaseFile r now)" "is_registered (l_name r) w'"
    by (auto simp: arm_effect_def is_registered_def map_add_def)
  from e assms(1) obtain row where row: "lwr_arm wr (l_id r) (wl_lanes w) = (Inr row, wl_lanes w')" "ln_lease row = l_id r" "ln_armed_by row = le_agent env"
      "ln_lane row = le_lane env" by (auto simp: arm_effect_def row_armed_def)
  from arm_listed [OF row(1)] obtain rows where rows: "lwr_rows wr (wl_lanes w') = Inr rows" "row \<in> set rows" by blast
  have "\<exists>row \<in> set rows. ln_lease row = l_id r \<and> row_matches env r row" using row rows(2) assms(5) by (auto simp: row_matches_def)
  with rows(1) f assms show ?thesis unfolding validate_iff by auto
qed

text \<open>A release leaves the lease closed: its record is a tombstone, its worktree is gone, its row is not listed.\<close>

lemma release_closes:
  assumes "le_writer env = Some wr" "release_operation env now e policy w = (Inr out, w')"
  obtains lid r t where "out = Released lid" "dget (e_payload e) ''worktree_lease'' = JStr lid" "policy = ''trusted''" "l_id r = lid" "l_sender r = e_sender e"
    "map_of (wl_files w) (lease_path env lid) = Some (LeaseFile r t)"
    "map_of (wl_files w') (lease_path env lid) =
       Some (LeaseFile (r\<lparr>l_state := ''tombstoned'', l_reason := Some ''released'', l_tombstoned := Some now\<rparr>) now)"
    "\<not> is_registered (l_name r) w'" "\<And>rows row. lwr_rows wr (wl_lanes w') = Inr rows \<Longrightarrow> row \<in> set rows \<Longrightarrow> ln_lease row \<noteq> lid"
proof -
  from release_Inr [OF assms(2)] obtain lid r t where r: "out = Released lid" "dget (e_payload e) ''worktree_lease'' = JStr lid" "policy = ''trusted''" "l_id r = lid"
      "l_sender r = e_sender e" "map_of (wl_files w) (lease_path env lid) = Some (LeaseFile r t)"
      "wl_files w' = AList.update (lease_path env lid) (LeaseFile (r\<lparr>l_state := ''tombstoned'', l_reason := Some ''released'', l_tombstoned := Some now\<rparr>) now) (wl_files w)"
      "\<not> is_registered (l_name r) w'" "\<And>wr. le_writer env = Some wr \<Longrightarrow> lwr_retire wr lid (wl_lanes w) = (Inr True, wl_lanes w')" by blast
  have "map_of (wl_files w') (lease_path env lid) = Some (LeaseFile (r\<lparr>l_state := ''tombstoned'', l_reason := Some ''released'', l_tombstoned := Some now\<rparr>) now)"
    unfolding r(7) by (simp add: update_conv)
  with r(1-6,8) retire_unlisted [OF r(9) [OF assms(1)]] show thesis by (intro that)
qed

end

section \<open>Examples\<close>

definition demo_writer :: "lane_row list lane_writer" where
  "demo_writer = \<lparr>lwr_arm = (\<lambda>lid d. let row = \<lparr>ln_lease = lid, ln_lane = ''gated'', ln_armed_by = ''mini-seat''\<rparr> in (Inr row, d @ [row])),
     lwr_retire = (\<lambda>lid d. (Inr (\<exists>row \<in> set d. ln_lease row = lid), filter (\<lambda>row. ln_lease row \<noteq> lid) d)), lwr_rows = Inr\<rparr>"

definition demo_lease_env :: "lane_row list lease_env" where
  "demo_lease_env = \<lparr>le_sha = (\<lambda>s. s), le_io = (\<lambda>_. True), le_replace_ok = (\<lambda>_ _. True), le_agent = ''mini-seat'', le_workdir = ''/w'', le_repo = Some ''/r'',
     le_rev = (\<lambda>_ ref. if ref = [] then [] else ''c0''), le_add = (\<lambda>name _ ts. if name \<in> ts then Some ''exists'' else None), le_remove_ok = (\<lambda>_. True),
     le_prepare = (\<lambda>_. None), le_lane = ''gated'', le_writer = Some demo_writer, le_resume = True, le_ttl = 3600, le_ttl_max = 7200, le_max_armed = 2,
     le_max_sender = 1, le_result_ttl = 600\<rparr>"

definition demo_lease :: lease_rec where
  "demo_lease = new_lease ''L'' ''orch'' ''wt'' ''/r'' ''c0'' 10 3600 ''gated'' (Some ''m1'')"

definition demo_store :: "lane_row list lease_world" where
  "demo_store = \<lparr>wl_files = [(''L'', LeaseFile demo_lease 10)], wl_locks = {}, wl_trees = {''wt''},
     wl_lanes = [\<lparr>ln_lease = ''L'', ln_lane = ''gated'', ln_armed_by = ''mini-seat''\<rparr>]\<rparr>"

definition demo_turn :: envelope where
  "demo_turn = demo_envelope_req\<lparr>e_payload := [(''worktree_lease'', JStr ''L'')]\<rparr>"

lemma demo_validates: "validate_worktree_lease demo_lease_env 20 demo_turn ''trusted'' False demo_store = (Inr demo_lease, demo_store)"
  by code_simp

lemma demo_arms: "arm_locked demo_lease_env 10 demo_lease \<lparr>wl_files = [], wl_locks = {}, wl_trees = {}, wl_lanes = []\<rparr> = (Inr demo_lease, demo_store)"
  by code_simp

section \<open>Properties\<close>

text \<open>C11: The quotas of armed worktrees hold at all times. Whatever operations and heartbeats the daemon runs on an empty store, whatever turns do with locks,
  and whatever happens to git's worktrees, to the lane rows or to single files, there are never more armed leases than the global quota and never more for one sender than
  the quota per sender.\<close>

theorem lease_quota_holds:
  assumes "reachable (\<lambda>w. wl_files w = []) (lease_step env) w"
  shows "length (armed_of env w) \<le> le_max_armed env \<and> length (filter (\<lambda>r. l_sender r = s) (armed_of env w)) \<le> le_max_sender env"
  using leases.inv_reachable [OF assms] by (simp add: quota_def)

theorem lease_quota_holds_witness:
  "length (armed_of demo_lease_env (snd (lease_operation demo_lease_env 10 ''L'' demo_turn ''trusted''
     \<lparr>wl_files = [], wl_locks = {}, wl_trees = {}, wl_lanes = []\<rparr>))) \<le> 2"
proof -
  let ?w = "\<lparr>wl_files = [], wl_locks = {}, wl_trees = {}, wl_lanes = []\<rparr> :: lane_row list lease_world"
  have "reachable (\<lambda>w. wl_files w = []) (lease_step demo_lease_env) (snd (lease_operation demo_lease_env 10 ''L'' demo_turn ''trusted'' ?w))"
    by (rule reachable.intros(2) [OF reachable.intros(1) [where s = "?w"]]) (simp_all add: ls_operation)
  from lease_quota_holds [OF this, of "''orch''"] show ?thesis by (simp add: demo_lease_env_def)
qed

text \<open>C13: Arming is all or nothing, up to the one failure the bridge reports. If it succeeds, the record is in the store, its worktree is registered, and the lane writer has the matching row.
  If it fails at any point, no armed record was added (at most a tombstone of this lease), except when the lane row could not be written and then the tombstone that closes
  the published record could not be written either: then the record stays armed and the error names the failed tombstone. In every failure git's worktrees are no more than before when git
  can remove the new one. The files of other leases and the locks stay as they were.\<close>

theorem arm_all_or_nothing:
  assumes "arm_locked env now r w = (res, w')"
  shows "wl_locks w' = wl_locks w \<and> (\<forall>q f. map_of (wl_files w) q = Some f \<longrightarrow> map_of (wl_files w') q = Some f) \<and>
    (case res of
       Inr s \<Rightarrow> s = r \<and> map_of (wl_files w') (lease_path env (l_id r)) = Some (LeaseFile r now) \<and> l_name r \<in> wl_trees w' \<and>
         (\<forall>wr. le_writer env = Some wr \<longrightarrow> (\<exists>row. lwr_arm wr (l_id r) (wl_lanes w) = (Inr row, wl_lanes w') \<and> ln_lease row = l_id r \<and>
            ln_armed_by row = le_agent env \<and> ln_lane row = le_lane env))
     | Inl e \<Rightarrow> (armed_of env w' = armed_of env w \<or>
         (\<not> le_replace_ok env now (lease_path env (l_id r)) \<and> le_writer env \<noteq> None \<and>
          wl_files w' = wl_files w @ [(lease_path env (l_id r), LeaseFile r now)] \<and>
          (\<exists>c. e = LeaseError (''worktree-lane-arm-store-failed;compensation-failed:'' @ c @ '';tombstone=worktree-lease-write-failed'')))) \<and>
        (le_remove_ok env (l_name r) \<longrightarrow> wl_trees w' \<subseteq> wl_trees w))"
proof -
  note e = arm_locked_ends [OF assms]
  let ?p = "lease_path env (l_id r)"
  have old: "map_of (wl_files w') q = Some f" if "map_of (wl_files w) q = Some f" for q f
    using e(1) that by (cases res) (auto simp: arm_effect_def map_add_def split: option.splits)
  show ?thesis
  proof (cases res)
    case (Inr s)
    with e(1) have "map_of (wl_files w) ?p = None" by (auto simp: arm_effect_def)
    with e(1) Inr have "map_of (wl_files w') ?p = Some (LeaseFile r now)" by (auto simp: arm_effect_def map_add_def)
    with e Inr old show ?thesis by (simp add: arm_effect_def row_armed_def)
  next
    case (Inl x)
    have "armed_of env w' = armed_of env w" if "\<exists>t. l_state t = ''tombstoned'' \<and> l_id t = l_id r \<and> wl_files w' = wl_files w @ [(?p, LeaseFile t now)]"
      using that by (auto simp: armed_of_concat armed_in_def)
    moreover have "armed_of env w' = armed_of env w" if "wl_files w' = wl_files w" using that by (simp add: armed_of_concat)
    ultimately show ?thesis using e Inl old unfolding arm_effect_def names_tombstone_def by simp blast
  qed
qed

theorem arm_all_or_nothing_witness:
  "map_of (wl_files demo_store) (lease_path demo_lease_env ''L'') = Some (LeaseFile demo_lease 10) \<and>
   wl_trees (snd (arm_locked (demo_lease_env\<lparr>le_replace_ok := \<lambda>_ _. False, le_writer := Some (demo_writer\<lparr>lwr_arm := \<lambda>_ d. (Inl ''down'', d)\<rparr>)\<rparr>) 10 demo_lease
     \<lparr>wl_files = [], wl_locks = {}, wl_trees = {}, wl_lanes = []\<rparr>)) = {}"
proof -
  let ?env = "demo_lease_env\<lparr>le_replace_ok := \<lambda>_ _. False, le_writer := Some (demo_writer\<lparr>lwr_arm := \<lambda>_ d. (Inl ''down'', d)\<rparr>)\<rparr>"
  have "arm_locked ?env 10 demo_lease \<lparr>wl_files = [], wl_locks = {}, wl_trees = {}, wl_lanes = []\<rparr> =
      (Inl (LeaseError ''worktree-lane-arm-store-failed;compensation-failed:arm=down;tombstone=worktree-lease-write-failed''),
       \<lparr>wl_files = [(''L'', LeaseFile demo_lease 10)], wl_locks = {}, wl_trees = {}, wl_lanes = []\<rparr>)" by code_simp
  with arm_all_or_nothing [OF this] arm_all_or_nothing [OF demo_arms] show ?thesis by (simp add: demo_lease_def new_lease_def)
qed

text \<open>A lease serves exactly its owner. A turn gets a lease if and only if a trusted sender names an armed record that this sender armed, in this repository, with a safe name, not expired, whose worktree git
  still has, and for which the lane writer, where there is one, answers with a row of this seat and lane. Checking changes nothing.\<close>

theorem validated_lease_is_owned:
  "(\<exists>w'. validate_worktree_lease env now e policy False w = (Inr r, w')) \<longleftrightarrow>
     policy = ''trusted'' \<and> dget (e_payload e) ''worktree_lease'' = JStr (l_id r) \<and> l_id r \<noteq> [] \<and>
     (\<exists>t. map_of (wl_files w) (lease_path env (l_id r)) = Some (LeaseFile r t)) \<and> l_state r = ''armed'' \<and> l_sender r = e_sender e \<and>
     le_repo env = Some (l_repo r) \<and> name_fullmatch (l_name r) \<and> now < l_expires r \<and> is_registered (l_name r) w \<and>
     (case le_writer env of None \<Rightarrow> True
      | Some wr \<Rightarrow> (\<exists>rows. lwr_rows wr (wl_lanes w) = Inr rows \<and> (\<exists>row \<in> set rows. ln_lease row = l_id r \<and> row_matches env r row)))"
  by (rule validate_iff)

theorem validated_lease_is_owned_witness: "l_sender demo_lease = e_sender demo_turn \<and> 20 < l_expires demo_lease \<and> is_registered ''wt'' demo_store"
  using validated_lease_is_owned [of demo_lease_env 20 demo_turn "''trusted''" demo_store demo_lease] demo_validates
  by (simp add: demo_lease_def new_lease_def)

text \<open>The reconciler leaves a lease in use alone. The armed record of a lease whose lock is held, and its worktree, are not touched by a heartbeat, expired or not, as long as no other armed
  lease has the same worktree; the lock stays held.\<close>

theorem busy_lease_spared:
  assumes "map_of (wl_files w) p = Some (LeaseFile r t)" "record_ok env (p, LeaseFile r t)" "l_state r = ''armed''" "p \<in> wl_locks w" "l_name r \<in> wl_trees w"
    "distinct (map fst (wl_files w))"
    "\<forall>q s u. map_of (wl_files w) q = Some (LeaseFile s u) \<and> l_state s = ''armed'' \<and> l_name s = l_name r \<longrightarrow> q = p"
    "reconcile_worktree_leases env now w = (res, w')"
  shows "map_of (wl_files w') p = Some (LeaseFile r t) \<and> p \<in> wl_locks w' \<and> l_name r \<in> wl_trees w'"
proof -
  have "held p r t w" using assms(1,3-7) unfolding held_def keyed_def by blast
  with spares_heartbeat [OF assms(2,3)] assms(8) have "held p r t w'" by (metis spares_def snd_conv)
  then show ?thesis unfolding held_def by blast
qed

theorem busy_lease_spared_witness:
  "''wt'' \<in> wl_trees (snd (reconcile_worktree_leases demo_lease_env 4000 (demo_store\<lparr>wl_locks := {''L''}\<rparr>)))"
proof -
  let ?w = "demo_store\<lparr>wl_locks := {''L''}\<rparr>"
  obtain res w' where h: "reconcile_worktree_leases demo_lease_env 4000 ?w = (res, w')" by fastforce
  have "record_ok demo_lease_env (''L'', LeaseFile demo_lease 10)" by code_simp
  moreover have "map_of (wl_files ?w) ''L'' = Some (LeaseFile demo_lease 10)" "l_state demo_lease = ''armed''" "''L'' \<in> wl_locks ?w" "l_name demo_lease \<in> wl_trees ?w"
    by (simp_all add: demo_store_def demo_lease_def new_lease_def)
  ultimately have "l_name demo_lease \<in> wl_trees w'"
    using busy_lease_spared [OF _ _ _ _ _ _ _ h, of "''L''" demo_lease 10] by (simp add: demo_store_def split: if_splits)
  with h show ?thesis by (simp add: demo_lease_def new_lease_def)
qed

text \<open>One worktree that git cannot remove stops the lease operations of the whole seat. When the first record of the store is an expired, unlocked lease whose worktree git does not remove, every
  operation, for any sender and lease, ends with that lease's failure before it starts, and leaves everything in place for the next one to fail again.\<close>

theorem stuck_reclaim_blocks:
  assumes "wl_files w = (p, LeaseFile r t) # fs" "record_ok env (p, LeaseFile r t)" "l_state r = ''armed''" "le_repo env = Some (l_repo r)" "le_io env p" "p \<notin> wl_locks w"
    "l_name r \<in> wl_trees w" "\<not> le_remove_ok env (l_name r)" "l_expires r \<le> now"
  shows "\<exists>w'. lease_operation env now lid e policy w = (Inl (LeaseError ''worktree-lease-reclaim-failed''), w') \<and>
    (\<exists>gs. wl_files w' = (p, LeaseFile r t) # gs) \<and> wl_trees w' = wl_trees w \<and> wl_locks w' = wl_locks w \<and> wl_lanes w' = wl_lanes w"
proof -
  let ?w = "w\<lparr>wl_files := (p, LeaseFile r t) # filter (record_ok env) fs\<rparr>"
  have id: "l_id r \<noteq> []" "lease_path env (l_id r) = p" using assms(2) by (simp_all add: record_ok_def)
  have rec1: "records env w = (Inr (r # concat (map lease_of (filter (record_ok env) fs))), ?w)"
    and rec2: "records env ?w = (Inr (r # concat (map lease_of (filter (record_ok env) fs))), ?w)"
    using assms(1,2) by (simp_all add: records_def records_of_def)
  have "sweep_lease env now (l_repo r) r ?w = (Inl (LeaseError ''worktree-lease-reclaim-failed''), ?w)"
    using assms(3-9) id by (simp add: sweep_lease_def unless_busy_def with_lock_def sweep_armed_def load_def bind_m_def reclaim_leased_worktree_def remove_worktree_def is_registered_def)
  then have "reconcile env now (l_repo r) ?w = (Inl (LeaseError ''worktree-lease-reclaim-failed''), ?w)"
    using rec2 by (simp add: reconcile_def bind_m_def)
  then have "reconcile_worktree_leases env now w = (Inl (LeaseError ''worktree-lease-reclaim-failed''), ?w)"
    using rec1 assms(3,4) by (simp add: reconcile_worktree_leases_def bind_m_def canonical_repo_identity_def ret_m_def)
  then show ?thesis by (simp add: lease_operation_def bind_m_def)
qed

theorem stuck_reclaim_blocks_witness:
  "fst (lease_operation (demo_lease_env\<lparr>le_remove_ok := (\<lambda>_. False)\<rparr>) 4000 ''M'' demo_turn ''trusted'' demo_store) = Inl (LeaseError ''worktree-lease-reclaim-failed'')"
proof -
  let ?env = "demo_lease_env\<lparr>le_remove_ok := (\<lambda>_. False)\<rparr>"
  have ok: "record_ok ?env (''L'', LeaseFile demo_lease 10)" by code_simp
  have w: "wl_files demo_store = [(''L'', LeaseFile demo_lease 10)]" "''L'' \<notin> wl_locks demo_store" "l_name demo_lease \<in> wl_trees demo_store"
    by (simp_all add: demo_store_def demo_lease_def new_lease_def)
  have r: "l_state demo_lease = ''armed''" "l_expires demo_lease \<le> 4000" by (simp_all add: demo_lease_def new_lease_def)
  have e: "le_repo ?env = Some (l_repo demo_lease)" "le_io ?env ''L''" "\<not> le_remove_ok ?env (l_name demo_lease)"
    by (simp_all add: demo_lease_def new_lease_def demo_lease_env_def)
  from stuck_reclaim_blocks [OF w(1) ok r(1) e(1,2) w(2,3) e(3) r(2)] show ?thesis by (metis fst_conv)
qed

end
