(* ===== verification/Lane_Writer.thy ===== *)
theory Lane_Writer
  imports Worktree_Lease "HOL-Library.Product_Lexorder"
begin

text \<open>
  The lane writer of a seat (\<open>src/src/agent_redis_bridge/lane_writer.py\<close>) with the three SQL functions it calls
  (\<open>src/src/arb_memory/schema.sql\<close>): the table of privileges it must not have, the check of that table at import, the
  three calls, and the proof of readiness at start-up.

  The database is a state: the rows, the bindings of roles, what the catalogue answers about the session's
  role, and a fault that makes every statement raise. The cached connection is opened again on demand, so
  that keeping or discarding it does not show in a result. The time of a row is left out.
\<close>

section \<open>The coverage table\<close>

type_synonym cov_key = "string \<times> string \<times> string"
type_synonym lane_coverage = "(cov_key \<times> string) list"

definition LANE_WRITER_FUNCTIONS :: "string list" where
  "LANE_WRITER_FUNCTIONS = [''arm_lease_lane(text)'', ''retire_lease_lane(text)'', ''list_lease_lanes()'']"

definition LANE_WRITER_RELATIONS :: "string list" where
  "LANE_WRITER_RELATIONS = [''claims'', ''attestations'', ''seat_posture'', ''lease_lanes'', ''lane_writer_bindings'', ''claim_admissibility_v'',
     ''seat_posture_v'', ''lease_lane_v'']"

definition LANE_KNOWN_TAGS :: "string list" where
  "LANE_KNOWN_TAGS = [''allowed-because-runtime-arm'', ''allowed-because-runtime-retire'', ''allowed-because-runtime-list'', ''probed-denied-by-relation'',
     ''probed-denied-by-relation+column'', ''probed-denied-by-function'', ''probed-denied-by-public-execute'', ''probed-denied-by-membership'',
     ''probed-denied-by-ownership-relation'', ''probed-denied-by-ownership-function'', ''probed-denied-by-function-owner-login'']"

definition LANE_WRITER_ALLOWED_RUNTIME :: "cov_key list" where
  "LANE_WRITER_ALLOWED_RUNTIME = [(''FUNCTION'', ''arm_lease_lane(text)'', ''EXECUTE''), (''FUNCTION'', ''retire_lease_lane(text)'', ''EXECUTE''),
     (''FUNCTION'', ''list_lease_lanes()'', ''EXECUTE'')]"

definition relation_kind :: "string \<Rightarrow> string" where
  "relation_kind name =
    (if py_endswith name ''_v'' then ''view'' else if name = ''lane_writer_bindings'' then ''binding_table'' else ''base_table'')"

definition relation_keys :: "cov_key list" where
  "relation_keys = concat (map (\<lambda>rel. map (\<lambda>priv. (relation_kind rel, rel, priv)) PG_TABLE_PRIVILEGES) LANE_WRITER_RELATIONS)"

definition relation_tag :: "string \<Rightarrow> string" where
  "relation_tag priv = (if priv \<in> set PG_COLUMN_PRIVILEGES then ''probed-denied-by-relation+column'' else ''probed-denied-by-relation'')"

definition CHANNELS :: "lane_coverage" where
  "CHANNELS = [((''CHANNEL'', ''PUBLIC'', ''EXECUTE''), ''probed-denied-by-public-execute''),
     ((''CHANNEL'', ''membership'', ''SET ROLE''), ''probed-denied-by-membership''),
     ((''CHANNEL'', ''ownership'', ''relation''), ''probed-denied-by-ownership-relation''),
     ((''CHANNEL'', ''ownership'', ''function''), ''probed-denied-by-ownership-function''),
     ((''CHANNEL'', ''function_owner'', ''LOGIN''), ''probed-denied-by-function-owner-login'')]"

text \<open>The last loop of the source adds nothing: the three functions are already keys.\<close>

definition build_default_coverage :: lane_coverage where
  "build_default_coverage =
     [((''FUNCTION'', ''arm_lease_lane(text)'', ''EXECUTE''), ''allowed-because-runtime-arm''),
      ((''FUNCTION'', ''retire_lease_lane(text)'', ''EXECUTE''), ''allowed-because-runtime-retire''),
      ((''FUNCTION'', ''list_lease_lanes()'', ''EXECUTE''), ''allowed-because-runtime-list'')] @ CHANNELS @
     map (\<lambda>(kind, rel, priv). ((kind, rel, priv), relation_tag priv)) relation_keys"

definition is_relation_kind :: "string \<Rightarrow> bool" where
  "is_relation_kind kind \<longleftrightarrow> kind \<in> {''base_table'', ''view'', ''binding_table''}"

datatype coverage_error =
    UnknownTags "string list"
  | MissingPairs "cov_key list"
  | MissingFunction string
  | MissingChannel cov_key
  | AllowedPairs "cov_key list"
  | ColumnForm cov_key string
  | NoColumnForm cov_key string

definition column_error :: "cov_key \<times> string \<Rightarrow> coverage_error option" where
  "column_error kt =
    (case kt of ((kind, name, priv), tag) \<Rightarrow>
       if \<not> is_relation_kind kind \<or> py_startswith tag ''allowed-because-'' then None
       else if priv \<in> set PG_COLUMN_PRIVILEGES
       then (if \<not> has_infix ''relation'' tag \<or> \<not> has_infix ''column'' tag then Some (ColumnForm (kind, name, priv) tag) else None)
       else (if has_infix ''column'' tag then Some (NoColumnForm (kind, name, priv) tag) else None))"

fun first_some :: "('a \<Rightarrow> 'b option) \<Rightarrow> 'a list \<Rightarrow> 'b option" where
  "first_some f [] = None"
| "first_some f (x # xs) = (case f x of None \<Rightarrow> first_some f xs | Some y \<Rightarrow> Some y)"

definition validate_lane_writer_privilege_coverage :: "lane_coverage \<Rightarrow> (coverage_error, unit) res" where
  "validate_lane_writer_privilege_coverage cov =
    (let unknown = sort (remdups (filter (\<lambda>t. t \<notin> set LANE_KNOWN_TAGS) (map snd cov)));
         present = filter (\<lambda>(kind, _). is_relation_kind kind) (map fst cov);
         missing = sort (remdups (filter (\<lambda>k. k \<notin> set present) relation_keys));
         allowed = map fst (filter (\<lambda>(_, tag). py_startswith tag ''allowed-because-'') cov)
     in if unknown \<noteq> [] then Inl (UnknownTags unknown)
        else if missing \<noteq> [] then Inl (MissingPairs missing)
        else (case List.find (\<lambda>sig. (''FUNCTION'', sig, ''EXECUTE'') \<notin> set (map fst cov)) LANE_WRITER_FUNCTIONS of
          Some sig \<Rightarrow> Inl (MissingFunction sig)
        | None \<Rightarrow>
          (case List.find (\<lambda>k. k \<notin> set (map fst cov)) (map fst CHANNELS) of
             Some k \<Rightarrow> Inl (MissingChannel k)
           | None \<Rightarrow>
             (if set allowed \<noteq> set LANE_WRITER_ALLOWED_RUNTIME then Inl (AllowedPairs (sort (remdups allowed)))
              else (case first_some column_error cov of Some e \<Rightarrow> Inl e | None \<Rightarrow> Inr ())))))"

section \<open>The database\<close>

record lane_db =
  db_lanes :: "lane_row list"
  db_bindings :: "(string \<times> string \<times> string) list"     \<comment> \<open>role, consumer, lane\<close>
  db_user :: string
  db_members :: "string list"
  db_owned_relations :: "string list"
  db_owned_functions :: "string list"
  db_execute :: "string list"                               \<comment> \<open>signatures the role may execute\<close>
  db_table_privileges :: "(string \<times> string) list"
  db_column_privileges :: "(string \<times> string) list"
  db_fault :: "string option"

definition sql_binding :: "lane_db \<Rightarrow> (string, string \<times> string) res" where
  "sql_binding db =
    (case db_fault db of
       Some x \<Rightarrow> Inl x
     | None \<Rightarrow> (case map_of (db_bindings db) (db_user db) of
                None \<Rightarrow> Inl (''unbound-lane-writer-role: '' @ db_user db)
              | Some b \<Rightarrow> Inr b))"

definition sql_arm_lease_lane :: "string \<Rightarrow> lane_db \<Rightarrow> (string, lane_row) res \<times> lane_db" where
  "sql_arm_lease_lane lid db =
    (case sql_binding db of
       Inl x \<Rightarrow> (Inl x, db)
     | Inr (consumer, lane) \<Rightarrow>
        (let row = \<lparr>ln_lease = lid, ln_lane = lane, ln_armed_by = consumer\<rparr> in
         if \<exists>r \<in> set (db_lanes db). ln_lease r = lid then (Inl ''duplicate key value violates unique constraint'', db)
         else if lane \<notin> {''gated'', ''exempt''} then (Inl ''violates check constraint'', db)
         else (Inr row, db\<lparr>db_lanes := db_lanes db @ [row]\<rparr>)))"

definition sql_retire_lease_lane :: "string \<Rightarrow> lane_db \<Rightarrow> (string, bool) res \<times> lane_db" where
  "sql_retire_lease_lane lid db =
    (case sql_binding db of
       Inl x \<Rightarrow> (Inl x, db)
     | Inr (consumer, _) \<Rightarrow>
        (let gone = (\<lambda>r. ln_lease r = lid \<and> ln_armed_by r = consumer)
         in (Inr (\<exists>r \<in> set (db_lanes db). gone r), db\<lparr>db_lanes := filter (\<lambda>r. \<not> gone r) (db_lanes db)\<rparr>)))"

definition sql_list_lease_lanes :: "lane_db \<Rightarrow> (string, lane_row list) res" where
  "sql_list_lease_lanes db = bind_r (sql_binding db) (\<lambda>(consumer, _). Inr (filter (\<lambda>r. ln_armed_by r = consumer) (db_lanes db)))"

section \<open>The writer\<close>

record writer_cfg =
  wc_role :: string
  wc_consumer :: string
  wc_lane :: string

definition writer_init :: "string \<Rightarrow> string \<Rightarrow> string \<Rightarrow> (string, writer_cfg) res" where
  "writer_init role consumer lane =
    (if lane \<notin> {''gated'', ''exempt''} then Inl (''expected_lane must be gated|exempt, got '' @ repr_str lane)
     else if role = [] then Inl ''expected_role must be nonblank''
     else if consumer = [] then Inl ''expected_consumer_id must be nonblank''
     else Inr \<lparr>wc_role = role, wc_consumer = consumer, wc_lane = lane\<rparr>)"

text \<open>The calls of the writer, as the record that the lease operations use. The functions always return a row.\<close>

definition psycopg_writer :: "lane_db lane_writer" where
  "psycopg_writer = \<lparr>lwr_arm = sql_arm_lease_lane, lwr_retire = sql_retire_lease_lane, lwr_rows = sql_list_lease_lanes\<rparr>"

definition names_text :: "string list \<Rightarrow> string" where
  "names_text names = py_repr (JArr (map JStr names))"

definition execute_error :: "lane_db \<Rightarrow> string option" where
  "execute_error db =
    first_some (\<lambda>(kind, name, priv). if kind \<noteq> ''FUNCTION'' \<or> name \<in> set (db_execute db) then None
                                    else Some (''missing '' @ priv @ '' privilege on function '' @ name)) (sort LANE_WRITER_ALLOWED_RUNTIME)"

definition denied_error :: "lane_db \<Rightarrow> cov_key \<times> string \<Rightarrow> string option" where
  "denied_error db kt =
    (case kt of ((kind, name, priv), tag) \<Rightarrow>
       if \<not> is_relation_kind kind \<or> \<not> py_startswith tag ''probed-denied-by-'' then None
       else if has_infix ''relation'' tag \<and> (name, priv) \<in> set (db_table_privileges db)
       then Some (''forbidden privilege '' @ priv @ '' on '' @ kind @ '' '' @ name)
       else if has_infix ''column'' tag \<and> priv \<in> set PG_COLUMN_PRIVILEGES \<and> (name, priv) \<in> set (db_column_privileges db)
       then Some (''forbidden column privilege '' @ priv @ '' on '' @ kind @ '' '' @ name)
       else None)"

text \<open>A throw-away lease is armed and retired; the retirement runs whatever the comparison says.\<close>

definition binding_probe :: "writer_cfg \<Rightarrow> string \<Rightarrow> lane_db \<Rightarrow> (string, unit) res \<times> lane_db" where
  "binding_probe cfg probe db =
    (case sql_arm_lease_lane probe db of
       (Inl x, db1) \<Rightarrow> (Inl x, db1)
     | (Inr row, db1) \<Rightarrow>
        (case sql_retire_lease_lane probe db1 of
           (Inl x, db2) \<Rightarrow> (Inl x, db2)
         | (Inr _, db2) \<Rightarrow>
            (if ln_armed_by row \<noteq> wc_consumer cfg
             then (Inl (''binding consumer_id mismatch: expected '' @ repr_str (wc_consumer cfg) @ '', got '' @ repr_str (ln_armed_by row)), db2)
             else if ln_lane row \<noteq> wc_lane cfg
             then (Inl (''binding lane mismatch: expected '' @ repr_str (wc_lane cfg) @ '', got '' @ repr_str (ln_lane row)), db2)
             else (bind_r (sql_list_lease_lanes db2) (\<lambda>_. Inr ()), db2))))"

definition writer_ready :: "lane_coverage \<Rightarrow> writer_cfg \<Rightarrow> string \<Rightarrow> lane_db \<Rightarrow> (string, unit) res \<times> lane_db" where
  "writer_ready cov cfg probe db =
    (let rels = filter (\<lambda>n. n \<in> set LANE_WRITER_RELATIONS) (db_owned_relations db);
         fns = filter (\<lambda>n. n \<in> {''arm_lease_lane'', ''retire_lease_lane'', ''list_lease_lanes''}) (db_owned_functions db)
     in case db_fault db of
       Some x \<Rightarrow> (Inl x, db)
     | None \<Rightarrow>
       if db_user db \<noteq> wc_role cfg then (Inl (''expected role '' @ repr_str (wc_role cfg) @ '', current_user='' @ repr_str (db_user db)), db)
       else if db_members db \<noteq> [] then (Inl (''lane writer is a member of '' @ names_text (db_members db) @ ''; membership authorises SET ROLE''), db)
       else if rels \<noteq> [] then (Inl (''lane writer owns relation(s) '' @ names_text rels), db)
       else if fns \<noteq> [] then (Inl (''lane writer owns function(s) '' @ names_text fns), db)
       else (case execute_error db of
         Some e \<Rightarrow> (Inl e, db)
       | None \<Rightarrow>
         (case first_some (denied_error db) (sort cov) of
            Some e \<Rightarrow> (Inl e, db)
          | None \<Rightarrow> binding_probe cfg probe db)))"

section \<open>Lemmas\<close>

lemma first_some_None: "first_some f xs = None \<longleftrightarrow> (\<forall>x \<in> set xs. f x = None)"
  by (induction xs) (auto split: option.splits)

lemma retire_keeps_binding: "sql_retire_lease_lane lid db = (res, db') \<Longrightarrow> sql_binding db' = sql_binding db"
  by (auto simp: sql_retire_lease_lane_def sql_binding_def Let_def split: option.splits sum.splits prod.splits)

interpretation pglanes: lane_store psycopg_writer
proof
  fix lid d row d'
  assume a: "lwr_arm psycopg_writer lid d = (Inr row, d')"
  then obtain consumer lane where b: "sql_binding d = Inr (consumer, lane)" "ln_armed_by row = consumer" "d' = d\<lparr>db_lanes := db_lanes d @ [row]\<rparr>"
    by (auto simp: psycopg_writer_def sql_arm_lease_lane_def Let_def split: sum.splits if_splits)
  then have "sql_binding d' = Inr (consumer, lane)" by (simp add: sql_binding_def split: option.splits)
  with b show "\<exists>rows. lwr_rows psycopg_writer d' = Inr rows \<and> row \<in> set rows"
    by (simp add: psycopg_writer_def sql_list_lease_lanes_def)
next
  fix lid d b d' rows row
  assume a: "lwr_retire psycopg_writer lid d = (Inr b, d')" "lwr_rows psycopg_writer d' = Inr rows" "row \<in> set rows"
  have r: "sql_retire_lease_lane lid d = (Inr b, d')" using a(1) by (simp add: psycopg_writer_def)
  then obtain consumer lane where c: "sql_binding d = Inr (consumer, lane)"
      "db_lanes d' = filter (\<lambda>r. \<not> (ln_lease r = lid \<and> ln_armed_by r = consumer)) (db_lanes d)"
    by (auto simp: sql_retire_lease_lane_def Let_def split: sum.splits)
  with a(2,3) retire_keeps_binding [OF r] show "ln_lease row \<noteq> lid"
    by (auto simp: psycopg_writer_def sql_list_lease_lanes_def)
qed

text \<open>Every pair of a relation and a privilege is in the table the module builds, with a tag that makes the probe ask for it.\<close>

lemma relation_keys_mem: "rel \<in> set LANE_WRITER_RELATIONS \<Longrightarrow> priv \<in> set PG_TABLE_PRIVILEGES \<Longrightarrow> (relation_kind rel, rel, priv) \<in> set relation_keys"
  by (auto simp: relation_keys_def)

lemma relation_keys_kind: "(kind, rel, priv) \<in> set relation_keys \<Longrightarrow> is_relation_kind kind"
  by (auto simp: relation_keys_def relation_kind_def is_relation_kind_def split: if_splits)

lemma default_coverage_mem: "(kind, rel, priv) \<in> set relation_keys \<Longrightarrow> ((kind, rel, priv), relation_tag priv) \<in> set build_default_coverage"
  unfolding build_default_coverage_def by force

lemma relation_tags:
  "py_startswith (relation_tag priv) ''probed-denied-by-''" "has_infix ''relation'' (relation_tag priv)" "relation_tag priv \<in> set LANE_KNOWN_TAGS"
  "priv \<in> set PG_COLUMN_PRIVILEGES \<Longrightarrow> has_infix ''column'' (relation_tag priv)"
  "priv \<notin> set PG_COLUMN_PRIVILEGES \<Longrightarrow> \<not> has_infix ''column'' (relation_tag priv)"
  "\<not> py_startswith (relation_tag priv) ''allowed-because-''"
proof -
  have "py_startswith t ''probed-denied-by-'' \<and> has_infix ''relation'' t \<and> t \<in> set LANE_KNOWN_TAGS \<and> \<not> py_startswith t ''allowed-because-''"
    if "t = ''probed-denied-by-relation'' \<or> t = ''probed-denied-by-relation+column''" for t
    using that by (elim disjE; simp only:) (code_simp+)
  then show "py_startswith (relation_tag priv) ''probed-denied-by-''" "has_infix ''relation'' (relation_tag priv)" "relation_tag priv \<in> set LANE_KNOWN_TAGS"
    "\<not> py_startswith (relation_tag priv) ''allowed-because-''" by (simp_all add: relation_tag_def)
  have "has_infix ''column'' ''probed-denied-by-relation+column''" "\<not> has_infix ''column'' ''probed-denied-by-relation''" by code_simp+
  then show "priv \<in> set PG_COLUMN_PRIVILEGES \<Longrightarrow> has_infix ''column'' (relation_tag priv)"
    "priv \<notin> set PG_COLUMN_PRIVILEGES \<Longrightarrow> \<not> has_infix ''column'' (relation_tag priv)" by (simp_all add: relation_tag_def)
qed

text \<open>What is enough for the check at import.\<close>

lemma coverage_validI:
  assumes "\<And>k t. (k, t) \<in> set cov \<Longrightarrow> t \<in> set LANE_KNOWN_TAGS" "\<And>k. k \<in> set relation_keys \<Longrightarrow> k \<in> set (map fst cov)"
    "\<And>sig. sig \<in> set LANE_WRITER_FUNCTIONS \<Longrightarrow> (''FUNCTION'', sig, ''EXECUTE'') \<in> set (map fst cov)"
    "\<And>k. k \<in> set (map fst CHANNELS) \<Longrightarrow> k \<in> set (map fst cov)"
    "set (map fst (filter (\<lambda>(_, tag). py_startswith tag ''allowed-because-'') cov)) = set LANE_WRITER_ALLOWED_RUNTIME"
    "\<And>kt. kt \<in> set cov \<Longrightarrow> column_error kt = None"
  shows "validate_lane_writer_privilege_coverage cov = Inr ()"
proof -
  have 1: "filter (\<lambda>t. t \<notin> set LANE_KNOWN_TAGS) (map snd cov) = []" using assms(1) by (auto simp: filter_empty_conv)
  have 2: "filter (\<lambda>k. k \<notin> set (filter (\<lambda>(kind, _). is_relation_kind kind) (map fst cov))) relation_keys = []"
    using assms(2) relation_keys_kind by (auto simp: filter_empty_conv)
  have 3: "List.find (\<lambda>sig. (''FUNCTION'', sig, ''EXECUTE'') \<notin> set (map fst cov)) LANE_WRITER_FUNCTIONS = None"
    using assms(3) unfolding find_None_iff by blast
  have 4: "List.find (\<lambda>k. k \<notin> set (map fst cov)) (map fst CHANNELS) = None" using assms(4) unfolding find_None_iff by blast
  have 5: "first_some column_error cov = None" using assms(6) by (simp add: first_some_None)
  show ?thesis unfolding validate_lane_writer_privilege_coverage_def Let_def 1 2 3 4 5 assms(5) by simp
qed

text \<open>Tables with the fixed part of the module's table and a tag for each pair of relation and privilege.\<close>

definition table_with :: "(cov_key \<Rightarrow> string) \<Rightarrow> lane_coverage" where
  "table_with f =
     [((''FUNCTION'', ''arm_lease_lane(text)'', ''EXECUTE''), ''allowed-because-runtime-arm''),
      ((''FUNCTION'', ''retire_lease_lane(text)'', ''EXECUTE''), ''allowed-because-runtime-retire''),
      ((''FUNCTION'', ''list_lease_lanes()'', ''EXECUTE''), ''allowed-because-runtime-list'')] @ CHANNELS @ map (\<lambda>k. (k, f k)) relation_keys"

lemma default_is_table: "build_default_coverage = table_with (\<lambda>(_, _, priv). relation_tag priv)"
  by (simp add: build_default_coverage_def table_with_def case_prod_beta')

definition tag_ok :: "string \<Rightarrow> string \<Rightarrow> bool" where
  "tag_ok priv tag \<longleftrightarrow> tag \<in> set LANE_KNOWN_TAGS \<and> \<not> py_startswith tag ''allowed-because-'' \<and>
     (if priv \<in> set PG_COLUMN_PRIVILEGES then has_infix ''relation'' tag \<and> has_infix ''column'' tag else \<not> has_infix ''column'' tag)"

lemma fixed_part:
  "list_all (\<lambda>(_, t). t \<in> set LANE_KNOWN_TAGS) (table_with f) \<longleftrightarrow> list_all (\<lambda>k. f k \<in> set LANE_KNOWN_TAGS) relation_keys"
  "filter (\<lambda>(_, tag). py_startswith tag ''allowed-because-'') CHANNELS = []"
  "list_all (\<lambda>kt. column_error kt = None) CHANNELS"
proof -
  have "list_all (\<lambda>(_, t). t \<in> set LANE_KNOWN_TAGS) CHANNELS" "''allowed-because-runtime-arm'' \<in> set LANE_KNOWN_TAGS" "''allowed-because-runtime-retire'' \<in> set LANE_KNOWN_TAGS"
    "''allowed-because-runtime-list'' \<in> set LANE_KNOWN_TAGS" by code_simp+
  then show "list_all (\<lambda>(_, t). t \<in> set LANE_KNOWN_TAGS) (table_with f) \<longleftrightarrow> list_all (\<lambda>k. f k \<in> set LANE_KNOWN_TAGS) relation_keys"
    by (simp add: table_with_def list.pred_map comp_def)
  show "filter (\<lambda>(_, tag). py_startswith tag ''allowed-because-'') CHANNELS = []" "list_all (\<lambda>kt. column_error kt = None) CHANNELS" by code_simp+
qed

lemma table_with_valid:
  assumes "\<And>kind rel priv. (kind, rel, priv) \<in> set relation_keys \<Longrightarrow> tag_ok priv (f (kind, rel, priv))"
  shows "validate_lane_writer_privilege_coverage (table_with f) = Inr ()"
proof (rule coverage_validI)
  show "t \<in> set LANE_KNOWN_TAGS" if "(k, t) \<in> set (table_with f)" for k t
    using that fixed_part(1) [of f] assms by (auto simp: list_all_iff tag_ok_def)
  show "k \<in> set (map fst (table_with f))" if "k \<in> set relation_keys" for k using that by (force simp: table_with_def)
  show "(''FUNCTION'', sig, ''EXECUTE'') \<in> set (map fst (table_with f))" if "sig \<in> set LANE_WRITER_FUNCTIONS" for sig
    using that by (auto simp: table_with_def LANE_WRITER_FUNCTIONS_def)
  show "k \<in> set (map fst (table_with f))" if "k \<in> set (map fst CHANNELS)" for k using that by (auto simp: table_with_def)
  have "filter (\<lambda>(_, tag). py_startswith tag ''allowed-because-'') (map (\<lambda>k. (k, f k)) relation_keys) = []"
    using assms by (auto simp: filter_empty_conv tag_ok_def)
  then show "set (map fst (filter (\<lambda>(_, tag). py_startswith tag ''allowed-because-'') (table_with f))) = set LANE_WRITER_ALLOWED_RUNTIME"
    unfolding table_with_def filter_append fixed_part(2) by (simp add: LANE_WRITER_ALLOWED_RUNTIME_def py_startswith_def)
  have col: "column_error ((kind, rel, priv), f (kind, rel, priv)) = None" if "(kind, rel, priv) \<in> set relation_keys" for kind rel priv
    using assms [OF that] by (auto simp: column_error_def tag_ok_def split: if_splits)
  show "column_error kt = None" if "kt \<in> set (table_with f)" for kt
    using that col fixed_part(3) unfolding table_with_def list_all_iff by (auto simp: column_error_def is_relation_kind_def)
qed

lemma default_coverage_valid: "validate_lane_writer_privilege_coverage build_default_coverage = Inr ()"
  unfolding default_is_table by (rule table_with_valid) (simp add: tag_ok_def relation_tags)

text \<open>The probe leaves no row behind.\<close>

lemma binding_probe_Inr:
  assumes "binding_probe cfg probe db = (Inr (), db')"
  shows "db' = db" "map_of (db_bindings db) (db_user db) = Some (wc_consumer cfg, wc_lane cfg)"
proof -
  obtain row db1 where a: "sql_arm_lease_lane probe db = (Inr row, db1)"
    using assms by (auto simp: binding_probe_def split: prod.splits sum.splits)
  then obtain c l where b: "sql_binding db = Inr (c, l)" "row = \<lparr>ln_lease = probe, ln_lane = l, ln_armed_by = c\<rparr>" "db1 = db\<lparr>db_lanes := db_lanes db @ [row]\<rparr>"
      "\<forall>r \<in> set (db_lanes db). ln_lease r \<noteq> probe"
    by (auto simp: sql_arm_lease_lane_def Let_def split: sum.splits if_splits)
  have b1: "sql_binding db1 = Inr (c, l)" using b(1,3) by (simp add: sql_binding_def split: option.splits)
  have "filter (\<lambda>r. \<not> (ln_lease r = probe \<and> ln_armed_by r = c)) (db_lanes db1) = db_lanes db" using b(2-4) by (simp add: filter_id_conv)
  then have r: "sql_retire_lease_lane probe db1 = (Inr True, db)" using b1 b(2,3) by (simp add: sql_retire_lease_lane_def)
  show "db' = db" using assms a r by (auto simp: binding_probe_def split: if_splits)
  have "c = wc_consumer cfg" "l = wc_lane cfg" using assms a r b(2) by (auto simp: binding_probe_def split: if_splits)
  with b(1) show "map_of (db_bindings db) (db_user db) = Some (wc_consumer cfg, wc_lane cfg)" by (auto simp: sql_binding_def split: option.splits)
qed

lemma writer_ready_Inr:
  "writer_ready cov cfg probe db = (Inr (), db') \<longleftrightarrow> db_fault db = None \<and> db_user db = wc_role cfg \<and> db_members db = [] \<and>
     set (db_owned_relations db) \<inter> set LANE_WRITER_RELATIONS = {} \<and>
     set (db_owned_functions db) \<inter> {''arm_lease_lane'', ''retire_lease_lane'', ''list_lease_lanes''} = {} \<and>
     execute_error db = None \<and> (\<forall>kt \<in> set cov. denied_error db kt = None) \<and> binding_probe cfg probe db = (Inr (), db')"
proof -
  have d: "first_some (denied_error db) (sort cov) = None \<longleftrightarrow> (\<forall>kt \<in> set cov. denied_error db kt = None)" by (simp add: first_some_None)
  show ?thesis unfolding d [symmetric] by (auto simp: writer_ready_def Let_def filter_empty_conv split: option.splits)
qed

section \<open>Examples\<close>

definition demo_writer_cfg :: writer_cfg where
  "demo_writer_cfg = \<lparr>wc_role = ''lane_mini'', wc_consumer = ''mini-seat'', wc_lane = ''gated''\<rparr>"

definition demo_lane_db :: lane_db where
  "demo_lane_db = \<lparr>db_lanes = [], db_bindings = [(''lane_mini'', ''mini-seat'', ''gated'')], db_user = ''lane_mini'', db_members = [], db_owned_relations = [],
     db_owned_functions = [], db_execute = [''arm_lease_lane(text)'', ''retire_lease_lane(text)'', ''list_lease_lanes()''], db_table_privileges = [],
     db_column_privileges = [], db_fault = None\<rparr>"

lemma execute_error_None: "execute_error db = None \<longleftrightarrow> set LANE_WRITER_FUNCTIONS \<subseteq> set (db_execute db)"
  by (auto simp: execute_error_def first_some_None LANE_WRITER_ALLOWED_RUNTIME_def LANE_WRITER_FUNCTIONS_def split: if_splits)

lemma demo_probe: "binding_probe demo_writer_cfg ''__lane_ready__0'' (demo_lane_db\<lparr>db_table_privileges := ps\<rparr>) = (Inr (), demo_lane_db\<lparr>db_table_privileges := ps\<rparr>)"
  by (simp add: binding_probe_def sql_arm_lease_lane_def sql_retire_lease_lane_def sql_list_lease_lanes_def sql_binding_def demo_lane_db_def demo_writer_cfg_def Let_def)

section \<open>Properties\<close>

text \<open>A lane writer that is ready has no authority beyond its three functions. When the start-up check passes with the module's table, the session runs as the expected role, which is a member of no other role
  and owns none of the gate's relations and functions, may execute the three functions, has no privilege at all on any of the eight relations, neither on the table nor on a column,
  and is bound to this seat and lane; the check leaves the database as it was.\<close>

theorem ready_is_least_privilege:
  assumes "writer_ready build_default_coverage cfg probe db = (Inr (), db')"
  shows "db' = db \<and> db_user db = wc_role cfg \<and> db_members db = [] \<and> set LANE_WRITER_FUNCTIONS \<subseteq> set (db_execute db) \<and>
    map_of (db_bindings db) (db_user db) = Some (wc_consumer cfg, wc_lane cfg) \<and>
    (\<forall>rel \<in> set LANE_WRITER_RELATIONS. rel \<notin> set (db_owned_relations db) \<and>
       (\<forall>priv \<in> set PG_TABLE_PRIVILEGES. (rel, priv) \<notin> set (db_table_privileges db) \<and>
          (priv \<in> set PG_COLUMN_PRIVILEGES \<longrightarrow> (rel, priv) \<notin> set (db_column_privileges db))))"
proof -
  note a = assms [unfolded writer_ready_Inr]
  then have bp: "binding_probe cfg probe db = (Inr (), db')" and ex: "execute_error db = None" by blast+
  have "(rel, priv) \<notin> set (db_table_privileges db) \<and> (priv \<in> set PG_COLUMN_PRIVILEGES \<longrightarrow> (rel, priv) \<notin> set (db_column_privileges db))"
    if "rel \<in> set LANE_WRITER_RELATIONS" "priv \<in> set PG_TABLE_PRIVILEGES" for rel priv
  proof -
    note k = relation_keys_mem [OF that]
    have "denied_error db ((relation_kind rel, rel, priv), relation_tag priv) = None" using a default_coverage_mem [OF k] by blast
    then show ?thesis using relation_keys_kind [OF k] relation_tags [of priv] by (auto simp: denied_error_def split: if_splits)
  qed
  then have rels: "\<forall>rel \<in> set LANE_WRITER_RELATIONS. rel \<notin> set (db_owned_relations db) \<and>
       (\<forall>priv \<in> set PG_TABLE_PRIVILEGES. (rel, priv) \<notin> set (db_table_privileges db) \<and>
          (priv \<in> set PG_COLUMN_PRIVILEGES \<longrightarrow> (rel, priv) \<notin> set (db_column_privileges db)))"
    using a by (simp add: disjoint_iff) blast
  have "db_user db = wc_role cfg" "db_members db = []" using a by simp_all
  with rels binding_probe_Inr [OF bp] ex [unfolded execute_error_None] show ?thesis by simp
qed

lemma demo_writer_ready: "writer_ready build_default_coverage demo_writer_cfg ''__lane_ready__0'' demo_lane_db = (Inr (), demo_lane_db)"
proof -
  have "denied_error demo_lane_db kt = None" for kt by (cases kt) (auto simp: denied_error_def demo_lane_db_def)
  moreover have "demo_lane_db\<lparr>db_table_privileges := []\<rparr> = demo_lane_db" by (simp add: demo_lane_db_def)
  moreover have "execute_error demo_lane_db = None" by (simp add: execute_error_None demo_lane_db_def LANE_WRITER_FUNCTIONS_def)
  ultimately show ?thesis unfolding writer_ready_Inr using demo_probe [of "[]"] by (simp add: demo_lane_db_def demo_writer_cfg_def)
qed

theorem ready_is_least_privilege_witness: "map_of (db_bindings demo_lane_db) (db_user demo_lane_db) = Some (''mini-seat'', ''gated'')"
proof -
  have "map_of (db_bindings demo_lane_db) (db_user demo_lane_db) = Some (wc_consumer demo_writer_cfg, wc_lane demo_writer_cfg)"
    using ready_is_least_privilege [OF demo_writer_ready] by blast
  then show ?thesis by (simp add: demo_writer_cfg_def)
qed

text \<open>C15: The lease that was armed is the lease that serves, and a released one is closed. With the lane writer of the database, a lease armed under a fully matched name is accepted for its owner's next turn until it
  expires; after a release by its owner its record is a tombstone, its worktree is not registered, and the writer lists no row for it.\<close>

theorem lease_life_cycle:
  assumes "le_writer env = Some psycopg_writer"
  shows "(\<forall>now r w s w' now' e. arm_locked env now r w = (Inr s, w') \<and> l_state r = ''armed'' \<and> l_id r \<noteq> [] \<and> l_lane r = le_lane env \<and>
        le_repo env = Some (l_repo r) \<and> name_fullmatch (l_name r) \<and> now' < l_expires r \<and> dget (e_payload e) ''worktree_lease'' = JStr (l_id r) \<and>
        e_sender e = l_sender r \<longrightarrow> (\<exists>v. validate_worktree_lease env now' e ''trusted'' False w' = (Inr r, v))) \<and>
    (\<forall>now e policy w out w'. release_operation env now e policy w = (Inr out, w') \<longrightarrow>
       (\<exists>lid r t. out = Released lid \<and> dget (e_payload e) ''worktree_lease'' = JStr lid \<and> l_sender r = e_sender e \<and>
          map_of (wl_files w) (lease_path env lid) = Some (LeaseFile r t) \<and>
          (\<exists>r'. map_of (wl_files w') (lease_path env lid) = Some (LeaseFile r' now) \<and> l_state r' = ''tombstoned'') \<and> \<not> is_registered (l_name r) w' \<and>
          (\<forall>rows row. sql_list_lease_lanes (wl_lanes w') = Inr rows \<and> row \<in> set rows \<longrightarrow> ln_lease row \<noteq> lid)))"
proof (intro conjI allI impI)
  fix now r w s w' now' and e :: envelope
  assume "arm_locked env now r w = (Inr s, w') \<and> l_state r = ''armed'' \<and> l_id r \<noteq> [] \<and> l_lane r = le_lane env \<and>
        le_repo env = Some (l_repo r) \<and> name_fullmatch (l_name r) \<and> now' < l_expires r \<and> dget (e_payload e) ''worktree_lease'' = JStr (l_id r) \<and>
        e_sender e = l_sender r"
  then show "\<exists>v. validate_worktree_lease env now' e ''trusted'' False w' = (Inr r, v)" using pglanes.armed_lease_serves [OF assms] by blast
next
  fix now policy w out w' and e :: envelope
  assume rel: "release_operation env now e policy w = (Inr out, w')"
  show "\<exists>lid r t. out = Released lid \<and> dget (e_payload e) ''worktree_lease'' = JStr lid \<and> l_sender r = e_sender e \<and>
          map_of (wl_files w) (lease_path env lid) = Some (LeaseFile r t) \<and>
          (\<exists>r'. map_of (wl_files w') (lease_path env lid) = Some (LeaseFile r' now) \<and> l_state r' = ''tombstoned'') \<and> \<not> is_registered (l_name r) w' \<and>
          (\<forall>rows row. sql_list_lease_lanes (wl_lanes w') = Inr rows \<and> row \<in> set rows \<longrightarrow> ln_lease row \<noteq> lid)"
  proof (rule pglanes.release_closes [OF assms rel], goal_cases)
    case (1 lid r t)
    have "lwr_rows psycopg_writer = sql_list_lease_lanes" by (simp add: psycopg_writer_def)
    moreover have "\<exists>r'. map_of (wl_files w') (lease_path env lid) = Some (LeaseFile r' now) \<and> l_state r' = ''tombstoned''"
      using 1(7) by (intro exI [of _ "r\<lparr>l_state := ''tombstoned'', l_reason := Some ''released'', l_tombstoned := Some now\<rparr>"]) simp
    ultimately show ?case using 1(1,2,4-6,8,9) by metis
  qed
qed

definition demo_pg_env :: "lane_db lease_env" where
  "demo_pg_env = \<lparr>le_sha = (\<lambda>s. s), le_io = (\<lambda>_. True), le_replace_ok = (\<lambda>_ _. True), le_agent = ''mini-seat'', le_workdir = ''/w'', le_repo = Some ''/r'',
     le_rev = (\<lambda>_ ref. if ref = [] then [] else ''c0''), le_add = (\<lambda>name _ ts. if name \<in> ts then Some ''exists'' else None), le_remove_ok = (\<lambda>_. True),
     le_prepare = (\<lambda>_. None), le_lane = ''gated'', le_writer = Some psycopg_writer, le_resume = True, le_ttl = 3600, le_ttl_max = 7200, le_max_armed = 2,
     le_max_sender = 1, le_result_ttl = 600\<rparr>"

lemma demo_pg_arms:
  "arm_locked demo_pg_env 10 demo_lease \<lparr>wl_files = [], wl_locks = {}, wl_trees = {}, wl_lanes = demo_lane_db\<rparr> =
     (Inr demo_lease, \<lparr>wl_files = [(''L'', LeaseFile demo_lease 10)], wl_locks = {}, wl_trees = {''wt''},
        wl_lanes = demo_lane_db\<lparr>db_lanes := [\<lparr>ln_lease = ''L'', ln_lane = ''gated'', ln_armed_by = ''mini-seat''\<rparr>]\<rparr>\<rparr>)"
  by code_simp

theorem lease_life_cycle_witness:
  "\<exists>v. validate_worktree_lease demo_pg_env 20 demo_turn ''trusted'' False
     \<lparr>wl_files = [(''L'', LeaseFile demo_lease 10)], wl_locks = {}, wl_trees = {''wt''},
        wl_lanes = demo_lane_db\<lparr>db_lanes := [\<lparr>ln_lease = ''L'', ln_lane = ''gated'', ln_armed_by = ''mini-seat''\<rparr>]\<rparr>\<rparr> = (Inr demo_lease, v)"
proof -
  have "le_writer demo_pg_env = Some psycopg_writer" by (simp add: demo_pg_env_def)
  note t = lease_life_cycle [OF this]
  have "name_fullmatch (l_name demo_lease)" by code_simp
  moreover have "l_state demo_lease = ''armed''" "l_id demo_lease = ''L''" "l_lane demo_lease = le_lane demo_pg_env" "le_repo demo_pg_env = Some (l_repo demo_lease)"
    "20 < l_expires demo_lease" "dget (e_payload demo_turn) ''worktree_lease'' = JStr ''L''" "e_sender demo_turn = l_sender demo_lease"
    by (simp_all add: demo_lease_def new_lease_def demo_pg_env_def demo_turn_def demo_envelope_req_def dget_def)
  ultimately show ?thesis using t demo_pg_arms by fastforce
qed

text \<open>The check of the table at import is not closed. It accepts a table in which a privilege on a relation has a tag without the word relation, and then the start-up check never asks for that privilege:
  a role that may delete claims is declared ready.\<close>

theorem coverage_check_gap:
  "\<exists>cov db. validate_lane_writer_privilege_coverage cov = Inr () \<and> (''claims'', ''DELETE'') \<in> set (db_table_privileges db) \<and>
     fst (writer_ready cov demo_writer_cfg ''__lane_ready__0'' db) = Inr ()"
proof (intro exI conjI)
  let ?f = "\<lambda>(kind, rel, priv). if rel = ''claims'' \<and> priv = ''DELETE'' then ''probed-denied-by-function'' else relation_tag priv"
  let ?db = "demo_lane_db\<lparr>db_table_privileges := [(''claims'', ''DELETE'')]\<rparr>"
  have d: "tag_ok ''DELETE'' ''probed-denied-by-function''" by code_simp
  show "validate_lane_writer_privilege_coverage (table_with ?f) = Inr ()"
    by (rule table_with_valid) (use d in \<open>auto simp: tag_ok_def relation_tags\<close>)
  show "(''claims'', ''DELETE'') \<in> set (db_table_privileges ?db)" by simp
  have no: "\<not> has_infix ''relation'' ''probed-denied-by-function''" by code_simp
  have "denied_error ?db (k, ?f k) = None" for k by (cases k) (auto simp: denied_error_def no demo_lane_db_def simp del: has_infix.simps)
  moreover have "denied_error ?db ((k, n, p), t) = None" if "\<not> is_relation_kind k" for k n p t using that by (simp add: denied_error_def)
  ultimately have "\<forall>kt \<in> set (table_with ?f). denied_error ?db kt = None"
    unfolding table_with_def CHANNELS_def by (auto simp: is_relation_kind_def)
  moreover have "execute_error ?db = None" by (simp add: execute_error_None demo_lane_db_def LANE_WRITER_FUNCTIONS_def)
  ultimately have "writer_ready (table_with ?f) demo_writer_cfg ''__lane_ready__0'' ?db = (Inr (), ?db)"
    unfolding writer_ready_Inr using demo_probe [of "[(''claims'', ''DELETE'')]"] by (simp add: demo_lane_db_def demo_writer_cfg_def)
  then show "fst (writer_ready (table_with ?f) demo_writer_cfg ''__lane_ready__0'' ?db) = Inr ()" by simp
qed

end
