(* ===== verification/Continuation_Store.thy ===== *)
theory Continuation_Store
  imports Worktree_Lease
begin

text \<open>
  The continuation workspaces of the agent SDK (\<open>src/src/agent_redis_bridge/engines/agent_sdk_continuation.py\<close>) and their use in
  \<open>bridge.py\<close>: which sender and which worktree a persisted session belongs to.

  The store maps the digest of a session id to the text of a file, and has a set of locked digests. A file whose
  path the operating system refuses (\<open>io\<close>) fails every write and lock; a write that starts ends.
\<close>

section \<open>The store\<close>

record cont_store =
  cs_files :: "(string \<times> string) list"
  cs_locks :: "string set"

record cont_rec =
  co_thread :: string
  co_sender :: string
  co_worktree :: string

definition cont_path :: "(string \<Rightarrow> string) \<Rightarrow> string \<Rightarrow> string" where
  "cont_path sha th = sha (utf8 th)"

definition cont_text :: "cont_rec \<Rightarrow> string" where
  "cont_text r = json_dumps json_compact (JObj [(''thread_id'', JStr (co_thread r)), (''sender'', JStr (co_sender r)), (''worktree_name'', JStr (co_worktree r))])
     @ [CHR 0x0A]"

definition cont_load :: "(string \<Rightarrow> string) \<Rightarrow> string \<Rightarrow> cont_store \<Rightarrow> (string, cont_rec option) res" where
  "cont_load sha th cs =
    (case map_of (cs_files cs) (cont_path sha th) of
       None \<Rightarrow> Inr None
     | Some body \<Rightarrow>
        (case json_loads body of
           Some (JObj d) \<Rightarrow>
            (if \<not> list_all (\<lambda>k. nonempty_str (dget d k)) [''thread_id'', ''sender'', ''worktree_name''] \<or> str_of (dget d ''thread_id'') \<noteq> th
             then Inl ''continuation-workspace-corrupt''
             else Inr (Some \<lparr>co_thread = th, co_sender = str_of (dget d ''sender''), co_worktree = str_of (dget d ''worktree_name'')\<rparr>))
         | _ \<Rightarrow> Inl ''continuation-workspace-corrupt''))"

definition cont_record :: "(string \<Rightarrow> string) \<Rightarrow> (string \<Rightarrow> bool) \<Rightarrow> cont_rec \<Rightarrow> cont_store \<Rightarrow> (string, unit) res \<times> cont_store" where
  "cont_record sha io r cs =
    (let p = cont_path sha (co_thread r) in
     if \<not> io p then (Inl ''continuation-workspace-write-failed'', cs)
     else if map_of (cs_files cs) p \<noteq> None
     then (bind_r (cont_load sha (co_thread r) cs) (\<lambda>existing. if existing \<noteq> Some r then Inl ''continuation-workspace-conflict'' else Inr ()), cs)
     else (Inr (), cs\<lparr>cs_files := cs_files cs @ [(p, cont_text r)]\<rparr>))"

definition cont_acquire :: "(string \<Rightarrow> string) \<Rightarrow> (string \<Rightarrow> bool) \<Rightarrow> string \<Rightarrow> cont_store \<Rightarrow> (string, unit) res \<times> cont_store" where
  "cont_acquire sha io th cs =
    (let p = cont_path sha th in
     if \<not> io p then (Inl ''continuation-workspace-lock-failed'', cs)
     else if p \<in> cs_locks cs then (Inl ''continuation-worktree-busy'', cs)
     else (Inr (), cs\<lparr>cs_locks := insert p (cs_locks cs)\<rparr>))"

definition cont_release :: "(string \<Rightarrow> string) \<Rightarrow> string \<Rightarrow> cont_store \<Rightarrow> cont_store" where
  "cont_release sha th cs = cs\<lparr>cs_locks := cs_locks cs - {cont_path sha th}\<rparr>"

section \<open>Lemmas\<close>

text \<open>A line feed after the printed value does not matter to the parser.\<close>

lemma loads_dumps_line:
  assumes "style_ok st" "json_wf v"
  shows "json_loads (json_dumps st v @ [CHR 0x0A]) = Some (json_norm st v)"
proof -
  let ?v = "json_norm st v" and ?l = "[CHR 0x0A]"
  have wf: "json_wf ?v" using assms(2) json_wf_jsort by (simp add: json_norm_def)
  have s: "skip_ws (jprint st ?v @ ?l) = jprint st ?v @ ?l" using starts_append(1) [OF jprint_starts [OF wf], where r = ?l] by simp
  have "ends ?l" by (simp add: ends_def num_char_def is_digit_def)
  moreover have "2 * length (jprint st ?v @ ?l) < 2 * length (jprint st ?v @ ?l) + 1" by simp
  ultimately have "scan_val (2 * length (jprint st ?v @ ?l) + 1) (jprint st ?v @ ?l) = Some (?v, ?l)"
    using parses_all [OF assms(1) wf] unfolding parses_def by blast
  moreover have "skip_ws ?l = []" by (simp add: skip_ws_def)
  ultimately show ?thesis unfolding json_loads_def json_dumps_def s by simp
qed

lemma cont_style_ok: "style_ok json_compact"
  by (simp add: style_ok_def json_compact_def)

lemma cont_text_loads:
  "json_loads (cont_text r) = Some (JObj [(''thread_id'', JStr (co_thread r)), (''sender'', JStr (co_sender r)), (''worktree_name'', JStr (co_worktree r))])"
  unfolding cont_text_def by (subst loads_dumps_line [OF cont_style_ok]) (simp_all add: json_compact_def json_norm_def)

definition cont_ok :: "cont_rec \<Rightarrow> bool" where
  "cont_ok r \<longleftrightarrow> co_thread r \<noteq> [] \<and> co_sender r \<noteq> [] \<and> co_worktree r \<noteq> []"

text \<open>A written record reads back, and a recorded session keeps its binding: recording again never changes a file.\<close>

lemma cont_load_text:
  assumes "map_of (cs_files cs) (cont_path sha (co_thread r)) = Some (cont_text r)" "cont_ok r"
  shows "cont_load sha (co_thread r) cs = Inr (Some r)"
  using assms by (simp add: cont_load_def cont_text_loads cont_ok_def dget_def)

lemma cont_record_loads:
  assumes "cont_record sha io r cs = (Inr (), cs')" "cont_ok r"
  shows "cont_load sha (co_thread r) cs' = Inr (Some r)"
proof (cases "map_of (cs_files cs) (cont_path sha (co_thread r))")
  case None
  with assms(1) have "cs_files cs' = cs_files cs @ [(cont_path sha (co_thread r), cont_text r)]" by (auto simp: cont_record_def Let_def split: if_splits)
  with None have "map_of (cs_files cs') (cont_path sha (co_thread r)) = Some (cont_text r)" by (simp add: map_add_def)
  then show ?thesis using assms(2) by (rule cont_load_text)
next
  case (Some t)
  with assms(1) show ?thesis by (auto simp: cont_record_def Let_def bind_r_def split: if_splits sum.splits)
qed

lemma cont_record_keeps:
  assumes "cont_record sha io r cs = (res, cs')" "map_of (cs_files cs) p = Some t"
  shows "map_of (cs_files cs') p = Some t"
  using assms by (auto simp: cont_record_def Let_def map_add_def split: if_splits)

section \<open>Use by the bridge\<close>

record cont_cfg =
  cc_sha :: "string \<Rightarrow> string"
  cc_io :: "string \<Rightarrow> bool"
  cc_engine :: string
  cc_oneshot :: bool

definition stateful_sdk :: "cont_cfg \<Rightarrow> bool" where
  "stateful_sdk cfg \<longleftrightarrow> cc_engine cfg = ''agent-sdk'' \<and> \<not> cc_oneshot cfg"

text \<open>The worktree of a trusted continuation, by its name; two worktrees of one seat have the same path if and only if they have the same name.\<close>

definition agent_sdk_continuation_worktree :: "cont_cfg \<Rightarrow> string \<Rightarrow> string \<Rightarrow> string option \<Rightarrow> worktree_spec option \<Rightarrow> string option \<Rightarrow> (string \<Rightarrow> bool) \<Rightarrow> cont_store
    \<Rightarrow> (string, string option) res" where
  "agent_sdk_continuation_worktree cfg sender policy thread_id spec lease_worktree registered cs =
    (case thread_id of
       None \<Rightarrow> Inr None
     | Some th \<Rightarrow>
        (if \<not> stateful_sdk cfg \<or> policy \<noteq> ''trusted'' then Inr None
         else if spec \<noteq> None then Inl ''continuation-worktree-must-be-omitted''
         else bind_r (cont_load (cc_sha cfg) th cs) (\<lambda>found.
           case found of
             None \<Rightarrow> Inl ''continuation-worktree-unavailable''
           | Some r \<Rightarrow>
              (if co_sender r \<noteq> sender then Inl ''continuation-worktree-owner-mismatch''
               else if \<not> name_fullmatch (co_worktree r) then Inl ''continuation-workspace-corrupt''
               else if \<not> registered (co_worktree r) then Inl ''continuation-worktree-unavailable''
               else if lease_worktree \<noteq> None \<and> lease_worktree \<noteq> Some (co_worktree r) then Inl ''continuation-worktree-lease-mismatch''
               else Inr (Some (co_worktree r))))))"

definition agent_sdk_worktree_error :: "cont_cfg \<Rightarrow> string \<Rightarrow> worktree_spec option \<Rightarrow> string option \<Rightarrow> string option" where
  "agent_sdk_worktree_error cfg policy spec worktree =
    (if stateful_sdk cfg \<and> policy = ''trusted'' \<and> spec = None \<and> worktree = None
     then Some ''agent-sdk trusted stateful requests require payload.worktree'' else None)"

text \<open>After a successful turn in a kept worktree the session is bound; a failure of the store fails the turn.\<close>

definition record_agent_sdk_continuation_workspace :: "cont_cfg \<Rightarrow> string \<Rightarrow> turn_result \<Rightarrow> worktree_spec option \<Rightarrow> string option \<Rightarrow> cont_store \<Rightarrow> turn_result \<times> cont_store" where
  "record_agent_sdk_continuation_workspace cfg sender r spec lease_worktree cs =
    (if \<not> tr_ok r \<or> \<not> stateful_sdk cfg \<or> (spec = None \<and> lease_worktree = None) \<or> (\<exists>sp. spec = Some sp \<and> ws_cleanup sp \<noteq> ''keep'') \<or> tr_thread_id r = JNull
     then (r, cs)
     else
       (let name = (case lease_worktree of Some n \<Rightarrow> n | None \<Rightarrow> ws_name (the spec)) in
        case cont_record (cc_sha cfg) (cc_io cfg) \<lparr>co_thread = str_of (tr_thread_id r), co_sender = sender, co_worktree = name\<rparr> cs of
          (Inl e, cs') \<Rightarrow> (r\<lparr>tr_ok := False, tr_error := JStr (''continuation-workspace-record-failed: '' @ e)\<rparr>, cs')
        | (Inr _, cs') \<Rightarrow> (r, cs')))"

lemma record_keeps_load:
  assumes "cont_load (cc_sha cfg) th cs = Inr (Some x)"
  shows "cont_load (cc_sha cfg) th (snd (record_agent_sdk_continuation_workspace cfg sender r spec lw cs)) = Inr (Some x)"
proof -
  obtain body where b: "map_of (cs_files cs) (cont_path (cc_sha cfg) th) = Some body" using assms by (auto simp: cont_load_def split: option.splits)
  let ?cs = "snd (record_agent_sdk_continuation_workspace cfg sender r spec lw cs)"
  have "map_of (cs_files ?cs) (cont_path (cc_sha cfg) th) = Some body"
    using b by (auto simp: record_agent_sdk_continuation_workspace_def Let_def dest: cont_record_keeps split: prod.splits sum.splits)
  with assms b show ?thesis by (simp add: cont_load_def)
qed

section \<open>Properties\<close>

text \<open>C36: A persisted session stays with its creator. When a turn that bound its session to a sender and a worktree succeeded, then after any later turns of any senders in any worktrees, a continuation of that session is
  given that worktree for that sender while git has it, and refused with \<open>continuation-worktree-owner-mismatch\<close> for everyone else.\<close>

theorem session_stays_with_creator:
  assumes "stateful_sdk cfg" "tr_ok r" "tr_thread_id r = JStr th" "th \<noteq> []" "sender \<noteq> []" "name_fullmatch (ws_name sp)" "ws_cleanup sp = ''keep''"
    and first: "record_agent_sdk_continuation_workspace cfg sender r (Some sp) None cs = (r', cs1)" "tr_ok r'"
    and later: "cs2 = foldl (\<lambda>c (s, q, spec, lw). snd (record_agent_sdk_continuation_workspace cfg s q spec lw c)) cs1 turns"
    and "registered (ws_name sp)"
  shows "agent_sdk_continuation_worktree cfg sender ''trusted'' (Some th) None None registered cs2 = Inr (Some (ws_name sp)) \<and>
    (\<forall>other. other \<noteq> sender \<longrightarrow>
       agent_sdk_continuation_worktree cfg other ''trusted'' (Some th) None None registered cs2 = Inl ''continuation-worktree-owner-mismatch'')"
proof -
  let ?rec = "\<lparr>co_thread = th, co_sender = sender, co_worktree = ws_name sp\<rparr>"
  have ok: "cont_ok ?rec" using assms(4-6) by (auto simp: cont_ok_def name_fullmatch_def)
  have "cont_record (cc_sha cfg) (cc_io cfg) ?rec cs = (Inr (), cs1)"
    using first assms(1-3,7) by (auto simp: record_agent_sdk_continuation_workspace_def Let_def split: prod.splits sum.splits)
  from cont_record_loads [OF this ok] have one: "cont_load (cc_sha cfg) th cs1 = Inr (Some ?rec)" by simp
  have keep: "cont_load (cc_sha cfg) th (snd (record_agent_sdk_continuation_workspace cfg s q spec lw c)) = Inr (Some ?rec)"
    if "cont_load (cc_sha cfg) th c = Inr (Some ?rec)" for s q spec lw c
    by (rule record_keeps_load [OF that])
  have "cont_load (cc_sha cfg) th (foldl (\<lambda>c (s, q, spec, lw). snd (record_agent_sdk_continuation_workspace cfg s q spec lw c)) c turns) = Inr (Some ?rec)"
    if "cont_load (cc_sha cfg) th c = Inr (Some ?rec)" for c
    using that by (induction turns arbitrary: c) (auto simp: keep)
  from this [OF one] later have "cont_load (cc_sha cfg) th cs2 = Inr (Some ?rec)" by simp
  with assms show ?thesis by (simp add: agent_sdk_continuation_worktree_def)
qed

definition demo_cont_cfg :: cont_cfg where
  "demo_cont_cfg = \<lparr>cc_sha = (\<lambda>s. s), cc_io = (\<lambda>_. True), cc_engine = ''agent-sdk'', cc_oneshot = False\<rparr>"

theorem session_stays_with_creator_witness:
  "\<exists>cs. agent_sdk_continuation_worktree demo_cont_cfg ''other'' ''trusted'' (Some ''T'') None None (\<lambda>_. True) cs = Inl ''continuation-worktree-owner-mismatch''"
proof -
  let ?r = "\<lparr>tr_ok = True, tr_result = [], tr_error = JNull, tr_completion = JNull, tr_thread_id = JStr ''T''\<rparr>"
  let ?sp = "\<lparr>ws_name = ''wt'', ws_base_ref = ''HEAD'', ws_cleanup = ''keep''\<rparr>"
  let ?cs = "\<lparr>cs_files = [], cs_locks = {}\<rparr>"
  obtain r' cs1 where f: "record_agent_sdk_continuation_workspace demo_cont_cfg ''orch'' ?r (Some ?sp) None ?cs = (r', cs1)" by fastforce
  have s: "stateful_sdk demo_cont_cfg" by (simp add: stateful_sdk_def demo_cont_cfg_def)
  have "tr_ok r'" using f s by (auto simp: record_agent_sdk_continuation_workspace_def cont_record_def demo_cont_cfg_def Let_def)
  moreover have "name_fullmatch (ws_name ?sp)" by code_simp
  ultimately show ?thesis
    using session_stays_with_creator [OF s _ _ _ _ _ _ f _ refl, of "''T''" "\<lambda>_. True" "[]"] by (intro exI [of _ cs1]) simp
qed

end
