(* ===== verification/Turn_Dispatch.thy ===== *)
theory Turn_Dispatch
  imports Continuation_Store
begin

text \<open>
  From an admitted request to a running turn and back (\<open>Bridge.handle_raw\<close> after the budget check, \<open>handle_worktree_operation\<close>,
  and the \<open>finally\<close> block of \<open>process_request\<close> in \<open>bridge.py\<close>). The state joins the components of the daemon: its bridge
  part with the server and the engine pool, the lease store, the continuation store, and the worker threads
  that were started.

  The lease operations hold their lock until the reply is sent; nothing runs in between here, so they are
  composed with the result and the reply after the lock is given back. File-system facts about a cell root, the
  resolved path of a worktree and the text of a float are parameters. The stop calls of the pool, the transcript,
  the arguments of scored runs and log lines are left out.
\<close>

section \<open>State\<close>

record turn_plan =
  tp_spec :: "worktree_spec option"
  tp_cell :: "string option"
  tp_lease :: "lease_rec option"
  tp_thread :: "string option"
  tp_cont :: "string option"

record 'e turn_job =
  tj_req :: envelope
  tj_policy :: string
  tj_engine :: "'e option"
  tj_plan :: turn_plan
  tj_raw :: "string option"

record ('e, 'c, 'd) daemon =
  dm_bridge :: "('e, 'c) bridge"
  dm_lease :: "'d lease_world"
  dm_cont :: cont_store
  dm_jobs :: "'e turn_job list"

record cell_fs =
  cf_resolve :: "string \<Rightarrow> string option"
  cf_symlink :: "string \<Rightarrow> bool"
  cf_dir :: "string \<Rightarrow> bool"
  cf_base :: string                              \<comment> \<open>resolved base of the controller's cells\<close>

record ('e, 'c, 'd) daemon_cfg =
  dc_bridge :: "('e, 'c) bridge_cfg"
  dc_lease :: "'d lease_env"
  dc_cont :: cont_cfg
  dc_cells :: cell_fs
  dc_owner :: string
  dc_path :: "string \<Rightarrow> string"
  dc_float :: "rat \<Rightarrow> string"

record 'e reading =
  rd_mo :: moment
  rd_time :: rat
  rd_lid :: string
  rd_iso :: string
  rd_at :: "'e \<Rightarrow> eng_attrs"
  rd_spawn :: "'e spawn"
  rd_starts :: bool                              \<comment> \<open>the thread starts\<close>

abbreviation dm_pool :: "('e, 'c, 'd) daemon \<Rightarrow> 'e pool" where
  "dm_pool dm \<equiv> bg_pool (dm_bridge dm)"

abbreviation dm_redis :: "('e, 'c, 'd) daemon \<Rightarrow> redis" where
  "dm_redis dm \<equiv> bg_redis (dm_bridge dm)"

definition with_pool :: "'e pool \<Rightarrow> ('e, 'c, 'd) daemon \<Rightarrow> ('e, 'c, 'd) daemon" where
  "with_pool p dm = dm\<lparr>dm_bridge := (dm_bridge dm)\<lparr>bg_pool := p\<rparr>\<rparr>"

definition reply_error :: "('e, 'c, 'd) daemon_cfg \<Rightarrow> 'e reading \<Rightarrow> envelope \<Rightarrow> string \<Rightarrow> ('e, 'c, 'd) daemon \<Rightarrow> ('e, 'c, 'd) daemon" where
  "reply_error cfg rd e err dm = dm\<lparr>dm_bridge := refuse_request (dc_bridge cfg) (rd_mo rd) e err (dm_bridge dm)\<rparr>"

section \<open>Results of operations\<close>

fun py_words_from :: "string \<Rightarrow> string \<Rightarrow> string list" where
  "py_words_from w [] = (if w = [] then [] else [w])"
| "py_words_from w (c # cs) =
    (if py_isspace c then (if w = [] then py_words_from [] cs else w # py_words_from [] cs) else py_words_from (w @ [c]) cs)"

definition summarize :: "string \<Rightarrow> string" where
  "summarize s = (let cleaned = join '' '' (py_words_from [] s) in if length cleaned \<le> 160 then cleaned else take 157 cleaned @ ''...'')"

definition hdel_key :: "int \<Rightarrow> string \<Rightarrow> string list \<Rightarrow> redis \<Rightarrow> redis" where
  "hdel_key now k fs s0 =
    (let s = purge now s0; h = filter (\<lambda>(f, _). f \<notin> set fs) (rd_hash s k)
     in if fs = [] then s0
        else s\<lparr>rd_hash := (rd_hash s)(k := h),
               rd_exp := (if h = [] \<and> rd_str s k = None \<and> rd_list s k = [] then (rd_exp s)(k := None) else rd_exp s)\<rparr>)"

definition clear_stall_status :: "('e, 'c) bridge_cfg \<Rightarrow> moment \<Rightarrow> string \<Rightarrow> ('e, 'c) bridge \<Rightarrow> ('e, 'c) bridge" where
  "clear_stall_status cfg mo task st =
     st\<lparr>bg_redis := hdel_key (mo_now mo) (task_status_key (bc_redis cfg) task) [''stalled_at'', ''progress_blind''] (bg_redis st)\<rparr>"

text \<open>The final status of a task.\<close>

definition finish_task_status :: "('e, 'c) bridge_cfg \<Rightarrow> moment \<Rightarrow> envelope \<Rightarrow> turn_result \<Rightarrow> string \<Rightarrow> ('e, 'c) bridge \<Rightarrow> (string, unit) res \<times> ('e, 'c) bridge" where
  "finish_task_status cfg mo req r summary st =
    (let state = (if tr_ok r then ''completed'' else ''failed'');
         tail = timeout_echo_fields (e_payload req) True @ [(''ok'', JStr (if tr_ok r then ''true'' else ''false''))] @
                (if tr_error r = JNull then [] else [(''error'', tr_error r)])
     in case field_texts tail of
       Inl x \<Rightarrow> (Inl x, st)
     | Inr texts \<Rightarrow>
        (Inr (), clear_stall_status cfg mo (e_id req)
           (st\<lparr>bg_redis := hset_key (mo_now mo) (task_status_key (bc_redis cfg) (e_id req))
              ([(''task_id'', e_id req), (''seat_id'', bc_agent_id cfg), (''state'', state), (''phase'', ''finished''), (''last_summary'', summary),
                (''updated_at'', mo_iso' mo)] @ texts) (Some (bc_status_ttl cfg)) (bg_redis st)\<rparr>)))"

definition result_base :: "('e, 'c) bridge_cfg \<Rightarrow> string \<Rightarrow> envelope \<Rightarrow> turn_result \<Rightarrow> string \<Rightarrow> dict" where
  "result_base cfg stamp req r summary =
     [(''task_id'', JStr (e_id req)), (''from'', JStr (bc_agent_id cfg)), (''to'', JStr (e_sender req)), (''branch'', JStr (bc_branch cfg)),
      (''ok'', JBool (tr_ok r)), (''result'', JStr (tr_result r)), (''error'', tr_error r), (''completion'', tr_completion r),
      (''thread_id'', tr_thread_id r), (''summary'', JStr summary), (''artifact_paths'', JArr []), (''updated_at'', JStr stamp)]"

definition task_result_payload :: "('e, 'c) bridge_cfg \<Rightarrow> string \<Rightarrow> envelope \<Rightarrow> turn_result \<Rightarrow> string \<Rightarrow> json \<Rightarrow> dict \<Rightarrow> dict" where
  "task_result_payload cfg stamp req r summary structured extra =
    (let p = dict_merge (dict_merge (result_base cfg stamp req r summary) (timeout_echo_fields (e_payload req) True)) extra
     in if expects_structured (e_payload req) then AList.update ''structured'' structured p else p)"

definition write_task_result :: "('e, 'c) bridge_cfg \<Rightarrow> int \<Rightarrow> moment \<Rightarrow> string \<Rightarrow> envelope \<Rightarrow> turn_result \<Rightarrow> string \<Rightarrow> json \<Rightarrow> dict \<Rightarrow> ('e, 'c) bridge \<Rightarrow> ('e, 'c) bridge" where
  "write_task_result cfg ttl mo stamp req r summary structured extra st =
     st\<lparr>bg_redis := set_key (mo_now mo) (task_result_key (bc_redis cfg) (e_id req))
       (json_dumps json_compact (JObj (task_result_payload cfg stamp req r summary structured extra))) (Some ttl) (bg_redis st)\<rparr>"

definition result_text :: "turn_result \<Rightarrow> string" where
  "result_text r = (if tr_result r \<noteq> [] then tr_result r else case tr_error r of JStr s \<Rightarrow> s | _ \<Rightarrow> [])"

definition operation_result :: "('e, 'c, 'd) daemon_cfg \<Rightarrow> 'e reading \<Rightarrow> envelope \<Rightarrow> turn_result \<Rightarrow> dict \<Rightarrow> ('e, 'c, 'd) daemon \<Rightarrow> (string, bool) res \<times> ('e, 'c, 'd) daemon" where
  "operation_result cfg rd e r extra dm =
    (let summary = summarize (result_text r) in
     case finish_task_status (dc_bridge cfg) (rd_mo rd) e r summary (dm_bridge dm) of
       (Inl x, b) \<Rightarrow> (Inl x, dm\<lparr>dm_bridge := b\<rparr>)
     | (Inr _, b) \<Rightarrow>
        (Inr True, dm\<lparr>dm_bridge := send_reply (dc_bridge cfg) (rd_mo rd) e r JNull False extra
           (write_task_result (dc_bridge cfg) (le_result_ttl (dc_lease cfg)) (rd_mo rd) (rd_iso rd) e r summary JNull extra b)\<rparr>))"

definition succeeded :: "string \<Rightarrow> turn_result" where
  "succeeded s = \<lparr>tr_ok = True, tr_result = s, tr_error = JNull, tr_completion = JNull, tr_thread_id = JNull\<rparr>"

definition arm_success_fields :: "('e, 'c, 'd) daemon_cfg \<Rightarrow> lease_rec \<Rightarrow> dict" where
  "arm_success_fields cfg r =
     [(''lease_id'', JStr (l_id r)), (''path'', JStr (dc_path cfg (l_name r))), (''expires_at'', JFloat (dc_float cfg (l_expires r))),
      (''base_oid'', JStr (l_base r)), (''thread_resume'', JBool (le_resume (dc_lease cfg)))]"

text \<open>The whole handler: \<open>Inr True\<close> when it answered, \<open>Inr False\<close> when the request is not a life-cycle operation.\<close>

definition handle_worktree_operation :: "('e, 'c, 'd) daemon_cfg \<Rightarrow> 'e reading \<Rightarrow> envelope \<Rightarrow> string \<Rightarrow> ('e, 'c, 'd) daemon \<Rightarrow> (string, bool) res \<times> ('e, 'c, 'd) daemon" where
  "handle_worktree_operation cfg rd e policy dm =
    (if \<not> is_lifecycle e then (Inr False, dm)
     else if policy \<noteq> ''trusted'' then operation_result cfg rd e (failed ''worktree lease operations require trusted sender policy'') [] dm
     else if is_scored_request e then operation_result cfg rd e (failed ''scored request rejects worktree leases'') [] dm
     else
       (let (res, w) = lease_operation (dc_lease cfg) (rd_time rd) (rd_lid rd) e policy (dm_lease dm); dm1 = dm\<lparr>dm_lease := w\<rparr> in
        case res of
          Inr (Armed r) \<Rightarrow> operation_result cfg rd e (succeeded ''worktree armed'') (arm_success_fields cfg r) dm1
        | Inr (Released lid) \<Rightarrow> operation_result cfg rd e (succeeded ''worktree released'') [(''lease_id'', JStr lid)] dm1
        | Inr (Refused err) \<Rightarrow> operation_result cfg rd e (failed err) [] dm1
        | Inl (LaneStoreUnreachable _) \<Rightarrow>
           (let dm2 = reply_error cfg rd e ''worktree-lane-store-unreachable'' dm1
            in (Inr True, dm2\<lparr>dm_bridge := (dm_bridge dm2)\<lparr>bg_seen := filter (\<lambda>(_, i). i \<noteq> e_id e) (bg_seen (dm_bridge dm2))\<rparr>\<rparr>))
        | Inl x \<Rightarrow> operation_result cfg rd e (failed (exc_text x)) [] dm1))"

section \<open>The plan of a turn\<close>

text \<open>Paths as \<open>pathlib\<close> compares them: the root, with two leading slashes kept apart, and the parts without empty ones and single dots.\<close>

fun path_pieces :: "string \<Rightarrow> string \<Rightarrow> string list" where
  "path_pieces w [] = [w]"
| "path_pieces w (c # cs) = (if c = CHR ''/'' then w # path_pieces [] cs else path_pieces (w @ [c]) cs)"

definition path_key :: "string \<Rightarrow> bool \<times> string list" where
  "path_key s = (take 2 s = ''//'' \<and> take 3 s \<noteq> ''///'', filter (\<lambda>p. p \<noteq> [] \<and> p \<noteq> ''.'') (path_pieces [] s))"

definition relative_to :: "string \<Rightarrow> string \<Rightarrow> bool" where
  "relative_to p base \<longleftrightarrow> fst (path_key p) = fst (path_key base) \<and> take (length (snd (path_key base))) (snd (path_key p)) = snd (path_key base)"

definition parse_cell_root :: "cell_fs \<Rightarrow> dict \<Rightarrow> (string, string option) res" where
  "parse_cell_root fs p =
    (case dget p ''cell_root'' of
       JNull \<Rightarrow> Inr None
     | JStr path \<Rightarrow>
        (if \<not> py_startswith path ''/'' then Inl ''cell_root must be an absolute path''
         else (case cf_resolve fs path of
            None \<Rightarrow> Inl ''cell_root is unavailable''
          | Some resolved \<Rightarrow>
             (let alias = path_key path = path_key ''/var'' \<or> (relative_to path ''/var'' \<and> \<not> cf_symlink fs path) in
              if (cf_symlink fs path \<and> \<not> alias) \<or> \<not> cf_dir fs path then Inl ''cell_root must be a canonical directory''
              else if \<not> relative_to resolved (cf_base fs) then Inl ''cell_root is outside the controller cell-root base''
              else Inr (Some resolved))))
     | _ \<Rightarrow> Inl ''cell_root must be an absolute path'')"

definition none_if :: "bool \<Rightarrow> string \<Rightarrow> (string, unit) res" where
  "none_if b err = (if b then Inl err else Inr ())"

definition operation_checks :: "envelope \<Rightarrow> worktree_spec option \<Rightarrow> (string, unit) res" where
  "operation_checks e spec =
    (let lease_id = dget (e_payload e) ''worktree_lease''; operation = dget (e_payload e) ''operation'' in
     bind_r (none_if (lease_id \<noteq> JNull \<and> operation \<noteq> JStr ''worktree_run'') ''worktree-lease-requires-operation-worktree_run'') (\<lambda>_.
     bind_r (none_if (operation \<noteq> JNull \<and> operation \<noteq> JStr ''worktree_run'') ''worktree-operation-invalid'') (\<lambda>_.
     bind_r (none_if (operation = JStr ''worktree_run'' \<and> \<not> nonempty_str lease_id) ''worktree-run-requires-lease'') (\<lambda>_.
     bind_r (none_if (lease_id \<noteq> JNull \<and> spec \<noteq> None) ''worktree-spec-and-lease-incompatible'') (\<lambda>_.
     none_if (is_scored_request e \<and> lease_id \<noteq> JNull) ''scored request rejects worktree leases'')))))"

definition scored_checks :: "envelope \<Rightarrow> turn_plan \<Rightarrow> (string, unit) res" where
  "scored_checks e plan =
    (if \<not> is_scored_request e then Inr ()
     else
       bind_r (none_if (tp_spec plan \<noteq> None \<or> tp_lease plan \<noteq> None) ''scored request rejects ordinary bridge worktree_spec and worktree leases'') (\<lambda>_.
       bind_r (none_if (tp_cell plan = None) ''scored request requires a controller-provisioned cell root'') (\<lambda>_.
       none_if (dget (e_payload e) ''fresh_context'' \<noteq> JBool True \<or> dget (e_payload e) ''reasoning_effort'' \<noteq> JStr ''medium'')
         ''scored request requires fresh_context=true and reasoning_effort=medium'')))"

definition lease_for :: "('e, 'c, 'd) daemon_cfg \<Rightarrow> 'e reading \<Rightarrow> envelope \<Rightarrow> string \<Rightarrow> ('e, 'c, 'd) daemon \<Rightarrow> (string, lease_rec option) res" where
  "lease_for cfg rd e policy dm =
    (if dget (e_payload e) ''worktree_lease'' = JNull then Inr None
     else (case fst (validate_worktree_lease (dc_lease cfg) (rd_time rd) e policy False (dm_lease dm)) of
             Inl x \<Rightarrow> Inl (exc_text x)
           | Inr r \<Rightarrow> Inr (Some r)))"

definition spec_error :: "(string, 'a) res \<Rightarrow> (string, 'a) res" where
  "spec_error r = (case r of Inl x \<Rightarrow> Inl (''worktree spec invalid: '' @ x) | Inr v \<Rightarrow> Inr v)"

definition request_plan :: "('e, 'c, 'd) daemon_cfg \<Rightarrow> 'e reading \<Rightarrow> envelope \<Rightarrow> string \<Rightarrow> ('e, 'c, 'd) daemon \<Rightarrow> (string, turn_plan) res" where
  "request_plan cfg rd e policy dm =
    bind_r (spec_error (parse_worktree_spec (e_payload e))) (\<lambda>spec.
    bind_r (spec_error (parse_cell_root (dc_cells cfg) (e_payload e))) (\<lambda>cell.
    bind_r (operation_checks e spec) (\<lambda>_.
    bind_r (lease_for cfg rd e policy dm) (\<lambda>lease.
      (let thread = request_thread_id (e_payload e); lw = map_option l_name lease in
       bind_r (agent_sdk_continuation_worktree (dc_cont cfg) (e_sender e) policy thread spec lw (\<lambda>n. is_registered n (dm_lease dm)) (dm_cont dm)) (\<lambda>cont.
       bind_r (case agent_sdk_worktree_error (dc_cont cfg) policy spec (if cont = None then lw else cont) of None \<Rightarrow> Inr () | Some x \<Rightarrow> Inl x) (\<lambda>_.
       bind_r (none_if (thread \<noteq> None \<and> \<not> le_resume (dc_lease cfg) \<and> (spec \<noteq> None \<or> lw \<noteq> None)) ''thread-affinity-worktree-incompatible'') (\<lambda>_.
         (let plan = \<lparr>tp_spec = spec, tp_cell = cell, tp_lease = lease, tp_thread = thread, tp_cont = cont\<rparr>
          in bind_r (scored_checks e plan) (\<lambda>_. Inr plan))))))))))"

section \<open>Starting a turn\<close>

text \<open>A turn takes an engine (or, for a scored request, reserves a place), then the lock of its continuation, then the lock of its lease.\<close>

definition busy_text :: "'e pool \<Rightarrow> string" where
  "busy_text p = ''bridge busy with task '' @ (if active_task_ids p = [] then ''unknown'' else join '','' (active_task_ids p))"

text \<open>The handler answers the errors of the pool and an \<open>EngineError\<close>; any other exception of the factory or of \<open>start()\<close> leaves it.\<close>

datatype engine_fail = Refuse string | Escape string

fun pool_error_end :: "pool_error \<Rightarrow> engine_fail" where
  "pool_error_end (AffinityMissError th) = Refuse (''thread-affinity-miss thread='' @ th)"
| "pool_error_end (AffinityBusyError th t) = Refuse (''thread-affinity-busy task='' @ t)"
| "pool_error_end (AffinityAmbiguousError th) = Refuse (''thread-affinity-ambiguous thread='' @ th)"
| "pool_error_end (SpawnError (EngineError x)) = Refuse (''engine-start-failed: '' @ x)"
| "pool_error_end (SpawnError (OtherExc x)) = Escape x"
| "pool_error_end (PoolValueError n) = Escape (int_str n)"

definition claim_engine :: "('e, 'c, 'd) daemon_cfg \<Rightarrow> 'e reading \<Rightarrow> envelope \<Rightarrow> string option \<Rightarrow> 'e pool \<Rightarrow> (engine_fail, 'e option) res \<times> 'e pool" where
  "claim_engine cfg rd e thread p =
    (if is_scored_request e
     then (case pool_reserve (rd_at rd) p (e_id e) of (True, p', _) \<Rightarrow> (Inr None, p') | (False, p', _) \<Rightarrow> (Inl (Refuse (busy_text p')), p'))
     else (case pool_acquire (rd_at rd) (rd_spawn rd) p (e_id e) (if le_resume (dc_lease cfg) then None else thread) of
             (Inl x, p', _) \<Rightarrow> (Inl (pool_error_end x), p')
           | (Inr None, p', _) \<Rightarrow> (Inl (Refuse (busy_text p')), p')
           | (Inr (Some eng), p', _) \<Rightarrow> (Inr (Some eng), p')))"

definition acquire_lease :: "'d lease_env \<Rightarrow> string \<Rightarrow> 'd lease_world \<Rightarrow> (string, unit) res \<times> 'd lease_world" where
  "acquire_lease env lid w =
    (let p = lease_path env lid in
     if \<not> le_io env p then (Inl ''worktree-lease-lock-failed'', w)
     else if p \<in> wl_locks w then (Inl ''worktree-lease-busy'', w)
     else (Inr (), w\<lparr>wl_locks := insert p (wl_locks w)\<rparr>))"

definition release_lease :: "'d lease_env \<Rightarrow> string \<Rightarrow> 'd lease_world \<Rightarrow> 'd lease_world" where
  "release_lease env lid w = w\<lparr>wl_locks := wl_locks w - {lease_path env lid}\<rparr>"

definition release_engine :: "'e reading \<Rightarrow> string \<Rightarrow> ('e, 'c, 'd) daemon \<Rightarrow> ('e, 'c, 'd) daemon" where
  "release_engine rd task dm = with_pool (fst (pool_release (rd_at rd) (dm_pool dm) task)) dm"

text \<open>The session whose continuation the turn locks.\<close>

definition cont_session :: "turn_plan \<Rightarrow> string option" where
  "cont_session plan = (if tp_cont plan = None then None else tp_thread plan)"

definition lock_cont :: "('e, 'c, 'd) daemon_cfg \<Rightarrow> turn_plan \<Rightarrow> ('e, 'c, 'd) daemon \<Rightarrow> (string, unit) res \<times> ('e, 'c, 'd) daemon" where
  "lock_cont cfg plan dm =
    (case cont_session plan of
       None \<Rightarrow> (Inr (), dm)
     | Some th \<Rightarrow> (case cont_acquire (cc_sha (dc_cont cfg)) (cc_io (dc_cont cfg)) th (dm_cont dm) of (r, cs) \<Rightarrow> (r, dm\<lparr>dm_cont := cs\<rparr>)))"

definition unlock_cont :: "('e, 'c, 'd) daemon_cfg \<Rightarrow> turn_plan \<Rightarrow> ('e, 'c, 'd) daemon \<Rightarrow> ('e, 'c, 'd) daemon" where
  "unlock_cont cfg plan dm =
    (case cont_session plan of None \<Rightarrow> dm | Some th \<Rightarrow> dm\<lparr>dm_cont := cont_release (cc_sha (dc_cont cfg)) th (dm_cont dm)\<rparr>)"

definition lock_lease :: "('e, 'c, 'd) daemon_cfg \<Rightarrow> turn_plan \<Rightarrow> ('e, 'c, 'd) daemon \<Rightarrow> (string, unit) res \<times> ('e, 'c, 'd) daemon" where
  "lock_lease cfg plan dm =
    (case tp_lease plan of
       None \<Rightarrow> (Inr (), dm)
     | Some r \<Rightarrow> (case acquire_lease (dc_lease cfg) (l_id r) (dm_lease dm) of (x, w) \<Rightarrow> (x, dm\<lparr>dm_lease := w\<rparr>)))"

definition unlock_lease :: "('e, 'c, 'd) daemon_cfg \<Rightarrow> turn_plan \<Rightarrow> ('e, 'c, 'd) daemon \<Rightarrow> ('e, 'c, 'd) daemon" where
  "unlock_lease cfg plan dm =
    (case tp_lease plan of None \<Rightarrow> dm | Some r \<Rightarrow> dm\<lparr>dm_lease := release_lease (dc_lease cfg) (l_id r) (dm_lease dm)\<rparr>)"

datatype dispatched = Answered | Raised string | Started bool     \<comment> \<open>the worker owns the inbox entry\<close>

definition set_active :: "envelope \<Rightarrow> ('e, 'c, 'd) daemon \<Rightarrow> ('e, 'c, 'd) daemon" where
  "set_active e dm = dm\<lparr>dm_bridge := (dm_bridge dm)\<lparr>bg_active := AList.update (e_id e) e (bg_active (dm_bridge dm))\<rparr>\<rparr>"

definition drop_active :: "string \<Rightarrow> ('e, 'c, 'd) daemon \<Rightarrow> ('e, 'c, 'd) daemon" where
  "drop_active task dm = dm\<lparr>dm_bridge := (dm_bridge dm)\<lparr>bg_active := AList.delete task (bg_active (dm_bridge dm))\<rparr>\<rparr>"

definition start_worker :: "('e, 'c, 'd) daemon_cfg \<Rightarrow> 'e reading \<Rightarrow> 'e turn_job \<Rightarrow> ('e, 'c, 'd) daemon \<Rightarrow> dispatched \<times> ('e, 'c, 'd) daemon" where
  "start_worker cfg rd job dm =
    (let e = tj_req job; dm1 = set_active e dm in
     if rd_starts rd then (Started (tj_raw job \<noteq> None), dm1\<lparr>dm_jobs := dm_jobs dm1 @ [job]\<rparr>)
     else (Raised ''RuntimeError'',
           release_engine rd (e_id e) (drop_active (e_id e) (unlock_lease cfg (tj_plan job) (unlock_cont cfg (tj_plan job) dm1)))))"

definition dispatch_request :: "('e, 'c, 'd) daemon_cfg \<Rightarrow> 'e reading \<Rightarrow> envelope \<Rightarrow> string \<Rightarrow> string option \<Rightarrow> ('e, 'c, 'd) daemon \<Rightarrow> dispatched \<times> ('e, 'c, 'd) daemon" where
  "dispatch_request cfg rd e policy raw dm =
    (case request_plan cfg rd e policy dm of
       Inl err \<Rightarrow> (Answered, reply_error cfg rd e err dm)
     | Inr plan \<Rightarrow>
        (case claim_engine cfg rd e (tp_thread plan) (dm_pool dm) of
           (Inl (Escape x), p) \<Rightarrow> (Raised x, with_pool p dm)
         | (Inl (Refuse err), p) \<Rightarrow> (Answered, reply_error cfg rd e err (with_pool p dm))
         | (Inr eng, p) \<Rightarrow>
            (case lock_cont cfg plan (with_pool p dm) of
               (Inl err, dm1) \<Rightarrow> (Answered, reply_error cfg rd e err (release_engine rd (e_id e) dm1))
             | (Inr _, dm1) \<Rightarrow>
                (case lock_lease cfg plan dm1 of
                   (Inl err, dm2) \<Rightarrow> (Answered, reply_error cfg rd e err (release_engine rd (e_id e) (unlock_cont cfg plan dm2)))
                 | (Inr _, dm2) \<Rightarrow>
                    start_worker cfg rd \<lparr>tj_req = e, tj_policy = policy, tj_engine = eng, tj_plan = plan, tj_raw = raw\<rparr> dm2))))"

definition handle_admitted :: "('e, 'c, 'd) daemon_cfg \<Rightarrow> 'e reading \<Rightarrow> envelope \<Rightarrow> string \<Rightarrow> string option \<Rightarrow> ('e, 'c, 'd) daemon \<Rightarrow> dispatched \<times> ('e, 'c, 'd) daemon" where
  "handle_admitted cfg rd e policy raw dm =
    (case handle_worktree_operation cfg rd e policy dm of
       (Inl x, dm') \<Rightarrow> (Raised x, dm')
     | (Inr True, dm') \<Rightarrow> (Answered, dm')
     | (Inr False, dm') \<Rightarrow> dispatch_request cfg rd e policy raw dm')"

text \<open>The handler of the inbox loop; \<open>Answered\<close> is also the end of a message that gets no answer.\<close>

definition handle_raw :: "('e, 'c, 'd) daemon_cfg \<Rightarrow> 'e reading \<Rightarrow> string \<Rightarrow> string option \<Rightarrow> ('e, 'c, 'd) daemon \<Rightarrow> dispatched \<times> ('e, 'c, 'd) daemon" where
  "handle_raw cfg rd msg raw dm =
    (case handle_raw_front (dc_bridge cfg) (rd_mo rd) msg (dm_bridge dm) of
       (Finished, b) \<Rightarrow> (Answered, dm\<lparr>dm_bridge := b\<rparr>)
     | (Crashed x, b) \<Rightarrow> (Raised x, dm\<lparr>dm_bridge := b\<rparr>)
     | (Admitted e policy, b) \<Rightarrow> handle_admitted cfg rd e policy raw (dm\<lparr>dm_bridge := b\<rparr>))"

section \<open>The end of a turn\<close>

text \<open>The lease of a turn that outlived it is reclaimed; the lock is given back whatever happens.\<close>

definition expire_after_turn :: "('e, 'c, 'd) daemon_cfg \<Rightarrow> 'e reading \<Rightarrow> turn_plan \<Rightarrow> ('e, 'c, 'd) daemon \<Rightarrow> (string, unit) res \<times> ('e, 'c, 'd) daemon" where
  "expire_after_turn cfg rd plan dm =
    (case tp_lease plan of
       None \<Rightarrow> (Inr (), dm)
     | Some r \<Rightarrow>
        (case bind_m (load (dc_lease cfg) (l_id r)) (\<lambda>current.
                case current of
                  None \<Rightarrow> ret_m ()
                | Some s \<Rightarrow> (if l_state s = ''armed'' \<and> l_expires s \<le> rd_time rd
                            then bind_m (reclaim_leased_worktree (dc_lease cfg) s) (\<lambda>_. bind_m (tombstone (dc_lease cfg) (rd_time rd) s ''expired'') (\<lambda>_. ret_m ()))
                            else ret_m ())) (dm_lease dm) of
           (x, w) \<Rightarrow> ((case x of Inl e \<Rightarrow> Inl (exc_text e) | Inr _ \<Rightarrow> Inr ()), unlock_lease cfg plan (dm\<lparr>dm_lease := w\<rparr>))))"

definition drop_task :: "('e, 'c, 'd) daemon_cfg \<Rightarrow> 'e reading \<Rightarrow> string \<Rightarrow> ('e, 'c) bridge \<Rightarrow> ('e, 'c) bridge" where
  "drop_task cfg rd task b =
     clear_stall_status (dc_bridge cfg) (rd_mo rd) task
       (b\<lparr>bg_active := AList.delete task (bg_active b), bg_task_engines := AList.delete task (bg_task_engines b), bg_epoch := AList.delete task (bg_epoch b),
          bg_turn_index := AList.delete task (bg_turn_index b), bg_cancelled := bg_cancelled b - {task}\<rparr>)"

definition ack_processing :: "('e, 'c, 'd) daemon_cfg \<Rightarrow> 'e reading \<Rightarrow> string option \<Rightarrow> ('e, 'c) bridge \<Rightarrow> ('e, 'c) bridge" where
  "ack_processing cfg rd raw b =
    (case raw of
       None \<Rightarrow> b
     | Some body \<Rightarrow> b\<lparr>bg_redis := snd (remove_processing (le_sha (dc_lease cfg)) (bc_redis (dc_bridge cfg)) (mo_now (rd_mo rd)) (bc_agent_id (dc_bridge cfg)) body
                                       (dc_owner cfg) (bg_redis b))\<rparr>)"

text \<open>\<open>made\<close>: the turn had a worktree of its own; \<open>preserve\<close>: the completion gate keeps it.\<close>

definition end_turn :: "('e, 'c, 'd) daemon_cfg \<Rightarrow> 'e reading \<Rightarrow> bool \<Rightarrow> bool \<Rightarrow> 'e turn_job \<Rightarrow> ('e, 'c, 'd) daemon \<Rightarrow> (string, unit) res \<times> ('e, 'c, 'd) daemon" where
  "end_turn cfg rd made preserve job dm =
    (let plan = tj_plan job; e = tj_req job; dm1 = unlock_cont cfg plan dm;
         dm2 = (case tp_spec plan of
                  Some sp \<Rightarrow> (if made \<and> \<not> is_scored_request e \<and> ws_cleanup sp = ''auto'' \<and> \<not> preserve
                             then dm1\<lparr>dm_lease := remove_worktree (dc_lease cfg) (ws_name sp) (dm_lease dm1)\<rparr> else dm1)
                | None \<Rightarrow> dm1)
     in case expire_after_turn cfg rd plan dm2 of
          (Inl x, dm3) \<Rightarrow> (Inl x, dm3)
        | (Inr _, dm3) \<Rightarrow>
           (let dm4 = release_engine rd (e_id e) dm3
            in (Inr (), dm4\<lparr>dm_bridge := drop_task cfg rd (e_id e) (ack_processing cfg rd (tj_raw job) (dm_bridge dm4))\<rparr>)))"

section \<open>Lemmas\<close>

lemma acquire_lease_ends:
  assumes "acquire_lease env lid w = (res, w')"
  shows "case res of Inl x \<Rightarrow> w' = w | Inr u \<Rightarrow> lease_path env lid \<notin> wl_locks w \<and> lease_path env lid \<in> wl_locks w' \<and> release_lease env lid w' = w"
  using assms by (auto simp: acquire_lease_def release_lease_def Let_def insert_Diff_if split: if_splits)

lemma cont_acquire_ends:
  assumes "cont_acquire sha io th cs = (res, cs')"
  shows "case res of Inl x \<Rightarrow> cs' = cs | Inr u \<Rightarrow> cont_path sha th \<notin> cs_locks cs \<and> cont_path sha th \<in> cs_locks cs' \<and> cont_release sha th cs' = cs"
  using assms by (auto simp: cont_acquire_def cont_release_def Let_def insert_Diff_if split: if_splits)

definition holds_cont :: "('e, 'c, 'd) daemon_cfg \<Rightarrow> turn_plan \<Rightarrow> ('e, 'c, 'd) daemon \<Rightarrow> bool" where
  "holds_cont cfg plan dm \<longleftrightarrow> (\<forall>th. cont_session plan = Some th \<longrightarrow> cont_path (cc_sha (dc_cont cfg)) th \<in> cs_locks (dm_cont dm))"

definition holds_lease :: "('e, 'c, 'd) daemon_cfg \<Rightarrow> turn_plan \<Rightarrow> ('e, 'c, 'd) daemon \<Rightarrow> bool" where
  "holds_lease cfg plan dm \<longleftrightarrow> (\<forall>r. tp_lease plan = Some r \<longrightarrow> lease_path (dc_lease cfg) (l_id r) \<in> wl_locks (dm_lease dm))"

lemma lock_cont_ends:
  assumes "lock_cont cfg plan dm = (res, dm')"
  shows "case res of Inl x \<Rightarrow> dm' = dm
    | Inr u \<Rightarrow> holds_cont cfg plan dm' \<and> unlock_cont cfg plan dm' = dm \<and> dm_bridge dm' = dm_bridge dm \<and> dm_lease dm' = dm_lease dm \<and> dm_jobs dm' = dm_jobs dm"
proof (cases "cont_session plan")
  case None
  with assms show ?thesis by (auto simp: lock_cont_def unlock_cont_def holds_cont_def)
next
  case (Some th)
  obtain r cs where a: "cont_acquire (cc_sha (dc_cont cfg)) (cc_io (dc_cont cfg)) th (dm_cont dm) = (r, cs)" by fastforce
  with assms Some have "res = r" "dm' = dm\<lparr>dm_cont := cs\<rparr>" by (auto simp: lock_cont_def)
  with cont_acquire_ends [OF a] Some show ?thesis by (cases r) (auto simp: unlock_cont_def holds_cont_def)
qed

lemma lock_lease_ends:
  assumes "lock_lease cfg plan dm = (res, dm')"
  shows "case res of Inl x \<Rightarrow> dm' = dm
    | Inr u \<Rightarrow> holds_lease cfg plan dm' \<and> unlock_lease cfg plan dm' = dm \<and> dm_bridge dm' = dm_bridge dm \<and> dm_cont dm' = dm_cont dm \<and> dm_jobs dm' = dm_jobs dm"
proof (cases "tp_lease plan")
  case None
  with assms show ?thesis by (auto simp: lock_lease_def unlock_lease_def holds_lease_def)
next
  case (Some r)
  obtain x w where a: "acquire_lease (dc_lease cfg) (l_id r) (dm_lease dm) = (x, w)" by fastforce
  with assms Some have "res = x" "dm' = dm\<lparr>dm_lease := w\<rparr>" by (auto simp: lock_lease_def)
  with acquire_lease_ends [OF a] Some show ?thesis by (cases x) (auto simp: unlock_lease_def holds_lease_def)
qed

text \<open>The pool around one task.\<close>

definition in_pool :: "string \<Rightarrow> 'e pool \<Rightarrow> bool" where
  "in_pool task p \<longleftrightarrow> task \<in> fst ` set (pl_busy p)"

lemma keys_delete: "fst ` set (AList.delete k xs) = fst ` set xs - {k}"
  by (metis delete_keys set_map set_removeAll)

lemma in_pool_released: "\<not> in_pool t (fst (pool_release att p t))"
  by (auto simp: in_pool_def pool_release_def Let_def keys_delete map_of_eq_None_iff split: option.splits)

lemma claim_engine_ends:
  assumes "claim_engine cfg rd e thread p = (res, p')" "\<not> in_pool (e_id e) p"
  shows "case res of Inl x \<Rightarrow> \<not> in_pool (e_id e) p' | Inr eng \<Rightarrow> in_pool (e_id e) p'"
proof (cases "is_scored_request e")
  case True
  with assms show ?thesis
    by (auto simp: claim_engine_def pool_reserve_def Let_def in_pool_def dom_update split: if_splits bool.splits prod.splits)
next
  case False
  obtain r q st where a: "pool_acquire (rd_at rd) (rd_spawn rd) p (e_id e) (if le_resume (dc_lease cfg) then None else thread) = (r, q, st)" by (metis prod_cases3)
  from a show ?thesis
  proof (cases rule: pool_acquire_cases)
    case refused
    with assms False a show ?thesis by (auto simp: claim_engine_def split: sum.splits option.splits)
  next
    case (failed x y)
    with assms False a show ?thesis by (auto simp: claim_engine_def)
  next
    case (idle us eng vs)
    with assms False a show ?thesis by (auto simp: claim_engine_def in_pool_def dom_update)
  next
    case (spawned eng)
    with assms False a show ?thesis by (auto simp: claim_engine_def in_pool_def dom_update)
  qed
qed

text \<open>A request that was refused at some point after the plan: one reply, and everything but the idle part of the pool as before.\<close>

definition untouched :: "('e, 'c, 'd) daemon_cfg \<Rightarrow> envelope \<Rightarrow> ('e, 'c, 'd) daemon \<Rightarrow> ('e, 'c, 'd) daemon \<Rightarrow> bool" where
  "untouched cfg e dm dm' \<longleftrightarrow> dm_lease dm' = dm_lease dm \<and> dm_cont dm' = dm_cont dm \<and> dm_jobs dm' = dm_jobs dm \<and> \<not> in_pool (e_id e) (dm_pool dm')"

lemma daemon_parts [simp]:
  "dm_lease (with_pool p dm) = dm_lease dm" "dm_cont (with_pool p dm) = dm_cont dm" "dm_jobs (with_pool p dm) = dm_jobs dm" "dm_pool (with_pool p dm) = p"
  "dm_redis (with_pool p dm) = dm_redis dm" "bg_active (dm_bridge (with_pool p dm)) = bg_active (dm_bridge dm)"
  "dm_lease (reply_error cfg rd e err dm) = dm_lease dm" "dm_cont (reply_error cfg rd e err dm) = dm_cont dm" "dm_jobs (reply_error cfg rd e err dm) = dm_jobs dm"
  "dm_pool (reply_error cfg rd e err dm) = dm_pool dm" "bg_active (dm_bridge (reply_error cfg rd e err dm)) = bg_active (dm_bridge dm)"
  by (simp_all add: with_pool_def reply_error_def refuse_request_def send_reply_def push_reply_def)

lemma release_engine_parts [simp]:
  "dm_lease (release_engine rd t dm) = dm_lease dm" "dm_cont (release_engine rd t dm) = dm_cont dm" "dm_jobs (release_engine rd t dm) = dm_jobs dm"
  "dm_redis (release_engine rd t dm) = dm_redis dm" "bg_active (dm_bridge (release_engine rd t dm)) = bg_active (dm_bridge dm)"
  "\<not> in_pool t (dm_pool (release_engine rd t dm))"
  by (simp_all add: release_engine_def in_pool_released)

definition sendable :: "('e, 'c, 'd) daemon_cfg \<Rightarrow> 'e reading \<Rightarrow> envelope \<Rightarrow> bool" where
  "sendable cfg rd e \<longleftrightarrow> can_send (dc_bridge cfg) (rd_mo rd) \<and> e_sender e \<noteq> [] \<and> e_id e \<noteq> [] \<and> json_wf (JObj (e_payload e))"

lemma reply_error_answers:
  "sendable cfg rd e \<Longrightarrow> answered (dc_bridge cfg) (rd_mo rd) (e_sender e) (e_id e) (dm_redis dm) (dm_redis (reply_error cfg rd e err dm))"
  unfolding sendable_def reply_error_def by (simp add: refuse_request_answers del: json_wf.simps)

definition refused_cleanly :: "('e, 'c, 'd) daemon_cfg \<Rightarrow> 'e reading \<Rightarrow> envelope \<Rightarrow> ('e, 'c, 'd) daemon \<Rightarrow> ('e, 'c, 'd) daemon \<Rightarrow> bool" where
  "refused_cleanly cfg rd e dm dm' \<longleftrightarrow> untouched cfg e dm dm' \<and> bg_active (dm_bridge dm') = bg_active (dm_bridge dm) \<and>
     (sendable cfg rd e \<longrightarrow> answered (dc_bridge cfg) (rd_mo rd) (e_sender e) (e_id e) (dm_redis dm) (dm_redis dm'))"

lemma refusedI:
  assumes "untouched cfg e dm dm1" "bg_active (dm_bridge dm1) = bg_active (dm_bridge dm)" "dm_redis dm1 = dm_redis dm"
  shows "refused_cleanly cfg rd e dm (reply_error cfg rd e err dm1)"
  using assms reply_error_answers [of cfg rd e dm1 err] by (simp add: refused_cleanly_def untouched_def)

definition started_fully :: "('e, 'c, 'd) daemon_cfg \<Rightarrow> envelope \<Rightarrow> string option \<Rightarrow> ('e, 'c, 'd) daemon \<Rightarrow> ('e, 'c, 'd) daemon \<Rightarrow> bool" where
  "started_fully cfg e raw dm dm' \<longleftrightarrow>
     (\<exists>job. dm_jobs dm' = dm_jobs dm @ [job] \<and> tj_req job = e \<and> tj_raw job = raw \<and> in_pool (e_id e) (dm_pool dm') \<and>
        map_of (bg_active (dm_bridge dm')) (e_id e) = Some e \<and> dm_redis dm' = dm_redis dm \<and> holds_cont cfg (tj_plan job) dm' \<and> holds_lease cfg (tj_plan job) dm' \<and>
        dm_lease (unlock_lease cfg (tj_plan job) dm') = dm_lease dm \<and> dm_cont (unlock_cont cfg (tj_plan job) dm') = dm_cont dm)"

lemma set_active_parts [simp]:
  "dm_lease (set_active e dm) = dm_lease dm" "dm_cont (set_active e dm) = dm_cont dm" "dm_jobs (set_active e dm) = dm_jobs dm" "dm_pool (set_active e dm) = dm_pool dm"
  "dm_redis (set_active e dm) = dm_redis dm"
  "dm_lease (drop_active t dm) = dm_lease dm" "dm_cont (drop_active t dm) = dm_cont dm" "dm_jobs (drop_active t dm) = dm_jobs dm" "dm_redis (drop_active t dm) = dm_redis dm"
  by (simp_all add: set_active_def drop_active_def)

lemma unlock_parts [simp]:
  "dm_bridge (unlock_cont cfg plan dm) = dm_bridge dm" "dm_lease (unlock_cont cfg plan dm) = dm_lease dm" "dm_jobs (unlock_cont cfg plan dm) = dm_jobs dm"
  "dm_bridge (unlock_lease cfg plan dm) = dm_bridge dm" "dm_cont (unlock_lease cfg plan dm) = dm_cont dm" "dm_jobs (unlock_lease cfg plan dm) = dm_jobs dm"
  by (simp_all add: unlock_cont_def unlock_lease_def split: option.splits)

lemma unlock_depends: "dm_cont dm1 = dm_cont dm2 \<Longrightarrow> dm_cont (unlock_cont cfg plan dm1) = dm_cont (unlock_cont cfg plan dm2)"
  "dm_lease dm1 = dm_lease dm2 \<Longrightarrow> dm_lease (unlock_lease cfg plan dm1) = dm_lease (unlock_lease cfg plan dm2)"
  by (simp_all add: unlock_cont_def unlock_lease_def split: option.splits)

lemma delete_fresh_update: "k \<notin> fst ` set xs \<Longrightarrow> AList.delete k (AList.update k v xs) = xs"
  by (simp add: delete_update_same delete_id)

text \<open>The last step, from a state that holds everything.\<close>

lemma start_worker_ends:
  fixes job :: "'e turn_job"
  assumes "start_worker cfg rd job dm2 = (out, dm')" "tj_req job = e" "in_pool (e_id e) (dm_pool dm2)" "dm_redis dm2 = dm_redis dm" "dm_jobs dm2 = dm_jobs dm"
    "bg_active (dm_bridge dm2) = bg_active (dm_bridge dm)" "holds_cont cfg (tj_plan job) dm2" "holds_lease cfg (tj_plan job) dm2"
    "dm_lease (unlock_lease cfg (tj_plan job) dm2) = dm_lease dm" "dm_cont (unlock_cont cfg (tj_plan job) dm2) = dm_cont dm"
  shows "case out of Answered \<Rightarrow> False
    | Raised x \<Rightarrow> untouched cfg e dm dm' \<and> (e_id e \<notin> fst ` set (bg_active (dm_bridge dm)) \<longrightarrow> bg_active (dm_bridge dm') = bg_active (dm_bridge dm)) \<and> dm_redis dm' = dm_redis dm
    | Started b \<Rightarrow> started_fully cfg e (tj_raw job) dm dm' \<and> (b \<longleftrightarrow> tj_raw job \<noteq> None)"
proof (cases "rd_starts rd")
  case True
  with assms have o: "out = Started (tj_raw job \<noteq> None)" "dm' = (set_active e dm2)\<lparr>dm_jobs := dm_jobs dm2 @ [job]\<rparr>"
    by (auto simp: start_worker_def Let_def)
  have "dm_lease (unlock_lease cfg (tj_plan job) dm') = dm_lease dm" "dm_cont (unlock_cont cfg (tj_plan job) dm') = dm_cont dm"
    using unlock_depends(2) [of dm' dm2 cfg "tj_plan job"] unlock_depends(1) [of dm' dm2 cfg "tj_plan job"] assms(9,10) o(2) by simp_all
  moreover have "map_of (bg_active (dm_bridge dm')) (e_id e) = Some e" by (simp add: o(2) set_active_def update_conv)
  moreover have "holds_cont cfg (tj_plan job) dm'" "holds_lease cfg (tj_plan job) dm'" using assms(7,8) o(2) by (simp_all add: holds_cont_def holds_lease_def)
  ultimately show ?thesis using o assms(2-5) unfolding started_fully_def by simp
next
  case False
  let ?u = "unlock_lease cfg (tj_plan job) (unlock_cont cfg (tj_plan job) (set_active e dm2))"
  have o: "out = Raised ''RuntimeError''" "dm' = release_engine rd (e_id e) (drop_active (e_id e) ?u)"
    using assms(1,2) False by (auto simp: start_worker_def Let_def)
  have "dm_lease ?u = dm_lease dm" "dm_cont ?u = dm_cont dm"
    using unlock_depends(2) [of "unlock_cont cfg (tj_plan job) (set_active e dm2)" dm2 cfg "tj_plan job"]
      unlock_depends(1) [of "set_active e dm2" dm2 cfg "tj_plan job"] assms(9,10) by simp_all
  moreover have "bg_active (dm_bridge dm') = bg_active (dm_bridge dm)" if "e_id e \<notin> fst ` set (bg_active (dm_bridge dm))"
    using o(2) assms(6) delete_fresh_update [OF that] by (simp add: drop_active_def set_active_def)
  ultimately show ?thesis using o assms(4,5) by (simp add: untouched_def)
qed

text \<open>All ends of \<open>dispatch_request\<close>.\<close>

definition dispatch_ends :: "('e, 'c, 'd) daemon_cfg \<Rightarrow> 'e reading \<Rightarrow> envelope \<Rightarrow> string option \<Rightarrow> ('e, 'c, 'd) daemon \<Rightarrow> dispatched \<Rightarrow> ('e, 'c, 'd) daemon \<Rightarrow> bool" where
  "dispatch_ends cfg rd e raw dm out dm' \<longleftrightarrow>
    (case out of
       Answered \<Rightarrow> refused_cleanly cfg rd e dm dm'
     | Raised x \<Rightarrow> untouched cfg e dm dm' \<and> (e_id e \<notin> fst ` set (bg_active (dm_bridge dm)) \<longrightarrow> bg_active (dm_bridge dm') = bg_active (dm_bridge dm)) \<and>
         dm_redis dm' = dm_redis dm
     | Started b \<Rightarrow> started_fully cfg e raw dm dm' \<and> (b \<longleftrightarrow> raw \<noteq> None))"

lemma dispatch_request_ends:
  assumes "dispatch_request cfg rd e policy raw dm = (out, dm')" "\<not> in_pool (e_id e) (dm_pool dm)"
  shows "dispatch_ends cfg rd e raw dm out dm'"
proof (cases "request_plan cfg rd e policy dm")
  case (Inl err)
  have "out = Answered" "dm' = reply_error cfg rd e err dm" using assms(1) Inl by (auto simp: dispatch_request_def)
  moreover have "refused_cleanly cfg rd e dm (reply_error cfg rd e err dm)" by (rule refusedI) (use assms(2) in \<open>simp_all add: untouched_def\<close>)
  ultimately show ?thesis by (simp add: dispatch_ends_def)
next
  case plan: (Inr plan)
  obtain c p where c: "claim_engine cfg rd e (tp_thread plan) (dm_pool dm) = (c, p)" by fastforce
  note ce = claim_engine_ends [OF c assms(2)]
  show ?thesis
  proof (cases c)
    case (Inl f)
    show ?thesis
    proof (cases f)
      case (Refuse err)
      have "out = Answered" "dm' = reply_error cfg rd e err (with_pool p dm)" using assms(1) plan c Inl Refuse by (auto simp: dispatch_request_def)
      moreover have "refused_cleanly cfg rd e dm (reply_error cfg rd e err (with_pool p dm))" by (rule refusedI) (use ce Inl in \<open>simp_all add: untouched_def\<close>)
      ultimately show ?thesis by (simp add: dispatch_ends_def)
    next
      case (Escape x)
      have "out = Raised x" "dm' = with_pool p dm" using assms(1) plan c Inl Escape by (auto simp: dispatch_request_def)
      then show ?thesis using ce Inl by (simp add: dispatch_ends_def untouched_def)
    qed
  next
    case (Inr eng)
    obtain l dm1 where l: "lock_cont cfg plan (with_pool p dm) = (l, dm1)" by fastforce
    note le = lock_cont_ends [OF l]
    show ?thesis
    proof (cases l)
      case li: (Inl err)
      let ?d = "release_engine rd (e_id e) dm1"
      have "out = Answered" "dm' = reply_error cfg rd e err ?d" using assms(1) plan c Inr l li by (auto simp: dispatch_request_def)
      moreover have "refused_cleanly cfg rd e dm (reply_error cfg rd e err ?d)" by (rule refusedI) (use le li in \<open>simp_all add: untouched_def\<close>)
      ultimately show ?thesis by (simp add: dispatch_ends_def)
    next
      case lr: (Inr u)
      obtain m dm2 where m: "lock_lease cfg plan dm1 = (m, dm2)" by fastforce
      note me = lock_lease_ends [OF m]
      show ?thesis
      proof (cases m)
        case mi: (Inl err)
        let ?d = "release_engine rd (e_id e) (unlock_cont cfg plan dm2)"
        have "out = Answered" "dm' = reply_error cfg rd e err ?d" using assms(1) plan c Inr l lr m mi by (auto simp: dispatch_request_def)
        moreover have "refused_cleanly cfg rd e dm (reply_error cfg rd e err ?d)" by (rule refusedI) (use le lr me mi in \<open>simp_all add: untouched_def\<close>)
        ultimately show ?thesis by (simp add: dispatch_ends_def)
      next
        case mr: (Inr u')
        let ?job = "\<lparr>tj_req = e, tj_policy = policy, tj_engine = eng, tj_plan = plan, tj_raw = raw\<rparr>"
        have st: "start_worker cfg rd ?job dm2 = (out, dm')" using assms(1) plan c Inr l lr m mr by (simp add: dispatch_request_def)
        have le': "holds_cont cfg plan dm1" "unlock_cont cfg plan dm1 = with_pool p dm" "dm_bridge dm1 = dm_bridge (with_pool p dm)" "dm_lease dm1 = dm_lease dm"
          "dm_jobs dm1 = dm_jobs dm" using le lr by simp_all
        have me': "holds_lease cfg plan dm2" "unlock_lease cfg plan dm2 = dm1" "dm_bridge dm2 = dm_bridge dm1" "dm_cont dm2 = dm_cont dm1" "dm_jobs dm2 = dm_jobs dm1"
          using me mr by simp_all
        have "holds_cont cfg plan dm2" "dm_lease (unlock_lease cfg plan dm2) = dm_lease dm" "dm_cont (unlock_cont cfg plan dm2) = dm_cont dm"
          using le' me' unlock_depends(1) [OF me'(4), of cfg plan] by (simp_all add: holds_cont_def)
        then show ?thesis
          using start_worker_ends [OF st, of e dm] ce Inr le' me' by (cases out) (simp_all add: dispatch_ends_def)
      qed
    qed
  qed
qed

text \<open>The two ways out of it by an exception.\<close>

lemma claim_engine_Escape:
  assumes "claim_engine cfg rd e thread p = (Inl (Escape x), p')"
  shows "(\<exists>eng. rd_spawn rd = StartRaises eng (OtherExc x)) \<or> rd_spawn rd = FactoryRaises (OtherExc x)"
  using assms
  by (auto simp: claim_engine_def pool_acquire_def Let_def split: if_splits option.splits bool.splits prod.splits sum.splits spawn.splits start_exc.splits elim!: pool_error_end.elims)

lemma dispatch_Raised:
  assumes "dispatch_request cfg rd e policy raw dm = (Raised x, dm')"
  shows "\<not> rd_starts rd \<or> (\<exists>eng. rd_spawn rd = StartRaises eng (OtherExc x)) \<or> rd_spawn rd = FactoryRaises (OtherExc x)"
proof -
  obtain plan where plan: "request_plan cfg rd e policy dm = Inr plan" using assms by (auto simp: dispatch_request_def split: sum.splits)
  obtain c p where c: "claim_engine cfg rd e (tp_thread plan) (dm_pool dm) = (c, p)" by fastforce
  show ?thesis
  proof (cases c)
    case (Inl f)
    then show ?thesis using assms plan c claim_engine_Escape [of cfg rd e "tp_thread plan" "dm_pool dm" x p]
      by (cases f) (auto simp: dispatch_request_def)
  next
    case (Inr eng)
    then show ?thesis using assms plan c
      by (auto simp: dispatch_request_def start_worker_def Let_def split: prod.splits sum.splits if_splits)
  qed
qed

text \<open>The end of a turn.\<close>

lemma expire_after_turn_ends:
  assumes "expire_after_turn cfg rd plan dm = (res, dm')"
  shows "dm_bridge dm' = dm_bridge dm" "dm_cont dm' = dm_cont dm" "dm_jobs dm' = dm_jobs dm"
    "tp_lease plan = Some r \<Longrightarrow> lease_path (dc_lease cfg) (l_id r) \<notin> wl_locks (dm_lease dm')" "tp_lease plan = None \<Longrightarrow> res = Inr () \<and> dm' = dm"
  using assms by (auto simp: expire_after_turn_def unlock_lease_def release_lease_def split: option.splits prod.splits)

lemma drop_task_parts:
  "bg_pool (drop_task cfg rd t b) = bg_pool b" "t \<notin> fst ` set (bg_active (drop_task cfg rd t b))" "t \<notin> fst ` set (bg_task_engines (drop_task cfg rd t b))"
  "t \<notin> bg_cancelled (drop_task cfg rd t b)"
  by (simp_all add: drop_task_def clear_stall_status_def keys_delete)

lemma ack_processing_pool [simp]: "bg_pool (ack_processing cfg rd raw b) = bg_pool b"
  by (simp add: ack_processing_def split: option.splits)

definition freed :: "('e, 'c, 'd) daemon_cfg \<Rightarrow> 'e turn_job \<Rightarrow> ('e, 'c, 'd) daemon \<Rightarrow> bool" where
  "freed cfg job dm \<longleftrightarrow> (let task = e_id (tj_req job); b = dm_bridge dm in
     \<not> in_pool task (bg_pool b) \<and> task \<notin> fst ` set (bg_active b) \<and> task \<notin> fst ` set (bg_task_engines b) \<and> task \<notin> bg_cancelled b \<and>
     (\<forall>r. tp_lease (tj_plan job) = Some r \<longrightarrow> lease_path (dc_lease cfg) (l_id r) \<notin> wl_locks (dm_lease dm)) \<and>
     (\<forall>th. cont_session (tj_plan job) = Some th \<longrightarrow> cont_path (cc_sha (dc_cont cfg)) th \<notin> cs_locks (dm_cont dm)))"

lemma unlock_cont_gone: "cont_session plan = Some th \<Longrightarrow> cont_path (cc_sha (dc_cont cfg)) th \<notin> cs_locks (dm_cont (unlock_cont cfg plan dm))"
  by (simp add: unlock_cont_def cont_release_def)

lemma end_turn_ends:
  assumes "end_turn cfg rd made preserve job dm = (res, dm')"
  shows "case res of Inr u \<Rightarrow> freed cfg job dm' | Inl x \<Rightarrow> tp_lease (tj_plan job) \<noteq> None \<and> dm_bridge dm' = dm_bridge dm"
proof -
  let ?plan = "tj_plan job" and ?t = "e_id (tj_req job)" and ?dm1 = "unlock_cont cfg (tj_plan job) dm"
  let ?dm2 = "(case tp_spec ?plan of
                  Some sp \<Rightarrow> (if made \<and> \<not> is_scored_request (tj_req job) \<and> ws_cleanup sp = ''auto'' \<and> \<not> preserve
                             then ?dm1\<lparr>dm_lease := remove_worktree (dc_lease cfg) (ws_name sp) (dm_lease ?dm1)\<rparr> else ?dm1)
                | None \<Rightarrow> ?dm1)"
  have two: "dm_bridge ?dm2 = dm_bridge dm" "dm_cont ?dm2 = dm_cont ?dm1" by (simp_all split: option.splits)
  obtain x dm3 where x: "expire_after_turn cfg rd ?plan ?dm2 = (x, dm3)" by fastforce
  note e = expire_after_turn_ends [OF x]
  show ?thesis
  proof (cases x)
    case (Inl y)
    then have "res = Inl y" "dm' = dm3" using assms x by (auto simp: end_turn_def Let_def)
    with e Inl two show ?thesis by (cases "tp_lease ?plan") auto
  next
    case (Inr u)
    let ?dm4 = "release_engine rd ?t dm3"
    have r: "res = Inr ()" "dm' = ?dm4\<lparr>dm_bridge := drop_task cfg rd ?t (ack_processing cfg rd (tj_raw job) (dm_bridge ?dm4))\<rparr>"
      using assms x Inr by (auto simp: end_turn_def Let_def)
    have "cont_path (cc_sha (dc_cont cfg)) th \<notin> cs_locks (dm_cont dm')" if "cont_session ?plan = Some th" for th
      using unlock_cont_gone [OF that, of cfg dm] e(2) two(2) r(2) by simp
    moreover have "lease_path (dc_lease cfg) (l_id q) \<notin> wl_locks (dm_lease dm')" if "tp_lease ?plan = Some q" for q
      using e(4) [OF that] r(2) by simp
    moreover have "\<not> in_pool ?t (dm_pool dm')" using r(2) by (simp add: drop_task_parts(1))
    ultimately show ?thesis using r drop_task_parts(2-4) [of ?t cfg rd] by (simp add: freed_def Let_def)
  qed
qed

lemma unlock_cont_lease: "(unlock_cont cfg plan dm)\<lparr>dm_lease := dm_lease dm\<rparr> = unlock_cont cfg plan dm"
  by (cases "cont_session plan") (simp_all add: unlock_cont_def)

lemma end_turn_stuck:
  assumes "tp_lease (tj_plan job) = Some r" "tp_spec (tj_plan job) = None" "l_id r \<noteq> []"
    "map_of (wl_files (dm_lease dm)) (lease_path (dc_lease cfg) (l_id r)) = Some (LeaseFile s u)" "l_id s = l_id r" "l_state s = ''armed''"
    "l_expires s \<le> rd_time rd" "l_name s \<in> wl_trees (dm_lease dm)" "\<not> le_remove_ok (dc_lease cfg) (l_name s)"
  shows "end_turn cfg rd made preserve job dm =
    (Inl ''worktree-lease-reclaim-failed'', unlock_lease cfg (tj_plan job) (unlock_cont cfg (tj_plan job) dm))"
  using assms
  by (simp add: end_turn_def Let_def expire_after_turn_def bind_m_def load_def reclaim_leased_worktree_def remove_worktree_def is_registered_def unlock_cont_lease)

text \<open>What the durable result of an operation holds.\<close>

lemma map_of_merge: "distinct (map fst d') \<Longrightarrow> map_of (dict_merge d d') k = (case map_of d' k of None \<Rightarrow> map_of d k | Some v \<Rightarrow> Some v)"
proof (induction d' arbitrary: d)
  case (Cons kv d')
  obtain x v where kv: "kv = (x, v)" by fastforce
  have "dict_merge d (kv # d') = dict_merge (AList.update x v d) d'" by (simp add: dict_merge_def kv)
  moreover have "map_of d' x = None" using Cons.prems kv by (simp add: map_of_eq_None_iff)
  ultimately show ?case using Cons kv by (auto simp: update_conv split: option.splits)
qed (simp add: dict_merge_def)

lemma echo_keys: "distinct (map fst (timeout_echo_fields p b))" "fst ` set (timeout_echo_fields p b) \<subseteq> {''turn_timeout_requested'', ''turn_timeout_served''}"
  by (auto simp: timeout_echo_fields_def)

lemma payload_get:
  assumes "distinct (map fst extra)" "k \<notin> {''turn_timeout_requested'', ''turn_timeout_served'', ''structured''}"
  shows "map_of (task_result_payload cfg stamp req r summary structured extra) k =
    (case map_of extra k of Some v \<Rightarrow> Some v | None \<Rightarrow> map_of (result_base cfg stamp req r summary) k)"
proof -
  have "map_of (timeout_echo_fields (e_payload req) True) k = None"
    unfolding map_of_eq_None_iff using echo_keys(2) [of "e_payload req" True] assms(2) by blast
  then show ?thesis using assms unfolding task_result_payload_def Let_def
    by (simp add: map_of_merge echo_keys(1) update_conv split: option.splits)
qed

lemma payload_wf:
  assumes "json_wf (JObj (e_payload req))" "result_wf r" "json_wf structured" "list_all (\<lambda>(k, v). json_wf v) extra"
  shows "json_wf (JObj (task_result_payload cfg stamp req r summary structured extra))"
proof -
  have t: "json_wf (dget (e_payload req) ''turn_timeout'')"
  proof (cases "map_of (e_payload req) ''turn_timeout''")
    case (Some v)
    then have "(''turn_timeout'', v) \<in> set (e_payload req)" by (rule map_of_SomeD)
    from json_wf_member [OF assms(1) this] Some show ?thesis by simp
  qed (simp add: dget_def)
  have "json_wf (JObj (result_base cfg stamp req r summary))"
    using assms(2) by (simp add: result_base_def result_wf_def json_wf_Cons wf_empty del: json_wf.simps(3))
  moreover have "list_all (\<lambda>(k, v). json_wf v) (timeout_echo_fields (e_payload req) True)" using t by (simp add: timeout_echo_fields_def)
  ultimately have "json_wf (JObj (dict_merge (dict_merge (result_base cfg stamp req r summary) (timeout_echo_fields (e_payload req) True)) extra))"
    by (intro wf_merge assms(4))
  then show ?thesis unfolding task_result_payload_def Let_def using wf_update [OF _ assms(3)] by (simp del: json_wf.simps(3))
qed

text \<open>Extra fields that a replay carries over, in its order.\<close>

definition replayable :: "dict \<Rightarrow> bool" where
  "replayable extra \<longleftrightarrow> distinct (map fst extra) \<and> map (\<lambda>k. (k, dget extra k)) (filter (dhas extra) replay_keys) = extra \<and> list_all (\<lambda>(k, v). json_wf v) extra"

definition plain_result :: "turn_result \<Rightarrow> bool" where
  "plain_result r \<longleftrightarrow> (\<exists>s. s \<noteq> [] \<and> r = succeeded s) \<or> (\<exists>err. r = failed err)"

lemma replay_payload:
  assumes "plain_result r" "replayable extra" "json_wf (JObj (e_payload e))"
    "durable = json_dumps json_compact (JObj (task_result_payload cfg stamp e r summary JNull extra))"
  shows "replay_durable_lifecycle_result cfg' mo e durable b = send_reply cfg' mo e r JNull False extra b"
proof -
  let ?P = "task_result_payload cfg stamp e r summary JNull extra"
  have ex: "distinct (map fst extra)" "list_all (\<lambda>(k, v). json_wf v) extra" "map (\<lambda>k. (k, dget extra k)) (filter (dhas extra) replay_keys) = extra"
    using assms(2) unfolding replayable_def by blast+
  have "fst ` set extra \<subseteq> set replay_keys"
  proof -
    have "fst ` set (map (\<lambda>k. (k, dget extra k)) (filter (dhas extra) replay_keys)) \<subseteq> set replay_keys" by auto
    then show ?thesis unfolding ex(3) .
  qed
  then have none: "map_of extra k = None" if "k \<notin> set replay_keys" for k using that by (auto simp: map_of_eq_None_iff)
  have "result_wf r" using assms(1) by (auto simp: plain_result_def result_wf_def succeeded_def failed_def)
  with assms(3) ex(2) have "json_wf (JObj ?P)" by (intro payload_wf) simp_all
  then have loads: "json_loads durable = Some (JObj ?P)"
    unfolding assms(4) using json_loads_dumps [OF cont_style_ok] by (simp add: json_norm_def json_compact_def)
  have base: "dget ?P ''ok'' = JBool (tr_ok r)" "dget ?P ''result'' = JStr (tr_result r)" "dget ?P ''error'' = tr_error r"
    using none [of "''ok''"] none [of "''result''"] none [of "''error''"] unfolding dget_def
    by (simp_all add: payload_get [OF ex(1)] replay_keys_def result_base_def)
  have same: "map_of ?P k = map_of extra k" if "k \<in> set replay_keys" for k
    using that by (auto simp: payload_get [OF ex(1)] replay_keys_def result_base_def split: option.splits)
  then have "filter (dhas ?P) replay_keys = filter (dhas extra) replay_keys" by (intro filter_cong) (simp_all add: dhas_def)
  moreover have "dget ?P k = dget extra k" if "k \<in> set replay_keys" for k using same [OF that] by (simp add: dget_def)
  ultimately have extras: "map (\<lambda>k. (k, dget ?P k)) (filter (dhas ?P) replay_keys) = extra" by (subst (2) ex(3) [symmetric]) (intro map_cong, auto)
  have res: "\<lparr>tr_ok = tr_ok r, tr_result = (if py_truth (JStr (tr_result r)) then py_str (JStr (tr_result r)) else []),
      tr_error = (if tr_ok r then JNull else tr_error r), tr_completion = JNull, tr_thread_id = JNull\<rparr> = r"
    using assms(1) by (auto simp: plain_result_def succeeded_def failed_def py_truth_def py_str_def)
  have ok: "py_truth (JBool (tr_ok r)) = tr_ok r" by (simp add: py_truth_def)
  show ?thesis unfolding replay_durable_lifecycle_result_def loads option.case json.case Let_def ok base extras res by (rule refl)
qed

lemma lpush_str: "rd_str (lpush c now a body s) k = Some v \<Longrightarrow> rd_str s k = Some v"
  by (auto simp: lpush_def r_list_def purge_def Let_def split: if_splits)

lemma get_str_Some: "get_str now k s = Some v \<Longrightarrow> rd_str s k = Some v"
  by (auto simp: get_str_def purge_def or_none_def split: option.splits if_splits list.splits)

text \<open>An operation answers with the result it has stored, or, when the lane store cannot be reached, with an error that is not stored.\<close>

lemma operation_result_True:
  assumes "operation_result cfg rd e r extra dm = (Inr True, dm')"
  shows "\<exists>b0. dm_bridge dm' = send_reply (dc_bridge cfg) (rd_mo rd) e r JNull False extra
      (write_task_result (dc_bridge cfg) (le_result_ttl (dc_lease cfg)) (rd_mo rd) (rd_iso rd) e r (summarize (result_text r)) JNull extra b0)"
proof -
  obtain x b0 where f: "finish_task_status (dc_bridge cfg) (rd_mo rd) e r (summarize (result_text r)) (dm_bridge dm) = (x, b0)" by fastforce
  show ?thesis
  proof (cases x)
    case (Inr u)
    with assms f show ?thesis by (intro exI [of _ b0]) (auto simp: operation_result_def Let_def)
  qed (use assms f in \<open>simp add: operation_result_def Let_def\<close>)
qed

lemma operation_result_ends:
  assumes "operation_result cfg rd e r extra dm = (Inr True, dm')" "get_str now2 (task_result_key (bc_redis (dc_bridge cfg)) (e_id e)) (dm_redis dm') = Some durable"
    "plain_result r" "replayable extra" "json_wf (JObj (e_payload e))"
  shows "(\<exists>b1. dm_bridge dm' = send_reply (dc_bridge cfg) (rd_mo rd) e r JNull False extra b1) \<and>
    replay_durable_lifecycle_result cfg2 mo2 e durable b = send_reply cfg2 mo2 e r JNull False extra b"
proof -
  let ?c = "dc_bridge cfg"
  obtain b0 where w: "dm_bridge dm' = send_reply ?c (rd_mo rd) e r JNull False extra
      (write_task_result ?c (le_result_ttl (dc_lease cfg)) (rd_mo rd) (rd_iso rd) e r (summarize (result_text r)) JNull extra b0)"
    using operation_result_True [OF assms(1)] by blast
  have "rd_str (dm_redis dm') (task_result_key (bc_redis ?c) (e_id e)) = Some durable" by (rule get_str_Some [OF assms(2)])
  then have "durable = json_dumps json_compact (JObj (task_result_payload ?c (rd_iso rd) e r (summarize (result_text r)) JNull extra))"
    unfolding w send_reply_def push_reply_simps(1) by (auto dest!: lpush_str simp: write_task_result_def set_key_def r_set_def)
  from replay_payload [OF assms(3-5) this] w show ?thesis by blast
qed

lemma arm_fields_replayable: "json_wf (JFloat (dc_float cfg (l_expires r))) \<Longrightarrow> replayable (arm_success_fields cfg r)"
  by (simp add: replayable_def arm_success_fields_def replay_keys_def)

text \<open>What is known of a request that the front admits.\<close>

lemma front_Admitted:
  assumes "handle_raw_front cfg mo msg st = (Admitted e policy, st')"
  shows "from_json (bc_ref_required cfg) msg = Inr e" "e_recipient e = bc_agent_id cfg" "e_sender e \<noteq> bc_agent_id cfg" "e_kind e = ''request''"
    "policy = policy_of cfg (e_sender e)" "policy \<noteq> ''reject''" "validate_requested_turn_timeout cfg (e_payload e) policy = None" "gate_passed cfg e st"
    "is_duplicate mo (e_id e) (bg_seen st) = (False, bg_seen st')" "check_usage_budget cfg mo st = Inr None" "bg_redis st' = bg_redis st"
proof -
  note parsed = front_admitted(1) [OF assms] and request = front_admitted(2) [OF assms]
  have "\<exists>st1. policy_of cfg (e_sender e) \<noteq> ''reject'' \<and> validate_requested_turn_timeout cfg (e_payload e) (policy_of cfg (e_sender e)) = None \<and> gate_passed cfg e st \<and>
      bg_redis st1 = bg_redis st \<and> bg_seen st1 = bg_seen st \<and> request_tail cfg mo e (policy_of cfg (e_sender e)) st1 = (Admitted e policy, st')"
    using request by (cases rule: handle_request_cases) auto
  then obtain st1 where t: "policy_of cfg (e_sender e) \<noteq> ''reject''" "validate_requested_turn_timeout cfg (e_payload e) (policy_of cfg (e_sender e)) = None" "gate_passed cfg e st"
      "bg_redis st1 = bg_redis st" "bg_seen st1 = bg_seen st" "request_tail cfg mo e (policy_of cfg (e_sender e)) st1 = (Admitted e policy, st')" by blast
  from t(6) have "policy = policy_of cfg (e_sender e) \<and> is_duplicate mo (e_id e) (bg_seen st1) = (False, bg_seen st') \<and> check_usage_budget cfg mo st1 = Inr None \<and>
      bg_redis st' = bg_redis st1" by (cases rule: request_tail_cases) auto
  with t parsed show "from_json (bc_ref_required cfg) msg = Inr e" "e_recipient e = bc_agent_id cfg" "e_sender e \<noteq> bc_agent_id cfg" "e_kind e = ''request''"
    "policy = policy_of cfg (e_sender e)" "policy \<noteq> ''reject''" "validate_requested_turn_timeout cfg (e_payload e) policy = None" "gate_passed cfg e st"
    "is_duplicate mo (e_id e) (bg_seen st) = (False, bg_seen st')" "check_usage_budget cfg mo st = Inr None" "bg_redis st' = bg_redis st"
    by (auto simp: check_usage_budget_def)
qed

text \<open>A started worker comes from a request that passed the front, and that is not a life-cycle operation.\<close>

lemma handle_admitted_Started:
  assumes "handle_admitted cfg rd e policy raw dm = (Started b, dm')"
  shows "\<not> is_lifecycle e" "dispatch_request cfg rd e policy raw dm = (Started b, dm')"
proof -
  have op: "fst (operation_result cfg rd e r extra d) \<noteq> Inr False" for r extra d
    by (auto simp: operation_result_def Let_def split: prod.splits sum.splits)
  have "handle_worktree_operation cfg rd e policy dm = (Inr False, snd (handle_worktree_operation cfg rd e policy dm))"
    using assms by (auto simp: handle_admitted_def split: prod.splits sum.splits bool.splits)
  then have "fst (handle_worktree_operation cfg rd e policy dm) = Inr False" by (metis fst_conv)
  then show "\<not> is_lifecycle e"
    by (auto simp: handle_worktree_operation_def op Let_def split: if_splits prod.splits sum.splits wt_exc.splits op_end.splits)
  then have "handle_worktree_operation cfg rd e policy dm = (Inr False, dm)" by (simp add: handle_worktree_operation_def)
  with assms show "dispatch_request cfg rd e policy raw dm = (Started b, dm')" by (simp add: handle_admitted_def)
qed

lemma dispatch_Started:
  assumes "dispatch_request cfg rd e policy raw dm = (Started b, dm')"
  shows "\<exists>job. request_plan cfg rd e policy dm = Inr (tj_plan job) \<and> dm_jobs dm' = dm_jobs dm @ [job] \<and> tj_req job = e \<and> tj_policy job = policy"
proof -
  obtain plan where plan: "request_plan cfg rd e policy dm = Inr plan" using assms by (auto simp: dispatch_request_def split: sum.splits)
  obtain c p where c: "claim_engine cfg rd e (tp_thread plan) (dm_pool dm) = (c, p)" by fastforce
  obtain l dm1 where l: "lock_cont cfg plan (with_pool p dm) = (l, dm1)" by fastforce
  obtain m dm2 where m: "lock_lease cfg plan dm1 = (m, dm2)" by fastforce
  note d = assms [unfolded dispatch_request_def plan sum.case c prod.case l m]
  obtain eng u u' where r: "c = Inr eng" "l = Inr u" "m = Inr u'" using d by (auto simp: l m split: sum.splits engine_fail.splits)
  let ?job = "\<lparr>tj_req = e, tj_policy = policy, tj_engine = eng, tj_plan = plan, tj_raw = raw\<rparr>"
  have "start_worker cfg rd ?job dm2 = (Started b, dm')" using d r by (simp add: l m)
  then have "dm_jobs dm' = dm_jobs dm2 @ [?job]" by (auto simp: start_worker_def Let_def split: if_splits)
  moreover have "dm_jobs dm2 = dm_jobs dm" using lock_cont_ends [OF l] lock_lease_ends [OF m] r by simp
  ultimately show ?thesis using plan by (intro exI [of _ ?job]) simp
qed

lemma planned_lease:
  assumes "request_plan cfg rd e policy dm = Inr plan" "tp_lease plan = Some r"
  shows "policy = ''trusted'' \<and> l_sender r = e_sender e \<and> l_state r = ''armed'' \<and> rd_time rd < l_expires r"
proof -
  have "lease_for cfg rd e policy dm = Inr (Some r)"
    using assms by (auto simp: request_plan_def Let_def bind_r_def split: sum.splits)
  then have "fst (validate_worktree_lease (dc_lease cfg) (rd_time rd) e policy False (dm_lease dm)) = Inr r"
    by (auto simp: lease_for_def split: if_splits sum.splits)
  then have "\<exists>v. validate_worktree_lease (dc_lease cfg) (rd_time rd) e policy False (dm_lease dm) = (Inr r, v)" by (metis prod.collapse)
  then show ?thesis unfolding validate_iff by blast
qed

section \<open>Examples\<close>

definition demo_daemon_cfg :: "(nat, conn, lane_row list) daemon_cfg" where
  "demo_daemon_cfg = \<lparr>dc_bridge = demo_bridge_cfg, dc_lease = demo_lease_env, dc_cont = demo_cont_cfg\<lparr>cc_engine := ''codex''\<rparr>,
     dc_cells = \<lparr>cf_resolve = (\<lambda>_. None), cf_symlink = (\<lambda>_. False), cf_dir = (\<lambda>_. False), cf_base = ''/cells''\<rparr>, dc_owner = ''tok'', dc_path = (\<lambda>n. ''/w/'' @ n),
     dc_float = (\<lambda>_. ''0.5'')\<rparr>"

definition demo_daemon :: "(nat, conn, lane_row list) daemon" where
  "demo_daemon = \<lparr>dm_bridge = demo_bridge, dm_lease = demo_store, dm_cont = \<lparr>cs_files = [], cs_locks = {}\<rparr>, dm_jobs = []\<rparr>"

definition demo_reading :: "nat reading" where
  "demo_reading = \<lparr>rd_mo = demo_moment 5, rd_time = 20, rd_lid = ''M'', rd_iso = ''now'',
     rd_at = (\<lambda>_. \<lparr>ea_thread_id = None, ea_session_id = None, ea_healthy = None, ea_retire = False, ea_stoppable = True\<rparr>), rd_spawn = SpawnOk 3, rd_starts = True\<rparr>"

definition demo_run :: envelope where
  "demo_run = demo_envelope_req\<lparr>e_payload := [(''operation'', JStr ''worktree_run''), (''worktree_lease'', JStr ''L'')]\<rparr>"

lemma demo_dispatch: "fst (dispatch_request demo_daemon_cfg demo_reading demo_run ''trusted'' None demo_daemon) = Started False"
  by code_simp

lemma demo_sendable: "sendable demo_daemon_cfg demo_reading demo_run"
  by (simp add: sendable_def can_send_def demo_daemon_cfg_def demo_bridge_cfg_def demo_reading_def demo_moment_def demo_run_def demo_envelope_req_def)

definition demo_job :: "nat turn_job" where
  "demo_job = \<lparr>tj_req = demo_run, tj_policy = ''trusted'', tj_engine = Some 3,
     tj_plan = \<lparr>tp_spec = None, tp_cell = None, tp_lease = Some demo_lease, tp_thread = None, tp_cont = None\<rparr>, tj_raw = None\<rparr>"

section \<open>Properties\<close>

text \<open>C1: No turn starts unchecked. When the handler starts a worker for a message, the message parses to a request for this seat from another agent whose policy is not \<open>reject\<close>, its time limit is within bounds, it is not a
  life-cycle operation, it is no duplicate, the budget is not used up, and with the claim gate on, the tables behind the PostgreSQL resolver admit it; a lease the turn runs in is armed, unexpired, and was armed by
  this trusted sender.\<close>

theorem started_turn_was_checked:
  assumes "handle_raw cfg rd msg raw dm = (Started b, dm')" and "bc_resolver (dc_bridge cfg) \<in> {None, Some (psycopg_resolver db schema)}"
  shows "\<exists>e pol job. from_json (bc_ref_required (dc_bridge cfg)) msg = Inr e \<and> e_recipient e = bc_agent_id (dc_bridge cfg) \<and> e_sender e \<noteq> bc_agent_id (dc_bridge cfg) \<and>
    e_kind e = ''request'' \<and> pol = policy_of (dc_bridge cfg) (e_sender e) \<and> pol \<noteq> ''reject'' \<and> \<not> is_lifecycle e \<and>
    (dhas (e_payload e) ''turn_timeout'' \<longrightarrow>
       pol = ''trusted'' \<and> (\<exists>n. dget (e_payload e) ''turn_timeout'' = JInt n \<and> 0 < n \<and> n \<le> bc_turn_timeout_max (dc_bridge cfg))) \<and>
    (bc_gate_enabled (dc_bridge cfg) \<longrightarrow>
       gate_spec (posture_tab db schema) (lane_tab db schema) (claim_tab db schema) (bc_agent_id (dc_bridge cfg)) (e_payload e) = ''admit'') \<and>
    \<not> fst (is_duplicate (rd_mo rd) (e_id e) (bg_seen (dm_bridge dm))) \<and> check_usage_budget (dc_bridge cfg) (rd_mo rd) (dm_bridge dm) = Inr None \<and>
    dm_jobs dm' = dm_jobs dm @ [job] \<and> tj_req job = e \<and> tj_policy job = pol \<and>
    (\<forall>r. tp_lease (tj_plan job) = Some r \<longrightarrow> pol = ''trusted'' \<and> l_sender r = e_sender e \<and> l_state r = ''armed'' \<and> rd_time rd < l_expires r)"
proof -
  obtain e pol st where f: "handle_raw_front (dc_bridge cfg) (rd_mo rd) msg (dm_bridge dm) = (Admitted e pol, st)"
    and h: "handle_admitted cfg rd e pol raw (dm\<lparr>dm_bridge := st\<rparr>) = (Started b, dm')"
    using assms(1) by (auto simp: handle_raw_def split: prod.splits front.splits)
  note a = front_Admitted [OF f] and s = handle_admitted_Started [OF h]
  from dispatch_Started [OF s(2)] obtain job where job: "request_plan cfg rd e pol (dm\<lparr>dm_bridge := st\<rparr>) = Inr (tj_plan job)" "dm_jobs dm' = dm_jobs dm @ [job]" "tj_req job = e"
      "tj_policy job = pol" by auto
  have gate: "gate_spec (posture_tab db schema) (lane_tab db schema) (claim_tab db schema) (bc_agent_id (dc_bridge cfg)) (e_payload e) = ''admit''"
    if "bc_gate_enabled (dc_bridge cfg)"
  proof -
    from a(8) s(1) that assms(2) have "ge_outcome (fst (evaluate (psycopg_resolver db schema) (bc_agent_id (dc_bridge cfg)) e (bg_conn (dm_bridge dm)))) = None"
      by (auto simp: gate_passed_def)
    then show ?thesis by (rule psycopg.admission_rests_on_tables)
  qed
  show ?thesis
    using a(1-6,9,10) s(1) job gate turn_timeout_checked [OF a(7)] planned_lease [OF job(1)]
    by (intro exI [of _ e] exI [of _ pol] exI [of _ job]) simp
qed

theorem started_turn_was_checked_witness:
  "\<exists>e. from_json (bc_ref_required demo_bridge_cfg) (to_json demo_envelope_req) = Inr e \<and> policy_of demo_bridge_cfg (e_sender e) \<noteq> ''reject''"
proof -
  let ?dm = "demo_daemon\<lparr>dm_bridge := demo_bridge\<lparr>bg_seen := [(5, ''m1'')]\<rparr>\<rparr>"
  have "fst (handle_admitted demo_daemon_cfg demo_reading demo_envelope_req ''trusted'' None ?dm) = Started False" by code_simp
  moreover have "handle_raw_front demo_bridge_cfg (demo_moment 5) (to_json demo_envelope_req) demo_bridge = (Admitted demo_envelope_req ''trusted'', demo_bridge\<lparr>bg_seen := [(5, ''m1'')]\<rparr>)"
    using demo_front .
  ultimately have "fst (handle_raw demo_daemon_cfg demo_reading (to_json demo_envelope_req) None demo_daemon) = Started False"
    by (simp add: handle_raw_def demo_daemon_cfg_def demo_reading_def demo_daemon_def)
  then obtain dm' where h: "handle_raw demo_daemon_cfg demo_reading (to_json demo_envelope_req) None demo_daemon = (Started False, dm')" by (metis prod.collapse)
  have "bc_resolver (dc_bridge demo_daemon_cfg) \<in> {None, Some (psycopg_resolver demo_gate_db ''public'')}" by (simp add: demo_daemon_cfg_def demo_bridge_cfg_def)
  from started_turn_was_checked [OF h this] show ?thesis by (auto simp: demo_daemon_cfg_def)
qed

text \<open>C3: An admitted request is started with everything it needs, or left without a trace. If the worker is started, the request holds an engine of the pool, is listed as active, and holds the locks of its continuation
  and of its lease, which are the only changes, and nothing was sent. If it is refused, exactly one reply that parses reached its sender, the leases, continuations, jobs and active requests are as before, and no place in the
  pool is held. An exception leaves the handler only if the thread cannot be started, or if the engine's factory or \<open>start()\<close> raised something else than an
  \<open>EngineError\<close>: then everything but the idle engines is as before and no reply was sent.\<close>

theorem dispatch_all_or_nothing:
  assumes "dispatch_request cfg rd e policy raw dm = (out, dm')" and "e_id e \<notin> fst ` set (pl_busy (dm_pool dm))" and "e_id e \<notin> fst ` set (bg_active (dm_bridge dm))" and "sendable cfg rd e"
  shows "case out of
      Started b \<Rightarrow> (b \<longleftrightarrow> raw \<noteq> None) \<and> dm_redis dm' = dm_redis dm \<and> e_id e \<in> fst ` set (pl_busy (dm_pool dm')) \<and>
        map_of (bg_active (dm_bridge dm')) (e_id e) = Some e \<and>
        (\<exists>job. dm_jobs dm' = dm_jobs dm @ [job] \<and> tj_req job = e \<and> holds_cont cfg (tj_plan job) dm' \<and> holds_lease cfg (tj_plan job) dm' \<and>
           dm_lease (unlock_lease cfg (tj_plan job) dm') = dm_lease dm \<and> dm_cont (unlock_cont cfg (tj_plan job) dm') = dm_cont dm)
    | Answered \<Rightarrow> answered (dc_bridge cfg) (rd_mo rd) (e_sender e) (e_id e) (dm_redis dm) (dm_redis dm') \<and> dm_lease dm' = dm_lease dm \<and> dm_cont dm' = dm_cont dm \<and>
        dm_jobs dm' = dm_jobs dm \<and> bg_active (dm_bridge dm') = bg_active (dm_bridge dm) \<and> e_id e \<notin> fst ` set (pl_busy (dm_pool dm'))
    | Raised x \<Rightarrow> dm_redis dm' = dm_redis dm \<and> dm_lease dm' = dm_lease dm \<and> dm_cont dm' = dm_cont dm \<and> dm_jobs dm' = dm_jobs dm \<and>
        bg_active (dm_bridge dm') = bg_active (dm_bridge dm) \<and> e_id e \<notin> fst ` set (pl_busy (dm_pool dm')) \<and>
        (\<not> rd_starts rd \<or> (\<exists>eng. rd_spawn rd = StartRaises eng (OtherExc x)) \<or> rd_spawn rd = FactoryRaises (OtherExc x))"
proof -
  have "dispatch_ends cfg rd e raw dm out dm'" by (rule dispatch_request_ends [OF assms(1)]) (use assms(2) in \<open>simp add: in_pool_def\<close>)
  moreover have "\<not> rd_starts rd \<or> (\<exists>eng. rd_spawn rd = StartRaises eng (OtherExc x)) \<or> rd_spawn rd = FactoryRaises (OtherExc x)" if "out = Raised x" for x
    using dispatch_Raised assms(1) that by blast
  ultimately show ?thesis using assms(3,4)
    by (cases out) (auto simp: dispatch_ends_def refused_cleanly_def untouched_def started_fully_def in_pool_def)
qed

theorem dispatch_all_or_nothing_witness:
  "''m1'' \<in> fst ` set (pl_busy (dm_pool (snd (dispatch_request demo_daemon_cfg demo_reading demo_run ''trusted'' None demo_daemon))))"
proof -
  obtain dm' where d: "dispatch_request demo_daemon_cfg demo_reading demo_run ''trusted'' None demo_daemon = (Started False, dm')" using demo_dispatch by (metis prod.collapse)
  have "e_id demo_run \<notin> fst ` set (pl_busy (dm_pool demo_daemon))" "e_id demo_run \<notin> fst ` set (bg_active (dm_bridge demo_daemon))"
    by (simp_all add: demo_daemon_def demo_bridge_def demo_run_def demo_envelope_req_def)
  from dispatch_all_or_nothing [OF d this demo_sendable] have "e_id demo_run \<in> fst ` set (pl_busy (dm_pool dm'))" by simp
  with d show ?thesis by (simp add: demo_run_def demo_envelope_req_def)
qed

text \<open>What a life-cycle request leaves: its reply, and either a durable result from which every redelivery answers the same reply, or, when the lane store cannot be reached, no trace in the filter of
  duplicates, so that a redelivery is tried again.\<close>

definition settled :: "('e, 'c, 'd) daemon_cfg \<Rightarrow> 'e reading \<Rightarrow> envelope \<Rightarrow> ('e, 'c, 'd) daemon \<Rightarrow> bool" where
  "settled cfg rd e dm' \<longleftrightarrow> (\<exists>r extra b1. dm_bridge dm' = send_reply (dc_bridge cfg) (rd_mo rd) e r JNull False extra b1 \<and>
    ((\<forall>now durable (cfg2 :: ('e, 'c) bridge_cfg) mo2 b. get_str now (task_result_key (bc_redis (dc_bridge cfg)) (e_id e)) (dm_redis dm') = Some durable \<longrightarrow>
        replay_durable_lifecycle_result cfg2 mo2 e durable b = send_reply cfg2 mo2 e r JNull False extra b) \<or>
     (r = failed ''worktree-lane-store-unreachable'' \<and> e_id e \<notin> snd ` set (bg_seen (dm_bridge dm')))))"

lemma plain_results: "plain_result (failed x)" "plain_result (succeeded ''worktree armed'')" "plain_result (succeeded ''worktree released'')"
  by (auto simp: plain_result_def)

lemma replayable_extras:
  assumes "\<And>x. json_wf (JFloat (dc_float cfg x))"
  shows "replayable []" "replayable [(''lease_id'', JStr x)]" "replayable (arm_success_fields cfg y)"
  using arm_fields_replayable [OF assms] by (simp_all add: replayable_def replay_keys_def)

lemma operation_settled:
  assumes "operation_result cfg rd e r extra dm1 = (Inr True, dm')" "plain_result r" "replayable extra" "json_wf (JObj (e_payload e))"
  shows "settled cfg rd e dm'"
proof -
  from operation_result_True [OF assms(1)] obtain b1 where "dm_bridge dm' = send_reply (dc_bridge cfg) (rd_mo rd) e r JNull False extra b1" by blast
  then show ?thesis unfolding settled_def using operation_result_ends [OF assms(1) _ assms(2-4)] by blast
qed

lemma lease_operation_settled:
  assumes h: "handle_worktree_operation cfg rd e ''trusted'' dm = (Inr True, dm')" and d: "is_lifecycle e" "\<not> is_scored_request e"
    and wf: "json_wf (JObj (e_payload e))" "\<And>x. json_wf (JFloat (dc_float cfg x))"
  shows "settled cfg rd e dm'"
proof -
  note st = operation_settled [OF _ _ _ wf(1)] and ex = replayable_extras [OF wf(2)]
  obtain res w where l: "lease_operation (dc_lease cfg) (rd_time rd) (rd_lid rd) e ''trusted'' (dm_lease dm) = (res, w)" by fastforce
  note h' = h handle_worktree_operation_def [of cfg rd e "''trusted''" dm, unfolded l Let_def prod.case]
  show ?thesis
  proof (cases res)
    case (Inl x)
    show ?thesis
    proof (cases x)
      case (LaneStoreUnreachable y)
      let ?b = "(dm_bridge dm)\<lparr>bg_seen := filter (\<lambda>(_, i). i \<noteq> e_id e) (bg_seen (dm_bridge dm))\<rparr>"
      have sent: "dm_bridge dm' = send_reply (dc_bridge cfg) (rd_mo rd) e (failed ''worktree-lane-store-unreachable'') JNull False [] ?b"
        using h' d Inl LaneStoreUnreachable by (auto simp: reply_error_def refuse_request_def send_reply_def push_reply_def)
      then have "e_id e \<notin> snd ` set (bg_seen (dm_bridge dm'))" by (auto simp: send_reply_def push_reply_def)
      with sent show ?thesis unfolding settled_def by blast
    qed (rule st [OF _ plain_results(1) ex(1)], use h' d Inl in \<open>simp\<close>)+
  next
    case (Inr en)
    show ?thesis
    proof (cases en)
      case (Armed q)
      show ?thesis by (rule st [OF _ plain_results(2) ex(3)]) (use h' d Inr Armed in \<open>simp\<close>)
    next
      case (Released lid)
      show ?thesis by (rule st [OF _ plain_results(3) ex(2)]) (use h' d Inr Released in \<open>simp\<close>)
    next
      case (Refused err)
      show ?thesis by (rule st [OF _ plain_results(1) ex(1)]) (use h' d Inr Refused in \<open>simp\<close>)
    qed
  qed
qed

text \<open>C17: A redelivered life-cycle operation gets the reply it got. When a lease operation has answered and its durable result is still there, the reply of the operation and the replay of that result for the same request have the same
  payload, whatever the outcome was, so a second delivery neither runs the operation again nor says anything else. Where no durable result was stored, the answer was that the lane store is unreachable, and
  the request is taken out of the duplicate filter, so that a second delivery runs.\<close>

theorem redelivery_replays_reply:
  fixes cfg :: "('e, 'c, 'd) daemon_cfg"
  assumes "handle_worktree_operation cfg rd e policy dm = (Inr True, dm')" and "json_wf (JObj (e_payload e))" and "\<And>x. json_wf (JFloat (dc_float cfg x))"
  shows "\<exists>r extra b1. dm_bridge dm' = send_reply (dc_bridge cfg) (rd_mo rd) e r JNull False extra b1 \<and>
    ((\<forall>now durable (cfg2 :: ('e, 'c) bridge_cfg) mo2 b. get_str now (task_result_key (bc_redis (dc_bridge cfg)) (e_id e)) (dm_redis dm') = Some durable \<longrightarrow>
        replay_durable_lifecycle_result cfg2 mo2 e durable b = send_reply cfg2 mo2 e r JNull False extra b) \<or>
     (r = failed ''worktree-lane-store-unreachable'' \<and> e_id e \<notin> snd ` set (bg_seen (dm_bridge dm'))))"
proof -
  have life: "is_lifecycle e" using assms(1) by (auto simp: handle_worktree_operation_def split: if_splits)
  note refused = operation_settled [OF _ plain_results(1) replayable_extras(1) [OF assms(3)] assms(2)]
  consider "policy \<noteq> ''trusted''" | "policy = ''trusted''" "is_scored_request e" | "policy = ''trusted''" "\<not> is_scored_request e" by blast
  then have "settled cfg rd e dm'"
  proof cases
    case 1
    with assms(1) life show ?thesis by (intro refused) (auto simp: handle_worktree_operation_def)
  next
    case 2
    with assms(1) life show ?thesis by (intro refused) (auto simp: handle_worktree_operation_def)
  next
    case 3
    with lease_operation_settled [OF _ life _ assms(2,3)] assms(1) show ?thesis by blast
  qed
  then show ?thesis unfolding settled_def .
qed

theorem redelivery_replays_reply_witness:
  "\<exists>r extra b1. dm_bridge (snd (handle_worktree_operation demo_daemon_cfg demo_reading (demo_run\<lparr>e_payload := [(''operation'', JStr ''worktree_arm'')]\<rparr>) ''guest'' demo_daemon)) =
     send_reply demo_bridge_cfg (rd_mo demo_reading) (demo_run\<lparr>e_payload := [(''operation'', JStr ''worktree_arm'')]\<rparr>) r JNull False extra b1"
proof -
  let ?e = "demo_run\<lparr>e_payload := [(''operation'', JStr ''worktree_arm'')]\<rparr>"
  have "fst (handle_worktree_operation demo_daemon_cfg demo_reading ?e ''guest'' demo_daemon) = Inr True"
    by (simp add: handle_worktree_operation_def is_lifecycle_def WORKTREE_LIFECYCLE_OPERATIONS_def operation_result_def finish_task_status_def failed_def
        timeout_echo_fields_def Let_def bind_r_def)
  then obtain dm' where h: "handle_worktree_operation demo_daemon_cfg demo_reading ?e ''guest'' demo_daemon = (Inr True, dm')" by (metis prod.collapse)
  have "json_wf (JFloat (dc_float demo_daemon_cfg x))" for x unfolding demo_daemon_cfg_def by simp code_simp
  from redelivery_replays_reply [OF h _ this] h show ?thesis by (simp add: demo_daemon_cfg_def) blast
qed

text \<open>C19: The end of a turn gives everything back, or fails over its lease. When the clean-up of a turn ends, its place in the pool, its entries as an active task and the locks of its continuation and its lease are free; the only other end is
  an exception from the reclamation of the turn's own lease, and a turn without a lease cannot have it.\<close>

theorem end_turn_frees:
  "case fst (end_turn cfg rd made preserve job dm) of
     Inr u \<Rightarrow> freed cfg job (snd (end_turn cfg rd made preserve job dm))
   | Inl x \<Rightarrow> tp_lease (tj_plan job) \<noteq> None \<and> dm_bridge (snd (end_turn cfg rd made preserve job dm)) = dm_bridge dm"
  using end_turn_ends [of cfg rd made preserve job dm] by (metis prod.collapse)

text \<open>A lease that expires during a turn can cost the seat a place in its pool for good. If git cannot remove the worktree, the clean-up ends with the exception of the reclamation before it releases the engine: the pool, the
  active requests and the inbox entry stay as they were, although the turn is over.\<close>

theorem expired_lease_leaks_slot:
  assumes "tp_lease (tj_plan job) = Some r" "tp_spec (tj_plan job) = None" "l_id r \<noteq> []"
    "map_of (wl_files (dm_lease dm)) (lease_path (dc_lease cfg) (l_id r)) = Some (LeaseFile s u)" "l_id s = l_id r" "l_state s = ''armed''"
    "l_expires s \<le> rd_time rd" "l_name s \<in> wl_trees (dm_lease dm)" "\<not> le_remove_ok (dc_lease cfg) (l_name s)"
    "e_id (tj_req job) \<in> fst ` set (pl_busy (dm_pool dm))"
  shows "\<exists>dm'. end_turn cfg rd made preserve job dm = (Inl ''worktree-lease-reclaim-failed'', dm') \<and> dm_bridge dm' = dm_bridge dm \<and>
    e_id (tj_req job) \<in> fst ` set (pl_busy (dm_pool dm'))"
  using end_turn_stuck [OF assms(1-9), of made preserve] assms(10) by simp

theorem expired_lease_leaks_slot_witness:
  "fst (end_turn (demo_daemon_cfg\<lparr>dc_lease := demo_lease_env\<lparr>le_remove_ok := (\<lambda>_. False)\<rparr>\<rparr>) (demo_reading\<lparr>rd_time := 4000\<rparr>) True False demo_job
     (with_pool \<lparr>pl_max_size = 1, pl_idle = [], pl_busy = [(''m1'', Some 3)], pl_reserved = {}, pl_started = 1\<rparr> demo_daemon)) = Inl ''worktree-lease-reclaim-failed''"
proof -
  let ?cfg = "demo_daemon_cfg\<lparr>dc_lease := demo_lease_env\<lparr>le_remove_ok := (\<lambda>_. False)\<rparr>\<rparr>" and ?rd = "demo_reading\<lparr>rd_time := 4000\<rparr>"
  let ?dm = "with_pool \<lparr>pl_max_size = 1, pl_idle = [], pl_busy = [(''m1'', Some 3)], pl_reserved = {}, pl_started = 1\<rparr> demo_daemon"
  have j: "tp_lease (tj_plan demo_job) = Some demo_lease" "tp_spec (tj_plan demo_job) = None" "e_id (tj_req demo_job) \<in> fst ` set (pl_busy (dm_pool ?dm))"
    by (simp_all add: demo_job_def demo_run_def demo_envelope_req_def)
  have l: "l_id demo_lease = ''L''" "l_state demo_lease = ''armed''" "l_expires demo_lease \<le> rd_time ?rd" "l_name demo_lease = ''wt''"
    by (simp_all add: demo_lease_def new_lease_def)
  have "utf8 ''L'' = ''L''" by code_simp
  then have f: "map_of (wl_files (dm_lease ?dm)) (lease_path (dc_lease ?cfg) (l_id demo_lease)) = Some (LeaseFile demo_lease 10)" "l_name demo_lease \<in> wl_trees (dm_lease ?dm)"
    "\<not> le_remove_ok (dc_lease ?cfg) (l_name demo_lease)" by (simp_all add: demo_daemon_def demo_store_def lease_path_def demo_lease_env_def l)
  from expired_lease_leaks_slot [OF j(1,2) _ f(1) refl l(2,3) f(2,3) j(3), of True False] l(1) show ?thesis by auto
qed

end
