(* ===== verification/Memory_Store.thy ===== *)
theory Memory_Store
  imports Py_Json
begin

text \<open>
  The artefact and hint store (\<open>src/src/arb_memory/store.py\<close>, \<open>hash.py\<close>, the tables of \<open>schema.sql\<close>) and the write of one intent
  (\<open>handle_write_intent\<close> of \<open>bus.py\<close>). A table is the list of its rows. Under READ COMMITTED each statement sees the rows
  committed when it starts, so the two reads of \<^verbatim>\<open>upsert_artefact\<close> take the rows they see as arguments; the writes act on the current
  tables. Embeddings, their distances and SHA-256 are parameters. An exception carries the class \<open>classify_infra_error\<close> puts it in.
\<close>

section \<open>Tables\<close>

datatype mem_exc = Poison string | Transient string | Other string

record artefact_row =
  ar_id :: string
  ar_version :: int
  ar_content :: "string option"
  ar_bytes :: "string option"
  ar_mime :: string
  ar_pointer :: "string option"
  ar_hash :: string
  ar_source :: string
  ar_author :: string
  ar_created :: int

record 'e hint_row =
  hint_id :: int
  h_created :: int
  h_text :: string
  h_embedding :: 'e
  h_meta :: json
  h_source :: string
  h_author :: string
  h_artefact :: "string option"
  h_version :: "int option"
  h_pointer :: "string option"
  h_hash :: string
  h_deleted :: "int option"

record dead_row =
  dd_ulid :: string
  dd_payload :: json
  dd_error :: string
  dd_entry :: string

record 'e memdb =
  md_artefacts :: "artefact_row list"
  md_hints :: "'e hint_row list"
  md_next :: int                                        \<comment> \<open>the sequence of hint identifiers; a rollback does not reset it\<close>
  md_idem :: "(string \<times> json option) list"              \<comment> \<open>\<open>idempotency_keys\<close> with receipts\<close>
  md_dead :: "dead_row list"

text \<open>The keyword arguments of one artefact and of one hint, with their defaults filled in. Intents are unchecked JSON: \<open>ai_unread\<close> is what is raised
  when the artefact is read, hashed or looked up (no dictionary, no identifier, a text that is no string), \<open>ai_unbound\<close> what its \<open>INSERT\<close> raises for a value the column
  does not take, and \<open>hi_unbound\<close> the same of a hint.\<close>

record artefact_in =
  ai_id :: string
  ai_content :: "string option"
  ai_bytes :: "string option"
  ai_mime :: string
  ai_pointer :: "string option"
  ai_source :: string
  ai_author :: string
  ai_expected :: "int option"
  ai_unread :: "mem_exc option"
  ai_unbound :: "mem_exc option"

record ('t, 'e) hint_in =
  hi_text :: 't
  hi_embedding :: 'e
  hi_artefact :: "string option"
  hi_version :: "int option"
  hi_pointer :: "string option"
  hi_meta :: json
  hi_source :: string
  hi_author :: string
  hi_unbound :: "mem_exc option"

text \<open>A hint as the intent carries it: its text, or what \<^verbatim>\<open>dict(hint)\<close> or \<^verbatim>\<open>row["text"]\<close> raises.\<close>

type_synonym raw_hint = "((string, string) res, unit) hint_in"

section \<open>Hashes\<close>

definition artefact_hash :: "(string \<Rightarrow> string) \<Rightarrow> string option \<Rightarrow> string option \<Rightarrow> string \<Rightarrow> (mem_exc, string) res" where
  "artefact_hash sha content bytes mime =
    (if (content = None) = (bytes = None) then Inl (Other ''ValueError'')
     else Inr (sha (''arbmem:artefact:v1'' @ [CHR 0x00] @ utf8 mime @ [CHR 0x00] @
       (case bytes of Some b \<Rightarrow> ''binary'' @ [CHR 0x00] @ b
        | None \<Rightarrow> ''text'' @ [CHR 0x00] @ utf8 (case content of Some c \<Rightarrow> c | None \<Rightarrow> [])))))"

definition opt_text :: "string option \<Rightarrow> string" where
  "opt_text x = (case x of None \<Rightarrow> [] | Some s \<Rightarrow> s)"

definition hint_hash :: "(string \<Rightarrow> string) \<Rightarrow> string \<Rightarrow> string option \<Rightarrow> int option \<Rightarrow> string option \<Rightarrow> string" where
  "hint_hash sha text aid version pointer =
     sha (''arbmem:hint:v1'' @ [CHR 0x00] @ utf8 text @ [CHR 0x00] @ utf8 (opt_text aid) @ [CHR 0x00] @
       int_str (case version of None \<Rightarrow> 0 | Some v \<Rightarrow> v) @ [CHR 0x00] @ utf8 (opt_text pointer))"

section \<open>Artefacts\<close>

definition versions :: "artefact_row list \<Rightarrow> string \<Rightarrow> int list" where
  "versions rows a = map ar_version (filter (\<lambda>r. ar_id r = a) rows)"

text \<open>\<open>ORDER BY version DESC LIMIT 1\<close>.\<close>

definition head_row :: "artefact_row list \<Rightarrow> string \<Rightarrow> artefact_row option" where
  "head_row rows a = (case versions rows a of [] \<Rightarrow> None
     | v # vs \<Rightarrow> List.find (\<lambda>r. ar_id r = a \<and> ar_version r = foldl max v vs) rows)"

definition next_version :: "artefact_row list \<Rightarrow> string \<Rightarrow> int" where
  "next_version rows a = (case versions rows a of [] \<Rightarrow> 0 | v # vs \<Rightarrow> foldl max v vs) + 1"

text \<open>\<open>INSERT\<close> under \<open>PRIMARY KEY (artefact_id, version)\<close>.\<close>

definition insert_artefact :: "artefact_row \<Rightarrow> 'e memdb \<Rightarrow> (mem_exc, unit) res \<times> 'e memdb" where
  "insert_artefact row db =
    (if \<exists>r \<in> set (md_artefacts db). ar_id r = ar_id row \<and> ar_version r = ar_version row then (Inl (Poison ''UniqueViolation''), db)
     else (Inr (), db\<lparr>md_artefacts := md_artefacts db @ [row]\<rparr>))"

definition STORED :: string where "STORED = ''stored''"
definition DEDUPED :: string where "DEDUPED = ''deduped''"
definition REFUSED :: string where "REFUSED = ''refused_version_mismatch''"

text \<open>\<open>seen1\<close> is what the first read sees, \<open>seen2\<close> what the maximum is taken over.\<close>

definition upsert_artefact ::
  "(string \<Rightarrow> string) \<Rightarrow> int \<Rightarrow> artefact_row list \<Rightarrow> artefact_row list \<Rightarrow> artefact_in \<Rightarrow> 'e memdb
    \<Rightarrow> (mem_exc, string \<times> int \<times> string) res \<times> 'e memdb" where
  "upsert_artefact sha now seen1 seen2 ai db =
    (case (case ai_unread ai of Some x \<Rightarrow> Inl x | None \<Rightarrow> artefact_hash sha (ai_content ai) (ai_bytes ai) (ai_mime ai)) of
       Inl e \<Rightarrow> (Inl e, db)
     | Inr hash \<Rightarrow>
        (let row = head_row seen1 (ai_id ai);
             head = (case row of None \<Rightarrow> 0 | Some r \<Rightarrow> ar_version r)
         in if ai_expected ai \<noteq> None \<and> ai_expected ai \<noteq> Some head then (Inr (ai_id ai, head, REFUSED), db)
            else if (case row of None \<Rightarrow> False | Some r \<Rightarrow> ar_hash r = hash) then (Inr (ai_id ai, head, DEDUPED), db)
            else
             (let version = (case ai_expected ai of Some e \<Rightarrow> e + 1 | None \<Rightarrow> next_version seen2 (ai_id ai));
                  new = \<lparr>ar_id = ai_id ai, ar_version = version, ar_content = ai_content ai, ar_bytes = ai_bytes ai, ar_mime = ai_mime ai,
                         ar_pointer = ai_pointer ai, ar_hash = hash, ar_source = ai_source ai, ar_author = ai_author ai, ar_created = now\<rparr>
              in (case (case ai_unbound ai of Some x \<Rightarrow> (Inl x, db) | None \<Rightarrow> insert_artefact new db) of
                    (Inl e, db') \<Rightarrow> (Inl e, db')
                  | (Inr _, db') \<Rightarrow> (Inr (ai_id ai, version, STORED), db')))))"

section \<open>Hints\<close>

text \<open>The metadata that is stored: \<open>Jsonb(metadata or {})\<close>.\<close>

definition stored_meta :: "json \<Rightarrow> json" where
  "stored_meta m = (if py_truth m then m else JObj [])"

definition hint_ok :: "'e memdb \<Rightarrow> string option \<Rightarrow> int option \<Rightarrow> bool" where
  "hint_ok db aid version \<longleftrightarrow> (case (aid, version) of
      (None, None) \<Rightarrow> True
    | (Some a, Some v) \<Rightarrow> (\<exists>r \<in> set (md_artefacts db). ar_id r = a \<and> ar_version r = v)
    | _ \<Rightarrow> False)"

text \<open>The pairing check and the foreign key refuse a row; a repeated hash inserts none. The sequence is drawn before the conflict is found.\<close>

definition upsert_hint ::
  "(string \<Rightarrow> string) \<Rightarrow> int \<Rightarrow> (string, 'e) hint_in \<Rightarrow> string option \<Rightarrow> int option \<Rightarrow> 'e memdb \<Rightarrow> (mem_exc, int \<times> bool) res \<times> 'e memdb" where
  "upsert_hint sha now h aid version db =
    (let hash = hint_hash sha (hi_text h) aid version (hi_pointer h);
         i = md_next db;
         db1 = db\<lparr>md_next := i + 1\<rparr>
     in if hi_unbound h \<noteq> None then (Inl (the (hi_unbound h)), db)
        else if (aid = None) \<noteq> (version = None) then (Inl (Poison ''CheckViolation''), db1)
        else (case List.find (\<lambda>r. h_hash r = hash) (md_hints db) of
           Some r \<Rightarrow> (Inr (hint_id r, False), db1)
         | None \<Rightarrow>
            (if \<not> hint_ok db aid version then (Inl (Poison ''ForeignKeyViolation''), db1)
             else (Inr (i, True), db1\<lparr>md_hints := md_hints db @
               [\<lparr>hint_id = i, h_created = now, h_text = hi_text h, h_embedding = hi_embedding h, h_meta = stored_meta (hi_meta h), h_source = hi_source h,
                 h_author = hi_author h, h_artefact = aid, h_version = version, h_pointer = hi_pointer h, h_hash = hash, h_deleted = None\<rparr>]\<rparr>))))"

text \<open>\<open>(metadata or {}).get("kind") == "artefact_index"\<close>; a true value that is not a dictionary has no \<open>get\<close>.\<close>

definition meta_kind :: "json \<Rightarrow> (mem_exc, json) res" where
  "meta_kind m = (case stored_meta m of JObj d \<Rightarrow> Inr (dget d ''kind'') | _ \<Rightarrow> Inl (Other ''AttributeError''))"

definition index_meta :: "json \<Rightarrow> bool" where
  "index_meta m \<longleftrightarrow> (case m of JObj d \<Rightarrow> dget d ''kind'' = JStr ''artefact_index'' | _ \<Rightarrow> False)"

definition retire :: "int \<Rightarrow> string \<Rightarrow> int \<Rightarrow> 'e memdb \<Rightarrow> 'e memdb" where
  "retire now a v db = db\<lparr>md_hints := map (\<lambda>r.
     if h_artefact r = Some a \<and> (case h_version r of Some w \<Rightarrow> w < v | None \<Rightarrow> False) \<and> h_deleted r = None \<and> index_meta (h_meta r)
     then r\<lparr>h_deleted := Some now\<rparr> else r) (md_hints db)\<rparr>"

text \<open>The loop over the hints: the number stored and the artefact versions whose index hint is replaced.\<close>

fun write_hints ::
  "(string \<Rightarrow> string) \<Rightarrow> int \<Rightarrow> (string \<times> int) option \<Rightarrow> (string, 'e) hint_in list \<Rightarrow> 'e memdb
    \<Rightarrow> (mem_exc, nat \<times> (string \<times> int option) list) res \<times> 'e memdb" where
  "write_hints sha now ref [] db = (Inr (0, []), db)"
| "write_hints sha now ref (h # hs) db =
    (let aid = (case ref of Some (a, v) \<Rightarrow> Some a | None \<Rightarrow> hi_artefact h);
         version = (case ref of Some (a, v) \<Rightarrow> Some v | None \<Rightarrow> hi_version h)
     in (case upsert_hint sha now h aid version db of
           (Inl e, db1) \<Rightarrow> (Inl e, db1)
         | (Inr (i, inserted), db1) \<Rightarrow>
            (case meta_kind (hi_meta h) of
               Inl e \<Rightarrow> (Inl e, db1)
             | Inr kind \<Rightarrow>
                (case write_hints sha now ref hs db1 of
                   (Inl e, db2) \<Rightarrow> (Inl e, db2)
                 | (Inr (n, idx), db2) \<Rightarrow>
                    (Inr ((if inserted then 1 else 0) + n,
                          (if kind = JStr ''artefact_index'' \<and> opt_text aid \<noteq> [] then [(opt_text aid, version)] else []) @ idx), db2)))))"

fun retire_all :: "int \<Rightarrow> (string \<times> int option) list \<Rightarrow> 'e memdb \<Rightarrow> 'e memdb" where
  "retire_all now [] db = db"
| "retire_all now ((a, v) # idx) db = retire_all now idx (case v of None \<Rightarrow> db | Some w \<Rightarrow> retire now a w db)"

definition write_receipt :: "string \<Rightarrow> (string \<times> int) option \<Rightarrow> nat \<Rightarrow> json" where
  "write_receipt outcome ref n =
     JObj [(''artefact_outcome'', JStr outcome),
       (''artefact_id'', case ref of None \<Rightarrow> JNull | Some (a, v) \<Rightarrow> JStr a),
       (''version'', case ref of None \<Rightarrow> JNull | Some (a, v) \<Rightarrow> JInt v), (''hints_stored'', JInt (int n))]"

text \<open>A transaction: an exception undoes the rows, not the sequence.\<close>

definition atomically :: "('e memdb \<Rightarrow> (mem_exc, 'a) res \<times> 'e memdb) \<Rightarrow> 'e memdb \<Rightarrow> (mem_exc, 'a) res \<times> 'e memdb" where
  "atomically m db = (case m db of (Inl e, db') \<Rightarrow> (Inl e, db\<lparr>md_next := md_next db'\<rparr>) | (Inr x, db') \<Rightarrow> (Inr x, db'))"

definition write_body ::
  "(string \<Rightarrow> string) \<Rightarrow> int \<Rightarrow> artefact_row list \<Rightarrow> artefact_row list \<Rightarrow> artefact_in option \<Rightarrow> (string, 'e) hint_in list \<Rightarrow> 'e memdb \<Rightarrow> (mem_exc, json) res \<times> 'e memdb" where
  "write_body sha now seen1 seen2 artefact hints db =
    (case (case artefact of None \<Rightarrow> (Inr None, db)
           | Some ai \<Rightarrow> (case upsert_artefact sha now seen1 seen2 ai db of (Inl e, d) \<Rightarrow> (Inl e, d) | (Inr x, d) \<Rightarrow> (Inr (Some x), d))) of
       (Inl e, db1) \<Rightarrow> (Inl e, db1)
     | (Inr out, db1) \<Rightarrow>
        (case out of
           Some (a, v, outcome) \<Rightarrow>
             (if outcome = REFUSED then (Inr (write_receipt REFUSED (Some (a, v)) 0), db1)
              else (case write_hints sha now (Some (a, v)) hints db1 of
                      (Inl e, db2) \<Rightarrow> (Inl e, db2)
                    | (Inr (n, idx), db2) \<Rightarrow> (Inr (write_receipt outcome (Some (a, v)) n), retire_all now idx db2)))
         | None \<Rightarrow>
             (case write_hints sha now None hints db1 of
                (Inl e, db2) \<Rightarrow> (Inl e, db2)
              | (Inr (n, idx), db2) \<Rightarrow> (Inr (write_receipt ''none'' None n), retire_all now idx db2))))"

definition write_artefact_and_hints ::
  "(string \<Rightarrow> string) \<Rightarrow> int \<Rightarrow> artefact_row list \<Rightarrow> artefact_row list \<Rightarrow> artefact_in option \<Rightarrow> (string, 'e) hint_in list \<Rightarrow> 'e memdb \<Rightarrow> (mem_exc, json) res \<times> 'e memdb" where
  "write_artefact_and_hints sha now seen1 seen2 artefact hints = atomically (write_body sha now seen1 seen2 artefact hints)"

section \<open>Reading\<close>

definition fetch_artefact :: "'e memdb \<Rightarrow> string \<Rightarrow> int \<Rightarrow> artefact_row option" where
  "fetch_artefact db a v = List.find (\<lambda>r. ar_id r = a \<and> ar_version r = v) (md_artefacts db)"

text \<open>Reciprocal rank fusion; \<open>recip n\<close> is the float \<open>1.0 / n\<close> and the sum is the float sum.\<close>

definition rrf_scores :: "(nat \<Rightarrow> 'f :: {zero, plus}) \<Rightarrow> nat \<Rightarrow> int list \<Rightarrow> (int \<times> 'f) list \<Rightarrow> (int \<times> 'f) list" where
  "rrf_scores recip k ranked scores =
     fold (\<lambda>(rank, i) sc. AList.update i ((case map_of sc i of None \<Rightarrow> 0 | Some x \<Rightarrow> x) + recip (k + rank + 1)) sc) (enumerate 0 ranked) scores"

definition rrf_fuse :: "(nat \<Rightarrow> 'f :: {zero, plus, uminus, linorder}) \<Rightarrow> int list \<Rightarrow> int list \<Rightarrow> nat \<Rightarrow> nat \<Rightarrow> int list" where
  "rrf_fuse recip vector_ranked lexical_ranked k_limit rrf_k =
    (let scores = rrf_scores recip rrf_k lexical_ranked (rrf_scores recip rrf_k vector_ranked [])
     in take k_limit (sort_key (\<lambda>i. - (case map_of scores i of None \<Rightarrow> 0 | Some x \<Rightarrow> x)) (sort (map fst scores))))"

text \<open>\<open>nearest q\<close> is what the approximate index yields of the live rows, nearest first: it scans a bounded number of candidates and drops the deleted ones
  afterwards, so it may miss any of them. \<open>lexical q\<close> keeps the rows that match the text and orders them by rank. Each statement of a search has its own snapshot:
  \<open>snap 0\<close> for the vectors, \<open>snap 1\<close> for the text, \<open>snap 2\<close> for the rows of the fused identifiers, and the following ones for the artefacts of the hits.\<close>

definition live_rows :: "'e memdb \<Rightarrow> 'e hint_row list" where
  "live_rows db = filter (\<lambda>r. h_deleted r = None) (md_hints db)"

definition fetch_k :: "nat \<Rightarrow> nat" where
  "fetch_k k = max 50 (k * 5)"

definition search_hints ::
  "(nat \<Rightarrow> 'f :: {zero, plus, uminus, linorder}) \<Rightarrow> (string \<Rightarrow> (mem_exc, 'e) res) \<Rightarrow> ('e \<Rightarrow> 'e hint_row list \<Rightarrow> 'e hint_row list) \<Rightarrow>
    (string \<Rightarrow> 'e hint_row list \<Rightarrow> 'e hint_row list) \<Rightarrow> (nat \<Rightarrow> 'e memdb) \<Rightarrow> string \<Rightarrow> nat \<Rightarrow> (mem_exc, 'e hint_row list) res" where
  "search_hints recip emb nearest lexical snap query k =
    (case emb query of
       Inl e \<Rightarrow> Inl e
     | Inr q \<Rightarrow>
        (let vector_ids = map hint_id (take (fetch_k k) (nearest q (live_rows (snap 0))));
             lexical_ids = map hint_id (take (fetch_k k) (lexical query (live_rows (snap 1))));
             fused = rrf_fuse recip vector_ids lexical_ids k 60
         in Inr (concat (map (\<lambda>i. case List.find (\<lambda>r. hint_id r = i) (live_rows (snap 2)) of None \<Rightarrow> [] | Some r \<Rightarrow> [r]) fused))))"

record 'e hit =
  ht_hint :: "'e hint_row"
  ht_artefact :: "artefact_row option"
  ht_pointer :: "string option"
  ht_withheld :: bool

text \<open>The text of an external proposal is not handed out with its hint.\<close>

definition withheld :: "'e hint_row \<Rightarrow> bool" where
  "withheld r = (case h_meta r of JObj d \<Rightarrow> py_truth (dget d ''learn_proposal'') | _ \<Rightarrow> False)"

definition hit_of :: "'e memdb \<Rightarrow> 'e hint_row \<Rightarrow> 'e hit" where
  "hit_of db r =
     \<lparr>ht_hint = r,
      ht_artefact = (case h_artefact r of Some a \<Rightarrow>
          (if withheld r then None else (case h_version r of Some v \<Rightarrow> fetch_artefact db a v | None \<Rightarrow> None)) | None \<Rightarrow> None),
      ht_pointer = h_pointer r, ht_withheld = withheld r\<rparr>"

definition retrieve ::
  "(nat \<Rightarrow> 'f :: {zero, plus, uminus, linorder}) \<Rightarrow> (string \<Rightarrow> (mem_exc, 'e) res) \<Rightarrow> ('e \<Rightarrow> 'e hint_row list \<Rightarrow> 'e hint_row list) \<Rightarrow>
    (string \<Rightarrow> 'e hint_row list \<Rightarrow> 'e hint_row list) \<Rightarrow> (nat \<Rightarrow> 'e memdb) \<Rightarrow> string \<Rightarrow> nat \<Rightarrow> (mem_exc, 'e hit list) res" where
  "retrieve recip emb nearest lexical snap query k =
     bind_r (search_hints recip emb nearest lexical snap query k) (\<lambda>hs. Inr (map (\<lambda>(n, r). hit_of (snap n) r) (enumerate 3 hs)))"

section \<open>One write intent\<close>

text \<open>\<open>embed\<close> is called before the transaction; its failure, or that of a hint without a text, is the intent's failure.\<close>

fun prepare_hints :: "(string \<Rightarrow> (mem_exc, 'e) res) \<Rightarrow> raw_hint list \<Rightarrow> (mem_exc, (string, 'e) hint_in list) res" where
  "prepare_hints emb [] = Inr []"
| "prepare_hints emb (h # hs) =
     bind_r (case hi_text h of Inl x \<Rightarrow> Inl (Other x) | Inr t \<Rightarrow> Inr t) (\<lambda>t. bind_r (emb t) (\<lambda>v. bind_r (prepare_hints emb hs) (\<lambda>r. Inr (
       \<lparr>hi_text = t, hi_embedding = v, hi_artefact = hi_artefact h, hi_version = hi_version h, hi_pointer = hi_pointer h,
        hi_meta = hi_meta h, hi_source = hi_source h, hi_author = hi_author h, hi_unbound = hi_unbound h\<rparr> # r))))"

text \<open>The intent as the writer reads it. Its identifier is a string, as \<^verbatim>\<open>memory_write\<close> makes it.\<close>

record intent =
  in_ulid :: string
  in_artefact :: "artefact_in option"
  in_hints :: "raw_hint list"

definition keyed_write ::
  "(string \<Rightarrow> string) \<Rightarrow> int \<Rightarrow> artefact_row list \<Rightarrow> artefact_row list \<Rightarrow> string \<Rightarrow> artefact_in option \<Rightarrow> (string, 'e) hint_in list \<Rightarrow> 'e memdb
    \<Rightarrow> (mem_exc, json \<times> bool) res \<times> 'e memdb" where
  "keyed_write sha now seen1 seen2 ulid artefact hints db =
    (case map_of (md_idem db) ulid of
       Some stored \<Rightarrow> (Inr (case stored of Some r \<Rightarrow> r | None \<Rightarrow> JObj [(''artefact_outcome'', JStr ''unknown'')], True), db)
     | None \<Rightarrow>
        (case write_artefact_and_hints sha now seen1 seen2 artefact hints (db\<lparr>md_idem := md_idem db @ [(ulid, None)]\<rparr>) of
           (Inl e, db1) \<Rightarrow> (Inl e, db1)
         | (Inr r, db1) \<Rightarrow> (Inr (r, False), db1\<lparr>md_idem := AList.update ulid (Some r) (md_idem db1)\<rparr>)))"

definition handle_write_intent ::
  "(string \<Rightarrow> string) \<Rightarrow> (string \<Rightarrow> (mem_exc, 'e) res) \<Rightarrow> int \<Rightarrow> artefact_row list \<Rightarrow> artefact_row list \<Rightarrow> intent \<Rightarrow> 'e memdb
    \<Rightarrow> (mem_exc, json \<times> bool) res \<times> 'e memdb" where
  "handle_write_intent sha emb now seen1 seen2 i db =
    (case prepare_hints emb (in_hints i) of
       Inl e \<Rightarrow> (Inl e, db)
     | Inr hints \<Rightarrow> atomically (keyed_write sha now seen1 seen2 (in_ulid i) (in_artefact i) hints) db)"

section \<open>Well-formed tables\<close>

definition vset :: "artefact_row list \<Rightarrow> string \<Rightarrow> int set" where
  "vset rows a = set (versions rows a)"

text \<open>The versions of an artefact are \<open>1 \<dots> n\<close>, each with one row.\<close>

definition contiguous :: "artefact_row list \<Rightarrow> bool" where
  "contiguous rows \<longleftrightarrow> (\<forall>a. distinct (versions rows a) \<and> vset rows a = {1..int (length (versions rows a))})"

definition hints_ok :: "'e memdb \<Rightarrow> bool" where
  "hints_ok db \<longleftrightarrow> distinct (map h_hash (md_hints db)) \<and> distinct (map hint_id (md_hints db)) \<and>
     (\<forall>r \<in> set (md_hints db). hint_id r < md_next db \<and> hint_ok db (h_artefact r) (h_version r))"

definition store_ok :: "'e memdb \<Rightarrow> bool" where
  "store_ok db \<longleftrightarrow> contiguous (md_artefacts db) \<and> hints_ok db \<and> distinct (map fst (md_idem db))"

lemma foldl_max: "foldl max v vs = Max (insert v (set vs))" for v :: int
proof (induction vs arbitrary: v)
  case (Cons w vs)
  show ?case
  proof (cases "vs = []")
    case False
    then show ?thesis
      using Cons.IH [of "max v w"] by (simp add: max.assoc)
  qed simp
qed simp

lemma vset_iff: "v \<in> vset rows a \<longleftrightarrow> (\<exists>r \<in> set rows. ar_id r = a \<and> ar_version r = v)"
  by (auto simp: vset_def versions_def)

lemma vset_subset: "set rows \<subseteq> set rows' \<Longrightarrow> vset rows a \<subseteq> vset rows' a"
  unfolding subset_iff vset_iff by blast

lemma head_row_None: "head_row rows a = None \<Longrightarrow> vset rows a = {}"
proof (rule ccontr)
  assume none: "head_row rows a = None" and ne: "vset rows a \<noteq> {}"
  then obtain v vs where vs: "versions rows a = v # vs"
    by (cases "versions rows a") (auto simp: vset_def)
  have "Max (insert v (set vs)) \<in> insert v (set vs)"
    by (rule Max_in) auto
  then have "foldl max v vs \<in> vset rows a"
    by (simp add: vset_def vs foldl_max)
  then show False
    using none vs by (auto simp: head_row_def find_None_iff vset_iff)
qed

lemma head_row_Some:
  assumes "head_row rows a = Some r"
  shows "r \<in> set rows" "ar_id r = a" "\<forall>w \<in> vset rows a. w \<le> ar_version r"
proof -
  obtain v vs where vs: "versions rows a = v # vs"
    using assms by (auto simp: head_row_def split: list.splits)
  then have f: "List.find (\<lambda>r. ar_id r = a \<and> ar_version r = foldl max v vs) rows = Some r"
    using assms by (simp add: head_row_def)
  then show "r \<in> set rows" "ar_id r = a"
    by (auto simp: find_Some_iff)
  have "ar_version r = Max (insert v (set vs))"
    using f by (auto simp: find_Some_iff foldl_max)
  then show "\<forall>w \<in> vset rows a. w \<le> ar_version r"
    by (auto simp: vset_def vs)
qed

lemma next_version_bound: "w \<in> vset rows a \<Longrightarrow> w < next_version rows a"
  by (cases "versions rows a") (auto simp: vset_def next_version_def foldl_max intro: le_imp_less_Suc)

lemma next_version_in: "next_version rows a - 1 \<in> insert 0 (vset rows a)"
proof (cases "versions rows a")
  case (Cons v vs)
  have "Max (insert v (set vs)) \<in> insert v (set vs)"
    by (rule Max_in) auto
  then show ?thesis
    using Cons by (auto simp: vset_def next_version_def foldl_max)
qed (auto simp: next_version_def)

lemma contiguousD: "contiguous rows \<Longrightarrow> vset rows a = {1..int (length (versions rows a))}"
  by (simp add: contiguous_def)

lemma versions_snoc: "versions (rows @ [r]) a = versions rows a @ (if ar_id r = a then [ar_version r] else [])"
  by (simp add: versions_def)

text \<open>A row inserted at the successor of a version that some snapshot held can only be the next one.\<close>

lemma contiguous_snoc:
  assumes "contiguous rows" "v - 1 \<in> insert 0 (vset rows (ar_id r))" "ar_version r = v" "v \<notin> vset rows (ar_id r)"
  shows "contiguous (rows @ [r])" "v = int (length (versions rows (ar_id r))) + 1"
proof -
  have iv: "vset rows (ar_id r) = {1..int (length (versions rows (ar_id r)))}" and d: "distinct (versions rows (ar_id r))"
    using assms(1) by (auto simp: contiguous_def)
  have "v - 1 = 0 \<or> 1 \<le> v - 1 \<and> v - 1 \<le> int (length (versions rows (ar_id r)))" "\<not> (1 \<le> v \<and> v \<le> int (length (versions rows (ar_id r))))"
    using assms(2,4) unfolding iv by auto
  then show v: "v = int (length (versions rows (ar_id r))) + 1"
    by linarith
  show "contiguous (rows @ [r])"
    unfolding contiguous_def
  proof
    fix a
    show "distinct (versions (rows @ [r]) a) \<and> vset (rows @ [r]) a = {1..int (length (versions (rows @ [r]) a))}"
    proof (cases "ar_id r = a")
      case True
      have "{1..1 + int n} = insert (1 + int n) {1..int n}" for n
        by auto
      then show ?thesis
        using True d iv v assms by (cases "versions rows a = []") (auto simp: versions_snoc vset_def add.commute Suc_le_eq)
    next
      case False
      then show ?thesis
        using assms(1) by (simp add: versions_snoc vset_def contiguous_def)
    qed
  qed
qed

text \<open>What a write may do to the artefacts: nothing, or the next version of one of them.\<close>

lemma upsert_artefact_cases:
  assumes u: "upsert_artefact sha now seen1 seen2 ai db = (Inr (a, v, out), db')"
  obtains (refused) "out = REFUSED" "db' = db" "ai_expected ai \<noteq> None" "a = ai_id ai" "ai_expected ai \<noteq> Some v"
    | (deduped) "out = DEDUPED" "db' = db" "v \<in> vset seen1 (ai_id ai)" "a = ai_id ai" "\<forall>e. ai_expected ai = Some e \<longrightarrow> e = v"
    | (stored) row where "out = STORED" "db' = db\<lparr>md_artefacts := md_artefacts db @ [row]\<rparr>" "a = ai_id ai" "ar_id row = ai_id ai" "ar_version row = v"
        "v \<notin> vset (md_artefacts db) (ai_id ai)" "\<forall>e. ai_expected ai = Some e \<longrightarrow> v = e + 1"
        "v - 1 \<in> insert 0 (vset seen1 (ai_id ai) \<union> vset seen2 (ai_id ai))"
        "ar_content row = ai_content ai" "ar_bytes row = ai_bytes ai"
proof -
  obtain hash where h: "(case ai_unread ai of Some x \<Rightarrow> Inl x | None \<Rightarrow> artefact_hash sha (ai_content ai) (ai_bytes ai) (ai_mime ai)) = Inr hash"
  proof (cases "case ai_unread ai of Some x \<Rightarrow> Inl x | None \<Rightarrow> artefact_hash sha (ai_content ai) (ai_bytes ai) (ai_mime ai)")
    case (Inl e)
    then show thesis using u unfolding upsert_artefact_def Inl by simp
  qed (rule that)
  define head where "head = (case head_row seen1 (ai_id ai) of None \<Rightarrow> 0 | Some r \<Rightarrow> ar_version r)"
  have head_in: "head \<in> insert 0 (vset seen1 (ai_id ai))"
    using head_row_Some by (fastforce simp: head_def vset_iff split: option.splits)
  note u' = u [unfolded upsert_artefact_def h sum.case, folded head_def, unfolded Let_def, folded head_def]
  consider (r) "ai_expected ai \<noteq> None \<and> ai_expected ai \<noteq> Some head"
    | (d) r where "\<not> (ai_expected ai \<noteq> None \<and> ai_expected ai \<noteq> Some head)" "head_row seen1 (ai_id ai) = Some r" "ar_hash r = hash"
    | (s) "\<not> (ai_expected ai \<noteq> None \<and> ai_expected ai \<noteq> Some head)" "\<not> (case head_row seen1 (ai_id ai) of None \<Rightarrow> False | Some r \<Rightarrow> ar_hash r = hash)"
    by atomize_elim (auto split: option.splits)
  then show thesis
  proof cases
    case r
    then show ?thesis
      using u' by (intro refused) auto
  next
    case d
    have "v = head" "a = ai_id ai" "out = DEDUPED" "db' = db"
      using u' d by auto
    moreover have "head = ar_version r"
      using d by (simp add: head_def)
    moreover have "ar_version r \<in> vset seen1 (ai_id ai)"
      using head_row_Some [OF d(2)] by (auto simp: vset_iff)
    ultimately show ?thesis
      using d(1) by (intro deduped) auto
  next
    case s
    define version where "version = (case ai_expected ai of Some e \<Rightarrow> e + 1 | None \<Rightarrow> next_version seen2 (ai_id ai))"
    define row where "row = \<lparr>ar_id = ai_id ai, ar_version = version, ar_content = ai_content ai, ar_bytes = ai_bytes ai, ar_mime = ai_mime ai,
                         ar_pointer = ai_pointer ai, ar_hash = hash, ar_source = ai_source ai, ar_author = ai_author ai, ar_created = now\<rparr>"
    have ins: "(case (case ai_unbound ai of Some x \<Rightarrow> (Inl x, db) | None \<Rightarrow> insert_artefact row db) of
        (Inl e, d) \<Rightarrow> (Inl e, d) | (Inr _, d) \<Rightarrow> (Inr (ai_id ai, version, STORED), d)) = (Inr (a, v, out), db')"
      using u' s unfolding row_def version_def by (simp del: not_None_eq)
    then have new: "v \<notin> vset (md_artefacts db) (ai_id ai)" "v = version" "out = STORED" "a = ai_id ai" "db' = db\<lparr>md_artefacts := md_artefacts db @ [row]\<rparr>"
      by (auto simp: insert_artefact_def vset_iff row_def split: if_splits option.splits)
    have "version - 1 \<in> insert 0 (vset seen1 (ai_id ai) \<union> vset seen2 (ai_id ai))"
      using s(1) head_in next_version_in [of seen2 "ai_id ai"] by (auto simp: version_def split: option.splits)
    then show ?thesis
      using new by (intro stored [of row]) (auto simp: row_def version_def)
  qed
qed

lemma upsert_artefact_error: "upsert_artefact sha now seen1 seen2 ai db = (Inl e, db') \<Longrightarrow> db' = db"
  by (auto simp: upsert_artefact_def insert_artefact_def Let_def split: sum.splits if_splits prod.splits option.splits)

text \<open>The snapshots of a write are taken from what is committed, so from the table the write meets.\<close>

definition sees :: "artefact_row list \<Rightarrow> 'e memdb \<Rightarrow> bool" where
  "sees seen db \<longleftrightarrow> set seen \<subseteq> set (md_artefacts db)"

lemma upsert_artefact_contiguous:
  assumes "upsert_artefact sha now seen1 seen2 ai db = (x, db')" "contiguous (md_artefacts db)" "sees seen1 db" "sees seen2 db"
  shows "contiguous (md_artefacts db')" "set (md_artefacts db) \<subseteq> set (md_artefacts db')" "md_hints db' = md_hints db" "md_next db' = md_next db" "md_idem db' = md_idem db"
proof -
  have "contiguous (md_artefacts db') \<and> set (md_artefacts db) \<subseteq> set (md_artefacts db') \<and> md_hints db' = md_hints db \<and> md_next db' = md_next db \<and>
    md_idem db' = md_idem db"
  proof (cases x)
    case (Inl e)
    then show ?thesis
      using assms upsert_artefact_error by blast
  next
    case (Inr y)
    then obtain a v out where "x = Inr (a, v, out)"
      by (cases y) auto
    then have u: "upsert_artefact sha now seen1 seen2 ai db = (Inr (a, v, out), db')"
      using assms(1) by simp
    from u show ?thesis
    proof (cases rule: upsert_artefact_cases)
      case (stored row)
      have "vset seen1 (ai_id ai) \<union> vset seen2 (ai_id ai) \<subseteq> vset (md_artefacts db) (ai_id ai)"
        using assms vset_subset by (simp add: sees_def)
      then have "contiguous (md_artefacts db @ [row])"
        using stored assms by (intro contiguous_snoc [of _ v]) auto
      then show ?thesis
        using stored by auto
    qed (use assms in auto)
  qed
  then show "contiguous (md_artefacts db')" "set (md_artefacts db) \<subseteq> set (md_artefacts db')" "md_hints db' = md_hints db" "md_next db' = md_next db" "md_idem db' = md_idem db"
    by blast+
qed

text \<open>The version a write names is there afterwards.\<close>

lemma upsert_artefact_there:
  assumes "upsert_artefact sha now seen1 seen2 ai db = (Inr (a, v, out), db')" "sees seen1 db" "out \<noteq> REFUSED"
  shows "v \<in> vset (md_artefacts db') a"
  using assms(1)
proof (cases rule: upsert_artefact_cases)
  case deduped
  then show ?thesis
    using assms vset_subset [of seen1 "md_artefacts db" a] by (auto simp: sees_def)
qed (use assms in \<open>auto simp: vset_iff\<close>)

section \<open>Hints under the invariant\<close>

lemma hint_ok_other [simp]: "hint_ok (db\<lparr>md_hints := hs\<rparr>) = hint_ok db" "hint_ok (db\<lparr>md_next := n\<rparr>) = hint_ok db" "hint_ok (db\<lparr>md_idem := ks\<rparr>) = hint_ok db"
  by (simp_all add: hint_ok_def fun_eq_iff split: option.splits)

lemma hint_ok_mono: "hint_ok db a v \<Longrightarrow> set (md_artefacts db) \<subseteq> set (md_artefacts db') \<Longrightarrow> hint_ok db' a v"
  unfolding hint_ok_def by (auto split: option.splits)

definition same_but_hints :: "'e memdb \<Rightarrow> 'e memdb \<Rightarrow> bool" where
  "same_but_hints db db' \<longleftrightarrow> md_artefacts db' = md_artefacts db \<and> md_idem db' = md_idem db \<and> md_dead db' = md_dead db \<and> md_next db \<le> md_next db'"

lemma same_but_hints_refl [simp]: "same_but_hints db db"
  by (simp add: same_but_hints_def)

lemma same_but_hints_trans: "same_but_hints a b \<Longrightarrow> same_but_hints b c \<Longrightarrow> same_but_hints a c"
  by (auto simp: same_but_hints_def)

lemma upsert_hint_keeps:
  assumes "upsert_hint sha now h aid version db = (x, db')"
  shows "same_but_hints db db'" "hints_ok db \<Longrightarrow> hints_ok db'"
proof -
  define hash where "hash = hint_hash sha (hi_text h) aid version (hi_pointer h)"
  define db1 where "db1 = db\<lparr>md_next := md_next db + 1\<rparr>"
  define row where "row = \<lparr>hint_id = md_next db, h_created = now, h_text = hi_text h, h_embedding = hi_embedding h, h_meta = stored_meta (hi_meta h),
    h_source = hi_source h, h_author = hi_author h, h_artefact = aid, h_version = version, h_pointer = hi_pointer h, h_hash = hash, h_deleted = None\<rparr>"
  consider (same) "db' = db" | (keep) "db' = db1" | (new) "db' = db1\<lparr>md_hints := md_hints db @ [row]\<rparr>" "List.find (\<lambda>r. h_hash r = hash) (md_hints db) = None" "hint_ok db aid version"
    using assms unfolding upsert_hint_def Let_def hash_def [symmetric] db1_def row_def
    by atomize_elim (auto split: if_splits option.splits)
  then have "same_but_hints db db' \<and> (hints_ok db \<longrightarrow> hints_ok db')"
  proof cases
    case same
    then show ?thesis
      by simp
  next
    case keep
    then show ?thesis
      by (fastforce simp: same_but_hints_def hints_ok_def db1_def hint_ok_def split: option.splits)
  next
    case new
    have "hints_ok db'" if "hints_ok db"
    proof -
      have "\<forall>r \<in> set (md_hints db). h_hash r \<noteq> hash \<and> hint_id r < md_next db \<and> hint_ok db' (h_artefact r) (h_version r)"
        using that new hint_ok_mono [of db _ _ db'] by (auto simp: hints_ok_def db1_def find_None_iff)
      moreover have "hint_ok db' aid version"
        using new hint_ok_mono [of db _ _ db'] by (auto simp: db1_def)
      ultimately show ?thesis
        using that new(1) by (fastforce simp: hints_ok_def db1_def row_def)
    qed
    then show ?thesis
      using new by (auto simp: same_but_hints_def db1_def)
  qed
  then show "same_but_hints db db'" "hints_ok db \<Longrightarrow> hints_ok db'"
    by blast+
qed

lemma write_hints_keeps:
  assumes "write_hints sha now ref hs db = (x, db')"
  shows "same_but_hints db db'" "hints_ok db \<Longrightarrow> hints_ok db'"
proof -
  have "same_but_hints db db' \<and> (hints_ok db \<longrightarrow> hints_ok db')"
    using assms
  proof (induction hs arbitrary: db x db')
    case (Cons h hs)
    obtain y db1 where y: "upsert_hint sha now h (case ref of Some (a, v) \<Rightarrow> Some a | None \<Rightarrow> hi_artefact h)
        (case ref of Some (a, v) \<Rightarrow> Some v | None \<Rightarrow> hi_version h) db = (y, db1)"
      by fastforce
    have y': "same_but_hints db db1" "hints_ok db \<Longrightarrow> hints_ok db1"
      using upsert_hint_keeps [OF y] by auto
    obtain z db2 where z: "write_hints sha now ref hs db1 = (z, db2)"
      by fastforce
    have "db' = db1 \<or> db' = db2"
      using Cons.prems y z by (auto simp: Let_def split: sum.splits prod.splits)
    then show ?case
      using y' Cons.IH [OF z] same_but_hints_trans by blast
  qed simp
  then show "same_but_hints db db'" "hints_ok db \<Longrightarrow> hints_ok db'"
    by blast+
qed

lemma retire_keeps: "same_but_hints db (retire now a v db)" "hints_ok (retire now a v db) = hints_ok db"
proof -
  define f where "f r = (if h_artefact r = Some a \<and> (case h_version r of Some w \<Rightarrow> w < v | None \<Rightarrow> False) \<and> h_deleted r = None \<and> index_meta (h_meta r)
     then r\<lparr>h_deleted := Some now\<rparr> else r)" for r :: "'a hint_row"
  have f: "h_hash (f r) = h_hash r" "hint_id (f r) = hint_id r" "h_artefact (f r) = h_artefact r" "h_version (f r) = h_version r" for r
    by (simp_all add: f_def)
  have r: "retire now a v db = db\<lparr>md_hints := map f (md_hints db)\<rparr>"
    by (simp add: retire_def f_def [abs_def])
  show "same_but_hints db (retire now a v db)"
    by (simp add: r same_but_hints_def)
  show "hints_ok (retire now a v db) = hints_ok db"
    by (simp add: r hints_ok_def f comp_def)
qed

lemma retire_all_keeps: "same_but_hints db (retire_all now idx db)" "hints_ok (retire_all now idx db) = hints_ok db"
proof -
  have "same_but_hints db (retire_all now idx db) \<and> hints_ok (retire_all now idx db) = hints_ok db"
  proof (induction now idx db rule: retire_all.induct)
    case (2 now a v idx db)
    define db1 where "db1 = (case v of None \<Rightarrow> db | Some w \<Rightarrow> retire now a w db)"
    have "same_but_hints db db1" "hints_ok db1 = hints_ok db"
      by (auto simp: db1_def retire_keeps split: option.splits)
    then show ?case
      using 2 [folded db1_def] same_but_hints_trans [of db db1] by (simp add: db1_def [symmetric])
  qed simp
  then show "same_but_hints db (retire_all now idx db)" "hints_ok (retire_all now idx db) = hints_ok db"
    by blast+
qed

section \<open>A whole write\<close>

definition grows :: "'e memdb \<Rightarrow> 'e memdb \<Rightarrow> bool" where
  "grows db db' \<longleftrightarrow> md_next db \<le> md_next db' \<and> set (md_artefacts db) \<subseteq> set (md_artefacts db')"

lemma grows_trans: "grows a b \<Longrightarrow> grows b c \<Longrightarrow> grows a c"
  by (auto simp: grows_def)

lemma same_grows: "same_but_hints a b \<Longrightarrow> grows a b"
  by (simp add: grows_def same_but_hints_def)

lemma upsert_artefact_grows:
  assumes "upsert_artefact sha now seen1 seen2 ai db = (x, db')"
  shows "grows db db'"
proof (cases x)
  case (Inl e)
  then show ?thesis
    using assms upsert_artefact_error by (fastforce simp: grows_def)
next
  case (Inr y)
  then obtain a v out where "upsert_artefact sha now seen1 seen2 ai db = (Inr (a, v, out), db')"
    using assms by (cases y) auto
  then show ?thesis
    by (cases rule: upsert_artefact_cases) (auto simp: grows_def)
qed

lemma write_body_grows:
  assumes "write_body sha now seen1 seen2 art hints db = (x, db')"
  shows "grows db db'"
proof -
  have hints: "grows d d'" if "(case write_hints sha now ref hints d of (Inl e, d2) \<Rightarrow> (Inl e, d2)
      | (Inr (n, idx), d2) \<Rightarrow> (Inr (f n), retire_all now idx d2)) = (x, d')" for ref f d d'
  proof -
    obtain y d2 where y: "write_hints sha now ref hints d = (y, d2)"
      by fastforce
    then have "d' = d2 \<or> (\<exists>idx. d' = retire_all now idx d2)"
      using that by (auto split: sum.splits prod.splits)
    then show ?thesis
      using write_hints_keeps(1) [OF y] retire_all_keeps(1) same_grows same_but_hints_trans by metis
  qed
  show ?thesis
  proof (cases art)
    case None
    then show ?thesis
      using assms hints [where ?ref = None and ?f = "write_receipt ''none'' None" and ?d = db and ?d' = db'] by (simp add: write_body_def)
  next
    case (Some ai)
    obtain y db1 where u: "upsert_artefact sha now seen1 seen2 ai db = (y, db1)"
      by fastforce
    note g = upsert_artefact_grows [OF u]
    show ?thesis
    proof (cases y)
      case (Inl e)
      then show ?thesis
        using assms Some u g by (simp add: write_body_def)
    next
      case (Inr z)
      then obtain a v out where y: "y = Inr (a, v, out)"
        by (cases z) auto
      show ?thesis
      proof (cases "out = REFUSED")
        case True
        then show ?thesis
          using assms Some u g y by (simp add: write_body_def)
      next
        case False
        then show ?thesis
          using assms Some u y hints [where ?ref = "Some (a, v)" and ?f = "write_receipt out (Some (a, v))" and ?d = db1 and ?d' = db'] grows_trans [OF g] by (simp add: write_body_def)
      qed
    qed
  qed
qed

lemma atomically_cases:
  assumes "atomically m db = (x, db')"
  obtains (error) e d where "x = Inl e" "db' = db\<lparr>md_next := md_next d\<rparr>" "m db = (Inl e, d)" | (good) y where "x = Inr y" "m db = (Inr y, db')"
  using assms by (auto simp: atomically_def split: sum.splits prod.splits)

text \<open>A write that returns: it was refused, or its artefact part succeeded and the hints followed.\<close>

lemma write_body_cases:
  assumes "write_body sha now seen1 seen2 art hints db = (Inr r, db')"
  obtains (plain) n idx db2 where "art = None" "write_hints sha now None hints db = (Inr (n, idx), db2)" "db' = retire_all now idx db2" "r = write_receipt ''none'' None n"
    | (refused) ai a v where "art = Some ai" "upsert_artefact sha now seen1 seen2 ai db = (Inr (a, v, REFUSED), db')" "r = write_receipt REFUSED (Some (a, v)) 0"
    | (written) ai a v out db1 n idx db2 where "art = Some ai" "upsert_artefact sha now seen1 seen2 ai db = (Inr (a, v, out), db1)" "out \<noteq> REFUSED"
        "write_hints sha now (Some (a, v)) hints db1 = (Inr (n, idx), db2)" "db' = retire_all now idx db2" "r = write_receipt out (Some (a, v)) n"
proof (cases art)
  case None
  then show ?thesis
    using assms plain by (auto simp: write_body_def split: sum.splits prod.splits)
next
  case (Some ai)
  obtain x db1 where u: "upsert_artefact sha now seen1 seen2 ai db = (x, db1)"
    by fastforce
  then obtain a v out where x: "x = Inr (a, v, out)"
    using assms Some by (cases x) (auto simp: write_body_def)
  show ?thesis
  proof (cases "out = REFUSED")
    case True
    then show ?thesis
      using assms Some u x refused by (simp add: write_body_def)
  next
    case False
    obtain y db2 where w: "write_hints sha now (Some (a, v)) hints db1 = (y, db2)"
      by fastforce
    then obtain n idx where "y = Inr (n, idx)"
      using assms Some u x False by (cases y) (auto simp: write_body_def)
    then show ?thesis
      using assms Some u x w False by (intro written [of ai a v out db1 n idx db2]) (simp_all add: write_body_def)
  qed
qed

lemma store_ok_same: "same_but_hints db db' \<Longrightarrow> hints_ok db' \<Longrightarrow> store_ok db \<Longrightarrow> store_ok db'"
  by (simp add: store_ok_def same_but_hints_def)

lemma upsert_artefact_ok:
  assumes "upsert_artefact sha now seen1 seen2 ai db = (x, db')" "store_ok db" "sees seen1 db" "sees seen2 db"
  shows "store_ok db'"
proof -
  note u = upsert_artefact_contiguous [OF assms(1) _ assms(3,4)]
  have c: "contiguous (md_artefacts db)"
    using assms(2) by (simp add: store_ok_def)
  have "hints_ok db'"
    using assms(2) u(3,4) [OF c] hint_ok_mono [OF _ u(2) [OF c]] by (auto simp: store_ok_def hints_ok_def)
  then show ?thesis
    using assms(2) u(1,5) [OF c] by (simp add: store_ok_def)
qed

lemma write_body_ok:
  assumes "write_body sha now seen1 seen2 art hints db = (Inr r, db')" "store_ok db" "sees seen1 db" "sees seen2 db"
  shows "store_ok db'"
  using assms(1)
proof (cases rule: write_body_cases)
  case (plain n idx db2)
  then have "same_but_hints db db'" "hints_ok db'"
    using write_hints_keeps [OF plain(2)] retire_all_keeps [where ?db = db2 and ?now = now and ?idx = idx] assms(2) same_but_hints_trans by (auto simp: store_ok_def)
  then show ?thesis
    using store_ok_same assms(2) by blast
next
  case (refused ai a v)
  then show ?thesis
    using upsert_artefact_ok assms by blast
next
  case (written ai a v out db1 n idx db2)
  have 1: "store_ok db1"
    using upsert_artefact_ok [OF written(2)] assms by blast
  then have "same_but_hints db1 db'" "hints_ok db'"
    using written write_hints_keeps [OF written(4)] retire_all_keeps [where ?db = db2 and ?now = now and ?idx = idx] same_but_hints_trans by (auto simp: store_ok_def)
  then show ?thesis
    using store_ok_same 1 by blast
qed

section \<open>Intents\<close>

lemma handle_cases:
  assumes "handle_write_intent sha emb now seen1 seen2 i db = (x, db')"
  obtains (error) e n where "x = Inl e" "db' = db\<lparr>md_next := n\<rparr>" "md_next db \<le> n"
    | (replay) stored where "map_of (md_idem db) (in_ulid i) = Some stored" "db' = db"
        "x = Inr (case stored of Some r \<Rightarrow> r | None \<Rightarrow> JObj [(''artefact_outcome'', JStr ''unknown'')], True)"
    | (fresh) hints r db1 where "prepare_hints emb (in_hints i) = Inr hints" "map_of (md_idem db) (in_ulid i) = None" "x = Inr (r, False)"
        "write_body sha now seen1 seen2 (in_artefact i) hints (db\<lparr>md_idem := md_idem db @ [(in_ulid i, None)]\<rparr>) = (Inr r, db1)"
        "db' = db1\<lparr>md_idem := AList.update (in_ulid i) (Some r) (md_idem db1)\<rparr>"
proof (cases "prepare_hints emb (in_hints i)")
  case (Inl e)
  then show ?thesis
    using assms error [of e "md_next db"] by (auto simp: handle_write_intent_def)
next
  case (Inr hints)
  then have "atomically (keyed_write sha now seen1 seen2 (in_ulid i) (in_artefact i) hints) db = (x, db')"
    using assms by (simp add: handle_write_intent_def)
  then show ?thesis
  proof (cases rule: atomically_cases)
    case (good y)
    note k = good(2) [unfolded keyed_write_def write_artefact_and_hints_def]
    show ?thesis
    proof (cases "map_of (md_idem db) (in_ulid i)")
      case None
      obtain z db1 where z: "atomically (write_body sha now seen1 seen2 (in_artefact i) hints) (db\<lparr>md_idem := md_idem db @ [(in_ulid i, None)]\<rparr>) = (z, db1)"
        by fastforce
      then obtain r where r: "z = Inr r"
        using k None by (cases z) auto
      then have "write_body sha now seen1 seen2 (in_artefact i) hints (db\<lparr>md_idem := md_idem db @ [(in_ulid i, None)]\<rparr>) = (Inr r, db1)"
        using z by (auto elim: atomically_cases)
      then show ?thesis
        using k None z r Inr good(1) by (intro fresh) auto
    next
      case (Some stored)
      then show ?thesis
        using k good(1) by (intro replay) auto
    qed
  next
    case (error e d)
    have "map_of (md_idem db) (in_ulid i) = None"
      using error by (auto simp: keyed_write_def split: option.splits)
    then obtain z db1 where z: "atomically (write_body sha now seen1 seen2 (in_artefact i) hints) (db\<lparr>md_idem := md_idem db @ [(in_ulid i, None)]\<rparr>) = (z, db1)"
      "md_next d = md_next db1"
      using error by (auto simp: keyed_write_def write_artefact_and_hints_def split: sum.splits prod.splits)
    have "md_next db \<le> md_next db1"
      using z(1)
    proof (cases rule: atomically_cases)
      case (error e' d')
      then show ?thesis
        using write_body_grows [OF error(3)] by (simp add: grows_def)
    next
      case (good y)
      then show ?thesis
        using write_body_grows [OF good(2)] by (simp add: grows_def)
    qed
    then show ?thesis
      using error z that(1) by simp
  qed
qed

lemma upsert_artefact_keys: "upsert_artefact sha now seen1 seen2 ai db = (Inr (a, v, out), db') \<Longrightarrow> md_idem db' = md_idem db \<and> md_dead db' = md_dead db"
  by (elim upsert_artefact_cases) auto

lemma write_body_keys:
  assumes "write_body sha now seen1 seen2 art hints db = (Inr r, db')"
  shows "md_idem db' = md_idem db \<and> md_dead db' = md_dead db"
  using assms
proof (cases rule: write_body_cases)
  case (plain n idx db2)
  then show ?thesis
    using write_hints_keeps(1) [OF plain(2)] retire_all_keeps(1) [where ?db = db2 and ?now = now and ?idx = idx] by (simp add: same_but_hints_def)
next
  case (refused ai a v)
  then show ?thesis
    using upsert_artefact_keys by blast
next
  case (written ai a v out db1 n idx db2)
  then show ?thesis
    using write_hints_keeps(1) [OF written(4)] retire_all_keeps(1) [where ?db = db2 and ?now = now and ?idx = idx] upsert_artefact_keys [OF written(2)]
    by (simp add: same_but_hints_def)
qed

lemma handle_dead:
  assumes "handle_write_intent sha emb now seen1 seen2 i db = (x, db')"
  shows "md_dead db' = md_dead db"
  using assms
proof (cases rule: handle_cases)
  case (fresh hints r db1)
  then show ?thesis
    using write_body_keys [OF fresh(4)] by simp
qed simp_all

lemma handle_keys:
  assumes "handle_write_intent sha emb now seen1 seen2 i db = (x, db')"
  shows "map_of (md_idem db) u = Some r \<Longrightarrow> map_of (md_idem db') u = Some r"
    "x = Inr (r', rep) \<Longrightarrow> \<exists>stored. map_of (md_idem db') (in_ulid i) = Some stored \<and>
       r' = (case stored of Some r \<Rightarrow> r | None \<Rightarrow> JObj [(''artefact_outcome'', JStr ''unknown'')])"
proof -
  have "(map_of (md_idem db) u = Some r \<longrightarrow> map_of (md_idem db') u = Some r) \<and> (x = Inr (r', rep) \<longrightarrow>
      (\<exists>stored. map_of (md_idem db') (in_ulid i) = Some stored \<and> r' = (case stored of Some r \<Rightarrow> r | None \<Rightarrow> JObj [(''artefact_outcome'', JStr ''unknown'')])))"
    using assms
  proof (cases rule: handle_cases)
    case (error e n)
    then show ?thesis
      by simp
  next
    case (replay stored)
    then show ?thesis
      by auto
  next
    case (fresh hints r0 db1)
    have "md_idem db1 = md_idem db @ [(in_ulid i, None)]"
      using write_body_keys [OF fresh(4)] by simp
    then show ?thesis
      using fresh by (auto simp: update_conv' map_add_def)
  qed
  then show "map_of (md_idem db) u = Some r \<Longrightarrow> map_of (md_idem db') u = Some r"
    "x = Inr (r', rep) \<Longrightarrow> \<exists>stored. map_of (md_idem db') (in_ulid i) = Some stored \<and>
       r' = (case stored of Some r \<Rightarrow> r | None \<Rightarrow> JObj [(''artefact_outcome'', JStr ''unknown'')])"
    by blast+
qed

text \<open>Deliveries, one after the other; each has its own time and its own snapshots.\<close>

record mem_delivery =
  dl_now :: int
  dl_seen1 :: "artefact_row list"
  dl_seen2 :: "artefact_row list"
  dl_intent :: intent

definition deliver :: "(string \<Rightarrow> string) \<Rightarrow> (string \<Rightarrow> (mem_exc, 'e) res) \<Rightarrow> mem_delivery \<Rightarrow> 'e memdb \<Rightarrow> (mem_exc, json \<times> bool) res \<times> 'e memdb" where
  "deliver sha emb d = handle_write_intent sha emb (dl_now d) (dl_seen1 d) (dl_seen2 d) (dl_intent d)"

definition deliver_all :: "(string \<Rightarrow> string) \<Rightarrow> (string \<Rightarrow> (mem_exc, 'e) res) \<Rightarrow> mem_delivery list \<Rightarrow> 'e memdb \<Rightarrow> 'e memdb" where
  "deliver_all sha emb ds db = foldl (\<lambda>d x. snd (deliver sha emb x d)) db ds"

lemma deliver_all_keys: "map_of (md_idem db) u = Some r \<Longrightarrow> map_of (md_idem (deliver_all sha emb ds db)) u = Some r"
proof (induction ds arbitrary: db)
  case (Cons d ds)
  have "map_of (md_idem (snd (deliver sha emb d db))) u = Some r"
    using handle_keys(1) [OF prod.collapse [symmetric] Cons.prems] by (simp add: deliver_def)
  then show ?case
    using Cons.IH by (simp add: deliver_all_def)
qed (simp add: deliver_all_def)

fun snapshots_ok :: "(string \<Rightarrow> string) \<Rightarrow> (string \<Rightarrow> (mem_exc, 'e) res) \<Rightarrow> mem_delivery list \<Rightarrow> 'e memdb \<Rightarrow> bool" where
  "snapshots_ok sha emb [] db = True"
| "snapshots_ok sha emb (d # ds) db =
     (sees (dl_seen1 d) db \<and> sees (dl_seen2 d) db \<and> snapshots_ok sha emb ds (snd (deliver sha emb d db)))"

lemma handle_ok:
  assumes "handle_write_intent sha emb now seen1 seen2 i db = (x, db')" "store_ok db" "sees seen1 db" "sees seen2 db"
  shows "store_ok db' \<and> set (md_artefacts db) \<subseteq> set (md_artefacts db')"
  using assms(1)
proof (cases rule: handle_cases)
  case (error e n)
  then show ?thesis
    using assms(2) by (fastforce simp: store_ok_def hints_ok_def)
next
  case (replay stored)
  then show ?thesis
    using assms by simp
next
  case (fresh hints r db1)
  let ?db = "db\<lparr>md_idem := md_idem db @ [(in_ulid i, None)]\<rparr>"
  have 0: "store_ok ?db" "sees seen1 ?db" "sees seen2 ?db"
    using assms fresh(2) by (auto simp: store_ok_def hints_ok_def sees_def map_of_eq_None_iff)
  then have 1: "store_ok db1"
    using write_body_ok [OF fresh(4)] by blast
  have "set (md_artefacts db) \<subseteq> set (md_artefacts db1)"
    using write_body_grows [OF fresh(4)] by (simp add: grows_def)
  then show ?thesis
    using 1 fresh(5) by (simp add: store_ok_def hints_ok_def distinct_update)
qed

lemma write_hints_index:
  assumes "write_hints sha now (Some (a, v)) hs db = (Inr (n, idx), db')" "h \<in> set hs" "index_meta (stored_meta (hi_meta h))" "a \<noteq> []"
  shows "(a, Some v) \<in> set idx"
  using assms
proof (induction hs arbitrary: db db' n idx)
  case (Cons g hs)
  obtain j ins db1 where u: "upsert_hint sha now g (Some a) (Some v) db = (Inr (j, ins), db1)"
    using Cons.prems(1) by (auto simp: Let_def split: sum.splits prod.splits)
  obtain kind where k: "meta_kind (hi_meta g) = Inr kind"
    using Cons.prems(1) u by (auto simp: Let_def split: sum.splits)
  obtain n' idx' db2 where w: "write_hints sha now (Some (a, v)) hs db1 = (Inr (n', idx'), db2)"
    using Cons.prems(1) u k by (auto simp: Let_def split: sum.splits prod.splits)
  have idx: "idx = (if kind = JStr ''artefact_index'' \<and> a \<noteq> [] then [(a, Some v)] else []) @ idx'"
    using Cons.prems(1) u k w by (auto simp: opt_text_def split: if_splits)
  show ?case
  proof (cases "h = g")
    case True
    then have "kind = JStr ''artefact_index''"
      using k Cons.prems(3) by (auto simp: meta_kind_def index_meta_def split: json.splits)
    then show ?thesis
      using idx Cons.prems(4) by simp
  next
    case False
    then show ?thesis
      using Cons.IH [OF w] Cons.prems idx by simp
  qed
qed simp

definition superseded :: "string \<Rightarrow> int \<Rightarrow> 'e hint_row \<Rightarrow> bool" where
  "superseded a v r \<longleftrightarrow> h_artefact r = Some a \<and> index_meta (h_meta r) \<and> (\<exists>w. h_version r = Some w \<and> w < v)"

lemma retire_deletes: "r \<in> set (md_hints (retire now a v db)) \<Longrightarrow> superseded a v r \<Longrightarrow> h_deleted r \<noteq> None"
  by (fastforce simp: retire_def superseded_def split: if_splits)

lemma retire_all_deletes:
  assumes "r \<in> set (md_hints (retire_all now idx db))" "superseded a v r"
    and "(a, Some v) \<in> set idx \<or> (\<forall>r \<in> set (md_hints db). superseded a v r \<longrightarrow> h_deleted r \<noteq> None)"
  shows "h_deleted r \<noteq> None"
  using assms
proof (induction now idx db rule: retire_all.induct)
  case (2 now b w idx db)
  define db1 where "db1 = (case w of None \<Rightarrow> db | Some x \<Rightarrow> retire now b x db)"
  have "\<forall>r \<in> set (md_hints db1). superseded a v r \<longrightarrow> h_deleted r \<noteq> None" if "(a, Some v) \<notin> set idx"
  proof (cases "(b, w) = (a, Some v)")
    case True
    then show ?thesis
      using retire_deletes by (auto simp: db1_def)
  next
    case False
    then have "\<forall>r \<in> set (md_hints db). superseded a v r \<longrightarrow> h_deleted r \<noteq> None"
      using "2.prems"(3) that by auto
    then show ?thesis
      by (fastforce simp: db1_def retire_def superseded_def split: option.splits if_splits)
  qed
  then show ?case
    using "2.IH" [folded db1_def] "2.prems" by (auto simp: db1_def [symmetric])
qed auto

lemma prepare_hints_meta: "prepare_hints emb hs = Inr hs' \<Longrightarrow> h \<in> set hs \<Longrightarrow> \<exists>h' \<in> set hs'. hi_meta h' = hi_meta h"
  by (induction hs arbitrary: hs') (auto simp: bind_r_def split: sum.splits)

section \<open>Ranks and hits\<close>

lemma rrf_scores_fold:
  assumes "distinct (map fst sc)"
  shows "distinct (map fst (fold (\<lambda>(rank, i) sc. AList.update i (f rank i sc) sc) ps sc))"
    "set (map fst (fold (\<lambda>(rank, i) sc. AList.update i (f rank i sc) sc) ps sc)) = set (map fst sc) \<union> set (map snd ps)"
proof -
  have "distinct (map fst (fold (\<lambda>(rank, i) sc. AList.update i (f rank i sc) sc) ps sc)) \<and>
    set (map fst (fold (\<lambda>(rank, i) sc. AList.update i (f rank i sc) sc) ps sc)) = set (map fst sc) \<union> set (map snd ps)"
    using assms
  proof (induction ps arbitrary: sc)
    case (Cons p ps)
    obtain r i where p: "p = (r, i)"
      by fastforce
    show ?case
      using Cons.IH [of "AList.update i (f r i sc) sc"] Cons.prems by (auto simp: p distinct_update dom_update)
  qed simp
  then show "distinct (map fst (fold (\<lambda>(rank, i) sc. AList.update i (f rank i sc) sc) ps sc))"
    "set (map fst (fold (\<lambda>(rank, i) sc. AList.update i (f rank i sc) sc) ps sc)) = set (map fst sc) \<union> set (map snd ps)"
    by blast+
qed

lemma rrf_scores_keys:
  assumes "distinct (map fst sc)"
  shows "distinct (map fst (rrf_scores recip k ranked sc))" "set (map fst (rrf_scores recip k ranked sc)) = set (map fst sc) \<union> set ranked"
  unfolding rrf_scores_def using rrf_scores_fold [OF assms, where ?ps = "enumerate 0 ranked"] by simp_all

lemma rrf_fuse_props:
  shows "distinct (rrf_fuse recip v l k rk)" "set (rrf_fuse recip v l k rk) \<subseteq> set v \<union> set l" "length (rrf_fuse recip v l k rk) = min k (card (set v \<union> set l))"
proof -
  define sc where "sc = rrf_scores recip rk l (rrf_scores recip rk v [])"
  define out where "out = sort_key (\<lambda>i. - (case map_of sc i of None \<Rightarrow> 0 | Some x \<Rightarrow> x)) (sort (map fst sc))"
  have d: "distinct (map fst sc)" and s: "set (map fst sc) = set v \<union> set l"
    using rrf_scores_keys [of "[]" recip rk v] rrf_scores_keys [of "rrf_scores recip rk v []" recip rk l] by (auto simp: sc_def)
  have o: "distinct out" "set out = set v \<union> set l"
    using d s by (simp_all add: out_def)
  have r: "rrf_fuse recip v l k rk = take k out"
    by (simp add: rrf_fuse_def sc_def out_def Let_def)
  show "distinct (rrf_fuse recip v l k rk)" "set (rrf_fuse recip v l k rk) \<subseteq> set v \<union> set l"
    using o set_take_subset [of k out] by (auto simp: r)
  show "length (rrf_fuse recip v l k rk) = min k (card (set v \<union> set l))"
    using o distinct_card [of out] by (simp add: r min.commute)
qed

lemma find_id:
  assumes "distinct (map hint_id rows)" "r \<in> set rows" "hint_id r = i"
  shows "List.find (\<lambda>r. hint_id r = i) rows = Some r"
proof -
  obtain x where x: "List.find (\<lambda>r. hint_id r = i) rows = Some x"
    using assms(2,3) by (cases "List.find (\<lambda>r. hint_id r = i) rows") (auto simp: find_None_iff)
  then have "x \<in> set rows" "hint_id x = i"
    by (auto simp: find_Some_iff)
  then show ?thesis
    using assms x by (metis distinct_map inj_onD)
qed

lemma found_rows:
  assumes "distinct (map hint_id rows)" "distinct ids"
  shows "map hint_id (concat (map (\<lambda>i. case List.find (\<lambda>r. hint_id r = i) rows of None \<Rightarrow> [] | Some r \<Rightarrow> [r]) ids)) =
      filter (\<lambda>i. i \<in> hint_id ` set rows) ids"
    "set (concat (map (\<lambda>i. case List.find (\<lambda>r. hint_id r = i) rows of None \<Rightarrow> [] | Some r \<Rightarrow> [r]) ids)) \<subseteq> set rows"
proof -
  have one: "(case List.find (\<lambda>r. hint_id r = i) rows of None \<Rightarrow> [] | Some r \<Rightarrow> [r]) = [] \<and> i \<notin> hint_id ` set rows \<or>
      (\<exists>r \<in> set rows. (case List.find (\<lambda>r. hint_id r = i) rows of None \<Rightarrow> [] | Some r \<Rightarrow> [r]) = [r] \<and> hint_id r = i)" for i
  proof (cases "List.find (\<lambda>r. hint_id r = i) rows")
    case None
    then have "i \<notin> hint_id ` set rows"
      by (auto simp: find_None_iff)
    then show ?thesis
      using None by simp
  next
    case (Some r)
    then have "hint_id r = i" "r \<in> set rows"
      using nth_mem by (auto simp: find_Some_iff)
    then show ?thesis
      using Some by simp
  qed
  show "map hint_id (concat (map (\<lambda>i. case List.find (\<lambda>r. hint_id r = i) rows of None \<Rightarrow> [] | Some r \<Rightarrow> [r]) ids)) =
      filter (\<lambda>i. i \<in> hint_id ` set rows) ids"
  proof (induction ids)
    case (Cons i ids)
    then show ?case
      using one [of i] by auto
  qed simp
  show "set (concat (map (\<lambda>i. case List.find (\<lambda>r. hint_id r = i) rows of None \<Rightarrow> [] | Some r \<Rightarrow> [r]) ids)) \<subseteq> set rows"
  proof -
    have "List.find (\<lambda>r. hint_id r = i) rows = Some x \<Longrightarrow> x \<in> set rows" for i x
      by (auto simp: find_Some_iff)
    then show ?thesis
      by (auto split: option.splits)
  qed
qed

lemma live_ids: "store_ok db \<Longrightarrow> distinct (map hint_id (live_rows db))"
  by (auto simp: live_rows_def store_ok_def hints_ok_def distinct_map_filter)

section \<open>A store with two versions of a page\<close>

definition plain_text :: "string \<Rightarrow> string" where
  "plain_text s = s"

definition demo_embed :: "string \<Rightarrow> (mem_exc, nat) res" where
  "demo_embed s = Inr (length s)"

definition demo_page :: "string \<Rightarrow> int option \<Rightarrow> artefact_in" where
  "demo_page c e = \<lparr>ai_id = ''wiki'', ai_content = Some c, ai_bytes = None, ai_mime = ''text/plain'', ai_pointer = None, ai_source = ''seat'',
     ai_author = ''ada'', ai_expected = e, ai_unread = None, ai_unbound = None\<rparr>"

definition demo_hint :: "string \<Rightarrow> raw_hint" where
  "demo_hint t = \<lparr>hi_text = Inr t, hi_embedding = (), hi_artefact = None, hi_version = None, hi_pointer = None,
     hi_meta = JObj [(''kind'', JStr ''artefact_index'')], hi_source = ''seat'', hi_author = ''ada'', hi_unbound = None\<rparr>"

definition demo_intent :: "string \<Rightarrow> string \<Rightarrow> int option \<Rightarrow> intent" where
  "demo_intent u c e = \<lparr>in_ulid = u, in_artefact = Some (demo_page c e), in_hints = [demo_hint c]\<rparr>"

definition empty_store :: "nat memdb" where
  "empty_store = \<lparr>md_artefacts = [], md_hints = [], md_next = 1, md_idem = [], md_dead = []\<rparr>"

definition first_write :: mem_delivery where
  "first_write = \<lparr>dl_now = 1, dl_seen1 = [], dl_seen2 = [], dl_intent = demo_intent ''u1'' ''a'' None\<rparr>"

definition store1 :: "nat memdb" where
  "store1 = snd (deliver plain_text demo_embed first_write empty_store)"

definition second_write :: mem_delivery where
  "second_write = \<lparr>dl_now = 2, dl_seen1 = md_artefacts store1, dl_seen2 = md_artefacts store1, dl_intent = demo_intent ''u2'' ''b'' (Some 1)\<rparr>"

definition store2 :: "nat memdb" where
  "store2 = snd (deliver plain_text demo_embed second_write store1)"

lemma empty_store_ok: "store_ok empty_store"
  by (simp add: store_ok_def contiguous_def hints_ok_def empty_store_def versions_def vset_def)

lemma store1_ok: "store_ok store1"
  using handle_ok [OF prod.collapse [symmetric] empty_store_ok] by (simp add: store1_def deliver_def first_write_def sees_def)

section \<open>Properties\<close>

text \<open>C5: a write guarded by an expected version is a compare-and-set, whatever the snapshots it read were. If it is stored, the page's head
  was the expected version at the moment of the insert and exactly one row, the next version with this content, was added; otherwise no
  row was added, and a refusal wrote no hint and retired none.\<close>

theorem guarded_write_compares_and_sets:
  assumes "store_ok db" "sees seen1 db" "sees seen2 db" "in_artefact i = Some ai" "ai_expected ai = Some e"
    and h: "handle_write_intent sha emb now seen1 seen2 i db = (Inr (r, False), db')"
  shows "\<exists>v out n. r = write_receipt out (Some (ai_id ai, v)) n \<and>
    ((out = STORED \<and> e = int (length (versions (md_artefacts db) (ai_id ai))) \<and> v = e + 1 \<and>
        (\<exists>row. md_artefacts db' = md_artefacts db @ [row] \<and> ar_id row = ai_id ai \<and> ar_version row = v \<and>
           ar_content row = ai_content ai \<and> ar_bytes row = ai_bytes ai)) \<or>
     (out = DEDUPED \<and> v = e \<and> e \<in> vset (md_artefacts db) (ai_id ai) \<and> md_artefacts db' = md_artefacts db) \<or>
     (out = REFUSED \<and> v \<noteq> e \<and> n = 0 \<and> md_artefacts db' = md_artefacts db \<and> md_hints db' = md_hints db))"
  using h
proof (cases rule: handle_cases)
  case (fresh hints r' db1)
  let ?db = "db\<lparr>md_idem := md_idem db @ [(in_ulid i, None)]\<rparr>"
  have db': "md_artefacts db' = md_artefacts db1" "md_hints db' = md_hints db1" and r: "r' = r"
    using fresh by simp_all
  from fresh(4) show ?thesis
  proof (cases rule: write_body_cases)
    case (refused ai' a v)
    from refused(2) have "md_artefacts db1 = md_artefacts db \<and> md_hints db1 = md_hints db \<and> a = ai_id ai' \<and> ai_expected ai' \<noteq> Some v"
      by (cases rule: upsert_artefact_cases) (auto simp: REFUSED_def DEDUPED_def STORED_def)
    then show ?thesis
      using refused assms db' r by auto
  next
    case (written ai' a v out db0 n idx db2)
    have art: "md_artefacts db1 = md_artefacts db0"
      using written(5) write_hints_keeps(1) [OF written(4)] retire_all_keeps(1) [where ?db = db2 and ?now = now and ?idx = idx]
      by (simp add: same_but_hints_def)
    have ai: "ai' = ai"
      using written(1) assms(4) by simp
    from written(2) show ?thesis
    proof (cases rule: upsert_artefact_cases)
      case deduped
      then have "v \<in> vset (md_artefacts db) (ai_id ai)"
        using assms(2) vset_subset [of seen1 "md_artefacts db" "ai_id ai"] ai by (auto simp: sees_def)
      then show ?thesis
        using deduped written assms art db' r ai by auto
    next
      case (stored row)
      have "v - 1 \<in> insert 0 (vset (md_artefacts db) (ai_id ai))"
        using stored(8) assms(2,3) vset_subset ai unfolding sees_def by blast
      then have "v = int (length (versions (md_artefacts db) (ai_id ai))) + 1"
        using stored ai assms(1) contiguous_snoc(2) [of "md_artefacts db" v row] by (auto simp: store_ok_def)
      then show ?thesis
        using stored written assms art db' r ai by auto
    qed (use written in blast)
  qed (use assms in auto)
qed simp_all

theorem guarded_write_compares_and_sets_witness:
  "fst (deliver plain_text demo_embed second_write store1) = Inr (write_receipt STORED (Some (''wiki'', 2)) 1, False) \<and>
   (\<exists>v out n. write_receipt STORED (Some (''wiki'', 2)) 1 = write_receipt out (Some (''wiki'', v)) n)"
proof -
  have f: "fst (deliver plain_text demo_embed second_write store1) = Inr (write_receipt STORED (Some (''wiki'', 2)) 1, False)"
    by code_simp
  have s: "sees (md_artefacts store1) store1"
    by (simp add: sees_def)
  show ?thesis
    using f guarded_write_compares_and_sets [OF store1_ok s s, of "demo_intent ''u2'' ''b'' (Some 1)" "demo_page ''b'' (Some 1)" 1 plain_text demo_embed 2
        "write_receipt STORED (Some (''wiki'', 2)) 1" store2]
    by (auto simp: demo_intent_def demo_page_def store2_def second_write_def deliver_def prod_eq_iff)
qed

text \<open>C7: an intent takes effect once. Once a delivery has returned a receipt, a delivery with the same identifier, after any others, changes
  nothing and returns that receipt marked as a replay, unless its texts can no longer be embedded.\<close>

theorem redelivery_returns_the_receipt:
  assumes "deliver sha emb d db = (Inr (r, rep), db1)" "in_ulid (dl_intent d') = in_ulid (dl_intent d)" "db2 = deliver_all sha emb ds db1"
  shows "deliver sha emb d' db2 = (case prepare_hints emb (in_hints (dl_intent d')) of Inl e \<Rightarrow> (Inl e, db2) | Inr hints \<Rightarrow> (Inr (r, True), db2))"
proof -
  obtain stored where s: "map_of (md_idem db1) (in_ulid (dl_intent d)) = Some stored"
    "r = (case stored of Some r \<Rightarrow> r | None \<Rightarrow> JObj [(''artefact_outcome'', JStr ''unknown'')])"
    using handle_keys(2) [OF assms(1) [unfolded deliver_def]] by blast
  have "map_of (md_idem db2) (in_ulid (dl_intent d')) = Some stored"
    using deliver_all_keys [OF s(1)] assms(2,3) by simp
  then show ?thesis
    using s(2) by (simp add: deliver_def handle_write_intent_def keyed_write_def atomically_def split: sum.splits)
qed

theorem redelivery_returns_the_receipt_witness:
  "deliver plain_text demo_embed first_write store2 = (Inr (write_receipt STORED (Some (''wiki'', 1)) 1, True), store2)"
proof -
  have "fst (deliver plain_text demo_embed first_write empty_store) = Inr (write_receipt STORED (Some (''wiki'', 1)) 1, False)"
    by code_simp
  then have f: "deliver plain_text demo_embed first_write empty_store = (Inr (write_receipt STORED (Some (''wiki'', 1)) 1, False), store1)"
    by (simp add: store1_def prod_eq_iff)
  show ?thesis
    using redelivery_returns_the_receipt [OF f, of first_write store2 "[second_write]"]
    by (simp add: deliver_all_def store2_def first_write_def demo_intent_def demo_hint_def demo_embed_def bind_r_def)
qed

text \<open>C21: however the deliveries and their snapshots are interleaved, the versions of every page stay \<open>1 \<dots> n\<close> with one row each, a
  hint refers to a row that exists, hints have distinct hashes, a key is recorded once, and a version once written never changes.\<close>

theorem deliveries_keep_the_store:
  assumes "store_ok db" "snapshots_ok sha emb ds db"
  shows "store_ok (deliver_all sha emb ds db) \<and> set (md_artefacts db) \<subseteq> set (md_artefacts (deliver_all sha emb ds db))"
  using assms
proof (induction ds arbitrary: db)
  case (Cons d ds)
  have "store_ok (snd (deliver sha emb d db)) \<and> set (md_artefacts db) \<subseteq> set (md_artefacts (snd (deliver sha emb d db)))"
    using handle_ok [OF prod.collapse [symmetric] Cons.prems(1)] Cons.prems(2) by (simp add: deliver_def)
  then show ?case
    using Cons.IH [of "snd (deliver sha emb d db)"] Cons.prems by (auto simp: deliver_all_def)
qed (simp add: deliver_all_def)

theorem deliveries_keep_the_store_witness:
  "store_ok store2 \<and> length (md_artefacts store2) = 2"
proof -
  have "snapshots_ok plain_text demo_embed [first_write, second_write] empty_store"
    by (simp add: store1_def [symmetric], simp add: sees_def first_write_def second_write_def)
  then have "store_ok store2"
    using deliveries_keep_the_store [OF empty_store_ok, of plain_text demo_embed "[first_write, second_write]"]
    by (simp add: deliver_all_def store2_def store1_def)
  moreover have "length (md_artefacts store2) = 2"
    by code_simp
  ultimately show ?thesis
    by simp
qed

text \<open>C25: after a write of version \<open>v\<close> of a page that carried an index hint, search no longer serves an index hint of an older version:
  each of them is deleted.\<close>

theorem index_hint_replaces_older_ones:
  assumes h: "handle_write_intent sha emb now seen1 seen2 i db = (Inr (write_receipt out (Some (a, v)) n, False), db')" and "out \<noteq> REFUSED" "a \<noteq> []"
    and "in_artefact i \<noteq> None" "h \<in> set (in_hints i)" "index_meta (stored_meta (hi_meta h))"
    and "r \<in> set (md_hints db')" "h_artefact r = Some a" "index_meta (h_meta r)" "h_version r = Some w" "w < v"
  shows "h_deleted r \<noteq> None"
  using h
proof (cases rule: handle_cases)
  case (fresh hints r' db1)
  from fresh(4) show ?thesis
  proof (cases rule: write_body_cases)
    case (refused ai a' v')
    then show ?thesis
      using fresh(3) assms(2) by (simp add: write_receipt_def)
  next
    case (written ai a' v' out' db0 n' idx db2)
    have "a' = a" "v' = v"
      using written(6) fresh(3) by (simp_all add: write_receipt_def)
    moreover obtain h' where "h' \<in> set hints" "hi_meta h' = hi_meta h"
      using prepare_hints_meta [OF fresh(1) assms(5)] by blast
    ultimately have "(a, Some v) \<in> set idx"
      using write_hints_index [OF written(4), of h'] assms(3,6) by simp
    moreover have "r \<in> set (md_hints (retire_all now idx db2))"
      using assms(7) fresh(5) written(5) by simp
    ultimately show ?thesis
      using retire_all_deletes [of r now idx db2 a v] assms by (auto simp: superseded_def)
  qed (use assms in auto)
qed simp_all

theorem index_hint_replaces_older_ones_witness:
  "\<exists>r \<in> set (md_hints store2). h_version r = Some 1 \<and> h_deleted r \<noteq> None"
proof -
  have f: "handle_write_intent plain_text demo_embed 2 (md_artefacts store1) (md_artefacts store1) (demo_intent ''u2'' ''b'' (Some 1)) store1 =
      (Inr (write_receipt STORED (Some (''wiki'', 2)) 1, False), store2)"
  proof -
    have "fst (deliver plain_text demo_embed second_write store1) = Inr (write_receipt STORED (Some (''wiki'', 2)) 1, False)"
      by code_simp
    then show ?thesis
      by (simp add: store2_def deliver_def prod_eq_iff second_write_def)
  qed
  define r where "r = hd (md_hints store2)"
  have "md_hints store2 \<noteq> [] \<and> h_artefact (hd (md_hints store2)) = Some ''wiki'' \<and> index_meta (h_meta (hd (md_hints store2))) \<and> h_version (hd (md_hints store2)) = Some 1"
    by code_simp
  then have r: "r \<in> set (md_hints store2)" "h_artefact r = Some ''wiki''" "index_meta (h_meta r)" "h_version r = Some 1"
    by (simp_all add: r_def)
  have m: "index_meta (stored_meta (hi_meta (demo_hint ''b'')))"
    by code_simp
  show ?thesis
    using m r index_hint_replaces_older_ones [OF f _ _ _ _ m r(1-4)]
    by (intro bexI [of _ r]) (simp_all add: STORED_def REFUSED_def demo_intent_def)
qed

text \<open>C23: a search returns the best of what its two lists found. Whatever the approximate vector index and the text index yield, and whatever is written or deleted between the
  statements, the hits are at most \<open>k\<close>, each once, each from one of the two lists and live when its row is read; when no found row was deleted meanwhile there are exactly as many
  as were asked for or found. A hit comes with the very artefact version its hint names, except that a withheld proposal comes without any.\<close>

theorem retrieve_gives_live_pinned_hits:
  assumes "\<forall>n. store_ok (snap n)" "\<forall>n. set (md_artefacts (snap n)) \<subseteq> set (md_artefacts (snap (Suc n)))"
    and "retrieve recip emb nearest lexical snap query k = Inr hits"
  shows "\<exists>q found. emb query = Inr q \<and>
    found = hint_id ` set (take (fetch_k k) (nearest q (live_rows (snap 0)))) \<union> hint_id ` set (take (fetch_k k) (lexical query (live_rows (snap 1)))) \<and>
    length hits \<le> min k (card found) \<and> (found \<subseteq> hint_id ` set (live_rows (snap 2)) \<longrightarrow> length hits = min k (card found)) \<and>
    distinct (map (\<lambda>t. hint_id (ht_hint t)) hits) \<and>
    (\<forall>t \<in> set hits. hint_id (ht_hint t) \<in> found \<and> ht_hint t \<in> set (md_hints (snap 2)) \<and> h_deleted (ht_hint t) = None \<and>
      (if withheld (ht_hint t) then ht_artefact t = None
       else (\<forall>a. h_artefact (ht_hint t) = Some a \<longrightarrow>
         (\<exists>row. ht_artefact t = Some row \<and> ar_id row = a \<and> h_version (ht_hint t) = Some (ar_version row)))))"
proof -
  obtain hs where hs: "search_hints recip emb nearest lexical snap query k = Inr hs" "hits = map (\<lambda>(n, r). hit_of (snap n) r) (enumerate 3 hs)"
    using assms(3) by (auto simp: retrieve_def bind_r_def split: sum.splits)
  obtain q where q: "emb query = Inr q"
    using hs(1) by (auto simp: search_hints_def split: sum.splits)
  define v where "v = map hint_id (take (fetch_k k) (nearest q (live_rows (snap 0))))"
  define w where "w = map hint_id (take (fetch_k k) (lexical query (live_rows (snap 1))))"
  define ids where "ids = rrf_fuse recip v w k 60"
  note rrf = rrf_fuse_props [of recip v w k 60, folded ids_def]
  have hs': "hs = concat (map (\<lambda>i. case List.find (\<lambda>r. hint_id r = i) (live_rows (snap 2)) of None \<Rightarrow> [] | Some r \<Rightarrow> [r]) ids)"
    using hs(1) by (simp add: search_hints_def q v_def w_def ids_def Let_def)
  note rows = found_rows [OF live_ids [OF assms(1) [rule_format, of 2]] rrf(1), folded hs']
  have ht: "ht_hint (hit_of db r) = r" for db :: "'a memdb" and r
    by (simp add: hit_of_def)
  have hints: "map ht_hint hits = hs"
    by (simp add: hs(2) case_prod_unfold ht comp_def)
  have len: "length hits = length (filter (\<lambda>i. i \<in> hint_id ` set (live_rows (snap 2))) ids)"
    using rows(1) by (metis hints length_map)
  have ids: "map (\<lambda>t. hint_id (ht_hint t)) hits = filter (\<lambda>i. i \<in> hint_id ` set (live_rows (snap 2))) ids"
    using rows(1) by (simp add: hints [symmetric] comp_def)
  have grow: "set (md_artefacts (snap 2)) \<subseteq> set (md_artefacts (snap (2 + n)))" for n
    by (induction n) (use assms(2) in auto)
  have hit: "\<exists>r n. t = hit_of (snap (2 + n)) r \<and> r \<in> set hs" if t: "t \<in> set hits" for t
  proof -
    obtain n r where nr: "(n, r) \<in> set (enumerate 3 hs)" "t = hit_of (snap n) r"
      using t unfolding hs(2) set_map by (elim imageE) (metis prod.case prod.exhaust)
    then have "r \<in> set hs" "3 \<le> n"
      by (auto simp: in_set_enumerate_eq)
    moreover from this have "2 + (n - 2) = n"
      by simp
    ultimately show ?thesis
      using nr(2) by metis
  qed
  have pin: "\<exists>row. ht_artefact (hit_of (snap (2 + n)) r) = Some row \<and> ar_id row = a \<and> h_version r = Some (ar_version row)"
    if rr: "r \<in> set (md_hints (snap 2))" "h_artefact r = Some a" "\<not> withheld r" for r a n
  proof -
    have "hints_ok (snap 2)"
      using assms(1) by (simp add: store_ok_def)
    then have "hint_ok (snap 2) (h_artefact r) (h_version r)"
      using rr(1) by (simp add: hints_ok_def)
    then have "hint_ok (snap (2 + n)) (h_artefact r) (h_version r)"
      by (rule hint_ok_mono [OF _ grow])
    then obtain x row where x: "h_version r = Some x" "row \<in> set (md_artefacts (snap (2 + n)))" "ar_id row = a" "ar_version row = x"
      using rr(2) by (auto simp: hint_ok_def split: option.splits)
    then obtain row' where f: "fetch_artefact (snap (2 + n)) a x = Some row'"
      by (cases "fetch_artefact (snap (2 + n)) a x") (auto simp: fetch_artefact_def find_None_iff)
    then have "ar_id row' = a" "ar_version row' = x"
      by (auto simp: fetch_artefact_def find_Some_iff)
    then show ?thesis
      using f x(1) rr by (simp add: hit_of_def)
  qed
  have wh: "ht_artefact (hit_of db r) = None" if "withheld r" for db :: "'a memdb" and r
    using that by (simp add: hit_of_def split: option.splits)
  have each: "hint_id (ht_hint t) \<in> set v \<union> set w \<and> ht_hint t \<in> set (md_hints (snap 2)) \<and> h_deleted (ht_hint t) = None \<and>
      (if withheld (ht_hint t) then ht_artefact t = None
       else (\<forall>a. h_artefact (ht_hint t) = Some a \<longrightarrow>
         (\<exists>row. ht_artefact t = Some row \<and> ar_id row = a \<and> h_version (ht_hint t) = Some (ar_version row))))" if t: "t \<in> set hits" for t
  proof -
    obtain r n where r: "t = hit_of (snap (2 + n)) r" "r \<in> set hs"
      using hit [OF t] by blast
    then have "r \<in> set (md_hints (snap 2))" "h_deleted r = None"
      using rows(2) by (auto simp: live_rows_def)
    moreover have "hint_id r \<in> set v \<union> set w"
      using rows(1) r(2) rrf(2) by (metis (no_types, lifting) filter_is_subset image_eqI set_map subsetD)
    ultimately show ?thesis
      using pin wh by (simp add: r(1) ht)
  qed
  have le: "length hits \<le> min k (card (set v \<union> set w))"
    unfolding len rrf(3) [symmetric] by (rule length_filter_le)
  have eq: "length hits = min k (card (set v \<union> set w))" if "set v \<union> set w \<subseteq> hint_id ` set (live_rows (snap 2))"
  proof -
    have "filter (\<lambda>i. i \<in> hint_id ` set (live_rows (snap 2))) ids = ids"
      using that rrf(2) by (intro filter_True) blast
    then show ?thesis
      by (simp add: len rrf(3))
  qed
  have dist: "distinct (map (\<lambda>t. hint_id (ht_hint t)) hits)"
    using rrf(1) by (simp add: ids)
  have vw: "set v \<union> set w = hint_id ` set (take (fetch_k k) (nearest q (live_rows (snap 0)))) \<union> hint_id ` set (take (fetch_k k) (lexical query (live_rows (snap 1))))"
    by (simp add: v_def w_def)
  show ?thesis
    by (intro exI [of _ q] exI [of _ "set v \<union> set w"] conjI q vw le dist impI eq ballI each)
qed

text \<open>A search over the demo store: the index yields every row, the text must match, and ranks count in thousandths.\<close>

definition demo_search :: "string \<Rightarrow> (mem_exc, nat hit list) res" where
  "demo_search query = retrieve (\<lambda>n. 1000 div int n) demo_embed (\<lambda>_ rows. rows) (\<lambda>t rows. filter (\<lambda>r. h_text r = t) rows) (\<lambda>_. store2) query 8"

theorem retrieve_gives_live_pinned_hits_witness:
  "\<exists>t. demo_search ''b'' = Inr [t] \<and> (\<exists>row. ht_artefact t = Some row \<and> ar_version row = 2)"
proof -
  obtain hits where h: "demo_search ''b'' = Inr hits"
  proof -
    have "(case demo_search ''b'' of Inl e \<Rightarrow> False | Inr h \<Rightarrow> True)"
      by code_simp
    then show thesis
      using that by (cases "demo_search ''b''") auto
  qed
  have c: "(case demo_search ''b'' of Inl e \<Rightarrow> False | Inr h \<Rightarrow> length h = 1 \<and>
      (\<forall>t \<in> set h. h_artefact (ht_hint t) = Some ''wiki'' \<and> h_version (ht_hint t) = Some 2 \<and> \<not> withheld (ht_hint t)))"
    by code_simp
  have ok: "store_ok store2"
    using handle_ok [OF prod.collapse [symmetric] store1_ok] by (simp add: store2_def deliver_def second_write_def sees_def)
  obtain t where t: "hits = [t]"
    using c h by (auto simp: length_Suc_conv)
  have "\<forall>n :: nat. store_ok store2" "\<forall>n :: nat. set (md_artefacts store2) \<subseteq> set (md_artefacts store2)"
    using ok by simp_all
  from retrieve_gives_live_pinned_hits [OF this h [unfolded demo_search_def]]
  have "\<not> withheld (ht_hint t) \<longrightarrow> (\<forall>a. h_artefact (ht_hint t) = Some a \<longrightarrow> (\<exists>row. ht_artefact t = Some row \<and> h_version (ht_hint t) = Some (ar_version row)))"
    unfolding t by fastforce
  then show ?thesis
    using h c t by fastforce
qed

end
