(* ===== verification/Memory_Consumer.thy ===== *)
theory Memory_Consumer
  imports Memory_Store
begin

text \<open>
  The writer of the memory service: \<open>StreamConsumerLoop\<close> of \<open>src/src/arb_memory/consumer_loop.py\<close> and its subclass \<open>WriteLoop\<close> of
  \<open>bus.py\<close>. The state is the database, the stream and its consumer group, the published results and the loop's own fields. A
  \<open>weather\<close> says what the outside does to one handling: the snapshots the statements see, and which calls raise, with or without
  their effect; a \<open>loop_round\<close> says what it does to one round of the loop, which includes that entries arrive and that the group vanishes, with its
  pending entries, and has to be repaired. Waiting, logging other than that of an entry that cannot be stored, the trimming of the stream, and the connection objects are left out.
\<close>

section \<open>State\<close>

text \<open>An entry of the stream as \<open>_parse_intent\<close> reads it; a malformed one carries the text of what was raised. An intent with an identifier parses, whatever is
  wrong with its body: that is raised when it is written.\<close>

record entry =
  ce_id :: string
  ce_ulid :: string                        \<comment> \<open>\<open>fields.get("ulid", "unknown")\<close>\<close>
  ce_request :: "string option"
  ce_fields :: json
  ce_intent :: "(string, json \<times> intent) res"

text \<open>A call that raises may or may not have had its effect.\<close>

datatype call_reply = Replied | Unreplied bool

record weather =
  wv_now :: int
  wv_seen1 :: "artefact_row list"
  wv_seen2 :: "artefact_row list"
  wv_commit :: "(mem_exc \<times> bool) option"    \<comment> \<open>the write raises this; \<open>True\<close> when it was committed\<close>
  wv_dead :: "(mem_exc \<times> bool) option"      \<comment> \<open>the same of the dead letter\<close>
  wv_canary :: bool
  wv_push :: call_reply
  wv_expire :: call_reply
  wv_ack :: call_reply

record 'e wstate =
  w_db :: "'e memdb"
  w_stream :: "entry list"                 \<comment> \<open>all that is ever added, in order\<close>
  w_arrived :: nat                         \<comment> \<open>how many have been added so far\<close>
  w_group :: bool                          \<comment> \<open>whether the consumer group exists\<close>
  w_delivered :: nat                       \<comment> \<open>the group's last delivered identifier, as a count\<close>
  w_pending :: "string list"               \<comment> \<open>the group's pending entries\<close>
  w_results :: "(string \<times> json) list"
  w_unstorable :: "string list"            \<comment> \<open>what \<open>deadletter-unstorable\<close> was logged for\<close>
  w_poison :: "(string \<times> nat) list"
  w_sink_open :: bool
  w_infra :: bool
  w_cursor :: string
  w_reensured :: nat
  w_starts :: "nat list"                   \<comment> \<open>the identifiers, as counts, from which the group was created again\<close>
  w_ledger :: "(nat \<times> nat option) list"    \<comment> \<open>the stream of repair records: occurrence, and the start if it was measured\<close>

type_synonym ('e, 'a) wm = "('e wstate, mem_exc, 'a) st_m"

definition upd :: "('e wstate \<Rightarrow> 'e wstate) \<Rightarrow> ('e, unit) wm" where
  "upd f s = (Inr (), f s)"

text \<open>A Redis call: a reply that is lost raises \<open>RedisError\<close>.\<close>

definition redis_call :: "call_reply \<Rightarrow> ('e wstate \<Rightarrow> 'e wstate) \<Rightarrow> ('e, unit) wm" where
  "redis_call r f s = (case r of Replied \<Rightarrow> (Inr (), f s) | Unreplied took \<Rightarrow> (Inl (Transient ''RedisError''), if took then f s else s))"

text \<open>\<open>classify_infra_error\<close>, with its callers' reading of the \<open>TypeError\<close>.\<close>

fun transient :: "mem_exc \<Rightarrow> bool" where
  "transient (Transient _) = True"
| "transient (Poison _) = False"
| "transient (Other _) = False"

section \<open>Dead letters\<close>

fun sanitize_json :: "json \<Rightarrow> json" where
  "sanitize_json (JStr s) = JStr (filter (\<lambda>c. c \<noteq> CHR 0x00) s)"
| "sanitize_json (JObj d) = JObj (map (\<lambda>(k, v). (filter (\<lambda>c. c \<noteq> CHR 0x00) k, sanitize_json v)) d)"
| "sanitize_json (JArr xs) = JArr (map sanitize_json xs)"
| "sanitize_json j = j"

definition mem_exc_text :: "mem_exc \<Rightarrow> string" where
  "mem_exc_text e = (case e of Transient t \<Rightarrow> t | Poison t \<Rightarrow> t | Other t \<Rightarrow> t)"

text \<open>\<open>ON CONFLICT (stream_entry_id) DO NOTHING\<close>.\<close>

definition insert_dead :: "dead_row \<Rightarrow> 'e memdb \<Rightarrow> 'e memdb" where
  "insert_dead row db = (if dd_entry row \<in> dd_entry ` set (md_dead db) then db else db\<lparr>md_dead := md_dead db @ [row]\<rparr>)"

definition deadletter :: "weather \<Rightarrow> string \<Rightarrow> string \<Rightarrow> json \<Rightarrow> mem_exc \<Rightarrow> ('e, unit) wm" where
  "deadletter v i ulid payload err s =
    (let s' = s\<lparr>w_db := insert_dead \<lparr>dd_ulid = ulid, dd_payload = sanitize_json payload, dd_error = take 2000 (mem_exc_text err), dd_entry = i\<rparr> (w_db s)\<rparr>
     in case wv_dead v of None \<Rightarrow> (Inr (), s') | Some (e, took) \<Rightarrow> (Inl e, if took then s' else s))"

definition canary_row :: dead_row where
  "canary_row = \<lparr>dd_ulid = ''__canary__'', dd_payload = JObj [], dd_error = ''canary'', dd_entry = ''__canary__''\<rparr>"

definition canary :: "weather \<Rightarrow> ('e, bool) wm" where
  "canary v s = (if wv_canary v then (Inr True, s\<lparr>w_db := insert_dead canary_row (w_db s)\<rparr>) else (Inr False, s))"

section \<open>Results and acknowledgements\<close>

definition dset :: "dict \<Rightarrow> string \<Rightarrow> json \<Rightarrow> dict" where
  "dset d k v = AList.update k v d"

definition failed_receipt :: json where
  "failed_receipt = JObj [(''artefact_outcome'', JStr ''failed''), (''reason'', JStr ''deadlettered'')]"

definition result_envelope :: "json option \<Rightarrow> bool \<Rightarrow> json" where
  "result_envelope r replay =
    (case (case r of Some j \<Rightarrow> (if py_truth j then j else failed_receipt) | None \<Rightarrow> failed_receipt) of
       JObj d \<Rightarrow> JObj (dset d ''duplicate'' (JBool replay)) | j \<Rightarrow> j)"

definition publish_result :: "weather \<Rightarrow> entry \<Rightarrow> json option \<Rightarrow> bool \<Rightarrow> ('e, unit) wm" where
  "publish_result v e r replay =
    (case ce_request e of
       None \<Rightarrow> ret_m ()
     | Some rid \<Rightarrow> bind_m (redis_call (wv_push v) (\<lambda>s. s\<lparr>w_results := w_results s @ [(rid, result_envelope r replay)]\<rparr>))
         (\<lambda>_. redis_call (wv_expire v) id))"

definition ack :: "weather \<Rightarrow> entry \<Rightarrow> ('e, unit) wm" where
  "ack v e s = (case redis_call (wv_ack v) (\<lambda>s. s\<lparr>w_pending := filter (\<lambda>i. i \<noteq> ce_id e) (w_pending s)\<rparr>) s of
     (Inl x, s') \<Rightarrow> (Inl x, s'\<lparr>w_infra := True\<rparr>) | (Inr u, s') \<Rightarrow> (Inr u, s'))"

definition publish_terminal :: "weather \<Rightarrow> entry \<Rightarrow> ('e, unit) wm" where
  "publish_terminal v e = publish_result v e None False"

definition drop_poison :: "entry \<Rightarrow> ('e, unit) wm" where
  "drop_poison e = upd (\<lambda>s. s\<lparr>w_poison := AList.delete (ce_id e) (w_poison s)\<rparr>)"

section \<open>One entry\<close>

definition deadletter_failed :: "weather \<Rightarrow> entry \<Rightarrow> mem_exc \<Rightarrow> ('e, bool option) wm" where
  "deadletter_failed v e err =
    (if transient err then bind_m (upd (\<lambda>s. s\<lparr>w_infra := True\<rparr>)) (\<lambda>_. ret_m None)
     else bind_m (canary v) (\<lambda>up.
       if up then bind_m (drop_poison e) (\<lambda>_. bind_m (upd (\<lambda>s. s\<lparr>w_unstorable := w_unstorable s @ [ce_id e]\<rparr>)) (\<lambda>_.
         bind_m (publish_terminal v e) (\<lambda>_. bind_m (ack v e) (\<lambda>_. ret_m (Some True)))))
       else bind_m (upd (\<lambda>s. s\<lparr>w_sink_open := True, w_poison := [], w_infra := True\<rparr>)) (\<lambda>_. ret_m (Some False))))"

text \<open>\<open>try: m except Exception as x: h(x)\<close>.\<close>

definition try_m :: "('e, 'a) wm \<Rightarrow> (mem_exc \<Rightarrow> ('e, 'b) wm) \<Rightarrow> ('a \<Rightarrow> ('e, 'b) wm) \<Rightarrow> ('e, 'b) wm" where
  "try_m m h k s = (case m s of (Inl x, s') \<Rightarrow> h x s' | (Inr a, s') \<Rightarrow> k a s')"

text \<open>The second half of \<^verbatim>\<open>_retry_or_exhaust\<close>: count the failure, and dead-letter the entry at the limit.\<close>

definition count_poison :: "weather \<Rightarrow> nat \<Rightarrow> entry \<Rightarrow> ('e, unit) wm \<Rightarrow> ('e, bool option) wm" where
  "count_poison v limit e dead s =
    (let n = (case map_of (w_poison s) (ce_id e) of None \<Rightarrow> 0 | Some k \<Rightarrow> k) + 1;
         s' = s\<lparr>w_poison := AList.update (ce_id e) n (w_poison s)\<rparr>
     in if n < limit then (Inr None, s')
        else try_m dead (\<lambda>x. deadletter_failed v e x)
          (\<lambda>_. bind_m (drop_poison e) (\<lambda>_. bind_m (publish_terminal v e) (\<lambda>_. bind_m (ack v e) (\<lambda>_. ret_m (Some True))))) s')"

definition retry_or_exhaust :: "weather \<Rightarrow> nat \<Rightarrow> entry \<Rightarrow> mem_exc \<Rightarrow> ('e, unit) wm \<Rightarrow> ('e, bool option) wm" where
  "retry_or_exhaust v limit e err dead s =
    (if transient err then bind_m (drop_poison e) (\<lambda>_. bind_m (upd (\<lambda>s. s\<lparr>w_infra := True\<rparr>)) (\<lambda>_. ret_m None)) s
     else if w_sink_open s
     then bind_m (canary v) (\<lambda>up. if up then bind_m (upd (\<lambda>s. s\<lparr>w_sink_open := False\<rparr>)) (\<lambda>_. count_poison v limit e dead)
            else bind_m (upd (\<lambda>s. s\<lparr>w_infra := True\<rparr>)) (\<lambda>_. ret_m None)) s
     else count_poison v limit e dead s)"

text \<open>The write of the intent on the connection: it may raise although it was committed.\<close>

definition write_intent ::
  "(string \<Rightarrow> string) \<Rightarrow> (string \<Rightarrow> (mem_exc, 'e) res) \<Rightarrow> weather \<Rightarrow> intent \<Rightarrow> ('e, json \<times> bool) wm" where
  "write_intent sha emb v i s =
    (case handle_write_intent sha emb (wv_now v) (wv_seen1 v) (wv_seen2 v) i (w_db s) of
       (Inl x, db) \<Rightarrow> (Inl x, s\<lparr>w_db := db\<rparr>)
     | (Inr r, db) \<Rightarrow> (case wv_commit v of None \<Rightarrow> (Inr r, s\<lparr>w_db := db\<rparr>)
         | Some (x, took) \<Rightarrow> (Inl x, if took then s\<lparr>w_db := db\<rparr> else s)))"

definition handle_entry ::
  "(string \<Rightarrow> string) \<Rightarrow> (string \<Rightarrow> (mem_exc, 'e) res) \<Rightarrow> nat \<Rightarrow> weather \<Rightarrow> entry \<Rightarrow> ('e, bool option) wm" where
  "handle_entry sha emb limit v e =
    (case ce_intent e of
       Inl msg \<Rightarrow>
         try_m (deadletter v (ce_id e) (ce_ulid e) (JObj [(''raw'', ce_fields e)]) (Other msg))
           (\<lambda>x. deadletter_failed v e x)
           (\<lambda>_. bind_m (publish_terminal v e) (\<lambda>_. bind_m (ack v e) (\<lambda>_. ret_m (Some True))))
     | Inr (payload, i) \<Rightarrow>
         try_m (write_intent sha emb v i)
           (\<lambda>x. retry_or_exhaust v limit e x (deadletter v (ce_id e) (in_ulid i) payload x))
           (\<lambda>(r, replay). bind_m (drop_poison e) (\<lambda>_. bind_m (publish_result v e (Some r) replay) (\<lambda>_. bind_m (ack v e) (\<lambda>_. ret_m (Some True))))))"

section \<open>The loop\<close>

text \<open>What a read meets: the server, a call that raises with or without its effect, or a group that is gone, with all that was pending.\<close>

datatype read_reply = Answered | Faulted bool | Vanished

definition nogroup :: mem_exc where
  "nogroup = Transient ''NOGROUP''"

definition read_group :: "read_reply \<Rightarrow> ('e wstate \<Rightarrow> entry option \<times> 'e wstate) \<Rightarrow> ('e, entry option) wm" where
  "read_group r f s = (case r of
      Answered \<Rightarrow> (if w_group s then (Inr (fst (f s)), snd (f s)) else (Inl nogroup, s))
    | Faulted took \<Rightarrow> (Inl (Transient ''RedisError''), if took \<and> w_group s then snd (f s) else s)
    | Vanished \<Rightarrow> (Inl nogroup, s\<lparr>w_group := False, w_pending := []\<rparr>))"

text \<open>\<open>XREADGROUP\<close> with \<open>">"\<close> delivers the next entry and makes it pending.\<close>

definition next_new :: "'e wstate \<Rightarrow> entry option \<times> 'e wstate" where
  "next_new s =
    (if w_delivered s < w_arrived s
     then (let e = w_stream s ! w_delivered s in (Some e, s\<lparr>w_delivered := w_delivered s + 1, w_pending := w_pending s @ [ce_id e]\<rparr>))
     else (None, s))"

definition read_new :: "read_reply \<Rightarrow> ('e, entry option) wm" where
  "read_new r = read_group r next_new"

text \<open>With an identifier: the first pending entry after it; \<open>"0"\<close> is before all.\<close>

definition pending_after :: "string \<Rightarrow> 'e wstate \<Rightarrow> entry option" where
  "pending_after c s = List.find (\<lambda>e. ce_id e \<in> set (w_pending s))
     (let es = take (w_delivered s) (w_stream s) in if c = ''0'' then es else tl (dropWhile (\<lambda>e. ce_id e \<noteq> c) es))"

definition read_pending :: "read_reply \<Rightarrow> string \<Rightarrow> ('e, entry option) wm" where
  "read_pending r c = read_group r (\<lambda>s. (pending_after c s, s))"

definition step ::
  "(string \<Rightarrow> string) \<Rightarrow> (string \<Rightarrow> (mem_exc, 'e) res) \<Rightarrow> nat \<Rightarrow> read_reply \<Rightarrow> weather \<Rightarrow> ('e, bool option) wm" where
  "step sha emb limit r v = bind_m (read_new r) (\<lambda>x. case x of None \<Rightarrow> ret_m None | Some e \<Rightarrow> handle_entry sha emb limit v e)"

definition tick_pending ::
  "(string \<Rightarrow> string) \<Rightarrow> (string \<Rightarrow> (mem_exc, 'e) res) \<Rightarrow> nat \<Rightarrow> read_reply \<Rightarrow> weather \<Rightarrow> ('e, bool option) wm" where
  "tick_pending sha emb limit r v s =
    bind_m (read_pending r (w_cursor s)) (\<lambda>x. case x of
        None \<Rightarrow> bind_m (upd (\<lambda>s. s\<lparr>w_cursor := ''0''\<rparr>)) (\<lambda>_. ret_m None)
      | Some e \<Rightarrow> bind_m (upd (\<lambda>s. s\<lparr>w_cursor := ce_id e\<rparr>)) (\<lambda>_. handle_entry sha emb limit v e)) s"

definition tick ::
  "(string \<Rightarrow> string) \<Rightarrow> (string \<Rightarrow> (mem_exc, 'e) res) \<Rightarrow> nat \<Rightarrow> read_reply \<Rightarrow> weather \<Rightarrow> read_reply \<Rightarrow> weather \<Rightarrow> ('e, bool option) wm" where
  "tick sha emb limit r1 v1 r2 v2 = bind_m (step sha emb limit r1 v1) (\<lambda>_. tick_pending sha emb limit r2 v2)"

section \<open>A vanished group\<close>

text \<open>The repair: the last identifier is measured, unless that fails or nothing is retained; entries may arrive in between; the group is created from the measured
  identifier, or from the last one at that moment. The record is appended only after a creation that was confirmed.\<close>

record group_repair =
  rp_measured :: bool
  rp_race :: nat
  rp_create :: call_reply
  rp_record :: call_reply

definition arrive :: "nat \<Rightarrow> 'e wstate \<Rightarrow> 'e wstate" where
  "arrive n s = s\<lparr>w_arrived := min (length (w_stream s)) (w_arrived s + n)\<rparr>"

definition repair_missing_group :: "group_repair \<Rightarrow> 'e wstate \<Rightarrow> 'e wstate" where
  "repair_missing_group g s =
    (let exact = rp_measured g \<and> w_arrived s \<noteq> 0;
         s1 = arrive (rp_race g) s;
         start = (if exact then w_arrived s else w_arrived s1);
         made = s1\<lparr>w_group := True, w_delivered := start, w_pending := [], w_starts := w_starts s1 @ [start]\<rparr>;
         told = made\<lparr>w_ledger := w_ledger made @ [(w_reensured made, if exact then Some start else None)]\<rparr>
     in (case rp_create g of
           Unreplied took \<Rightarrow> (if took then made else s1)
         | Replied \<Rightarrow> (case rp_record g of Replied \<Rightarrow> told | Unreplied took \<Rightarrow> (if took then told else made))))"

definition handle_redis_error :: "group_repair \<Rightarrow> mem_exc \<Rightarrow> 'e wstate \<Rightarrow> 'e wstate" where
  "handle_redis_error g x s =
    (let s1 = s\<lparr>w_infra := True\<rparr> in
     if x = nogroup then repair_missing_group g (s1\<lparr>w_reensured := w_reensured s1 + 1\<rparr>) else s1)"

text \<open>\<open>drain_pending\<close> without a limit, over the weather of each round; it also ends when that is used up.\<close>

fun drain_pending ::
  "(string \<Rightarrow> string) \<Rightarrow> (string \<Rightarrow> (mem_exc, 'e) res) \<Rightarrow> nat \<Rightarrow> group_repair \<Rightarrow> (read_reply \<times> weather) list \<Rightarrow> nat \<Rightarrow> ('e, nat) wm" where
  "drain_pending sha emb limit g [] drained = ret_m drained"
| "drain_pending sha emb limit g ((r, v) # ws) drained =
     try_m (read_pending r ''0'') (\<lambda>x. bind_m (upd (handle_redis_error g x)) (\<lambda>_. ret_m drained))
       (\<lambda>x. case x of None \<Rightarrow> ret_m drained
          | Some e \<Rightarrow> bind_m (handle_entry sha emb limit v e) (\<lambda>res.
              if res = Some True then drain_pending sha emb limit g ws (drained + 1) else ret_m drained))"

text \<open>\<open>_run_guarded\<close>: only a Redis fault is caught here, and nothing else is left to be raised.\<close>

definition run_guarded :: "group_repair \<Rightarrow> ('e, 'a) wm \<Rightarrow> 'e wstate \<Rightarrow> 'e wstate" where
  "run_guarded g m s = (case m s of (Inl x, s') \<Rightarrow> handle_redis_error g x s' | (Inr a, s') \<Rightarrow> s')"

record loop_round =
  rd_arrive :: nat
  rd_new :: read_reply
  rd_wnew :: weather
  rd_old :: read_reply
  rd_wold :: weather
  rd_repair :: group_repair

definition run_round ::
  "(string \<Rightarrow> string) \<Rightarrow> (string \<Rightarrow> (mem_exc, 'e) res) \<Rightarrow> nat \<Rightarrow> loop_round \<Rightarrow> 'e wstate \<Rightarrow> 'e wstate" where
  "run_round sha emb limit w s =
     run_guarded (rd_repair w) (tick sha emb limit (rd_new w) (rd_wnew w) (rd_old w) (rd_wold w)) ((arrive (rd_arrive w) s)\<lparr>w_infra := False\<rparr>)"

definition run_ticks ::
  "(string \<Rightarrow> string) \<Rightarrow> (string \<Rightarrow> (mem_exc, 'e) res) \<Rightarrow> nat \<Rightarrow> loop_round list \<Rightarrow> 'e wstate \<Rightarrow> 'e wstate" where
  "run_ticks sha emb limit ws s = foldl (\<lambda>s w. run_round sha emb limit w s) s ws"

definition run ::
  "(string \<Rightarrow> string) \<Rightarrow> (string \<Rightarrow> (mem_exc, 'e) res) \<Rightarrow> nat \<Rightarrow> group_repair \<Rightarrow> (read_reply \<times> weather) list \<Rightarrow> loop_round list \<Rightarrow> 'e wstate \<Rightarrow> 'e wstate" where
  "run sha emb limit g ds ws s =
     run_ticks sha emb limit ws (run_guarded g (drain_pending sha emb limit g ds 0) (s\<lparr>w_infra := False\<rparr>))"

section \<open>What a handling may change\<close>

text \<open>An entry is put away: it has a dead letter, or it was logged as one that cannot be stored. It is accounted when it is put away or its intent was committed.\<close>

definition put_away :: "entry \<Rightarrow> 'e wstate \<Rightarrow> bool" where
  "put_away e s \<longleftrightarrow> ce_id e \<in> dd_entry ` set (md_dead (w_db s)) \<or> ce_id e \<in> set (w_unstorable s)"

definition receipt_of :: "json option \<Rightarrow> json" where
  "receipt_of stored = (case stored of Some r \<Rightarrow> r | None \<Rightarrow> JObj [(''artefact_outcome'', JStr ''unknown'')])"

text \<open>The receipt recorded under the entry's own key.\<close>

definition own_receipt :: "entry \<Rightarrow> json \<Rightarrow> 'e wstate \<Rightarrow> bool" where
  "own_receipt e r s \<longleftrightarrow> (\<exists>p i stored. ce_intent e = Inr (p, i) \<and> map_of (md_idem (w_db s)) (in_ulid i) = Some stored \<and> r = receipt_of stored)"

definition accounted :: "entry \<Rightarrow> 'e wstate \<Rightarrow> bool" where
  "accounted e s \<longleftrightarrow> (\<exists>r. own_receipt e r s) \<or> put_away e s"

text \<open>A result is honest for an entry: it answers the entry's request, with the failure only if the entry was put away, with a receipt only if it is the entry's own.\<close>

definition honest :: "entry \<Rightarrow> string \<times> json \<Rightarrow> 'e wstate \<Rightarrow> bool" where
  "honest e x s \<longleftrightarrow> ce_request e = Some (fst x) \<and>
     (snd x = result_envelope None False \<and> put_away e s \<or> (\<exists>r replay. own_receipt e r s \<and> snd x = result_envelope (Some r) replay))"

definition results_ok :: "'e wstate \<Rightarrow> bool" where
  "results_ok s \<longleftrightarrow> (\<forall>x \<in> set (w_results s). \<exists>e \<in> set (take (w_delivered s) (w_stream s)). honest e x s)"

definition same_group :: "'e wstate \<Rightarrow> 'e wstate \<Rightarrow> bool" where
  "same_group s s' \<longleftrightarrow> w_stream s' = w_stream s \<and> w_arrived s' = w_arrived s \<and> w_delivered s' = w_delivered s \<and> w_group s' = w_group s \<and> w_starts s' = w_starts s"

definition grown :: "'e wstate \<Rightarrow> 'e wstate \<Rightarrow> bool" where
  "grown s s' \<longleftrightarrow> map_of (md_idem (w_db s)) \<subseteq>\<^sub>m map_of (md_idem (w_db s')) \<and>
     dd_entry ` set (md_dead (w_db s)) \<subseteq> dd_entry ` set (md_dead (w_db s')) \<and> set (w_unstorable s) \<subseteq> set (w_unstorable s')"

definition handles :: "entry \<Rightarrow> 'e wstate \<Rightarrow> 'e wstate \<Rightarrow> bool" where
  "handles e s s' \<longleftrightarrow> same_group s s' \<and> grown s s' \<and> (\<exists>new. w_results s' = w_results s @ new \<and> (\<forall>x \<in> set new. honest e x s')) \<and>
     (w_pending s' = w_pending s \<or> w_pending s' = filter (\<lambda>i. i \<noteq> ce_id e) (w_pending s) \<and> accounted e s')"

lemma map_leD: "m \<subseteq>\<^sub>m m' \<Longrightarrow> m k = Some x \<Longrightarrow> m' k = Some x"
  by (metis domI map_le_def)

lemma grown_refl [simp]: "grown s s"
  by (simp add: grown_def)

lemma grown_trans: "grown a b \<Longrightarrow> grown b c \<Longrightarrow> grown a c"
  unfolding grown_def using map_le_trans order_trans by (metis (no_types, opaque_lifting))

lemma grown_put_away: "grown s s' \<Longrightarrow> put_away e s \<Longrightarrow> put_away e s'"
  unfolding grown_def put_away_def by blast

lemma grown_own: "grown s s' \<Longrightarrow> own_receipt e r s \<Longrightarrow> own_receipt e r s'"
  unfolding grown_def own_receipt_def using map_leD by metis

lemma grown_accounted: "grown s s' \<Longrightarrow> accounted e s \<Longrightarrow> accounted e s'"
  unfolding accounted_def using grown_own grown_put_away by blast

lemma grown_honest: "grown s s' \<Longrightarrow> honest e x s \<Longrightarrow> honest e x s'"
  unfolding honest_def using grown_own grown_put_away by blast

lemma same_group_refl [simp]: "same_group s s"
  by (simp add: same_group_def)

lemma same_group_trans: "same_group a b \<Longrightarrow> same_group b c \<Longrightarrow> same_group a c"
  by (simp add: same_group_def)

text \<open>What is known depends on the database and the log only.\<close>

lemma known_fields:
  assumes "w_db s' = w_db s" "w_unstorable s' = w_unstorable s"
  shows "put_away e s' = put_away e s" "own_receipt e r s' = own_receipt e r s" "accounted e s' = accounted e s" "honest e x s' = honest e x s"
  using assms by (simp_all add: put_away_def own_receipt_def accounted_def honest_def)

lemma handles_refl [simp]: "handles e s s"
  by (simp add: handles_def)

lemma handles_trans:
  assumes "handles e a b" "handles e b c"
  shows "handles e a c"
proof -
  have g: "same_group a c" "grown a c" "grown b c"
    using assms grown_trans same_group_trans unfolding handles_def by blast+
  obtain n1 n2 where n: "w_results b = w_results a @ n1" "\<forall>x \<in> set n1. honest e x b" "w_results c = w_results b @ n2" "\<forall>x \<in> set n2. honest e x c"
    using assms unfolding handles_def by blast
  have "w_results c = w_results a @ (n1 @ n2) \<and> (\<forall>x \<in> set (n1 @ n2). honest e x c)"
    using n grown_honest [OF g(3)] by auto
  moreover have "accounted e c" if "accounted e b"
    using grown_accounted [OF g(3) that] .
  ultimately show ?thesis
    using assms g(1,2) unfolding handles_def by (intro conjI exI [of _ "n1 @ n2"]) auto
qed

lemma handles_grown: "handles e s s' \<Longrightarrow> grown s s'"
  by (simp add: handles_def)

text \<open>\<open>touches e P m\<close>: started where \<open>P\<close> holds, \<open>m\<close> changes only what the handling of \<open>e\<close> may change.\<close>

definition touches :: "entry \<Rightarrow> ('e wstate \<Rightarrow> bool) \<Rightarrow> ('e, 'a) wm \<Rightarrow> bool" where
  "touches e P m \<longleftrightarrow> (\<forall>s. P s \<longrightarrow> handles e s (snd (m s)))"

definition stable :: "entry \<Rightarrow> ('e wstate \<Rightarrow> bool) \<Rightarrow> bool" where
  "stable e P \<longleftrightarrow> (\<forall>s s'. handles e s s' \<longrightarrow> P s \<longrightarrow> P s')"

lemma touches_bind:
  assumes "touches e P m" "stable e P" "\<And>a. touches e P (f a)"
  shows "touches e P (bind_m m f)"
  unfolding touches_def
proof (intro allI impI)
  fix s
  assume P: "P s"
  obtain x s' where m: "m s = (x, s')"
    by fastforce
  have h: "handles e s s'"
    using assms(1) P m by (metis touches_def snd_conv)
  show "handles e s (snd (bind_m m f s))"
  proof (cases x)
    case (Inl y)
    then show ?thesis
      using h by (simp add: bind_m_def m)
  next
    case (Inr a)
    have "handles e s' (snd (f a s'))"
      using assms(2,3) h P unfolding touches_def stable_def by blast
    then show ?thesis
      using h Inr handles_trans by (auto simp: bind_m_def m)
  qed
qed

lemma touches_ret [simp]: "touches e P (ret_m a)"
  by (simp add: touches_def ret_m_def)

lemma touches_weaken: "touches e P m \<Longrightarrow> (\<And>s. Q s \<Longrightarrow> P s) \<Longrightarrow> touches e Q m"
  by (auto simp: touches_def)

lemma touches_upd: "(\<And>s. P s \<Longrightarrow> handles e s (f s)) \<Longrightarrow> touches e P (upd f)"
  by (simp add: touches_def upd_def)

lemma touches_redis: "(\<And>s. P s \<Longrightarrow> handles e s (f s)) \<Longrightarrow> touches e P (redis_call r f)"
  by (simp add: touches_def redis_call_def split: call_reply.splits)

lemma stable_known [simp]: "stable e (accounted e)" "stable e (put_away e)" "stable e (\<lambda>s. own_receipt e r s)"
  using grown_accounted grown_put_away grown_own handles_grown unfolding stable_def by blast+

lemma stable_True [simp]: "stable e (\<lambda>s. True)"
  by (simp add: stable_def)

lemma handles_known:
  assumes "w_db s' = w_db s" "w_unstorable s' = w_unstorable s" "w_results s' = w_results s" "w_pending s' = w_pending s" "same_group s s'"
  shows "handles e s s'"
  using assms by (auto simp: handles_def grown_def)

lemma handles_fields [simp]:
  "handles e s (s\<lparr>w_poison := x\<rparr>)" "handles e s (s\<lparr>w_infra := b\<rparr>)" "handles e s (s\<lparr>w_sink_open := b\<rparr>)" "handles e s (s\<lparr>w_cursor := c\<rparr>)"
  "handles e s (s\<lparr>w_sink_open := b, w_poison := x, w_infra := b'\<rparr>)"
  by (rule handles_known; simp add: same_group_def)+

lemma handles_unstorable [simp]: "handles e s (s\<lparr>w_unstorable := w_unstorable s @ us\<rparr>)"
  by (auto simp: handles_def grown_def same_group_def)

lemma handles_db:
  assumes "map_of (md_idem (w_db s)) \<subseteq>\<^sub>m map_of (md_idem db)" "dd_entry ` set (md_dead (w_db s)) \<subseteq> dd_entry ` set (md_dead db)"
  shows "handles e s (s\<lparr>w_db := db\<rparr>)"
  using assms by (simp add: handles_def grown_def same_group_def)

lemma insert_dead_keeps:
  "md_idem (insert_dead row db) = md_idem db" "md_artefacts (insert_dead row db) = md_artefacts db" "md_hints (insert_dead row db) = md_hints db"
  "dd_entry ` set (md_dead db) \<subseteq> dd_entry ` set (md_dead (insert_dead row db))" "dd_entry row \<in> dd_entry ` set (md_dead (insert_dead row db))"
  by (auto simp: insert_dead_def)

lemma handles_dead [simp]: "handles e s (s\<lparr>w_db := insert_dead row (w_db s)\<rparr>)"
  using insert_dead_keeps(4) by (intro handles_db) (simp_all add: insert_dead_keeps)

lemma touches_deadletter [simp]: "touches e P (deadletter v i u payload err)"
  by (simp add: touches_def deadletter_def Let_def split: option.splits)

lemma deadletter_puts_away:
  assumes "deadletter v (ce_id e) u payload err s = (Inr x, s')"
  shows "put_away e s'"
proof -
  define row where "row = \<lparr>dd_ulid = u, dd_payload = sanitize_json payload, dd_error = take 2000 (mem_exc_text err), dd_entry = ce_id e\<rparr>"
  have "s' = s\<lparr>w_db := insert_dead row (w_db s)\<rparr>"
    using assms by (auto simp: deadletter_def row_def Let_def split: option.splits prod.splits)
  then show ?thesis
    using insert_dead_keeps(5) [of row "w_db s"] by (simp add: put_away_def row_def)
qed

lemma touches_canary [simp]: "touches e P (canary v)"
  by (simp add: touches_def canary_def)

lemma touches_drop_poison [simp]: "touches e P (drop_poison e')"
  unfolding drop_poison_def by (rule touches_upd) simp

lemma touches_ack: "touches e (accounted e) (ack v e)"
proof -
  have "handles e s (s\<lparr>w_pending := filter (\<lambda>i. i \<noteq> ce_id e) (w_pending s)\<rparr>)"
    "handles e s (s\<lparr>w_pending := filter (\<lambda>i. i \<noteq> ce_id e) (w_pending s), w_infra := b\<rparr>)" if "accounted e s" for s :: "'a wstate" and b
  proof -
    have "accounted e (s\<lparr>w_pending := filter (\<lambda>i. i \<noteq> ce_id e) (w_pending s)\<rparr>)"
      "accounted e (s\<lparr>w_pending := filter (\<lambda>i. i \<noteq> ce_id e) (w_pending s), w_infra := b\<rparr>)"
      using that known_fields(3) [of "s\<lparr>w_pending := filter (\<lambda>i. i \<noteq> ce_id e) (w_pending s)\<rparr>" s e]
        known_fields(3) [of "s\<lparr>w_pending := filter (\<lambda>i. i \<noteq> ce_id e) (w_pending s), w_infra := b\<rparr>" s e] by simp_all
    then show "handles e s (s\<lparr>w_pending := filter (\<lambda>i. i \<noteq> ce_id e) (w_pending s)\<rparr>)"
      "handles e s (s\<lparr>w_pending := filter (\<lambda>i. i \<noteq> ce_id e) (w_pending s), w_infra := b\<rparr>)"
      by (simp_all add: handles_def grown_def same_group_def)
  qed
  then show ?thesis
    by (auto simp: touches_def ack_def redis_call_def split: call_reply.splits)
qed

lemma handles_result: "honest e x s \<Longrightarrow> handles e s (s\<lparr>w_results := w_results s @ [x]\<rparr>)"
  using known_fields(4) [of "s\<lparr>w_results := w_results s @ [x]\<rparr>" s e x] by (simp add: handles_def grown_def same_group_def)

lemma touches_publish:
  fixes v :: weather
  shows "touches e (\<lambda>s :: 's wstate. case r of None \<Rightarrow> \<not> replay \<and> put_away e s | Some j \<Rightarrow> own_receipt e j s) (publish_result v e r replay)"
proof (cases "ce_request e")
  case (Some rid)
  have h: "honest e (rid, result_envelope r replay) s" if "case r of None \<Rightarrow> \<not> replay \<and> put_away e s | Some j \<Rightarrow> own_receipt e j s" for s :: "'s wstate"
    using that Some by (auto simp: honest_def split: option.splits)
  have "touches e (\<lambda>s :: 's wstate. case r of None \<Rightarrow> \<not> replay \<and> put_away e s | Some j \<Rightarrow> own_receipt e j s) (redis_call (wv_push v)
      (\<lambda>s. s\<lparr>w_results := w_results s @ [(rid, result_envelope r replay)]\<rparr>))"
    by (rule touches_redis) (rule handles_result [OF h])
  moreover have "stable e (\<lambda>s :: 's wstate. case r of None \<Rightarrow> \<not> replay \<and> put_away e s | Some j \<Rightarrow> own_receipt e j s)"
    by (cases r) (auto simp: stable_def intro: grown_put_away [OF handles_grown] grown_own [OF handles_grown])
  ultimately show ?thesis
    unfolding publish_result_def Some option.case by (rule touches_bind) (rule touches_redis, simp)
qed (simp add: publish_result_def)

lemma touches_terminal: "touches e (put_away e) (bind_m (publish_terminal v e) (\<lambda>_. bind_m (ack v e) (\<lambda>_. ret_m x)))"
  unfolding publish_terminal_def
  by (intro touches_bind touches_weaken [OF touches_ack] touches_weaken [OF touches_publish]) (simp_all add: accounted_def)

lemma touches_deadletter_failed:
  fixes P :: "'e wstate \<Rightarrow> bool"
  shows "touches e P (deadletter_failed v e err)"
proof -
  have t: "touches e (\<lambda>s :: 'e wstate. True) (bind_m (upd (\<lambda>s. s\<lparr>w_unstorable := w_unstorable s @ [ce_id e]\<rparr>))
      (\<lambda>_. bind_m (publish_terminal v e) (\<lambda>_. bind_m (ack v e) (\<lambda>_. ret_m (Some True)))))"
    unfolding touches_def
  proof (intro allI impI)
    fix s :: "'e wstate"
    define s1 where "s1 = s\<lparr>w_unstorable := w_unstorable s @ [ce_id e]\<rparr>"
    have "put_away e s1"
      by (simp add: s1_def put_away_def)
    then have "handles e s1 (snd (bind_m (publish_terminal v e) (\<lambda>_. bind_m (ack v e) (\<lambda>_. ret_m (Some True))) s1))"
      using touches_terminal [of e v "Some True", where ?'a = 'e] by (simp add: touches_def)
    then show "handles e s (snd (bind_m (upd (\<lambda>s. s\<lparr>w_unstorable := w_unstorable s @ [ce_id e]\<rparr>))
      (\<lambda>_. bind_m (publish_terminal v e) (\<lambda>_. bind_m (ack v e) (\<lambda>_. ret_m (Some True)))) s))"
      using handles_trans [of e s s1] by (simp add: bind_m_def upd_def s1_def)
  qed
  have "touches e (\<lambda>s :: 'e wstate. True) (deadletter_failed v e err)"
    unfolding deadletter_failed_def using t by (auto intro!: touches_bind touches_upd)
  then show ?thesis
    by (rule touches_weaken) simp
qed

lemma touches_try:
  assumes "touches e P m" "\<And>x. touches e (\<lambda>s. True) (h x)" "\<And>a s s'. P s \<Longrightarrow> m s = (Inr a, s') \<Longrightarrow> handles e s' (snd (k a s'))"
  shows "touches e P (try_m m h k)"
  unfolding touches_def
proof (intro allI impI)
  fix s
  assume P: "P s"
  obtain x s' where m: "m s = (x, s')"
    by fastforce
  have h: "handles e s s'"
    using assms(1) P m by (metis touches_def snd_conv)
  show "handles e s (snd (try_m m h k s))"
  proof (cases x)
    case (Inl y)
    have "handles e s' (snd (h y s'))"
      using assms(2) by (simp add: touches_def)
    then show ?thesis
      using h Inl handles_trans by (auto simp: try_m_def m)
  next
    case (Inr a)
    have "handles e s' (snd (k a s'))"
      using assms(3) P m Inr by blast
    then show ?thesis
      using h Inr handles_trans by (auto simp: try_m_def m)
  qed
qed

lemma touches_then_terminal:
  "touches e (put_away e) (bind_m (drop_poison e) (\<lambda>_. bind_m (publish_terminal v e) (\<lambda>_. bind_m (ack v e) (\<lambda>_. ret_m x))))"
  by (intro touches_bind touches_terminal) simp_all

lemma touches_count_poison:
  fixes dead :: "('e, unit) wm"
  assumes "touches e (\<lambda>s. True) dead" "\<And>s a s'. dead s = (Inr a, s') \<Longrightarrow> put_away e s'"
  shows "touches e (\<lambda>s. True) (count_poison v limit e dead)"
  unfolding touches_def
proof (intro allI impI)
  fix s :: "'e wstate"
  define n where "n = (case map_of (w_poison s) (ce_id e) of None \<Rightarrow> 0 | Some k \<Rightarrow> k) + (1::nat)"
  define s1 where "s1 = s\<lparr>w_poison := AList.update (ce_id e) n (w_poison s)\<rparr>"
  have "touches e (\<lambda>s :: 'e wstate. True) (try_m dead (\<lambda>x. deadletter_failed v e x)
      (\<lambda>_. bind_m (drop_poison e) (\<lambda>_. bind_m (publish_terminal v e) (\<lambda>_. bind_m (ack v e) (\<lambda>_. ret_m (Some True))))))"
    using assms touches_then_terminal [of e v "Some True", where ?'a = 'e]
    by (intro touches_try touches_deadletter_failed) (auto simp: touches_def)
  moreover have "count_poison v limit e dead s = (if n < limit then (Inr None, s1) else try_m dead (\<lambda>x. deadletter_failed v e x)
      (\<lambda>_. bind_m (drop_poison e) (\<lambda>_. bind_m (publish_terminal v e) (\<lambda>_. bind_m (ack v e) (\<lambda>_. ret_m (Some True))))) s1)"
    unfolding count_poison_def Let_def n_def s1_def by (rule refl)
  ultimately have "handles e s1 (snd (count_poison v limit e dead s))"
    by (simp add: touches_def)
  moreover have "handles e s s1"
    by (simp add: s1_def)
  ultimately show "handles e s (snd (count_poison v limit e dead s))"
    using handles_trans by blast
qed

lemma touches_retry:
  fixes dead :: "('e, unit) wm"
  assumes "touches e (\<lambda>s. True) dead" "\<And>s a s'. dead s = (Inr a, s') \<Longrightarrow> put_away e s'"
  shows "touches e (\<lambda>s. True) (retry_or_exhaust v limit e err dead)"
proof -
  have c: "touches e (\<lambda>s. True) (count_poison v limit e dead)"
    by (rule touches_count_poison) (use assms in blast)+
  have 1: "touches e (\<lambda>s :: 'e wstate. True) (bind_m (drop_poison e) (\<lambda>_. bind_m (upd (\<lambda>s. s\<lparr>w_infra := True\<rparr>)) (\<lambda>_. ret_m (None :: bool option))))"
    by (auto intro!: touches_bind touches_upd)
  have 2: "touches e (\<lambda>s :: 'e wstate. True) (bind_m (canary v) (\<lambda>up. if up then bind_m (upd (\<lambda>s. s\<lparr>w_sink_open := False\<rparr>)) (\<lambda>_. count_poison v limit e dead)
            else bind_m (upd (\<lambda>s. s\<lparr>w_infra := True\<rparr>)) (\<lambda>_. ret_m None)))"
    using c by (auto intro!: touches_bind touches_upd)
  show ?thesis
    using 1 2 c by (simp add: touches_def retry_or_exhaust_def)
qed

lemma write_intent_keeps:
  assumes "write_intent sha emb v i s = (x, s')"
  shows "handles e s s'" "x = Inr (r, replay) \<Longrightarrow> \<exists>stored. map_of (md_idem (w_db s')) (in_ulid i) = Some stored \<and> r = receipt_of stored"
proof -
  obtain y db where h: "handle_write_intent sha emb (wv_now v) (wv_seen1 v) (wv_seen2 v) i (w_db s) = (y, db)"
    by fastforce
  have "map_of (md_idem (w_db s)) \<subseteq>\<^sub>m map_of (md_idem db)"
    unfolding map_le_def
  proof
    fix u
    assume "u \<in> dom (map_of (md_idem (w_db s)))"
    then obtain r where "map_of (md_idem (w_db s)) u = Some r"
      by blast
    then show "map_of (md_idem (w_db s)) u = map_of (md_idem db) u"
      using handle_keys(1) [OF h, of u r] by simp
  qed
  then have d: "handles e s (s\<lparr>w_db := db\<rparr>)"
    using handle_dead [OF h] by (intro handles_db) simp_all
  have "s' = s \<or> s' = s\<lparr>w_db := db\<rparr>"
    using assms h by (auto simp: write_intent_def split: sum.splits option.splits if_splits)
  then show "handles e s s'"
    using d by auto
  assume "x = Inr (r, replay)"
  then have "y = Inr (r, replay)" "s' = s\<lparr>w_db := db\<rparr>"
    using assms h by (auto simp: write_intent_def split: sum.splits option.splits)
  then show "\<exists>stored. map_of (md_idem (w_db s')) (in_ulid i) = Some stored \<and> r = receipt_of stored"
    using handle_keys(2) [OF h, of r replay] by (simp add: receipt_of_def)
qed

lemma touches_handle_entry:
  fixes emb :: "string \<Rightarrow> (mem_exc, 'e) res"
  shows "touches e (\<lambda>s. True) (handle_entry sha emb limit v e)"
proof (cases "ce_intent e")
  case (Inl msg)
  have "handles e s' (snd (bind_m (publish_terminal v e) (\<lambda>_. bind_m (ack v e) (\<lambda>_. ret_m (Some True))) s'))" if "put_away e s'" for s' :: "'e wstate"
    using touches_terminal [of e v "Some True", where ?'a = 'e] that by (simp add: touches_def)
  then show ?thesis
    unfolding handle_entry_def Inl sum.case
    by (intro touches_try touches_deadletter_failed touches_deadletter) (use deadletter_puts_away in blast)
next
  case (Inr q)
  obtain payload i where q: "q = (payload, i)"
    by fastforce
  have k: "handles e s' (snd (bind_m (drop_poison e) (\<lambda>_. bind_m (publish_result v e (Some r) replay) (\<lambda>_. bind_m (ack v e) (\<lambda>_. ret_m (Some True)))) s'))"
    if "own_receipt e r s'" for s' :: "'e wstate" and r replay
  proof -
    have "touches e (\<lambda>s :: 'e wstate. own_receipt e r s)
        (bind_m (drop_poison e) (\<lambda>_. bind_m (publish_result v e (Some r) replay) (\<lambda>_. bind_m (ack v e) (\<lambda>_. ret_m (Some True)))))"
      by (intro touches_bind touches_weaken [OF touches_publish] touches_weaken [OF touches_ack]) (auto simp: accounted_def)
    then show ?thesis
      using that by (simp add: touches_def)
  qed
  have a: "own_receipt e r s'" if "write_intent sha emb v i s = (Inr (r, replay), s')" for s s' r replay
    using write_intent_keeps(2) [OF that] Inr q by (auto simp: own_receipt_def)
  show ?thesis
    unfolding handle_entry_def Inr sum.case q prod.case
  proof (rule touches_try)
    have "handles e s (snd (write_intent sha emb v i s))" for s :: "'e wstate"
      by (rule write_intent_keeps(1) [OF prod.collapse [symmetric]])
    then show "touches e (\<lambda>s. True) (write_intent sha emb v i)"
      by (simp add: touches_def)
    show "touches e (\<lambda>s. True) (retry_or_exhaust v limit e x (deadletter v (ce_id e) (in_ulid i) payload x))" for x
      using touches_retry deadletter_puts_away touches_deadletter by blast
    show "handles e s' (snd ((case a of (r, replay) \<Rightarrow> bind_m (drop_poison e) (\<lambda>_. bind_m (publish_result v e (Some r) replay)
        (\<lambda>_. bind_m (ack v e) (\<lambda>_. ret_m (Some True))))) s'))" if "write_intent sha emb v i s = (Inr a, s')" for a s s'
      using k a that by (cases a) auto
  qed
qed

section \<open>The loop keeps every entry\<close>

text \<open>The entries the group's last delivered identifier covers, and those a new start of the group has passed over.\<close>

definition covered :: "'e wstate \<Rightarrow> entry set" where
  "covered s = set (take (w_delivered s) (w_stream s))"

definition passed_over :: "entry \<Rightarrow> 'e wstate \<Rightarrow> bool" where
  "passed_over e s \<longleftrightarrow> (\<exists>b \<in> set (w_starts s). e \<in> set (take b (w_stream s)))"

definition loop_ok :: "'e wstate \<Rightarrow> bool" where
  "loop_ok s \<longleftrightarrow> w_delivered s \<le> w_arrived s \<and> w_arrived s \<le> length (w_stream s) \<and> distinct (map ce_id (w_stream s)) \<and> results_ok s \<and>
     (w_group s \<longrightarrow> (\<forall>e \<in> covered s. ce_id e \<in> set (w_pending s) \<or> accounted e s \<or> passed_over e s))"

lemma covered_in: "e \<in> covered s \<Longrightarrow> e \<in> set (w_stream s)"
  unfolding covered_def by (rule in_set_takeD)

lemma handles_loop_ok:
  assumes "handles e s s'" "loop_ok s" "e \<in> covered s"
  shows "loop_ok s'" "covered s' = covered s"
proof -
  have g: "same_group s s'" "grown s s'"
    using assms(1) by (simp_all add: handles_def)
  then have f: "w_stream s' = w_stream s" "w_arrived s' = w_arrived s" "w_delivered s' = w_delivered s" "w_group s' = w_group s" "w_starts s' = w_starts s"
    by (simp_all add: same_group_def)
  show c: "covered s' = covered s"
    by (simp add: covered_def f)
  have p: "passed_over x s' = passed_over x s" for x
    by (simp add: passed_over_def f)
  obtain new where new: "w_results s' = w_results s @ new" "\<forall>x \<in> set new. honest e x s'"
    using assms(1) by (auto simp: handles_def)
  have "results_ok s'"
    unfolding results_ok_def
  proof
    fix x assume "x \<in> set (w_results s')"
    then consider "x \<in> set (w_results s)" | "x \<in> set new" using new(1) by auto
    then show "\<exists>e \<in> set (take (w_delivered s') (w_stream s')). honest e x s'"
    proof cases
      case 1
      then obtain y where "y \<in> covered s" "honest y x s"
        using assms(2) unfolding loop_ok_def results_ok_def covered_def by blast
      then show ?thesis
        using grown_honest [OF g(2)] c unfolding covered_def by blast
    next
      case 2
      then show ?thesis
        using new(2) assms(3) c unfolding covered_def by blast
    qed
  qed
  moreover have "ce_id x \<in> set (w_pending s') \<or> accounted x s' \<or> passed_over x s'" if x: "x \<in> covered s" "w_group s" for x
  proof (cases "x = e")
    case True
    then show ?thesis
      using assms x grown_accounted [OF g(2)] by (auto simp: handles_def loop_ok_def p)
  next
    case False
    have "inj_on ce_id (set (w_stream s))"
      using assms(2) by (simp add: loop_ok_def distinct_map)
    then have "ce_id x \<noteq> ce_id e"
      using False covered_in [OF x(1)] covered_in [OF assms(3)] by (auto dest: inj_onD)
    then show ?thesis
      using assms(1,2) x grown_accounted [OF g(2)] by (auto simp: handles_def loop_ok_def p)
  qed
  ultimately show "loop_ok s'"
    using assms(2) by (simp add: loop_ok_def f c)
qed

lemma handle_entry_loop_ok:
  assumes "loop_ok s" "e \<in> covered s"
  shows "loop_ok (snd (handle_entry sha emb limit v e s))" "covered (snd (handle_entry sha emb limit v e s)) = covered s"
proof -
  have "handles e s (snd (handle_entry sha emb limit v e s))"
    using touches_handle_entry [of e sha emb limit v] by (simp add: touches_def)
  then show "loop_ok (snd (handle_entry sha emb limit v e s))" "covered (snd (handle_entry sha emb limit v e s)) = covered s"
    using handles_loop_ok assms by blast+
qed

text \<open>Two states that agree on all the invariant speaks of.\<close>

lemma loop_ok_agree:
  assumes "w_db s' = w_db s" "w_unstorable s' = w_unstorable s" "w_results s' = w_results s" "w_stream s' = w_stream s" "w_delivered s' = w_delivered s"
    "w_starts s' = w_starts s" "w_group s' \<longrightarrow> w_group s \<and> w_pending s' = w_pending s" "w_delivered s' \<le> w_arrived s'" "w_arrived s' \<le> length (w_stream s')" "loop_ok s"
  shows "loop_ok s'"
  using assms known_fields [OF assms(1,2)] by (simp add: loop_ok_def results_ok_def covered_def passed_over_def)

lemma loop_ok_fields [simp]:
  assumes "loop_ok s"
  shows "loop_ok (s\<lparr>w_infra := b\<rparr>)" "loop_ok (s\<lparr>w_cursor := c\<rparr>)" "loop_ok (s\<lparr>w_reensured := n\<rparr>)" "loop_ok (s\<lparr>w_ledger := l\<rparr>)" "loop_ok (arrive a s)"
    "loop_ok (s\<lparr>w_group := False, w_pending := []\<rparr>)"
  by (rule loop_ok_agree [OF _ _ _ _ _ _ _ _ _ assms]; use assms in \<open>simp add: loop_ok_def arrive_def\<close>)+

lemma covered_fields [simp]:
  "covered (s\<lparr>w_infra := b\<rparr>) = covered s" "covered (s\<lparr>w_cursor := c\<rparr>) = covered s" "covered (s\<lparr>w_group := g, w_pending := p\<rparr>) = covered s"
  by (simp_all add: covered_def)

lemma next_new_loop_ok:
  assumes "next_new s = (x, s')" "loop_ok s"
  shows "loop_ok s'" "x = Some e \<Longrightarrow> e \<in> covered s'"
proof -
  let ?e = "w_stream s ! w_delivered s"
  let ?s = "s\<lparr>w_delivered := Suc (w_delivered s), w_pending := w_pending s @ [ce_id ?e]\<rparr>"
  have "loop_ok ?s \<and> ?e \<in> covered ?s" if l: "w_delivered s < w_arrived s"
  proof -
    have c: "covered ?s = insert ?e (covered s)"
      using l assms(2) by (simp add: covered_def loop_ok_def take_Suc_conv_app_nth)
    have k: "honest x y ?s = honest x y s" "accounted x ?s = accounted x s" for x y
      by (rule known_fields; simp)+
    have p: "passed_over x ?s = passed_over x s" for x
      by (simp add: passed_over_def)
    have "results_ok ?s"
      using assms(2) c unfolding loop_ok_def results_ok_def covered_def k by fastforce
    then show ?thesis
      using assms(2) l by (auto simp: loop_ok_def c k p)
  qed
  moreover have "x = None \<and> s' = s \<or> (w_delivered s < w_arrived s \<and> x = Some ?e \<and> s' = ?s)"
    using assms(1) by (auto simp: next_new_def Let_def split: if_splits)
  ultimately show "loop_ok s'" "x = Some e \<Longrightarrow> e \<in> covered s'"
    using assms(2) by auto
qed

lemma find_in: "List.find P xs = Some x \<Longrightarrow> x \<in> set xs"
  by (auto simp: find_Some_iff)

lemma pending_after_in:
  assumes "pending_after c s = Some e"
  shows "e \<in> covered s" "ce_id e \<in> set (w_pending s)"
proof -
  have tl: "set (tl ys) \<subseteq> set ys" for ys :: "entry list"
    by (cases ys) auto
  show "e \<in> covered s"
    using find_in [OF assms [unfolded pending_after_def Let_def]] tl set_dropWhileD by (fastforce simp: covered_def split: if_splits)
  show "ce_id e \<in> set (w_pending s)"
    using assms by (auto simp: pending_after_def Let_def find_Some_iff)
qed

lemma read_new_loop_ok:
  assumes "read_new r s = (x, s')" "loop_ok s"
  shows "loop_ok s'" "x = Inr (Some e) \<Longrightarrow> e \<in> covered s'"
proof -
  obtain y s1 where n: "next_new s = (y, s1)"
    by fastforce
  note nn = next_new_loop_ok [OF n assms(2)]
  show "loop_ok s'" "x = Inr (Some e) \<Longrightarrow> e \<in> covered s'"
    using assms n nn by (auto simp: read_new_def read_group_def split: read_reply.splits if_splits)
qed

lemma read_pending_loop_ok:
  assumes "read_pending r c s = (x, s')" "loop_ok s"
  shows "loop_ok s'" "x = Inr (Some e) \<Longrightarrow> e \<in> covered s'"
  using assms pending_after_in(1) by (auto simp: read_pending_def read_group_def split: read_reply.splits if_splits)

lemma step_loop_ok: "loop_ok s \<Longrightarrow> loop_ok (snd (step sha emb limit r v s))"
proof -
  assume s: "loop_ok s"
  obtain x s1 where x: "read_new r s = (x, s1)"
    by fastforce
  note n = read_new_loop_ok [OF x s]
  show ?thesis
  proof (cases x)
    case (Inr y)
    then show ?thesis
      using x n handle_entry_loop_ok [of s1] by (cases y) (simp_all add: step_def bind_m_def ret_m_def)
  qed (use x n in \<open>simp add: step_def bind_m_def\<close>)
qed

lemma tick_pending_loop_ok: "loop_ok s \<Longrightarrow> loop_ok (snd (tick_pending sha emb limit r v s))"
proof -
  assume s: "loop_ok s"
  obtain x s1 where x: "read_pending r (w_cursor s) s = (x, s1)"
    by fastforce
  note n = read_pending_loop_ok [OF x s]
  show ?thesis
  proof (cases x)
    case (Inr y)
    show ?thesis
    proof (cases y)
      case None
      then show ?thesis
        using x n Inr by (simp add: tick_pending_def bind_m_def upd_def ret_m_def)
    next
      case (Some e)
      then have "e \<in> covered (s1\<lparr>w_cursor := ce_id e\<rparr>)" "loop_ok (s1\<lparr>w_cursor := ce_id e\<rparr>)"
        using n Inr by simp_all
      from handle_entry_loop_ok(1) [OF this(2,1)] show ?thesis
        using x Inr Some by (simp add: tick_pending_def bind_m_def upd_def)
    qed
  qed (use x n in \<open>simp add: tick_pending_def bind_m_def\<close>)
qed

lemma tick_loop_ok:
  assumes "loop_ok s"
  shows "loop_ok (snd (tick sha emb limit r1 v1 r2 v2 s))"
proof -
  obtain x s1 where x: "step sha emb limit r1 v1 s = (x, s1)"
    by fastforce
  have "loop_ok s1"
    using step_loop_ok [OF assms, of sha emb limit r1 v1] x by simp
  then show ?thesis
    using x tick_pending_loop_ok by (cases x) (simp_all add: tick_def bind_m_def)
qed

lemma repair_loop_ok:
  assumes "loop_ok s"
  shows "loop_ok (repair_missing_group g s)"
proof -
  let ?made = "\<lambda>start. (arrive (rp_race g) s)\<lparr>w_group := True, w_delivered := start, w_pending := [], w_starts := w_starts (arrive (rp_race g) s) @ [start]\<rparr>"
  have "loop_ok (?made start)" if b: "w_arrived s \<le> start" "start \<le> w_arrived (arrive (rp_race g) s)" for start
  proof -
    have k: "honest e x (?made start) = honest e x s" for e x
      by (rule known_fields) (simp_all add: arrive_def)
    have l: "w_delivered s \<le> start" "start \<le> length (w_stream s)"
      using assms b by (auto simp: loop_ok_def arrive_def)
    have "set (take (w_delivered s) (w_stream s)) \<subseteq> set (take start (w_stream s))"
      by (rule set_take_subset_set_take [OF l(1)])
    then have "results_ok (?made start)"
      using assms unfolding loop_ok_def results_ok_def k by (fastforce simp: arrive_def)
    then show ?thesis
      using assms b by (auto simp: loop_ok_def covered_def passed_over_def arrive_def)
  qed
  moreover have "w_arrived s \<le> w_arrived (arrive (rp_race g) s)"
    using assms by (simp add: loop_ok_def arrive_def)
  ultimately show ?thesis
    using assms by (auto simp: repair_missing_group_def Let_def split: call_reply.splits)
qed

lemma handle_redis_error_loop_ok: "loop_ok s \<Longrightarrow> loop_ok (handle_redis_error g x s)"
  by (simp add: handle_redis_error_def repair_loop_ok Let_def)

lemma drain_loop_ok: "loop_ok s \<Longrightarrow> loop_ok (snd (drain_pending sha emb limit g ws n s))"
proof (induction sha emb limit g ws n arbitrary: s rule: drain_pending.induct)
  case (2 sha emb limit g r v ws n)
  obtain x s1 where x: "read_pending r ''0'' s = (x, s1)"
    by fastforce
  note rp = read_pending_loop_ok [OF x 2(2)]
  show ?case
  proof (cases x)
    case (Inl y)
    then show ?thesis
      using x rp handle_redis_error_loop_ok by (simp add: try_m_def upd_def bind_m_def ret_m_def)
  next
    case (Inr y)
    show ?thesis
    proof (cases y)
      case (Some e)
      obtain z s2 where z: "handle_entry sha emb limit v e s1 = (z, s2)"
        by fastforce
      have s2: "loop_ok s2"
        using handle_entry_loop_ok(1) [of s1 e sha emb limit v] rp Inr Some z by simp
      then show ?thesis
        using 2(1) x z Inr Some by (cases z) (auto simp: try_m_def bind_m_def ret_m_def)
    qed (use x rp Inr in \<open>simp add: try_m_def ret_m_def\<close>)
  qed
qed (simp add: ret_m_def)

lemma run_guarded_loop_ok: "loop_ok (snd (m s)) \<Longrightarrow> loop_ok (run_guarded g m s)"
  by (auto simp: run_guarded_def handle_redis_error_loop_ok split: sum.splits prod.splits)

lemma run_round_loop_ok: "loop_ok s \<Longrightarrow> loop_ok (run_round sha emb limit w s)"
  unfolding run_round_def by (intro run_guarded_loop_ok tick_loop_ok) simp

lemma run_ticks_loop_ok: "loop_ok s \<Longrightarrow> loop_ok (run_ticks sha emb limit ws s)"
  by (induction ws arbitrary: s) (simp_all add: run_ticks_def run_round_loop_ok)

section \<open>A group that is never lost\<close>

text \<open>All that escapes a handling is a Redis fault that is not a missing group.\<close>

definition redis_only :: "('e, 'a) wm \<Rightarrow> bool" where
  "redis_only m \<longleftrightarrow> (\<forall>s x s'. m s = (Inl x, s') \<longrightarrow> x = Transient ''RedisError'')"

lemma redis_only_bind: "redis_only m \<Longrightarrow> (\<And>a. redis_only (f a)) \<Longrightarrow> redis_only (bind_m m f)"
  unfolding redis_only_def bind_m_def by (auto split: sum.splits prod.splits)

lemma redis_only_try: "(\<And>x. redis_only (h x)) \<Longrightarrow> (\<And>a. redis_only (k a)) \<Longrightarrow> redis_only (try_m m h k)"
  unfolding redis_only_def try_m_def by (auto split: sum.splits prod.splits)

lemma redis_only_prims [simp]:
  "redis_only (ret_m a)" "redis_only (upd f)" "redis_only (redis_call r f)" "redis_only (canary v)" "redis_only (drop_poison e)" "redis_only (ack v e)"
  by (auto simp: redis_only_def ret_m_def upd_def redis_call_def canary_def drop_poison_def ack_def split: call_reply.splits)

lemma redis_only_publish [simp]: "redis_only (publish_result v e r replay)" "redis_only (publish_terminal v e)"
  by (auto simp: publish_terminal_def publish_result_def intro!: redis_only_bind split: option.splits)

lemma redis_only_failed: "redis_only (deadletter_failed v e x)"
  unfolding deadletter_failed_def by (auto intro!: redis_only_bind)

lemma redis_only_count: "redis_only (count_poison v limit e dead)"
proof -
  have "redis_only (try_m dead (\<lambda>x. deadletter_failed v e x)
      (\<lambda>_. bind_m (drop_poison e) (\<lambda>_. bind_m (publish_terminal v e) (\<lambda>_. bind_m (ack v e) (\<lambda>_. ret_m (Some True))))))"
    by (intro redis_only_try redis_only_failed redis_only_bind redis_only_prims redis_only_publish)
  then show ?thesis
    unfolding redis_only_def count_poison_def Let_def by auto
qed

lemma redis_only_retry: "redis_only (retry_or_exhaust v limit e err dead)"
proof -
  have 1: "redis_only (bind_m (drop_poison e) (\<lambda>_. bind_m (upd (\<lambda>s. s\<lparr>w_infra := True\<rparr>)) (\<lambda>_. ret_m None)))"
    by (intro redis_only_bind redis_only_prims)
  have 2: "redis_only (bind_m (canary v) (\<lambda>up. if up then bind_m (upd (\<lambda>s. s\<lparr>w_sink_open := False\<rparr>)) (\<lambda>_. count_poison v limit e dead)
            else bind_m (upd (\<lambda>s. s\<lparr>w_infra := True\<rparr>)) (\<lambda>_. ret_m None)))"
    by (auto intro!: redis_only_bind redis_only_count)
  show ?thesis
    using 1 2 redis_only_count [of v limit e dead] unfolding redis_only_def retry_or_exhaust_def by auto
qed

lemma redis_only_handle: "redis_only (handle_entry sha emb limit v e)"
  unfolding handle_entry_def
  by (auto split: sum.splits prod.splits intro!: redis_only_try redis_only_failed redis_only_retry redis_only_bind)

definition kept_group :: "'e wstate \<Rightarrow> 'e wstate \<Rightarrow> bool" where
  "kept_group s s' \<longleftrightarrow> w_group s' = w_group s \<and> w_starts s' = w_starts s"

definition keeps_group :: "('e, 'a) wm \<Rightarrow> bool" where
  "keeps_group m \<longleftrightarrow> (\<forall>s x s'. w_group s \<longrightarrow> m s = (x, s') \<longrightarrow> kept_group s s' \<and> (\<forall>y. x = Inl y \<longrightarrow> y = Transient ''RedisError''))"

lemma keeps_groupD:
  assumes "keeps_group m" "w_group s" "m s = (x, s')"
  shows "kept_group s s'" "x = Inl y \<Longrightarrow> y = Transient ''RedisError''"
  using assms unfolding keeps_group_def by blast+

lemma kept_group_trans: "kept_group a b \<Longrightarrow> kept_group b c \<Longrightarrow> kept_group a c"
  by (simp add: kept_group_def)

lemma keeps_group_bind:
  assumes "keeps_group m" "\<And>a. keeps_group (f a)"
  shows "keeps_group (bind_m m f)"
  unfolding keeps_group_def
proof (intro allI impI)
  fix s x s'
  assume s: "w_group s" "bind_m m f s = (x, s')"
  obtain y s1 where y: "m s = (y, s1)"
    by fastforce
  note k = keeps_groupD [OF assms(1) s(1) y]
  show "kept_group s s' \<and> (\<forall>y. x = Inl y \<longrightarrow> y = Transient ''RedisError'')"
  proof (cases y)
    case (Inl z)
    then show ?thesis
      using s(2) y k by (auto simp: bind_m_def)
  next
    case (Inr a)
    have "w_group s1" "f a s1 = (x, s')"
      using k(1) s y Inr by (simp_all add: kept_group_def bind_m_def)
    then show ?thesis
      using keeps_groupD [OF assms(2)] kept_group_trans [OF k(1)] by blast
  qed
qed

lemma keeps_group_handle: "keeps_group (handle_entry sha emb limit v e)"
proof -
  have "same_group s (snd (handle_entry sha emb limit v e s))" for s :: "'a wstate"
    using touches_handle_entry [of e sha emb limit v] by (auto simp: touches_def handles_def)
  then show ?thesis
    using redis_only_handle [of sha emb limit v e] unfolding keeps_group_def redis_only_def same_group_def kept_group_def by (metis snd_conv)
qed

lemma keeps_group_prims [simp]: "keeps_group (ret_m a)" "keeps_group (upd (\<lambda>s. s\<lparr>w_cursor := c\<rparr>))"
  by (simp_all add: keeps_group_def ret_m_def upd_def kept_group_def)

lemma keeps_group_reads:
  assumes "r \<noteq> Vanished"
  shows "keeps_group (read_new r)" "keeps_group (read_pending r c)"
  using assms by (auto simp: keeps_group_def read_new_def read_pending_def read_group_def next_new_def kept_group_def Let_def split: read_reply.splits if_splits)

lemma keeps_group_tick:
  assumes "r1 \<noteq> Vanished" "r2 \<noteq> Vanished"
  shows "keeps_group (tick sha emb limit r1 v1 r2 v2)"
proof -
  have "keeps_group (step sha emb limit r1 v1)"
    unfolding step_def by (auto split: option.splits intro!: keeps_group_bind keeps_group_reads keeps_group_handle assms)
  moreover have "keeps_group (tick_pending sha emb limit r2 v2)"
  proof -
    have "keeps_group (bind_m (read_pending r2 c) (\<lambda>x. case x of
        None \<Rightarrow> bind_m (upd (\<lambda>s. s\<lparr>w_cursor := ''0''\<rparr>)) (\<lambda>_. ret_m None)
      | Some e \<Rightarrow> bind_m (upd (\<lambda>s. s\<lparr>w_cursor := ce_id e\<rparr>)) (\<lambda>_. handle_entry sha emb limit v2 e)))" for c
      by (auto split: option.splits intro!: keeps_group_bind keeps_group_reads keeps_group_handle assms)
    then show ?thesis
      unfolding keeps_group_def tick_pending_def by blast
  qed
  ultimately show ?thesis
    unfolding tick_def by (rule keeps_group_bind)
qed

lemma guarded_keeps_group: "keeps_group m \<Longrightarrow> w_group s \<Longrightarrow> kept_group s (run_guarded g m s)"
proof -
  assume m: "keeps_group m" "w_group s"
  obtain x s' where x: "m s = (x, s')"
    by fastforce
  note k = keeps_groupD [OF m x]
  show ?thesis
  proof (cases x)
    case (Inl y)
    then have "run_guarded g m s = s'\<lparr>w_infra := True\<rparr>"
      using x k(2) by (simp add: run_guarded_def handle_redis_error_def nogroup_def)
    then show ?thesis
      using k(1) by (simp add: kept_group_def)
  qed (use x k in \<open>simp add: run_guarded_def\<close>)
qed

lemma drain_keeps_group:
  "\<forall>(r, v) \<in> set ws. r \<noteq> Vanished \<Longrightarrow> keeps_group (drain_pending sha emb limit g ws n)"
proof (induction sha emb limit g ws n rule: drain_pending.induct)
  case (2 sha emb limit g r v ws n)
  have h: "keeps_group (bind_m (handle_entry sha emb limit v e) (\<lambda>res. if res = Some True then drain_pending sha emb limit g ws (n + 1) else ret_m n))" for e
    using 2 by (intro keeps_group_bind keeps_group_handle) auto
  have r: "keeps_group (read_pending r ''0'' :: ('a, entry option) wm)"
    by (rule keeps_group_reads) (use 2 in simp)
  show ?case
    unfolding keeps_group_def
  proof (intro allI impI)
    fix s :: "'a wstate" and x s'
    assume s: "w_group s" "drain_pending sha emb limit g ((r, v) # ws) n s = (x, s')"
    obtain y s1 where y: "read_pending r ''0'' s = (y, s1)"
      by fastforce
    have k: "kept_group s s1" "\<And>z. y = Inl z \<Longrightarrow> z = Transient ''RedisError''"
      using keeps_groupD [OF r s(1) y] by blast+
    show "kept_group s s' \<and> (\<forall>z. x = Inl z \<longrightarrow> z = Transient ''RedisError'')"
    proof (cases y)
      case (Inl z)
      then show ?thesis
        using s(2) y k by (auto simp: try_m_def bind_m_def upd_def ret_m_def handle_redis_error_def nogroup_def kept_group_def)
    next
      case (Inr z)
      show ?thesis
      proof (cases z)
        case None
        then show ?thesis
          using s(2) y k Inr by (auto simp: try_m_def ret_m_def)
      next
        case (Some e)
        then have "bind_m (handle_entry sha emb limit v e) (\<lambda>res. if res = Some True then drain_pending sha emb limit g ws (n + 1) else ret_m n) s1 = (x, s')"
          using s(2) y Inr by (simp add: try_m_def)
        moreover have "w_group s1"
          using k(1) s(1) by (simp add: kept_group_def)
        ultimately show ?thesis
          using keeps_groupD [OF h] kept_group_trans [OF k(1)] by blast
      qed
    qed
  qed
qed simp

definition steady :: "loop_round \<Rightarrow> bool" where
  "steady w \<longleftrightarrow> rd_new w \<noteq> Vanished \<and> rd_old w \<noteq> Vanished"

lemma round_keeps_group:
  assumes "steady w" "w_group s"
  shows "kept_group s (run_round sha emb limit w s)"
proof -
  have "w_group ((arrive (rd_arrive w) s)\<lparr>w_infra := False\<rparr>)"
    using assms(2) by (simp add: arrive_def)
  from guarded_keeps_group [OF keeps_group_tick this] show ?thesis
    using assms by (simp add: run_round_def kept_group_def arrive_def steady_def)
qed

lemma ticks_keep_group: "\<forall>w \<in> set ws. steady w \<Longrightarrow> w_group s \<Longrightarrow> kept_group s (run_ticks sha emb limit ws s)"
proof (induction ws arbitrary: s)
  case (Cons w ws)
  have "kept_group s (run_round sha emb limit w s)"
    using Cons.prems by (intro round_keeps_group) auto
  then show ?case
    using Cons.IH [of "run_round sha emb limit w s"] Cons.prems by (simp add: run_ticks_def kept_group_def)
qed (simp add: run_ticks_def kept_group_def)

section \<open>Entries that keep failing\<close>

definition all_replied :: "weather \<Rightarrow> bool" where
  "all_replied v \<longleftrightarrow> wv_dead v = None \<and> wv_push v = Replied \<and> wv_expire v = Replied \<and> wv_ack v = Replied"

text \<open>A round in which nothing arrives and every call the loop needs for its own book-keeping is answered; the writes themselves may fail.\<close>

definition quiet_round :: "loop_round \<Rightarrow> bool" where
  "quiet_round w \<longleftrightarrow> rd_arrive w = 0 \<and> rd_new w = Answered \<and> rd_old w = Answered \<and> all_replied (rd_wold w)"

definition failures :: "entry \<Rightarrow> 'e wstate \<Rightarrow> nat" where
  "failures e s = (case map_of (w_poison s) (ce_id e) of None \<Rightarrow> 0 | Some k \<Rightarrow> k)"

text \<open>The write of an intent fails, and not for a transient reason, whatever is stored, as long as its key is not.\<close>

definition write_fails :: "(string \<Rightarrow> string) \<Rightarrow> (string \<Rightarrow> (mem_exc, 'e) res) \<Rightarrow> weather \<Rightarrow> intent \<Rightarrow> bool" where
  "write_fails sha emb v i \<longleftrightarrow> (\<forall>s. map_of (md_idem (w_db s)) (in_ulid i) = None \<longrightarrow>
     (\<exists>x n. \<not> transient x \<and> write_intent sha emb v i s = (Inl x, s\<lparr>w_db := (w_db s)\<lparr>md_next := n\<rparr>\<rparr>)))"

text \<open>Three ways to fail: a hint without a text, or one that cannot be embedded; an artefact that cannot be read; a commit the database refuses.\<close>

lemma write_fails_hints:
  assumes "prepare_hints emb (in_hints i) = Inl x" "\<not> transient x"
  shows "write_fails sha emb v i"
  unfolding write_fails_def
proof (intro allI impI)
  fix s :: "'a wstate"
  have "write_intent sha emb v i s = (Inl x, s\<lparr>w_db := (w_db s)\<lparr>md_next := md_next (w_db s)\<rparr>\<rparr>)"
    using assms(1) by (simp add: write_intent_def handle_write_intent_def)
  then show "\<exists>x n. \<not> transient x \<and> write_intent sha emb v i s = (Inl x, s\<lparr>w_db := (w_db s)\<lparr>md_next := n\<rparr>\<rparr>)"
    using assms(2) by blast
qed

lemma write_fails_artefact:
  assumes "prepare_hints emb (in_hints i) = Inr hs" "in_artefact i = Some ai" "ai_unread ai = Some x" "\<not> transient x"
  shows "write_fails sha emb v i"
  unfolding write_fails_def
proof (intro allI impI)
  fix s :: "'a wstate"
  assume "map_of (md_idem (w_db s)) (in_ulid i) = None"
  then have "write_intent sha emb v i s = (Inl x, s\<lparr>w_db := (w_db s)\<lparr>md_next := md_next (w_db s)\<rparr>\<rparr>)"
    using assms(1-3) by (simp add: write_intent_def handle_write_intent_def atomically_def keyed_write_def write_artefact_and_hints_def
        write_body_def upsert_artefact_def)
  then show "\<exists>x n. \<not> transient x \<and> write_intent sha emb v i s = (Inl x, s\<lparr>w_db := (w_db s)\<lparr>md_next := n\<rparr>\<rparr>)"
    using assms(4) by blast
qed

lemma write_fails_commit:
  assumes "wv_commit v = Some (x, False)" "\<not> transient x"
    and "\<And>db y d. handle_write_intent sha emb (wv_now v) (wv_seen1 v) (wv_seen2 v) i db = (Inl y, d) \<Longrightarrow> \<not> transient y"
  shows "write_fails sha emb v i"
  unfolding write_fails_def
proof (intro allI impI)
  fix s :: "'a wstate"
  obtain r db where h: "handle_write_intent sha emb (wv_now v) (wv_seen1 v) (wv_seen2 v) i (w_db s) = (r, db)"
    by fastforce
  show "\<exists>x n. \<not> transient x \<and> write_intent sha emb v i s = (Inl x, s\<lparr>w_db := (w_db s)\<lparr>md_next := n\<rparr>\<rparr>)"
  proof (cases r)
    case (Inl y)
    then have "\<not> transient y" "\<exists>n. db = (w_db s)\<lparr>md_next := n\<rparr>"
      using assms(3) h by (auto elim: handle_cases)
    then show ?thesis
      using h Inl by (auto simp: write_intent_def)
  next
    case (Inr q)
    then have "write_intent sha emb v i s = (Inl x, s\<lparr>w_db := (w_db s)\<lparr>md_next := md_next (w_db s)\<rparr>\<rparr>)"
      using h assms(1) by (simp add: write_intent_def)
    then show ?thesis
      using assms(2) by blast
  qed
qed

text \<open>The handling of another entry leaves this one alone.\<close>

definition passes_by :: "entry \<Rightarrow> string \<Rightarrow> 'e wstate \<Rightarrow> 'e wstate \<Rightarrow> bool" where
  "passes_by e u s s' \<longleftrightarrow> same_group s s' \<and> w_sink_open s' = w_sink_open s \<and> w_cursor s' = w_cursor s \<and>
     set (w_pending s') \<subseteq> set (w_pending s) \<and> (ce_id e \<in> set (w_pending s') \<longleftrightarrow> ce_id e \<in> set (w_pending s)) \<and>
     failures e s' = failures e s \<and> map_of (md_idem (w_db s')) u = map_of (md_idem (w_db s)) u \<and>
     (ce_id e \<in> dd_entry ` set (md_dead (w_db s')) \<longleftrightarrow> ce_id e \<in> dd_entry ` set (md_dead (w_db s))) \<and> set (w_results s) \<subseteq> set (w_results s')"

lemma handle_other_key:
  assumes "handle_write_intent sha emb now seen1 seen2 j db = (x, db')" "in_ulid j \<noteq> u"
  shows "map_of (md_idem db') u = map_of (md_idem db) u"
  using assms(1)
proof (cases rule: handle_cases)
  case (fresh hints r db1)
  have "md_idem db1 = md_idem db @ [(in_ulid j, None)]"
    using write_body_keys [OF fresh(4)] by simp
  then show ?thesis
    using fresh(5) assms(2) by (simp add: update_conv' map_add_def split: option.splits)
qed simp_all

lemma write_intent_other:
  assumes "write_intent sha emb v j s = (x, s')" "in_ulid j \<noteq> u"
  shows "\<exists>db. s' = s\<lparr>w_db := db\<rparr> \<and> map_of (md_idem db) u = map_of (md_idem (w_db s)) u \<and> md_dead db = md_dead (w_db s)"
proof -
  obtain y db where h: "handle_write_intent sha emb (wv_now v) (wv_seen1 v) (wv_seen2 v) j (w_db s) = (y, db)"
    by fastforce
  have db: "map_of (md_idem db) u = map_of (md_idem (w_db s)) u" "md_dead db = md_dead (w_db s)"
    by (rule handle_other_key [OF h assms(2)]) (rule handle_dead [OF h])
  have "s' = s \<or> s' = s\<lparr>w_db := db\<rparr>"
    using assms(1) h by (auto simp: write_intent_def split: sum.splits option.splits if_splits)
  then show ?thesis
  proof
    assume "s' = s"
    then show ?thesis
      by (intro exI [of _ "w_db s"]) simp
  next
    assume "s' = s\<lparr>w_db := db\<rparr>"
    then show ?thesis
      using db by blast
  qed
qed

lemma spares_trans: "passes_by e u a b \<Longrightarrow> passes_by e u b c \<Longrightarrow> passes_by e u a c"
  unfolding passes_by_def by (intro conjI) (elim conjE; (erule (1) same_group_trans | simp | (erule (1) order_trans)))+

lemma spares_db: "map_of (md_idem db) u = map_of (md_idem (w_db s)) u \<Longrightarrow> md_dead db = md_dead (w_db s) \<Longrightarrow> passes_by e u s (s\<lparr>w_db := db\<rparr>)"
  by (simp add: passes_by_def same_group_def failures_def)

lemma insert_dead_other:
  "dd_entry row \<noteq> i \<Longrightarrow> i \<in> dd_entry ` set (md_dead (insert_dead row db)) \<longleftrightarrow> i \<in> dd_entry ` set (md_dead db)"
  by (auto simp: insert_dead_def)

lemma terminal_replied:
  assumes "all_replied v"
  shows "bind_m (publish_terminal v f) (\<lambda>_. bind_m (ack v f) (\<lambda>_. ret_m x)) s = (Inr x, s\<lparr>w_results := w_results s @
       (case ce_request f of None \<Rightarrow> [] | Some rid \<Rightarrow> [(rid, result_envelope None False)]), w_pending := filter (\<lambda>i. i \<noteq> ce_id f) (w_pending s)\<rparr>)"
  using assms by (simp add: all_replied_def bind_m_def publish_terminal_def publish_result_def redis_call_def ack_def ret_m_def split: option.splits)

lemma spares_terminal:
  assumes "all_replied v" "ce_id f \<noteq> ce_id e"
  shows "passes_by e u s (snd (bind_m (publish_terminal v f) (\<lambda>_. bind_m (ack v f) (\<lambda>_. ret_m x)) s))"
  using assms(2) unfolding terminal_replied [OF assms(1)] by (auto simp: passes_by_def same_group_def failures_def)

lemma deadletter_replied:
  assumes "all_replied v"
  shows "deadletter v i u payload err s =
    (Inr (), s\<lparr>w_db := insert_dead \<lparr>dd_ulid = u, dd_payload = sanitize_json payload, dd_error = take 2000 (mem_exc_text err), dd_entry = i\<rparr> (w_db s)\<rparr>)"
  using assms by (simp add: deadletter_def all_replied_def Let_def)

lemma spares_dead: "dd_entry row \<noteq> ce_id e \<Longrightarrow> passes_by e u s (s\<lparr>w_db := insert_dead row (w_db s)\<rparr>)"
  using insert_dead_other [of row "ce_id e" "w_db s"] by (simp add: passes_by_def same_group_def failures_def insert_dead_keeps)

lemma spares_poison:
  assumes "ce_id f \<noteq> ce_id e"
  shows "passes_by e u s (s\<lparr>w_poison := AList.update (ce_id f) n (w_poison s)\<rparr>)" "passes_by e u s (s\<lparr>w_poison := AList.delete (ce_id f) (w_poison s)\<rparr>)"
    "passes_by e u s (s\<lparr>w_poison := AList.delete (ce_id f) (w_poison s), w_infra := True\<rparr>)"
  using assms by (simp_all add: passes_by_def same_group_def failures_def update_conv' delete_conv')

lemma spares_own_end:
  assumes "all_replied v" "ce_id f \<noteq> ce_id e"
  shows "\<exists>r s'. bind_m (drop_poison f) (\<lambda>_. bind_m (publish_result v f j replay) (\<lambda>_. bind_m (ack v f) (\<lambda>_. ret_m x))) s = (Inr r, s') \<and> passes_by e u s s'"
  using assms by (auto simp: all_replied_def bind_m_def drop_poison_def upd_def publish_result_def redis_call_def ack_def ret_m_def passes_by_def same_group_def
      failures_def delete_conv' split: option.splits)

lemma other_spared:
  assumes "all_replied v" "ce_id f \<noteq> ce_id e" "\<not> w_sink_open s" "\<And>p j. ce_intent f = Inr (p, j) \<Longrightarrow> in_ulid j \<noteq> u"
  shows "\<exists>r s'. handle_entry sha emb limit v f s = (Inr r, s') \<and> passes_by e u s s'"
proof (cases "ce_intent f")
  case (Inl msg)
  define row where "row = \<lparr>dd_ulid = ce_ulid f, dd_payload = sanitize_json (JObj [(''raw'', ce_fields f)]), dd_error = take 2000 (mem_exc_text (Other msg)), dd_entry = ce_id f\<rparr>"
  define s1 where "s1 = s\<lparr>w_db := insert_dead row (w_db s)\<rparr>"
  have s1: "passes_by e u s s1"
    using spares_dead [of row e u s] assms(2) by (simp add: s1_def row_def)
  have "handle_entry sha emb limit v f s = bind_m (publish_terminal v f) (\<lambda>_. bind_m (ack v f) (\<lambda>_. ret_m (Some True))) s1"
    by (simp add: handle_entry_def Inl try_m_def deadletter_replied [OF assms(1)] s1_def row_def)
  then show ?thesis
    using spares_terminal [OF assms(1,2), of u s1 "Some True"] spares_trans [OF s1] by (simp add: terminal_replied [OF assms(1)])
next
  case (Inr q)
  obtain p j where q: "q = (p, j)"
    by fastforce
  have u: "in_ulid j \<noteq> u"
    using assms(4) Inr q by blast
  obtain x s1 where w: "write_intent sha emb v j s = (x, s1)"
    by fastforce
  then obtain db where db: "s1 = s\<lparr>w_db := db\<rparr>" "map_of (md_idem db) u = map_of (md_idem (w_db s)) u" "md_dead db = md_dead (w_db s)"
    using write_intent_other [OF w u] by blast
  have s1: "passes_by e u s s1"
    unfolding db(1) by (rule spares_db [OF db(2,3)])
  have sink: "\<not> w_sink_open s1"
    using assms(3) db(1) by simp
  show ?thesis
  proof (cases x)
    case ok: (Inr y)
    obtain r replay where y: "y = (r, replay)"
      by fastforce
    have "handle_entry sha emb limit v f s = bind_m (drop_poison f) (\<lambda>_. bind_m (publish_result v f (Some r) replay) (\<lambda>_. bind_m (ack v f) (\<lambda>_. ret_m (Some True)))) s1"
      by (simp add: handle_entry_def Inr q try_m_def w ok y)
    then show ?thesis
      using spares_own_end [OF assms(1,2), where ?u = u] spares_trans [OF s1] by metis
  next
    case bad: (Inl y)
    have h: "handle_entry sha emb limit v f s = retry_or_exhaust v limit f y (deadletter v (ce_id f) (in_ulid j) p y) s1"
      by (simp add: handle_entry_def Inr q try_m_def w bad)
    show ?thesis
    proof (cases "transient y")
      case True
      then have "handle_entry sha emb limit v f s = (Inr None, s1\<lparr>w_poison := AList.delete (ce_id f) (w_poison s1), w_infra := True\<rparr>)"
        by (simp add: h retry_or_exhaust_def bind_m_def drop_poison_def upd_def ret_m_def)
      then show ?thesis
        using spares_poison(3) [OF assms(2)] spares_trans [OF s1] by blast
    next
      case False
      define n where "n = failures f s1 + 1"
      define s2 where "s2 = s1\<lparr>w_poison := AList.update (ce_id f) n (w_poison s1)\<rparr>"
      have s2: "passes_by e u s s2"
        unfolding s2_def by (rule spares_trans [OF s1 spares_poison(1) [OF assms(2)]])
      have c: "handle_entry sha emb limit v f s = count_poison v limit f (deadletter v (ce_id f) (in_ulid j) p y) s1"
        using False sink by (simp add: h retry_or_exhaust_def)
      show ?thesis
      proof (cases "n < limit")
        case True
        then have "handle_entry sha emb limit v f s = (Inr None, s2)"
          by (simp add: c count_poison_def Let_def n_def s2_def failures_def)
        then show ?thesis
          using s2 by blast
      next
        case False
        define row where "row = \<lparr>dd_ulid = in_ulid j, dd_payload = sanitize_json p, dd_error = take 2000 (mem_exc_text y), dd_entry = ce_id f\<rparr>"
        define s3 where "s3 = s2\<lparr>w_db := insert_dead row (w_db s2)\<rparr>"
        have s3: "passes_by e u s s3"
          unfolding s3_def by (rule spares_trans [OF s2 spares_dead]) (simp add: row_def assms(2))
        have "handle_entry sha emb limit v f s = bind_m (drop_poison f) (\<lambda>_. bind_m (publish_result v f None False) (\<lambda>_. bind_m (ack v f) (\<lambda>_. ret_m (Some True)))) s3"
          using False unfolding c count_poison_def Let_def failures_def [symmetric] n_def [symmetric] s2_def [symmetric]
          by (simp add: try_m_def deadletter_replied [OF assms(1)] s3_def row_def publish_terminal_def)
        then show ?thesis
          using spares_own_end [OF assms(1,2), where ?u = u] spares_trans [OF s3] by metis
      qed
    qed
  qed
qed

text \<open>One failed handling of the entry itself: it is counted, or it is put away at the limit.\<close>

lemma own_failure:
  assumes "ce_intent e = Inr (payload, i)" "write_fails sha emb v i" "map_of (md_idem (w_db s)) (in_ulid i) = None" "\<not> w_sink_open s" "all_replied v"
  shows "failures e s + 1 < limit \<Longrightarrow> \<exists>n. handle_entry sha emb limit v e s =
      (Inr None, s\<lparr>w_db := (w_db s)\<lparr>md_next := n\<rparr>, w_poison := AList.update (ce_id e) (failures e s + 1) (w_poison s)\<rparr>)"
    "\<not> failures e s + 1 < limit \<Longrightarrow> \<exists>n row p. dd_entry row = ce_id e \<and> handle_entry sha emb limit v e s =
      (Inr (Some True), s\<lparr>w_db := insert_dead row ((w_db s)\<lparr>md_next := n\<rparr>), w_poison := p,
        w_results := w_results s @ (case ce_request e of None \<Rightarrow> [] | Some rid \<Rightarrow> [(rid, result_envelope None False)]),
        w_pending := filter (\<lambda>j. j \<noteq> ce_id e) (w_pending s)\<rparr>)"
proof -
  obtain x n where w: "\<not> transient x" "write_intent sha emb v i s = (Inl x, s\<lparr>w_db := (w_db s)\<lparr>md_next := n\<rparr>\<rparr>)"
    using assms(2,3) unfolding write_fails_def by blast
  define s1 where "s1 = s\<lparr>w_db := (w_db s)\<lparr>md_next := n\<rparr>\<rparr>"
  have h: "handle_entry sha emb limit v e s = count_poison v limit e (deadletter v (ce_id e) (in_ulid i) payload x) s1"
    using assms(1,4) w by (simp add: handle_entry_def try_m_def retry_or_exhaust_def s1_def)
  have f: "failures e s1 = failures e s"
    by (simp add: failures_def s1_def)
  show "\<exists>n. handle_entry sha emb limit v e s =
      (Inr None, s\<lparr>w_db := (w_db s)\<lparr>md_next := n\<rparr>, w_poison := AList.update (ce_id e) (failures e s + 1) (w_poison s)\<rparr>)" if l: "failures e s + 1 < limit"
    by (rule exI [of _ n]) (use l in \<open>simp add: h count_poison_def Let_def failures_def s1_def\<close>)
  assume l: "\<not> failures e s + 1 < limit"
  define row where "row = \<lparr>dd_ulid = in_ulid i, dd_payload = sanitize_json payload, dd_error = take 2000 (mem_exc_text x), dd_entry = ce_id e\<rparr>"
  have "handle_entry sha emb limit v e s = (Inr (Some True), s\<lparr>w_db := insert_dead row ((w_db s)\<lparr>md_next := n\<rparr>),
      w_poison := AList.delete (ce_id e) (AList.update (ce_id e) (failures e s + 1) (w_poison s)),
      w_results := w_results s @ (case ce_request e of None \<Rightarrow> [] | Some rid \<Rightarrow> [(rid, result_envelope None False)]),
      w_pending := filter (\<lambda>j. j \<noteq> ce_id e) (w_pending s)\<rparr>)"
    using l assms(5) by (simp add: h count_poison_def failures_def Let_def try_m_def deadletter_def all_replied_def bind_m_def drop_poison_def
        upd_def publish_terminal_def publish_result_def redis_call_def ack_def ret_m_def row_def s1_def split: option.splits)
  then show "\<exists>n row p. dd_entry row = ce_id e \<and> handle_entry sha emb limit v e s =
      (Inr (Some True), s\<lparr>w_db := insert_dead row ((w_db s)\<lparr>md_next := n\<rparr>), w_poison := p,
        w_results := w_results s @ (case ce_request e of None \<Rightarrow> [] | Some rid \<Rightarrow> [(rid, result_envelope None False)]),
        w_pending := filter (\<lambda>j. j \<noteq> ce_id e) (w_pending s)\<rparr>)"
    by (intro exI [of _ n] exI [of _ row]) (auto simp: row_def)
qed

section \<open>The cursor comes round\<close>

text \<open>The entries the cursor has not passed, all of them and those that are pending.\<close>

definition ahead :: "string \<Rightarrow> 'e wstate \<Rightarrow> entry list" where
  "ahead c s = (let es = take (w_delivered s) (w_stream s) in if c = ''0'' then es else tl (dropWhile (\<lambda>e. ce_id e \<noteq> c) es))"

definition due :: "string \<Rightarrow> 'e wstate \<Rightarrow> entry list" where
  "due c s = filter (\<lambda>e. ce_id e \<in> set (w_pending s)) (ahead c s)"

definition place :: "'a \<Rightarrow> 'a list \<Rightarrow> nat" where
  "place x xs = length (takeWhile (\<lambda>y. y \<noteq> x) xs)"

text \<open>How many reads of the pending entries come before the one that meets this entry.\<close>

definition distance :: "entry \<Rightarrow> 'e wstate \<Rightarrow> nat" where
  "distance e s = (if e \<in> set (due (w_cursor s) s) then place e (due (w_cursor s) s) else length (due (w_cursor s) s) + 1 + place e (due ''0'' s))"

lemma pending_after_due: "pending_after c s = (case due c s of [] \<Rightarrow> None | e # _ \<Rightarrow> Some e)"
proof -
  have "List.find P xs = (case filter P xs of [] \<Rightarrow> None | e # _ \<Rightarrow> Some e)" for P and xs :: "entry list"
    by (induction xs) auto
  then show ?thesis
    by (simp add: pending_after_def due_def ahead_def Let_def)
qed

lemma place_less: "x \<in> set xs \<Longrightarrow> place x xs < length xs"
  unfolding place_def by (induction xs) auto

lemma place_split: "x \<notin> set xs \<Longrightarrow> place x (xs @ x # ys) = length xs"
  unfolding place_def by (induction xs) auto

lemma place_filter: "P x \<Longrightarrow> place x (filter P xs) \<le> place x xs"
  unfolding place_def by (induction xs) auto

lemma ahead_suffix: "\<exists>pre. ahead ''0'' s = pre @ ahead c s"
proof (cases "c = ''0''")
  case False
  let ?es = "take (w_delivered s) (w_stream s)"
  let ?d = "dropWhile (\<lambda>e. ce_id e \<noteq> c) ?es"
  have "?es = takeWhile (\<lambda>e. ce_id e \<noteq> c) ?es @ ?d"
    by simp
  moreover have "?d = [] \<or> ?d = [hd ?d] @ tl ?d"
    by (cases ?d) auto
  ultimately have "\<exists>pre. ?es = pre @ tl ?d"
    by (metis append.assoc append_Nil2 list.sel(2))
  then show ?thesis
    using False by (simp add: ahead_def)
qed simp

lemma due_suffix: "\<exists>pre. due ''0'' s = pre @ due c s"
  using ahead_suffix [of s c] unfolding due_def by (metis filter_append)

lemma in_due0: "e \<in> set (due ''0'' s) \<longleftrightarrow> e \<in> covered s \<and> ce_id e \<in> set (w_pending s)"
  by (auto simp: due_def ahead_def covered_def)

lemma distance_le:
  assumes "e \<in> covered s" "ce_id e \<in> set (w_pending s)"
  shows "distance e s \<le> length (due ''0'' s)"
proof -
  obtain pre where pre: "due ''0'' s = pre @ due (w_cursor s) s"
    using due_suffix by blast
  show ?thesis
  proof (cases "e \<in> set (due (w_cursor s) s)")
    case True
    then show ?thesis
      using place_less [OF True] by (simp add: distance_def pre)
  next
    case False
    have "e \<in> set (due ''0'' s)"
      using assms by (simp add: in_due0)
    then have "e \<in> set pre"
      using False pre by auto
    then obtain a b where ab: "pre = a @ e # b" "e \<notin> set a"
      by (meson split_list_first)
    then have "place e (due ''0'' s) = length a"
      unfolding pre by (simp add: place_split)
    then show ?thesis
      using False by (simp add: distance_def pre ab(1))
  qed
qed

text \<open>After the entry the cursor was moved to.\<close>

lemma due_next:
  assumes "due c s = f # rest" "distinct (map ce_id (w_stream s))" "ce_id f \<noteq> ''0''"
    and "w_stream s' = w_stream s" "w_delivered s' = w_delivered s" "set (w_pending s') \<subseteq> set (w_pending s)"
  shows "due (ce_id f) s' = filter (\<lambda>e. ce_id e \<in> set (w_pending s')) rest"
proof -
  obtain xs ys where xy: "ahead c s = xs @ f # ys" "rest = filter (\<lambda>e. ce_id e \<in> set (w_pending s)) ys"
    using assms(1) unfolding due_def by (auto simp: filter_eq_Cons_iff)
  obtain pre where pre: "take (w_delivered s) (w_stream s) = pre @ ahead c s"
    using ahead_suffix [of s c] by (auto simp: ahead_def)
  have es: "take (w_delivered s) (w_stream s) = (pre @ xs) @ f # ys"
    using pre xy(1) by simp
  have "distinct (map ce_id (take (w_delivered s) (w_stream s)))"
    using assms(2) by (simp add: take_map [symmetric])
  then have "ce_id f \<notin> ce_id ` set (pre @ xs)"
    unfolding es by auto
  then have "ce_id x \<noteq> ce_id f" if "x \<in> set (pre @ xs)" for x
    using that by (metis image_eqI)
  then have "dropWhile (\<lambda>e. ce_id e \<noteq> ce_id f) (take (w_delivered s) (w_stream s)) = f # ys"
    unfolding es by (subst dropWhile_append2) auto
  then have "ahead (ce_id f) s' = ys"
    using assms(3-5) by (simp add: ahead_def)
  then show ?thesis
    using assms(6) by (auto simp: due_def xy(2) intro!: filter_cong)
qed

lemma due0_shrinks:
  assumes "w_stream s' = w_stream s" "w_delivered s' = w_delivered s" "set (w_pending s') \<subseteq> set (w_pending s)"
  shows "due ''0'' s' = filter (\<lambda>e. ce_id e \<in> set (w_pending s')) (due ''0'' s)"
  using assms by (auto simp: due_def ahead_def intro!: filter_cong)

text \<open>A loop with nothing new, in which the entry is still to be handled, or has been put away with its dead letter and its failure.\<close>

definition undisturbed :: "'e wstate \<Rightarrow> bool" where
  "undisturbed s \<longleftrightarrow> w_group s \<and> w_delivered s = w_arrived s \<and> w_arrived s \<le> length (w_stream s) \<and> distinct (map ce_id (w_stream s)) \<and>
     (\<forall>f \<in> set (w_stream s). ce_id f \<noteq> ''0'') \<and> \<not> w_sink_open s"

text \<open>No other entry carries the same identifier of an intent.\<close>

definition alone :: "entry \<Rightarrow> string \<Rightarrow> 'e wstate \<Rightarrow> bool" where
  "alone e u s \<longleftrightarrow> e \<in> covered s \<and> (\<forall>f \<in> set (w_stream s). f \<noteq> e \<longrightarrow> (\<forall>p j. ce_intent f = Inr (p, j) \<longrightarrow> in_ulid j \<noteq> u)) \<and>
     map_of (md_idem (w_db s)) u = None"

definition waiting :: "nat \<Rightarrow> entry \<Rightarrow> string \<Rightarrow> 'e wstate \<Rightarrow> bool" where
  "waiting limit e u s \<longleftrightarrow> undisturbed s \<and> alone e u s \<and> ce_id e \<in> set (w_pending s) \<and> failures e s < limit \<and>
     ce_id e \<notin> dd_entry ` set (md_dead (w_db s))"

definition buried :: "entry \<Rightarrow> string \<Rightarrow> 'e wstate \<Rightarrow> bool" where
  "buried e u s \<longleftrightarrow> undisturbed s \<and> alone e u s \<and> ce_id e \<notin> set (w_pending s) \<and> ce_id e \<in> dd_entry ` set (md_dead (w_db s)) \<and>
     (\<forall>rid. ce_request e = Some rid \<longrightarrow> (rid, result_envelope None False) \<in> set (w_results s))"

lemma spared_same:
  assumes "passes_by e u s s'"
  shows "undisturbed s' = undisturbed s" "alone e u s' = alone e u s" "waiting limit e u s' = waiting limit e u s"
    "due ''0'' s' = filter (\<lambda>e. ce_id e \<in> set (w_pending s')) (due ''0'' s)"
  using assms due0_shrinks [of s' s]
  by (simp_all add: passes_by_def same_group_def undisturbed_def alone_def waiting_def covered_def)

text \<open>A quiet round is one read of the pending entries.\<close>

lemma quiet_read:
  assumes "quiet_round w" "undisturbed s"
  shows "run_round sha emb limit w s = (case due (w_cursor s) s of
      [] \<Rightarrow> s\<lparr>w_infra := False, w_cursor := ''0''\<rparr>
    | f # _ \<Rightarrow> run_guarded (rd_repair w) (handle_entry sha emb limit (rd_wold w) f) (s\<lparr>w_infra := False, w_cursor := ce_id f\<rparr>))"
proof -
  let ?s = "s\<lparr>w_infra := False\<rparr>"
  have a: "(arrive (rd_arrive w) s)\<lparr>w_infra := False\<rparr> = ?s"
    using assms by (simp add: arrive_def quiet_round_def undisturbed_def)
  have "step sha emb limit (rd_new w) (rd_wnew w) ?s = (Inr None, ?s)"
    using assms by (simp add: step_def read_new_def read_group_def next_new_def bind_m_def ret_m_def quiet_round_def undisturbed_def)
  then have t: "tick sha emb limit (rd_new w) (rd_wnew w) (rd_old w) (rd_wold w) ?s = tick_pending sha emb limit (rd_old w) (rd_wold w) ?s"
    by (simp add: tick_def bind_m_def)
  have p: "pending_after c ?s = pending_after c s" for c
    by (simp add: pending_after_def)
  have r: "read_pending (rd_old w) c ?s = (Inr (pending_after c s), ?s)" for c
    using assms p by (simp add: read_pending_def read_group_def quiet_round_def undisturbed_def)
  show ?thesis
    unfolding run_round_def a run_guarded_def t tick_pending_def
    by (cases "due (w_cursor s) s") (simp_all add: bind_m_def r pending_after_due upd_def ret_m_def)
qed

lemma due_marked: "due c (s\<lparr>w_infra := b, w_cursor := d\<rparr>) = due c s"
  by (simp add: due_def ahead_def)

text \<open>The four things a quiet round can do: bring the cursor round, handle another entry, count a failure, put the entry away.\<close>

lemma quiet_round_cases:
  assumes "ce_intent e = Inr (payload, i)" "quiet_round w" "write_fails sha emb (rd_wold w) i" "undisturbed s" "alone e (in_ulid i) s"
  obtains (round) "due (w_cursor s) s = []" "run_round sha emb limit w s = s\<lparr>w_infra := False, w_cursor := ''0''\<rparr>"
  | (other) f rest s' where "due (w_cursor s) s = f # rest" "f \<noteq> e" "run_round sha emb limit w s = s'"
      "passes_by e (in_ulid i) (s\<lparr>w_infra := False, w_cursor := ce_id f\<rparr>) s'"
  | (counted) rest n where "due (w_cursor s) s = e # rest" "failures e s + 1 < limit" "run_round sha emb limit w s =
      s\<lparr>w_infra := False, w_cursor := ce_id e, w_db := (w_db s)\<lparr>md_next := n\<rparr>, w_poison := AList.update (ce_id e) (failures e s + 1) (w_poison s)\<rparr>"
  | (away) n row p where "\<not> failures e s + 1 < limit" "dd_entry row = ce_id e" "run_round sha emb limit w s =
      s\<lparr>w_infra := False, w_cursor := ce_id e, w_db := insert_dead row ((w_db s)\<lparr>md_next := n\<rparr>), w_poison := p,
        w_results := w_results s @ (case ce_request e of None \<Rightarrow> [] | Some rid \<Rightarrow> [(rid, result_envelope None False)]),
        w_pending := filter (\<lambda>j. j \<noteq> ce_id e) (w_pending s)\<rparr>"
proof (cases "due (w_cursor s) s")
  case Nil
  then show thesis
    using quiet_read [OF assms(2,4), of sha emb limit] by (intro round) simp_all
next
  case (Cons f rest)
  let ?s = "s\<lparr>w_infra := False, w_cursor := ce_id f\<rparr>"
  have run: "run_round sha emb limit w s = run_guarded (rd_repair w) (handle_entry sha emb limit (rd_wold w) f) ?s"
    using quiet_read [OF assms(2,4), of sha emb limit] Cons by simp
  have ok: "all_replied (rd_wold w)" "\<not> w_sink_open ?s" "map_of (md_idem (w_db ?s)) (in_ulid i) = None"
    using assms by (simp_all add: quiet_round_def undisturbed_def alone_def)
  have fin: "f \<in> set (w_stream s)"
  proof -
    have "f \<in> set (due ''0'' s)"
      using due_suffix [of s "w_cursor s"] Cons by auto
    then show ?thesis
      using covered_in by (auto simp: in_due0)
  qed
  have fail: "failures e (s\<lparr>w_infra := False, w_cursor := c\<rparr>) = failures e s" for c
    by (simp add: failures_def)
  show thesis
  proof (cases "f = e")
    case False
    have "inj_on ce_id (set (w_stream s))" "e \<in> set (w_stream s)"
      using assms(4,5) covered_in by (auto simp: undisturbed_def alone_def distinct_map)
    then have "ce_id f \<noteq> ce_id e"
      using False fin by (auto dest: inj_onD)
    then obtain r s' where "handle_entry sha emb limit (rd_wold w) f ?s = (Inr r, s')" "passes_by e (in_ulid i) ?s s'"
      using other_spared [OF ok(1) _ ok(2), of f e "in_ulid i" sha emb limit] False fin assms(5) unfolding alone_def by blast
    then show thesis
      using Cons False run by (intro other [of f rest s']) (simp_all add: run_guarded_def)
  next
    case True
    show thesis
    proof (cases "failures e s + 1 < limit")
      case l: True
      obtain n where "handle_entry sha emb limit (rd_wold w) e ?s =
          (Inr None, ?s\<lparr>w_db := (w_db ?s)\<lparr>md_next := n\<rparr>, w_poison := AList.update (ce_id e) (failures e ?s + 1) (w_poison ?s)\<rparr>)"
        using own_failure(1) [OF assms(1,3) ok(3,2,1)] l fail by metis
      then show thesis
        using Cons True run l by (intro counted [of rest n]) (simp_all add: run_guarded_def fail)
    next
      case l: False
      obtain n row p where "dd_entry row = ce_id e" "handle_entry sha emb limit (rd_wold w) e ?s =
          (Inr (Some True), ?s\<lparr>w_db := insert_dead row ((w_db ?s)\<lparr>md_next := n\<rparr>), w_poison := p,
            w_results := w_results ?s @ (case ce_request e of None \<Rightarrow> [] | Some rid \<Rightarrow> [(rid, result_envelope None False)]),
            w_pending := filter (\<lambda>j. j \<noteq> ce_id e) (w_pending ?s)\<rparr>)"
        using own_failure(2) [OF assms(1,3) ok(3,2,1)] l fail by metis
      then show thesis
        using True run l by (intro away [of row p n]) (simp_all add: run_guarded_def)
    qed
  qed
qed

text \<open>Every quiet round brings the limit nearer: a handling counts, and between two of them at most all the pending entries are read.\<close>

definition to_go :: "nat \<Rightarrow> nat \<Rightarrow> entry \<Rightarrow> 'e wstate \<Rightarrow> nat" where
  "to_go limit n e s = (limit - 1 - failures e s) * (n + 1) + distance e s"

lemma marked_same:
  "undisturbed (s\<lparr>w_infra := b, w_cursor := c\<rparr>) = undisturbed s" "alone e u (s\<lparr>w_infra := b, w_cursor := c\<rparr>) = alone e u s"
  "waiting limit e u (s\<lparr>w_infra := b, w_cursor := c\<rparr>) = waiting limit e u s" "failures e (s\<lparr>w_infra := b, w_cursor := c\<rparr>) = failures e s"
  by (simp_all add: undisturbed_def alone_def waiting_def covered_def failures_def)

lemma counted_to_go:
  assumes "f + 1 < limit" "d \<le> (n :: nat)"
  shows "(limit - 1 - (f + 1)) * (n + 1) + d < (limit - 1 - f) * (n + 1) + x"
proof -
  have "limit - 1 - f = Suc (limit - 1 - (f + 1))"
    using assms(1) by simp
  then show ?thesis
    using assms(2) by simp
qed

lemma waiting_round:
  assumes "ce_intent e = Inr (payload, i)" "quiet_round w" "write_fails sha emb (rd_wold w) i" "waiting limit e (in_ulid i) s" "length (due ''0'' s) \<le> n"
    and s': "s' = run_round sha emb limit w s"
  shows "buried e (in_ulid i) s' \<and> limit \<le> failures e s + 1 \<or>
    waiting limit e (in_ulid i) s' \<and> length (due ''0'' s') \<le> n \<and> failures e s' \<le> failures e s + 1 \<and> to_go limit n e s' < to_go limit n e s"
proof -
  let ?u = "in_ulid i"
  have st: "undisturbed s" "alone e ?u s" "ce_id e \<in> set (w_pending s)" "e \<in> covered s"
    using assms(4) by (simp_all add: waiting_def alone_def)
  have dist: "distinct (map ce_id (w_stream s))" and zero: "\<And>f. f \<in> set (w_stream s) \<Longrightarrow> ce_id f \<noteq> ''0''"
    using st(1) by (simp_all add: undisturbed_def)
  have e0: "e \<in> set (due ''0'' s)"
    using st by (simp add: in_due0)
  from assms(1-3) st(1,2) show ?thesis
  proof (cases rule: quiet_round_cases [where ?limit = limit])
    case round
    have "to_go limit n e s' < to_go limit n e s"
      using round(1) e0 by (simp add: s' round(2) to_go_def distance_def due_marked marked_same)
    then show ?thesis
      using assms(4,5) by (simp add: s' round(2) marked_same due_marked)
  next
    case (other f rest t)
    let ?s = "s\<lparr>w_infra := False, w_cursor := ce_id f\<rparr>"
    note sp = spared_same [OF other(4)]
    have t: "s' = t" "failures e t = failures e s" "w_cursor t = ce_id f" "w_stream t = w_stream s" "w_delivered t = w_delivered s"
        "set (w_pending t) \<subseteq> set (w_pending s)" "ce_id e \<in> set (w_pending t)"
      using other(3,4) s' st(3) by (simp_all add: passes_by_def same_group_def marked_same)
    have f: "f \<in> set (due ''0'' s)"
      using due_suffix [of s "w_cursor s"] other(1) by auto
    then have "ce_id f \<noteq> ''0''"
      using zero covered_in by (auto simp: in_due0)
    from due_next [OF other(1) dist this t(4-6)] have nx: "due (w_cursor t) t = filter (\<lambda>e. ce_id e \<in> set (w_pending t)) rest"
      by (simp add: t(3))
    have all: "due ''0'' t = filter (\<lambda>e. ce_id e \<in> set (w_pending t)) (due ''0'' s)"
      by (rule due0_shrinks [OF t(4-6)])
    have le: "length (due ''0'' t) \<le> n"
      unfolding all using assms(5) length_filter_le order_trans by blast
    have "distance e t < distance e s"
    proof (cases "e \<in> set rest")
      case True
      then have "e \<in> set (due (w_cursor t) t)"
        using t(7) by (simp add: nx)
      then show ?thesis
        using True other(1,2) place_filter [of "\<lambda>e. ce_id e \<in> set (w_pending t)" e rest] t(7)
        by (simp add: distance_def nx) (simp add: place_def)
    next
      case False
      have "place e (due ''0'' t) \<le> place e (due ''0'' s)"
        unfolding all using t(7) by (rule place_filter)
      moreover have "length (due (w_cursor t) t) \<le> length rest"
        unfolding nx by (rule length_filter_le)
      moreover have "distance e t = length (due (w_cursor t) t) + 1 + place e (due ''0'' t)"
        using False by (simp add: distance_def nx)
      moreover have "distance e s = length rest + 2 + place e (due ''0'' s)"
        using False other(1,2) by (simp add: distance_def)
      ultimately show ?thesis
        by simp
    qed
    then show ?thesis
      using le sp(3) assms(4) t(1,2) by (simp add: to_go_def marked_same)
  next
    case (counted rest m)
    have k: "covered s' = covered s" "failures e s' = failures e s + 1" "due ''0'' s' = due ''0'' s"
      by (simp_all add: s' counted(3) covered_def failures_def update_conv' due_def ahead_def)
    have "undisturbed s'"
      using st(1) by (simp add: s' counted(3) undisturbed_def)
    moreover have "alone e ?u s'"
      using st(2) unfolding alone_def k(1) by (simp add: s' counted(3))
    ultimately have w: "waiting limit e ?u s'" "failures e s' = failures e s + 1" "due ''0'' s' = due ''0'' s" "e \<in> covered s'" "ce_id e \<in> set (w_pending s')"
      using assms(4) counted(2) st(3,4) k by (simp_all add: waiting_def) (simp_all add: s' counted(3))
    have "distance e s' \<le> n"
      using distance_le [OF w(4,5)] assms(5) by (simp add: w(3))
    from counted_to_go [OF counted(2) this] have "to_go limit n e s' < to_go limit n e s"
      by (simp add: to_go_def w(2))
    then show ?thesis
      using w assms(5) by simp
  next
    case (away m row p)
    have "ce_id e \<in> dd_entry ` set (md_dead (insert_dead row ((w_db s)\<lparr>md_next := m\<rparr>)))"
      using insert_dead_keeps(5) [of row "(w_db s)\<lparr>md_next := m\<rparr>"] away(2) by simp
    then have "buried e ?u s'"
      using st by (simp add: s' away(3) buried_def undisturbed_def alone_def covered_def insert_dead_keeps)
    then show ?thesis
      using away(1) by simp
  qed
qed

lemma buried_round:
  assumes "ce_intent e = Inr (payload, i)" "quiet_round w" "write_fails sha emb (rd_wold w) i" "buried e (in_ulid i) s"
  shows "buried e (in_ulid i) (run_round sha emb limit w s)"
proof -
  have st: "undisturbed s" "alone e (in_ulid i) s" "ce_id e \<notin> set (w_pending s)"
    using assms(4) by (simp_all add: buried_def)
  have out: "e \<notin> set (due c s)" for c
    using st(3) by (simp add: due_def)
  show ?thesis
  proof (cases "due (w_cursor s) s")
    case Nil
    then have "run_round sha emb limit w s = s\<lparr>w_infra := False, w_cursor := ''0''\<rparr>"
      using quiet_read [OF assms(2) st(1), of sha emb limit] by simp
    then show ?thesis
      using assms(4) by (simp add: buried_def marked_same)
  next
    case (Cons g rest)
    from assms(1-3) st(1,2) show ?thesis
    proof (cases rule: quiet_round_cases [where ?limit = limit])
      case (other f rest' t)
      then have "buried e (in_ulid i) t"
        using assms(4) spared_same(1,2) [OF other(4)] unfolding buried_def by (auto simp: marked_same passes_by_def)
      then show ?thesis
        by (simp add: other(3))
    next
      case (counted rest' m)
      then show ?thesis
        using out [of "w_cursor s"] by simp
    next
      case (away m row p)
      have "ce_id e \<in> dd_entry ` set (md_dead (insert_dead row ((w_db s)\<lparr>md_next := m\<rparr>)))"
        using insert_dead_keeps(5) [of row "(w_db s)\<lparr>md_next := m\<rparr>"] away(2) by simp
      then show ?thesis
        using st by (simp add: away(3) buried_def undisturbed_def alone_def covered_def insert_dead_keeps)
    qed (use Cons in simp)
  qed
qed

lemma waiting_rounds:
  assumes "ce_intent e = Inr (payload, i)" "\<forall>w \<in> set ws. quiet_round w \<and> write_fails sha emb (rd_wold w) i"
    and "waiting limit e (in_ulid i) s" "length (due ''0'' s) \<le> n"
  shows "buried e (in_ulid i) (run_ticks sha emb limit ws s) \<and> limit \<le> failures e s + length ws \<or>
    waiting limit e (in_ulid i) (run_ticks sha emb limit ws s) \<and> to_go limit n e (run_ticks sha emb limit ws s) + length ws \<le> to_go limit n e s"
  using assms(2-4)
proof (induction ws arbitrary: s)
  case (Cons w ws)
  let ?s = "run_round sha emb limit w s"
  have b: "buried e (in_ulid i) (run_ticks sha emb limit vs t)" if "buried e (in_ulid i) t" "set vs \<subseteq> set ws" for vs t
    using that
  proof (induction vs arbitrary: t)
    case (Cons v vs)
    have "buried e (in_ulid i) (run_round sha emb limit v t)"
      using buried_round [OF assms(1), of v sha emb t limit] Cons.prems \<open>\<forall>x \<in> set (w # ws). quiet_round x \<and> write_fails sha emb (rd_wold x) i\<close> by auto
    then show ?case
      using Cons.IH Cons.prems(2) by (simp add: run_ticks_def)
  qed (simp add: run_ticks_def)
  have w: "quiet_round w" "write_fails sha emb (rd_wold w) i"
    using Cons.prems(1) by simp_all
  from waiting_round [OF assms(1) w Cons.prems(2,3) refl] show ?case
  proof (elim disjE conjE)
    assume "buried e (in_ulid i) ?s" "limit \<le> failures e s + 1"
    then show ?thesis
      using b [of ?s ws] by (simp add: run_ticks_def)
  next
    assume "waiting limit e (in_ulid i) ?s" "length (due ''0'' ?s) \<le> n" and l: "failures e ?s \<le> failures e s + 1" "to_go limit n e ?s < to_go limit n e s"
    then have "buried e (in_ulid i) (run_ticks sha emb limit ws ?s) \<and> limit \<le> failures e ?s + length ws \<or>
        waiting limit e (in_ulid i) (run_ticks sha emb limit ws ?s) \<and> to_go limit n e (run_ticks sha emb limit ws ?s) + length ws \<le> to_go limit n e ?s"
      using Cons.IH [of ?s] Cons.prems(1) by simp
    moreover have "run_ticks sha emb limit (w # ws) s = run_ticks sha emb limit ws ?s"
      by (simp add: run_ticks_def)
    ultimately show ?thesis
      using l by fastforce
  qed
qed (simp add: run_ticks_def)

section \<open>A stream with a page and a broken entry\<close>

definition fair :: weather where
  "fair = \<lparr>wv_now = 1, wv_seen1 = [], wv_seen2 = [], wv_commit = None, wv_dead = None, wv_canary = True, wv_push = Replied, wv_expire = Replied, wv_ack = Replied\<rparr>"

definition fair_repair :: group_repair where
  "fair_repair = \<lparr>rp_measured = True, rp_race = 0, rp_create = Replied, rp_record = Replied\<rparr>"

definition fair_round :: "nat \<Rightarrow> loop_round" where
  "fair_round n = \<lparr>rd_arrive = n, rd_new = Answered, rd_wnew = fair, rd_old = Answered, rd_wold = fair, rd_repair = fair_repair\<rparr>"

definition page_entry :: entry where
  "page_entry = \<lparr>ce_id = ''1-0'', ce_ulid = ''u1'', ce_request = Some ''q1'', ce_fields = JObj [], ce_intent = Inr (JObj [], demo_intent ''u1'' ''a'' None)\<rparr>"

definition broken_entry :: entry where
  "broken_entry = \<lparr>ce_id = ''2-0'', ce_ulid = ''unknown'', ce_request = None, ce_fields = JObj [], ce_intent = Inl ''KeyError''\<rparr>"

definition textless_intent :: intent where
  "textless_intent = (demo_intent ''u3'' ''c'' None)\<lparr>in_hints := [(demo_hint ''c'')\<lparr>hi_text := Inl ''KeyError''\<rparr>]\<rparr>"

definition textless_entry :: entry where
  "textless_entry = \<lparr>ce_id = ''3-0'', ce_ulid = ''u3'', ce_request = Some ''q3'', ce_fields = JObj [], ce_intent = Inr (JObj [], textless_intent)\<rparr>"

definition demo_loop :: "nat wstate" where
  "demo_loop = \<lparr>w_db = empty_store, w_stream = [page_entry, broken_entry, textless_entry], w_arrived = 0, w_group = True, w_delivered = 0, w_pending = [],
     w_results = [], w_unstorable = [], w_poison = [], w_sink_open = False, w_infra = False, w_cursor = ''0'', w_reensured = 0, w_starts = [], w_ledger = []\<rparr>"

definition demo_stuck :: "nat wstate" where
  "demo_stuck = demo_loop\<lparr>w_arrived := 3, w_delivered := 3, w_pending := [''1-0'', ''3-0'']\<rparr>"

section \<open>Properties\<close>

text \<open>C12: the writer loses no entry silently, and its results are honest. Whatever calls fail, with or without their effect, and however often it reads: an entry the group has passed
  is still pending, or its intent was committed, or it has a dead letter, or it was logged as one that cannot be stored, or it lies at or before an identifier from which a vanished
  group was created again; and no group is created again while none vanishes. A published result answers the request of an entry that was delivered: with the failure only if
  that entry was put away, and with a receipt only if it is the one recorded under that entry's own key.\<close>

theorem delivered_entries_are_accounted_for:
  assumes "w_delivered s = 0" "w_results s = []" "distinct (map ce_id (w_stream s))" "w_arrived s \<le> length (w_stream s)" "s' = run sha emb limit g ds ws s"
  shows "(w_group s' \<longrightarrow> (\<forall>e \<in> set (take (w_delivered s') (w_stream s')).
       ce_id e \<in> set (w_pending s') \<or> accounted e s' \<or> (\<exists>b \<in> set (w_starts s'). e \<in> set (take b (w_stream s'))))) \<and>
    (w_group s \<and> (\<forall>(r, v) \<in> set ds. r \<noteq> Vanished) \<and> (\<forall>w \<in> set ws. rd_new w \<noteq> Vanished \<and> rd_old w \<noteq> Vanished) \<longrightarrow>
       w_group s' \<and> w_starts s' = w_starts s) \<and>
    (\<forall>rid j. (rid, j) \<in> set (w_results s') \<longrightarrow> (\<exists>e \<in> set (take (w_delivered s') (w_stream s')). ce_request e = Some rid \<and>
       (j = result_envelope None False \<and> put_away e s' \<or> (\<exists>r replay. own_receipt e r s' \<and> j = result_envelope (Some r) replay))))"
proof -
  have s0: "loop_ok (s\<lparr>w_infra := False\<rparr>)"
    using assms(1-4) by (simp add: loop_ok_def results_ok_def covered_def)
  have ok: "loop_ok s'"
    unfolding assms(5) run_def by (intro run_ticks_loop_ok run_guarded_loop_ok drain_loop_ok s0)
  have kept: "kept_group s s'" if "w_group s" "\<forall>(r, v) \<in> set ds. r \<noteq> Vanished" "\<forall>w \<in> set ws. steady w"
  proof -
    let ?t = "run_guarded g (drain_pending sha emb limit g ds 0) (s\<lparr>w_infra := False\<rparr>)"
    have k: "kept_group (s\<lparr>w_infra := False\<rparr>) ?t"
      by (rule guarded_keeps_group [OF drain_keeps_group]) (use that in simp_all)
    then have "w_group ?t"
      using that(1) by (simp add: kept_group_def)
    from ticks_keep_group [OF that(3) this] k show ?thesis
      by (simp add: assms(5) run_def kept_group_def)
  qed
  have res: "results_ok s'" and acc: "w_group s' \<longrightarrow> (\<forall>e \<in> covered s'. ce_id e \<in> set (w_pending s') \<or> accounted e s' \<or> passed_over e s')"
    using ok by (simp_all add: loop_ok_def)
  have "\<exists>e \<in> set (take (w_delivered s') (w_stream s')). ce_request e = Some rid \<and>
       (j = result_envelope None False \<and> put_away e s' \<or> (\<exists>r replay. own_receipt e r s' \<and> j = result_envelope (Some r) replay))"
    if "(rid, j) \<in> set (w_results s')" for rid j
  proof -
    obtain e where "e \<in> set (take (w_delivered s') (w_stream s'))" "honest e (rid, j) s'"
      using res \<open>(rid, j) \<in> set (w_results s')\<close> unfolding results_ok_def by blast
    then show ?thesis
      unfolding honest_def by auto
  qed
  then show ?thesis
    using acc kept unfolding covered_def passed_over_def kept_group_def steady_def by blast
qed

text \<open>The first entry is committed but its acknowledgement is lost; then the group vanishes when the second arrives, and is created again after it.\<close>

theorem delivered_entries_are_accounted_for_witness:
  "\<exists>s'. s' = run plain_text demo_embed 5 fair_repair [] [(fair_round 1)\<lparr>rd_wnew := fair\<lparr>wv_ack := Unreplied False\<rparr>\<rparr>, (fair_round 1)\<lparr>rd_new := Vanished\<rparr>, fair_round 1] demo_loop \<and>
     w_starts s' = [2] \<and> (accounted page_entry s' \<or> (\<exists>b \<in> {2 :: nat}. page_entry \<in> set (take b (w_stream s')))) \<and>
     (\<exists>e. ce_request e = Some ''q1'' \<and> (put_away e s' \<or> (\<exists>r. own_receipt e r s')))"
proof -
  define s' where "s' = run plain_text demo_embed 5 fair_repair [] [(fair_round 1)\<lparr>rd_wnew := fair\<lparr>wv_ack := Unreplied False\<rparr>\<rparr>, (fair_round 1)\<lparr>rd_new := Vanished\<rparr>, fair_round 1] demo_loop"
  have e: "w_pending s' = [''3-0''] \<and> w_delivered s' = 3 \<and> w_stream s' = [page_entry, broken_entry, textless_entry] \<and> w_group s' \<and> w_starts s' = [2]"
    unfolding s'_def by code_simp
  have q: "list_ex (\<lambda>(rid, j). rid = ''q1'') (w_results s')"
    unfolding s'_def by code_simp
  have "w_delivered demo_loop = 0" "w_results demo_loop = []" "distinct (map ce_id (w_stream demo_loop))" "w_arrived demo_loop \<le> length (w_stream demo_loop)"
    by (simp_all add: demo_loop_def page_entry_def broken_entry_def textless_entry_def)
  note r = delivered_entries_are_accounted_for [OF this s'_def]
  have "page_entry \<in> set (take (w_delivered s') (w_stream s'))" "ce_id page_entry \<notin> set (w_pending s')"
    using e by (simp_all add: page_entry_def)
  then have 1: "accounted page_entry s' \<or> (\<exists>b \<in> {2 :: nat}. page_entry \<in> set (take b (w_stream s')))"
    using r e by auto
  obtain j where "(''q1'', j) \<in> set (w_results s')"
    using q by (auto simp: list_ex_iff)
  then have 2: "\<exists>e. ce_request e = Some ''q1'' \<and> (put_away e s' \<or> (\<exists>r. own_receipt e r s'))"
    using r by blast
  show ?thesis
    using e 1 2 s'_def by blast
qed

text \<open>C27: an entry whose write keeps failing is tried by the loop as often as the limit says and then put away. While nothing new arrives and the loop's own calls are answered, whatever
  the other pending entries do: in fewer rounds than the limit it stays pending without a dead letter, and after \<open>limit * (p + 1)\<close> rounds, for \<open>p\<close> pending entries,
  it has a dead letter, is acknowledged, its failure is published to whoever waits for the result, and its key is not recorded. The failure may be any that is not transient: a hint without a
  text, a text that cannot be embedded, an artefact that cannot be read, a transaction the database refuses.\<close>

theorem failing_entry_is_dead_lettered_at_the_limit:
  assumes "ce_intent e = Inr (payload, i)" "\<forall>w \<in> set ws. quiet_round w \<and> write_fails sha emb (rd_wold w) i" "0 < limit"
    and "undisturbed s" "alone e (in_ulid i) s" "ce_id e \<in> set (w_pending s)" "map_of (w_poison s) (ce_id e) = None" "ce_id e \<notin> dd_entry ` set (md_dead (w_db s))"
    and "s' = run_ticks sha emb limit ws s"
  shows "(length ws < limit \<longrightarrow> ce_id e \<in> set (w_pending s') \<and> ce_id e \<notin> dd_entry ` set (md_dead (w_db s'))) \<and>
    (limit * (length (w_pending s) + 1) \<le> length ws \<longrightarrow> ce_id e \<notin> set (w_pending s') \<and> ce_id e \<in> dd_entry ` set (md_dead (w_db s')) \<and>
       (\<forall>rid. ce_request e = Some rid \<longrightarrow> (rid, result_envelope None False) \<in> set (w_results s')) \<and> map_of (md_idem (w_db s')) (in_ulid i) = None)"
proof -
  let ?n = "length (w_pending s)"
  have f: "failures e s = 0"
    using assms(7) by (simp add: failures_def)
  have w: "waiting limit e (in_ulid i) s"
    using assms(3-8) f by (simp add: waiting_def)
  have "distinct (map ce_id (due ''0'' s))"
    using assms(4) by (auto simp: due_def ahead_def undisturbed_def take_map [symmetric] intro: distinct_map_filter)
  then have "length (due ''0'' s) = card (set (map ce_id (due ''0'' s)))"
    by (metis distinct_card length_map)
  also have "\<dots> \<le> card (set (w_pending s))"
    by (rule card_mono) (auto simp: due_def)
  also have "\<dots> \<le> ?n"
    by (rule card_length)
  finally have n: "length (due ''0'' s) \<le> ?n" .
  have "distance e s \<le> ?n"
    using distance_le [of e s] assms(5,6) n by (simp add: alone_def)
  moreover have "limit = Suc (limit - 1)"
    using assms(3) by simp
  then have "limit * (?n + 1) = (limit - 1) * (?n + 1) + (?n + 1)"
    by (metis add.commute mult_Suc)
  ultimately have small: "to_go limit ?n e s < limit * (?n + 1)"
    by (simp add: to_go_def f)
  from waiting_rounds [OF assms(1,2) w n] show ?thesis
    unfolding assms(9) [symmetric] using small f by (auto simp: buried_def waiting_def alone_def)
qed

theorem failing_entry_is_dead_lettered_at_the_limit_witness:
  "''3-0'' \<in> dd_entry ` set (md_dead (w_db (run_ticks plain_text demo_embed 2 (replicate 6 (fair_round 0)) demo_stuck)))"
proof -
  have i: "ce_intent textless_entry = Inr (JObj [], textless_intent)"
    by (simp add: textless_entry_def)
  have "prepare_hints demo_embed (in_hints textless_intent) = Inl (Other ''KeyError'')"
    by (simp add: textless_intent_def bind_r_def)
  from write_fails_hints [OF this] have "\<forall>w \<in> set (replicate 6 (fair_round 0)). quiet_round w \<and> write_fails plain_text demo_embed (rd_wold w) textless_intent"
    by (simp add: quiet_round_def all_replied_def fair_round_def fair_def)
  moreover have "undisturbed demo_stuck" "alone textless_entry (in_ulid textless_intent) demo_stuck"
    by (auto simp: undisturbed_def alone_def covered_def demo_stuck_def demo_loop_def page_entry_def broken_entry_def textless_entry_def textless_intent_def demo_intent_def empty_store_def)
  moreover have "ce_id textless_entry \<in> set (w_pending demo_stuck)" "map_of (w_poison demo_stuck) (ce_id textless_entry) = None"
      "ce_id textless_entry \<notin> dd_entry ` set (md_dead (w_db demo_stuck))"
    by (simp_all add: demo_stuck_def demo_loop_def textless_entry_def empty_store_def)
  moreover have "2 * (length (w_pending demo_stuck) + 1) \<le> length (replicate 6 (fair_round 0))"
    by (simp add: demo_stuck_def)
  ultimately have "ce_id textless_entry \<in> dd_entry ` set (md_dead (w_db (run_ticks plain_text demo_embed 2 (replicate 6 (fair_round 0)) demo_stuck)))"
    using failing_entry_is_dead_lettered_at_the_limit [OF i, of "replicate 6 (fair_round 0)" plain_text demo_embed 2 demo_stuck, OF _ _ _ _ _ _ _ refl] by simp
  then show ?thesis
    by (simp add: textless_entry_def)
qed

end
