(* ===== verification/Spec2Isabelle.thy ===== *)
theory Spec2Isabelle
  imports Stall_Watch Messages_Doors Bus_Registrar Seat_Registrar Dispatch_Authority Lane_Writer Turn_Dispatch Memory_Consumer
begin

text \<open>
  Verification library of the Agent Redis Bridge (ARB), the repository under \<open>src/\<close>.

  The program. Agents exchange JSON envelopes over Redis lists. A bridge daemon owns one agent
  identity, takes requests from its inbox, admits or refuses them, runs them on a pool of engines
  and replies. Around it stand the dispatch authority that publishes briefs and enqueues requests, a
  claim gate that reads PostgreSQL views, a queue of sealed messages behind tool doors, the
  registration of seats and buses, which mints credentials, provisions Redis access rules and asks an operator over Buzz,
  and a memory service, whose writer takes intents from a Redis stream into PostgreSQL.

  The theories, in the order in which they build on each other.

  \<^item> \<open>Arb_Prelude\<close>: results, Python strings, dictionaries, JSON values, UTF-8, and transition systems with the
    locale \<open>inv_system\<close> that every stateful component interprets on its own step relation.
  \<^item> \<open>Py_Base64\<close>, \<open>Py_Json\<close>: the codecs of Python's standard library the sources call, with round trips. The
    JSON parser runs on fuel that the length of the text bounds; \<open>json_loads\<close> supplies twice the
    length and one more, and \<open>json_loads_dumps\<close> shows that this is enough for every printed value.
  \<^item> \<open>Engine_Pool\<close> (\<open>engine_pool.py\<close>): slots, affinity, reservation, release; no engine serves two tasks and the pool
    never starts more than its size.
  \<^item> \<open>Stall_Watch\<close> (\<open>stall_watch.py\<close>): one report for each episode of silence.
  \<^item> \<open>Arb_Crypto\<close> (\<open>arb_crypto\<close>): the wrappers around the external library, which is a parameter with its documented
    laws as predicates.
  \<^item> \<open>Messages_Store\<close>, \<open>Messages_Doors\<close> (\<open>arb_messages\<close>): the queue with leases and a fence, refined to a mailbox, and the doors that
    seal, deliver and fulfil.
  \<^item> \<open>Registration_Store\<close>, \<open>Registration_Protocol\<close>, \<open>Bus_Acl\<close>, \<open>Bus_Registrar\<close> (\<open>arb_registration\<close>): single-use tokens, final decisions and audited key pins; the
    signed wire protocol; generation and transactional provisioning of access rules (a transaction up to the removal of its marker, whose failure is
    described exactly); the registrar that joins them.
  \<^item> \<open>Owner_Key\<close> (\<open>nip_oa.py\<close>): the bech32 decoding of an owner's key, and that its checksum catches a typing error.
  \<^item> \<open>Buzz_Ops\<close>, \<open>Seat_Registrar\<close> (\<open>buzz.py\<close>, \<open>registrar.py\<close>): what the registrar reads and sends on the relay, and its four doors: the handler of a
    request, the poll that turns messages and reactions of the operator into decisions, provisioning, and the token commands. Every member was approved,
    and a decision is what the operator said in what that step read.
  \<^item> \<open>Envelope\<close> (\<open>envelope.py\<close>, \<open>brief_ref.py\<close>): the wire format, exact in both directions.
  \<^item> \<open>Claim_Gate\<close>, \<open>Claim_Resolver\<close> (\<open>claim_gate.py\<close>, \<open>claim_resolver.py\<close>): the admission decision, its locale of an authority,
    interpreted on the PostgreSQL resolver, and the reference table it computes.
  \<^item> \<open>Redis_Io\<close> (\<open>redis_io.py\<close>): the server, the identity lease, the reliable inbox with its two scripts, and recovery.
  \<^item> \<open>Dispatch_Authority\<close> (\<open>dispatch_authority.py\<close>): the only way a request is enqueued.
  \<^item> \<open>Bridge_Admission\<close> (\<open>bridge.py\<close> and small modules): the front of the daemon's handler and mid-turn control, which composes
    envelopes, gate, server and pool.
  \<^item> \<open>Worktree_Lease\<close> (\<open>worktree_lease.py\<close>, lease operations of \<open>bridge.py\<close>): the store of leases with locks, reconciliation, validation, arming with
    compensation, release; quotas as an invariant, and the locale \<open>lane_store\<close> of what it needs of the lane writer.
  \<^item> \<open>Lane_Writer\<close> (\<open>lane_writer.py\<close>, its SQL functions): the privilege table, the start-up check, and the interpretation of
    \<open>lane_store\<close> on the database.
  \<^item> \<open>Continuation_Store\<close> (\<open>agent_sdk_continuation.py\<close>): the binding of sessions to senders and worktrees.
  \<^item> \<open>Turn_Dispatch\<close> (\<open>bridge.py\<close>): the whole of \<open>handle_raw\<close>, from the inbox text to the started worker, and the clean-up at the end of a turn; it joins
    the front, the pool, the lease store and the continuation store in one state. An exception of an engine's start that is not an
    \<open>EngineError\<close>, and a thread that cannot be started, leave the handler without a reply.
  \<^item> \<open>Memory_Store\<close> (\<open>store.py\<close>, \<open>hash.py\<close>, \<open>schema.sql\<close>, the keyed write of \<open>bus.py\<close>): the tables of the memory service, each statement on the committed rows it sees:
    guarded writes as compare-and-set, effect once under a key, retirement of index hints, and the hybrid search over two indexes that may yield anything.
  \<^item> \<open>Memory_Consumer\<close> (\<open>consumer_loop.py\<close>, \<open>WriteLoop\<close> of \<open>bus.py\<close>): the loop over the consumer group with retries, dead letters, results, and the repair of a group that
    vanished. Every call may raise with or without its effect; the loop's runs are lists of rounds, each with what it meets, of any length.

  Conventions. A string is a list of code points below 256. A float is kept as its text. A dictionary is
  an association list in insertion order. An exception is the left summand of a result. Clocks, drawn
  identifiers and the answers of external programs are arguments. ISO times compare as texts, which
  the registration store models by a rank. SHA-256, the curve library, the crypto library, the Redis connector, the
  PostgreSQL server, git, the brief validator, the publish gate, embeddings and the two search indexes are parameters; a law they need is a
  named predicate with a concrete instance that satisfies it.

  What the lemmas show. Each component has an invariant or an exact description of every branch of its
  operations; the properties state the guarantees a user relies on: nothing is lost between push
  and acknowledgement, one owner for each identity and each claim, no admission without a row in
  the store, no enqueue without a receipt bound to the target, no grant without an operator's
  approval, no well-formed request without an answer unless an exception that the theorem names escapes, no intent that takes effect twice or is lost without a trace. Loops are recursive functions: the
  recovery loop and the JSON scanner have termination proofs, all others are structural. The
  places where the code does not do what its comments say are theorems too.

  Not modelled. The threads, sockets and subprocesses of the daemon, what happens in an engine's turn between its start and its
  end, the engine adapters, the files, e-mail and secrets services, the readers, producers and other consumers of the memory service, the benchmark harness, the command lines and
  scripts: they are input and output around external programs or SQL text. Of the modelled
  files, streams and counters of \<open>redis_io.py\<close> beyond those used here, and sources given as a
  mapping to the dispatch authority are left out. Later extensions: the completion gate, the body of a turn, the memory reader and the remaining consumers.
\<close>

end
